(* ===== verification/Go_Prelude.thy ===== *)
theory Go_Prelude
  imports
    Main
    "HOL-Library.Word"
    "HOL-Library.List_Lexorder"
    "HOL-Library.Char_ord"
begin

text \<open>
  What every other theory shares: the collections of simplification rules, Go's machine
  integers and byte strings, the binary search of package sort and the interface of the
  sorted tables that are searched with it.

  A Go string is its list of bytes (\<open>string\<close>, a list of 8-bit characters), and \<open><\<close> on
  strings is the bytewise lexicographic order of \<open>List_Lexorder\<close>, as in Go. A uint64 is
  a \<open>64 word\<close>. Lengths and indexes, which the code never lets wrap, are \<open>nat\<close>.
\<close>

section \<open>Collections\<close>

named_theorems enum_defs "definitions of the tables on the enumerations"
named_theorems usage_simps "componentwise facts about budget counters"
named_theorems table_intros "facts about tables that are sorted by a key"

section \<open>Machine integers\<close>

type_synonym uint64 = "64 word"
type_synonym uint32 = "32 word"

abbreviation max_uint64 :: uint64 where
  "max_uint64 \<equiv> - 1"

lemma unat_max_uint64 [simp]: "unat max_uint64 = 2 ^ 64 - 1"
  by (simp add: unsigned_minus_1_eq_mask mask_eq_exp_minus_1)

lemma uint64_lt: "unat (x :: uint64) < 2 ^ 64"
  using unsigned_less [of x, where ?'a = nat] by simp

lemma uint64_le: "unat (x :: uint64) \<le> 2 ^ 64 - 1"
  using uint64_lt [of x] by simp

text \<open>The guard \<open>math.MaxUint64-left < right\<close> holds exactly when the sum overflows.\<close>

lemma uint64_overflow_iff:
  "max_uint64 - left < right \<longleftrightarrow> 2 ^ 64 \<le> unat left + unat (right :: uint64)"
proof -
  have "unat (max_uint64 - left) = 2 ^ 64 - 1 - unat left"
    using unat_sub [of left max_uint64] by (simp add: word_order.extremum)
  then show ?thesis
    using uint64_le [of left] by (auto simp: word_less_nat_alt)
qed

lemma uint64_add_exact:
  "\<not> max_uint64 - left < right \<Longrightarrow> unat (left + right) = unat left + unat (right :: uint64)"
  by (simp add: uint64_overflow_iff unat_word_ariths)

section \<open>Binary search\<close>

text \<open>
  \<open>sort.Search\<close> of Go's standard library, and the loop that \<open>containsSorted\<close>,
  \<open>containsPort\<close> and \<open>sortContext\<close> write out by hand: the least index of \<open>[i, j)\<close>
  at which \<open>f\<close> holds, provided \<open>f\<close> is monotone there.
\<close>

function search_from :: "(nat \<Rightarrow> bool) \<Rightarrow> nat \<Rightarrow> nat \<Rightarrow> nat" where
  "search_from f i j =
     (if i < j
      then let h = (i + j) div 2
           in if \<not> f h then search_from f (h + 1) j else search_from f i h
      else i)"
  by pat_completeness auto
termination
  by (relation "measure (\<lambda>(f, i, j). j - i)") auto

declare search_from.simps [simp del]

definition sort_search :: "nat \<Rightarrow> (nat \<Rightarrow> bool) \<Rightarrow> nat" where
  "sort_search n f = search_from f 0 n"

lemma search_from_correct:
  assumes "i \<le> j" and "\<And>a b. i \<le> a \<Longrightarrow> a \<le> b \<Longrightarrow> b < j \<Longrightarrow> f a \<Longrightarrow> f b"
  shows "i \<le> search_from f i j \<and> search_from f i j \<le> j
    \<and> (\<forall>k. i \<le> k \<and> k < search_from f i j \<longrightarrow> \<not> f k)
    \<and> (\<forall>k. search_from f i j \<le> k \<and> k < j \<longrightarrow> f k)"
  using assms
proof (induction f i j rule: search_from.induct)
  case (1 f i j)
  define h where "h = (i + j) div 2"
  show ?case
  proof (cases "i < j")
    case False
    with "1.prems"(1) have "i = j" by simp
    then show ?thesis by (auto simp: search_from.simps [of f j j])
  next
    case lt: True
    then have h: "i \<le> h" "h < j" by (auto simp: h_def)
    show ?thesis
    proof (cases "f h")
      case True
      have eq: "search_from f i j = search_from f i h"
        using lt True by (simp add: search_from.simps [of f i j] h_def [symmetric] Let_def)
      have IH: "i \<le> search_from f i h \<and> search_from f i h \<le> h
          \<and> (\<forall>k. i \<le> k \<and> k < search_from f i h \<longrightarrow> \<not> f k)
          \<and> (\<forall>k. search_from f i h \<le> k \<and> k < h \<longrightarrow> f k)"
      proof (rule "1.IH"(2) [OF lt h_def])
        show "\<not> \<not> f h" using True by simp
        show "i \<le> h" by (rule h)
        show "\<And>a b. i \<le> a \<Longrightarrow> a \<le> b \<Longrightarrow> b < h \<Longrightarrow> f a \<Longrightarrow> f b"
          using "1.prems"(2) h by (meson less_trans)
      qed
      have "f k" if "search_from f i h \<le> k" "k < j" for k
        using that IH True "1.prems"(2) [of h k] h by (cases "k < h") auto
      then show ?thesis unfolding eq using IH h by auto
    next
      case False
      have eq: "search_from f i j = search_from f (h + 1) j"
        using lt False by (simp add: search_from.simps [of f i j] h_def [symmetric] Let_def)
      have IH: "h + 1 \<le> search_from f (h + 1) j \<and> search_from f (h + 1) j \<le> j
          \<and> (\<forall>k. h + 1 \<le> k \<and> k < search_from f (h + 1) j \<longrightarrow> \<not> f k)
          \<and> (\<forall>k. search_from f (h + 1) j \<le> k \<and> k < j \<longrightarrow> f k)"
      proof (rule "1.IH"(1) [OF lt h_def False])
        show "h + 1 \<le> j" using h by simp
        show "\<And>a b. h + 1 \<le> a \<Longrightarrow> a \<le> b \<Longrightarrow> b < j \<Longrightarrow> f a \<Longrightarrow> f b"
          using "1.prems"(2) h by (meson add_leD1 le_trans)
      qed
      have "\<not> f k" if "i \<le> k" "k < search_from f (h + 1) j" for k
        using that IH False "1.prems"(2) [of k h] h by (cases "k \<le> h") auto
      then show ?thesis unfolding eq using IH h by auto
    qed
  qed
qed

lemma search_from_le: "i \<le> j \<Longrightarrow> search_from f i j \<le> j"
proof (induction f i j rule: search_from.induct)
  case (1 f i j)
  show ?case
  proof (cases "i < j")
    case False
    with "1.prems" have "i = j" by simp
    then show ?thesis by (simp add: search_from.simps [of f j j])
  next
    case lt: True
    define h where "h = (i + j) div 2"
    have h: "i \<le> h" "h < j" using lt by (auto simp: h_def)
    have step: "search_from f i j = (if \<not> f h then search_from f (h + 1) j else search_from f i h)"
      using lt by (simp add: search_from.simps [of f i j] h_def [symmetric] Let_def)
    show ?thesis
    proof (cases "f h")
      case True
      then have "search_from f i h \<le> h" using "1.IH"(2) [OF lt h_def] h by simp
      with step True h show ?thesis by simp
    next
      case False
      then show ?thesis using "1.IH"(1) [OF lt h_def] step h by simp
    qed
  qed
qed

lemma sort_search_le: "sort_search n f \<le> n"
  by (simp add: sort_search_def search_from_le)

lemma sort_search_correct:
  assumes "\<And>a b. a \<le> b \<Longrightarrow> b < n \<Longrightarrow> f a \<Longrightarrow> f b"
  shows "sort_search n f \<le> n"
    and "k < sort_search n f \<Longrightarrow> \<not> f k"
    and "sort_search n f \<le> k \<Longrightarrow> k < n \<Longrightarrow> f k"
  using search_from_correct [of 0 n f] assms by (auto simp: sort_search_def)

section \<open>Calls that may fail\<close>

text \<open>The rule for \<open>if err != nil { return err }\<close> after a call: success went through both calls.\<close>

lemma try_InrE [elim]:
  assumes "(case x of Inl e \<Rightarrow> Inl e | Inr y \<Rightarrow> f y) = Inr z"
  obtains y where "x = Inr y" and "f y = Inr z"
  using assms by (cases x) auto

section \<open>Tables sorted by a key\<close>

text \<open>
  The stored collections (budget records by lineage, reservations by identity, terminal
  calls by call, object members by name, context values by name) are slices kept strictly
  sorted by one field and searched with \<open>sort_search\<close>. The interface is the search: what
  it returns is at that key, and it returns nothing only when no element has the key.
\<close>

abbreviation keys_sorted :: "('a \<Rightarrow> 'k :: linorder) \<Rightarrow> 'a list \<Rightarrow> bool" where
  "keys_sorted key xs \<equiv> sorted_wrt (<) (map key xs)"

lemma keys_sorted_nth:
  "keys_sorted key xs \<Longrightarrow> i < j \<Longrightarrow> j < length xs \<Longrightarrow> key (xs ! i) < key (xs ! j)"
  using sorted_wrt_nth_less [of "(<)" "map key xs" i j] by simp

lemma keys_sorted_nth_le:
  "keys_sorted key xs \<Longrightarrow> i \<le> j \<Longrightarrow> j < length xs \<Longrightarrow> key (xs ! i) \<le> key (xs ! j)"
  using keys_sorted_nth [of key xs i j] by (cases "i = j") auto

lemma keys_sorted_distinct: "keys_sorted key xs \<Longrightarrow> distinct (map key xs)"
  by (simp add: strict_sorted_iff)

lemma keys_sorted_inj:
  "keys_sorted key xs \<Longrightarrow> x \<in> set xs \<Longrightarrow> y \<in> set xs \<Longrightarrow> key x = key y \<Longrightarrow> x = y"
  by (meson distinct_map inj_onD keys_sorted_distinct)

lemma keys_sorted_filter [table_intros]: "keys_sorted key xs \<Longrightarrow> keys_sorted key (filter P xs)"
  by (induction xs) auto

lemma keys_sorted_take_drop [table_intros]:
  "keys_sorted key xs \<Longrightarrow> keys_sorted key (take i xs @ drop (Suc i) xs)"
proof -
  assume s: "keys_sorted key xs"
  have "set (take i xs @ drop (Suc i) xs) \<subseteq> set xs"
    by (auto dest: in_set_takeD in_set_dropD)
  have "sorted_wrt (<) (map key (take i xs) @ map key (drop i xs))"
    using s by (metis append_take_drop_id map_append)
  moreover have "sorted_wrt (<) (map key (drop (Suc i) xs))"
    using s by (metis drop_map sorted_wrt_drop)
  moreover have "set (drop (Suc i) xs) \<subseteq> set (drop i xs)"
    by (simp add: set_drop_subset_set_drop)
  ultimately show ?thesis by (fastforce simp: sorted_wrt_append)
qed

lemma keys_sorted_map_update:
  "i < length xs \<Longrightarrow> key y = key (xs ! i) \<Longrightarrow> map key (xs[i := y]) = map key xs"
  by (metis list_update_id map_update)

definition search_index :: "('a \<Rightarrow> 'k :: linorder) \<Rightarrow> 'a list \<Rightarrow> 'k \<Rightarrow> nat" where
  "search_index key xs k = sort_search (length xs) (\<lambda>i. k \<le> key (xs ! i))"

lemma search_index_le: "keys_sorted key xs \<Longrightarrow> search_index key xs k \<le> length xs"
  unfolding search_index_def
  by (rule sort_search_correct(1)) (meson keys_sorted_nth_le order_trans)

lemma search_index_before:
  "keys_sorted key xs \<Longrightarrow> i < search_index key xs k \<Longrightarrow> key (xs ! i) < k"
  unfolding search_index_def
  by (drule sort_search_correct(2) [rotated])
    (meson keys_sorted_nth_le order_trans, simp add: not_le)

lemma search_index_after:
  "keys_sorted key xs \<Longrightarrow> search_index key xs k \<le> i \<Longrightarrow> i < length xs \<Longrightarrow> k \<le> key (xs ! i)"
  unfolding search_index_def
  by (erule sort_search_correct(3) [rotated 1])
    (assumption, meson keys_sorted_nth_le order_trans)

lemma keys_sorted_insert [table_intros]:
  assumes "keys_sorted key xs" and "key x \<notin> key ` set xs"
  shows "keys_sorted key (take (search_index key xs (key x)) xs @ x # drop (search_index key xs (key x)) xs)"
proof -
  let ?i = "search_index key xs (key x)"
  have split: "sorted_wrt (<) (map key (take ?i xs) @ map key (drop ?i xs))"
    using assms(1) by (metis append_take_drop_id map_append)
  have le: "?i \<le> length xs" by (rule search_index_le [OF assms(1)])
  have before: "key y < key x" if "y \<in> set (take ?i xs)" for y
    using that search_index_before [OF assms(1)] by (fastforce simp: in_set_conv_nth)
  have after: "key x < key y" if y: "y \<in> set (drop ?i xs)" for y
  proof -
    from y obtain n where "n < length (drop ?i xs)" "y = drop ?i xs ! n"
      by (metis in_set_conv_nth)
    then have "key x \<le> key y"
      using search_index_after [OF assms(1), of "key x" "?i + n"] le by simp
    moreover have "y \<in> set xs" using y by (rule in_set_dropD)
    ultimately show ?thesis using assms(2) by (auto simp: less_le)
  qed
  show ?thesis
    using split before after by (fastforce simp: sorted_wrt_append)
qed

definition find_key :: "('a \<Rightarrow> 'k :: linorder) \<Rightarrow> 'a list \<Rightarrow> 'k \<Rightarrow> nat option" where
  "find_key key xs k =
     (let index = search_index key xs k
      in if index < length xs \<and> key (xs ! index) = k then Some index else None)"

lemma find_key_Some: "find_key key xs k = Some i \<Longrightarrow> i < length xs \<and> key (xs ! i) = k"
  by (auto simp: find_key_def Let_def split: if_splits)

lemma find_key_None: "keys_sorted key xs \<Longrightarrow> find_key key xs k = None \<Longrightarrow> k \<notin> key ` set xs"
proof
  assume s: "keys_sorted key xs" and none: "find_key key xs k = None" and "k \<in> key ` set xs"
  then obtain n where n: "n < length xs" "key (xs ! n) = k" by (auto simp: in_set_conv_nth)
  let ?i = "search_index key xs k"
  have "\<not> n < ?i" using search_index_before [OF s] n by blast
  then have "?i \<le> n" by simp
  then have "key (xs ! ?i) \<le> k" using keys_sorted_nth_le [OF s] n by blast
  moreover have "k \<le> key (xs ! ?i)"
    using search_index_after [OF s] \<open>?i \<le> n\<close> n(1) by simp
  ultimately show False
    using none n(1) \<open>?i \<le> n\<close> by (simp add: find_key_def Let_def split: if_splits)
qed

locale sorted_table =
  fixes key :: "'a \<Rightarrow> 'k :: linorder"
    and find :: "'a list \<Rightarrow> 'k \<Rightarrow> nat option"
  assumes found: "find xs k = Some i \<Longrightarrow> i < length xs \<and> key (xs ! i) = k"
    and absent: "keys_sorted key xs \<Longrightarrow> find xs k = None \<Longrightarrow> k \<notin> key ` set xs"
begin

lemma found_in_set: "find xs k = Some i \<Longrightarrow> xs ! i \<in> set xs"
  using found by (meson nth_mem)

lemma find_nth:
  assumes "keys_sorted key xs" and "i < length xs"
  shows "find xs (key (xs ! i)) = Some i"
proof (cases "find xs (key (xs ! i))")
  case None
  then show ?thesis using absent [OF assms(1) None] assms(2) by auto
next
  case (Some j)
  then have "j < length xs" "key (xs ! j) = key (xs ! i)" using found by auto
  then have "j = i"
    using keys_sorted_nth [OF assms(1)] assms(2) by (metis linorder_neqE_nat order_less_irrefl)
  then show ?thesis using Some by simp
qed

lemma find_iff:
  "keys_sorted key xs \<Longrightarrow> find xs k = Some i \<longleftrightarrow> i < length xs \<and> key (xs ! i) = k"
  using find_nth found by metis

lemma find_None_iff:
  "keys_sorted key xs \<Longrightarrow> find xs k = None \<longleftrightarrow> k \<notin> key ` set xs"
  using absent found_in_set found by (metis image_eqI option.exhaust)

lemma find_member:
  "keys_sorted key xs \<Longrightarrow> x \<in> set xs \<Longrightarrow> \<exists>i. find xs (key x) = Some i \<and> i < length xs \<and> xs ! i = x"
  using find_nth by (metis in_set_conv_nth)

lemma sorted_update [table_intros]:
  "keys_sorted key xs \<Longrightarrow> find xs k = Some i \<Longrightarrow> key y = k \<Longrightarrow> keys_sorted key (xs[i := y])"
  using found by (metis keys_sorted_map_update)

lemma find_update:
  assumes "keys_sorted key xs" and "find xs k = Some i" and "key y = k"
  shows "find (xs[i := y]) = find xs"
proof
  fix l
  have i: "i < length xs" "key (xs ! i) = k" using found [OF assms(2)] by auto
  have s: "keys_sorted key (xs[i := y])" by (rule sorted_update [OF assms])
  have "find (xs[i := y]) l = Some j \<longleftrightarrow> find xs l = Some j" for j
    using find_iff [OF s] find_iff [OF assms(1)] i assms(3) by (auto simp: nth_list_update)
  then show "find (xs[i := y]) l = find xs l"
    by (metis not_None_eq)
qed

end

interpretation by_key: sorted_table key "find_key key" for key :: "'a \<Rightarrow> 'k :: linorder"
  by unfold_locales (blast dest: find_key_Some, blast dest: find_key_None)

end
