(* ===== verification/Go_Strings.thy ===== *)
theory Go_Strings
  imports Go_Prelude
begin

text \<open>
  The functions of Go's packages strings and unicode/utf8 that the action plane uses, on
  strings as lists of bytes: prefixes and suffixes, splitting at a separator, and the
  UTF-8 decoder with Go's treatment of invalid bytes (rune U+FFFD of width 1).
\<close>

section \<open>Package strings\<close>

definition hasPrefix :: "string \<Rightarrow> string \<Rightarrow> bool" where
  "hasPrefix s p \<longleftrightarrow> take (length p) s = p"

definition hasSuffix :: "string \<Rightarrow> string \<Rightarrow> bool" where
  "hasSuffix s p \<longleftrightarrow> length p \<le> length s \<and> drop (length s - length p) s = p"

fun containsString :: "string \<Rightarrow> string \<Rightarrow> bool" where
  "containsString [] sub = (sub = [])"
| "containsString (c # s) sub = (hasPrefix (c # s) sub \<or> containsString s sub)"

definition trimPrefix :: "string \<Rightarrow> string \<Rightarrow> string" where
  "trimPrefix s p = (if hasPrefix s p then drop (length p) s else s)"

definition trimSuffix :: "string \<Rightarrow> string \<Rightarrow> string" where
  "trimSuffix s p = (if hasSuffix s p then take (length s - length p) s else s)"

text \<open>\<open>strings.Split\<close> with a separator of one byte: never empty, the parts in order.\<close>

fun splitAt :: "char \<Rightarrow> string \<Rightarrow> string list" where
  "splitAt sep [] = [[]]"
| "splitAt sep (c # s) =
     (if c = sep then [] # splitAt sep s
      else case splitAt sep s of [] \<Rightarrow> [[c]] | part # parts \<Rightarrow> (c # part) # parts)"

fun joinWith :: "char \<Rightarrow> string list \<Rightarrow> string" where
  "joinWith sep [] = []"
| "joinWith sep [part] = part"
| "joinWith sep (part # parts) = part @ sep # joinWith sep parts"

lemma hasPrefix_iff: "hasPrefix s p \<longleftrightarrow> (\<exists>t. s = p @ t)"
  unfolding hasPrefix_def by (metis append_eq_conv_conj append_take_drop_id)

lemma hasSuffix_iff: "hasSuffix s p \<longleftrightarrow> (\<exists>t. s = t @ p)"
proof
  assume "hasSuffix s p"
  then have "s = take (length s - length p) s @ p"
    unfolding hasSuffix_def by (metis append_take_drop_id)
  then show "\<exists>t. s = t @ p" by blast
qed (auto simp: hasSuffix_def)

lemma containsString_iff: "containsString s sub \<longleftrightarrow> (\<exists>a b. s = a @ sub @ b)"
proof (induction s)
  case (Cons c s)
  note IH = Cons.IH
  show ?case
  proof
    assume "containsString (c # s) sub"
    then consider "hasPrefix (c # s) sub" | "containsString s sub" by auto
    then show "\<exists>a b. c # s = a @ sub @ b"
    proof cases
      case 1 then show ?thesis unfolding hasPrefix_iff by (metis append_Nil)
    next
      case 2 then show ?thesis using IH by (metis append_Cons)
    qed
  next
    assume "\<exists>a b. c # s = a @ sub @ b"
    then obtain a b where ab: "c # s = a @ sub @ b" by blast
    show "containsString (c # s) sub"
    proof (cases a)
      case Nil
      with ab have "hasPrefix (c # s) sub" by (simp add: hasPrefix_def)
      then show ?thesis by simp
    next
      case (Cons x a')
      with ab have "s = a' @ sub @ b" by simp
      with IH have "containsString s sub" by blast
      then show ?thesis by simp
    qed
  qed
qed auto

lemma splitAt_not_Nil [simp]: "splitAt sep s \<noteq> []"
  by (induction s) (auto split: list.splits)

lemma splitAt_no_sep: "sep \<notin> set s \<Longrightarrow> splitAt sep s = [s]"
  by (induction s) auto

lemma splitAt_append: "sep \<notin> set a \<Longrightarrow> splitAt sep (a @ sep # s) = a # splitAt sep s"
  by (induction a) auto

lemma splitAt_joinWith:
  "parts \<noteq> [] \<Longrightarrow> \<forall>p \<in> set parts. sep \<notin> set p \<Longrightarrow> splitAt sep (joinWith sep parts) = parts"
  by (induction sep parts rule: joinWith.induct) (auto simp: splitAt_no_sep splitAt_append)

lemma joinWith_splitAt: "joinWith sep (splitAt sep s) = s"
proof (induction s)
  case (Cons c s)
  obtain part parts where eq: "splitAt sep s = part # parts"
    by (meson list.exhaust splitAt_not_Nil)
  show ?case using Cons eq by (cases parts) auto
qed simp

lemma splitAt_parts: "p \<in> set (splitAt sep s) \<Longrightarrow> sep \<notin> set p"
proof (induction s arbitrary: p)
  case (Cons c s)
  then show ?case by (auto split: if_splits list.splits)
qed simp

section \<open>Package unicode/utf8\<close>

type_synonym rune = nat

definition runeError :: rune where
  "runeError = 65533"

definition maxRune :: rune where
  "maxRune = 1114111"

definition continuation :: "nat \<Rightarrow> bool" where
  "continuation b \<longleftrightarrow> 128 \<le> b \<and> b \<le> 191"

text \<open>The accepted range of the second byte, by the first (Go's table \<open>acceptRanges\<close>).\<close>

definition second_ok :: "nat \<Rightarrow> nat \<Rightarrow> bool" where
  "second_ok b0 b1 \<longleftrightarrow>
     (if b0 = 224 then 160 \<le> b1 \<and> b1 \<le> 191
      else if b0 = 237 then 128 \<le> b1 \<and> b1 \<le> 159
      else if b0 = 240 then 144 \<le> b1 \<and> b1 \<le> 191
      else if b0 = 244 then 128 \<le> b1 \<and> b1 \<le> 143
      else continuation b1)"

definition byte_at :: "string \<Rightarrow> nat \<Rightarrow> nat" where
  "byte_at s i = (if i < length s then of_char (s ! i) else 256)"

definition decodeRune :: "string \<Rightarrow> rune \<times> nat" where
  "decodeRune s =
     (let b0 = byte_at s 0; b1 = byte_at s 1; b2 = byte_at s 2; b3 = byte_at s 3
      in if s = [] then (runeError, 0)
         else if b0 < 128 then (b0, 1)
         else if 194 \<le> b0 \<and> b0 \<le> 223 \<and> continuation b1 then
           ((b0 - 192) * 64 + (b1 - 128), 2)
         else if 224 \<le> b0 \<and> b0 \<le> 239 \<and> second_ok b0 b1 \<and> continuation b2 then
           ((b0 - 224) * 4096 + (b1 - 128) * 64 + (b2 - 128), 3)
         else if 240 \<le> b0 \<and> b0 \<le> 244 \<and> second_ok b0 b1 \<and> continuation b2 \<and> continuation b3 then
           ((b0 - 240) * 262144 + (b1 - 128) * 4096 + (b2 - 128) * 64 + (b3 - 128), 4)
         else (runeError, 1))"

lemma continuation_lt: "continuation (byte_at s i) \<Longrightarrow> i < length s"
  by (auto simp: continuation_def byte_at_def split: if_splits)

lemma second_ok_lt: "second_ok b (byte_at s i) \<Longrightarrow> i < length s"
  by (auto simp: second_ok_def continuation_def byte_at_def split: if_splits)

lemma decodeRune_width:
  assumes "s \<noteq> []"
  shows "1 \<le> snd (decodeRune s)" and "snd (decodeRune s) \<le> length s"
proof -
  from assms have "1 \<le> length s" by (cases s) auto
  moreover have "continuation (byte_at s i) \<Longrightarrow> Suc i \<le> length s" for i
    by (simp add: Suc_le_eq continuation_lt)
  ultimately show "snd (decodeRune s) \<le> length s"
    using assms continuation_lt [of s 1] continuation_lt [of s 2] continuation_lt [of s 3]
    by (auto simp: decodeRune_def Let_def)
  show "1 \<le> snd (decodeRune s)"
    using assms by (auto simp: decodeRune_def Let_def)
qed

lemma decodeRune_shorter: "s \<noteq> [] \<Longrightarrow> length (drop (snd (decodeRune s)) s) < length s"
  using decodeRune_width [of s] by (cases s) auto

lemma decodeRune_ascii: "s \<noteq> [] \<Longrightarrow> (of_char (hd s) :: nat) < 128 \<Longrightarrow>
    decodeRune s = (of_char (hd s), 1)"
  by (cases s) (auto simp: decodeRune_def byte_at_def)

text \<open>The runes a \<open>range\<close> loop over the string visits.\<close>

function runes :: "string \<Rightarrow> rune list" where
  "runes s = (if s = [] then [] else fst (decodeRune s) # runes (drop (snd (decodeRune s)) s))"
  by pat_completeness auto
termination
  by (relation "measure length") (use decodeRune_shorter in \<open>auto simp del: length_drop\<close>)

declare runes.simps [simp del]

function validString :: "string \<Rightarrow> bool" where
  "validString s =
     (if s = [] then True
      else if decodeRune s = (runeError, 1) then False
      else validString (drop (snd (decodeRune s)) s))"
  by pat_completeness auto
termination
  by (relation "measure length") (use decodeRune_shorter in \<open>auto simp del: length_drop\<close>)

declare validString.simps [simp del]

lemma runes_Nil [simp]: "runes [] = []"
  by (simp add: runes.simps)

lemma validString_Nil [simp]: "validString []"
  by (simp add: validString.simps)

lemma runes_Cons: "(of_char c :: nat) < 128 \<Longrightarrow> runes (c # s) = of_char c # runes s"
  by (simp add: runes.simps [of "c # s"] decodeRune_ascii)

lemma validString_Cons: "(of_char c :: nat) < 128 \<Longrightarrow> validString (c # s) = validString s"
  by (simp add: validString.simps [of "c # s"] decodeRune_ascii runeError_def)

lemma runes_ascii: "\<forall>c \<in> set s. (of_char c :: nat) < 128 \<Longrightarrow> runes s = map of_char s"
  by (induction s) (auto simp: runes_Cons)

lemma validString_ascii: "\<forall>c \<in> set s. (of_char c :: nat) < 128 \<Longrightarrow> validString s"
  by (induction s) (auto simp: validString_Cons)

text \<open>\<open>containsControl\<close> of predicate.go, a range loop over the runes.\<close>

definition containsControl :: "string \<Rightarrow> bool" where
  "containsControl value = (\<exists>character \<in> set (runes value). character = 0 \<or> character < 32 \<or> character = 127)"

end
