(* ===== verification/Action_Types.thy ===== *)
theory Action_Types
  imports Go_Strings
begin

text \<open>
  The closed vocabularies and the plain records of package action (types.go,
  evaluator_types.go). A Go string type with named constants is a datatype with one
  constructor per constant and a last constructor for every other string, so that the
  zero value and the values \<open>Valid\<close> rejects are values of the model too.
\<close>

section \<open>Vocabulary of the policy (types.go)\<close>

datatype transport = TransportHostMCP | TransportMCPStdio | TransportOther string

fun transport_valid :: "transport \<Rightarrow> bool" where
  "transport_valid (TransportOther s) = False"
| "transport_valid t = True"

type_synonym platform = string

definition BuiltinPlatforms :: "platform list" where
  "BuiltinPlatforms =
     [''claude-code'', ''codex'', ''cursor'', ''opencode'', ''kilo'', ''omp'', ''pi'', ''zcode'']"

datatype effect_kind =
  EffectRepositoryRead | EffectRepositoryWrite | EffectCommand | EffectExternal
  | EffectOther string

fun effect_kind_valid :: "effect_kind \<Rightarrow> bool" where
  "effect_kind_valid (EffectOther s) = False"
| "effect_kind_valid k = True"

datatype decision =
  DecisionAllow | DecisionWarn | DecisionRequireApproval | DecisionBlock
  | DecisionOther string

fun decision_valid :: "decision \<Rightarrow> bool" where
  "decision_valid (DecisionOther s) = False"
| "decision_valid d = True"

fun strength :: "decision \<Rightarrow> int" where
  "strength DecisionBlock = 3"
| "strength DecisionRequireApproval = 2"
| "strength DecisionWarn = 1"
| "strength DecisionAllow = 0"
| "strength (DecisionOther s) = - 1"

datatype phase =
  PhasePreCall | PhasePostResult | PhaseProgress | PhaseObservation | PhaseOther string

definition AllPhases :: "phase list" where
  "AllPhases = [PhasePreCall, PhasePostResult, PhaseProgress, PhaseObservation]"

definition phase_valid :: "phase \<Rightarrow> bool" where
  "phase_valid p = list_ex (\<lambda>candidate. p = candidate) AllPhases"

datatype cache_policy = CacheExact | CacheNever | CachePolicyOther string

fun cache_policy_valid :: "cache_policy \<Rightarrow> bool" where
  "cache_policy_valid (CachePolicyOther s) = False"
| "cache_policy_valid p = True"

datatype origin = OriginActions | OriginLegacyMCP | OriginOther string

fun origin_valid :: "origin \<Rightarrow> bool" where
  "origin_valid (OriginOther s) = False"
| "origin_valid p = True"

datatype provenance =
  ProvenanceAgentSupplied | ProvenanceAdapterAsserted | ProvenanceHostObserved
  | ProvenanceOperatorBound | ProvenanceOther string

abbreviation ProvenanceUnset :: provenance where
  "ProvenanceUnset \<equiv> ProvenanceOther []"

fun rank :: "provenance \<Rightarrow> int" where
  "rank ProvenanceAgentSupplied = 0"
| "rank ProvenanceAdapterAsserted = 1"
| "rank ProvenanceHostObserved = 2"
| "rank ProvenanceOperatorBound = 3"
| "rank (ProvenanceOther s) = - 1"

definition provenance_valid :: "provenance \<Rightarrow> bool" where
  "provenance_valid p \<longleftrightarrow> 0 \<le> rank p"

datatype value_source =
  SourceArguments | SourceContext | SourceResult | SourceProgress | SourceOther string

fun source_valid :: "value_source \<Rightarrow> bool" where
  "source_valid (SourceOther s) = False"
| "source_valid s = True"

datatype operator =
  OperatorExists
  | OperatorEqual
  | OperatorNotEqual
  | OperatorIn
  | OperatorNotIn
  | OperatorPrefix
  | OperatorSuffix
  | OperatorContains
  | OperatorGlob
  | OperatorRegex
  | OperatorGreater
  | OperatorGreaterEq
  | OperatorLess
  | OperatorLessEq
  | OperatorURL
  | OperatorCIDR
  | OperatorPathWithin
  | OperatorOther string

fun operator_valid :: "operator \<Rightarrow> bool" where
  "operator_valid (OperatorOther s) = False"
| "operator_valid op = True"

record effect =
  eff_kind :: effect_kind
  eff_path_fields :: "string list"
  eff_command_field :: string

record tool =
  tool_id :: string
  tool_transport :: transport
  tool_platform :: platform
  tool_server_label :: string
  tool_server_fingerprint :: string
  tool_name :: string
  tool_effect :: effect
  tool_cost_units :: "uint64 option"
  tool_max_result_bytes :: uint64
  tool_ledger_name_safe :: bool
  tool_origin :: origin
  tool_source_identity :: string

record defaults =
  def_declared_tool :: decision
  def_gateway_unmatched :: decision
  def_host_unmatched :: decision
  def_evaluation_error :: decision
  def_post_error :: decision
  def_progress_error :: decision
  def_cache :: cache_policy

definition FrozenDefaults :: defaults where
  "FrozenDefaults =
     \<lparr>def_declared_tool = DecisionAllow, def_gateway_unmatched = DecisionBlock,
      def_host_unmatched = DecisionAllow, def_evaluation_error = DecisionBlock,
      def_post_error = DecisionBlock, def_progress_error = DecisionBlock,
      def_cache = CacheExact\<rparr>"

record selector =
  sel_tool_ids :: "string list"
  sel_transports :: "transport list"
  sel_platforms :: "platform list"
  sel_server_labels :: "string list"
  sel_server_fingerprints :: "string list"
  sel_tools :: "string list"
  sel_tool_contract_digests :: "string list"
  sel_phases :: "phase list"

datatype budget_reset =
  BudgetResetNever | BudgetResetOperatorRun | BudgetResetOperatorSession
  | BudgetResetFixedWindow | BudgetResetOther string

fun budget_reset_valid :: "budget_reset \<Rightarrow> bool" where
  "budget_reset_valid (BudgetResetOther s) = False"
| "budget_reset_valid r = True"

text \<open>Zero means that the dimension is absent.\<close>

record budget_limits =
  lim_call_count :: uint64
  lim_denied_count :: uint64
  lim_approval_count :: uint64
  lim_argument_bytes :: uint64
  lim_result_bytes :: uint64
  lim_cost_units :: uint64
  lim_concurrent :: uint64
  lim_rate_window :: uint64

definition noLimits :: budget_limits where
  "noLimits =
     \<lparr>lim_call_count = 0, lim_denied_count = 0, lim_approval_count = 0,
      lim_argument_bytes = 0, lim_result_bytes = 0, lim_cost_units = 0,
      lim_concurrent = 0, lim_rate_window = 0\<rparr>"

definition limits_empty :: "budget_limits \<Rightarrow> bool" where
  "limits_empty l \<longleftrightarrow> l = noLimits"

record budget =
  bud_id :: string
  bud_selector :: selector
  bud_limits :: budget_limits
  bud_reset :: budget_reset
  bud_window_seconds :: uint32
  bud_on_exhaustion :: decision
  bud_source_identity :: string

datatype condition_kind =
  ConditionAll | ConditionAny | ConditionNot | ConditionPredicate | ConditionKindOther string

section \<open>Vocabulary of an evaluation (evaluator\_types.go)\<close>

datatype authority_mode =
  AuthorityOperatorPinned | AuthorityRepositoryManaged | AuthorityOther string

fun authority_valid :: "authority_mode \<Rightarrow> bool" where
  "authority_valid (AuthorityOther s) = False"
| "authority_valid m = True"

datatype deadline_state = DeadlineReady | DeadlineExceeded | DeadlineOther string

fun deadline_valid :: "deadline_state \<Rightarrow> bool" where
  "deadline_valid (DeadlineOther s) = False"
| "deadline_valid s = True"

datatype lifecycle_state =
  LifecycleActive | LifecycleCancelled | LifecycleShutdown | LifecycleOther string

fun lifecycle_valid :: "lifecycle_state \<Rightarrow> bool" where
  "lifecycle_valid (LifecycleOther s) = False"
| "lifecycle_valid s = True"

datatype approval_status =
  ApprovalNone | ApprovalPending | ApprovalCurrentUnconsumed | ApprovalConsumed
  | ApprovalOther string

fun approval_status_valid :: "approval_status \<Rightarrow> bool" where
  "approval_status_valid (ApprovalOther s) = False"
| "approval_status_valid s = True"

datatype taint_status = TaintClean | TaintPresent | TaintUnknown | TaintOther string

fun taint_status_valid :: "taint_status \<Rightarrow> bool" where
  "taint_status_valid (TaintOther s) = False"
| "taint_status_valid s = True"

datatype evidence_field =
  EvidenceRequest | EvidencePolicy | EvidenceIdentity | EvidenceContext | EvidenceState
  | EvidencePhase | EvidenceOther string

fun evidence_field_text :: "evidence_field \<Rightarrow> string" where
  "evidence_field_text EvidenceRequest = ''request''"
| "evidence_field_text EvidencePolicy = ''policy''"
| "evidence_field_text EvidenceIdentity = ''identity''"
| "evidence_field_text EvidenceContext = ''context''"
| "evidence_field_text EvidenceState = ''state''"
| "evidence_field_text EvidencePhase = ''phase''"
| "evidence_field_text (EvidenceOther s) = s"

text \<open>\<open>NoReason\<close> is the empty string, the code's \<open>no reason\<close>.\<close>

datatype reason_code =
  NoReason
  | ReasonDeclaredTool
  | ReasonHostUnmatched
  | ReasonRuleMatched
  | ReasonInvalidRequest
  | ReasonDuplicateKey
  | ReasonInvalidUTF8
  | ReasonSchemaInvalid
  | ReasonLimitExceeded
  | ReasonPolicyMissing
  | ReasonPolicyStale
  | ReasonLockMismatch
  | ReasonUnsupportedPhase
  | ReasonToolUnclassified
  | ReasonToolContractStale
  | ReasonContextUntrusted
  | ReasonIdentityUnavailable
  | ReasonConditionIndeterminate
  | ReasonBudgetExhausted
  | ReasonStateUnavailable
  | ReasonStateCorrupt
  | ReasonReservationIndeterminate
  | ReasonApprovalRequired
  | ReasonApprovalRejected
  | ReasonApprovalInvalid
  | ReasonApprovalExpired
  | ReasonApprovalReplayed
  | ReasonAuthorityUnavailable
  | ReasonInspectionIncomplete
  | ReasonUnsupportedContent
  | ReasonResultWithheld
  | ReasonLedgerUnavailable
  | ReasonLedgerCorrupt
  | ReasonDownstreamUnavailable
  | ReasonDownstreamError
  | ReasonDownstreamUnknown
  | ReasonProtocolError
  | ReasonCancelled
  | ReasonDeadlineExceeded
  | ReasonShutdown
  | ReasonInternalInvariant
  | ReasonOther string

fun reason_text :: "reason_code \<Rightarrow> string" where
  "reason_text NoReason = []"
| "reason_text ReasonDeclaredTool = ''declared_tool''"
| "reason_text ReasonHostUnmatched = ''host_unmatched''"
| "reason_text ReasonRuleMatched = ''rule_matched''"
| "reason_text ReasonInvalidRequest = ''invalid_request''"
| "reason_text ReasonDuplicateKey = ''duplicate_key''"
| "reason_text ReasonInvalidUTF8 = ''invalid_utf8''"
| "reason_text ReasonSchemaInvalid = ''schema_invalid''"
| "reason_text ReasonLimitExceeded = ''limit_exceeded''"
| "reason_text ReasonPolicyMissing = ''policy_missing''"
| "reason_text ReasonPolicyStale = ''policy_stale''"
| "reason_text ReasonLockMismatch = ''lock_mismatch''"
| "reason_text ReasonUnsupportedPhase = ''unsupported_phase''"
| "reason_text ReasonToolUnclassified = ''tool_unclassified''"
| "reason_text ReasonToolContractStale = ''tool_contract_stale''"
| "reason_text ReasonContextUntrusted = ''context_untrusted''"
| "reason_text ReasonIdentityUnavailable = ''identity_unavailable''"
| "reason_text ReasonConditionIndeterminate = ''condition_indeterminate''"
| "reason_text ReasonBudgetExhausted = ''budget_exhausted''"
| "reason_text ReasonStateUnavailable = ''state_unavailable''"
| "reason_text ReasonStateCorrupt = ''state_corrupt''"
| "reason_text ReasonReservationIndeterminate = ''reservation_indeterminate''"
| "reason_text ReasonApprovalRequired = ''approval_required''"
| "reason_text ReasonApprovalRejected = ''approval_rejected''"
| "reason_text ReasonApprovalInvalid = ''approval_invalid''"
| "reason_text ReasonApprovalExpired = ''approval_expired''"
| "reason_text ReasonApprovalReplayed = ''approval_replayed''"
| "reason_text ReasonAuthorityUnavailable = ''authority_unavailable''"
| "reason_text ReasonInspectionIncomplete = ''inspection_incomplete''"
| "reason_text ReasonUnsupportedContent = ''unsupported_content''"
| "reason_text ReasonResultWithheld = ''result_withheld''"
| "reason_text ReasonLedgerUnavailable = ''ledger_unavailable''"
| "reason_text ReasonLedgerCorrupt = ''ledger_corrupt''"
| "reason_text ReasonDownstreamUnavailable = ''downstream_unavailable''"
| "reason_text ReasonDownstreamError = ''downstream_error''"
| "reason_text ReasonDownstreamUnknown = ''downstream_outcome_unknown''"
| "reason_text ReasonProtocolError = ''protocol_error''"
| "reason_text ReasonCancelled = ''cancelled''"
| "reason_text ReasonDeadlineExceeded = ''deadline_exceeded''"
| "reason_text ReasonShutdown = ''shutdown''"
| "reason_text ReasonInternalInvariant = ''internal_invariant''"
| "reason_text (ReasonOther s) = s"

fun reason_valid :: "reason_code \<Rightarrow> bool" where
  "reason_valid NoReason = False"
| "reason_valid (ReasonOther s) = False"
| "reason_valid c = True"

record missing_evidence =
  miss_field :: evidence_field
  miss_reason :: reason_code

record completeness =
  cpl_request :: bool
  cpl_policy :: bool
  cpl_identity :: bool
  cpl_context :: bool
  cpl_state :: bool
  cpl_phase :: bool
  cpl_missing :: "missing_evidence list"

definition CompleteEvidence :: completeness where
  "CompleteEvidence =
     \<lparr>cpl_request = True, cpl_policy = True, cpl_identity = True, cpl_context = True,
      cpl_state = True, cpl_phase = True, cpl_missing = []\<rparr>"

definition evidence_complete :: "completeness \<Rightarrow> bool" where
  "evidence_complete c \<longleftrightarrow>
     cpl_request c \<and> cpl_policy c \<and> cpl_identity c \<and> cpl_context c \<and> cpl_state c \<and> cpl_phase c
     \<and> length (cpl_missing c) = 0"

record budget_usage =
  use_call_count :: uint64
  use_denied_count :: uint64
  use_approval_count :: uint64
  use_argument_bytes :: uint64
  use_result_bytes :: uint64
  use_cost_units :: uint64
  use_concurrent :: uint64
  use_rate_window :: uint64

definition noUsage :: budget_usage where
  "noUsage =
     \<lparr>use_call_count = 0, use_denied_count = 0, use_approval_count = 0,
      use_argument_bytes = 0, use_result_bytes = 0, use_cost_units = 0,
      use_concurrent = 0, use_rate_window = 0\<rparr>"

record budget_generation =
  gen_policy_digest :: string
  gen_executable_digest :: string
  gen_tool_contract_digest :: string
  gen_key_id :: string

record budget_scope =
  scp_repository_identity :: string
  scp_principal :: string
  scp_credential_labels :: "string list"
  scp_server_label :: string
  scp_server_identity :: string
  scp_tool_id :: string
  scp_run_identity :: string
  scp_session_identity :: string
  scp_window_identity :: string
  scp_window_start_unix :: int

record budget_candidate =
  bc_budget_id :: string
  bc_scope_identity :: string
  bc_lineage_identity :: string
  bc_scope :: budget_scope
  bc_reset :: budget_reset
  bc_window_seconds :: uint32
  bc_limits :: budget_limits
  bc_consumed :: budget_usage
  bc_reserved :: budget_usage
  bc_required :: budget_usage
  bc_reservation_applied :: bool
  bc_available :: bool
  bc_reason :: reason_code
  bc_generation :: budget_generation

datatype condition_state =
  ConditionFalse | ConditionTrue | ConditionIndeterminate | ConditionStateUnset

datatype pointer_state =
  PointerPresent | PointerNull | PointerMissing | PointerWrongContainer
  | PointerInvalidIndex | PointerUnset

datatype selector_state = SelectorMatched | SelectorUnmatched

datatype candidate_source =
  CandidateBaseline | CandidateRule | CandidateRepositoryEffect | CandidateBudget
  | CandidateInspection

record candidate =
  cand_source :: candidate_source
  cand_id :: string
  cand_decision :: decision
  cand_reason :: reason_code

datatype phase_outcome =
  OutcomeDispatchEligible | OutcomeDispatchBlocked | OutcomeDeliveryEligible
  | OutcomeWithheld | OutcomeProgressEligible | OutcomeSuppressed | OutcomeRecorded

section \<open>Facts on the vocabulary\<close>

lemma decision_valid_iff: "decision_valid d \<longleftrightarrow> 0 \<le> strength d"
  by (cases d) auto

lemma strength_inject: "decision_valid d \<Longrightarrow> strength d = strength e \<Longrightarrow> d = e"
  by (cases d; cases e) auto

lemma strength_le_3: "strength d \<le> 3"
  by (cases d) auto

lemma strength_block_iff: "strength d = 3 \<longleftrightarrow> d = DecisionBlock"
  by (cases d) auto

lemma phase_valid_iff: "phase_valid p \<longleftrightarrow> (\<forall>s. p \<noteq> PhaseOther s)"
  by (cases p) (auto simp: phase_valid_def AllPhases_def)

lemma provenance_valid_iff: "provenance_valid p \<longleftrightarrow> (\<forall>s. p \<noteq> ProvenanceOther s)"
  by (cases p) (auto simp: provenance_valid_def)

lemma evidence_complete_CompleteEvidence [simp]: "evidence_complete CompleteEvidence"
  by (simp add: evidence_complete_def CompleteEvidence_def)

text \<open>
  Decisions are linearly ordered by strength; the values outside the vocabulary are below
  all others, by their text.
\<close>

fun decision_rank :: "decision \<Rightarrow> int \<times> string" where
  "decision_rank (DecisionOther s) = (- 1, s)"
| "decision_rank d = (strength d, [])"

instantiation decision :: linorder
begin

definition less_eq_decision :: "decision \<Rightarrow> decision \<Rightarrow> bool" where
  "less_eq_decision d e \<longleftrightarrow>
     strength d < strength e
     \<or> strength d = strength e \<and> snd (decision_rank d) \<le> snd (decision_rank e)"

definition less_decision :: "decision \<Rightarrow> decision \<Rightarrow> bool" where
  "less_decision d e \<longleftrightarrow> d \<le> e \<and> \<not> e \<le> (d :: decision)"

instance
proof
  fix d e f :: decision
  show "d < e \<longleftrightarrow> d \<le> e \<and> \<not> e \<le> d" by (rule less_decision_def)
  show "d \<le> d" by (simp add: less_eq_decision_def)
  show "d \<le> e \<Longrightarrow> e \<le> f \<Longrightarrow> d \<le> f" by (auto simp: less_eq_decision_def)
  show "d \<le> e \<Longrightarrow> e \<le> d \<Longrightarrow> d = e"
    by (cases d; cases e) (auto simp: less_eq_decision_def)
  show "d \<le> e \<or> e \<le> d" by (auto simp: less_eq_decision_def)
qed

end

lemma decision_le_iff: "decision_valid d \<or> decision_valid e \<Longrightarrow> d \<le> e \<longleftrightarrow> strength d \<le> strength e"
  by (cases d; cases e) (auto simp: less_eq_decision_def)

lemma decision_le_Block [simp]: "d \<le> DecisionBlock"
  by (cases d) (auto simp: less_eq_decision_def)

end
