(* ===== verification/Action_Decimal.thy ===== *)
theory Action_Decimal
  imports Complex_Main Action_Types
begin

text \<open>
  The exact decimals of package action (value.go, from \<open>ParseDecimal\<close> to
  \<open>compareDecimalDigits\<close>): parsing of a JSON number into sign, coefficient and exponent,
  its canonical text, equality and comparison. The specification is the rational number a
  lexeme or a decimal denotes; parsing keeps it, comparison orders by it.
\<close>

section \<open>The code\<close>

record decimal =
  dec_negative :: bool
  dec_coefficient :: string
  dec_exponent :: int

definition zeroDecimal :: decimal where
  "zeroDecimal = \<lparr>dec_negative = False, dec_coefficient = ''0'', dec_exponent = 0\<rparr>"

definition oneDecimal :: decimal where
  "oneDecimal = \<lparr>dec_negative = False, dec_coefficient = ''1'', dec_exponent = 0\<rparr>"

definition MaxNumberLexemeBytes :: nat where "MaxNumberLexemeBytes = 1024"
definition MaxNumberDigits :: nat where "MaxNumberDigits = 768"
definition MaxNumberExponent :: int where "MaxNumberExponent = 100000"

datatype decimal_error =
  LexemeLength | DecimalSyntax | ExponentRange | TooManyDigits | ExponentTooLarge

definition is_digit :: "char \<Rightarrow> bool" where
  "is_digit c \<longleftrightarrow> CHR ''0'' \<le> c \<and> c \<le> CHR ''9''"

definition digit_val :: "char \<Rightarrow> int" where
  "digit_val c = int (of_char c) - 48"

text \<open>The integer part: a single zero, or digits that do not start with zero.\<close>

definition scanInteger :: "string \<Rightarrow> (string \<times> string) option" where
  "scanInteger s =
     (case s of
        [] \<Rightarrow> None
      | c # rest \<Rightarrow>
          if c = CHR ''0'' then
            (if rest \<noteq> [] \<and> is_digit (hd rest) then None else Some ([c], rest))
          else if is_digit c then Some (c # takeWhile is_digit rest, dropWhile is_digit rest)
          else None)"

definition scanFraction :: "string \<Rightarrow> (string \<times> string) option" where
  "scanFraction s =
     (case s of
        [] \<Rightarrow> Some ([], [])
      | c # rest \<Rightarrow>
          if c = CHR ''.'' then
            (if takeWhile is_digit rest = [] then None
             else Some (takeWhile is_digit rest, dropWhile is_digit rest))
          else Some ([], s))"

text \<open>The exponent digits, each step checked against the limit of the 32-bit range.\<close>

fun accumulateExponent :: "int \<Rightarrow> int \<Rightarrow> string \<Rightarrow> int option" where
  "accumulateExponent limit exponent [] = Some exponent"
| "accumulateExponent limit exponent (c # cs) =
     (if (limit - digit_val c) div 10 < exponent then None
      else accumulateExponent limit (exponent * 10 + digit_val c) cs)"

definition scanExponentDigits :: "bool \<Rightarrow> string \<Rightarrow> decimal_error + (int \<times> string)" where
  "scanExponentDigits exponentNegative body =
     (let digits = takeWhile is_digit body;
          limit = (if exponentNegative then 2 ^ 31 else 2 ^ 31 - 1)
      in if digits = [] then Inl DecimalSyntax
         else case accumulateExponent limit 0 digits of
             None \<Rightarrow> Inl ExponentRange
           | Some e \<Rightarrow> Inr (if exponentNegative then - e else e, dropWhile is_digit body))"

definition scanExponent :: "string \<Rightarrow> decimal_error + (int \<times> string)" where
  "scanExponent s =
     (case s of
        [] \<Rightarrow> Inr (0, [])
      | c # rest \<Rightarrow>
          if c = CHR ''e'' \<or> c = CHR ''E'' then
            (if rest \<noteq> [] \<and> hd rest = CHR ''-'' then scanExponentDigits True (tl rest)
             else if rest \<noteq> [] \<and> hd rest = CHR ''+'' then scanExponentDigits False (tl rest)
             else scanExponentDigits False rest)
          else Inr (0, s))"

text \<open>
  The scan of \<open>firstNonZero\<close>, \<open>lastNonZero\<close> and \<open>trailingZeros\<close> over the two digit spans
  is a scan over their concatenation, in which the decimal point does not occur.
\<close>

definition normalizeDigits :: "bool \<Rightarrow> string \<Rightarrow> string \<Rightarrow> int \<Rightarrow> decimal_error + decimal" where
  "normalizeDigits negative integer fraction exponent =
     (let significant = dropWhile (\<lambda>c. c = CHR ''0'') (integer @ fraction)
      in if significant = [] then Inr zeroDecimal
         else
           let trailingZeros = length (takeWhile (\<lambda>c. c = CHR ''0'') (rev significant));
               coefficient = take (length significant - trailingZeros) significant;
               normalized = exponent - int (length fraction) + int trailingZeros
           in if MaxNumberDigits < length coefficient then Inl TooManyDigits
              else if normalized < - MaxNumberExponent \<or> MaxNumberExponent < normalized
              then Inl ExponentTooLarge
              else Inr \<lparr>dec_negative = negative, dec_coefficient = coefficient,
                       dec_exponent = normalized\<rparr>)"

definition ParseDecimal :: "string \<Rightarrow> decimal_error + decimal" where
  "ParseDecimal lexeme =
     (if lexeme = [] \<or> MaxNumberLexemeBytes < length lexeme then Inl LexemeLength
      else
        let negative = (hd lexeme = CHR ''-'');
            unsigned = (if negative then tl lexeme else lexeme)
        in case scanInteger unsigned of
             None \<Rightarrow> Inl DecimalSyntax
           | Some (integer, afterInteger) \<Rightarrow>
               (case scanFraction afterInteger of
                  None \<Rightarrow> Inl DecimalSyntax
                | Some (fraction, afterFraction) \<Rightarrow>
                    (case scanExponent afterFraction of
                       Inl e \<Rightarrow> Inl e
                     | Inr (exponent, rest) \<Rightarrow>
                         if rest \<noteq> [] then Inl DecimalSyntax
                         else normalizeDigits negative integer fraction exponent)))"

text \<open>\<open>strconv.AppendInt\<close> in base 10.\<close>

definition digit_char :: "nat \<Rightarrow> char" where
  "digit_char n = char_of (48 + n mod 10)"

fun show_nat :: "nat \<Rightarrow> string" where
  "show_nat n = (if n < 10 then [digit_char n] else show_nat (n div 10) @ [digit_char n])"

declare show_nat.simps [simp del]

definition show_int :: "int \<Rightarrow> string" where
  "show_int i = (if i < 0 then CHR ''-'' # show_nat (nat (- i)) else show_nat (nat i))"

definition decimal_zero :: "decimal \<Rightarrow> bool" where
  "decimal_zero d \<longleftrightarrow> dec_coefficient d = [] \<or> dec_coefficient d = ''0''"

definition appendString :: "decimal \<Rightarrow> string \<Rightarrow> string" where
  "appendString d out =
     (if decimal_zero d then out @ ''0''
      else
        out @ (if dec_negative d then ''-'' else []) @ dec_coefficient d
        @ (if dec_exponent d \<noteq> 0 then CHR ''e'' # show_int (dec_exponent d) else []))"

definition decimal_string :: "decimal \<Rightarrow> string" where
  "decimal_string d = appendString d []"

definition IsInteger :: "decimal \<Rightarrow> bool" where
  "IsInteger d \<longleftrightarrow> decimal_zero d \<or> 0 \<le> dec_exponent d"

definition normalizeZero :: "decimal \<Rightarrow> decimal" where
  "normalizeZero d = (if decimal_zero d then zeroDecimal else d)"

definition decimal_equal :: "decimal \<Rightarrow> decimal \<Rightarrow> bool" where
  "decimal_equal d other =
     (let d = normalizeZero d; other = normalizeZero other
      in dec_negative d = dec_negative other \<and> dec_coefficient d = dec_coefficient other
         \<and> dec_exponent d = dec_exponent other)"

text \<open>The index loop over the longer coefficient, the shorter one padded with zeros.\<close>

fun compareDecimalDigits :: "string \<Rightarrow> string \<Rightarrow> int" where
  "compareDecimalDigits [] [] = 0"
| "compareDecimalDigits (l # ls) [] =
     (if l < CHR ''0'' then - 1 else if l > CHR ''0'' then 1 else compareDecimalDigits ls [])"
| "compareDecimalDigits [] (r # rs) =
     (if CHR ''0'' < r then - 1 else if CHR ''0'' > r then 1 else compareDecimalDigits [] rs)"
| "compareDecimalDigits (l # ls) (r # rs) =
     (if l < r then - 1 else if l > r then 1 else compareDecimalDigits ls rs)"

definition compareDecimalMagnitude :: "decimal \<Rightarrow> decimal \<Rightarrow> int" where
  "compareDecimalMagnitude left right =
     (let leftMagnitude = int (length (dec_coefficient left)) + dec_exponent left;
          rightMagnitude = int (length (dec_coefficient right)) + dec_exponent right
      in if leftMagnitude < rightMagnitude then - 1
         else if rightMagnitude < leftMagnitude then 1
         else compareDecimalDigits (dec_coefficient left) (dec_coefficient right))"

definition decimal_compare :: "decimal \<Rightarrow> decimal \<Rightarrow> int" where
  "decimal_compare d other =
     (if decimal_equal d other then 0
      else if decimal_zero d then (if dec_negative other then 1 else - 1)
      else if decimal_zero other then (if dec_negative d then - 1 else 1)
      else if dec_negative d \<noteq> dec_negative other then (if dec_negative d then - 1 else 1)
      else let comparison = compareDecimalMagnitude d other
           in if dec_negative d then - comparison else comparison)"

text \<open>\<open>decimalDigits\<close>: the loop divides until the quotient is zero.\<close>

fun decimalDigitsLoop :: "nat \<Rightarrow> nat" where
  "decimalDigitsLoop n = (if n div 10 = 0 then 1 else Suc (decimalDigitsLoop (n div 10)))"

declare decimalDigitsLoop.simps [simp del]

definition decimalDigits :: "int \<Rightarrow> nat" where
  "decimalDigits value = (if value < 0 then Suc (decimalDigitsLoop (nat (- value)))
     else decimalDigitsLoop (nat value))"

definition decimal_canonicalJSONSize :: "decimal \<Rightarrow> nat" where
  "decimal_canonicalJSONSize d =
     (if decimal_zero d then 1
      else length (dec_coefficient d) + (if dec_negative d then 1 else 0)
        + (if dec_exponent d \<noteq> 0 then 1 + decimalDigits (dec_exponent d) else 0))"

section \<open>The specification: rational values\<close>

text \<open>The number a digit string denotes, read from the left.\<close>

fun digits_from :: "nat \<Rightarrow> string \<Rightarrow> nat" where
  "digits_from a [] = a"
| "digits_from a (c # cs) = digits_from (10 * a + nat (digit_val c)) cs"

abbreviation digits_value :: "string \<Rightarrow> nat" where
  "digits_value \<equiv> digits_from 0"

definition all_digits :: "string \<Rightarrow> bool" where
  "all_digits s \<longleftrightarrow> (\<forall>c \<in> set s. is_digit c)"

definition decimal_value :: "decimal \<Rightarrow> rat" where
  "decimal_value d =
     (if dec_negative d then - 1 else 1) * of_nat (digits_value (dec_coefficient d))
       * power_int 10 (dec_exponent d)"

definition canonical :: "decimal \<Rightarrow> bool" where
  "canonical d \<longleftrightarrow>
     d = zeroDecimal
     \<or> dec_coefficient d \<noteq> [] \<and> all_digits (dec_coefficient d)
       \<and> hd (dec_coefficient d) \<noteq> CHR ''0'' \<and> last (dec_coefficient d) \<noteq> CHR ''0''
       \<and> length (dec_coefficient d) \<le> MaxNumberDigits
       \<and> - MaxNumberExponent \<le> dec_exponent d \<and> dec_exponent d \<le> MaxNumberExponent"

text \<open>The grammar of a JSON number: sign, integer digits, fraction digits, exponent.\<close>

definition json_number :: "bool \<Rightarrow> string \<Rightarrow> string \<Rightarrow> int \<Rightarrow> string \<Rightarrow> bool" where
  "json_number negative integer fraction exponent lexeme \<longleftrightarrow>
     integer \<noteq> [] \<and> all_digits integer \<and> all_digits fraction
     \<and> (hd integer = CHR ''0'' \<longrightarrow> integer = ''0'')
     \<and> (\<exists>point power sgn digits.
          lexeme = (if negative then ''-'' else []) @ integer @ point @ power
          \<and> (point = [] \<and> fraction = [] \<or> point = ''.'' @ fraction \<and> fraction \<noteq> [])
          \<and> (power = [] \<and> exponent = 0
             \<or> power \<in> {''e'' @ sgn @ digits, ''E'' @ sgn @ digits}
               \<and> sgn \<in> {[], ''+'', ''-''} \<and> digits \<noteq> [] \<and> all_digits digits
               \<and> exponent = (if sgn = ''-'' then - int (digits_value digits)
                              else int (digits_value digits))))"

definition lexeme_value :: "bool \<Rightarrow> string \<Rightarrow> string \<Rightarrow> int \<Rightarrow> rat" where
  "lexeme_value negative integer fraction exponent =
     (if negative then - 1 else 1) * of_nat (digits_value (integer @ fraction))
       * power_int 10 (exponent - int (length fraction))"

section \<open>Digit strings\<close>

lemma is_digit_val: "is_digit c \<Longrightarrow> 0 \<le> digit_val c \<and> digit_val c \<le> 9"
proof -
  assume "is_digit c"
  then have "(48 :: nat) \<le> of_char c \<and> (of_char c :: nat) \<le> 57"
    by (simp add: is_digit_def less_eq_char_def)
  then show ?thesis by (simp add: digit_val_def)
qed

lemma digit_val_zero_iff: "is_digit c \<Longrightarrow> digit_val c = 0 \<longleftrightarrow> c = CHR ''0''"
proof
  assume "digit_val c = 0"
  then have "(of_char c :: nat) = of_char (CHR ''0'')" by (simp add: digit_val_def)
  then show "c = CHR ''0''" by (simp only: of_char_eq_iff)
qed (simp add: digit_val_def)

lemma digit_val_less_iff: "digit_val c < digit_val d \<longleftrightarrow> c < d"
  by (simp add: digit_val_def less_char_def)

lemma all_digits_simps [simp]:
  "all_digits []"
  "all_digits (c # s) \<longleftrightarrow> is_digit c \<and> all_digits s"
  "all_digits (s @ t) \<longleftrightarrow> all_digits s \<and> all_digits t"
  by (auto simp: all_digits_def)

lemma all_digits_takeWhile [simp]: "all_digits (takeWhile is_digit s)"
  by (auto simp: all_digits_def dest: set_takeWhileD)

lemma takeWhile_all_digits [simp]: "all_digits s \<Longrightarrow> takeWhile is_digit s = s"
  by (simp add: all_digits_def takeWhile_eq_all_conv)

lemma dropWhile_all_digits [simp]: "all_digits s \<Longrightarrow> dropWhile is_digit s = []"
  by (simp add: all_digits_def)

lemma takeWhile_digits_append:
  "all_digits s \<Longrightarrow> t \<noteq> [] \<Longrightarrow> \<not> is_digit (hd t) \<Longrightarrow> takeWhile is_digit (s @ t) = s"
  by (induction s) (auto simp: neq_Nil_conv)

lemma dropWhile_digits_append:
  "all_digits s \<Longrightarrow> t \<noteq> [] \<Longrightarrow> \<not> is_digit (hd t) \<Longrightarrow> dropWhile is_digit (s @ t) = t"
  by (induction s) (auto simp: neq_Nil_conv)

lemma digits_from_eq: "digits_from a s = a * 10 ^ length s + digits_value s"
proof (induction s arbitrary: a)
  case (Cons c s)
  show ?case
    using Cons [of "10 * a + nat (digit_val c)"] Cons [of "nat (digit_val c)"]
    by (simp add: algebra_simps)
qed simp

lemma digits_value_append: "digits_value (s @ t) = digits_value s * 10 ^ length t + digits_value t"
proof -
  have "digits_from a (s @ t) = digits_from (digits_from a s) t" for a
    by (induction s arbitrary: a) auto
  then show ?thesis by (metis digits_from_eq)
qed

lemma digits_value_Cons:
  "digits_value (c # s) = nat (digit_val c) * 10 ^ length s + digits_value s"
  using digits_value_append [of "[c]" s] by simp

lemma digits_value_zeros: "(\<forall>c \<in> set s. c = CHR ''0'') \<Longrightarrow> digits_value s = 0"
  by (induction s) (auto simp: digit_val_def)

lemma digits_value_lt: "all_digits s \<Longrightarrow> digits_value s < 10 ^ length s"
proof (induction s)
  case (Cons c s)
  then have "nat (digit_val c) \<le> 9" using is_digit_val [of c] by auto
  then have "nat (digit_val c) * 10 ^ length s \<le> 9 * 10 ^ length s"
    by (rule mult_le_mono1)
  moreover have "digits_value s < 10 ^ length s" using Cons by simp
  ultimately have "nat (digit_val c) * 10 ^ length s + digits_value s < 10 * 10 ^ length s"
    by linarith
  then show ?case unfolding digits_value_Cons by simp
qed simp

lemma digits_value_ge:
  "all_digits s \<Longrightarrow> s \<noteq> [] \<Longrightarrow> hd s \<noteq> CHR ''0'' \<Longrightarrow> 10 ^ (length s - 1) \<le> digits_value s"
proof (cases s)
  case (Cons c t)
  assume "all_digits s" "hd s \<noteq> CHR ''0''"
  then have "1 \<le> nat (digit_val c)"
    using Cons is_digit_val [of c] digit_val_zero_iff [of c] by auto
  then have "1 * 10 ^ length t \<le> nat (digit_val c) * 10 ^ length t"
    by (rule mult_le_mono1)
  then have "10 ^ length t \<le> nat (digit_val c) * 10 ^ length t + digits_value t" by linarith
  then show ?thesis unfolding Cons digits_value_Cons by simp
qed simp

section \<open>Parsing keeps the value\<close>

lemma hd_dropWhile_zero: "dropWhile (\<lambda>c. c = z) s \<noteq> [] \<Longrightarrow> hd (dropWhile (\<lambda>c. c = z) s) \<noteq> z"
  using hd_dropWhile [of "\<lambda>c. c = z" s] by blast

lemma digits_value_dropWhile: "digits_value (dropWhile (\<lambda>c. c = CHR ''0'') s) = digits_value s"
  by (induction s) (auto simp: digit_val_def)

lemma all_digits_dropWhile: "all_digits s \<Longrightarrow> all_digits (dropWhile P s)"
  by (auto simp: all_digits_def dest: set_dropWhileD)

text \<open>Cutting the trailing zeros off a non-empty digit string that starts with no zero.\<close>

lemma cut_trailing_zeros:
  fixes sig :: string
  defines "tz \<equiv> length (takeWhile (\<lambda>c. c = CHR ''0'') (rev sig))"
  assumes "sig \<noteq> []" and "hd sig \<noteq> CHR ''0''"
  obtains zeros where "sig = take (length sig - tz) sig @ zeros" and "length zeros = tz"
    and "\<forall>c \<in> set zeros. c = CHR ''0''"
    and "take (length sig - tz) sig \<noteq> []"
    and "last (take (length sig - tz) sig) \<noteq> CHR ''0''"
proof
  let ?P = "\<lambda>c. c = CHR ''0''"
  let ?zeros = "rev (takeWhile ?P (rev sig))" and ?coef = "rev (dropWhile ?P (rev sig))"
  have split: "sig = ?coef @ ?zeros"
    by (metis rev_append rev_rev_ident takeWhile_dropWhile_id)
  have len: "length ?coef = length sig - tz"
    using arg_cong [OF split, of length] by (simp add: tz_def)
  have coef: "take (length sig - tz) sig = ?coef"
    using split len by (metis append_eq_conv_conj)
  show "sig = take (length sig - tz) sig @ ?zeros" using split coef by simp
  show "length ?zeros = tz" by (simp add: tz_def)
  show "\<forall>c \<in> set ?zeros. c = CHR ''0''" by (auto dest: set_takeWhileD)
  have "\<not> (\<forall>c \<in> set sig. c = CHR ''0'')"
    using assms(2,3) by (metis hd_in_set)
  then have ne: "dropWhile ?P (rev sig) \<noteq> []" by (auto simp: dropWhile_eq_Nil_conv)
  then show "take (length sig - tz) sig \<noteq> []" by (simp add: coef)
  show "last (take (length sig - tz) sig) \<noteq> CHR ''0''"
    using hd_dropWhile_zero [OF ne] ne by (simp add: coef last_rev)
qed

lemma normalizeDigits_sound:
  assumes norm: "normalizeDigits negative integer fraction exponent = Inr d"
    and digits: "all_digits integer" "all_digits fraction"
  shows "decimal_value d = lexeme_value negative integer fraction exponent \<and> canonical d"
proof -
  define sig where "sig = dropWhile (\<lambda>c. c = CHR ''0'') (integer @ fraction)"
  have val: "digits_value sig = digits_value (integer @ fraction)"
    by (simp add: sig_def digits_value_dropWhile)
  show ?thesis
  proof (cases "sig = []")
    case True
    then have d: "d = zeroDecimal" using norm by (simp add: normalizeDigits_def sig_def)
    have "digits_value ''0'' = 0" by (simp add: digit_val_def)
    then have "decimal_value d = 0" by (simp add: d decimal_value_def zeroDecimal_def)
    moreover have "digits_value (integer @ fraction) = 0" unfolding val [symmetric] True by simp
    then have "lexeme_value negative integer fraction exponent = 0"
      unfolding lexeme_value_def by simp
    ultimately show ?thesis by (simp add: d canonical_def)
  next
    case False
    define tz where "tz = length (takeWhile (\<lambda>c. c = CHR ''0'') (rev sig))"
    define coef where "coef = take (length sig - tz) sig"
    have hd: "hd sig \<noteq> CHR ''0''"
      using False unfolding sig_def by (rule hd_dropWhile_zero)
    obtain zeros where z: "sig = coef @ zeros" "length zeros = tz" "\<forall>c \<in> set zeros. c = CHR ''0''"
      "coef \<noteq> []" "last coef \<noteq> CHR ''0''"
      by (rule cut_trailing_zeros [OF False hd, folded tz_def, folded coef_def])
    have lencoef: "length coef = length sig - tz" by (simp add: coef_def)
    have norm': "\<not> MaxNumberDigits < length coef"
      "\<not> (exponent - int (length fraction) + int tz < - MaxNumberExponent)"
      "\<not> (MaxNumberExponent < exponent - int (length fraction) + int tz)"
      "d = \<lparr>dec_negative = negative, dec_coefficient = coef,
            dec_exponent = exponent - int (length fraction) + int tz\<rparr>"
      using norm False
      by (simp_all add: normalizeDigits_def sig_def [symmetric] tz_def [symmetric]
          coef_def [symmetric] lencoef Let_def split: if_splits)
    have "all_digits sig" using digits by (simp add: sig_def all_digits_dropWhile)
    then have "all_digits coef" using z(1) by simp
    moreover have "hd coef \<noteq> CHR ''0''" using hd z(1,4) by simp
    ultimately have "canonical d" using norm' z by (auto simp: canonical_def)
    moreover have "digits_value sig = digits_value coef * 10 ^ tz"
      using z(2) digits_value_zeros [OF z(3)] by (simp add: z(1) digits_value_append)
    then have total: "(of_nat (digits_value (integer @ fraction)) :: rat)
        = of_nat (digits_value coef) * power_int 10 (int tz)"
      unfolding val [symmetric] by simp
    have "power_int (10 :: rat) (exponent - int (length fraction) + int tz)
        = power_int 10 (exponent - int (length fraction)) * power_int 10 (int tz)"
      by (rule power_int_add) simp
    then have "decimal_value d = lexeme_value negative integer fraction exponent"
      unfolding decimal_value_def lexeme_value_def total norm'(4) by simp
    ultimately show ?thesis by simp
  qed
qed

lemma scanInteger_sound:
  "scanInteger s = Some (integer, rest) \<Longrightarrow>
     s = integer @ rest \<and> integer \<noteq> [] \<and> all_digits integer
     \<and> (hd integer = CHR ''0'' \<longrightarrow> integer = ''0'')"
  by (auto simp: scanInteger_def is_digit_def split: list.splits if_splits)

lemma scanInteger_complete:
  assumes "integer \<noteq> []" and "all_digits integer" and "hd integer = CHR ''0'' \<longrightarrow> integer = ''0''"
    and "rest = [] \<or> \<not> is_digit (hd rest)"
  shows "scanInteger (integer @ rest) = Some (integer, rest)"
proof (cases integer)
  case (Cons c t)
  have "takeWhile is_digit (t @ rest) = t \<and> dropWhile is_digit (t @ rest) = rest"
    using assms(2,4) takeWhile_digits_append [of t rest] dropWhile_digits_append [of t rest] Cons
    by (cases "rest = []") auto
  then show ?thesis using assms Cons by (auto simp: scanInteger_def)
qed (use assms in simp)

lemma scanFraction_sound:
  "scanFraction s = Some (fraction, rest) \<Longrightarrow>
     all_digits fraction
     \<and> (fraction = [] \<and> s = rest \<or> fraction \<noteq> [] \<and> s = ''.'' @ fraction @ rest)"
  by (auto simp: scanFraction_def split: list.splits if_splits)

lemma accumulateExponent_sound:
  "accumulateExponent limit e ds = Some r \<Longrightarrow> all_digits ds \<Longrightarrow> 0 \<le> e \<Longrightarrow>
     r = int (digits_from (nat e) ds)"
proof (induction ds arbitrary: e)
  case (Cons c ds)
  have d: "0 \<le> digit_val c" using Cons.prems(2) is_digit_val by simp
  have "r = int (digits_from (nat (e * 10 + digit_val c)) ds)"
    using Cons d by (auto split: if_splits)
  moreover have "nat (e * 10 + digit_val c) = 10 * nat e + nat (digit_val c)"
    using d Cons.prems(3) by (simp add: nat_add_distrib nat_mult_distrib)
  ultimately show ?case by simp
qed simp

lemma accumulateExponent_complete:
  "all_digits ds \<Longrightarrow> 0 \<le> e \<Longrightarrow> int (digits_from (nat e) ds) \<le> limit \<Longrightarrow>
     accumulateExponent limit e ds = Some (int (digits_from (nat e) ds))"
proof (induction ds arbitrary: e)
  case (Cons c ds)
  have d: "0 \<le> digit_val c" using Cons.prems(1) is_digit_val by simp
  have step: "10 * nat e + nat (digit_val c) = nat (e * 10 + digit_val c)"
    using d Cons.prems(2) by (simp add: nat_add_distrib nat_mult_distrib)
  let ?v = "e * 10 + digit_val c"
  have "nat ?v \<le> digits_from (nat ?v) ds"
    using digits_from_eq [of "nat ?v" ds] by (metis le_add1 mult.commute mult_le_mono1
        nat_mult_1 one_le_numeral one_le_power order_trans)
  then have "?v \<le> limit" using Cons.prems(3) step by simp
  then have "\<not> (limit - digit_val c) div 10 < e" by simp
  moreover have "accumulateExponent limit ?v ds = Some (int (digits_from (nat ?v) ds))"
    using Cons.IH [of ?v] Cons.prems d step by simp
  ultimately show ?case by (simp add: step)
qed simp

lemma scanExponentDigits_sound:
  assumes "scanExponentDigits negative body = Inr (exponent, [])"
  shows "body \<noteq> [] \<and> all_digits body
    \<and> exponent = (if negative then - int (digits_value body) else int (digits_value body))"
proof -
  obtain limit e where e: "takeWhile is_digit body \<noteq> []" "dropWhile is_digit body = []"
    "accumulateExponent limit 0 (takeWhile is_digit body) = Some e"
    "exponent = (if negative then - e else e)"
    using assms unfolding scanExponentDigits_def Let_def
    by (auto split: if_splits option.splits)
  then have body: "takeWhile is_digit body = body"
    by (metis append_Nil2 takeWhile_dropWhile_id)
  have ad: "all_digits body" using all_digits_takeWhile [of body] body by simp
  have "e = int (digits_value body)"
    using accumulateExponent_sound [OF e(3)] ad body by simp
  then show ?thesis using e ad by auto
qed

lemma scanExponent_sound:
  assumes "scanExponent s = Inr (exponent, [])"
  shows "\<exists>sgn digits. s = [] \<and> exponent = 0
      \<or> s \<in> {''e'' @ sgn @ digits, ''E'' @ sgn @ digits}
        \<and> sgn \<in> {[], ''+'', ''-''} \<and> digits \<noteq> [] \<and> all_digits digits
        \<and> exponent = (if sgn = ''-'' then - int (digits_value digits) else int (digits_value digits))"
proof (cases s)
  case Nil
  then show ?thesis using assms by (simp add: scanExponent_def)
next
  case (Cons c rest)
  have c: "c = CHR ''e'' \<or> c = CHR ''E''"
    using assms Cons by (auto simp: scanExponent_def split: if_splits)
  consider "rest \<noteq> [] \<and> hd rest = CHR ''-''" "scanExponentDigits True (tl rest) = Inr (exponent, [])"
    | "rest \<noteq> [] \<and> hd rest = CHR ''+''" "scanExponentDigits False (tl rest) = Inr (exponent, [])"
    | "scanExponentDigits False rest = Inr (exponent, [])"
    using assms c unfolding Cons scanExponent_def by (auto split: if_splits)
  then obtain sgn digits where d: "rest = sgn @ digits" "sgn \<in> {[], ''+'', ''-''}"
    "scanExponentDigits (sgn = ''-'') digits = Inr (exponent, [])"
  proof cases
    case 1 then show thesis by (intro that [of "''-''" "tl rest"]) (cases rest, auto)+
  next
    case 2 then show thesis by (intro that [of "''+''" "tl rest"]) (cases rest, auto)+
  next
    case 3 then show thesis by (intro that [of "[]" rest]) auto
  qed
  have "s \<in> {''e'' @ sgn @ digits, ''E'' @ sgn @ digits}"
    using c d(1) Cons by (elim disjE) simp_all
  then show ?thesis
    using scanExponentDigits_sound [OF d(3)] d(2) by blast
qed

lemma ParseDecimal_scans:
  assumes "ParseDecimal lexeme = Inr d"
  obtains negative integer fraction exponent
  where "json_number negative integer fraction exponent lexeme"
    and "normalizeDigits negative integer fraction exponent = Inr d"
    and "lexeme \<noteq> [] \<and> length lexeme \<le> MaxNumberLexemeBytes"
proof -
  define negative where "negative = (hd lexeme = CHR ''-'')"
  define unsigned where "unsigned = (if negative then tl lexeme else lexeme)"
  obtain integer r1 fraction r2 exponent where
    len: "lexeme \<noteq> []" "length lexeme \<le> MaxNumberLexemeBytes"
    and scans: "scanInteger unsigned = Some (integer, r1)" "scanFraction r1 = Some (fraction, r2)"
      "scanExponent r2 = Inr (exponent, [])"
    and norm: "normalizeDigits negative integer fraction exponent = Inr d"
    using assms unfolding ParseDecimal_def negative_def [symmetric] Let_def
    by (auto simp: unsigned_def split: if_splits option.splits sum.splits)
  have lex: "lexeme = (if negative then ''-'' else []) @ unsigned"
    using len(1) by (cases lexeme) (auto simp: negative_def unsigned_def)
  note int = scanInteger_sound [OF scans(1)] and frac = scanFraction_sound [OF scans(2)]
  define point where "point = (if fraction = [] then [] else ''.'' @ fraction)"
  have r1: "r1 = point @ r2" using frac by (auto simp: point_def)
  obtain sgn digits where power: "r2 = [] \<and> exponent = 0
      \<or> r2 \<in> {''e'' @ sgn @ digits, ''E'' @ sgn @ digits}
        \<and> sgn \<in> {[], ''+'', ''-''} \<and> digits \<noteq> [] \<and> all_digits digits
        \<and> exponent = (if sgn = ''-'' then - int (digits_value digits) else int (digits_value digits))"
    using scanExponent_sound [OF scans(3)] by blast
  have "lexeme = (if negative then ''-'' else []) @ integer @ point @ r2"
    using lex int r1 by simp
  moreover have "point = [] \<and> fraction = [] \<or> point = ''.'' @ fraction \<and> fraction \<noteq> []"
    by (simp add: point_def)
  ultimately have "json_number negative integer fraction exponent lexeme"
    unfolding json_number_def using int frac power by blast
  then show thesis using norm len that by blast
qed

section \<open>The canonical text parses back\<close>

lemma digit_char_is_digit: "is_digit (digit_char n)"
proof -
  have "(of_char (digit_char n) :: nat) = 48 + n mod 10"
    by (simp add: digit_char_def)
  then show ?thesis by (simp add: is_digit_def less_eq_char_def)
qed

lemma digit_char_val: "digit_val (digit_char n) = int (n mod 10)"
  by (simp add: digit_val_def digit_char_def)

lemma show_nat_props: "show_nat n \<noteq> [] \<and> all_digits (show_nat n) \<and> digits_value (show_nat n) = n"
proof (induction n rule: show_nat.induct)
  case (1 n)
  show ?case
  proof (cases "n < 10")
    case True
    then show ?thesis
      by (simp add: show_nat.simps [of n] digit_char_is_digit digit_char_val)
  next
    case False
    then have "show_nat n = show_nat (n div 10) @ [digit_char n]"
      by (simp add: show_nat.simps [of n])
    moreover have "digits_value (show_nat (n div 10)) = n div 10" using "1" False by simp
    moreover have "all_digits (show_nat (n div 10))" using "1" False by simp
    ultimately show ?thesis
      by (simp add: digits_value_append digit_char_is_digit digit_char_val)
  qed
qed

lemma show_nat_length: "n < 10 ^ k \<Longrightarrow> 0 < k \<Longrightarrow> length (show_nat n) \<le> k"
proof (induction n arbitrary: k rule: show_nat.induct)
  case (1 n)
  show ?case
  proof (cases "n < 10")
    case True
    then show ?thesis using "1.prems" by (simp add: show_nat.simps [of n])
  next
    case False
    then obtain m where k: "k = Suc m" using "1.prems"(2) by (cases k) auto
    have "0 < m" using "1.prems"(1) False k by (cases m) auto
    note k = k this
    then have "n div 10 < 10 ^ m" using "1.prems"(1) by (simp add: less_mult_imp_div_less mult.commute)
    then have "length (show_nat (n div 10)) \<le> m" using "1.IH" False k by simp
    then show ?thesis using False k by (simp add: show_nat.simps [of n])
  qed
qed

lemma decimalDigitsLoop_length: "decimalDigitsLoop n = length (show_nat n)"
proof (induction n rule: decimalDigitsLoop.induct)
  case (1 n)
  show ?case
  proof (cases "n < 10")
    case True
    then show ?thesis by (simp add: decimalDigitsLoop.simps [of n] show_nat.simps [of n])
  next
    case False
    then show ?thesis
      using "1" by (simp add: decimalDigitsLoop.simps [of n] show_nat.simps [of n] div_eq_0_iff)
  qed
qed

lemma decimalDigits_length: "decimalDigits value = length (show_int value)"
  by (simp add: decimalDigits_def show_int_def decimalDigitsLoop_length)

lemma scanExponent_show_int:
  assumes "e \<noteq> 0" and "\<bar>e\<bar> \<le> MaxNumberExponent"
  shows "scanExponent (CHR ''e'' # show_int e) = Inr (e, [])"
proof -
  have digits: "scanExponentDigits negative (show_nat n) =
      Inr (if negative then - int n else int n, [])" if "int n \<le> MaxNumberExponent" for negative n
  proof -
    have sn: "all_digits (show_nat n)" "digits_value (show_nat n) = n" "show_nat n \<noteq> []"
      using show_nat_props [of n] by auto
    have "accumulateExponent limit 0 (show_nat n) = Some (int n)" if "int n \<le> limit" for limit
      using accumulateExponent_complete [of "show_nat n" 0 limit] sn that by simp
    then show ?thesis
      using sn that by (simp add: scanExponentDigits_def MaxNumberExponent_def)
  qed
  show ?thesis
  proof (cases "e < 0")
    case True
    then show ?thesis
      using digits [of "nat (- e)" True] assms by (simp add: scanExponent_def show_int_def)
  next
    case False
    obtain c t where ct: "show_nat (nat e) = c # t"
      using show_nat_props [of "nat e"] by (cases "show_nat (nat e)") auto
    then have "is_digit c" using show_nat_props [of "nat e"] by simp
    then have "c \<noteq> CHR ''-''" "c \<noteq> CHR ''+''" by (auto simp: is_digit_def)
    then show ?thesis
      using digits [of "nat e" False] assms False ct by (simp add: scanExponent_def show_int_def)
  qed
qed

lemma normalizeDigits_canonical:
  assumes "coef \<noteq> []" and "hd coef \<noteq> CHR ''0''" and "last coef \<noteq> CHR ''0''"
    and "length coef \<le> MaxNumberDigits"
    and "- MaxNumberExponent \<le> e" and "e \<le> MaxNumberExponent"
  shows "normalizeDigits negative coef [] e =
    Inr \<lparr>dec_negative = negative, dec_coefficient = coef, dec_exponent = e\<rparr>"
proof -
  have "dropWhile (\<lambda>c. c = CHR ''0'') coef = coef" using assms(1,2) by (cases coef) auto
  moreover have "takeWhile (\<lambda>c. c = CHR ''0'') (rev coef) = []"
    using assms(1,3) by (cases coef rule: rev_cases) auto
  ultimately show ?thesis using assms by (simp add: normalizeDigits_def)
qed

lemma decimal_roundtrip:
  assumes "canonical d"
  shows "ParseDecimal (decimal_string d) = Inr d"
proof (cases "d = zeroDecimal")
  case True
  show ?thesis
    unfolding True decimal_string_def appendString_def decimal_zero_def zeroDecimal_def
    by (simp add: ParseDecimal_def scanInteger_def scanFraction_def scanExponent_def
        normalizeDigits_def zeroDecimal_def MaxNumberLexemeBytes_def)
next
  case False
  obtain negative coef e where d: "d = \<lparr>dec_negative = negative, dec_coefficient = coef, dec_exponent = e\<rparr>"
    by (cases d) auto
  have c: "coef \<noteq> []" "all_digits coef" "hd coef \<noteq> CHR ''0''" "last coef \<noteq> CHR ''0''"
    "length coef \<le> MaxNumberDigits" "- MaxNumberExponent \<le> e" "e \<le> MaxNumberExponent"
    using assms False by (auto simp: canonical_def d)
  define power where "power = (if e \<noteq> 0 then CHR ''e'' # show_int e else [])"
  have nz: "\<not> decimal_zero d" using c(1,3) by (auto simp: decimal_zero_def d)
  have shape: "decimal_string d = (if negative then ''-'' else []) @ coef @ power"
    using nz by (simp add: decimal_string_def appendString_def d power_def)
  have "is_digit (hd coef)" using c(1,2) by (cases coef) auto
  then have minus: "hd coef \<noteq> CHR ''-''" by (auto simp: is_digit_def)
  then have neg: "(hd (decimal_string d) = CHR ''-'') = negative"
    using c(1) by (simp add: shape)
  have unsigned: "(if negative then tl (decimal_string d) else decimal_string d) = coef @ power"
    by (simp add: shape)
  have "length (show_nat n) \<le> 6" if "int n \<le> MaxNumberExponent" for n
    using show_nat_length [of n 6] that by (simp add: MaxNumberExponent_def)
  from this [of "nat e"] this [of "nat (- e)"] have "length (show_int e) \<le> 7"
    using c(6,7) by (auto simp: show_int_def MaxNumberExponent_def)
  then have len: "length (decimal_string d) \<le> MaxNumberLexemeBytes"
    using c(5) by (simp add: shape power_def MaxNumberDigits_def MaxNumberLexemeBytes_def)
  have pow_hd: "power = [] \<or> \<not> is_digit (hd power)" by (simp add: power_def is_digit_def)
  have integer: "scanInteger (coef @ power) = Some (coef, power)"
    using scanInteger_complete [OF c(1,2) _ pow_hd] c(3) by simp
  have frac: "scanFraction power = Some ([], power)" by (simp add: scanFraction_def power_def)
  have expo: "scanExponent power = Inr (e, [])"
    using scanExponent_show_int [of e] c(6,7) by (auto simp: power_def scanExponent_def)
  have "decimal_string d \<noteq> []" using c(1) by (simp add: shape)
  then have "ParseDecimal (decimal_string d) = normalizeDigits negative coef [] e"
    using len by (simp add: ParseDecimal_def neg unsigned integer frac expo Let_def)
  then show ?thesis using normalizeDigits_canonical [OF c(1,3,4,5,6,7)] by (simp add: d)
qed

lemma decimal_size_exact: "decimal_canonicalJSONSize d = length (decimal_string d)"
  by (simp add: decimal_canonicalJSONSize_def decimal_string_def appendString_def decimalDigits_length)

section \<open>Comparison orders by value\<close>

definition order_sign :: "'a :: linorder \<Rightarrow> 'a \<Rightarrow> int" where
  "order_sign x y = (if x < y then - 1 else if y < x then 1 else 0)"

definition padded :: "nat \<Rightarrow> string \<Rightarrow> nat" where
  "padded n s = digits_value s * 10 ^ (n - length s)"

lemma padded_Cons:
  "length s \<le> m \<Longrightarrow> padded (Suc m) (c # s) = nat (digit_val c) * 10 ^ m + padded m s"
proof -
  assume "length s \<le> m"
  then have "(10 :: nat) ^ m = 10 ^ length s * 10 ^ (m - length s)"
    by (metis le_add_diff_inverse power_add)
  then show ?thesis by (simp add: padded_def digits_value_Cons algebra_simps del: digits_from.simps)
qed

lemma padded_lt: "all_digits s \<Longrightarrow> length s \<le> m \<Longrightarrow> padded m s < 10 ^ m"
proof -
  assume "all_digits s" "length s \<le> m"
  then have "digits_value s * 10 ^ (m - length s) < 10 ^ length s * 10 ^ (m - length s)"
    by (simp add: digits_value_lt)
  also have "\<dots> = 10 ^ m" using \<open>length s \<le> m\<close> by (metis le_add_diff_inverse power_add)
  finally show ?thesis by (simp add: padded_def)
qed

lemma order_sign_lex:
  fixes x y :: nat
  assumes "u < p" and "v < p"
  shows "order_sign (x * p + u) (y * p + v) = (if x < y then - 1 else if y < x then 1 else order_sign u v)"
proof -
  have lt: "a * p + c < b * p + d" if "a < b" "c < p" for a b c d :: nat
  proof -
    have "Suc a * p \<le> b * p" using that by (intro mult_le_mono1) simp
    then show ?thesis using that by simp
  qed
  show ?thesis
    using lt [of x y u v] lt [of y x v u] assms by (auto simp: order_sign_def)
qed

lemma digit_nat_less_iff: "is_digit c \<Longrightarrow> is_digit d \<Longrightarrow> nat (digit_val c) < nat (digit_val d) \<longleftrightarrow> c < d"
  using is_digit_val [of c] is_digit_val [of d] digit_val_less_iff [of c d] by auto

lemma is_digit_zero: "is_digit (CHR ''0'')"
  by (simp add: is_digit_def)

lemma digit_val_0: "digit_val (CHR ''0'') = 0"
  by (simp add: digit_val_def)

lemma order_sign_digit:
  assumes "is_digit c" and "is_digit d" and "all_digits s" and "all_digits t"
    and "length s \<le> m" and "length t \<le> m"
  shows "order_sign (nat (digit_val c) * 10 ^ m + padded m s) (nat (digit_val d) * 10 ^ m + padded m t) =
    (if c < d then - 1 else if d < c then 1 else order_sign (padded m s) (padded m t))"
  unfolding order_sign_lex [OF padded_lt [OF assms(3,5)] padded_lt [OF assms(4,6)]]
    digit_nat_less_iff [OF assms(1,2)] digit_nat_less_iff [OF assms(2,1)] by (rule refl)

lemma compareDecimalDigits_padded:
  "all_digits a \<Longrightarrow> all_digits b \<Longrightarrow> length a \<le> n \<Longrightarrow> length b \<le> n \<Longrightarrow>
     compareDecimalDigits a b = order_sign (padded n a) (padded n b)"
proof (induction a b arbitrary: n rule: compareDecimalDigits.induct)
  case 1
  then show ?case by (simp add: order_sign_def padded_def)
next
  case (2 l ls)
  from "2.prems" obtain m where m: "n = Suc m" "length ls \<le> m" by (cases n) auto
  have "order_sign (padded n (l # ls)) (padded n []) =
      order_sign (nat (digit_val l) * 10 ^ m + padded m ls) (nat (digit_val CHR ''0'') * 10 ^ m + padded m [])"
    unfolding m(1) padded_Cons [OF m(2)] by (simp add: padded_def digit_val_0)
  also have "\<dots> = (if l < CHR ''0'' then - 1 else if CHR ''0'' < l then 1
      else order_sign (padded m ls) (padded m []))"
    using "2.prems" m by (intro order_sign_digit) (auto simp: is_digit_zero)
  finally show ?case using "2.IH" [of m] "2.prems" m by (auto simp del: One_nat_def)
next
  case (3 r rs)
  from "3.prems" obtain m where m: "n = Suc m" "length rs \<le> m" by (cases n) auto
  have "order_sign (padded n []) (padded n (r # rs)) =
      order_sign (nat (digit_val CHR ''0'') * 10 ^ m + padded m []) (nat (digit_val r) * 10 ^ m + padded m rs)"
    unfolding m(1) padded_Cons [OF m(2)] by (simp add: padded_def digit_val_0)
  also have "\<dots> = (if CHR ''0'' < r then - 1 else if r < CHR ''0'' then 1
      else order_sign (padded m []) (padded m rs))"
    using "3.prems" m by (intro order_sign_digit) (auto simp: is_digit_zero)
  finally show ?case using "3.IH" [of m] "3.prems" m by auto
next
  case (4 l ls r rs)
  from "4.prems" obtain m where m: "n = Suc m" "length ls \<le> m" "length rs \<le> m" by (cases n) auto
  have "order_sign (padded n (l # ls)) (padded n (r # rs)) =
      (if l < r then - 1 else if r < l then 1 else order_sign (padded m ls) (padded m rs))"
    unfolding m(1) padded_Cons [OF m(2)] padded_Cons [OF m(3)]
    using "4.prems" m by (intro order_sign_digit) auto
  then show ?case using "4.IH" [of m] "4.prems" m by auto
qed

lemma order_sign_scale:
  fixes x y p :: "'a :: linordered_field"
  shows "0 < p \<Longrightarrow> order_sign (x * p) (y * p) = order_sign x y"
  by (simp add: order_sign_def)

lemma order_sign_of_nat: "order_sign (of_nat x :: rat) (of_nat y) = order_sign x y"
  by (simp add: order_sign_def)

lemma order_sign_neg: "order_sign (- x :: rat) (- y) = - order_sign x y"
  by (auto simp: order_sign_def)

definition magnitude :: "decimal \<Rightarrow> rat" where
  "magnitude d = of_nat (digits_value (dec_coefficient d)) * power_int 10 (dec_exponent d)"

lemma decimal_value_magnitude: "decimal_value d = (if dec_negative d then - magnitude d else magnitude d)"
  by (simp add: decimal_value_def magnitude_def)

lemma magnitude_padded:
  assumes "length (dec_coefficient d) \<le> n"
  shows "magnitude d =
    of_nat (padded n (dec_coefficient d)) * power_int 10 (int (length (dec_coefficient d)) + dec_exponent d - int n)"
proof -
  let ?k = "n - length (dec_coefficient d)"
  have "power_int (10 :: rat) (dec_exponent d) =
      power_int 10 (int ?k + (int (length (dec_coefficient d)) + dec_exponent d - int n))"
    using assms by (simp add: of_nat_diff)
  also have "\<dots> = power_int 10 (int ?k)
      * power_int 10 (int (length (dec_coefficient d)) + dec_exponent d - int n)"
    by (rule power_int_add) simp
  finally show ?thesis unfolding magnitude_def padded_def by simp
qed

lemma compareDecimalMagnitude_value:
  assumes d: "canonical d" "d \<noteq> zeroDecimal" and e: "canonical e" "e \<noteq> zeroDecimal"
  shows "compareDecimalMagnitude d e = order_sign (magnitude d) (magnitude e)"
proof -
  define cd where "cd = dec_coefficient d"
  define ce where "ce = dec_coefficient e"
  have cd: "cd \<noteq> []" "all_digits cd" "hd cd \<noteq> CHR ''0''" using d by (auto simp: canonical_def cd_def)
  have ce: "ce \<noteq> []" "all_digits ce" "hd ce \<noteq> CHR ''0''" using e by (auto simp: canonical_def ce_def)
  define md where "md = int (length cd) + dec_exponent d"
  define me where "me = int (length ce) + dec_exponent e"
  have bounds: "power_int 10 (int (length (dec_coefficient x)) + dec_exponent x - 1) \<le> magnitude x
      \<and> magnitude x < power_int 10 (int (length (dec_coefficient x)) + dec_exponent x)"
    if x: "dec_coefficient x \<noteq> []" "all_digits (dec_coefficient x)" "hd (dec_coefficient x) \<noteq> CHR ''0''"
    for x :: decimal
  proof -
    let ?c = "dec_coefficient x" and ?p = "power_int (10 :: rat) (dec_exponent x)"
    have pos: "0 < ?p" by simp
    have "10 ^ (length ?c - 1) \<le> digits_value ?c" using digits_value_ge [OF x(2,1,3)] .
    then have low: "(10 :: rat) ^ (length ?c - 1) \<le> of_nat (digits_value ?c)"
      by (metis of_nat_le_iff of_nat_numeral of_nat_power)
    have "digits_value ?c < 10 ^ length ?c" using digits_value_lt [OF x(2)] .
    then have high: "(of_nat (digits_value ?c) :: rat) < 10 ^ length ?c"
      by (metis of_nat_less_iff of_nat_numeral of_nat_power)
    have "int (length ?c) + dec_exponent x - 1 = int (length ?c - 1) + dec_exponent x"
      using x(1) by (cases ?c) auto
    moreover have scaled: "power_int (10 :: rat) (int k + dec_exponent x) = 10 ^ k * ?p" for k
      by (subst power_int_add) simp_all
    moreover have "10 ^ (length ?c - 1) * ?p \<le> magnitude x"
      unfolding magnitude_def using low pos by (intro mult_right_mono) simp_all
    moreover have "magnitude x < 10 ^ length ?c * ?p"
      unfolding magnitude_def using high pos by (intro mult_strict_right_mono)
    ultimately show ?thesis by presburger
  qed
  note bd = bounds [of d, folded cd_def, OF cd, folded md_def]
  note be = bounds [of e, folded ce_def, OF ce, folded me_def]
  have apart: "magnitude x < magnitude y"
    if "magnitude x < power_int 10 mx" "power_int 10 (my - 1) \<le> magnitude y" "mx < my"
    for x y :: decimal and mx my :: int
  proof -
    have "power_int (10 :: rat) mx \<le> power_int 10 (my - 1)"
      using that(3) by (intro power_int_increasing) auto
    then show ?thesis using that by linarith
  qed
  consider "md < me" | "me < md" | "md = me" by linarith
  then show ?thesis
  proof cases
    case 1
    then have "magnitude d < magnitude e" using apart bd be by blast
    then show ?thesis using 1
      by (simp add: compareDecimalMagnitude_def order_sign_def cd_def [symmetric] ce_def [symmetric]
          md_def [symmetric] me_def [symmetric] Let_def)
  next
    case 2
    then have "magnitude e < magnitude d" using apart bd be by blast
    then show ?thesis using 2
      by (simp add: compareDecimalMagnitude_def order_sign_def cd_def [symmetric] ce_def [symmetric]
          md_def [symmetric] me_def [symmetric] Let_def)
  next
    case 3
    define n where "n = max (length cd) (length ce)"
    have "magnitude d = of_nat (padded n cd) * power_int 10 (md - int n)"
      unfolding cd_def md_def by (rule magnitude_padded) (simp add: n_def cd_def)
    moreover have "magnitude e = of_nat (padded n ce) * power_int 10 (md - int n)"
      unfolding ce_def 3 me_def by (rule magnitude_padded) (simp add: n_def ce_def)
    ultimately have "order_sign (magnitude d) (magnitude e) = order_sign (padded n cd) (padded n ce)"
      by (simp add: order_sign_scale order_sign_of_nat)
    also have "\<dots> = compareDecimalDigits cd ce"
      by (rule compareDecimalDigits_padded [symmetric]) (use cd ce in \<open>auto simp: n_def\<close>)
    finally show ?thesis using 3
      by (simp add: compareDecimalMagnitude_def cd_def [symmetric] ce_def [symmetric]
          md_def [symmetric] me_def [symmetric] Let_def)
  qed
qed

lemma magnitude_pos: "canonical d \<Longrightarrow> d \<noteq> zeroDecimal \<Longrightarrow> 0 < magnitude d"
proof -
  assume "canonical d" "d \<noteq> zeroDecimal"
  then have c: "dec_coefficient d \<noteq> []" "all_digits (dec_coefficient d)" "hd (dec_coefficient d) \<noteq> CHR ''0''"
    by (auto simp: canonical_def)
  have "0 < digits_value (dec_coefficient d)"
    using digits_value_ge [OF c(2,1,3)] by (metis less_le_trans zero_less_numeral zero_less_power)
  then show ?thesis by (simp add: magnitude_def)
qed

lemma canonical_zero_iff: "canonical d \<Longrightarrow> decimal_zero d \<longleftrightarrow> d = zeroDecimal"
  by (auto simp: canonical_def decimal_zero_def zeroDecimal_def)

lemma decimal_equal_eq: "canonical d \<Longrightarrow> canonical e \<Longrightarrow> decimal_equal d e \<longleftrightarrow> d = e"
  by (cases d; cases e)
    (auto simp: decimal_equal_def normalizeZero_def canonical_zero_iff Let_def)

lemma decimal_value_zero: "decimal_value zeroDecimal = 0"
  by (simp add: decimal_value_def zeroDecimal_def digit_val_def)

lemma decimal_compare_value:
  assumes "canonical d" and "canonical e"
  shows "decimal_compare d e = order_sign (decimal_value d) (decimal_value e)"
proof -
  have val: "decimal_value x = (if dec_negative x then - magnitude x else magnitude x)" for x
    by (rule decimal_value_magnitude)
  consider "d = e" | "d \<noteq> e" "d = zeroDecimal" | "d \<noteq> e" "e = zeroDecimal"
    | "d \<noteq> e" "d \<noteq> zeroDecimal" "e \<noteq> zeroDecimal" by blast
  then show ?thesis
  proof cases
    case 1
    then show ?thesis using assms by (simp add: decimal_compare_def decimal_equal_eq order_sign_def)
  next
    case 2
    then have "0 < magnitude e" using assms(2) by (intro magnitude_pos) auto
    then show ?thesis using 2 assms
      by (simp add: decimal_compare_def decimal_equal_eq canonical_zero_iff order_sign_def
          decimal_value_zero val [of e])
  next
    case 3
    then have "0 < magnitude d" using assms(1) by (intro magnitude_pos) auto
    then show ?thesis using 3 assms
      by (simp add: decimal_compare_def decimal_equal_eq canonical_zero_iff order_sign_def
          decimal_value_zero val [of d])
  next
    case 4
    have pos: "0 < magnitude d" "0 < magnitude e" using 4 assms by (auto intro: magnitude_pos)
    have mag: "compareDecimalMagnitude d e = order_sign (magnitude d) (magnitude e)"
      using 4 assms by (intro compareDecimalMagnitude_value)
    show ?thesis
      using 4 assms pos
      by (auto simp: decimal_compare_def decimal_equal_eq canonical_zero_iff mag val [of d] val [of e]
          order_sign_neg Let_def) (auto simp: order_sign_def)
  qed
qed

text \<open>Without trailing zeros, equal magnitudes are equal coefficients and exponents.\<close>

lemma compareDecimalDigits_zero:
  "compareDecimalDigits a b = 0 \<Longrightarrow> (a \<noteq> [] \<longrightarrow> last a \<noteq> CHR ''0'') \<Longrightarrow>
     (b \<noteq> [] \<longrightarrow> last b \<noteq> CHR ''0'') \<Longrightarrow> a = b"
proof (induction a b rule: compareDecimalDigits.induct)
  case (2 l ls)
  then have "l = CHR ''0''" "compareDecimalDigits ls [] = 0" by (auto split: if_splits)
  then show ?case using 2 by (cases ls) auto
next
  case (3 r rs)
  then have "r = CHR ''0''" "compareDecimalDigits [] rs = 0" by (auto split: if_splits)
  then show ?case using 3 by (cases rs) auto
next
  case (4 l ls r rs)
  then have "l = r" "compareDecimalDigits ls rs = 0" by (auto split: if_splits)
  then show ?case using 4 by (auto split: if_splits)
qed simp

lemma decimal_compare_zero:
  assumes "canonical d" and "canonical e"
  shows "decimal_compare d e = 0 \<longleftrightarrow> d = e"
proof
  assume zero: "decimal_compare d e = 0"
  show "d = e"
  proof (rule ccontr)
    assume ne: "d \<noteq> e"
    then have neq: "\<not> decimal_equal d e" using assms decimal_equal_eq by blast
    with zero have parts: "\<not> decimal_zero d" "\<not> decimal_zero e" "dec_negative d = dec_negative e"
      "compareDecimalMagnitude d e = 0"
      by (auto simp: decimal_compare_def Let_def split: if_splits)
    then have "compareDecimalDigits (dec_coefficient d) (dec_coefficient e) = 0"
      and mag: "int (length (dec_coefficient d)) + dec_exponent d
          = int (length (dec_coefficient e)) + dec_exponent e"
      by (auto simp: compareDecimalMagnitude_def Let_def split: if_splits)
    moreover have "last (dec_coefficient d) \<noteq> CHR ''0''" "last (dec_coefficient e) \<noteq> CHR ''0''"
      using assms parts(1,2) canonical_zero_iff by (auto simp: canonical_def)
    ultimately have "dec_coefficient d = dec_coefficient e" by (blast intro: compareDecimalDigits_zero)
    with mag parts(3) ne show False by (cases d; cases e) simp
  qed
next
  assume "d = e"
  then show "decimal_compare d e = 0"
    using assms decimal_equal_eq [of d e] by (simp add: decimal_compare_def)
qed

section \<open>Properties\<close>

text \<open>
  C32: what \<open>ParseDecimal\<close> accepts is a JSON number of at most 1024 bytes, and the decimal it
  returns is canonical and denotes exactly the rational number the text denotes.
\<close>

theorem ParseDecimal_sound:
  assumes "ParseDecimal lexeme = Inr d"
  shows "canonical d \<and> length lexeme \<le> MaxNumberLexemeBytes
    \<and> (\<exists>negative integer fraction exponent.
          json_number negative integer fraction exponent lexeme
          \<and> decimal_value d = lexeme_value negative integer fraction exponent)"
proof -
  obtain negative integer fraction exponent
    where lex: "json_number negative integer fraction exponent lexeme"
      and norm: "normalizeDigits negative integer fraction exponent = Inr d"
      and len: "length lexeme \<le> MaxNumberLexemeBytes"
    using ParseDecimal_scans [OF assms] by metis
  have "all_digits integer" "all_digits fraction" using lex by (auto simp: json_number_def)
  then show ?thesis using normalizeDigits_sound [OF norm] lex len by blast
qed

theorem ParseDecimal_sound_witness:
  "canonical \<lparr>dec_negative = True, dec_coefficient = ''125'', dec_exponent = 0\<rparr>
   \<and> length ''-12.50E+1'' \<le> MaxNumberLexemeBytes
   \<and> (\<exists>negative integer fraction exponent.
         json_number negative integer fraction exponent ''-12.50E+1''
         \<and> decimal_value \<lparr>dec_negative = True, dec_coefficient = ''125'', dec_exponent = 0\<rparr>
             = lexeme_value negative integer fraction exponent)"
  by (rule ParseDecimal_sound) code_simp

text \<open>
  C33: the text of a canonical decimal parses back to that decimal, so equal texts are equal
  decimals, and \<open>CanonicalJSONSize\<close> reserves exactly the length of that text.
\<close>

theorem decimal_string_roundtrip:
  assumes "canonical d"
  shows "ParseDecimal (decimal_string d) = Inr d
    \<and> decimal_canonicalJSONSize d = length (decimal_string d)"
  using decimal_roundtrip [OF assms] decimal_size_exact by blast

theorem decimal_string_roundtrip_witness:
  "ParseDecimal (decimal_string \<lparr>dec_negative = True, dec_coefficient = ''907'', dec_exponent = - 12\<rparr>)
     = Inr \<lparr>dec_negative = True, dec_coefficient = ''907'', dec_exponent = - 12\<rparr>
   \<and> decimal_canonicalJSONSize \<lparr>dec_negative = True, dec_coefficient = ''907'', dec_exponent = - 12\<rparr>
     = length (decimal_string \<lparr>dec_negative = True, dec_coefficient = ''907'', dec_exponent = - 12\<rparr>)"
  by (rule decimal_string_roundtrip)
    (simp add: canonical_def all_digits_def is_digit_def MaxNumberDigits_def MaxNumberExponent_def)

text \<open>
  C34: on canonical decimals \<open>Compare\<close> is the order of the rational values, computed on the
  digits without ever scaling to a common exponent, and \<open>Equal\<close> is equality of the values.
\<close>

theorem decimal_compare_orders:
  assumes "canonical d" and "canonical e"
  shows "decimal_compare d e = order_sign (decimal_value d) (decimal_value e)
    \<and> (decimal_equal d e \<longleftrightarrow> decimal_value d = decimal_value e)"
proof -
  have "decimal_compare d e = 0 \<longleftrightarrow> decimal_value d = decimal_value e"
    using decimal_compare_value [OF assms] by (simp add: order_sign_def)
  moreover have "decimal_compare d e = 0 \<longleftrightarrow> d = e"
    using assms decimal_compare_zero by blast
  ultimately show ?thesis using decimal_compare_value [OF assms] decimal_equal_eq [OF assms] by blast
qed

theorem decimal_compare_orders_witness:
  "decimal_compare \<lparr>dec_negative = True, dec_coefficient = ''12'', dec_exponent = 5\<rparr>
      \<lparr>dec_negative = False, dec_coefficient = ''3'', dec_exponent = - 7\<rparr>
    = order_sign (decimal_value \<lparr>dec_negative = True, dec_coefficient = ''12'', dec_exponent = 5\<rparr>)
        (decimal_value \<lparr>dec_negative = False, dec_coefficient = ''3'', dec_exponent = - 7\<rparr>)
   \<and> (decimal_equal \<lparr>dec_negative = True, dec_coefficient = ''12'', dec_exponent = 5\<rparr>
         \<lparr>dec_negative = False, dec_coefficient = ''3'', dec_exponent = - 7\<rparr>
      \<longleftrightarrow> decimal_value \<lparr>dec_negative = True, dec_coefficient = ''12'', dec_exponent = 5\<rparr>
          = decimal_value \<lparr>dec_negative = False, dec_coefficient = ''3'', dec_exponent = - 7\<rparr>)"
  by (rule decimal_compare_orders)
    (simp_all add: canonical_def all_digits_def is_digit_def MaxNumberDigits_def MaxNumberExponent_def)

end
