(* ===== verification/Action_Value.thy ===== *)
theory Action_Value
  imports Action_Decimal "HOL-Library.Multiset"
begin

text \<open>
  The closed canonical JSON values of package action (value.go): constructors with their
  bounds, the read accessors, equality, and the two traversals of a value that must agree,
  \<open>CanonicalJSONSize\<close> (the size without the encoding) and \<open>MarshalJSON\<close> (the encoding).
\<close>

section \<open>The code\<close>

text \<open>\<open>ValueUnset\<close> is the zero \<open>Value\<close>, whose kind is the empty string.\<close>

datatype json_value =
  ValueUnset
  | Null
  | Boolean bool
  | Number decimal
  | JString string
  | Array "json_value list"
  | Object "(string \<times> json_value) list"

type_synonym member = "string \<times> json_value"

datatype value_kind =
  ValueNull | ValueBool | ValueNumber | ValueString | ValueArray | ValueObject | ValueKindUnset

datatype value_error =
  StringBound | ArrayBound | ObjectBound | KeyBound | DuplicateObjectKey string
  | DepthBound | SizeOverflow | KindInvalid | InvalidUTF8Quote

definition MaxJSONItems :: nat where "MaxJSONItems = 65536"
definition MaxJSONStringBytes :: nat where "MaxJSONStringBytes = 4 * 2 ^ 20"
definition MaxJSONDepth :: nat where "MaxJSONDepth = 32"

definition mkNumber :: "decimal \<Rightarrow> json_value" where
  "mkNumber v = Number (normalizeZero v)"

definition mkString :: "string \<Rightarrow> value_error + json_value" where
  "mkString s =
     (if \<not> validString s \<or> MaxJSONStringBytes < length s then Inl StringBound else Inr (JString s))"

definition mkArray :: "json_value list \<Rightarrow> value_error + json_value" where
  "mkArray vs = (if MaxJSONItems < length vs then Inl ArrayBound else Inr (Array vs))"

text \<open>The loop over the sorted members: the bound of a key, then its predecessor.\<close>

fun checkMembers :: "string option \<Rightarrow> member list \<Rightarrow> value_error option" where
  "checkMembers previous [] = None"
| "checkMembers previous ((name, v) # rest) =
     (if \<not> validString name \<or> MaxJSONStringBytes < length name then Some KeyBound
      else if previous = Some name then Some (DuplicateObjectKey name)
      else checkMembers (Some name) rest)"

definition mkObject :: "member list \<Rightarrow> value_error + json_value" where
  "mkObject members =
     (if MaxJSONItems < length members then Inl ObjectBound
      else let out = sort_key fst members
           in case checkMembers None out of
                Some e \<Rightarrow> Inl e
              | None \<Rightarrow> Inr (Object out))"

fun kind_of :: "json_value \<Rightarrow> value_kind" where
  "kind_of ValueUnset = ValueKindUnset"
| "kind_of Null = ValueNull"
| "kind_of (Boolean b) = ValueBool"
| "kind_of (Number d) = ValueNumber"
| "kind_of (JString s) = ValueString"
| "kind_of (Array vs) = ValueArray"
| "kind_of (Object ms) = ValueObject"

fun value_bool :: "json_value \<Rightarrow> bool option" where
  "value_bool (Boolean b) = Some b"
| "value_bool v = None"

fun value_decimal :: "json_value \<Rightarrow> decimal option" where
  "value_decimal (Number d) = Some d"
| "value_decimal v = None"

fun value_text :: "json_value \<Rightarrow> string option" where
  "value_text (JString s) = Some s"
| "value_text v = None"

fun value_items :: "json_value \<Rightarrow> json_value list option" where
  "value_items (Array vs) = Some vs"
| "value_items v = None"

definition value_array_len :: "json_value \<Rightarrow> nat option" where
  "value_array_len v = map_option length (value_items v)"

definition value_array_item :: "json_value \<Rightarrow> nat \<Rightarrow> json_value option" where
  "value_array_item v index =
     (case value_items v of
        None \<Rightarrow> None
      | Some vs \<Rightarrow> if length vs \<le> index then None else Some (vs ! index))"

fun value_members :: "json_value \<Rightarrow> member list option" where
  "value_members (Object ms) = Some ms"
| "value_members v = None"

definition value_object_len :: "json_value \<Rightarrow> nat option" where
  "value_object_len v = map_option length (value_members v)"

definition value_lookup :: "json_value \<Rightarrow> string \<Rightarrow> json_value option" where
  "value_lookup v name =
     (case value_members v of
        None \<Rightarrow> None
      | Some ms \<Rightarrow>
          let index = sort_search (length ms) (\<lambda>index. name \<le> fst (ms ! index))
          in if index = length ms \<or> fst (ms ! index) \<noteq> name then None
             else Some (snd (ms ! index)))"

definition value_scalar :: "json_value \<Rightarrow> bool" where
  "value_scalar v \<longleftrightarrow>
     kind_of v = ValueBool \<or> kind_of v = ValueNumber \<or> kind_of v = ValueString"

text \<open>Two zero values differ: their kind is in no branch of the code's switch.\<close>

fun value_equal :: "json_value \<Rightarrow> json_value \<Rightarrow> bool"
  and values_equal :: "json_value list \<Rightarrow> json_value list \<Rightarrow> bool"
  and members_equal :: "member list \<Rightarrow> member list \<Rightarrow> bool"
where
  "value_equal ValueUnset w = False"
| "value_equal Null w = (kind_of w = ValueNull)"
| "value_equal (Boolean a) w = (value_bool w = Some a)"
| "value_equal (Number a) w = (case value_decimal w of None \<Rightarrow> False | Some b \<Rightarrow> decimal_equal a b)"
| "value_equal (JString a) w = (value_text w = Some a)"
| "value_equal (Array as) w = (case value_items w of None \<Rightarrow> False | Some bs \<Rightarrow> values_equal as bs)"
| "value_equal (Object as) w = (case value_members w of None \<Rightarrow> False | Some bs \<Rightarrow> members_equal as bs)"
| "values_equal [] bs = (bs = [])"
| "values_equal (a # as) bs =
     (case bs of [] \<Rightarrow> False | b # bs \<Rightarrow> value_equal a b \<and> values_equal as bs)"
| "members_equal [] bs = (bs = [])"
| "members_equal ((m, a) # as) bs =
     (case bs of
        [] \<Rightarrow> False
      | (n, b) # bs \<Rightarrow> m = n \<and> value_equal a b \<and> members_equal as bs)"

subsection \<open>Quoting\<close>

definition runeLen :: "rune \<Rightarrow> nat" where
  "runeLen r = (if r < 128 then 1 else if r < 2048 then 2 else if r < 65536 then 3 else 4)"

definition htmlRune :: "rune \<Rightarrow> bool" where
  "htmlRune r \<longleftrightarrow> r = 60 \<or> r = 62 \<or> r = 38 \<or> r = 8232 \<or> r = 8233"

definition htmlSafe :: "string \<Rightarrow> bool" where
  "htmlSafe s \<longleftrightarrow> (\<exists>r \<in> set (runes s). htmlRune r)"

definition maxAddressable :: nat where
  "maxAddressable = 2 ^ 63 - 1"

definition addJSONSize :: "nat \<Rightarrow> nat \<Rightarrow> value_error + nat" where
  "addJSONSize acc increment =
     (if maxAddressable - increment < acc then Inl SizeOverflow else Inr (acc + increment))"

definition quotedIncrement :: "bool \<Rightarrow> rune \<Rightarrow> nat" where
  "quotedIncrement html r =
     (if r \<in> {34, 92, 8, 12, 10, 13, 9} then 2
      else if r \<in> {60, 62, 38} then (if html then 6 else runeLen r)
      else if r \<in> {8232, 8233} then (if html then 6 else runeLen r)
      else if r < 32 then 6
      else runeLen r)"

fun addSizes :: "nat \<Rightarrow> nat list \<Rightarrow> value_error + nat" where
  "addSizes acc [] = Inr acc"
| "addSizes acc (n # ns) =
     (case addJSONSize acc n of Inl e \<Rightarrow> Inl e | Inr acc \<Rightarrow> addSizes acc ns)"

definition quotedJSONStringSize :: "string \<Rightarrow> value_error + nat" where
  "quotedJSONStringSize s = addSizes 2 (map (quotedIncrement (htmlSafe s)) (runes s))"

definition hexDigit :: "nat \<Rightarrow> char" where
  "hexDigit n = char_of (if n < 10 then 48 + n else 87 + n)"

definition unicodeEscape :: "rune \<Rightarrow> string" where
  "unicodeEscape r =
     [CHR 0x5C, CHR ''u'', hexDigit (r div 4096 mod 16), hexDigit (r div 256 mod 16),
      hexDigit (r div 16 mod 16), hexDigit (r mod 16)]"

text \<open>
  The standard library's quoting of one rune, given the bytes that encode it:
  \<open>json.Marshal\<close> (\<open>html\<close>) also escapes the HTML runes, \<open>jsontext.AppendQuote\<close> does not.
\<close>

definition quoteRune :: "bool \<Rightarrow> rune \<Rightarrow> string \<Rightarrow> string" where
  "quoteRune html r bytes =
     (if r = 34 then [CHR 0x5C, CHR 0x22] else if r = 92 then [CHR 0x5C, CHR 0x5C]
      else if r = 8 then [CHR 0x5C, CHR ''b''] else if r = 12 then [CHR 0x5C, CHR ''f'']
      else if r = 10 then [CHR 0x5C, CHR ''n''] else if r = 13 then [CHR 0x5C, CHR ''r'']
      else if r = 9 then [CHR 0x5C, CHR ''t'']
      else if html \<and> htmlRune r \<or> r < 32 then unicodeEscape r
      else bytes)"

function quoteBody :: "bool \<Rightarrow> string \<Rightarrow> string" where
  "quoteBody html s =
     (if s = [] then []
      else quoteRune html (fst (decodeRune s)) (take (snd (decodeRune s)) s)
           @ quoteBody html (drop (snd (decodeRune s)) s))"
  by pat_completeness auto
termination
  by (relation "measure (\<lambda>(html, s). length s)") (use decodeRune_shorter in \<open>auto simp del: length_drop\<close>)

declare quoteBody.simps [simp del]

definition appendJSONString :: "string \<Rightarrow> string \<Rightarrow> value_error + string" where
  "appendJSONString out s =
     (if \<not> validString s then Inl InvalidUTF8Quote
      else Inr (out @ CHR 0x22 # quoteBody (htmlSafe s) s @ [CHR 0x22]))"

subsection \<open>The two traversals\<close>

fun canonicalJSONSize :: "json_value \<Rightarrow> nat \<Rightarrow> value_error + nat"
  and jsonArraySizes :: "bool \<Rightarrow> nat \<Rightarrow> json_value list \<Rightarrow> nat \<Rightarrow> value_error + nat"
  and jsonObjectSizes :: "bool \<Rightarrow> nat \<Rightarrow> member list \<Rightarrow> nat \<Rightarrow> value_error + nat"
where
  "canonicalJSONSize v depth =
     (if MaxJSONDepth < depth then Inl DepthBound
      else case v of
          Null \<Rightarrow> Inr 4
        | Boolean b \<Rightarrow> Inr (if b then 4 else 5)
        | Number d \<Rightarrow> Inr (decimal_canonicalJSONSize d)
        | JString s \<Rightarrow> quotedJSONStringSize s
        | Array vs \<Rightarrow> jsonArraySizes True 2 vs depth
        | Object ms \<Rightarrow> jsonObjectSizes True 2 ms depth
        | ValueUnset \<Rightarrow> Inl KindInvalid)"
| "jsonArraySizes first acc [] depth = Inr acc"
| "jsonArraySizes first acc (v # vs) depth =
     (case (if first then Inr acc else addJSONSize acc 1) of
        Inl e \<Rightarrow> Inl e
      | Inr acc \<Rightarrow>
          (case canonicalJSONSize v (depth + 1) of
             Inl e \<Rightarrow> Inl e
           | Inr itemSize \<Rightarrow>
               (case addJSONSize acc itemSize of
                  Inl e \<Rightarrow> Inl e
                | Inr acc \<Rightarrow> jsonArraySizes False acc vs depth)))"
| "jsonObjectSizes first acc [] depth = Inr acc"
| "jsonObjectSizes first acc ((name, v) # ms) depth =
     (case (if first then Inr acc else addJSONSize acc 1) of
        Inl e \<Rightarrow> Inl e
      | Inr acc \<Rightarrow>
          (case quotedJSONStringSize name of
             Inl e \<Rightarrow> Inl e
           | Inr nameSize \<Rightarrow>
               (case addJSONSize nameSize 1 of
                  Inl e \<Rightarrow> Inl e
                | Inr nameSize \<Rightarrow>
                    (case addJSONSize acc nameSize of
                       Inl e \<Rightarrow> Inl e
                     | Inr acc \<Rightarrow>
                         (case canonicalJSONSize v (depth + 1) of
                            Inl e \<Rightarrow> Inl e
                          | Inr valueSize \<Rightarrow>
                              (case addJSONSize acc valueSize of
                                 Inl e \<Rightarrow> Inl e
                               | Inr acc \<Rightarrow> jsonObjectSizes False acc ms depth))))))"

fun appendJSON :: "json_value \<Rightarrow> string \<Rightarrow> nat \<Rightarrow> value_error + string"
  and appendJSONArray :: "bool \<Rightarrow> json_value list \<Rightarrow> string \<Rightarrow> nat \<Rightarrow> value_error + string"
  and appendJSONObject :: "bool \<Rightarrow> member list \<Rightarrow> string \<Rightarrow> nat \<Rightarrow> value_error + string"
where
  "appendJSON v out depth =
     (if MaxJSONDepth < depth then Inl DepthBound
      else case v of
          Null \<Rightarrow> Inr (out @ ''null'')
        | Boolean b \<Rightarrow> Inr (out @ (if b then ''true'' else ''false''))
        | Number d \<Rightarrow> Inr (appendString d out)
        | JString s \<Rightarrow> appendJSONString out s
        | Array vs \<Rightarrow> appendJSONArray True vs (out @ ''['') depth
        | Object ms \<Rightarrow> appendJSONObject True ms (out @ ''{'') depth
        | ValueUnset \<Rightarrow> Inl KindInvalid)"
| "appendJSONArray first [] out depth = Inr (out @ '']'')"
| "appendJSONArray first (v # vs) out depth =
     (case appendJSON v (if first then out else out @ '','') (depth + 1) of
        Inl e \<Rightarrow> Inl e
      | Inr out \<Rightarrow> appendJSONArray False vs out depth)"
| "appendJSONObject first [] out depth = Inr (out @ ''}'')"
| "appendJSONObject first ((name, v) # ms) out depth =
     (case appendJSONString (if first then out else out @ '','') name of
        Inl e \<Rightarrow> Inl e
      | Inr out \<Rightarrow>
          (case appendJSON v (out @ '':'') (depth + 1) of
             Inl e \<Rightarrow> Inl e
           | Inr out \<Rightarrow> appendJSONObject False ms out depth))"

definition CanonicalJSONSize :: "json_value \<Rightarrow> value_error + nat" where
  "CanonicalJSONSize v = canonicalJSONSize v 0"

definition MarshalJSON :: "json_value \<Rightarrow> value_error + string" where
  "MarshalJSON v =
     (case CanonicalJSONSize v of Inl e \<Rightarrow> Inl e | Inr sizeHint \<Rightarrow> appendJSON v [] 0)"

section \<open>Well-formed values\<close>

text \<open>What \<open>mkNumber\<close>, \<open>mkString\<close>, \<open>mkArray\<close> and \<open>mkObject\<close> build.\<close>

definition key_ok :: "string \<Rightarrow> bool" where
  "key_ok name \<longleftrightarrow> validString name \<and> length name \<le> MaxJSONStringBytes"

fun wf_value :: "json_value \<Rightarrow> bool" where
  "wf_value ValueUnset = False"
| "wf_value Null = True"
| "wf_value (Boolean b) = True"
| "wf_value (Number d) = canonical d"
| "wf_value (JString s) = key_ok s"
| "wf_value (Array vs) = (length vs \<le> MaxJSONItems \<and> (\<forall>v \<in> set vs. wf_value v))"
| "wf_value (Object ms) =
     (length ms \<le> MaxJSONItems \<and> keys_sorted fst ms
      \<and> (\<forall>m \<in> set ms. key_ok (fst m) \<and> wf_value (snd m)))"

lemma mkString_wf: "mkString s = Inr v \<Longrightarrow> wf_value v \<and> value_text v = Some s"
  by (auto simp: mkString_def key_ok_def split: if_splits)

lemma mkNumber_wf: "canonical d \<Longrightarrow> wf_value (mkNumber d)"
  by (simp add: mkNumber_def normalizeZero_def canonical_def)

lemma mkArray_wf: "mkArray vs = Inr v \<Longrightarrow> \<forall>x \<in> set vs. wf_value x \<Longrightarrow> wf_value v"
  by (auto simp: mkArray_def split: if_splits)

lemma checkMembers_None:
  "checkMembers previous ms = None \<Longrightarrow> sorted (map fst ms) \<Longrightarrow>
     (\<forall>p m. previous = Some p \<longrightarrow> m \<in> set ms \<longrightarrow> p \<le> fst m) \<Longrightarrow>
     keys_sorted fst ms \<and> (\<forall>m \<in> set ms. key_ok (fst m))
     \<and> (\<forall>p m. previous = Some p \<longrightarrow> m \<in> set ms \<longrightarrow> p < fst m)"
proof (induction previous ms rule: checkMembers.induct)
  case (2 previous name v rest)
  have ok: "key_ok name" "previous \<noteq> Some name" "checkMembers (Some name) rest = None"
    using "2.prems"(1) by (auto simp: key_ok_def split: if_splits)
  have "sorted (map fst rest)" "\<forall>m \<in> set rest. name \<le> fst m" using "2.prems"(2) by auto
  moreover have "\<not> (\<not> validString name \<or> MaxJSONStringBytes < length name)"
    using ok(1) by (auto simp: key_ok_def)
  ultimately have "keys_sorted fst rest \<and> (\<forall>m \<in> set rest. key_ok (fst m))
      \<and> (\<forall>p m. Some name = Some p \<longrightarrow> m \<in> set rest \<longrightarrow> p < fst m)"
    using "2.IH" ok(2,3) by blast
  then have IH: "keys_sorted fst rest" "\<forall>m \<in> set rest. key_ok (fst m)"
      "\<forall>m \<in> set rest. name < fst m" by auto
  have "p < name" if "previous = Some p" for p
    using that "2.prems"(3) ok(2) by (metis (no_types) fst_conv list.set_intros(1) order_le_less)
  then show ?case using IH ok by (auto intro: less_trans)
qed simp

lemma mkObject_sorted:
  assumes "mkObject ms = Inr v"
  obtains out where "v = Object out" and "keys_sorted fst out" and "mset out = mset ms"
    and "\<forall>m \<in> set out. key_ok (fst m)" and "length out \<le> MaxJSONItems"
proof -
  define out where "out = sort_key fst ms"
  have chk: "checkMembers None out = None" and v: "v = Object out" and len: "length ms \<le> MaxJSONItems"
    using assms by (auto simp: mkObject_def out_def Let_def split: if_splits option.splits)
  have "sorted (map fst out)" by (simp add: out_def)
  then have "keys_sorted fst out \<and> (\<forall>m \<in> set out. key_ok (fst m))"
    using checkMembers_None [OF chk] by simp
  moreover have "mset out = mset ms" "length out = length ms" by (simp_all add: out_def)
  ultimately show thesis using that [of out] v len by simp
qed

lemma mkObject_wf:
  assumes "mkObject ms = Inr v" and "\<forall>m \<in> set ms. wf_value (snd m)"
  shows "wf_value v"
proof -
  obtain out where "v = Object out" "keys_sorted fst out" "mset out = mset ms"
    "\<forall>m \<in> set out. key_ok (fst m)" "length out \<le> MaxJSONItems"
    using mkObject_sorted [OF assms(1)] .
  then show ?thesis using assms(2) by (metis set_mset_mset wf_value.simps(7))
qed

section \<open>Lookup and equality\<close>

lemma map_of_nth_sorted:
  "keys_sorted fst ms \<Longrightarrow> i < length ms \<Longrightarrow> map_of ms (fst (ms ! i)) = Some (snd (ms ! i))"
  using keys_sorted_distinct [of fst ms] by (simp add: map_of_eq_Some_iff)

lemma value_lookup_find:
  "value_lookup (Object ms) name = map_option (\<lambda>i. snd (ms ! i)) (find_key fst ms name)"
proof -
  define k where "k = sort_search (length ms) (\<lambda>i. name \<le> fst (ms ! i))"
  have "k \<le> length ms" unfolding k_def by (rule sort_search_le)
  then show ?thesis
    by (auto simp: value_lookup_def find_key_def search_index_def Let_def k_def [symmetric])
qed

lemma value_lookup_map_of: "keys_sorted fst ms \<Longrightarrow> value_lookup (Object ms) name = map_of ms name"
proof (cases "find_key fst ms name")
  case None
  assume s: "keys_sorted fst ms"
  then have "name \<notin> fst ` set ms" using by_key.find_None_iff None by blast
  then show ?thesis using None by (simp add: value_lookup_find map_of_eq_None_iff [symmetric])
next
  case (Some i)
  assume s: "keys_sorted fst ms"
  have "i < length ms" "fst (ms ! i) = name" using by_key.found [OF Some] by auto
  then show ?thesis using map_of_nth_sorted [OF s] Some by (auto simp: value_lookup_find)
qed

lemma value_lookup_not_object: "(\<And>ms. v \<noteq> Object ms) \<Longrightarrow> value_lookup v name = None"
  by (cases v) (auto simp: value_lookup_def)

lemma mkObject_lookup:
  assumes "mkObject ms = Inr v"
  shows "value_lookup v name = map_of ms name"
proof -
  obtain out where out: "v = Object out" "keys_sorted fst out" "mset out = mset ms"
    using mkObject_sorted [OF assms] by metis
  have "distinct (map fst out)" by (rule keys_sorted_distinct [OF out(2)])
  moreover have "mset (map fst out) = mset (map fst ms)" using out(3) by (metis mset_map)
  ultimately have "distinct (map fst ms)" by (metis mset_eq_imp_distinct_iff)
  moreover have "set out = set ms" using out(3) by (metis set_mset_mset)
  ultimately have "map_of out = map_of ms"
    using \<open>distinct (map fst out)\<close> by (metis map_of_inject_set)
  then show ?thesis using out by (simp add: value_lookup_map_of)
qed

lemma value_equal_eq:
  "wf_value v \<Longrightarrow> wf_value w \<Longrightarrow> value_equal v w = (v = w)"
  "\<forall>x \<in> set vs. wf_value x \<Longrightarrow> \<forall>x \<in> set ws. wf_value x \<Longrightarrow> values_equal vs ws = (vs = ws)"
  "\<forall>m \<in> set ms. wf_value (snd m) \<Longrightarrow> \<forall>m \<in> set ns. wf_value (snd m) \<Longrightarrow>
     members_equal ms ns = (ms = ns)"
proof (induction v w and vs ws and ms ns rule: value_equal_values_equal_members_equal.induct)
  case (4 a w)
  then show ?case by (cases w) (auto simp: decimal_equal_eq)
next
  case (6 as w)
  then show ?case by (cases w) auto
next
  case (7 as w)
  then show ?case by (cases w) auto
next
  case (9 a as bs)
  then show ?case by (cases bs) auto
next
  case (11 m a as bs)
  then show ?case by (cases bs) (auto split: prod.splits)
qed (auto elim: kind_of.elims value_bool.elims value_text.elims)

section \<open>The size is the length of the encoding\<close>

lemma decodeRune_runeLen:
  assumes "s \<noteq> []" and "decodeRune s \<noteq> (runeError, 1)"
  shows "runeLen (fst (decodeRune s)) = snd (decodeRune s)"
proof -
  define b0 b1 b2 b3 where b: "b0 = byte_at s 0" "b1 = byte_at s 1" "b2 = byte_at s 2" "b3 = byte_at s 3"
  note shape = decodeRune_def [of s, folded b, unfolded Let_def]
  consider (one) "b0 < 128" | (two) "194 \<le> b0" "b0 \<le> 223" "continuation b1"
    | (three) "224 \<le> b0" "b0 \<le> 239" "second_ok b0 b1" "continuation b2"
    | (four) "240 \<le> b0" "b0 \<le> 244" "second_ok b0 b1" "continuation b2" "continuation b3"
    using assms unfolding shape by (auto split: if_splits)
  then show ?thesis
  proof cases
    case one
    then show ?thesis using assms(1) by (simp add: shape runeLen_def)
  next
    case two
    have "128 \<le> (b0 - 192) * 64 + (b1 - 128)" "(b0 - 192) * 64 + (b1 - 128) < 2048"
      using two unfolding continuation_def by arith+
    then show ?thesis using two assms(1) by (simp add: shape runeLen_def)
  next
    case three
    have "2048 \<le> (b0 - 224) * 4096 + (b1 - 128) * 64 + (b2 - 128)"
    proof (cases "b0 = 224")
      case True
      then have "32 \<le> b1 - 128" using three unfolding second_ok_def by (auto split: if_splits)
      then have "32 * 64 \<le> (b1 - 128) * 64" by (rule mult_le_mono1)
      then show ?thesis by linarith
    next
      case False
      then have "1 \<le> b0 - 224" using three by simp
      then have "1 * 4096 \<le> (b0 - 224) * 4096" by (rule mult_le_mono1)
      then show ?thesis by linarith
    qed
    moreover have "(b0 - 224) * 4096 + (b1 - 128) * 64 + (b2 - 128) < 65536"
    proof -
      have "b1 \<le> 191" "b2 \<le> 191"
        using three unfolding continuation_def second_ok_def by (auto split: if_splits)
      moreover have "b0 \<le> 239" by (rule three)
      ultimately show ?thesis by arith
    qed
    ultimately show ?thesis using three assms(1) by (simp add: shape runeLen_def)
  next
    case four
    have "65536 \<le> (b0 - 240) * 262144 + (b1 - 128) * 4096 + (b2 - 128) * 64 + (b3 - 128)"
    proof (cases "b0 = 240")
      case True
      then have "16 \<le> b1 - 128" using four unfolding second_ok_def by (auto split: if_splits)
      then have "16 * 4096 \<le> (b1 - 128) * 4096" by (rule mult_le_mono1)
      then show ?thesis by linarith
    next
      case False
      then have "1 \<le> b0 - 240" using four by simp
      then have "1 * 262144 \<le> (b0 - 240) * 262144" by (rule mult_le_mono1)
      then show ?thesis by linarith
    qed
    then show ?thesis using four assms(1) by (simp add: shape runeLen_def)
  qed
qed

lemma length_quoteRune:
  "length bytes = runeLen r \<Longrightarrow> length (quoteRune html r bytes) = quotedIncrement html r"
  by (auto simp: quoteRune_def quotedIncrement_def unicodeEscape_def htmlRune_def)

lemma length_quoteBody:
  "validString s \<Longrightarrow> length (quoteBody html s) = sum_list (map (quotedIncrement html) (runes s))"
proof (induction html s rule: quoteBody.induct)
  case (1 html s)
  show ?case
  proof (cases "s = []")
    case True
    then show ?thesis by (simp add: quoteBody.simps)
  next
    case False
    define r w where "r = fst (decodeRune s)" and "w = snd (decodeRune s)"
    have dr: "decodeRune s = (r, w)" by (simp add: r_def w_def)
    have ok: "decodeRune s \<noteq> (runeError, 1)" and rest: "validString (drop w s)"
      using "1.prems" False dr by (auto simp: validString.simps [of s] split: if_splits)
    have "length (take w s) = runeLen r"
      using decodeRune_runeLen [OF False ok] decodeRune_width(2) [OF False] by (simp add: r_def w_def)
    then have "length (quoteRune html r (take w s)) = quotedIncrement html r" by (rule length_quoteRune)
    moreover have "length (quoteBody html (drop w s)) = sum_list (map (quotedIncrement html) (runes (drop w s)))"
      using "1.IH" [OF False] rest by (simp add: w_def)
    ultimately show ?thesis
      using False by (simp add: quoteBody.simps [of html s] runes.simps [of s] dr)
  qed
qed

lemma addJSONSize_Inr: "addJSONSize acc n = Inr m \<Longrightarrow> m = acc + n"
  by (auto simp: addJSONSize_def split: if_splits)

lemma addSizes_Inr: "addSizes acc ns = Inr m \<Longrightarrow> m = acc + sum_list ns"
  by (induction acc ns rule: addSizes.induct)
    (auto simp: addJSONSize_def split: sum.splits if_splits)

lemma appendJSONString_length:
  assumes "quotedJSONStringSize s = Inr n" and "validString s"
  obtains out' where "appendJSONString out s = Inr out'" and "length out' = length out + n"
proof -
  have "n = 2 + sum_list (map (quotedIncrement (htmlSafe s)) (runes s))"
    using assms(1) unfolding quotedJSONStringSize_def by (rule addSizes_Inr)
  then show thesis
    using that assms(2) length_quoteBody [OF assms(2), of "htmlSafe s"]
    by (simp add: appendJSONString_def)
qed

lemma canonicalJSONSize_appendJSON:
  "canonicalJSONSize v depth = Inr n \<Longrightarrow> wf_value v \<Longrightarrow>
     \<exists>out'. appendJSON v out depth = Inr out' \<and> length out' = length out + n"
  "jsonArraySizes first acc vs depth = Inr n \<Longrightarrow> \<forall>v \<in> set vs. wf_value v \<Longrightarrow>
     \<exists>out'. appendJSONArray first vs out depth = Inr out' \<and> length out' + acc = length out + n + 1"
  "jsonObjectSizes first acc ms depth = Inr n \<Longrightarrow> \<forall>m \<in> set ms. key_ok (fst m) \<and> wf_value (snd m) \<Longrightarrow>
     \<exists>out'. appendJSONObject first ms out depth = Inr out' \<and> length out' + acc = length out + n + 1"
proof (induction v depth and first acc vs depth and first acc ms depth arbitrary: n out and n out and n out
    rule: canonicalJSONSize_jsonArraySizes_jsonObjectSizes.induct)
  case (1 v depth)
  have d: "\<not> MaxJSONDepth < depth" using "1.prems"(1) by (auto split: if_splits)
  show ?case
  proof (cases v)
    case (Number x)
    have "appendString x out = out @ decimal_string x"
      by (simp add: appendString_def decimal_string_def)
    then show ?thesis using Number "1.prems" d decimal_size_exact [of x] by auto
  next
    case (JString s)
    then have "quotedJSONStringSize s = Inr n" "validString s"
      using "1.prems" d by (auto simp: key_ok_def)
    then show ?thesis using JString d appendJSONString_length [of s n out] by auto
  next
    case (Array vs)
    then have "jsonArraySizes True 2 vs depth = Inr n" "\<forall>v \<in> set vs. wf_value v"
      using "1.prems" d by auto
    then have "\<exists>out'. appendJSONArray True vs (out @ ''['') depth = Inr out'
        \<and> length out' + 2 = length (out @ ''['') + n + 1"
      by (rule "1.IH"(1) [OF d Array])
    then show ?thesis using Array d by auto
  next
    case (Object ms)
    then have "jsonObjectSizes True 2 ms depth = Inr n" "\<forall>m \<in> set ms. key_ok (fst m) \<and> wf_value (snd m)"
      using "1.prems" d by auto
    then have "\<exists>out'. appendJSONObject True ms (out @ ''{'') depth = Inr out'
        \<and> length out' + 2 = length (out @ ''{'') + n + 1"
      by (rule "1.IH"(2) [OF d Object])
    then show ?thesis using Object d by auto
  qed (use "1.prems" d in auto)
next
  case (2 first acc depth)
  then show ?case by simp
next
  case (3 first acc v vs depth)
  obtain a k b where a: "(if first then Inr acc else addJSONSize acc 1) = Inr a"
    and k: "canonicalJSONSize v (depth + 1) = Inr k"
    and b: "addJSONSize a k = Inr b"
    and r: "jsonArraySizes False b vs depth = Inr n"
    using "3.prems"(1) unfolding jsonArraySizes.simps by (elim try_InrE)
  have wf: "wf_value v" "\<forall>v \<in> set vs. wf_value v" using "3.prems"(2) by auto
  obtain o1 where o1: "appendJSON v (if first then out else out @ '','') (depth + 1) = Inr o1"
    "length o1 = length (if first then out else out @ '','') + k"
    using "3.IH"(1) [OF a k wf(1)] by blast
  obtain o2 where o2: "appendJSONArray False vs o1 depth = Inr o2"
    "length o2 + b = length o1 + n + 1"
    using "3.IH"(2) [OF a k b r wf(2)] by blast
  have ab: "a = acc + (if first then 0 else 1)" "b = a + k"
    using a b addJSONSize_Inr [of acc 1 a] addJSONSize_Inr [of a k b] by (cases first; simp)+
  have "length o2 + acc = length out + n + 1" using ab o1(2) o2(2) by (cases first) auto
  then show ?case using o1(1) o2(1) by simp
next
  case (4 first acc depth)
  then show ?case by simp
next
  case (5 first acc name v ms depth)
  obtain a q q' b k c where a: "(if first then Inr acc else addJSONSize acc 1) = Inr a"
    and q: "quotedJSONStringSize name = Inr q"
    and q': "addJSONSize q 1 = Inr q'"
    and b: "addJSONSize a q' = Inr b"
    and k: "canonicalJSONSize v (depth + 1) = Inr k"
    and c: "addJSONSize b k = Inr c"
    and r: "jsonObjectSizes False c ms depth = Inr n"
    using "5.prems"(1) unfolding jsonObjectSizes.simps by (elim try_InrE)
  have wf: "wf_value v" "validString name" "\<forall>m \<in> set ms. key_ok (fst m) \<and> wf_value (snd m)"
    using "5.prems"(2) by (auto simp: key_ok_def)
  obtain o0 where o0: "appendJSONString (if first then out else out @ '','') name = Inr o0"
    "length o0 = length (if first then out else out @ '','') + q"
    using appendJSONString_length [OF q wf(2)] .
  obtain o1 where o1: "appendJSON v (o0 @ '':'') (depth + 1) = Inr o1"
    "length o1 = length (o0 @ '':'') + k"
    using "5.IH"(1) [OF a q q' b k wf(1)] by blast
  obtain o2 where o2: "appendJSONObject False ms o1 depth = Inr o2"
    "length o2 + c = length o1 + n + 1"
    using "5.IH"(2) [OF a q q' b k c r wf(3)] by blast
  have "a = acc + (if first then 0 else 1)" "q' = q + 1" "b = a + q'" "c = b + k"
    using a q' b c addJSONSize_Inr [of acc 1 a] addJSONSize_Inr [of q 1 q']
      addJSONSize_Inr [of a q' b] addJSONSize_Inr [of b k c]
    by (cases first; simp)+
  then have "length o2 + acc = length out + n + 1" using o0(2) o1(2) o2(2) by (cases first) auto
  then show ?case using o0(1) o1(1) o2(1) by simp
qed

section \<open>Properties\<close>

lemma checkMembers_complete:
  "\<forall>m \<in> set ms. key_ok (fst m) \<Longrightarrow> distinct (map fst ms) \<Longrightarrow> previous \<notin> Some ` fst ` set ms \<Longrightarrow>
     checkMembers previous ms = None"
proof (induction previous ms rule: checkMembers.induct)
  case (2 previous name v rest)
  then have "Some name \<notin> Some ` fst ` set rest" "previous \<noteq> Some name" "key_ok name" by auto
  moreover have "checkMembers (Some name) rest = None"
    using "2.IH" "2.prems" calculation by (auto simp: key_ok_def)
  ultimately show ?case by (auto simp: key_ok_def)
qed simp

lemma mkObject_complete:
  assumes "length ms \<le> MaxJSONItems" and "distinct (map fst ms)" and "\<forall>m \<in> set ms. key_ok (fst m)"
  shows "\<exists>v. mkObject ms = Inr v"
proof -
  have m: "mset (map fst (sort_key fst ms)) = mset (map fst ms)" by simp
  have "distinct (map fst (sort_key fst ms))" using mset_eq_imp_distinct_iff [OF m] assms(2) by simp
  then have "checkMembers None (sort_key fst ms) = None"
    using assms(3) by (intro checkMembers_complete) auto
  then show ?thesis using assms(1) by (simp add: mkObject_def)
qed

lemma mkObject_distinct:
  assumes "mkObject ms = Inr v"
  shows "length ms \<le> MaxJSONItems \<and> distinct (map fst ms) \<and> (\<forall>m \<in> set ms. key_ok (fst m))"
proof -
  obtain out where out: "keys_sorted fst out" "mset out = mset ms" "\<forall>m \<in> set out. key_ok (fst m)"
      "length out \<le> MaxJSONItems"
    using mkObject_sorted [OF assms] by metis
  have "mset (map fst out) = mset (map fst ms)" using out(2) by (metis mset_map)
  then show ?thesis using out keys_sorted_distinct [OF out(1)]
    by (metis mset_eq_imp_distinct_iff set_mset_mset size_mset)
qed

text \<open>
  The object constructor accepts exactly the member lists within the item bound whose keys
  are valid and pairwise different, whatever their order, and the binary-search lookup in what
  it builds finds the member of that name and nothing else.
\<close>

theorem mkObject_contract:
  "(case mkObject ms of
      Inr v \<Rightarrow> length ms \<le> MaxJSONItems \<and> distinct (map fst ms) \<and> (\<forall>m \<in> set ms. key_ok (fst m))
               \<and> (\<forall>name. value_lookup v name = map_of ms name)
    | Inl e \<Rightarrow> \<not> (length ms \<le> MaxJSONItems \<and> distinct (map fst ms) \<and> (\<forall>m \<in> set ms. key_ok (fst m))))"
proof (cases "mkObject ms")
  case (Inl e)
  then show ?thesis using mkObject_complete [of ms] by force
next
  case (Inr v)
  then show ?thesis using mkObject_distinct [OF Inr] mkObject_lookup [OF Inr] by simp
qed

theorem mkObject_contract_witness:
  "(case mkObject [(''to'', Null), (''cc'', Boolean True)] of
      Inr v \<Rightarrow> length [(''to'', Null), (''cc'', Boolean True)] \<le> MaxJSONItems
               \<and> distinct (map fst [(''to'', Null), (''cc'', Boolean True)])
               \<and> (\<forall>m \<in> set [(''to'', Null), (''cc'', Boolean True)]. key_ok (fst m))
               \<and> (\<forall>name. value_lookup v name = map_of [(''to'', Null), (''cc'', Boolean True)] name)
    | Inl e \<Rightarrow> \<not> (length [(''to'', Null), (''cc'', Boolean True)] \<le> MaxJSONItems
               \<and> distinct (map fst [(''to'', Null), (''cc'', Boolean True)])
               \<and> (\<forall>m \<in> set [(''to'', Null), (''cc'', Boolean True)]. key_ok (fst m))))"
  by (rule mkObject_contract)

text \<open>
  C35: on values the constructors build, the size pass and the encoding pass agree: when
  \<open>CanonicalJSONSize\<close> succeeds, \<open>MarshalJSON\<close> succeeds and its output has exactly that length.
  So the capacity reserved is exact and no other bound fails while encoding.
\<close>

theorem canonical_size_exact:
  assumes "wf_value v" and "CanonicalJSONSize v = Inr n"
  shows "\<exists>out. MarshalJSON v = Inr out \<and> length out = n"
  using canonicalJSONSize_appendJSON(1) [of v 0 n "[]"] assms
  by (auto simp: CanonicalJSONSize_def MarshalJSON_def)

theorem canonical_size_exact_witness:
  "\<exists>out. MarshalJSON (Object [(''a'', Array [Boolean True, JString ''<b>'']), (''n'', Number oneDecimal)]) = Inr out
     \<and> length out = 34"
proof (rule canonical_size_exact)
  show "wf_value (Object [(''a'', Array [Boolean True, JString ''<b>'']), (''n'', Number oneDecimal)])"
    by (simp add: MaxJSONItems_def canonical_def oneDecimal_def all_digits_def is_digit_def
      MaxNumberDigits_def MaxNumberExponent_def key_ok_def MaxJSONStringBytes_def validString_Cons)
  show "CanonicalJSONSize (Object [(''a'', Array [Boolean True, JString ''<b>'']), (''n'', Number oneDecimal)]) = Inr 34"
    by (simp add: CanonicalJSONSize_def MaxJSONDepth_def quotedJSONStringSize_def runes_Cons addJSONSize_def maxAddressable_def quotedIncrement_def runeLen_def htmlSafe_def htmlRune_def decimal_canonicalJSONSize_def oneDecimal_def decimal_zero_def)
qed
text \<open>On the values the constructors build, \<open>Equal\<close> is structural equality.\<close>

theorem value_equal_structural:
  assumes "wf_value v" and "wf_value w"
  shows "value_equal v w \<longleftrightarrow> v = w"
  using assms by (rule value_equal_eq)

theorem value_equal_structural_witness:
  "value_equal (Array [Number oneDecimal, Null]) (Array [Number oneDecimal, Boolean False])
   \<longleftrightarrow> Array [Number oneDecimal, Null] = Array [Number oneDecimal, Boolean False]"
  by (rule value_equal_structural)
    (simp_all add: MaxJSONItems_def canonical_def oneDecimal_def all_digits_def is_digit_def
      MaxNumberDigits_def MaxNumberExponent_def)

end
