(* ===== verification/Go_Json.thy ===== *)
theory Go_Json
  imports Action_Value
begin

text \<open>
  Package encoding/json as the action plane uses it: the encoding of structs, slices, strings,
  integers and of the canonical values of the plane, with the escapes of \<open>json.Marshal\<close>. The
  lemmas show that the encoding is injective, alone and followed by a delimiter, so that a
  digest of an encoding binds every encoded field.
\<close>

section \<open>The code\<close>

text \<open>A number keeps the text that was printed for it.\<close>

datatype json =
  JNull
  | JBool bool
  | JNumber string
  | JText string
  | JList "json list"
  | JRecord "(string \<times> json) list"

text \<open>A byte that is not UTF-8 is written as the escape of U+FFFD.\<close>

function jsonBody :: "string \<Rightarrow> string" where
  "jsonBody s =
     (if s = [] then []
      else (case decodeRune s of
              (r, n) \<Rightarrow> if (r, n) = (runeError, 1) then unicodeEscape runeError else quoteRune True r (take n s))
           @ jsonBody (drop (snd (decodeRune s)) s))"
  by pat_completeness auto
termination
  by (relation "measure length") (use decodeRune_shorter in \<open>auto simp del: length_drop\<close>)

declare jsonBody.simps [simp del]

definition jsonQuote :: "string \<Rightarrow> string" where
  "jsonQuote s = CHR 0x22 # jsonBody s @ [CHR 0x22]"

fun encode :: "json \<Rightarrow> string"
  and encodeItems :: "bool \<Rightarrow> json list \<Rightarrow> string"
  and encodeMembers :: "bool \<Rightarrow> (string \<times> json) list \<Rightarrow> string"
where
  "encode JNull = ''null''"
| "encode (JBool b) = (if b then ''true'' else ''false'')"
| "encode (JNumber t) = t"
| "encode (JText s) = jsonQuote s"
| "encode (JList xs) = CHR ''['' # encodeItems True xs"
| "encode (JRecord ms) = CHR ''{'' # encodeMembers True ms"
| "encodeItems first [] = '']''"
| "encodeItems first (x # xs) = (if first then [] else '','') @ encode x @ encodeItems False xs"
| "encodeMembers first [] = ''}''"
| "encodeMembers first (m # ms) =
     (if first then [] else '','') @ jsonQuote (fst m) @ '':'' @ encode (snd m) @ encodeMembers False ms"

text \<open>The tree of a canonical value, whose own \<open>MarshalJSON\<close> writes the bytes.\<close>

fun value_json :: "json_value \<Rightarrow> json" where
  "value_json ValueUnset = JNull"
| "value_json Null = JNull"
| "value_json (Boolean b) = JBool b"
| "value_json (Number d) = JNumber (decimal_string d)"
| "value_json (JString s) = JText s"
| "value_json (Array vs) = JList (map value_json vs)"
| "value_json (Object ms) = JRecord (map (\<lambda>m. (fst m, value_json (snd m))) ms)"

section \<open>Runes and their bytes\<close>

definition encodeRune :: "rune \<Rightarrow> string" where
  "encodeRune r =
     map char_of
       (if r < 128 then [r]
        else if r < 2048 then [192 + r div 64, 128 + r mod 64]
        else if r < 65536 then [224 + r div 4096, 128 + r div 64 mod 64, 128 + r mod 64]
        else [240 + r div 262144, 128 + r div 4096 mod 64, 128 + r div 64 mod 64, 128 + r mod 64])"

lemma take_bytes: "n \<le> length s \<Longrightarrow> take n s = map (\<lambda>i. char_of (byte_at s i)) [0..<n]"
  by (rule nth_equalityI) (simp_all add: byte_at_def)

lemma upt_small: "[0..<2] = [0, Suc 0]" "[0..<3] = [0, Suc 0, 2]" "[0..<4] = [0, Suc 0, 2, 3]"
  by (simp_all add: upt_rec)

lemma two_digits:
  fixes a b :: nat
  assumes "b < 64"
  shows "(a * 64 + b) div 64 = a" "(a * 64 + b) mod 64 = b"
  using assms by simp_all

lemma three_digits:
  fixes a b c :: nat
  assumes "b < 64" "c < 64"
  shows "(a * 4096 + b * 64 + c) div 4096 = a" "(a * 4096 + b * 64 + c) div 64 mod 64 = b"
    "(a * 4096 + b * 64 + c) mod 64 = c"
proof -
  have eq: "a * 4096 + b * 64 + c = (a * 64 + b) * 64 + c" by simp
  have "x div 4096 = x div 64 div 64" for x :: nat by (simp add: div_mult2_eq [symmetric])
  then show "(a * 4096 + b * 64 + c) div 4096 = a" "(a * 4096 + b * 64 + c) div 64 mod 64 = b"
    "(a * 4096 + b * 64 + c) mod 64 = c"
    unfolding eq by (simp_all only: two_digits [OF assms(1)] two_digits [OF assms(2)])
qed

lemma four_digits:
  fixes a b c d :: nat
  assumes "b < 64" "c < 64" "d < 64"
  shows "(a * 262144 + b * 4096 + c * 64 + d) div 262144 = a"
    "(a * 262144 + b * 4096 + c * 64 + d) div 4096 mod 64 = b"
    "(a * 262144 + b * 4096 + c * 64 + d) div 64 mod 64 = c"
    "(a * 262144 + b * 4096 + c * 64 + d) mod 64 = d"
proof -
  have eq: "a * 262144 + b * 4096 + c * 64 + d = (a * 4096 + b * 64 + c) * 64 + d" by simp
  have cut: "x div 4096 = x div 64 div 64" "x div 262144 = x div 64 div 4096" for x :: nat
    by (simp_all add: div_mult2_eq [symmetric])
  have mid: "(a * 4096 + b * 64 + c) div 64 = a * 64 + b"
    using two_digits(1) [OF assms(2), of "a * 64 + b"] by simp
  show "(a * 262144 + b * 4096 + c * 64 + d) div 262144 = a"
    "(a * 262144 + b * 4096 + c * 64 + d) div 4096 mod 64 = b"
    "(a * 262144 + b * 4096 + c * 64 + d) div 64 mod 64 = c"
    "(a * 262144 + b * 4096 + c * 64 + d) mod 64 = d"
    unfolding eq cut
    by (simp_all only: two_digits [OF assms(3)] three_digits [OF assms(1,2)] mid two_digits [OF assms(1)])
qed

lemma take_decodeRune:
  assumes "s \<noteq> []" and "decodeRune s \<noteq> (runeError, 1)"
  shows "take (snd (decodeRune s)) s = encodeRune (fst (decodeRune s))"
proof -
  define b0 b1 b2 b3 where b: "b0 = byte_at s 0" "b1 = byte_at s 1" "b2 = byte_at s 2" "b3 = byte_at s 3"
  note shape = decodeRune_def [of s, folded b, unfolded Let_def]
  note len = decodeRune_runeLen [OF assms]
  note bytes = take_bytes [OF decodeRune_width(2) [OF assms(1)]]
  have b': "byte_at s 0 = b0" "byte_at s (Suc 0) = b1" "byte_at s 2 = b2" "byte_at s 3 = b3" by (simp_all add: b)
  consider (one) "b0 < 128" | (two) "194 \<le> b0" "b0 \<le> 223" "continuation b1"
    | (three) "224 \<le> b0" "b0 \<le> 239" "second_ok b0 b1" "continuation b2"
    | (four) "240 \<le> b0" "b0 \<le> 244" "second_ok b0 b1" "continuation b2" "continuation b3"
    using assms unfolding shape by (auto split: if_splits)
  then show ?thesis
  proof cases
    case one
    then have "decodeRune s = (b0, 1)" using assms(1) by (simp add: shape)
    then show ?thesis using one bytes b' by (simp add: encodeRune_def)
  next
    case two
    define x y where "x = b0 - 192" and "y = b1 - 128"
    have yz: "y < 64" and bs: "b0 = 192 + x" "b1 = 128 + y" using two by (auto simp: x_def y_def continuation_def)
    have eq: "decodeRune s = (x * 64 + y, 2)" using assms(1) two by (simp add: shape x_def y_def)
    then have "runeLen (x * 64 + y) = 2" using len by simp
    then have "\<not> x * 64 + y < 128" "x * 64 + y < 2048" by (auto simp: runeLen_def split: if_splits)
    then show ?thesis using bytes b' eq yz two_digits
      by (simp add: encodeRune_def bs upt_small)
  next
    case three
    define x y z where "x = b0 - 224" and "y = b1 - 128" and "z = b2 - 128"
    have yz: "y < 64" "z < 64" and bs: "b0 = 224 + x" "b1 = 128 + y" "b2 = 128 + z"
      using three by (auto simp: x_def y_def z_def continuation_def second_ok_def split: if_splits)
    have eq: "decodeRune s = (x * 4096 + y * 64 + z, 3)" using assms(1) three by (simp add: shape x_def y_def z_def)
    then have "runeLen (x * 4096 + y * 64 + z) = 3" using len by simp
    then have "\<not> x * 4096 + y * 64 + z < 128" "\<not> x * 4096 + y * 64 + z < 2048" "x * 4096 + y * 64 + z < 65536"
      by (auto simp: runeLen_def split: if_splits)
    then show ?thesis using bytes b' eq yz three_digits
      by (simp add: encodeRune_def bs upt_small)
  next
    case four
    define x y z u where "x = b0 - 240" and "y = b1 - 128" and "z = b2 - 128" and "u = b3 - 128"
    have yz: "y < 64" "z < 64" "u < 64" and bs: "b0 = 240 + x" "b1 = 128 + y" "b2 = 128 + z" "b3 = 128 + u"
      using four by (auto simp: x_def y_def z_def u_def continuation_def second_ok_def split: if_splits)
    have eq: "decodeRune s = (x * 262144 + y * 4096 + z * 64 + u, 4)" using assms(1) four by (simp add: shape x_def y_def z_def u_def)
    then have "runeLen (x * 262144 + y * 4096 + z * 64 + u) = 4" using len by simp
    then have "\<not> x * 262144 + y * 4096 + z * 64 + u < 128" "\<not> x * 262144 + y * 4096 + z * 64 + u < 2048"
      "\<not> x * 262144 + y * 4096 + z * 64 + u < 65536"
      by (auto simp: runeLen_def split: if_splits)
    then show ?thesis using bytes b' eq yz four_digits
      by (simp add: encodeRune_def bs upt_small)
  qed
qed

lemma decodeRune_prefix:
  assumes "s \<noteq> []" and "decodeRune s \<noteq> (runeError, 1)"
  shows "decodeRune (take (snd (decodeRune s)) s @ y) = decodeRune s"
proof -
  define b0 b1 b2 b3 where b: "b0 = byte_at s 0" "b1 = byte_at s 1" "b2 = byte_at s 2" "b3 = byte_at s 3"
  note shape = decodeRune_def [of s, folded b, unfolded Let_def]
  define t where "t = take (snd (decodeRune s)) s @ y"
  have at: "byte_at t i = byte_at s i" if "i < snd (decodeRune s)" for i
    using that decodeRune_width(2) [OF assms(1)] by (simp add: byte_at_def t_def nth_append)
  have ne: "t \<noteq> []" using decodeRune_width(1) [OF assms(1)] assms(1) by (auto simp: t_def)
  consider (one) "b0 < 128" | (two) "194 \<le> b0" "b0 \<le> 223" "continuation b1"
    | (three) "224 \<le> b0" "b0 \<le> 239" "second_ok b0 b1" "continuation b2"
    | (four) "240 \<le> b0" "b0 \<le> 244" "second_ok b0 b1" "continuation b2" "continuation b3"
    using assms unfolding shape by (auto split: if_splits)
  then have "decodeRune t = decodeRune s"
  proof cases
    case one
    then have "snd (decodeRune s) = 1" using assms(1) by (simp add: shape)
    then show ?thesis using at [of 0] one assms(1) ne b by (simp add: decodeRune_def)
  next
    case two
    then have "snd (decodeRune s) = 2" using assms(1) by (simp add: shape)
    then show ?thesis using at [of 0] at [of 1] two assms(1) ne b by (simp add: decodeRune_def)
  next
    case three
    then have "snd (decodeRune s) = 3" using assms(1) by (simp add: shape)
    then show ?thesis using at [of 0] at [of 1] at [of 2] three assms(1) ne b by (simp add: decodeRune_def)
  next
    case four
    then have "snd (decodeRune s) = 4" using assms(1) by (simp add: shape)
    then show ?thesis using at [of 0] at [of 1] at [of 2] at [of 3] four assms(1) ne b by (simp add: decodeRune_def)
  qed
  then show ?thesis by (simp add: t_def)
qed

section \<open>Strings are encoded injectively\<close>

definition scalar :: "rune \<Rightarrow> bool" where
  "scalar r \<longleftrightarrow> encodeRune r \<noteq> [] \<and> decodeRune (encodeRune r) = (r, length (encodeRune r))
     \<and> (r, length (encodeRune r)) \<noteq> (runeError, 1)"

lemma scalar_decoded:
  assumes "s \<noteq> []" and "decodeRune s \<noteq> (runeError, 1)"
  shows "scalar (fst (decodeRune s))"
proof -
  obtain r n where rn: "decodeRune s = (r, n)" by (cases "decodeRune s")
  have enc: "take n s = encodeRune r" using take_decodeRune [OF assms] rn by simp
  have "1 \<le> n" "n \<le> length s" using decodeRune_width [OF assms(1)] rn by simp_all
  then have len: "length (encodeRune r) = n" using enc by (metis length_take min.absorb2)
  have "decodeRune (encodeRune r) = (r, n)"
    using decodeRune_prefix [OF assms, of "[]"] rn enc by simp
  then show ?thesis using rn len \<open>1 \<le> n\<close> assms(2) by (auto simp: scalar_def)
qed

lemma scalar_prefix: "scalar r \<Longrightarrow> decodeRune (encodeRune r @ y) = (r, length (encodeRune r))"
  using decodeRune_prefix [of "encodeRune r" y] by (simp add: scalar_def)

lemma scalar_head:
  assumes "scalar r" and "hd (encodeRune r) = c" and "(of_char c :: nat) < 128"
  shows "r = of_char c"
  using assms decodeRune_ascii [of "encodeRune r"] by (auto simp: scalar_def)

definition piece :: "rune \<Rightarrow> string" where
  "piece r = quoteRune True r (encodeRune r)"

lemma jsonBody_pieces:
  "validString s \<Longrightarrow> jsonBody s = concat (map piece (runes s)) \<and> s = concat (map encodeRune (runes s))
     \<and> (\<forall>r \<in> set (runes s). scalar r)"
proof (induction s rule: validString.induct)
  case (1 s)
  show ?case
  proof (cases "s = []")
    case True
    then show ?thesis by (simp add: jsonBody.simps)
  next
    case False
    obtain r n where rn: "decodeRune s = (r, n)" by (cases "decodeRune s")
    have ok: "decodeRune s \<noteq> (runeError, 1)" and rest: "validString (drop n s)"
      using "1.prems" False rn by (auto simp: validString.simps [of s] split: if_splits)
    have enc: "take n s = encodeRune r" using take_decodeRune [OF False ok] rn by simp
    have IH: "jsonBody (drop n s) = concat (map piece (runes (drop n s)))"
      "drop n s = concat (map encodeRune (runes (drop n s)))" "\<forall>r \<in> set (runes (drop n s)). scalar r"
      using "1.IH" [OF False ok] rest rn by auto
    have runes: "runes s = r # runes (drop n s)" using False rn by (simp add: runes.simps [of s])
    have "jsonBody s = piece r @ jsonBody (drop n s)"
      using False rn ok enc by (subst jsonBody.simps) (auto simp: piece_def)
    moreover have "s = encodeRune r @ drop n s" using enc by (metis append_take_drop_id)
    moreover have "scalar r" using scalar_decoded [OF False ok] rn by simp
    ultimately show ?thesis using IH runes by simp
  qed
qed

text \<open>The escapes, and the rune that an escape stands for.\<close>

definition escaped :: "rune \<Rightarrow> bool" where
  "escaped r \<longleftrightarrow> r < 32 \<or> r \<in> {34, 38, 60, 62, 92, 8232, 8233}"

definition hexVal :: "char \<Rightarrow> nat" where
  "hexVal c = (if (of_char c :: nat) < 58 then of_char c - 48 else of_char c - 87)"

definition unescape :: "string \<Rightarrow> rune" where
  "unescape s =
     (let c = s ! 1
      in if c = CHR 0x22 then 34 else if c = CHR 0x5C then 92 else if c = CHR ''b'' then 8
         else if c = CHR ''f'' then 12 else if c = CHR ''n'' then 10 else if c = CHR ''r'' then 13
         else if c = CHR ''t'' then 9
         else ((hexVal (s ! 2) * 16 + hexVal (s ! 3)) * 16 + hexVal (s ! 4)) * 16 + hexVal (s ! 5))"

lemma less_32: "r < 32 \<longleftrightarrow> r \<in> set [0..<32 :: nat]"
  by simp

lemma escaped_list: "escaped r \<longleftrightarrow> r \<in> set ([0..<32] @ [34, 38, 60, 62, 92, 8232, 8233])"
  by (auto simp: escaped_def)

lemma hexVal_hexDigit: "n < 16 \<Longrightarrow> hexVal (hexDigit n) = n"
  by (auto simp: hexVal_def hexDigit_def)

lemma hex_digits:
  assumes "r < 65536"
  shows "((r div 4096 mod 16 * 16 + r div 256 mod 16) * 16 + r div 16 mod 16) * 16 + r mod 16 = (r :: nat)"
proof -
  have top: "r div 4096 mod 16 = r div 4096" using assms by simp
  have step: "x div 16 * 16 + x mod 16 = x" for x :: nat by (rule div_mult_mod_eq)
  have cut: "r div 256 = r div 16 div 16" "r div 4096 = r div 16 div 16 div 16"
    by (simp_all add: div_mult2_eq [symmetric])
  show ?thesis unfolding top unfolding cut by (simp only: step)
qed

lemma unescape_escape: "r < 65536 \<Longrightarrow> unescape (unicodeEscape r @ y) = r"
  using hex_digits [of r] by (simp add: unescape_def unicodeEscape_def hexVal_hexDigit)

lemma unescape_piece: "escaped r \<Longrightarrow> unescape (piece r @ y) = r"
  using unescape_escape [of r y]
  by (auto simp: escaped_def piece_def quoteRune_def htmlRune_def) (simp_all add: unescape_def)

lemma piece_escaped: "escaped r \<Longrightarrow> piece r \<noteq> [] \<and> hd (piece r) = CHR 0x5C"
  by (auto simp: escaped_def piece_def quoteRune_def htmlRune_def unicodeEscape_def)

lemma piece_plain: "\<not> escaped r \<Longrightarrow> piece r = encodeRune r"
  by (auto simp: escaped_def piece_def quoteRune_def htmlRune_def)

lemma piece_head:
  assumes "scalar r"
  shows "piece r \<noteq> []" "hd (piece r) \<noteq> CHR 0x22" "\<not> escaped r \<Longrightarrow> hd (piece r) \<noteq> CHR 0x5C"
proof -
  have "\<not> escaped r \<Longrightarrow> hd (encodeRune r) \<noteq> CHR 0x22 \<and> hd (encodeRune r) \<noteq> CHR 0x5C"
    using scalar_head [OF assms] by (auto simp: escaped_def)
  moreover have "encodeRune r \<noteq> []" using assms by (simp add: scalar_def)
  ultimately show "piece r \<noteq> []" "hd (piece r) \<noteq> CHR 0x22" "\<not> escaped r \<Longrightarrow> hd (piece r) \<noteq> CHR 0x5C"
    using piece_escaped [of r] piece_plain [of r] by (cases "escaped r"; simp)+
qed

lemma piece_inject:
  assumes "scalar r" "scalar r'" and eq: "piece r @ x = piece r' @ x'"
  shows "r = r'"
proof (cases "escaped r \<or> escaped r'")
  case True
  have "hd (piece r) = hd (piece r')" using eq piece_head(1) assms by (metis hd_append2)
  then have "escaped r \<and> escaped r'" using True piece_escaped piece_head(3) assms by metis
  then show ?thesis using unescape_piece eq by metis
next
  case False
  then show ?thesis using scalar_prefix [OF assms(1), of x] scalar_prefix [OF assms(2), of x'] eq
    by (simp add: piece_plain)
qed

lemma pieces_inject:
  assumes "\<forall>r \<in> set rs. scalar r" "\<forall>r \<in> set rs'. scalar r"
    and "concat (map piece rs) @ CHR 0x22 # x = concat (map piece rs') @ CHR 0x22 # x'"
  shows "rs = rs' \<and> x = x'"
  using assms
proof (induction rs arbitrary: rs')
  case Nil
  show ?case
  proof (cases rs')
    case (Cons r rs)
    then show ?thesis using Nil piece_head(1,2) [of r] by (cases "piece r") auto
  qed (use Nil in simp)
next
  case (Cons r rs)
  show ?case
  proof (cases rs')
    case Nil
    then show ?thesis using Cons.prems piece_head(1,2) [of r] by (cases "piece r") auto
  next
    case rs': (Cons r' rs'')
    have "r = r'" by (rule piece_inject) (use Cons.prems rs' in auto)
    then show ?thesis using Cons.IH [of rs''] Cons.prems rs' by auto
  qed
qed

lemma jsonQuote_inject:
  assumes "validString s" "validString s'" and "jsonQuote s @ x = jsonQuote s' @ x'"
  shows "s = s' \<and> x = x'"
proof -
  have "runes s = runes s' \<and> x = x'"
    by (rule pieces_inject) (use jsonBody_pieces assms in \<open>auto simp: jsonQuote_def\<close>)
  then show ?thesis using jsonBody_pieces [OF assms(1)] jsonBody_pieces [OF assms(2)] by metis
qed

section \<open>Trees are encoded injectively\<close>

definition number_char :: "char \<Rightarrow> bool" where
  "number_char c \<longleftrightarrow> c \<in> set ''0123456789-+.eE''"

definition number_text :: "string \<Rightarrow> bool" where
  "number_text t \<longleftrightarrow> t \<noteq> [] \<and> list_all number_char t \<and> hd t \<in> set ''0123456789-''"

text \<open>What may follow an encoding: nothing, a comma or a closing bracket.\<close>

definition delimited :: "string \<Rightarrow> bool" where
  "delimited x \<longleftrightarrow> x = [] \<or> hd x \<in> set '',]}''"

fun json_ok :: "json \<Rightarrow> bool" where
  "json_ok JNull \<longleftrightarrow> True"
| "json_ok (JBool b) \<longleftrightarrow> True"
| "json_ok (JNumber t) \<longleftrightarrow> number_text t"
| "json_ok (JText s) \<longleftrightarrow> validString s"
| "json_ok (JList xs) \<longleftrightarrow> list_all json_ok xs"
| "json_ok (JRecord ms) \<longleftrightarrow> list_all (\<lambda>m. validString (fst m) \<and> json_ok (snd m)) ms"

lemma number_inject:
  assumes "number_text t" "number_text t'" "delimited x" "delimited x'" "t @ x = t' @ x'"
  shows "t = t' \<and> x = x'"
proof -
  have cut: "takeWhile number_char (t @ x) = t" if "number_text t" "delimited x" for t x
  proof -
    have "takeWhile number_char x = []" using that(2) by (cases x) (auto simp: delimited_def number_char_def)
    then show ?thesis using that(1) by (simp add: number_text_def takeWhile_append2 list_all_iff)
  qed
  have "t = t'" using cut [OF assms(1,3)] cut [OF assms(2,4)] assms(5) by simp
  then show ?thesis using assms(5) by simp
qed

text \<open>The first byte of an encoding tells the kind of the tree.\<close>

fun json_kind :: "json \<Rightarrow> nat" where
  "json_kind JNull = 0"
| "json_kind (JBool b) = 1"
| "json_kind (JNumber t) = 2"
| "json_kind (JText s) = 3"
| "json_kind (JList xs) = 4"
| "json_kind (JRecord ms) = 5"

definition head_kind :: "char \<Rightarrow> nat" where
  "head_kind c =
     (if c = CHR ''n'' then 0 else if c = CHR ''t'' \<or> c = CHR ''f'' then 1
      else if c \<in> set ''0123456789-'' then 2 else if c = CHR 0x22 then 3
      else if c = CHR ''['' then 4 else if c = CHR ''{'' then 5 else 6)"

lemma encode_head: "json_ok j \<Longrightarrow> encode j \<noteq> [] \<and> head_kind (hd (encode j @ x)) = json_kind j"
  by (cases j) (auto simp: jsonQuote_def number_text_def head_kind_def)

lemma encode_kind: "json_ok j \<Longrightarrow> json_ok k \<Longrightarrow> encode j @ x = encode k @ y \<Longrightarrow> json_kind j = json_kind k"
  using encode_head by metis

lemma encode_not_closing: "json_ok j \<Longrightarrow> encode j @ x \<noteq> CHR '']'' # y \<and> encode j @ x \<noteq> CHR ''}'' # y"
  using encode_head [of j x] by (cases j) (auto simp: head_kind_def)

lemma encode_inject:
  "json_ok j \<Longrightarrow> json_ok k \<Longrightarrow> delimited x \<Longrightarrow> delimited y \<Longrightarrow> encode j @ x = encode k @ y \<Longrightarrow> j = k \<and> x = y"
  "list_all json_ok js \<Longrightarrow> list_all json_ok ks \<Longrightarrow> encodeItems first js @ x = encodeItems first ks @ y \<Longrightarrow>
     js = ks \<and> x = y"
  "list_all (\<lambda>m. validString (fst m) \<and> json_ok (snd m)) ms \<Longrightarrow>
     list_all (\<lambda>m. validString (fst m) \<and> json_ok (snd m)) ns \<Longrightarrow>
     encodeMembers first ms @ x = encodeMembers first ns @ y \<Longrightarrow> ms = ns \<and> x = y"
proof (induction j and first js and first ms arbitrary: k x y and ks x y and ns x y
    rule: encode_encodeItems_encodeMembers.induct)
  case 1
  then show ?case using encode_kind [of JNull k x y] by (cases k) auto
next
  case (2 b)
  then show ?case using encode_kind [of "JBool b" k x y] by (cases k) (auto split: if_splits)
next
  case (3 t)
  have "json_kind k = 2" using encode_kind [OF 3(1,2,5)] by simp
  then obtain t' where k: "k = JNumber t'" by (cases k) auto
  then show ?case using number_inject [of t t' x y] 3 k by simp
next
  case (4 s)
  have "json_kind k = 3" using encode_kind [OF 4(1,2,5)] by simp
  then obtain s' where k: "k = JText s'" by (cases k) auto
  then show ?case using jsonQuote_inject [of s s' x y] 4 k by simp
next
  case (5 js)
  have "json_kind k = 4" using encode_kind [OF "5.prems"(1,2,5)] by simp
  then obtain ks where k: "k = JList ks" by (cases k) auto
  then show ?case using "5.IH" [of ks x y] "5.prems" k by simp
next
  case (6 ms)
  have "json_kind k = 5" using encode_kind [OF "6.prems"(1,2,5)] by simp
  then obtain ns where k: "k = JRecord ns" by (cases k) auto
  then show ?case using "6.IH" [of ns x y] "6.prems" k by simp
next
  case (7 first)
  show ?case
  proof (cases ks)
    case (Cons k ks')
    have "first \<Longrightarrow> encode k @ encodeItems False ks' @ y = CHR '']'' # x"
      by (rule sym) (use 7 Cons in simp)
    then show ?thesis using 7 Cons encode_not_closing [of k "encodeItems False ks' @ y" x]
      by (cases first) simp_all
  qed (use 7 in simp)
next
  case (8 first j js)
  show ?case
  proof (cases ks)
    case Nil
    then show ?thesis using "8.prems" encode_not_closing [of j] by (cases first) auto
  next
    case ks: (Cons k ks')
    have d: "delimited (encodeItems False is @ z)" for "is" z by (cases "is") (simp_all add: delimited_def)
    have step: "encode j @ (encodeItems False js @ x) = encode k @ (encodeItems False ks' @ y)"
      using "8.prems" ks by (cases first) auto
    then have "j = k \<and> encodeItems False js @ x = encodeItems False ks' @ y"
      by (intro "8.IH"(1) [OF _ _ d d step]) (use "8.prems" ks in simp_all)
    then show ?thesis using "8.IH"(2) [of ks' x y] "8.prems" ks by simp
  qed
next
  case (9 first)
  show ?case
  proof (cases ns)
    case (Cons n ns)
    then show ?thesis using 9 by (cases first) (auto simp: jsonQuote_def)
  qed (use 9 in simp)
next
  case (10 first m ms)
  show ?case
  proof (cases ns)
    case Nil
    then show ?thesis using "10.prems" by (cases first) (auto simp: jsonQuote_def)
  next
    case ns: (Cons n ns')
    have d: "delimited (encodeMembers False is @ z)" for "is" z by (cases "is") (simp_all add: delimited_def)
    have step: "jsonQuote (fst m) @ ('':'' @ encode (snd m) @ encodeMembers False ms @ x)
        = jsonQuote (fst n) @ ('':'' @ encode (snd n) @ encodeMembers False ns' @ y)"
      using "10.prems"(3) ns by (cases first) simp_all
    then have names: "fst m = fst n"
      and rest: "encode (snd m) @ (encodeMembers False ms @ x) = encode (snd n) @ (encodeMembers False ns' @ y)"
      using jsonQuote_inject [OF _ _ step] "10.prems"(1,2) ns by simp_all
    have "snd m = snd n \<and> encodeMembers False ms @ x = encodeMembers False ns' @ y"
      by (intro "10.IH"(1) [OF _ _ d d rest]) (use "10.prems" ns in simp_all)
    then show ?thesis using "10.IH"(2) [of ns' x y] "10.prems" ns names by (simp add: prod_eq_iff)
  qed
qed

lemma encode_injective: "json_ok j \<Longrightarrow> json_ok k \<Longrightarrow> encode j = encode k \<Longrightarrow> j = k"
  using encode_inject(1) [of j k "[]" "[]"] by (simp add: delimited_def)

section \<open>Canonical values\<close>

lemma quoteBody_jsonBody:
  "validString s \<Longrightarrow> html \<or> \<not> htmlSafe s \<Longrightarrow> quoteBody html s = jsonBody s"
proof (induction html s rule: quoteBody.induct)
  case (1 html s)
  show ?case
  proof (cases "s = []")
    case True
    then show ?thesis by (simp add: quoteBody.simps jsonBody.simps)
  next
    case False
    obtain r n where rn: "decodeRune s = (r, n)" by (cases "decodeRune s")
    have ok: "(r, n) \<noteq> (runeError, 1)" and rest: "validString (drop n s)"
      using "1.prems"(1) False rn by (auto simp: validString.simps [of s] split: if_splits)
    have runes: "runes s = r # runes (drop n s)" using False rn by (simp add: runes.simps [of s])
    have "quoteRune html r (take n s) = quoteRune True r (take n s)"
      using "1.prems"(2) runes by (auto simp: htmlSafe_def quoteRune_def)
    moreover have "quoteBody html (drop n s) = jsonBody (drop n s)"
      using "1.IH" [OF False] rn rest "1.prems"(2) runes by (auto simp: htmlSafe_def)
    ultimately show ?thesis using False rn ok
      by (subst quoteBody.simps, subst jsonBody.simps) auto
  qed
qed

lemma appendJSONString_quote: "appendJSONString out s = Inr r \<Longrightarrow> r = out @ jsonQuote s"
  using quoteBody_jsonBody [of s "htmlSafe s"] by (auto simp: appendJSONString_def jsonQuote_def split: if_splits)

lemma appendString_out: "appendString d out = out @ decimal_string d"
  by (simp add: decimal_string_def appendString_def)

lemma appendJSON_encode:
  "appendJSON v out depth = Inr r \<Longrightarrow> r = out @ encode (value_json v)"
  "appendJSONArray first vs out depth = Inr r \<Longrightarrow> r = out @ encodeItems first (map value_json vs)"
  "appendJSONObject first ms out depth = Inr r \<Longrightarrow>
     r = out @ encodeMembers first (map (\<lambda>m. (fst m, value_json (snd m))) ms)"
proof (induction v out depth and first vs out depth and first ms out depth arbitrary: r and r and r
    rule: appendJSON_appendJSONArray_appendJSONObject.induct)
  case (1 v out depth)
  then show ?case
    by (cases v) (auto simp: appendString_out split: if_splits dest: appendJSONString_quote)
next
  case (3 first v vs out depth)
  then obtain out' where a: "appendJSON v (if first then out else out @ '','') (depth + 1) = Inr out'"
    and b: "appendJSONArray False vs out' depth = Inr r"
    by (auto simp del: appendJSON.simps split: sum.splits)
  show ?case using "3.IH"(1) [OF a] "3.IH"(2) [OF a b] by simp
next
  case (5 first name v ms out depth)
  then obtain out1 out2 where a: "appendJSONString (if first then out else out @ '','') name = Inr out1"
    and b: "appendJSON v (out1 @ '':'') (depth + 1) = Inr out2" and c: "appendJSONObject False ms out2 depth = Inr r"
    by (auto simp del: appendJSON.simps split: sum.splits)
  show ?case using appendJSONString_quote [OF a] "5.IH"(1) [OF a b] "5.IH"(2) [OF a b c] by simp
qed auto

lemma MarshalJSON_encode: "MarshalJSON v = Inr bytes \<Longrightarrow> bytes = encode (value_json v)"
  using appendJSON_encode(1) [of v "[]" 0 bytes] by (auto simp: MarshalJSON_def split: sum.splits)

lemma digit_number:
  assumes "is_digit c"
  shows "c \<in> set ''0123456789''"
proof -
  have "48 \<le> (of_char c :: nat) \<and> (of_char c :: nat) \<le> 57" using assms by (simp add: is_digit_def less_eq_char_def)
  then have n: "(of_char c :: nat) \<in> set [48..<58]" unfolding set_upt atLeastLessThan_iff by linarith
  then have "char_of (of_char c :: nat) \<in> char_of ` set [48..<58 :: nat]" by (rule imageI)
  also have "char_of ` set [48..<58 :: nat] = set (map char_of [48..<58 :: nat])" by (rule list.set_map [symmetric])
  also have "map char_of [48..<58 :: nat] = ''0123456789''" by code_simp
  finally show ?thesis by (simp only: char_of_char)
qed

lemma digits_text: "all_digits t \<Longrightarrow> list_all number_char t"
  using digit_number by (fastforce simp: all_digits_def list_all_iff number_char_def)

lemma decimal_text:
  assumes "canonical d"
  shows "number_text (decimal_string d)"
proof (cases "decimal_zero d")
  case True
  then show ?thesis by (simp add: decimal_string_def appendString_def number_text_def number_char_def)
next
  case False
  then have c: "dec_coefficient d \<noteq> []" "all_digits (dec_coefficient d)"
    using assms by (auto simp: canonical_def zeroDecimal_def decimal_zero_def)
  have h: "hd (dec_coefficient d) \<in> set ''0123456789''"
    using c digit_number [of "hd (dec_coefficient d)"] by (simp add: all_digits_def del: set_simps)
  have sg: "number_char (CHR ''-'')" "number_char (CHR ''e'')" by (simp_all add: number_char_def)
  have e: "list_all number_char (show_int e)" for e
    using sg(1) digits_text show_nat_props by (simp add: show_int_def)
  show ?thesis
  proof (cases "dec_negative d")
    case True
    then show ?thesis using False c digits_text [OF c(2)] e sg
      by (simp add: decimal_string_def appendString_def number_text_def)
  next
    case neg: False
    then show ?thesis using False c h digits_text [OF c(2)] e sg
      by (auto simp: decimal_string_def appendString_def number_text_def)
  qed
qed

lemma value_json_ok: "wf_value v \<Longrightarrow> json_ok (value_json v)"
  by (induction v) (auto simp: decimal_text key_ok_def list_all_iff)

lemma value_json_inject: "wf_value v \<Longrightarrow> wf_value w \<Longrightarrow> value_json v = value_json w \<Longrightarrow> v = w"
proof (induction v arbitrary: w)
  case (Number d)
  then obtain d' where w: "w = Number d'" by (cases w) simp_all
  then have eq: "decimal_string d = decimal_string d'" "canonical d'" "canonical d" using Number.prems by simp_all
  have "d = d'" using decimal_roundtrip [OF eq(3)] decimal_roundtrip [OF eq(2)] eq(1) by (metis sum.inject(2))
  then show ?case by (simp add: w)
next
  case (Array vs)
  then obtain ws where w: "w = Array ws" by (cases w) simp_all
  then have eq: "map value_json vs = map value_json ws" and ok: "\<forall>w \<in> set ws. wf_value w"
    using Array.prems by simp_all
  have "vs = ws"
  proof (rule nth_equalityI)
    show len: "length vs = length ws" using eq by (rule map_eq_imp_length_eq)
    fix i assume i: "i < length vs"
    show "vs ! i = ws ! i"
    proof (rule Array.IH)
      show "vs ! i \<in> set vs" "wf_value (vs ! i)" "wf_value (ws ! i)" using i len ok Array.prems by auto
      show "value_json (vs ! i) = value_json (ws ! i)" using arg_cong [OF eq, of "\<lambda>l. l ! i"] i len by simp
    qed
  qed
  then show ?case by (simp add: w)
next
  case (Object ms)
  let ?j = "\<lambda>m. (fst m, value_json (snd m))"
  obtain ns where w: "w = Object ns" using Object.prems by (cases w) simp_all
  then have eq: "map ?j ms = map ?j ns" and ok: "\<forall>m \<in> set ns. wf_value (snd m)"
    using Object.prems by simp_all
  have "ms = ns"
  proof (rule nth_equalityI)
    show len: "length ms = length ns" using eq by (rule map_eq_imp_length_eq)
    fix i assume i: "i < length ms"
    have at: "?j (ms ! i) = ?j (ns ! i)" using arg_cong [OF eq, of "\<lambda>l. l ! i"] i len by simp
    have "snd (ms ! i) = snd (ns ! i)"
    proof (rule Object.IH)
      show "ms ! i \<in> set ms" using i by simp
      show "snd (ms ! i) \<in> Basic_BNFs.snds (ms ! i)" by (simp add: snds.intros)
      show "wf_value (snd (ms ! i))" "wf_value (snd (ns ! i))" using i len ok Object.prems by auto
      show "value_json (snd (ms ! i)) = value_json (snd (ns ! i))" using at by simp
    qed
    then show "ms ! i = ns ! i" using at by (simp add: prod_eq_iff)
  qed
  then show ?case by (simp add: w)
qed (case_tac w; simp)+

text \<open>
  C37: the canonical encoding is injective: two well-formed values with the same bytes are the
  same value, so a digest of the encoding identifies the value.
\<close>

theorem canonical_encoding_injective:
  assumes "wf_value v" "wf_value w" "MarshalJSON v = Inr bytes" "MarshalJSON w = Inr bytes"
  shows "v = w"
proof -
  have "encode (value_json v) = encode (value_json w)" using MarshalJSON_encode assms(3,4) by metis
  then have "value_json v = value_json w"
    using encode_injective value_json_ok assms(1,2) by blast
  then show ?thesis using value_json_inject assms(1,2) by blast
qed

theorem canonical_encoding_injective_witness:
  "mkArray [Null, Boolean True] = Inr (Array [Null, Boolean True])
    \<and> MarshalJSON (Array [Null, Boolean True]) = Inr ''[null,true]''
    \<and> (case mkArray [Null, Boolean True] of Inl e \<Rightarrow> Null | Inr v \<Rightarrow> v) = Array [Null, Boolean True]"
proof -
  have v: "mkArray [Null, Boolean True] = Inr (Array [Null, Boolean True])" by (simp add: mkArray_def MaxJSONItems_def)
  have m: "MarshalJSON (Array [Null, Boolean True]) = Inr ''[null,true]''"
    by (simp add: MarshalJSON_def CanonicalJSONSize_def MaxJSONDepth_def addJSONSize_def maxAddressable_def)
  have w: "wf_value (Array [Null, Boolean True])" by (simp add: MaxJSONItems_def)
  have "(case mkArray [Null, Boolean True] of Inl e \<Rightarrow> Null | Inr v \<Rightarrow> v) = Array [Null, Boolean True]"
    by (rule canonical_encoding_injective [OF _ w _ m]) (use v w m in simp_all)
  then show ?thesis using v m by simp
qed

section \<open>The length of an encoding\<close>

lemma jsonBody_length: "length (jsonBody s) \<le> 6 * length s"
proof (induction s rule: jsonBody.induct)
  case (1 s)
  show ?case
  proof (cases "s = []")
    case False
    obtain r n where rn: "decodeRune s = (r, n)" by (cases "decodeRune s")
    have n: "1 \<le> n" "n \<le> length s" using decodeRune_width [OF False] rn by simp_all
    have "length (quoteRune True r (take n s)) \<le> 6 * n"
      using n by (auto simp: quoteRune_def unicodeEscape_def)
    moreover have "length (unicodeEscape runeError) \<le> 6 * n" using n by (simp add: unicodeEscape_def)
    moreover have "length (jsonBody (drop n s)) \<le> 6 * (length s - n)" using "1.IH" [OF False] rn by simp
    moreover have "length (jsonBody s) = length (if (r, n) = (runeError, 1) then unicodeEscape runeError
        else quoteRune True r (take n s)) + length (jsonBody (drop n s))"
      using False rn by (subst jsonBody.simps) simp
    ultimately show ?thesis using n by (auto split: if_splits)
  qed (simp add: jsonBody.simps)
qed

lemma jsonQuote_length: "length (jsonQuote s) \<le> 6 * length s + 2"
  using jsonBody_length [of s] by (simp add: jsonQuote_def)

end
