(* ===== verification/Go_Digest.thy ===== *)
theory Go_Digest
  imports Action_Value
begin

text \<open>
  Package crypto/sha256 and the digests of the action plane as the code writes them: a prefix
  and 64 lower-case hexadecimal digits. The lemmas give the shape of a digest; nothing in the
  development assumes that the function has no collisions.
\<close>

unbundle bit_operations_syntax

section \<open>SHA-256\<close>

definition sha_constants :: "32 word list" where
  "sha_constants =
     [1116352408, 1899447441, 3049323471, 3921009573, 961987163, 1508970993, 2453635748, 2870763221,
      3624381080, 310598401, 607225278, 1426881987, 1925078388, 2162078206, 2614888103, 3248222580,
      3835390401, 4022224774, 264347078, 604807628, 770255983, 1249150122, 1555081692, 1996064986,
      2554220882, 2821834349, 2952996808, 3210313671, 3336571891, 3584528711, 113926993, 338241895,
      666307205, 773529912, 1294757372, 1396182291, 1695183700, 1986661051, 2177026350, 2456956037,
      2730485921, 2820302411, 3259730800, 3345764771, 3516065817, 3600352804, 4094571909, 275423344,
      430227734, 506948616, 659060556, 883997877, 958139571, 1322822218, 1537002063, 1747873779,
      1955562222, 2024104815, 2227730452, 2361852424, 2428436474, 2756734187, 3204031479, 3329325298]"

definition sha_initial :: "32 word list" where
  "sha_initial =
     [0x6a09e667, 0xbb67ae85, 0x3c6ef372, 0xa54ff53a, 0x510e527f, 0x9b05688c, 0x1f83d9ab, 0x5be0cd19]"

text \<open>The message, the byte 0x80, zeros up to 56 bytes modulo 64, and the length in bits.\<close>

definition sha_padded :: "string \<Rightarrow> 32 word list" where
  "sha_padded message =
     (let bits = of_nat (8 * length message) :: 64 word
      in map of_char message @ 128 # replicate ((119 - length message mod 64) mod 64) 0
         @ map (\<lambda>i. ucast (drop_bit (8 * i) bits AND 255)) [7, 6, 5, 4, 3, 2, 1, 0])"

fun sha_words :: "32 word list \<Rightarrow> 32 word list" where
  "sha_words (a # b # c # d # bytes) =
     (push_bit 24 a OR push_bit 16 b OR push_bit 8 c OR d) # sha_words bytes"
| "sha_words bytes = []"

text \<open>The message schedule, with the latest word first.\<close>

definition sha_next :: "32 word list \<Rightarrow> 32 word" where
  "sha_next ws =
     (let x = ws ! 14; y = ws ! 1;
          s0 = (word_rotr 7 x XOR word_rotr 18 x) XOR drop_bit 3 x;
          s1 = (word_rotr 17 y XOR word_rotr 19 y) XOR drop_bit 10 y
      in ws ! 15 + s0 + ws ! 6 + s1)"

definition sha_schedule :: "32 word list \<Rightarrow> 32 word list" where
  "sha_schedule block = rev (((\<lambda>ws. sha_next ws # ws) ^^ 48) (rev block))"

fun sha_round :: "32 word \<times> 32 word \<Rightarrow> 32 word list \<Rightarrow> 32 word list" where
  "sha_round (k, w) [a, b, c, d, e, f, g, h] =
     (let s1 = (word_rotr 6 e XOR word_rotr 11 e) XOR word_rotr 25 e;
          ch = (e AND f) XOR (NOT e AND g);
          t1 = h + s1 + ch + k + w;
          s0 = (word_rotr 2 a XOR word_rotr 13 a) XOR word_rotr 22 a;
          maj = (a AND b XOR a AND c) XOR b AND c
      in [t1 + (s0 + maj), a, b, c, d + t1, e, f, g])"
| "sha_round kw state = state"

definition sha_block :: "32 word list \<Rightarrow> 32 word list \<Rightarrow> 32 word list" where
  "sha_block block state =
     map2 (+) state (fold sha_round (zip sha_constants (sha_schedule block)) state)"

function sha_blocks :: "32 word list \<Rightarrow> 32 word list \<Rightarrow> 32 word list" where
  "sha_blocks ws state =
     (if ws = [] then state else sha_blocks (drop 16 ws) (sha_block (take 16 ws) state))"
  by pat_completeness auto
termination
  by (relation "measure (\<lambda>(ws, state). length ws)") auto

declare sha_blocks.simps [simp del]

definition sha256 :: "string \<Rightarrow> 32 word list" where
  "sha256 message = sha_blocks (sha_words (sha_padded message)) sha_initial"

definition word_hex :: "32 word \<Rightarrow> string" where
  "word_hex w = map (\<lambda>i. hexDigit (unat (drop_bit (4 * i) w AND 15))) [7, 6, 5, 4, 3, 2, 1, 0]"

definition hexEncode :: "32 word list \<Rightarrow> string" where
  "hexEncode ws = concat (map word_hex ws)"

section \<open>Digests\<close>

definition digestBytes :: "string \<Rightarrow> string" where
  "digestBytes body = ''sha256:'' @ hexEncode (sha256 body)"

lemma sha_round_length: "length (sha_round kw state) = length state"
  by (induction kw state rule: sha_round.induct) (simp_all add: Let_def)

lemma sha_block_length: "length (sha_block block state) = length state"
proof -
  have "length (fold sha_round kws state) = length state" for kws
    by (induction kws arbitrary: state) (simp_all add: sha_round_length)
  then show ?thesis by (simp add: sha_block_def)
qed

lemma sha_blocks_length: "length (sha_blocks ws state) = length state"
proof (induction ws state rule: sha_blocks.induct)
  case (1 ws state)
  show ?case
  proof (cases "ws = []")
    case True
    then show ?thesis by (simp add: sha_blocks.simps)
  next
    case False
    then show ?thesis using 1 by (subst sha_blocks.simps) (simp add: sha_block_length)
  qed
qed

lemma sha256_length: "length (sha256 message) = 8"
  by (simp add: sha256_def sha_blocks_length sha_initial_def)

lemma hexEncode_length: "length (hexEncode ws) = 8 * length ws"
  by (induction ws) (simp_all add: hexEncode_def word_hex_def)

lemma digestBytes_length: "length (digestBytes body) = 71"
  by (simp add: digestBytes_def hexEncode_length sha256_length)

end
