(* ===== verification/Action_Identity.thy ===== *)
theory Action_Identity
  imports Action_Types
begin

text \<open>
  The identities of the action plane (plan.go, request_normalize.go): the patterns of safe
  labels, digests and keyed identities, the lists of labels, and the keys of the tool index.
  The lemmas give the shape of every accepted identity, the uniqueness of the key identifier a
  keyed identity carries, and the exactness of the tool lookup.
\<close>

section \<open>Patterns\<close>

definition lowerAlnum :: "char \<Rightarrow> bool" where
  "lowerAlnum c \<longleftrightarrow> CHR ''a'' \<le> c \<and> c \<le> CHR ''z'' \<or> CHR ''0'' \<le> c \<and> c \<le> CHR ''9''"

definition lowerHexChar :: "char \<Rightarrow> bool" where
  "lowerHexChar c \<longleftrightarrow> CHR ''0'' \<le> c \<and> c \<le> CHR ''9'' \<or> CHR ''a'' \<le> c \<and> c \<le> CHR ''f''"

definition lowerHexLength :: "string \<Rightarrow> nat \<Rightarrow> bool" where
  "lowerHexLength value n \<longleftrightarrow> length value = n \<and> list_all lowerHexChar value"

definition lowerHex64 :: "string \<Rightarrow> bool" where
  "lowerHex64 value \<longleftrightarrow> lowerHexLength value 64"

text \<open>\<open>[a-z0-9](?:[a-z0-9-]{0,m}[a-z0-9])?\<close>, of at most \<open>m + 2\<close> bytes.\<close>

definition kebabLabel :: "nat \<Rightarrow> string \<Rightarrow> bool" where
  "kebabLabel bound value \<longleftrightarrow>
     value \<noteq> [] \<and> length value \<le> bound \<and> list_all (\<lambda>c. lowerAlnum c \<or> c = CHR ''-'') value
     \<and> lowerAlnum (hd value) \<and> lowerAlnum (last value)"

definition MaxSafeLabelBytes :: nat where "MaxSafeLabelBytes = 64"

definition SafeLabel :: "string \<Rightarrow> bool" where
  "SafeLabel value \<longleftrightarrow> length value \<le> MaxSafeLabelBytes \<and> kebabLabel 64 value"

definition customPlatformPattern :: "string \<Rightarrow> bool" where
  "customPlatformPattern value \<longleftrightarrow>
     hasPrefix value ''custom:''
     \<and> (let name = drop 7 value
        in name \<noteq> [] \<and> length name \<le> 48 \<and> lowerAlnum (hd name)
           \<and> list_all (\<lambda>c. lowerAlnum c \<or> c = CHR ''_'' \<or> c = CHR ''-'') name)"

definition ValidPlatform :: "platform \<Rightarrow> bool" where
  "ValidPlatform value \<longleftrightarrow> value \<in> set BuiltinPlatforms \<or> customPlatformPattern value"

definition sha256IdentityPattern :: "string \<Rightarrow> bool" where
  "sha256IdentityPattern value \<longleftrightarrow> hasPrefix value ''sha256:'' \<and> lowerHexLength (drop 7 value) 64"

definition hmacPrefix :: string where "hmacPrefix = ''hmac-sha256:v1:''"

definition hmacIdentityPattern :: "string \<Rightarrow> bool" where
  "hmacIdentityPattern value \<longleftrightarrow>
     hasPrefix value hmacPrefix
     \<and> (case splitAt (CHR '':'') (drop (length hmacPrefix) value) of
          [key, digest] \<Rightarrow> kebabLabel 32 key \<and> lowerHexLength digest 64
        | _ \<Rightarrow> False)"

definition ValidIdentity :: "string \<Rightarrow> bool" where
  "ValidIdentity value \<longleftrightarrow> sha256IdentityPattern value \<or> hmacIdentityPattern value"

definition ValidKeyedIdentity :: "string \<Rightarrow> bool" where
  "ValidKeyedIdentity value \<longleftrightarrow> hmacIdentityPattern value"

definition ValidSHA256Identity :: "string \<Rightarrow> bool" where
  "ValidSHA256Identity value \<longleftrightarrow> sha256IdentityPattern value"

text \<open>\<open>strings.IndexByte\<close>: \<open>None\<close> is the code's -1.\<close>

fun indexByte :: "string \<Rightarrow> char \<Rightarrow> nat option" where
  "indexByte [] c = None"
| "indexByte (x # s) c = (if x = c then Some 0 else map_option Suc (indexByte s c))"

definition KeyedIdentityKeyID :: "string \<Rightarrow> string option" where
  "KeyedIdentityKeyID value =
     (if \<not> ValidKeyedIdentity value then None
      else
        (let remainder = trimPrefix value hmacPrefix
         in case indexByte remainder (CHR '':'') of
              None \<Rightarrow> None
            | Some separator \<Rightarrow> if separator = 0 then None else Some (take separator remainder)))"

definition validOpaqueIdentity :: "string \<Rightarrow> bool" where
  "validOpaqueIdentity value \<longleftrightarrow>
     0 < length value \<and> length value \<le> 256
     \<and> list_all (\<lambda>c. CHR ''A'' \<le> c \<and> c \<le> CHR ''Z'' \<or> lowerAlnum c \<or> c \<in> set ''._:-'') value"

definition validCallID :: "string \<Rightarrow> bool" where
  "validCallID value \<longleftrightarrow>
     length value = 30 \<and> take 4 value = ''act_''
     \<and> list_all (\<lambda>c. CHR ''a'' \<le> c \<and> c \<le> CHR ''z'' \<or> CHR ''2'' \<le> c \<and> c \<le> CHR ''7'') (drop 4 value)"

definition validExecutableSnapshot :: "string \<Rightarrow> bool" where
  "validExecutableSnapshot value \<longleftrightarrow> value = ''absent'' \<or> sha256IdentityPattern value"

section \<open>Tool names and keys\<close>

definition MaxToolNameBytes :: nat where "MaxToolNameBytes = 256"

definition gatewayToolNamePattern :: "string \<Rightarrow> bool" where
  "gatewayToolNamePattern value \<longleftrightarrow>
     1 \<le> length value \<and> length value \<le> 128
     \<and> list_all (\<lambda>c. lowerAlnum c \<or> CHR ''A'' \<le> c \<and> c \<le> CHR ''Z'' \<or> c \<in> set ''_.-'') value"

text \<open>\<open>unicode.IsControl\<close>: the C0 and C1 controls and DEL.\<close>

definition isControl :: "rune \<Rightarrow> bool" where
  "isControl r \<longleftrightarrow> r < 32 \<or> 127 \<le> r \<and> r < 160"

definition validateToolName :: "string \<Rightarrow> bool \<Rightarrow> bool" where
  "validateToolName value gateway \<longleftrightarrow>
     value \<noteq> [] \<and> validString value \<and> length value \<le> MaxToolNameBytes
     \<and> list_all (\<lambda>r. \<not> (r = 0 \<or> isControl r)) (runes value)
     \<and> (gateway \<longrightarrow> gatewayToolNamePattern value)"

fun transport_text :: "transport \<Rightarrow> string" where
  "transport_text TransportHostMCP = ''host_mcp''"
| "transport_text TransportMCPStdio = ''mcp_stdio''"
| "transport_text (TransportOther s) = s"

definition ToolIdentityKey :: "tool \<Rightarrow> string" where
  "ToolIdentityKey t =
     transport_text (tool_transport t) @ [CHR 0x00] @ tool_platform t @ [CHR 0x00]
     @ tool_server_label t @ [CHR 0x00] @ tool_server_fingerprint t @ [CHR 0x00] @ tool_name t"

definition lookupToolIndex :: "(string \<rightharpoonup> nat) \<Rightarrow> tool \<Rightarrow> nat option" where
  "lookupToolIndex index t =
     (case index (ToolIdentityKey t) of
        Some matched \<Rightarrow> Some matched
      | None \<Rightarrow>
          if tool_server_fingerprint t = [] then None
          else index (ToolIdentityKey (t\<lparr>tool_server_fingerprint := []\<rparr>)))"

section \<open>Lists of labels\<close>

text \<open>The loop over the sorted copy: every entry passes the test and differs from its predecessor.\<close>

fun distinctRun :: "('a \<Rightarrow> bool) \<Rightarrow> 'a list \<Rightarrow> bool" where
  "distinctRun ok [] \<longleftrightarrow> True"
| "distinctRun ok [x] \<longleftrightarrow> ok x"
| "distinctRun ok (x # y # ys) \<longleftrightarrow> ok x \<and> x \<noteq> y \<and> distinctRun ok (y # ys)"

definition safeStringList :: "string list \<Rightarrow> nat \<Rightarrow> string list option" where
  "safeStringList values maximum =
     (if maximum < length values then None
      else let out = sort values in if distinctRun SafeLabel out then Some out else None)"

section \<open>The shape of identities\<close>

lemma indexByte_append: "c \<notin> set a \<Longrightarrow> indexByte (a @ c # b) c = Some (length a)"
  by (induction a) auto

lemma hexChar_not_colon: "lowerHexChar c \<Longrightarrow> c \<noteq> CHR '':''"
  by (auto simp: lowerHexChar_def less_eq_char_def)

lemma kebab_no_colon: "kebabLabel n k \<Longrightarrow> CHR '':'' \<notin> set k"
  by (auto simp: kebabLabel_def lowerAlnum_def list_all_iff less_eq_char_def)

lemma hex_no_colon: "lowerHexLength d n \<Longrightarrow> CHR '':'' \<notin> set d"
  by (auto simp: lowerHexLength_def list_all_iff dest: hexChar_not_colon)

lemma keyed_identity_iff:
  "ValidKeyedIdentity v \<longleftrightarrow>
     (\<exists>key digest. v = hmacPrefix @ key @ '':'' @ digest \<and> kebabLabel 32 key \<and> lowerHexLength digest 64)"
proof
  assume "ValidKeyedIdentity v"
  then have p: "hasPrefix v hmacPrefix" and c: "case splitAt (CHR '':'') (drop (length hmacPrefix) v) of
      [key, digest] \<Rightarrow> kebabLabel 32 key \<and> lowerHexLength digest 64 | _ \<Rightarrow> False"
    by (simp_all add: ValidKeyedIdentity_def hmacIdentityPattern_def)
  obtain t where t: "v = hmacPrefix @ t" using p by (auto simp: hasPrefix_iff)
  obtain key digest where kd: "splitAt (CHR '':'') t = [key, digest]" "kebabLabel 32 key" "lowerHexLength digest 64"
    using c t by (auto split: list.splits)
  have "t = key @ '':'' @ digest" using joinWith_splitAt [of "CHR '':''" t] kd(1) by simp
  then show "\<exists>key digest. v = hmacPrefix @ key @ '':'' @ digest \<and> kebabLabel 32 key \<and> lowerHexLength digest 64"
    using t kd by blast
next
  assume "\<exists>key digest. v = hmacPrefix @ key @ '':'' @ digest \<and> kebabLabel 32 key \<and> lowerHexLength digest 64"
  then obtain key digest where v: "v = hmacPrefix @ key @ '':'' @ digest" "kebabLabel 32 key" "lowerHexLength digest 64"
    by blast
  then have "splitAt (CHR '':'') (key @ '':'' @ digest) = [key, digest]"
    using kebab_no_colon hex_no_colon by (simp add: splitAt_append splitAt_no_sep)
  then show "ValidKeyedIdentity v" using v
    by (simp add: ValidKeyedIdentity_def hmacIdentityPattern_def hasPrefix_def)
qed

lemma key_id_iff:
  "KeyedIdentityKeyID v = Some k \<longleftrightarrow>
     (\<exists>digest. v = hmacPrefix @ k @ '':'' @ digest \<and> kebabLabel 32 k \<and> lowerHexLength digest 64)"
proof -
  have key: "KeyedIdentityKeyID (hmacPrefix @ key @ '':'' @ digest) = Some key"
    if "kebabLabel 32 key" "lowerHexLength digest 64" for key digest
  proof -
    have "ValidKeyedIdentity (hmacPrefix @ key @ '':'' @ digest)" using that keyed_identity_iff by blast
    moreover have "key \<noteq> []" using that by (simp add: kebabLabel_def)
    ultimately show ?thesis using indexByte_append [OF kebab_no_colon [OF that(1)], of digest]
      by (simp add: KeyedIdentityKeyID_def trimPrefix_def hasPrefix_def)
  qed
  show ?thesis
  proof
    assume a: "KeyedIdentityKeyID v = Some k"
    then have "ValidKeyedIdentity v" by (auto simp: KeyedIdentityKeyID_def split: if_splits)
    then obtain key digest where v: "v = hmacPrefix @ key @ '':'' @ digest" "kebabLabel 32 key" "lowerHexLength digest 64"
      using keyed_identity_iff by blast
    then show "\<exists>digest. v = hmacPrefix @ k @ '':'' @ digest \<and> kebabLabel 32 k \<and> lowerHexLength digest 64"
      using key a by auto
  qed (use key in blast)
qed

lemma keyed_has_key: "ValidKeyedIdentity v \<longleftrightarrow> (\<exists>k. KeyedIdentityKeyID v = Some k)"
  unfolding key_id_iff keyed_identity_iff by (rule refl)

lemma absent_not_keyed [simp]: "\<not> ValidKeyedIdentity ''absent''"
  by (simp add: ValidKeyedIdentity_def hmacIdentityPattern_def hasPrefix_def hmacPrefix_def)

section \<open>The tool index\<close>

text \<open>The components of a key are recovered from it when the first four have no NUL.\<close>

definition nul_free :: "tool \<Rightarrow> bool" where
  "nul_free t \<longleftrightarrow> CHR 0x00 \<notin> set (transport_text (tool_transport t)) \<and> CHR 0x00 \<notin> set (tool_platform t)
     \<and> CHR 0x00 \<notin> set (tool_server_label t) \<and> CHR 0x00 \<notin> set (tool_server_fingerprint t)"

lemma split_at_first:
  "c \<notin> set a \<Longrightarrow> c \<notin> set a' \<Longrightarrow> a @ c # b = a' @ c # b' \<Longrightarrow> a = a' \<and> b = b'"
  by (induction a arbitrary: a') (auto simp: Cons_eq_append_conv)

lemma tool_key_inject:
  assumes "nul_free s" and "nul_free t" and "ToolIdentityKey s = ToolIdentityKey t"
  shows "transport_text (tool_transport s) = transport_text (tool_transport t)
    \<and> tool_platform s = tool_platform t \<and> tool_server_label s = tool_server_label t
    \<and> tool_server_fingerprint s = tool_server_fingerprint t \<and> tool_name s = tool_name t"
proof -
  have free: "CHR 0x00 \<notin> set (transport_text (tool_transport x))" "CHR 0x00 \<notin> set (tool_platform x)"
      "CHR 0x00 \<notin> set (tool_server_label x)" "CHR 0x00 \<notin> set (tool_server_fingerprint x)"
    if "nul_free x" for x using that by (simp_all add: nul_free_def)
  note eq = assms(3) [unfolded ToolIdentityKey_def append_Cons append_Nil]
  note e1 = split_at_first [OF free(1) [OF assms(1)] free(1) [OF assms(2)] eq]
  note e2 = split_at_first [OF free(2) [OF assms(1)] free(2) [OF assms(2)] conjunct2 [OF e1]]
  note e3 = split_at_first [OF free(3) [OF assms(1)] free(3) [OF assms(2)] conjunct2 [OF e2]]
  note e4 = split_at_first [OF free(4) [OF assms(1)] free(4) [OF assms(2)] conjunct2 [OF e3]]
  show ?thesis using e1 e2 e3 e4 by blast
qed

lemma distinctRun_sorted:
  "sorted xs \<Longrightarrow> distinctRun ok xs \<longleftrightarrow> (\<forall>x \<in> set xs. ok x) \<and> distinct (xs :: 'a :: linorder list)"
proof (induction ok xs rule: distinctRun.induct)
  case (3 ok x y ys)
  then show ?case by (auto simp: less_le)
qed auto

lemma safeStringList_iff:
  "safeStringList values maximum = Some out \<longleftrightarrow>
     length values \<le> maximum \<and> out = sort values \<and> (\<forall>v \<in> set values. SafeLabel v) \<and> distinct values"
  by (auto simp: safeStringList_def Let_def distinctRun_sorted)

lemma safeStringList_idem: "safeStringList values maximum = Some out \<Longrightarrow> safeStringList out maximum = Some out"
  by (auto simp: safeStringList_iff sorted_sort_id)

section \<open>Properties\<close>

text \<open>
  A keyed identity carries exactly one key identifier, the label between the version and the
  digest, and the identifier is found exactly for the valid keyed identities.
\<close>

theorem key_id_of_keyed_identity:
  "(KeyedIdentityKeyID v = Some k \<longleftrightarrow>
      (\<exists>digest. v = hmacPrefix @ k @ '':'' @ digest \<and> kebabLabel 32 k \<and> lowerHexLength digest 64))
   \<and> (ValidKeyedIdentity v \<longleftrightarrow> KeyedIdentityKeyID v \<noteq> None)"
  using key_id_iff keyed_has_key by auto

text \<open>
  When no transport, platform, label or fingerprint has a NUL, the key of a tool determines
  its identity, so the index is consulted for exactly the requested tool, and after that for the
  same tool without a pinned fingerprint.
\<close>

theorem tool_lookup_exact:
  assumes "\<forall>s \<in> set declared. nul_free s" and "nul_free t"
    and "\<And>key. index key = (if key \<in> set (map ToolIdentityKey declared)
            then Some (LEAST i. i < length declared \<and> ToolIdentityKey (declared ! i) = key) else None)"
    and "lookupToolIndex index t = Some i"
  shows "i < length declared \<and> tool_name (declared ! i) = tool_name t
    \<and> tool_platform (declared ! i) = tool_platform t \<and> tool_server_label (declared ! i) = tool_server_label t
    \<and> transport_text (tool_transport (declared ! i)) = transport_text (tool_transport t)
    \<and> (tool_server_fingerprint (declared ! i) = tool_server_fingerprint t
       \<or> tool_server_fingerprint (declared ! i) = []
         \<and> (\<forall>s \<in> set declared. ToolIdentityKey s \<noteq> ToolIdentityKey t))"
proof -
  have found: "i < length declared \<and> ToolIdentityKey (declared ! i) = key" if "index key = Some i" for key
  proof -
    have "key \<in> set (map ToolIdentityKey declared)" using that assms(3) by (metis option.distinct(1))
    then obtain j where "j < length declared \<and> ToolIdentityKey (declared ! j) = key"
      by (auto simp: in_set_conv_nth)
    moreover have "i = (LEAST i. i < length declared \<and> ToolIdentityKey (declared ! i) = key)"
      using that assms(3) by (metis option.inject option.distinct(1))
    ultimately show ?thesis using LeastI [of "\<lambda>i. i < length declared \<and> ToolIdentityKey (declared ! i) = key"] by blast
  qed
  let ?open = "t\<lparr>tool_server_fingerprint := []\<rparr>"
  have free: "nul_free ?open" using assms(2) by (simp add: nul_free_def)
  show ?thesis
  proof (cases "index (ToolIdentityKey t)")
    case (Some j)
    then have "index (ToolIdentityKey t) = Some i" using assms(4) by (simp add: lookupToolIndex_def)
    then have f: "i < length declared \<and> ToolIdentityKey (declared ! i) = ToolIdentityKey t" by (rule found)
    then have "nul_free (declared ! i)" using assms(1) by auto
    then show ?thesis using tool_key_inject [OF _ assms(2)] f by blast
  next
    case None
    then have i: "index (ToolIdentityKey ?open) = Some i"
      using assms(4) by (auto simp: lookupToolIndex_def split: if_splits)
    then have f: "i < length declared \<and> ToolIdentityKey (declared ! i) = ToolIdentityKey ?open" by (rule found)
    then have "nul_free (declared ! i)" using assms(1) by auto
    moreover have "\<forall>s \<in> set declared. ToolIdentityKey s \<noteq> ToolIdentityKey t"
      using None assms(3) by (metis image_eqI list.set_map option.distinct(1))
    ultimately show ?thesis using tool_key_inject [OF _ free] f by simp
  qed
qed

definition example_tool :: tool where
  "example_tool = \<lparr>tool_id = ''read'', tool_transport = TransportMCPStdio, tool_platform = [],
     tool_server_label = ''srv'', tool_server_fingerprint = [], tool_name = ''read_file'',
     tool_effect = \<lparr>eff_kind = EffectExternal, eff_path_fields = [], eff_command_field = []\<rparr>,
     tool_cost_units = None, tool_max_result_bytes = 0, tool_ledger_name_safe = True,
     tool_origin = OriginActions, tool_source_identity = []\<rparr>"

theorem tool_lookup_exact_witness:
  "lookupToolIndex (\<lambda>key. if key = ToolIdentityKey example_tool then Some 0 else None)
      (example_tool\<lparr>tool_server_fingerprint := ''pin''\<rparr>) = Some 0
   \<and> tool_server_fingerprint ([example_tool] ! 0) = []"
proof -
  let ?index = "\<lambda>key. if key = ToolIdentityKey example_tool then Some 0 else None"
  let ?t = "example_tool\<lparr>tool_server_fingerprint := ''pin''\<rparr>"
  have "CHR 0x00 \<noteq> CHR ''p''" by simp
  have l: "lookupToolIndex ?index ?t = Some 0"
    by (simp add: lookupToolIndex_def ToolIdentityKey_def example_tool_def)
  have least: "(LEAST i. i < length [example_tool] \<and> ToolIdentityKey ([example_tool] ! i) = ToolIdentityKey example_tool) = 0"
    by (rule Least_equality) auto
  have "0 < length [example_tool] \<and> tool_name ([example_tool] ! 0) = tool_name ?t
    \<and> tool_platform ([example_tool] ! 0) = tool_platform ?t \<and> tool_server_label ([example_tool] ! 0) = tool_server_label ?t
    \<and> transport_text (tool_transport ([example_tool] ! 0)) = transport_text (tool_transport ?t)
    \<and> (tool_server_fingerprint ([example_tool] ! 0) = tool_server_fingerprint ?t
       \<or> tool_server_fingerprint ([example_tool] ! 0) = []
         \<and> (\<forall>s \<in> set [example_tool]. ToolIdentityKey s \<noteq> ToolIdentityKey ?t))"
    by (rule tool_lookup_exact [of "[example_tool]" ?t ?index 0])
      (use l least in \<open>simp_all add: nul_free_def example_tool_def\<close>)
  then show ?thesis using l by (simp add: example_tool_def)
qed

end
