(* ===== verification/Action_Pointer.thy ===== *)
theory Action_Pointer
  imports Action_Value
begin

text \<open>
  JSON Pointers (RFC 6901) of package action: the compiler of the text into tokens
  (\<open>CompilePointer\<close>, predicate.go) and the resolution of compiled tokens against a value
  (pointer_eval.go).
\<close>

section \<open>The code\<close>

datatype pointer_error =
  PointerTextBound | PointerNoSlash | PointerTilde
  | PointerTokenCount | PointerTokenUTF8 | PointerTokenBound

definition MaxPointerBytes :: nat where "MaxPointerBytes = 1024"

text \<open>The loop over the bytes of one encoded token.\<close>

fun decodeToken :: "string \<Rightarrow> string option" where
  "decodeToken [] = Some []"
| "decodeToken (c # cs) =
     (if c \<noteq> CHR ''~'' then map_option ((#) c) (decodeToken cs)
      else case cs of
          [] \<Rightarrow> None
        | e # rest \<Rightarrow>
            if e \<noteq> CHR ''0'' \<and> e \<noteq> CHR ''1'' then None
            else if e = CHR ''0'' then map_option ((#) (CHR ''~'')) (decodeToken rest)
            else map_option ((#) (CHR ''/'')) (decodeToken rest))"

fun decodeTokens :: "string list \<Rightarrow> pointer_error + string list" where
  "decodeTokens [] = Inr []"
| "decodeTokens (t # ts) =
     (case decodeToken t of
        None \<Rightarrow> Inl PointerTilde
      | Some d \<Rightarrow> (case decodeTokens ts of Inl e \<Rightarrow> Inl e | Inr ds \<Rightarrow> Inr (d # ds)))"

definition CompilePointer :: "string \<Rightarrow> pointer_error + string list" where
  "CompilePointer pointer =
     (if \<not> validString pointer \<or> MaxPointerBytes < length pointer then Inl PointerTextBound
      else if pointer = [] then Inr []
      else if hd pointer \<noteq> CHR ''/'' then Inl PointerNoSlash
      else decodeTokens (splitAt (CHR ''/'') (tl pointer)))"

record pointer_result =
  ptr_state :: pointer_state
  ptr_value :: json_value

text \<open>\<open>strconv.Atoi\<close> on a text that is all digits: out of range is an error.\<close>

definition maxInt :: nat where "maxInt = 2 ^ 63 - 1"

definition canonicalArrayIndex :: "string \<Rightarrow> nat option" where
  "canonicalArrayIndex token =
     (if token = [] \<or> token = ''-'' \<or> 1 < length token \<and> hd token = CHR ''0'' then None
      else if \<exists>character \<in> set (runes token). character < 48 \<or> 57 < character then None
      else if maxInt < digits_value token then None
      else Some (digits_value token))"

fun resolvePointerTokens :: "json_value \<Rightarrow> string list \<Rightarrow> pointer_result" where
  "resolvePointerTokens current [] =
     (if kind_of current = ValueNull then \<lparr>ptr_state = PointerNull, ptr_value = current\<rparr>
      else \<lparr>ptr_state = PointerPresent, ptr_value = current\<rparr>)"
| "resolvePointerTokens current (token # tokens) =
     (case kind_of current of
        ValueObject \<Rightarrow>
          (case value_lookup current token of
             None \<Rightarrow> \<lparr>ptr_state = PointerMissing, ptr_value = ValueUnset\<rparr>
           | Some selected \<Rightarrow> resolvePointerTokens selected tokens)
      | ValueArray \<Rightarrow>
          (case canonicalArrayIndex token of
             None \<Rightarrow> \<lparr>ptr_state = PointerInvalidIndex, ptr_value = ValueUnset\<rparr>
           | Some index \<Rightarrow>
               (case value_array_item current index of
                  None \<Rightarrow> \<lparr>ptr_state = PointerMissing, ptr_value = ValueUnset\<rparr>
                | Some selected \<Rightarrow> resolvePointerTokens selected tokens))
      | _ \<Rightarrow> \<lparr>ptr_state = PointerWrongContainer, ptr_value = ValueUnset\<rparr>)"

fun validateTokens :: "nat \<Rightarrow> string list \<Rightarrow> pointer_error option" where
  "validateTokens bytes [] = None"
| "validateTokens bytes (token # tokens) =
     (if \<not> validString token then Some PointerTokenUTF8
      else if MaxPointerBytes < bytes + length token then Some PointerTokenBound
      else validateTokens (bytes + length token) tokens)"

definition validateCompiledPointer :: "string list \<Rightarrow> pointer_error option" where
  "validateCompiledPointer tokens =
     (if MaxPointerBytes < length tokens then Some PointerTokenCount else validateTokens 0 tokens)"

definition ResolveCompiledPointer :: "json_value \<Rightarrow> string list \<Rightarrow> pointer_error + pointer_result" where
  "ResolveCompiledPointer rootValue tokens =
     (case validateCompiledPointer tokens of
        Some e \<Rightarrow> Inl e
      | None \<Rightarrow> Inr (resolvePointerTokens rootValue tokens))"

definition ResolvePointer :: "json_value \<Rightarrow> string \<Rightarrow> pointer_error + pointer_result" where
  "ResolvePointer rootValue pointer =
     (case CompilePointer pointer of
        Inl e \<Rightarrow> Inl e
      | Inr tokens \<Rightarrow> ResolveCompiledPointer rootValue tokens)"

section \<open>The text of a token list\<close>

fun escapeToken :: "string \<Rightarrow> string" where
  "escapeToken [] = []"
| "escapeToken (c # cs) =
     (if c = CHR ''~'' then ''~0'' else if c = CHR ''/'' then ''~1'' else [c]) @ escapeToken cs"

definition pointerText :: "string list \<Rightarrow> string" where
  "pointerText tokens = concat (map (\<lambda>t. CHR ''/'' # escapeToken t) tokens)"

lemma escapeToken_no_slash: "CHR ''/'' \<notin> set (escapeToken t)"
  by (induction t) auto

lemma decodeToken_escapeToken: "decodeToken (escapeToken t) = Some t"
  by (induction t) auto

lemma decodeToken_inv: "CHR ''/'' \<notin> set t \<Longrightarrow> decodeToken t = Some d \<Longrightarrow> escapeToken d = t"
proof (induction t arbitrary: d rule: decodeToken.induct)
  case (2 c cs)
  show ?case
  proof (cases "c = CHR ''~''")
    case False
    then show ?thesis using 2 by auto
  next
    case True
    with "2.prems"(2) obtain e rest where cs: "cs = e # rest" by (cases cs) auto
    show ?thesis
    proof (cases "e = CHR ''0''")
      case zero: True
      with "2.prems"(2) True cs obtain d' where d': "decodeToken rest = Some d'" "d = CHR ''~'' # d'" by auto
      moreover have "CHR ''/'' \<notin> set rest" using "2.prems"(1) cs by simp
      ultimately have "escapeToken d' = rest" using "2.IH"(2) True cs zero by simp
      then show ?thesis using d' True cs zero by simp
    next
      case False
      with "2.prems"(2) True cs obtain d' where d': "e = CHR ''1''" "decodeToken rest = Some d'" "d = CHR ''/'' # d'"
        by (auto split: if_splits)
      moreover have "CHR ''/'' \<notin> set rest" using "2.prems"(1) cs by simp
      ultimately have "escapeToken d' = rest" using "2.IH"(3) True cs False by simp
      then show ?thesis using d' True cs by simp
    qed
  qed
qed simp

lemma decodeTokens_iff:
  "\<forall>t \<in> set ts. CHR ''/'' \<notin> set t \<Longrightarrow> decodeTokens ts = Inr ds \<longleftrightarrow> ts = map escapeToken ds"
proof (induction ts arbitrary: ds)
  case (Cons t ts)
  show ?case
  proof
    assume "decodeTokens (t # ts) = Inr ds"
    then obtain d rest where "decodeToken t = Some d" "decodeTokens ts = Inr rest" "ds = d # rest"
      by (auto split: option.splits sum.splits)
    then show "t # ts = map escapeToken ds" using Cons decodeToken_inv [of t d] by auto
  next
    assume eq: "t # ts = map escapeToken ds"
    then obtain d rest where "ds = d # rest" "t = escapeToken d" "ts = map escapeToken rest"
      by (cases ds) auto
    moreover then have "decodeTokens ts = Inr rest" using Cons by auto
    ultimately show "decodeTokens (t # ts) = Inr ds" by (simp add: decodeToken_escapeToken)
  qed
qed auto

lemma pointerText_join:
  "tokens \<noteq> [] \<Longrightarrow> pointerText tokens = CHR ''/'' # joinWith (CHR ''/'') (map escapeToken tokens)"
proof (induction tokens)
  case (Cons t ts)
  then show ?case by (cases ts) (auto simp: pointerText_def)
qed simp

section \<open>Selection in a value\<close>

text \<open>\<open>selects v tokens w\<close>: walking the tokens from v, by member name or by index, ends in w.\<close>

inductive selects :: "json_value \<Rightarrow> string list \<Rightarrow> json_value \<Rightarrow> bool" where
  here: "selects v [] v"
| member: "(name, v) \<in> set ms \<Longrightarrow> selects v tokens w \<Longrightarrow> selects (Object ms) (name # tokens) w"
| item: "canonicalArrayIndex token = Some i \<Longrightarrow> i < length vs \<Longrightarrow> selects (vs ! i) tokens w \<Longrightarrow>
    selects (Array vs) (token # tokens) w"

inductive_cases selects_NilE: "selects v [] w"
inductive_cases selects_ConsE: "selects v (token # tokens) w"

lemma wf_lookup_iff: "wf_value (Object ms) \<Longrightarrow> value_lookup (Object ms) name = Some v \<longleftrightarrow> (name, v) \<in> set ms"
  using keys_sorted_distinct [of fst ms] by (auto simp: value_lookup_map_of)

lemma resolve_selects:
  "wf_value v \<Longrightarrow> ptr_state (resolvePointerTokens v tokens) \<in> {PointerPresent, PointerNull} \<Longrightarrow>
     selects v tokens (ptr_value (resolvePointerTokens v tokens))"
proof (induction v tokens rule: resolvePointerTokens.induct)
  case (1 current)
  then show ?case by (auto intro: selects.here)
next
  case (2 current token tokens)
  show ?case
  proof (cases current)
    case (Object ms)
    then obtain sel where sel: "value_lookup current token = Some sel"
      using "2.prems" by (auto split: option.splits)
    then have "(token, sel) \<in> set ms" using Object "2.prems" wf_lookup_iff by blast
    moreover have "wf_value sel" using calculation Object "2.prems" by auto
    moreover have "ptr_state (resolvePointerTokens sel tokens) \<in> {PointerPresent, PointerNull}"
      using "2.prems"(2) Object sel by simp
    ultimately have "selects sel tokens (ptr_value (resolvePointerTokens sel tokens))"
      using "2.IH"(2) Object sel by simp
    then show ?thesis using Object sel \<open>(token, sel) \<in> set ms\<close> by (simp add: selects.member)
  next
    case (Array vs)
    then obtain i sel where i: "canonicalArrayIndex token = Some i" "i < length vs" "sel = vs ! i"
        "value_array_item current i = Some sel"
      using "2.prems" by (auto simp: value_array_item_def split: option.splits if_splits)
    moreover have "wf_value sel" using Array i "2.prems" by auto
    moreover have "ptr_state (resolvePointerTokens sel tokens) \<in> {PointerPresent, PointerNull}"
      using "2.prems"(2) Array i by simp
    ultimately have "selects sel tokens (ptr_value (resolvePointerTokens sel tokens))"
      using "2.IH"(1) Array i by simp
    then show ?thesis using Array i by (simp add: selects.item)
  qed (use "2.prems" in auto)
qed

lemma selects_resolve:
  "selects v tokens w \<Longrightarrow> wf_value v \<Longrightarrow>
     resolvePointerTokens v tokens = \<lparr>ptr_state = (if w = Null then PointerNull else PointerPresent), ptr_value = w\<rparr>"
proof (induction rule: selects.induct)
  case (here v)
  then show ?case by (cases v) auto
next
  case (member name v ms tokens w)
  then show ?case using wf_lookup_iff [of ms name v] by auto
next
  case (item token i vs tokens w)
  then show ?case by (auto simp: value_array_item_def)
qed

section \<open>Properties\<close>

text \<open>
  C30: \<open>CompilePointer\<close> accepts exactly the texts that RFC 6901 writes for some token list, within
  the byte bound and valid as UTF-8, and returns that token list: compiling is the inverse of
  escaping, so two pointer texts select the same tokens only when they are equal.
\<close>

theorem CompilePointer_iff:
  "CompilePointer pointer = Inr tokens \<longleftrightarrow>
     pointer = pointerText tokens \<and> validString pointer \<and> length pointer \<le> MaxPointerBytes"
proof (cases "validString pointer \<and> length pointer \<le> MaxPointerBytes")
  case True
  show ?thesis
  proof (cases pointer)
    case Nil
    then show ?thesis by (cases tokens) (auto simp: CompilePointer_def pointerText_def)
  next
    case (Cons c rest)
    show ?thesis
    proof (cases "c = CHR ''/''")
      case False
      then have "pointer \<noteq> pointerText tokens" using Cons by (cases tokens) (auto simp: pointerText_def)
      then show ?thesis using False Cons True by (auto simp: CompilePointer_def)
    next
      case slash: True
      have "CompilePointer pointer = decodeTokens (splitAt (CHR ''/'') rest)"
        using True Cons slash by (auto simp: CompilePointer_def)
      also have "(decodeTokens (splitAt (CHR ''/'') rest) = Inr tokens)
          \<longleftrightarrow> splitAt (CHR ''/'') rest = map escapeToken tokens"
        by (rule decodeTokens_iff) (auto dest: splitAt_parts)
      also have "\<dots> \<longleftrightarrow> pointer = pointerText tokens"
      proof
        assume split: "splitAt (CHR ''/'') rest = map escapeToken tokens"
        then have "tokens \<noteq> []" by auto
        moreover have "rest = joinWith (CHR ''/'') (map escapeToken tokens)"
          using joinWith_splitAt [of "CHR ''/''" rest] split by simp
        ultimately show "pointer = pointerText tokens" using Cons slash pointerText_join by simp
      next
        assume eq: "pointer = pointerText tokens"
        then have ne: "tokens \<noteq> []" using Cons by (auto simp: pointerText_def)
        then have "rest = joinWith (CHR ''/'') (map escapeToken tokens)"
          using eq Cons pointerText_join by simp
        then show "splitAt (CHR ''/'') rest = map escapeToken tokens"
          using splitAt_joinWith [of "map escapeToken tokens"] ne escapeToken_no_slash by auto
      qed
      finally show ?thesis using True by simp
    qed
  qed
qed (auto simp: CompilePointer_def)

text \<open>
  C31: on a well-formed value the resolver finds a value exactly when the tokens select it, it is
  never ambiguous, and a found null is told apart from every other found value.
\<close>

theorem resolvePointerTokens_selects:
  assumes "wf_value rootValue"
  shows "resolvePointerTokens rootValue tokens
       = \<lparr>ptr_state = (if w = Null then PointerNull else PointerPresent), ptr_value = w\<rparr>
     \<longleftrightarrow> selects rootValue tokens w"
  using resolve_selects [OF assms, of tokens] selects_resolve [OF _ assms, of tokens w] by auto

theorem resolvePointerTokens_selects_witness:
  "resolvePointerTokens (Object [(''to'', Array [JString ''x'', Null])]) [''to'', ''1'']
       = \<lparr>ptr_state = (if Null = Null then PointerNull else PointerPresent), ptr_value = Null\<rparr>
     \<longleftrightarrow> selects (Object [(''to'', Array [JString ''x'', Null])]) [''to'', ''1''] Null"
  by (rule resolvePointerTokens_selects)
    (simp add: MaxJSONItems_def key_ok_def MaxJSONStringBytes_def validString_Cons)

end
