(* ===== verification/Action_Control.thy ===== *)
theory Action_Control
  imports Action_Types Go_Strings
begin

text \<open>
  The interruption of an evaluation (evaluation_context.go). A control is polled; each poll
  reads the clock and the context's channel once, so the control carries what its successive
  polls observe. The nil control, and a context without a channel, never stop.
\<close>

section \<open>The code\<close>

text \<open>
  What one poll sees: the clock, whether the channel is closed, and whether the context's
  error is \<open>DeadlineExceeded\<close>.
\<close>

record poll_view =
  pv_now :: int
  pv_closed :: bool
  pv_deadline_error :: bool

text \<open>
  \<open>ctl_views\<close> lists the observations of the polls to come; past its end nothing has happened:
  the clock is before every deadline and the channel is open.
\<close>

record evaluation_control =
  ctl_deadline :: "int option"
  ctl_done :: bool
  ctl_views :: "poll_view list"

type_synonym control = "evaluation_control option"

definition newEvaluationControl :: "bool \<Rightarrow> int option \<Rightarrow> poll_view list \<Rightarrow> evaluation_control" where
  "newEvaluationControl has_done deadline views =
     (if \<not> has_done then \<lparr>ctl_deadline = None, ctl_done = False, ctl_views = views\<rparr>
      else \<lparr>ctl_deadline = deadline, ctl_done = True, ctl_views = views\<rparr>)"

definition view_reason :: "evaluation_control \<Rightarrow> poll_view \<Rightarrow> reason_code" where
  "view_reason c view =
     (if (case ctl_deadline c of None \<Rightarrow> False | Some deadline \<Rightarrow> \<not> pv_now view < deadline)
      then ReasonDeadlineExceeded
      else if \<not> ctl_done c then NoReason
      else if \<not> pv_closed view then NoReason
      else if pv_deadline_error view then ReasonDeadlineExceeded
      else ReasonCancelled)"

definition stopReason :: "control \<Rightarrow> reason_code \<times> control" where
  "stopReason control =
     (case control of
        None \<Rightarrow> (NoReason, None)
      | Some c \<Rightarrow>
          (case ctl_views c of
             [] \<Rightarrow> (NoReason, control)
           | view # views \<Rightarrow> (view_reason c view, Some (c\<lparr>ctl_views := views\<rparr>))))"

definition evaluationStopped :: "reason_code \<Rightarrow> bool" where
  "evaluationStopped reason \<longleftrightarrow> reason = ReasonDeadlineExceeded \<or> reason = ReasonCancelled"

section \<open>Polls\<close>

lemma evaluationStopped_simps [simp]:
  "\<not> evaluationStopped NoReason" "evaluationStopped ReasonDeadlineExceeded"
  "evaluationStopped ReasonCancelled" "\<not> evaluationStopped ReasonInternalInvariant"
  "\<not> evaluationStopped ReasonConditionIndeterminate" "\<not> evaluationStopped ReasonContextUntrusted"
  "\<not> evaluationStopped ReasonLimitExceeded"
  by (simp_all add: evaluationStopped_def)

lemma stopReason_cases:
  "stopReason control = (reason, control') \<Longrightarrow> reason = NoReason \<or> evaluationStopped reason"
  by (auto simp: stopReason_def view_reason_def split: option.splits list.splits if_splits)

lemma stopReason_nil [simp]: "stopReason None = (NoReason, None)"
  by (simp add: stopReason_def)

text \<open>A control is quiet when no poll to come would stop; quiet controls stay quiet.\<close>

definition quiet :: "control \<Rightarrow> bool" where
  "quiet control \<longleftrightarrow>
     (case control of None \<Rightarrow> True | Some c \<Rightarrow> \<forall>view \<in> set (ctl_views c). view_reason c view = NoReason)"

lemma quiet_nil [simp]: "quiet None"
  by (simp add: quiet_def)

lemma view_reason_views [simp]: "view_reason (c\<lparr>ctl_views := views\<rparr>) = view_reason c"
  by (rule ext) (simp add: view_reason_def)

lemma quiet_stopReason: "quiet control \<Longrightarrow> stopReason control = (reason, control') \<Longrightarrow> reason = NoReason \<and> quiet control'"
  by (auto simp: quiet_def stopReason_def split: option.splits list.splits)

text \<open>The number of polls left, a measure of what a control can still observe.\<close>

definition polls :: "control \<Rightarrow> nat" where
  "polls control = (case control of None \<Rightarrow> 0 | Some c \<Rightarrow> length (ctl_views c))"

section \<open>Runs of polls\<close>

text \<open>The polls seen: none stopped when the reason is empty, and else only the last one, with that reason.\<close>

definition first_stop :: "evaluation_control \<Rightarrow> reason_code \<Rightarrow> poll_view list \<Rightarrow> bool" where
  "first_stop c reason seen \<longleftrightarrow>
     (if reason = NoReason then \<forall>view \<in> set seen. view_reason c view = NoReason
      else seen \<noteq> [] \<and> view_reason c (last seen) = reason
        \<and> (\<forall>view \<in> set (butlast seen). view_reason c view = NoReason))"

text \<open>\<open>ran a reason b\<close>: a run of polls leads from control \<open>a\<close> to control \<open>b\<close>, with that first stop.\<close>

definition ran :: "control \<Rightarrow> reason_code \<Rightarrow> control \<Rightarrow> bool" where
  "ran a reason b \<longleftrightarrow>
     (case a of
        None \<Rightarrow> b = None \<and> reason = NoReason
      | Some c \<Rightarrow> \<exists>seen rest. ctl_views c = seen @ rest \<and> b = Some (c\<lparr>ctl_views := rest\<rparr>)
          \<and> first_stop c reason seen)"

lemma first_stop_append:
  "first_stop c NoReason s \<Longrightarrow> first_stop c r t \<Longrightarrow> first_stop c r (s @ t)"
  by (auto simp: first_stop_def butlast_append split: if_splits)

lemma first_stop_views [simp]: "first_stop (c\<lparr>ctl_views := views\<rparr>) = first_stop c"
  by (intro ext) (simp add: first_stop_def)

lemma ranI: "ctl_views c = seen @ rest \<Longrightarrow> first_stop c r seen \<Longrightarrow> ran (Some c) r (Some (c\<lparr>ctl_views := rest\<rparr>))"
  unfolding ran_def by (simp only: option.case) blast

lemma ran_nil [simp]: "ran None r b \<longleftrightarrow> b = None \<and> r = NoReason"
  by (simp add: ran_def)

lemma ranE:
  assumes "ran (Some c) r b"
  obtains seen rest where "ctl_views c = seen @ rest" and "b = Some (c\<lparr>ctl_views := rest\<rparr>)" and "first_stop c r seen"
  using assms unfolding ran_def option.case by blast

lemma ran_refl [simp]: "ran a NoReason a"
proof (cases a)
  case (Some c)
  have "ran (Some c) NoReason (Some (c\<lparr>ctl_views := ctl_views c\<rparr>))"
    by (rule ranI [of c "[]"]) (simp_all add: first_stop_def)
  then show ?thesis using Some by simp
qed simp

lemma ran_trans:
  assumes "ran a NoReason b" and "ran b r c"
  shows "ran a r c"
proof (cases a)
  case (Some x)
  obtain s t where a: "ctl_views x = s @ t" "b = Some (x\<lparr>ctl_views := t\<rparr>)" "first_stop x NoReason s"
    using assms(1) unfolding Some by (rule ranE)
  obtain u v where b: "t = u @ v" "c = Some (x\<lparr>ctl_views := v\<rparr>)" "first_stop x r u"
    using assms(2) unfolding a(2) by (rule ranE) simp
  have "ran (Some x) r (Some (x\<lparr>ctl_views := v\<rparr>))"
    by (rule ranI [of x "s @ u"]) (simp_all add: a b first_stop_append)
  then show ?thesis using Some b(2) by simp
qed (use assms in simp)

lemma ran_stopReason:
  assumes "stopReason a = (r, b)"
  shows "ran a r b"
proof (cases "\<exists>x view rest. a = Some x \<and> ctl_views x = view # rest")
  case True
  then obtain x view rest where x: "a = Some x" "ctl_views x = view # rest" by blast
  then have b: "r = view_reason x view" "b = Some (x\<lparr>ctl_views := rest\<rparr>)" using assms by (simp_all add: stopReason_def)
  show ?thesis unfolding x(1) b by (rule ranI [of x "[view]"]) (simp_all add: x(2) first_stop_def)
next
  case False
  then have "r = NoReason \<and> b = a" using assms by (auto simp: stopReason_def split: option.splits list.splits)
  then show ?thesis by simp
qed


text \<open>The reason of a result as far as it is that of a stop.\<close>

definition stopped_as :: "reason_code \<Rightarrow> reason_code" where
  "stopped_as reason = (if evaluationStopped reason then reason else NoReason)"

lemma stopped_as_simps [simp]:
  "stopped_as NoReason = NoReason" "\<not> evaluationStopped r \<Longrightarrow> stopped_as r = NoReason"
  "evaluationStopped r \<Longrightarrow> stopped_as r = r"
  by (simp_all add: stopped_as_def)

lemma ran_stopped: "ran a r b \<Longrightarrow> stopped_as r = r"
proof (cases a)
  case (Some x)
  assume "ran a r b"
  then obtain seen where "first_stop x r seen" unfolding Some by (rule ranE)
  then have "r = NoReason \<or> r = view_reason x (last seen)" by (auto simp: first_stop_def split: if_splits)
  moreover have "view_reason x v = NoReason \<or> evaluationStopped (view_reason x v)" for v
    by (auto simp: view_reason_def)
  ultimately show ?thesis by (metis stopped_as_def)
qed simp

lemma ran_polls: "ran a r b \<Longrightarrow> polls b \<le> polls a"
  by (auto simp: ran_def polls_def split: option.splits)

end
