(* ===== verification/Action_Glob.thy ===== *)
theory Action_Glob
  imports Action_Control
begin

text \<open>
  The glob matcher of package action (glob.go): the compiled programs, the work budget that
  bounds a match and polls for cancellation, and the backtracking match loop.
\<close>

section \<open>The code\<close>

datatype glob_token_kind =
  GlobLiteral rune | GlobQuestion | GlobStar | GlobDirectories | GlobRemainder
  | GlobCharacterClass bool "rune list" "(rune \<times> rune) list"

text \<open>A class is negated or not and has literals and ranges.\<close>

record glob_program =
  gp_tokens :: "glob_token_kind list"
  gp_zero :: "bool list"

record compiled_glob =
  cg_programs :: "glob_program list"
  cg_workLimit :: uint64

definition slash :: rune where "slash = 47"
definition globWorkPerState :: uint64 where "globWorkPerState = 4"
definition maxGlobMatchWork :: uint64 where "maxGlobMatchWork = 4194304 * globWorkPerState"
definition evaluationGlobPollInterval :: nat where "evaluationGlobPollInterval = 64"

definition class_match :: "bool \<Rightarrow> rune list \<Rightarrow> (rune \<times> rune) list \<Rightarrow> rune \<Rightarrow> bool" where
  "class_match negated literals ranges character \<longleftrightarrow>
     (character \<in> set literals \<or> (\<exists>item \<in> set ranges. fst item \<le> character \<and> character \<le> snd item))
       \<noteq> negated"

subsection \<open>The work budget\<close>

record glob_work =
  gw_remaining :: nat
  gw_control :: control
  gw_untilPoll :: nat
  gw_stopped :: reason_code

definition countdown :: "glob_work \<Rightarrow> glob_work" where
  "countdown w = w\<lparr>gw_untilPoll := gw_untilPoll w - 1, gw_remaining := gw_remaining w - 1\<rparr>"

definition glob_take :: "glob_work \<Rightarrow> bool \<times> glob_work" where
  "glob_take w =
     (if gw_remaining w = 0 then (False, w)
      else if gw_control w \<noteq> None \<and> gw_untilPoll w = 0 then
        (case stopReason (gw_control w) of
           (reason, control) \<Rightarrow>
             if reason \<noteq> NoReason then (False, w\<lparr>gw_control := control, gw_stopped := reason\<rparr>)
             else (True, countdown
                     (w\<lparr>gw_control := control, gw_untilPoll := evaluationGlobPollInterval\<rparr>)))
      else (True, countdown w))"

subsection \<open>The match loop\<close>

text \<open>
  Positions are byte offsets in the value and indices in the tokens; a backtrack point that
  the code marks \<open>-1\<close> is \<open>None\<close>.
\<close>

record glob_state =
  gs_pattern :: nat
  gs_name :: nat
  gs_dirPattern :: "nat option"
  gs_dirName :: nat
  gs_starPattern :: "nat option"
  gs_starName :: nat

definition glob_start :: glob_state where
  "glob_start = \<lparr>gs_pattern = 0, gs_name = 0, gs_dirPattern = None, gs_dirName = 0,
     gs_starPattern = None, gs_starName = 0\<rparr>"

definition advance :: "nat \<Rightarrow> glob_state \<Rightarrow> glob_state" where
  "advance width s = s\<lparr>gs_pattern := gs_pattern s + 1, gs_name := gs_name s + width\<rparr>"

text \<open>The switch on the token: the whole value is accepted, the loop continues, or it falls through.\<close>

datatype token_step = TokenAccept | TokenContinue glob_state | TokenFail

definition token_step :: "glob_program \<Rightarrow> string \<Rightarrow> glob_state \<Rightarrow> token_step" where
  "token_step p v s =
     (if gs_pattern s < length (gp_tokens p) then
        (case decodeRune (drop (gs_name s) v) of
           (character, width) \<Rightarrow>
             (case gp_tokens p ! gs_pattern s of
                GlobRemainder \<Rightarrow> TokenAccept
              | GlobDirectories \<Rightarrow>
                  TokenContinue (s\<lparr>gs_pattern := gs_pattern s + 1, gs_dirPattern := Some (gs_pattern s + 1),
                    gs_dirName := gs_name s, gs_starPattern := None\<rparr>)
              | GlobStar \<Rightarrow>
                  TokenContinue (s\<lparr>gs_pattern := gs_pattern s + 1, gs_starPattern := Some (gs_pattern s + 1),
                    gs_starName := gs_name s\<rparr>)
              | GlobQuestion \<Rightarrow>
                  if character \<noteq> slash then TokenContinue (advance width s) else TokenFail
              | GlobCharacterClass negated literals ranges \<Rightarrow>
                  if class_match negated literals ranges character then TokenContinue (advance width s)
                  else TokenFail
              | GlobLiteral literal \<Rightarrow>
                  if literal = character then TokenContinue (advance width s) else TokenFail))
      else TokenFail)"

text \<open>Extending the last star by one rune that is not a slash.\<close>

definition star_step :: "string \<Rightarrow> glob_state \<Rightarrow> glob_state option" where
  "star_step v s =
     (case gs_starPattern s of
        None \<Rightarrow> None
      | Some starPattern \<Rightarrow>
          (case decodeRune (drop (gs_starName s) v) of
             (character, width) \<Rightarrow>
               if character \<noteq> slash then
                 Some (s\<lparr>gs_starName := gs_starName s + width, gs_pattern := starPattern,
                   gs_name := gs_starName s + width\<rparr>)
               else None))"

text \<open>The inner loop: past the next slash, spending one unit of work per rune.\<close>

datatype seek = SeekFound nat glob_work | SeekEnd glob_work | SeekExhausted glob_work

lemma decodeRune_progress: "n < length v \<Longrightarrow> 1 \<le> snd (decodeRune (drop n v)) \<and> n + snd (decodeRune (drop n v)) \<le> length v"
  using decodeRune_width [of "drop n v"] by auto

function seekSlash :: "string \<Rightarrow> nat \<Rightarrow> glob_work \<Rightarrow> seek" where
  "seekSlash v nameIndex work =
     (if nameIndex < length v then
        (case glob_take work of
           (ok, work) \<Rightarrow>
             if \<not> ok then SeekExhausted work
             else (case decodeRune (drop nameIndex v) of
                 (character, width) \<Rightarrow>
                   if character = slash then SeekFound (nameIndex + width) work
                   else seekSlash v (nameIndex + width) work))
      else SeekEnd work)"
  by pat_completeness auto
termination
  by (relation "measure (\<lambda>(v, n, w). length v - n)")
    (auto dest: decodeRune_progress [unfolded snd_def] split: prod.splits)

definition zeroLength :: "glob_program \<Rightarrow> nat \<Rightarrow> bool" where
  "zeroLength p tokenIndex \<longleftrightarrow> tokenIndex < length (gp_zero p) \<and> gp_zero p ! tokenIndex"

lemma glob_take_remaining: "glob_take w = (True, w') \<Longrightarrow> gw_remaining w' < gw_remaining w"
  by (auto simp: glob_take_def countdown_def split: if_splits prod.splits)

lemma glob_take_le: "glob_take w = (ok, w') \<Longrightarrow> gw_remaining w' \<le> gw_remaining w"
  by (auto simp: glob_take_def countdown_def split: if_splits prod.splits)

lemma seekSlash_remaining:
  "seekSlash v n w = SeekFound m w' \<Longrightarrow> gw_remaining w' \<le> gw_remaining w"
proof (induction v n w rule: seekSlash.induct)
  case (1 v n w)
  from "1.prems" obtain w1 where lt: "n < length v" and w1: "glob_take w = (True, w1)"
    by (subst (asm) seekSlash.simps) (auto split: if_splits prod.splits)
  obtain c k where ck: "decodeRune (drop n v) = (c, k)" by (cases "decodeRune (drop n v)")
  have le: "gw_remaining w1 \<le> gw_remaining w" using glob_take_le [OF w1] .
  show ?case
  proof (cases "c = slash")
    case True
    then show ?thesis using "1.prems" lt w1 ck le by (subst (asm) seekSlash.simps) simp
  next
    case False
    then have "seekSlash v (n + k) w1 = SeekFound m w'"
      using "1.prems" lt w1 ck by (subst (asm) seekSlash.simps) simp
    then show ?thesis using "1.IH" [OF lt w1 [symmetric]] ck False le by auto
  qed
qed

declare seekSlash.simps [simp del]

function glob_loop :: "glob_program \<Rightarrow> string \<Rightarrow> glob_state \<Rightarrow> glob_work \<Rightarrow> bool \<times> bool \<times> glob_work" where
  "glob_loop p v s work =
     (case glob_take work of
        (ok, work) \<Rightarrow>
          if \<not> ok then (False, False, work)
          else if \<not> gs_name s < length v then (zeroLength p (gs_pattern s), True, work)
          else
            (case token_step p v s of
               TokenAccept \<Rightarrow> (True, True, work)
             | TokenContinue s \<Rightarrow> glob_loop p v s work
             | TokenFail \<Rightarrow>
                 (case star_step v s of
                    Some s \<Rightarrow> glob_loop p v s work
                  | None \<Rightarrow>
                      (case gs_dirPattern s of
                         None \<Rightarrow> (False, True, work)
                       | Some dirPattern \<Rightarrow>
                           (case seekSlash v (gs_dirName s) work of
                              SeekExhausted work \<Rightarrow> (False, False, work)
                            | SeekEnd work \<Rightarrow> (False, True, work)
                            | SeekFound name work \<Rightarrow>
                                glob_loop p v
                                  (s\<lparr>gs_name := name, gs_dirName := name, gs_pattern := dirPattern\<rparr>) work)))))"
  by pat_completeness auto
termination
  by (relation "measure (\<lambda>(p, v, s, w). gw_remaining w)")
    (auto dest!: glob_take_remaining [OF sym] dest!: seekSlash_remaining)

declare glob_loop.simps [simp del]

definition program_match :: "glob_program \<Rightarrow> string \<Rightarrow> glob_work \<Rightarrow> bool \<times> bool \<times> glob_work" where
  "program_match p v work = glob_loop p v glob_start work"

fun match_programs :: "glob_program list \<Rightarrow> string \<Rightarrow> glob_work \<Rightarrow> bool \<times> bool \<times> reason_code \<times> control" where
  "match_programs [] v work =
     (case stopReason (gw_control work) of
        (reason, control) \<Rightarrow>
          if reason \<noteq> NoReason then (False, False, reason, control) else (False, True, NoReason, control))"
| "match_programs (p # ps) v work =
     (case stopReason (gw_control work) of
        (reason, control) \<Rightarrow>
          if reason \<noteq> NoReason then (False, False, reason, control)
          else
            (case program_match p v (work\<lparr>gw_control := control\<rparr>) of
               (matched, complete, work) \<Rightarrow>
                 if \<not> complete then (False, False, gw_stopped work, gw_control work)
                 else if matched then
                   (case stopReason (gw_control work) of
                      (reason, control) \<Rightarrow>
                        if reason \<noteq> NoReason then (False, False, reason, control)
                        else (True, True, NoReason, control))
                 else match_programs ps v work))"

definition matchWithWork ::
  "compiled_glob \<Rightarrow> string \<Rightarrow> uint64 \<Rightarrow> control \<Rightarrow> bool \<times> bool \<times> reason_code \<times> control" where
  "matchWithWork g v limit control =
     match_programs (cg_programs g) v
       \<lparr>gw_remaining = unat limit, gw_control = control, gw_untilPoll = 0, gw_stopped = NoReason\<rparr>"

text \<open>The shared limit: four units per state of every program, capped at the glob's own limit.\<close>

fun workLimitLoop :: "uint64 \<Rightarrow> nat \<Rightarrow> glob_program list \<Rightarrow> uint64 \<Rightarrow> uint64" where
  "workLimitLoop workLimit valueBytes [] acc = acc"
| "workLimitLoop workLimit valueBytes (p # ps) acc =
     (let states = word_of_nat valueBytes + word_of_nat (length (gp_tokens p)) + 1;
          programWork = states * globWorkPerState
      in if workLimit div globWorkPerState < states then workLimit
         else if workLimit - acc \<le> programWork then workLimit
         else workLimitLoop workLimit valueBytes ps (acc + programWork))"

definition matchWorkLimit :: "compiled_glob \<Rightarrow> nat \<Rightarrow> uint64" where
  "matchWorkLimit g valueBytes =
     (if cg_workLimit g = 0 then 0 else workLimitLoop (cg_workLimit g) valueBytes (cg_programs g) 0)"

text \<open>A nil glob matches nothing.\<close>

definition glob_matchWithControl ::
  "compiled_glob option \<Rightarrow> string \<Rightarrow> control \<Rightarrow> bool \<times> bool \<times> reason_code \<times> control" where
  "glob_matchWithControl glob v control =
     (case glob of
        None \<Rightarrow> (False, True, NoReason, control)
      | Some g \<Rightarrow> matchWithWork g v (matchWorkLimit g (length v)) control)"

definition glob_Match :: "compiled_glob option \<Rightarrow> string \<Rightarrow> bool \<times> bool" where
  "glob_Match glob v =
     (case glob_matchWithControl glob v None of (matched, complete, reason, control) \<Rightarrow> (matched, complete))"

section \<open>The language of a program\<close>

text \<open>
  \<open>star_reach v n m\<close>: from byte n to byte m through runes that are not a slash;
  \<open>segments_reach v n m\<close>: through whole segments, each ended by a slash.
\<close>

inductive star_reach :: "string \<Rightarrow> nat \<Rightarrow> nat \<Rightarrow> bool" where
  star_none: "star_reach v n n"
| star_rune: "n < length v \<Longrightarrow> decodeRune (drop n v) = (character, width) \<Longrightarrow> character \<noteq> slash \<Longrightarrow>
    star_reach v (n + width) m \<Longrightarrow> star_reach v n m"

inductive past_slash :: "string \<Rightarrow> nat \<Rightarrow> nat \<Rightarrow> bool" where
  at_slash: "n < length v \<Longrightarrow> decodeRune (drop n v) = (slash, width) \<Longrightarrow> past_slash v n (n + width)"
| before_slash: "n < length v \<Longrightarrow> decodeRune (drop n v) = (character, width) \<Longrightarrow> character \<noteq> slash \<Longrightarrow>
    past_slash v (n + width) m \<Longrightarrow> past_slash v n m"

inductive segments_reach :: "string \<Rightarrow> nat \<Rightarrow> nat \<Rightarrow> bool" where
  no_segment: "segments_reach v n n"
| one_segment: "past_slash v n k \<Longrightarrow> segments_reach v k m \<Longrightarrow> segments_reach v n m"

fun token_accepts :: "glob_token_kind \<Rightarrow> rune \<Rightarrow> bool" where
  "token_accepts (GlobLiteral literal) character = (literal = character)"
| "token_accepts GlobQuestion character = (character \<noteq> slash)"
| "token_accepts (GlobCharacterClass negated literals ranges) character =
     class_match negated literals ranges character"
| "token_accepts _ character = False"

text \<open>
  \<open>glob_lang p v i n\<close>: the tokens from i accept the bytes of v from n. At the end of the value
  the compiled table of empty matches decides.
\<close>

inductive glob_lang :: "glob_program \<Rightarrow> string \<Rightarrow> nat \<Rightarrow> nat \<Rightarrow> bool" for p v where
  lang_end: "length v \<le> n \<Longrightarrow> zeroLength p i \<Longrightarrow> glob_lang p v i n"
| lang_remainder: "n < length v \<Longrightarrow> i < length (gp_tokens p) \<Longrightarrow> gp_tokens p ! i = GlobRemainder \<Longrightarrow>
    glob_lang p v i n"
| lang_directories: "n < length v \<Longrightarrow> i < length (gp_tokens p) \<Longrightarrow> gp_tokens p ! i = GlobDirectories \<Longrightarrow>
    segments_reach v n m \<Longrightarrow> glob_lang p v (i + 1) m \<Longrightarrow> glob_lang p v i n"
| lang_star: "n < length v \<Longrightarrow> i < length (gp_tokens p) \<Longrightarrow> gp_tokens p ! i = GlobStar \<Longrightarrow>
    star_reach v n m \<Longrightarrow> glob_lang p v (i + 1) m \<Longrightarrow> glob_lang p v i n"
| lang_rune: "n < length v \<Longrightarrow> i < length (gp_tokens p) \<Longrightarrow>
    decodeRune (drop n v) = (character, width) \<Longrightarrow> token_accepts (gp_tokens p ! i) character \<Longrightarrow>
    glob_lang p v (i + 1) (n + width) \<Longrightarrow> glob_lang p v i n"

lemma seekSlash_past:
  "seekSlash v n w = SeekFound m w' \<Longrightarrow> past_slash v n m"
proof (induction v n w rule: seekSlash.induct)
  case (1 v n w)
  from "1.prems" obtain w1 where lt: "n < length v" and w1: "glob_take w = (True, w1)"
    by (subst (asm) seekSlash.simps) (auto split: if_splits prod.splits)
  obtain c k where ck: "decodeRune (drop n v) = (c, k)" by (cases "decodeRune (drop n v)")
  show ?case
  proof (cases "c = slash")
    case True
    then have "m = n + k" using "1.prems" lt w1 ck by (subst (asm) seekSlash.simps) simp
    then show ?thesis using at_slash [OF lt] ck True by simp
  next
    case False
    then have "seekSlash v (n + k) w1 = SeekFound m w'"
      using "1.prems" lt w1 ck by (subst (asm) seekSlash.simps) simp
    then have "past_slash v (n + k) m" using "1.IH" [OF lt w1 [symmetric]] ck False by auto
    then show ?thesis by (rule before_slash [OF lt ck False])
  qed
qed

text \<open>
  What the loop may rely on: accepting from the current point, or from any extension of the last
  star or of the last run of directories, accepts from the start.
\<close>

definition glob_inv :: "glob_program \<Rightarrow> string \<Rightarrow> glob_state \<Rightarrow> bool" where
  "glob_inv p v s \<longleftrightarrow>
     (glob_lang p v (gs_pattern s) (gs_name s) \<longrightarrow> glob_lang p v 0 0)
     \<and> (\<forall>starPattern m. gs_starPattern s = Some starPattern \<longrightarrow> star_reach v (gs_starName s) m \<longrightarrow>
          glob_lang p v starPattern m \<longrightarrow> glob_lang p v 0 0)
     \<and> (\<forall>dirPattern m. gs_dirPattern s = Some dirPattern \<longrightarrow> segments_reach v (gs_dirName s) m \<longrightarrow>
          glob_lang p v dirPattern m \<longrightarrow> glob_lang p v 0 0)"

lemma glob_inv_start: "glob_inv p v glob_start"
  by (simp add: glob_inv_def glob_start_def)

lemma token_step_accept:
  "token_step p v s = TokenAccept \<Longrightarrow> gs_name s < length v \<Longrightarrow> glob_lang p v (gs_pattern s) (gs_name s)"
  by (auto simp: token_step_def intro: lang_remainder split: if_splits prod.splits glob_token_kind.splits)

lemma token_step_inv:
  assumes step: "token_step p v s = TokenContinue s'" and lt: "gs_name s < length v" and inv: "glob_inv p v s"
  shows "glob_inv p v s'"
proof -
  let ?i = "gs_pattern s" and ?n = "gs_name s"
  obtain c k where ck: "decodeRune (drop ?n v) = (c, k)" by (cases "decodeRune (drop ?n v)")
  have i: "?i < length (gp_tokens p)" using step by (auto simp: token_step_def split: if_splits)
  have here: "glob_lang p v ?i ?n \<Longrightarrow> glob_lang p v 0 0" using inv by (simp add: glob_inv_def)
  consider (dirs) "gp_tokens p ! ?i = GlobDirectories" | (star) "gp_tokens p ! ?i = GlobStar"
    | (rune) "token_accepts (gp_tokens p ! ?i) c" "s' = advance k s"
    using step i ck by (cases "gp_tokens p ! ?i") (auto simp: token_step_def split: if_splits)
  then show ?thesis
  proof cases
    case dirs
    have go: "segments_reach v ?n m \<Longrightarrow> glob_lang p v (?i + 1) m \<Longrightarrow> glob_lang p v 0 0" for m
      using lang_directories [OF lt i dirs] here by blast
    have "s' = s\<lparr>gs_pattern := ?i + 1, gs_dirPattern := Some (?i + 1), gs_dirName := ?n, gs_starPattern := None\<rparr>"
      using step i ck dirs by (simp add: token_step_def)
    then show ?thesis using go go [OF no_segment] by (auto simp: glob_inv_def)
  next
    case star
    have go: "star_reach v ?n m \<Longrightarrow> glob_lang p v (?i + 1) m \<Longrightarrow> glob_lang p v 0 0" for m
      using lang_star [OF lt i star] here by blast
    have "s' = s\<lparr>gs_pattern := ?i + 1, gs_starPattern := Some (?i + 1), gs_starName := ?n\<rparr>"
      using step i ck star by (simp add: token_step_def)
    then show ?thesis using go go [OF star_none] inv by (auto simp: glob_inv_def)
  next
    case rune
    have "glob_lang p v (?i + 1) (?n + k) \<Longrightarrow> glob_lang p v 0 0"
      using lang_rune [OF lt i ck rune(1)] here by blast
    then show ?thesis using inv rune(2) by (simp add: glob_inv_def advance_def)
  qed
qed

text \<open>A star is only ever extended inside the value.\<close>

lemma star_step_inv:
  assumes step: "star_step v s = Some s'" and lt: "gs_starName s < length v" and inv: "glob_inv p v s"
  shows "glob_inv p v s'"
proof -
  obtain c k where ck: "decodeRune (drop (gs_starName s) v) = (c, k)"
    by (cases "decodeRune (drop (gs_starName s) v)")
  obtain sp where sp: "gs_starPattern s = Some sp" "c \<noteq> slash"
    and s': "s' = s\<lparr>gs_starName := gs_starName s + k, gs_pattern := sp, gs_name := gs_starName s + k\<rparr>"
    using step ck by (auto simp: star_step_def split: option.splits if_splits)
  have go: "star_reach v (gs_starName s + k) m \<Longrightarrow> glob_lang p v sp m \<Longrightarrow> glob_lang p v 0 0" for m
    using star_rune [OF lt ck sp(2)] inv sp(1) by (auto simp: glob_inv_def)
  then show ?thesis using s' sp(1) inv go [OF star_none] by (auto simp: glob_inv_def)
qed

lemma seek_inv:
  assumes "past_slash v (gs_dirName s) name" and "gs_dirPattern s = Some dp" and "glob_inv p v s"
  shows "glob_inv p v (s\<lparr>gs_name := name, gs_dirName := name, gs_pattern := dp\<rparr>)"
proof -
  have go: "segments_reach v name m \<Longrightarrow> glob_lang p v dp m \<Longrightarrow> glob_lang p v 0 0" for m
    using one_segment [OF assms(1)] assms(2,3) by (auto simp: glob_inv_def)
  then show ?thesis using assms(2,3) go [OF no_segment] by (auto simp: glob_inv_def)
qed

text \<open>While the loop runs, the position of the last star is inside the value.\<close>

definition star_inside :: "string \<Rightarrow> glob_state \<Rightarrow> bool" where
  "star_inside v s \<longleftrightarrow> gs_starPattern s \<noteq> None \<longrightarrow> gs_starName s < length v \<or> length v \<le> gs_name s"

lemma token_step_inside:
  "token_step p v s = TokenContinue s' \<Longrightarrow> gs_name s < length v \<Longrightarrow> star_inside v s \<Longrightarrow> star_inside v s'"
  by (auto simp: token_step_def star_inside_def advance_def
      split: if_splits prod.splits glob_token_kind.splits)

lemma star_step_inside: "star_step v s = Some s' \<Longrightarrow> star_inside v s'"
  by (auto simp: star_step_def star_inside_def split: option.splits if_splits prod.splits)

text \<open>The cases in which the loop goes on, with what they leave.\<close>

definition glob_next :: "glob_program \<Rightarrow> string \<Rightarrow> glob_state \<Rightarrow> glob_state \<Rightarrow> bool" where
  "glob_next p v s s' \<longleftrightarrow>
     token_step p v s = TokenContinue s' \<or> star_step v s = Some s'
     \<or> (\<exists>dp name. gs_dirPattern s = Some dp \<and> past_slash v (gs_dirName s) name
          \<and> s' = s\<lparr>gs_name := name, gs_dirName := name, gs_pattern := dp\<rparr>)"

lemma glob_next_inv:
  assumes "glob_next p v s s'" and lt: "gs_name s < length v" and inv: "glob_inv p v s" "star_inside v s"
  shows "glob_inv p v s' \<and> star_inside v s'"
proof -
  have star: "gs_starPattern s \<noteq> None \<Longrightarrow> gs_starName s < length v"
    using inv(2) lt by (simp add: star_inside_def)
  consider "token_step p v s = TokenContinue s'" | "star_step v s = Some s'"
    | dp name where "gs_dirPattern s = Some dp" "past_slash v (gs_dirName s) name"
        "s' = s\<lparr>gs_name := name, gs_dirName := name, gs_pattern := dp\<rparr>"
    using assms(1) by (auto simp: glob_next_def)
  then show ?thesis
  proof cases
    case 1
    then show ?thesis using token_step_inv token_step_inside lt inv by blast
  next
    case 2
    then have "gs_starPattern s \<noteq> None" by (auto simp: star_step_def split: option.splits)
    then show ?thesis using 2 star_step_inv star_step_inside star inv by blast
  next
    case 3
    then show ?thesis using seek_inv inv star by (auto simp: star_inside_def)
  qed
qed

text \<open>One iteration of the loop, by how it leaves.\<close>

lemma glob_loop_cases:
  assumes "glob_loop p v s w = (matched, complete, w')"
  obtains (exhausted) "\<not> matched" "\<not> complete"
  | (at_end) "length v \<le> gs_name s" "complete" "matched = zeroLength p (gs_pattern s)"
  | (accept) "gs_name s < length v" "token_step p v s = TokenAccept" "complete" "matched"
  | (reject) "\<not> matched" "complete"
  | (continue) s1 w1 where "gs_name s < length v" "glob_next p v s s1"
      "glob_loop p v s1 w1 = (matched, complete, w')" "gw_remaining w1 < gw_remaining w"
proof -
  obtain ok w1 where take: "glob_take w = (ok, w1)" by (cases "glob_take w")
  have dec: "ok \<Longrightarrow> gw_remaining w1 < gw_remaining w" using glob_take_remaining take by auto
  show thesis
  proof (cases "ok \<and> gs_name s < length v")
    case False
    then show thesis using assms take exhausted at_end
      by (subst (asm) glob_loop.simps) (auto split: if_splits)
  next
    case True
    then have ok: ok and lt: "gs_name s < length v" by auto
    show thesis
    proof (cases "token_step p v s")
      case TokenAccept
      then show thesis using assms take ok lt accept by (subst (asm) glob_loop.simps) auto
    next
      case (TokenContinue s1)
      then have "glob_loop p v s1 w1 = (matched, complete, w')"
        using assms take ok lt by (subst (asm) glob_loop.simps) auto
      moreover have "glob_next p v s s1" using TokenContinue by (simp add: glob_next_def)
      ultimately show thesis using continue lt dec ok by blast
    next
      case TokenFail
      show thesis
      proof (cases "star_step v s")
        case (Some s1)
        then have "glob_loop p v s1 w1 = (matched, complete, w')"
          using assms take ok lt TokenFail by (subst (asm) glob_loop.simps) auto
        moreover have "glob_next p v s s1" using Some by (simp add: glob_next_def)
        ultimately show thesis using continue lt dec ok by blast
      next
        case None
        show thesis
        proof (cases "gs_dirPattern s")
          case no_dir: None
          then show thesis using assms take ok lt TokenFail None reject
            by (subst (asm) glob_loop.simps) auto
        next
          case (Some dp)
          note loop = assms take ok lt TokenFail None Some
          show thesis
          proof (cases "seekSlash v (gs_dirName s) w1")
            case (SeekFound name w2)
            define s1 where "s1 = s\<lparr>gs_name := name, gs_dirName := name, gs_pattern := dp\<rparr>"
            have "glob_loop p v s1 w2 = (matched, complete, w')"
              using loop SeekFound by (subst (asm) glob_loop.simps) (simp add: s1_def)
            moreover have "glob_next p v s s1"
              using seekSlash_past [OF SeekFound] Some by (auto simp: glob_next_def s1_def)
            ultimately show thesis using continue lt dec ok seekSlash_remaining [OF SeekFound] by force
          qed (use loop exhausted reject in \<open>subst (asm) glob_loop.simps, auto\<close>)+
        qed
      qed
    qed
  qed
qed

lemma glob_loop_sound:
  "glob_loop p v s w = (True, complete, w') \<Longrightarrow> glob_inv p v s \<Longrightarrow> star_inside v s \<Longrightarrow>
     complete \<and> glob_lang p v 0 0"
proof (induction "gw_remaining w" arbitrary: s w rule: less_induct)
  case less
  from less.prems(1) show ?case
  proof (cases rule: glob_loop_cases)
    case at_end
    then show ?thesis using less.prems(2) lang_end by (auto simp: glob_inv_def)
  next
    case accept
    then show ?thesis using token_step_accept less.prems(2) by (auto simp: glob_inv_def)
  next
    case (continue s1 w1)
    then show ?thesis using less.hyps glob_next_inv less.prems by blast
  qed auto
qed

section \<open>More work never changes an answer\<close>

definition more_work :: "nat \<Rightarrow> glob_work \<Rightarrow> glob_work" where
  "more_work k w = w\<lparr>gw_remaining := gw_remaining w + k\<rparr>"

lemma more_work_simps [simp]:
  "gw_control (more_work k w) = gw_control w" "gw_remaining (more_work k w) = gw_remaining w + k"
  "gw_stopped (more_work k w) = gw_stopped w"
  by (simp_all add: more_work_def)

lemma glob_take_more:
  "glob_take w = (True, w') \<Longrightarrow> gw_control w = None \<Longrightarrow>
     glob_take (more_work k w) = (True, more_work k w') \<and> gw_control w' = None"
  by (auto simp: glob_take_def countdown_def more_work_def split: if_splits)

fun seek_more :: "nat \<Rightarrow> seek \<Rightarrow> seek" where
  "seek_more k (SeekFound n w) = SeekFound n (more_work k w)"
| "seek_more k (SeekEnd w) = SeekEnd (more_work k w)"
| "seek_more k (SeekExhausted w) = SeekExhausted (more_work k w)"

fun seek_work :: "seek \<Rightarrow> glob_work" where
  "seek_work (SeekFound n w) = w"
| "seek_work (SeekEnd w) = w"
| "seek_work (SeekExhausted w) = w"

lemma seekSlash_more:
  "seekSlash v n w = r \<Longrightarrow> (\<forall>w'. r \<noteq> SeekExhausted w') \<Longrightarrow> gw_control w = None \<Longrightarrow>
     seekSlash v n (more_work k w) = seek_more k r \<and> gw_control (seek_work r) = None"
proof (induction v n w arbitrary: r rule: seekSlash.induct)
  case (1 v n w)
  show ?case
  proof (cases "n < length v")
    case False
    then have "r = SeekEnd w" using "1.prems"(1) by (subst (asm) seekSlash.simps) simp
    then show ?thesis using False "1.prems"(3) by (subst seekSlash.simps) simp
  next
    case lt: True
    then obtain w1 where w1: "glob_take w = (True, w1)"
      using "1.prems"(1,2) by (subst (asm) seekSlash.simps) (auto split: if_splits prod.splits)
    note more = glob_take_more [OF w1 "1.prems"(3), of k]
    obtain c m where cm: "decodeRune (drop n v) = (c, m)" by (cases "decodeRune (drop n v)")
    show ?thesis
    proof (cases "c = slash")
      case True
      then have "r = SeekFound (n + m) w1" using "1.prems"(1) lt w1 cm by (subst (asm) seekSlash.simps) simp
      then show ?thesis using True lt cm more by (subst seekSlash.simps) simp
    next
      case False
      then have "seekSlash v (n + m) w1 = r" using "1.prems"(1) lt w1 cm by (subst (asm) seekSlash.simps) simp
      then have "seekSlash v (n + m) (more_work k w1) = seek_more k r \<and> gw_control (seek_work r) = None"
        using "1.IH" [OF lt w1 [symmetric]] cm False "1.prems"(2) more by auto
      then show ?thesis using False lt cm more by (subst seekSlash.simps) simp
    qed
  qed
qed

lemma glob_loop_more:
  "glob_loop p v s w = (matched, True, w') \<Longrightarrow> gw_control w = None \<Longrightarrow>
     glob_loop p v s (more_work k w) = (matched, True, more_work k w') \<and> gw_control w' = None"
proof (induction "gw_remaining w" arbitrary: s w rule: less_induct)
  case less
  obtain w1 where w1: "glob_take w = (True, w1)"
    using less.prems(1) by (subst (asm) glob_loop.simps) (auto split: if_splits prod.splits)
  note more = glob_take_more [OF w1 less.prems(2), of k]
  have dec: "gw_remaining w1 < gw_remaining w" by (rule glob_take_remaining [OF w1])
  note loop = less.prems(1) [unfolded glob_loop.simps [of p v s w] w1, simplified]
  have IH: "glob_loop p v s1 w2 = (matched, True, w') \<Longrightarrow> gw_remaining w2 \<le> gw_remaining w1 \<Longrightarrow>
      gw_control w2 = None \<Longrightarrow> glob_loop p v s1 (more_work k w2) = (matched, True, more_work k w') \<and> gw_control w' = None"
    for s1 w2 using less.hyps [of w2 s1] dec by simp
  note unfold = glob_loop.simps [of p v s "more_work k w"]
  show ?case
  proof (cases "gs_name s < length v")
    case False
    then show ?thesis using loop more by (auto simp: unfold)
  next
    case lt: True
    show ?thesis
    proof (cases "token_step p v s")
      case TokenAccept
      then show ?thesis using loop more lt by (auto simp: unfold)
    next
      case (TokenContinue s1)
      then have "glob_loop p v s1 w1 = (matched, True, w')" using loop lt by simp
      then show ?thesis using TokenContinue more lt IH [of s1 w1] by (simp add: unfold)
    next
      case TokenFail
      show ?thesis
      proof (cases "star_step v s")
        case (Some s1)
        then have "glob_loop p v s1 w1 = (matched, True, w')" using loop lt TokenFail by simp
        then show ?thesis using TokenFail Some more lt IH [of s1 w1] by (simp add: unfold)
      next
        case None
        show ?thesis
        proof (cases "gs_dirPattern s")
          case no_dir: None
          then show ?thesis using loop more lt TokenFail None by (auto simp: unfold)
        next
          case (Some dp)
          define r where "r = seekSlash v (gs_dirName s) w1"
          have "\<forall>w''. r \<noteq> SeekExhausted w''" using loop lt TokenFail None Some by (auto simp: r_def)
          then have seek: "seekSlash v (gs_dirName s) (more_work k w1) = seek_more k r"
              "gw_control (seek_work r) = None"
            using seekSlash_more [of v "gs_dirName s" w1 r k] more by (auto simp: r_def)
          show ?thesis
          proof (cases r)
            case (SeekFound name w2)
            then have "glob_loop p v (s\<lparr>gs_name := name, gs_dirName := name, gs_pattern := dp\<rparr>) w2 = (matched, True, w')"
              using loop lt TokenFail None Some by (simp add: r_def)
            moreover have "gw_remaining w2 \<le> gw_remaining w1"
              using SeekFound by (auto simp: r_def dest: seekSlash_remaining)
            ultimately show ?thesis
              using SeekFound seek more lt TokenFail None Some
                IH [of "s\<lparr>gs_name := name, gs_dirName := name, gs_pattern := dp\<rparr>" w2]
              by (simp add: unfold)
          next
            case (SeekEnd w2)
            then show ?thesis using loop seek more lt TokenFail None Some by (auto simp: unfold r_def)
          next
            case (SeekExhausted w2)
            then show ?thesis using loop lt TokenFail None Some by (auto simp: r_def)
          qed
        qed
      qed
    qed
  qed
qed

lemma match_programs_more:
  "match_programs ps v w = (matched, True, reason, control) \<Longrightarrow> gw_control w = None \<Longrightarrow>
     match_programs ps v (more_work k w) = (matched, True, reason, control)"
proof (induction ps arbitrary: w)
  case (Cons p ps)
  obtain m c w1 where pm: "program_match p v w = (m, c, w1)" by (cases "program_match p v w")
  have self: "w\<lparr>gw_control := None\<rparr> = w" using Cons.prems(2) by (cases w) simp
  have self': "(more_work k w)\<lparr>gw_control := None\<rparr> = more_work k w"
    using Cons.prems(2) by (cases w) (simp add: more_work_def)
  have c: "c" using Cons.prems pm by (auto simp: self split: if_splits)
  then have more: "program_match p v (more_work k w) = (m, True, more_work k w1)" "gw_control w1 = None"
    using pm glob_loop_more [of p v glob_start w m w1 k] Cons.prems(2) by (auto simp: program_match_def)
  show ?case
  proof (cases m)
    case True
    then show ?thesis using Cons.prems pm more c by (simp add: self self')
  next
    case False
    then have "match_programs ps v w1 = (matched, True, reason, control)"
      using Cons.prems pm more c by (simp add: self)
    then show ?thesis using False Cons.IH [of w1] more Cons.prems(2) by (simp add: self')
  qed
qed simp

section \<open>A quiet control changes nothing\<close>

definition work_sim :: "glob_work \<Rightarrow> glob_work \<Rightarrow> bool" where
  "work_sim w w' \<longleftrightarrow> gw_remaining w = gw_remaining w' \<and> gw_stopped w = NoReason \<and> gw_stopped w' = NoReason
     \<and> quiet (gw_control w) \<and> quiet (gw_control w')"

lemma glob_take_quiet:
  assumes "quiet (gw_control w)" and "glob_take w = (ok, w1)"
  shows "ok = (gw_remaining w \<noteq> 0) \<and> gw_remaining w1 = gw_remaining w - 1
    \<and> gw_stopped w1 = gw_stopped w \<and> quiet (gw_control w1)"
proof -
  obtain reason control where rc: "stopReason (gw_control w) = (reason, control)"
    by (cases "stopReason (gw_control w)")
  then have "reason = NoReason" "quiet control" using quiet_stopReason assms(1) by blast+
  then show ?thesis using assms rc by (auto simp: glob_take_def countdown_def split: if_splits)
qed

lemma glob_take_sim:
  assumes "work_sim w w'" and "glob_take w = (ok, w1)" and "glob_take w' = (ok', w1')"
  shows "ok' = ok \<and> work_sim w1 w1'"
  using assms glob_take_quiet [of w ok w1] glob_take_quiet [of w' ok' w1'] by (auto simp: work_sim_def)

inductive seek_sim :: "seek \<Rightarrow> seek \<Rightarrow> bool" where
  "work_sim w w' \<Longrightarrow> seek_sim (SeekFound n w) (SeekFound n w')"
| "work_sim w w' \<Longrightarrow> seek_sim (SeekEnd w) (SeekEnd w')"
| "work_sim w w' \<Longrightarrow> seek_sim (SeekExhausted w) (SeekExhausted w')"

lemma seekSlash_sim: "work_sim w w' \<Longrightarrow> seek_sim (seekSlash v n w) (seekSlash v n w')"
proof (induction v n w arbitrary: w' rule: seekSlash.induct)
  case (1 v n w)
  show ?case
  proof (cases "n < length v")
    case False
    then show ?thesis using "1.prems" by (simp add: seekSlash.simps [of v n] seek_sim.intros)
  next
    case lt: True
    obtain ok w1 where t: "glob_take w = (ok, w1)" by (cases "glob_take w")
    obtain ok' w1' where t': "glob_take w' = (ok', w1')" by (cases "glob_take w'")
    have sim: "ok' = ok" "work_sim w1 w1'" using glob_take_sim [OF "1.prems" t t'] by auto
    obtain c k where ck: "decodeRune (drop n v) = (c, k)" by (cases "decodeRune (drop n v)")
    show ?thesis
    proof (cases "ok \<and> c \<noteq> slash")
      case True
      then have "seek_sim (seekSlash v (n + k) w1) (seekSlash v (n + k) w1')"
        using "1.IH" [OF lt t [symmetric]] ck sim by auto
      then show ?thesis using lt t t' ck sim True by (simp add: seekSlash.simps [of v n])
    next
      case False
      then show ?thesis using lt t t' ck sim by (auto simp: seekSlash.simps [of v n] seek_sim.intros)
    qed
  qed
qed

lemma glob_loop_sim:
  "work_sim w w' \<Longrightarrow> glob_loop p v s w = (m, c, w1) \<Longrightarrow>
     \<exists>w1'. glob_loop p v s w' = (m, c, w1') \<and> work_sim w1 w1'"
proof (induction "gw_remaining w" arbitrary: s w w' rule: less_induct)
  case less
  obtain ok u where t: "glob_take w = (ok, u)" by (cases "glob_take w")
  obtain ok' u' where t': "glob_take w' = (ok', u')" by (cases "glob_take w'")
  have sim: "ok' = ok" "work_sim u u'" using glob_take_sim [OF less.prems(1) t t'] by auto
  note loop = less.prems(2) [unfolded glob_loop.simps [of p v s w] t, simplified]
  note unfold = glob_loop.simps [of p v s w']
  have IH: "glob_loop p v s1 u1 = (m, c, w1) \<Longrightarrow> work_sim u1 u1' \<Longrightarrow> ok \<Longrightarrow> gw_remaining u1 \<le> gw_remaining u \<Longrightarrow>
      \<exists>w1'. glob_loop p v s1 u1' = (m, c, w1') \<and> work_sim w1 w1'" for s1 u1 u1'
    using less.hyps [of u1 u1' s1] glob_take_remaining t by force
  show ?case
  proof (cases "ok \<and> gs_name s < length v")
    case False
    then show ?thesis using loop t' sim by (auto simp: unfold split: if_splits)
  next
    case go: True
    show ?thesis
    proof (cases "token_step p v s")
      case TokenAccept
      then show ?thesis using loop t' sim go by (auto simp: unfold)
    next
      case (TokenContinue s1)
      then show ?thesis using loop t' sim go IH [of s1 u u'] by (simp add: unfold)
    next
      case TokenFail
      show ?thesis
      proof (cases "star_step v s")
        case (Some s1)
        then show ?thesis using TokenFail loop t' sim go IH [of s1 u u'] by (simp add: unfold)
      next
        case None
        show ?thesis
        proof (cases "gs_dirPattern s")
          case no_dir: None
          then show ?thesis using TokenFail None loop t' sim go by (auto simp: unfold)
        next
          case (Some dp)
          note ctx = TokenFail None Some t' sim go
          have "seek_sim (seekSlash v (gs_dirName s) u) (seekSlash v (gs_dirName s) u')"
            using seekSlash_sim sim(2) .
          then show ?thesis
          proof (cases rule: seek_sim.cases)
            case (1 x x' n)
            then have "gw_remaining x \<le> gw_remaining u" using seekSlash_remaining by blast
            then show ?thesis using 1 ctx loop
                IH [of "s\<lparr>gs_name := n, gs_dirName := n, gs_pattern := dp\<rparr>" x x']
              by (simp add: unfold)
          next
            case (2 x x')
            then show ?thesis using ctx loop by (auto simp: unfold)
          next
            case (3 x x')
            then show ?thesis using ctx loop by (auto simp: unfold)
          qed
        qed
      qed
    qed
  qed
qed

lemma match_programs_sim:
  "work_sim w w' \<Longrightarrow> match_programs ps v w = (m, c, r, control) \<Longrightarrow>
     \<exists>control'. match_programs ps v w' = (m, c, r, control') \<and> quiet control \<and> quiet control' \<and> r = NoReason"
proof (induction ps arbitrary: w w')
  case Nil
  obtain r1 c1 where s: "stopReason (gw_control w) = (r1, c1)" by (cases "stopReason (gw_control w)")
  obtain r2 c2 where s': "stopReason (gw_control w') = (r2, c2)" by (cases "stopReason (gw_control w')")
  have "r1 = NoReason" "quiet c1" "r2 = NoReason" "quiet c2"
    using quiet_stopReason s s' Nil.prems(1) by (auto simp: work_sim_def)
  then show ?case using Nil.prems s s' by simp
next
  case (Cons p ps)
  obtain r1 c1 where s: "stopReason (gw_control w) = (r1, c1)" by (cases "stopReason (gw_control w)")
  obtain r2 c2 where s': "stopReason (gw_control w') = (r2, c2)" by (cases "stopReason (gw_control w')")
  have q: "r1 = NoReason" "quiet c1" "r2 = NoReason" "quiet c2"
    using quiet_stopReason s s' Cons.prems(1) by (auto simp: work_sim_def)
  have sim: "work_sim (w\<lparr>gw_control := c1\<rparr>) (w'\<lparr>gw_control := c2\<rparr>)"
    using Cons.prems(1) q by (simp add: work_sim_def)
  obtain m1 k1 w1 where pm: "program_match p v (w\<lparr>gw_control := c1\<rparr>) = (m1, k1, w1)"
    by (cases "program_match p v (w\<lparr>gw_control := c1\<rparr>)")
  then obtain w1' where pm': "program_match p v (w'\<lparr>gw_control := c2\<rparr>) = (m1, k1, w1')" and sim1: "work_sim w1 w1'"
    using glob_loop_sim [OF sim, of p v glob_start m1 k1 w1] by (auto simp: program_match_def)
  note step = s s' q pm pm'
  obtain r3 c3 where s3: "stopReason (gw_control w1) = (r3, c3)" by (cases "stopReason (gw_control w1)")
  obtain r4 c4 where s4: "stopReason (gw_control w1') = (r4, c4)" by (cases "stopReason (gw_control w1')")
  have q3: "r3 = NoReason" "quiet c3" "r4 = NoReason" "quiet c4"
    using quiet_stopReason s3 s4 sim1 by (auto simp: work_sim_def)
  consider "\<not> k1" | "k1" "m1" | "k1" "\<not> m1" by blast
  then show ?case
  proof cases
    case 1
    then show ?thesis using Cons.prems(2) step sim1 by (simp add: work_sim_def)
  next
    case 2
    then show ?thesis using Cons.prems(2) step s3 s4 q3 by simp
  next
    case 3
    then have "match_programs ps v w1 = (m, c, r, control)" using Cons.prems(2) step by simp
    then show ?thesis using Cons.IH [OF sim1] 3 step by simp
  qed
qed

lemma matchWithWork_quiet:
  assumes "quiet control" and "matchWithWork g v limit control = (m, c, r, control')"
  shows "quiet control' \<and> r = NoReason \<and> (\<exists>u. matchWithWork g v limit None = (m, c, r, u))"
proof -
  define w where "w u = \<lparr>gw_remaining = unat limit, gw_control = u, gw_untilPoll = 0, gw_stopped = NoReason\<rparr>" for u
  have "work_sim (w control) (w None)" using assms(1) by (simp add: work_sim_def w_def)
  then show ?thesis
    using match_programs_sim [of "w control" "w None" "cg_programs g" v m c r control'] assms(2)
    by (auto simp: matchWithWork_def w_def)
qed

section \<open>The work limit\<close>

lemma workLimitLoop_exact:
  assumes "\<forall>p \<in> set ps. valueBytes + length (gp_tokens p) + 1 < 2 ^ 62" and "unat acc \<le> unat limit"
  shows "unat (workLimitLoop limit valueBytes ps acc)
    = min (unat limit) (unat acc + (\<Sum>p\<leftarrow>ps. 4 * (valueBytes + length (gp_tokens p) + 1)))"
  using assms
proof (induction ps arbitrary: acc)
  case (Cons p ps)
  define n where "n = valueBytes + length (gp_tokens p) + 1"
  define states :: uint64 where "states = word_of_nat valueBytes + word_of_nat (length (gp_tokens p)) + 1"
  have n: "n < 2 ^ 62" using Cons.prems by (simp add: n_def)
  have s: "states = word_of_nat n" by (simp add: states_def n_def)
  then have us: "unat states = n" using n by (simp add: unat_of_nat take_bit_nat_eq_self)
  have "states * 4 = word_of_nat (4 * n)" by (simp add: s mult.commute)
  moreover have "unat (word_of_nat (4 * n) :: uint64) = 4 * n"
    using n by (simp only: unat_of_nat) (simp add: take_bit_nat_eq_self)
  ultimately have uw: "unat (states * 4) = 4 * n" by simp
  have acc: "unat acc \<le> unat limit" by (rule Cons.prems)
  have sub: "unat (limit - acc) = unat limit - unat acc" using acc by (simp add: unat_sub word_le_nat_alt)
  have d: "unat (limit div 4) = unat limit div 4" by (simp add: unat_div)
  show ?case
  proof (cases "unat limit \<le> unat acc + 4 * n")
    case True
    then have "limit - acc \<le> states * 4" by (simp add: word_le_nat_alt sub uw)
    then have "workLimitLoop limit valueBytes (p # ps) acc = limit"
      by (simp add: Let_def globWorkPerState_def states_def [symmetric])
    then show ?thesis using True by (simp add: n_def)
  next
    case False
    then have "\<not> limit - acc \<le> states * 4" using acc by (simp add: word_le_nat_alt sub uw)
    moreover have "\<not> limit div 4 < states" using False by (simp add: word_less_nat_alt d us)
    ultimately have step: "workLimitLoop limit valueBytes (p # ps) acc = workLimitLoop limit valueBytes ps (acc + states * 4)"
      by (simp add: Let_def globWorkPerState_def states_def [symmetric])
    have "unat acc + 4 * n < 2 ^ 64" using False uint64_lt [of limit] by simp
    then have add: "unat (acc + states * 4) = unat acc + 4 * n" using uw by (simp add: unat_word_ariths)
    then have "unat (acc + states * 4) \<le> unat limit" using False by simp
    then show ?thesis using Cons.IH [of "acc + states * 4"] Cons.prems(1) step add by (simp add: n_def)
  qed
qed simp

section \<open>Properties\<close>

lemma match_programs_sound:
  "match_programs ps v w = (True, complete, reason, control) \<Longrightarrow>
     complete \<and> reason = NoReason \<and> (\<exists>p \<in> set ps. glob_lang p v 0 0)"
proof (induction ps arbitrary: w)
  case (Cons p ps)
  obtain r c where rc: "stopReason (gw_control w) = (r, c)" by (cases "stopReason (gw_control w)")
  obtain m k w1 where pm: "program_match p v (w\<lparr>gw_control := c\<rparr>) = (m, k, w1)"
    by (cases "program_match p v (w\<lparr>gw_control := c\<rparr>)")
  have go: "r = NoReason" "k" using Cons.prems rc pm by (auto split: if_splits)
  show ?case
  proof (cases m)
    case True
    have "star_inside v glob_start" by (simp add: star_inside_def glob_start_def)
    then have "glob_lang p v 0 0"
      using glob_loop_sound [OF _ glob_inv_start] pm True by (auto simp: program_match_def)
    then show ?thesis using Cons.prems rc pm go True by (auto split: prod.splits if_splits)
  next
    case False
    then have "match_programs ps v w1 = (True, complete, reason, control)"
      using Cons.prems rc pm go by simp
    then show ?thesis using Cons.IH by auto
  qed
qed (auto split: prod.splits if_splits)

text \<open>
  C28: a glob reports a match only for a value in the language of one of its programs, and then
  the evaluation was complete and was not stopped: neither an exhausted budget nor a
  cancellation can turn into a match.
\<close>

theorem matchWithWork_sound:
  assumes "matchWithWork g v limit control = (True, complete, reason, control')"
  shows "complete \<and> reason = NoReason \<and> (\<exists>p \<in> set (cg_programs g). glob_lang p v 0 0)"
  using assms unfolding matchWithWork_def by (rule match_programs_sound)

theorem matchWithWork_sound_witness:
  "True \<and> NoReason = NoReason
   \<and> (\<exists>p \<in> set (cg_programs \<lparr>cg_programs = [\<lparr>gp_tokens = [GlobStar, GlobLiteral 46, GlobQuestion],
          gp_zero = [False, False, False, True]\<rparr>], cg_workLimit = maxGlobMatchWork\<rparr>).
        glob_lang p ''ab.c'' 0 0)"
  by (rule matchWithWork_sound [where limit = 60 and control = None and control' = None])
    (simp add: matchWithWork_def program_match_def glob_start_def glob_loop.simps glob_take_def
      countdown_def token_step_def star_step_def advance_def decodeRune_ascii slash_def zeroLength_def)

text \<open>
  Without a control, an answer reached within a work limit is the answer under every larger
  limit: the budget can withhold an answer and never changes one.
\<close>

theorem matchWithWork_limit_stable:
  assumes "matchWithWork g v limit None = (matched, True, reason, control)" and "limit \<le> larger"
  shows "matchWithWork g v larger None = (matched, True, reason, control)"
proof -
  define k where "k = unat larger - unat limit"
  have "unat limit \<le> unat larger" using assms(2) by (simp add: word_le_nat_alt)
  then have "\<lparr>gw_remaining = unat larger, gw_control = None, gw_untilPoll = 0, gw_stopped = NoReason\<rparr>
      = more_work k \<lparr>gw_remaining = unat limit, gw_control = None, gw_untilPoll = 0, gw_stopped = NoReason\<rparr>"
    by (simp add: more_work_def k_def)
  then show ?thesis using assms(1) match_programs_more by (simp add: matchWithWork_def)
qed

theorem matchWithWork_limit_stable_witness:
  "matchWithWork \<lparr>cg_programs = [\<lparr>gp_tokens = [GlobDirectories, GlobLiteral 97],
      gp_zero = [False, False, True]\<rparr>], cg_workLimit = maxGlobMatchWork\<rparr> ''x/a'' 100 None
   = (True, True, NoReason, None)"
  by (rule matchWithWork_limit_stable [where limit = 20])
    (simp_all add: matchWithWork_def program_match_def glob_start_def glob_loop.simps glob_take_def
      countdown_def token_step_def star_step_def advance_def decodeRune_ascii slash_def zeroLength_def
      seekSlash.simps)

text \<open>
  The shared work limit is four units per state (one per byte, per token and for the end) of
  every program, capped at the glob's limit, computed without wrap-around in 64 bits.
\<close>

theorem matchWorkLimit_exact:
  assumes "\<forall>p \<in> set (cg_programs g). valueBytes + length (gp_tokens p) + 1 < 2 ^ 62"
  shows "unat (matchWorkLimit g valueBytes)
    = min (unat (cg_workLimit g)) (\<Sum>p\<leftarrow>cg_programs g. 4 * (valueBytes + length (gp_tokens p) + 1))"
  using workLimitLoop_exact [OF assms, of 0 "cg_workLimit g"] by (simp add: matchWorkLimit_def)

theorem matchWorkLimit_exact_witness:
  "unat (matchWorkLimit \<lparr>cg_programs = [\<lparr>gp_tokens = [GlobStar], gp_zero = [True, True]\<rparr>],
       cg_workLimit = maxGlobMatchWork\<rparr> 10)
   = min (unat (cg_workLimit \<lparr>cg_programs = [\<lparr>gp_tokens = [GlobStar], gp_zero = [True, True]\<rparr>],
       cg_workLimit = maxGlobMatchWork\<rparr>))
      (\<Sum>p\<leftarrow>cg_programs \<lparr>cg_programs = [\<lparr>gp_tokens = [GlobStar], gp_zero = [True, True]\<rparr>],
       cg_workLimit = maxGlobMatchWork\<rparr>. 4 * (10 + length (gp_tokens p) + 1))"
  by (rule matchWorkLimit_exact) simp

section \<open>The stops of a match\<close>

text \<open>How the work budget carries a stop: it is recorded once, and nothing is polled after it.\<close>

definition work_ran :: "glob_work \<Rightarrow> bool \<Rightarrow> glob_work \<Rightarrow> bool" where
  "work_ran w finished w' \<longleftrightarrow>
     ran (gw_control w) (gw_stopped w') (gw_control w') \<and> (finished \<longrightarrow> gw_stopped w' = NoReason)"

lemma work_ran_trans: "work_ran w True w' \<Longrightarrow> work_ran w' b w'' \<Longrightarrow> work_ran w b w''"
  using ran_trans unfolding work_ran_def by force

lemma work_ran_refl: "gw_stopped w = NoReason \<Longrightarrow> work_ran w b w"
  by (simp add: work_ran_def)

lemma take_ran: "glob_take w = (ok, w') \<Longrightarrow> gw_stopped w = NoReason \<Longrightarrow> work_ran w ok w'"
  using ran_stopReason by (auto simp: glob_take_def work_ran_def countdown_def split: if_splits prod.splits)

lemma work_ran_stopped: "work_ran w True w' \<Longrightarrow> gw_stopped w' = NoReason"
  by (simp add: work_ran_def)

definition seek_finished :: "seek \<Rightarrow> bool" where
  "seek_finished s \<longleftrightarrow> (case s of SeekExhausted w \<Rightarrow> False | _ \<Rightarrow> True)"

lemma seek_finished_simps [simp]:
  "seek_finished (SeekFound n w)" "seek_finished (SeekEnd w)" "\<not> seek_finished (SeekExhausted w)"
  by (simp_all add: seek_finished_def)

lemma seekSlash_ran:
  "gw_stopped w = NoReason \<Longrightarrow> work_ran w (seek_finished (seekSlash v n w)) (seek_work (seekSlash v n w))"
proof (induction v n w rule: seekSlash.induct)
  case (1 v n w)
  obtain ok w1 where t: "glob_take w = (ok, w1)" by (cases "glob_take w")
  obtain c k where ck: "decodeRune (drop n v) = (c, k)" by (cases "decodeRune (drop n v)")
  note r = take_ran [OF t 1(2)]
  show ?case
  proof (cases "n < length v \<and> ok \<and> c \<noteq> slash")
    case True
    then have "work_ran w1 (seek_finished (seekSlash v (n + k) w1)) (seek_work (seekSlash v (n + k) w1))"
      using 1(1) [OF _ t [symmetric] _ ck [symmetric]] r work_ran_stopped by simp
    then show ?thesis using True t ck work_ran_trans r by (simp add: seekSlash.simps [of v n w])
  next
    case False
    then show ?thesis using t ck r 1(2) work_ran_refl by (auto simp: seekSlash.simps [of v n w])
  qed
qed

lemma glob_loop_ran:
  "gw_stopped w = NoReason \<Longrightarrow>
     work_ran w (fst (snd (glob_loop p v s w))) (snd (snd (glob_loop p v s w)))"
proof (induction p v s w rule: glob_loop.induct)
  case (1 p v s w)
  obtain ok w1 where t: "glob_take w = (ok, w1)" by (cases "glob_take w")
  note r = take_ran [OF t 1(4)]
  let ?ran = "\<lambda>w x. work_ran w (fst (snd x)) (snd (snd x))"
  show ?case
  proof (cases "ok \<and> gs_name s < length v")
    case False
    then show ?thesis using t r by (auto simp: glob_loop.simps [of p v s w])
  next
    case True
    then have ok: "ok" "\<not> \<not> ok" "\<not> \<not> gs_name s < length v" and r: "work_ran w True w1" using r by simp_all
    note stopped = work_ran_stopped [OF r]
    show ?thesis
    proof (cases "token_step p v s")
      case TokenAccept
      then show ?thesis using t r ok by (simp add: glob_loop.simps [of p v s w])
    next
      case (TokenContinue s')
      have "?ran w1 (glob_loop p v s' w1)" by (rule 1(1) [OF t [symmetric] ok(2,3) TokenContinue stopped])
      then show ?thesis using t ok TokenContinue work_ran_trans [OF r] by (simp add: glob_loop.simps [of p v s w])
    next
      case TokenFail
      show ?thesis
      proof (cases "star_step v s")
        case (Some s')
        have "?ran w1 (glob_loop p v s' w1)" by (rule 1(3) [OF t [symmetric] ok(2,3) TokenFail Some stopped])
        then show ?thesis using t ok TokenFail Some work_ran_trans [OF r] by (simp add: glob_loop.simps [of p v s w])
      next
        case None
        show ?thesis
        proof (cases "gs_dirPattern s")
          case None2: None
          then show ?thesis using t r ok TokenFail None by (simp add: glob_loop.simps [of p v s w])
        next
          case (Some d)
          have k: "work_ran w (seek_finished (seekSlash v (gs_dirName s) w1)) (seek_work (seekSlash v (gs_dirName s) w1))"
            by (rule work_ran_trans [OF r seekSlash_ran [OF stopped]])
          show ?thesis
          proof (cases "seekSlash v (gs_dirName s) w1")
            case (SeekFound m w2)
            have k: "work_ran w True w2" using k SeekFound by simp
            have "?ran w2 (glob_loop p v (s\<lparr>gs_name := m, gs_dirName := m, gs_pattern := d\<rparr>) w2)"
              by (rule 1(2) [OF t [symmetric] ok(2,3) TokenFail None Some SeekFound work_ran_stopped [OF k]])
            then show ?thesis using t ok TokenFail None Some SeekFound work_ran_trans [OF k]
              by (simp add: glob_loop.simps [of p v s w])
          qed (use t ok TokenFail None Some k in \<open>simp_all add: glob_loop.simps [of p v s w]\<close>)
        qed
      qed
    qed
  qed
qed

lemma match_programs_ran:
  "match_programs ps v w = (m, finished, r, control) \<Longrightarrow> gw_stopped w = NoReason \<Longrightarrow>
     ran (gw_control w) r control \<and> (finished \<longrightarrow> r = NoReason)"
proof (induction ps v w rule: match_programs.induct)
  case (1 v w)
  then show ?case using ran_stopReason by (auto split: prod.splits if_splits)
next
  case (2 p ps v w)
  obtain r1 c1 where s1: "stopReason (gw_control w) = (r1, c1)" by (cases "stopReason (gw_control w)")
  note ran1 = ran_stopReason [OF s1]
  show ?case
  proof (cases "r1 = NoReason")
    case False
    then show ?thesis using 2(2) s1 ran1 by simp
  next
    case True
    obtain m1 f1 w1 where l: "program_match p v (w\<lparr>gw_control := c1\<rparr>) = (m1, f1, w1)"
      by (cases "program_match p v (w\<lparr>gw_control := c1\<rparr>)")
    have "work_ran (w\<lparr>gw_control := c1\<rparr>) f1 w1"
      using glob_loop_ran [of "w\<lparr>gw_control := c1\<rparr>" p v glob_start] l 2(3) by (simp add: program_match_def)
    then have ran2: "ran (gw_control w) (gw_stopped w1) (gw_control w1)" "f1 \<Longrightarrow> gw_stopped w1 = NoReason"
      using ran1 True ran_trans by (auto simp: work_ran_def)
    show ?thesis
    proof (cases "\<not> f1 \<or> m1")
      case c: True
      then show ?thesis using 2(2) s1 True l ran2 ran_trans ran_stopReason
        by (auto split: prod.splits if_splits)
    next
      case False
      then have f: "\<not> \<not> f1" "\<not> m1" by auto
      have run: "match_programs ps v w1 = (m, finished, r, control)" using 2(2) s1 True l f by simp
      have "ran (gw_control w1) r control \<and> (finished \<longrightarrow> r = NoReason)"
        by (rule 2(1) [OF s1 [symmetric] _ l [symmetric] refl f run]) (use True ran2(2) f in simp_all)
      then show ?thesis using ran2 f ran_trans by metis
    qed
  qed
qed

lemma glob_match_ran:
  "glob_matchWithControl g v a = (m, finished, r, b) \<Longrightarrow> ran a r b \<and> (finished \<longrightarrow> r = NoReason)"
  using match_programs_ran
  by (fastforce simp: glob_matchWithControl_def matchWithWork_def split: option.splits)

end
