(* ===== verification/Action_Request.thy ===== *)
theory Action_Request
  imports Action_Pointer Action_Glob
begin

text \<open>
  The records that an evaluation reads and returns (evaluator_types.go) and the compiled
  condition trees of a plan (types.go). A pointer of the code is an option, the zero of a
  string-valued enumeration is the constructor that holds the empty string.
\<close>

section \<open>Requests\<close>

record context_value =
  ctx_name :: string
  ctx_value :: json_value
  ctx_provenance :: provenance
  ctx_available :: bool

record request =
  req_format_version :: string
  req_call_id :: string
  req_transport :: transport
  req_platform :: platform
  req_server_label :: string
  req_server_fingerprint :: string
  req_tool :: string
  req_tool_contract_digest :: string
  req_phase :: phase
  req_repository_identity :: string
  req_policy_digest :: string
  req_lock_digest :: string
  req_authority_mode :: authority_mode
  req_arguments :: "json_value option"
  req_result :: "json_value option"
  req_progress :: "json_value option"
  req_context :: "context_value list"
  req_completeness :: completeness
  req_deadline :: deadline_state
  req_state_version :: string

record approval_snapshot =
  aps_status :: approval_status
  aps_identity :: string

record taint_snapshot =
  tns_status :: taint_status
  tns_identity :: string

text \<open>\<open>Candidates\<close> is a slice whose nil the code tells apart from the empty one.\<close>

record budget_snapshot =
  bsn_state_version :: string
  bsn_identity :: string
  bsn_reservation_identity :: string
  bsn_complete :: bool
  bsn_candidates :: "budget_candidate list option"

definition bsn_list :: "budget_snapshot \<Rightarrow> budget_candidate list" where
  "bsn_list s = (case bsn_candidates s of None \<Rightarrow> [] | Some cs \<Rightarrow> cs)"

record identity_snapshot =
  ids_plan_identity :: string
  ids_source_identity :: string
  ids_policy_digest :: string
  ids_lock_digest :: string
  ids_authority_mode :: authority_mode
  ids_server_label :: string
  ids_server_fingerprint :: string
  ids_tool_contract_digest :: string
  ids_executable_digest :: string
  ids_repository_identity :: string
  ids_context_identity :: string
  ids_principal :: string
  ids_credential_labels :: "string list"
  ids_state_version :: string
  ids_budget_identity :: string
  ids_reservation_identity :: string
  ids_approval_identity :: string
  ids_taint_identity :: string
  ids_repository_effect_identity :: string
  ids_inspection_identity :: string

record repository_effect_candidate =
  rec_decision :: decision
  rec_reason :: reason_code
  rec_rule_ids :: "string list"
  rec_identity :: string
  rec_complete :: bool

datatype inspection_status =
  InspectionClean | InspectionMatched | InspectionIncomplete | InspectionStatusOther string

datatype schema_status =
  InspectionSchemaNotApplicable | InspectionSchemaNotDeclared | InspectionSchemaValid
  | InspectionSchemaInvalid | InspectionSchemaRequired | InspectionSchemaOther string

record field_evidence =
  fev_source :: value_source
  fev_pointer_identity :: string
  fev_value_identity :: string
  fev_byte_length :: uint64
  fev_item_count :: uint32

record content_evidence =
  cev_content_type :: string
  cev_identity :: string
  cev_byte_length :: uint64

record inspection_evidence =
  iev_status :: inspection_status
  iev_identity :: string
  iev_decision :: decision
  iev_reason :: reason_code
  iev_rule_ids :: "string list"
  iev_categories :: "string list"
  iev_pack_identities :: "string list"
  iev_schema_status :: schema_status
  iev_schema_identity :: string
  iev_fields :: "field_evidence list"
  iev_unsupported_content :: "content_evidence list"
  iev_scanned_bytes :: uint64
  iev_scanned_items :: uint32

record evaluation_input =
  inp_request :: request
  inp_source_identity :: string
  inp_context_identity :: string
  inp_executable_digest :: string
  inp_principal :: string
  inp_credential_labels :: "string list"
  inp_budget :: budget_snapshot
  inp_approval :: approval_snapshot
  inp_taint :: taint_snapshot
  inp_repository_effect :: "repository_effect_candidate option"
  inp_inspection :: "inspection_evidence option"
  inp_lifecycle :: lifecycle_state
  inp_cache_policy_version :: string
  inp_resampled :: identity_snapshot

section \<open>Results\<close>

record operand_summary =
  sum_pointer_state :: pointer_state
  sum_kind :: value_kind
  sum_byte_length :: nat
  sum_item_count :: nat

definition noSummary :: operand_summary where
  "noSummary = \<lparr>sum_pointer_state = PointerUnset, sum_kind = ValueKindUnset, sum_byte_length = 0,
     sum_item_count = 0\<rparr>"

record trace_entry =
  tre_rule_id :: string
  tre_tool_id :: string
  tre_selector :: selector_state
  tre_condition :: condition_state
  tre_decision :: decision
  tre_reason :: reason_code
  tre_actual :: provenance
  tre_required :: provenance
  tre_complete :: bool
  tre_operand :: operand_summary
  tre_omitted :: nat

datatype cache_reason =
  CacheEligible | CachePolicyNever | CacheRuleNever | CacheIdentityMissing | CacheIdentityDrift
  | CacheContextUnresolved | CacheStateStale | CacheApprovalPending | CacheEvidenceTainted
  | CacheEvidenceIncomplete | CacheFailureResult | CacheLifecycleInactive | CacheReasonUnset

record cache_result =
  car_eligible :: bool
  car_reason :: cache_reason
  car_identity :: string

definition noCache :: cache_result where
  "noCache = \<lparr>car_eligible = False, car_reason = CacheReasonUnset, car_identity = []\<rparr>"

text \<open>A message; \<open>Named\<close> is one formatted with the name of a declaration.\<close>

datatype failure_text = Plain string | Named string string

record evaluation_failure =
  fail_code :: reason_code
  fail_message :: failure_text

record evaluation_result =
  res_decision :: decision
  res_reason :: reason_code
  res_tool_id :: string
  res_matched_rule_ids :: "string list"
  res_candidates :: "candidate list"
  res_budget_candidates :: "budget_candidate list"
  res_trace :: "trace_entry list"
  res_trace_complete :: bool
  res_trace_omitted :: nat
  res_completeness :: completeness
  res_policy_digest :: string
  res_lock_digest :: string
  res_plan_identity :: string
  res_source_identity :: string
  res_cache :: cache_result
  res_required_approval_identity :: string
  res_inspection :: "inspection_evidence option"
  res_phase_outcome :: phase_outcome
  res_failure :: "evaluation_failure option"

text \<open>A \<open>RequestError\<close>.\<close>

record request_error =
  rqe_code :: reason_code
  rqe_message :: failure_text

definition request_failure :: "reason_code \<Rightarrow> string \<Rightarrow> request_error" where
  "request_failure code message = \<lparr>rqe_code = code, rqe_message = Plain message\<rparr>"

section \<open>Compiled conditions\<close>

record predicate_spec =
  prd_source :: value_source
  prd_pointer :: string
  prd_minimum_provenance :: provenance
  prd_op :: operator
  prd_value :: "json_value option"

record url_constraint =
  urc_schemes :: "string list"
  urc_hosts :: "string list"
  urc_ports :: "16 word list"
  urc_path_prefixes :: "string list"
  urc_allow_query :: bool
  urc_allow_ip_literal :: bool

text \<open>An address and a prefix of package net/netip: a family and its bits.\<close>

datatype ip_addr = Addr4 "32 word" | Addr6 "128 word"

record ip_prefix =
  pfx_addr :: ip_addr
  pfx_bits :: nat

datatype path_style = PathRepository | PathPOSIX | PathWindows | PathStyleOther string

record path_constraint =
  pac_style :: path_style
  pac_base :: string
  pac_case_sensitive :: bool
  pac_match_base :: string
  pac_match_volume :: string
  pac_match_prefix :: string
  pac_prepared :: bool

text \<open>A compiled regular expression is the matcher it denotes.\<close>

record compiled_predicate =
  cpr_predicate :: predicate_spec
  cpr_tokens :: "string list"
  cpr_regex :: "(string \<Rightarrow> bool) option"
  cpr_glob :: "compiled_glob option"
  cpr_url :: "url_constraint option"
  cpr_cidrs :: "ip_prefix list"
  cpr_path :: "path_constraint option"

datatype compiled_condition =
  CompiledCondition (cnd_kind: condition_kind) (cnd_children: "compiled_condition option list")
    (cnd_predicate: "compiled_predicate option")

record rule_spec =
  rul_id :: string
  rul_selector :: selector
  rul_decision :: decision
  rul_on_indeterminate :: decision
  rul_cache :: cache_policy
  rul_source_identity :: string

record compiled_rule =
  cru_rule :: rule_spec
  cru_condition :: "compiled_condition option"

end
