(* ===== verification/Action_Targets.thy ===== *)
theory Action_Targets
  imports Action_Request
begin

text \<open>
  The targets a predicate may constrain: paths, URLs and addresses (predicate_eval.go, with
  the normalizers of predicate.go), and the binary searches over canonical lists. The lemmas
  show that a path is within a base exactly when the base's segments start its segments, and
  that the searches are membership.
\<close>

section \<open>The standard library\<close>

text \<open>
  What the code takes from packages strings, net/url and net/netip and that rests on large
  tables or parsers of the library: Unicode lower case, the URL parser and the address parser
  with its printer. Everything computed from their results is defined below.
\<close>

record parsed_url =
  url_scheme :: string
  url_host :: string
  url_opaque :: string
  url_has_user :: bool
  url_fragment :: string
  url_hostname :: string
  url_port :: string
  url_escaped_path :: string
  url_raw_query :: string
  url_force_query :: bool

record stdlib =
  lib_toLower :: "string \<Rightarrow> string"
  lib_parseURL :: "string \<Rightarrow> parsed_url option"
  lib_parseAddr :: "string \<Rightarrow> (ip_addr \<times> string) option"
  lib_addrString :: "ip_addr \<Rightarrow> string"

fun is4 :: "ip_addr \<Rightarrow> bool" where
  "is4 (Addr4 w) = True"
| "is4 (Addr6 w) = False"

text \<open>\<open>Unmap\<close>: an IPv4-mapped IPv6 address is the IPv4 address in its low 32 bits.\<close>

fun unmap :: "ip_addr \<Rightarrow> ip_addr" where
  "unmap (Addr4 w) = Addr4 w"
| "unmap (Addr6 w) = (if drop_bit 32 w = 0xFFFF then Addr4 (ucast w) else Addr6 w)"

fun addr_width :: "ip_addr \<Rightarrow> nat" where
  "addr_width (Addr4 w) = 32"
| "addr_width (Addr6 w) = 128"

text \<open>\<open>Masked\<close> clears the bits behind the prefix; an invalid prefix has no masked form.\<close>

definition prefix_masked :: "ip_prefix \<Rightarrow> ip_prefix option" where
  "prefix_masked p =
     (let host = addr_width (pfx_addr p) - pfx_bits p
      in if addr_width (pfx_addr p) < pfx_bits p then None
         else Some (p\<lparr>pfx_addr := (case pfx_addr p of
             Addr4 w \<Rightarrow> Addr4 (push_bit host (drop_bit host w))
           | Addr6 w \<Rightarrow> Addr6 (push_bit host (drop_bit host w)))\<rparr>))"

definition prefix_contains :: "ip_prefix \<Rightarrow> ip_addr \<Rightarrow> bool" where
  "prefix_contains p address =
     (case (pfx_addr p, address) of
        (Addr4 v, Addr4 w) \<Rightarrow> drop_bit (32 - pfx_bits p) v = drop_bit (32 - pfx_bits p) w
      | (Addr6 v, Addr6 w) \<Rightarrow> drop_bit (128 - pfx_bits p) v = drop_bit (128 - pfx_bits p) w
      | _ \<Rightarrow> False)"

definition hexValue :: "char \<Rightarrow> nat option" where
  "hexValue c =
     (let n = of_char c :: nat
      in if 48 \<le> n \<and> n \<le> 57 then Some (n - 48)
         else if 97 \<le> n \<and> n \<le> 102 then Some (n - 87)
         else if 65 \<le> n \<and> n \<le> 70 then Some (n - 55)
         else None)"

text \<open>\<open>strconv.ParseUint(text, 16, 8)\<close> on the two bytes after a percent sign.\<close>

definition hexByte :: "char \<Rightarrow> char \<Rightarrow> nat option" where
  "hexByte a b =
     (case (hexValue a, hexValue b) of (Some x, Some y) \<Rightarrow> Some (16 * x + y) | _ \<Rightarrow> None)"

text \<open>\<open>url.PathUnescape\<close>.\<close>

fun pathUnescape :: "string \<Rightarrow> string option" where
  "pathUnescape [] = Some []"
| "pathUnescape (c # cs) =
     (if c \<noteq> CHR ''%'' then map_option ((#) c) (pathUnescape cs)
      else case cs of
          a # b # rest \<Rightarrow>
            (case hexByte a b of
               None \<Rightarrow> None
             | Some n \<Rightarrow> map_option ((#) (char_of n)) (pathUnescape rest))
        | _ \<Rightarrow> None)"

section \<open>Paths\<close>

definition backslash :: char where "backslash = CHR 0x5C"

definition validateCanonicalPathSegments :: "string \<Rightarrow> bool \<Rightarrow> bool" where
  "validateCanonicalPathSegments v allowEmptyRoot \<longleftrightarrow>
     v = [] \<and> allowEmptyRoot
     \<or> (\<forall>segment \<in> set (splitAt (CHR ''/'') v). segment \<noteq> [] \<and> segment \<noteq> ''.'' \<and> segment \<noteq> ''..'')"

definition upperAscii :: "char \<Rightarrow> char" where
  "upperAscii c =
     (if 97 \<le> (of_char c :: nat) \<and> (of_char c :: nat) \<le> 122 then char_of ((of_char c :: nat) - 32) else c)"

definition is_letter :: "char \<Rightarrow> bool" where
  "is_letter c \<longleftrightarrow>
     65 \<le> (of_char c :: nat) \<and> (of_char c :: nat) \<le> 90 \<or> 97 \<le> (of_char c :: nat) \<and> (of_char c :: nat) \<le> 122"

text \<open>The pattern \<open>^[A-Za-z]:/\<close>.\<close>

definition windowsDrivePattern :: "string \<Rightarrow> bool" where
  "windowsDrivePattern s \<longleftrightarrow>
     3 \<le> length s \<and> is_letter (s ! 0) \<and> s ! 1 = CHR '':'' \<and> s ! 2 = CHR ''/''"

definition normalizeWindowsPathBase :: "string \<Rightarrow> string option" where
  "normalizeWindowsPathBase raw =
     (let normalized = map (\<lambda>c. if c = backslash then CHR ''/'' else c) raw
      in if containsControl normalized then None
         else if hasPrefix normalized ''//'' then
           (let parts = splitAt (CHR ''/'') (trimPrefix normalized ''//'')
            in if length parts < 2 \<or> parts ! 0 = [] \<or> parts ! 1 = [] then None
               else if \<not> validateCanonicalPathSegments (joinWith (CHR ''/'') parts) False
                      \<or> CHR '':'' \<in> set normalized then None
               else Some (''//'' @ joinWith (CHR ''/'') parts))
         else if \<not> windowsDrivePattern normalized \<or> CHR '':'' \<in> set (drop 2 normalized) then None
         else if \<not> validateCanonicalPathSegments (drop 3 normalized) True then None
         else Some (upperAscii (hd normalized) # tl normalized))"

definition normalizeRuntimePath :: "string \<Rightarrow> path_style \<Rightarrow> (string \<times> string) option" where
  "normalizeRuntimePath raw style =
     (if raw = [] \<or> \<not> validString raw \<or> containsControl raw then None
      else case style of
          PathRepository \<Rightarrow>
            if hasPrefix raw ''/'' \<or> backslash \<in> set raw \<or> CHR '':'' \<in> set raw
               \<or> \<not> validateCanonicalPathSegments raw False then None
            else Some (raw, [])
        | PathPOSIX \<Rightarrow>
            if \<not> hasPrefix raw ''/'' \<or> hasPrefix raw ''//'' \<or> backslash \<in> set raw
               \<or> \<not> validateCanonicalPathSegments (trimPrefix raw ''/'') True then None
            else Some (raw, ''/'')
        | PathWindows \<Rightarrow>
            (case normalizeWindowsPathBase raw of
               None \<Rightarrow> None
             | Some normalized \<Rightarrow>
                 if hasPrefix normalized ''//'' then
                   (let parts = splitAt (CHR ''/'') (trimPrefix normalized ''//'')
                    in Some (normalized, ''//'' @ parts ! 0 @ ''/'' @ parts ! 1))
                 else Some (normalized, map upperAscii (take 2 normalized)))
        | PathStyleOther s \<Rightarrow> None)"

definition preparePathConstraint :: "stdlib \<Rightarrow> path_constraint \<Rightarrow> path_constraint option" where
  "preparePathConstraint lib constraint =
     (case normalizeRuntimePath (pac_base constraint) (pac_style constraint) of
        None \<Rightarrow> None
      | Some (base, volume) \<Rightarrow>
          let base = (if pac_case_sensitive constraint then base else lib_toLower lib base);
              volume = (if pac_case_sensitive constraint then volume else lib_toLower lib volume)
          in Some (constraint\<lparr>pac_match_base := base, pac_match_volume := volume,
               pac_match_prefix := trimSuffix base ''/'' @ ''/'', pac_prepared := True\<rparr>))"

definition conditionFromBool :: "bool \<Rightarrow> condition_state" where
  "conditionFromBool b = (if b then ConditionTrue else ConditionFalse)"

definition matchPathConstraint :: "stdlib \<Rightarrow> string \<Rightarrow> path_constraint \<Rightarrow> condition_state" where
  "matchPathConstraint lib raw constraint =
     (case normalizeRuntimePath raw (pac_style constraint) of
        None \<Rightarrow> ConditionIndeterminate
      | Some (target, targetVolume) \<Rightarrow>
          (case (if pac_prepared constraint then Some constraint else preparePathConstraint lib constraint) of
             None \<Rightarrow> ConditionIndeterminate
           | Some constraint \<Rightarrow>
               let target = (if pac_case_sensitive constraint then target else lib_toLower lib target);
                   targetVolume = (if pac_case_sensitive constraint then targetVolume
                                   else lib_toLower lib targetVolume)
               in if targetVolume \<noteq> pac_match_volume constraint then ConditionIndeterminate
                  else if target = pac_match_base constraint then ConditionTrue
                  else conditionFromBool (hasPrefix target (pac_match_prefix constraint))))"

section \<open>Sorted lists of texts and ports\<close>

text \<open>The hand-written binary searches of the evaluator, \<open>containsSorted\<close> and \<open>containsPort\<close>.\<close>

definition containsSorted :: "'a :: linorder list \<Rightarrow> 'a \<Rightarrow> bool" where
  "containsSorted values want =
     (let low = search_from (\<lambda>middle. \<not> values ! middle < want) 0 (length values)
      in low < length values \<and> values ! low = want)"

definition containsPort :: "16 word list \<Rightarrow> 16 word \<Rightarrow> bool" where
  "containsPort values want =
     (let low = search_from (\<lambda>middle. \<not> values ! middle < want) 0 (length values)
      in low < length values \<and> values ! low = want)"

definition sortContext :: "context_value list \<Rightarrow> string \<Rightarrow> nat option" where
  "sortContext context name =
     (let low = search_from (\<lambda>middle. \<not> ctx_name (context ! middle) < name) 0 (length context)
      in if low = length context \<or> ctx_name (context ! low) \<noteq> name then None else Some low)"

section \<open>URLs and addresses\<close>

record url_target =
  utg_scheme :: string
  utg_host :: string
  utg_port :: "16 word"
  utg_path :: string
  utg_ip_literal :: bool
  utg_query :: bool

definition hostByte :: "char \<Rightarrow> bool" where
  "hostByte c \<longleftrightarrow>
     97 \<le> (of_char c :: nat) \<and> (of_char c :: nat) \<le> 122 \<or> 48 \<le> (of_char c :: nat) \<and> (of_char c :: nat) \<le> 57
     \<or> c \<in> {CHR ''.'', CHR '':'', CHR ''-''}"

text \<open>The pattern \<open>^[a-z0-9.:-]+$\<close>.\<close>

definition asciiHostPattern :: "string \<Rightarrow> bool" where
  "asciiHostPattern s \<longleftrightarrow> s \<noteq> [] \<and> (\<forall>c \<in> set s. hostByte c)"

definition onlyDigitsAndDots :: "string \<Rightarrow> bool" where
  "onlyDigitsAndDots v \<longleftrightarrow> (\<forall>character \<in> set (runes v). character = 46 \<or> 48 \<le> character \<and> character \<le> 57)"

definition dnsLabel :: "string \<Rightarrow> bool" where
  "dnsLabel label \<longleftrightarrow>
     label \<noteq> [] \<and> length label \<le> 63 \<and> hd label \<noteq> CHR ''-'' \<and> last label \<noteq> CHR ''-''"

definition normalizeConstraintHost :: "stdlib \<Rightarrow> string \<Rightarrow> string option" where
  "normalizeConstraintHost lib host =
     (let host = lib_toLower lib host; trimmed = trimSuffix host ''.''
      in if hasSuffix host ''.'' \<and> lib_parseAddr lib trimmed \<noteq> None then None
         else
           (let host = (if hasSuffix host ''.'' then trimmed else host)
            in if host = [] \<or> 253 < length host \<or> \<not> asciiHostPattern host then None
               else case lib_parseAddr lib host of
                   Some (address, zone) \<Rightarrow>
                     if zone \<noteq> [] then None else Some (lib_addrString lib (unmap address))
                 | None \<Rightarrow>
                     if CHR '':'' \<in> set host \<or> onlyDigitsAndDots host then None
                     else if \<exists>label \<in> set (splitAt (CHR ''.'') host). \<not> dnsLabel label then None
                     else Some host))"

fun containsAmbiguousPercentEscape :: "string \<Rightarrow> bool" where
  "containsAmbiguousPercentEscape [] = False"
| "containsAmbiguousPercentEscape (c # cs) =
     (if c \<noteq> CHR ''%'' then containsAmbiguousPercentEscape cs
      else case cs of
          a # b # rest \<Rightarrow>
            (case hexByte a b of
               None \<Rightarrow> True
             | Some decoded \<Rightarrow>
                 if decoded \<in> {47, 92, 0, 37, 127} \<or> decoded < 32 then True
                 else containsAmbiguousPercentEscape rest)
        | _ \<Rightarrow> True)"

fun validPercentEncoding :: "string \<Rightarrow> bool" where
  "validPercentEncoding [] = True"
| "validPercentEncoding (c # cs) =
     (if c \<noteq> CHR ''%'' then validPercentEncoding cs
      else case cs of
          a # b # rest \<Rightarrow> if hexByte a b = None then False else validPercentEncoding rest
        | _ \<Rightarrow> False)"

text \<open>One decoded segment of a URL path, as both the target and the constraint require it.\<close>

definition urlSegment :: "string \<Rightarrow> string option" where
  "urlSegment segment =
     (if segment = [] \<or> containsAmbiguousPercentEscape segment then None
      else case pathUnescape segment of
          None \<Rightarrow> None
        | Some decoded \<Rightarrow>
            if \<not> validString decoded \<or> decoded = ''.'' \<or> decoded = ''..'' \<or> containsControl decoded
               \<or> CHR ''/'' \<in> set decoded \<or> backslash \<in> set decoded then None
            else Some decoded)"

fun urlSegments :: "string list \<Rightarrow> string list option" where
  "urlSegments [] = Some []"
| "urlSegments (s # ss) =
     (case urlSegment s of
        None \<Rightarrow> None
      | Some d \<Rightarrow> (case urlSegments ss of None \<Rightarrow> None | Some ds \<Rightarrow> Some (d # ds)))"

definition normalizedURLPath :: "parsed_url \<Rightarrow> string option" where
  "normalizedURLPath parsed =
     (let escaped = url_escaped_path parsed
      in if escaped = [] then Some ''/''
         else if \<not> hasPrefix escaped ''/'' \<or> hasPrefix escaped ''//'' then None
         else if escaped = ''/'' then Some escaped
         else case urlSegments (splitAt (CHR ''/'') (trimPrefix escaped ''/'')) of
             None \<Rightarrow> None
           | Some segments \<Rightarrow> Some (CHR ''/'' # joinWith (CHR ''/'') segments))"

definition normalizeURLPathPrefix :: "string \<Rightarrow> string option" where
  "normalizeURLPathPrefix raw =
     (if \<not> hasPrefix raw ''/'' \<or> hasPrefix raw ''//'' \<or> containsControl raw \<or> backslash \<in> set raw then None
      else if raw = ''/'' then Some raw
      else case urlSegments (splitAt (CHR ''/'') (trimPrefix raw ''/'')) of
          None \<Rightarrow> None
        | Some segments \<Rightarrow> Some (CHR ''/'' # joinWith (CHR ''/'') segments))"

text \<open>\<open>strconv.ParseUint(text, 10, 16)\<close>.\<close>

definition parsePort :: "string \<Rightarrow> nat option" where
  "parsePort digits =
     (if digits \<noteq> [] \<and> all_digits digits \<and> digits_value digits \<le> 65535 then Some (digits_value digits) else None)"

definition normalizedURLPort :: "parsed_url \<Rightarrow> string \<Rightarrow> (16 word) option" where
  "normalizedURLPort parsed scheme =
     (if url_port parsed \<noteq> [] then
        (case parsePort (url_port parsed) of
           None \<Rightarrow> None
         | Some port \<Rightarrow> if 0 < port then Some (word_of_nat port) else None)
      else if CHR '':'' \<in> set (url_host parsed) \<and> \<not> hasSuffix (url_host parsed) '']'' then None
      else if scheme = ''http'' then Some 80
      else if scheme = ''https'' then Some 443
      else None)"

definition normalizeURLTarget :: "stdlib \<Rightarrow> string \<Rightarrow> url_target option" where
  "normalizeURLTarget lib raw =
     (if raw = [] \<or> \<not> validString raw \<or> containsControl raw \<or> backslash \<in> set raw \<or> CHR ''#'' \<in> set raw
      then None
      else case lib_parseURL lib raw of
          None \<Rightarrow> None
        | Some parsed \<Rightarrow>
            if url_scheme parsed = [] \<or> url_host parsed = [] \<or> url_opaque parsed \<noteq> []
               \<or> url_has_user parsed \<or> url_fragment parsed \<noteq> [] then None
            else if url_hostname parsed = [] \<or> CHR ''%'' \<in> set (url_hostname parsed) then None
            else
              (let scheme = lib_toLower lib (url_scheme parsed)
               in case normalizeConstraintHost lib (url_hostname parsed) of
                    None \<Rightarrow> None
                  | Some host \<Rightarrow>
                      (case (normalizedURLPort parsed scheme, normalizedURLPath parsed) of
                         (Some port, Some path) \<Rightarrow>
                           if \<not> validPercentEncoding (url_raw_query parsed) then None
                           else Some \<lparr>utg_scheme = scheme, utg_host = host, utg_port = port,
                                  utg_path = path, utg_ip_literal = (lib_parseAddr lib host \<noteq> None),
                                  utg_query = (url_force_query parsed \<or> url_raw_query parsed \<noteq> [])\<rparr>
                       | _ \<Rightarrow> None)))"

definition matchesAnyPathPrefix :: "string \<Rightarrow> string list \<Rightarrow> bool" where
  "matchesAnyPathPrefix v prefixes \<longleftrightarrow>
     (\<exists>prefix \<in> set prefixes.
        v = prefix \<or> prefix = ''/'' \<or> hasPrefix v (trimSuffix prefix ''/'' @ ''/''))"

definition matchURLConstraint :: "stdlib \<Rightarrow> string \<Rightarrow> url_constraint \<Rightarrow> condition_state" where
  "matchURLConstraint lib raw constraint =
     (case normalizeURLTarget lib raw of
        None \<Rightarrow> ConditionIndeterminate
      | Some target \<Rightarrow>
          if \<not> containsSorted (urc_schemes constraint) (utg_scheme target)
             \<or> \<not> containsSorted (urc_hosts constraint) (utg_host target) then ConditionFalse
          else if utg_ip_literal target \<and> \<not> urc_allow_ip_literal constraint then ConditionFalse
          else if 0 < length (urc_ports constraint) \<and> \<not> containsPort (urc_ports constraint) (utg_port target)
          then ConditionFalse
          else if 0 < length (urc_path_prefixes constraint)
                  \<and> \<not> matchesAnyPathPrefix (utg_path target) (urc_path_prefixes constraint)
          then ConditionFalse
          else if utg_query target \<and> \<not> urc_allow_query constraint then ConditionFalse
          else ConditionTrue)"

fun matchPrefixes :: "ip_addr \<Rightarrow> ip_prefix list \<Rightarrow> condition_state" where
  "matchPrefixes address [] = ConditionFalse"
| "matchPrefixes address (p # ps) =
     (case prefix_masked p of
        None \<Rightarrow> matchPrefixes address ps
      | Some prefix \<Rightarrow>
          if is4 (pfx_addr prefix) \<noteq> is4 address then matchPrefixes address ps
          else if prefix_contains prefix address then ConditionTrue
          else matchPrefixes address ps)"

definition matchCIDRs :: "stdlib \<Rightarrow> string \<Rightarrow> ip_prefix list \<Rightarrow> condition_state" where
  "matchCIDRs lib raw prefixes =
     (if CHR ''%'' \<in> set raw then ConditionIndeterminate
      else case lib_parseAddr lib raw of
          None \<Rightarrow> ConditionIndeterminate
        | Some (address, zone) \<Rightarrow> matchPrefixes (unmap address) prefixes)"

section \<open>The searches are membership\<close>

lemma search_from_sorted:
  fixes key :: "nat \<Rightarrow> 'a :: linorder"
  assumes mono: "\<And>a b. a \<le> b \<Longrightarrow> b < n \<Longrightarrow> key a \<le> key b"
  shows "(search_from (\<lambda>m. \<not> key m < want) 0 n < n \<and> key (search_from (\<lambda>m. \<not> key m < want) 0 n) = want)
    \<longleftrightarrow> (\<exists>i < n. key i = want)"
proof -
  define k where "k = search_from (\<lambda>m. \<not> key m < want) 0 n"
  have mono': "\<not> key b < want" if "a \<le> b" "b < n" "\<not> key a < want" for a b
    using mono [OF that(1,2)] that(3) by (meson le_less_trans)
  have "0 \<le> k \<and> k \<le> n \<and> (\<forall>i. 0 \<le> i \<and> i < k \<longrightarrow> \<not> \<not> key i < want)
      \<and> (\<forall>i. k \<le> i \<and> i < n \<longrightarrow> \<not> key i < want)"
    unfolding k_def by (rule search_from_correct) (use mono' in auto)
  then have before: "i < k \<Longrightarrow> key i < want" and after: "k \<le> i \<Longrightarrow> i < n \<Longrightarrow> want \<le> key i" for i
    by auto
  show ?thesis unfolding k_def [symmetric]
  proof
    assume "\<exists>i < n. key i = want"
    then obtain i where i: "i < n" "key i = want" by blast
    then have "k \<le> i" using before [of i] by (cases "i < k") auto
    then show "k < n \<and> key k = want" using i mono [of k i] after [of k] by auto
  qed blast
qed

lemma containsSorted_iff: "sorted values \<Longrightarrow> containsSorted values want \<longleftrightarrow> want \<in> set values"
  unfolding containsSorted_def Let_def
  by (subst search_from_sorted) (auto simp: sorted_nth_mono in_set_conv_nth)

lemma containsPort_iff: "sorted values \<Longrightarrow> containsPort values want \<longleftrightarrow> want \<in> set values"
  unfolding containsPort_def Let_def
  by (subst search_from_sorted) (auto simp: sorted_nth_mono in_set_conv_nth)

section \<open>Segments\<close>

lemma splitAt_append_sep: "splitAt sep (a @ sep # s) = splitAt sep a @ splitAt sep s"
proof (induction a)
  case (Cons c a)
  obtain x xs where "splitAt sep a = x # xs" by (meson list.exhaust splitAt_not_Nil)
  then show ?case using Cons by auto
qed simp

definition path_segments :: "string \<Rightarrow> string list" where
  "path_segments p = filter (\<lambda>s. s \<noteq> []) (splitAt (CHR ''/'') p)"

definition segments_ok :: "string list \<Rightarrow> bool" where
  "segments_ok ss \<longleftrightarrow> (\<forall>s \<in> set ss. s \<noteq> [] \<and> CHR ''/'' \<notin> set s)"

abbreviation joinSlash :: "string list \<Rightarrow> string" where
  "joinSlash \<equiv> joinWith (CHR ''/'')"

lemma joinWith_append: "a \<noteq> [] \<Longrightarrow> b \<noteq> [] \<Longrightarrow> joinWith sep (a @ b) = joinWith sep a @ sep # joinWith sep b"
proof (induction a)
  case (Cons x xs)
  show ?case
  proof (cases xs)
    case Nil
    then show ?thesis using Cons.prems by (cases b) auto
  next
    case (Cons y ys)
    then show ?thesis using Cons.IH \<open>b \<noteq> []\<close> by auto
  qed
qed simp

lemma splitAt_join: "segments_ok ss \<Longrightarrow> ss \<noteq> [] \<Longrightarrow> splitAt (CHR ''/'') (joinSlash ss) = ss"
  by (rule splitAt_joinWith) (auto simp: segments_ok_def)

lemma path_segments_join:
  "segments_ok ss \<Longrightarrow> pre = [] \<or> last pre = CHR ''/'' \<Longrightarrow>
     path_segments (pre @ joinSlash ss) = path_segments pre @ ss"
proof -
  assume ok: "segments_ok ss" and pre: "pre = [] \<or> last pre = CHR ''/''"
  have ss: "filter (\<lambda>s. s \<noteq> []) (splitAt (CHR ''/'') (joinSlash ss)) = ss"
  proof (cases "ss = []")
    case False
    then show ?thesis using ok by (simp add: splitAt_join) (simp add: segments_ok_def)
  qed simp
  show ?thesis
  proof (cases "pre = []")
    case True
    then show ?thesis using ss by (simp add: path_segments_def)
  next
    case False
    then obtain q where q: "pre = q @ [CHR ''/'']" using pre by (metis append_butlast_last_id)
    have "splitAt (CHR ''/'') (pre @ joinSlash ss) = splitAt (CHR ''/'') q @ splitAt (CHR ''/'') (joinSlash ss)"
      using splitAt_append_sep [of "CHR ''/''" q "joinSlash ss"] q by simp
    moreover have "splitAt (CHR ''/'') pre = splitAt (CHR ''/'') q @ [[]]"
      using splitAt_append_sep [of "CHR ''/''" q "[]"] q by simp
    ultimately show ?thesis using ss by (simp add: path_segments_def)
  qed
qed

lemma last_joinSlash: "segments_ok ss \<Longrightarrow> ss \<noteq> [] \<Longrightarrow> joinSlash ss \<noteq> [] \<and> last (joinSlash ss) \<noteq> CHR ''/''"
proof (induction ss)
  case (Cons s ss)
  then have s: "s \<noteq> []" "CHR ''/'' \<notin> set s" "segments_ok ss" by (auto simp: segments_ok_def)
  then have "last s \<noteq> CHR ''/''" by (metis last_in_set)
  then show ?case using Cons.IH s by (cases ss) (auto simp: segments_ok_def)
qed simp

lemma trimSuffix_slash_other: "last s \<noteq> CHR ''/'' \<or> s = [] \<Longrightarrow> trimSuffix s ''/'' = s"
  unfolding trimSuffix_def hasSuffix_iff by auto

lemma trimSuffix_slash: "trimSuffix (q @ ''/'') ''/'' = q"
  unfolding trimSuffix_def hasSuffix_iff by auto

text \<open>The heart of \<open>path_within\<close>: the textual test is the prefix order on segments.\<close>

lemma within_iff_segments:
  assumes "segments_ok ss" and "segments_ok ts" and pre: "pre = [] \<and> ss \<noteq> [] \<or> pre \<noteq> [] \<and> last pre = CHR ''/''"
  shows "(pre @ joinSlash ts = pre @ joinSlash ss
      \<or> hasPrefix (pre @ joinSlash ts) (trimSuffix (pre @ joinSlash ss) ''/'' @ ''/''))
    \<longleftrightarrow> (\<exists>us. ts = ss @ us)"
proof (cases "ss = []")
  case True
  then obtain q where "pre = q @ ''/''" using pre by (metis append_butlast_last_id)
  then show ?thesis using True trimSuffix_slash [of q] by (auto simp: hasPrefix_iff)
next
  case False
  have "last (pre @ joinSlash ss) \<noteq> CHR ''/''" using last_joinSlash [OF assms(1) False] by simp
  then have trim: "trimSuffix (pre @ joinSlash ss) ''/'' = pre @ joinSlash ss"
    using trimSuffix_slash_other by blast
  show ?thesis
  proof
    assume "pre @ joinSlash ts = pre @ joinSlash ss
      \<or> hasPrefix (pre @ joinSlash ts) (trimSuffix (pre @ joinSlash ss) ''/'' @ ''/'')"
    then consider "joinSlash ts = joinSlash ss" | x where "joinSlash ts = joinSlash ss @ CHR ''/'' # x"
      unfolding trim hasPrefix_iff by auto
    then show "\<exists>us. ts = ss @ us"
    proof cases
      case 1
      have "ts \<noteq> []" using 1 last_joinSlash [OF assms(1) False] by auto
      then show ?thesis using 1 splitAt_join assms(1,2) False by (metis append_Nil2)
    next
      case 2
      then have "ts \<noteq> []" by auto
      then have "ts = splitAt (CHR ''/'') (joinSlash ss @ CHR ''/'' # x)"
        using splitAt_join [OF assms(2)] 2 by simp
      also have "\<dots> = ss @ splitAt (CHR ''/'') x"
        using splitAt_join [OF assms(1) False] by (simp add: splitAt_append_sep)
      finally show ?thesis by blast
    qed
  next
    assume "\<exists>us. ts = ss @ us"
    then obtain us where us: "ts = ss @ us" by blast
    show "pre @ joinSlash ts = pre @ joinSlash ss
      \<or> hasPrefix (pre @ joinSlash ts) (trimSuffix (pre @ joinSlash ss) ''/'' @ ''/'')"
    proof (cases "us = []")
      case True
      then show ?thesis using us by simp
    next
      case u: False
      then have "joinSlash ts = joinSlash ss @ CHR ''/'' # joinSlash us"
        using joinWith_append [OF False u] us by simp
      then show ?thesis unfolding trim hasPrefix_iff by simp
    qed
  qed
qed

lemma validate_form:
  assumes "validateCanonicalPathSegments v allowEmptyRoot"
  obtains ts where "v = joinSlash ts" and "segments_ok ts" and "\<not> allowEmptyRoot \<Longrightarrow> ts \<noteq> []"
proof (cases "v = [] \<and> allowEmptyRoot")
  case True
  then show thesis using that [of "[]"] by (simp add: segments_ok_def)
next
  case False
  have "segments_ok (splitAt (CHR ''/'') v)"
    using assms False splitAt_parts by (fastforce simp: validateCanonicalPathSegments_def segments_ok_def)
  then show thesis using that [of "splitAt (CHR ''/'') v"] by (simp add: joinWith_splitAt)
qed

lemma upperAscii_idem [simp]: "upperAscii (upperAscii c) = upperAscii c"
  by (auto simp: upperAscii_def of_char_of)

lemma upperAscii_colon [simp]: "upperAscii CHR '':'' = CHR '':''"
  by (simp add: upperAscii_def)

lemma upperAscii_letter: "is_letter c \<Longrightarrow> upperAscii c \<noteq> CHR ''/''"
proof
  assume l: "is_letter c" and "upperAscii c = CHR ''/''"
  then have "(of_char (upperAscii c) :: nat) = 47" by simp
  then show False using l by (auto simp: upperAscii_def is_letter_def of_char_of split: if_splits)
qed

definition volume_prefix :: "path_style \<Rightarrow> string \<Rightarrow> string" where
  "volume_prefix style v =
     (case style of
        PathPOSIX \<Rightarrow> ''/''
      | PathWindows \<Rightarrow> if hasPrefix v ''//'' then ''//'' else v @ ''/''
      | _ \<Rightarrow> [])"

lemma normalizeWindowsPathBase_form:
  assumes "normalizeRuntimePath raw PathWindows = Some (t, v)"
  obtains ts where "t = volume_prefix PathWindows v @ joinSlash ts" and "segments_ok ts"
    and "last (volume_prefix PathWindows v) = CHR ''/''" and "hasPrefix v ''//'' \<or> CHR ''/'' \<notin> set v"
proof -
  define n where "n = map (\<lambda>c. if c = backslash then CHR ''/'' else c) raw"
  obtain r where r: "normalizeWindowsPathBase raw = Some r"
    and tv: "Some (t, v) = (if hasPrefix r ''//'' then
        (let parts = splitAt (CHR ''/'') (trimPrefix r ''//'') in Some (r, ''//'' @ parts ! 0 @ ''/'' @ parts ! 1))
      else Some (r, map upperAscii (take 2 r)))"
    using assms by (auto simp: normalizeRuntimePath_def split: if_splits option.splits)
  show thesis
  proof (cases "hasPrefix n ''//''")
    case True
    then obtain x where x: "n = ''//'' @ x" by (auto simp: hasPrefix_iff)
    define parts where "parts = splitAt (CHR ''/'') x"
    have tr: "trimPrefix n ''//'' = x" by (simp add: x trimPrefix_def hasPrefix_def)
    have "validateCanonicalPathSegments (joinSlash parts) False" and rr: "r = ''//'' @ joinSlash parts"
      using r True unfolding normalizeWindowsPathBase_def n_def [symmetric] Let_def tr parts_def [symmetric]
      by (auto split: if_splits)
    then obtain ts where ts: "joinSlash parts = joinSlash ts" "segments_ok ts"
      using validate_form by metis
    have "t = r" and "hasPrefix v ''//''"
      using tv rr by (auto simp: hasPrefix_def Let_def)
    then show thesis using that [of ts] rr ts by (simp add: volume_prefix_def)
  next
    case False
    have drive: "windowsDrivePattern n" and valid: "validateCanonicalPathSegments (drop 3 n) True"
      and rr: "r = upperAscii (hd n) # tl n"
      using r False unfolding normalizeWindowsPathBase_def n_def [symmetric] Let_def
      by (auto split: if_splits)
    obtain c rest where n: "n = c # CHR '':'' # CHR ''/'' # rest" and c: "is_letter c"
      using drive unfolding windowsDrivePattern_def
      by (cases n; cases "tl n"; cases "tl (tl n)") auto
    obtain ts where ts: "rest = joinSlash ts" "segments_ok ts"
      using valid n validate_form [of rest True] by auto
    have r': "r = upperAscii c # CHR '':'' # CHR ''/'' # joinSlash ts" using rr n ts by simp
    then have "t = r" and "v = [upperAscii c, CHR '':'']"
      using tv upperAscii_letter [OF c] by (auto simp: hasPrefix_def)
    then show thesis using that [of ts] r' ts upperAscii_letter [OF c] by (simp add: volume_prefix_def hasPrefix_def)
  qed
qed

lemma normalizeRuntimePath_form:
  assumes "normalizeRuntimePath raw style = Some (t, v)"
  obtains ts where "t = volume_prefix style v @ joinSlash ts" and "segments_ok ts"
    and "volume_prefix style v = [] \<and> ts \<noteq> [] \<or> volume_prefix style v \<noteq> [] \<and> last (volume_prefix style v) = CHR ''/''"
proof (cases style)
  case PathRepository
  then have "validateCanonicalPathSegments raw False" "t = raw"
    using assms by (auto simp: normalizeRuntimePath_def split: if_splits)
  then show thesis using validate_form that PathRepository by (auto simp: volume_prefix_def)
next
  case PathPOSIX
  then have "validateCanonicalPathSegments (trimPrefix raw ''/'') True" "t = raw" "hasPrefix raw ''/''"
    using assms by (auto simp: normalizeRuntimePath_def split: if_splits)
  moreover then obtain x where "raw = ''/'' @ x" by (auto simp: hasPrefix_iff)
  moreover then have "trimPrefix raw ''/'' = x" by (simp add: trimPrefix_def hasPrefix_def)
  ultimately show thesis using validate_form [of x True] that PathPOSIX by (auto simp: volume_prefix_def)
next
  case PathWindows
  obtain ts where "t = volume_prefix PathWindows v @ joinSlash ts" "segments_ok ts"
      "last (volume_prefix PathWindows v) = CHR ''/''"
    using normalizeWindowsPathBase_form [OF assms [unfolded PathWindows]] .
  moreover have "volume_prefix PathWindows v \<noteq> []" by (simp add: volume_prefix_def)
  ultimately show thesis using that PathWindows by blast
next
  case (PathStyleOther s)
  then show thesis using assms by (auto simp: normalizeRuntimePath_def split: if_splits)
qed

section \<open>Case folding\<close>

text \<open>How a constraint folds a path, and the law of lower case that its comparison relies on: it
  works rune by rune, so it keeps separators where they are and makes none.\<close>

definition path_fold :: "stdlib \<Rightarrow> path_constraint \<Rightarrow> string \<Rightarrow> string" where
  "path_fold lib constraint s = (if pac_case_sensitive constraint then s else lib_toLower lib s)"

definition keeps_separators :: "(string \<Rightarrow> string) \<Rightarrow> bool" where
  "keeps_separators f \<longleftrightarrow>
     (\<forall>a b. f (a @ ''/'' @ b) = f a @ ''/'' @ f b) \<and> (\<forall>s. CHR ''/'' \<notin> set s \<longrightarrow> CHR ''/'' \<notin> set (f s))
     \<and> (\<forall>s. f s = [] \<longleftrightarrow> s = [])"

lemma keeps_separatorsD:
  assumes "keeps_separators f"
  shows "f (a @ CHR ''/'' # b) = f a @ CHR ''/'' # f b" and "CHR ''/'' \<notin> set s \<Longrightarrow> CHR ''/'' \<notin> set (f s)"
    and "f s = [] \<longleftrightarrow> s = []" and "f [] = []" and "f (CHR ''/'' # b) = CHR ''/'' # f b"
proof -
  have "f (a @ ''/'' @ b) = f a @ ''/'' @ f b" for a b using assms by (simp only: keeps_separators_def)
  then show "f (a @ CHR ''/'' # b) = f a @ CHR ''/'' # f b" for a b by simp
  show "f s = [] \<longleftrightarrow> s = []" "CHR ''/'' \<notin> set s \<Longrightarrow> CHR ''/'' \<notin> set (f s)" for s
    using assms by (simp_all add: keeps_separators_def)
  then show "f [] = []" by simp
  then show "f (CHR ''/'' # b) = CHR ''/'' # f b" using \<open>f ([] @ CHR ''/'' # b) = f [] @ CHR ''/'' # f b\<close> by simp
qed

lemma fold_joinSlash: "keeps_separators f \<Longrightarrow> f (joinSlash ss) = joinSlash (map f ss)"
proof (induction ss)
  case (Cons s ss)
  then show ?case by (cases ss) (simp_all add: keeps_separatorsD)
qed (simp add: keeps_separatorsD)

lemma fold_prefix: "keeps_separators f \<Longrightarrow> pre = [] \<or> last pre = CHR ''/'' \<Longrightarrow> f (pre @ s) = f pre @ f s"
  by (cases pre rule: rev_cases) (auto simp: keeps_separatorsD keeps_separatorsD(1) [of f _ "[]", simplified])

lemma fold_segments: "keeps_separators f \<Longrightarrow> path_segments (f p) = map f (path_segments p)"
proof -
  assume f: "keeps_separators f"
  have parts: "CHR ''/'' \<notin> set x" if "x \<in> set (splitAt (CHR ''/'') p)" for x
    using that splitAt_parts by fastforce
  have "f p = joinSlash (map f (splitAt (CHR ''/'') p))"
    using fold_joinSlash [OF f, of "splitAt (CHR ''/'') p"] by (simp add: joinWith_splitAt)
  moreover have "splitAt (CHR ''/'') (joinSlash (map f (splitAt (CHR ''/'') p))) = map f (splitAt (CHR ''/'') p)"
    by (rule splitAt_joinWith) (use parts keeps_separatorsD(2) [OF f] in \<open>auto\<close>)
  ultimately show ?thesis by (simp add: path_segments_def filter_map comp_def keeps_separatorsD(3) [OF f])
qed

lemma fold_volume_prefix:
  assumes "keeps_separators f" and "normalizeRuntimePath raw style = Some (t, v)"
  shows "f (volume_prefix style v) = volume_prefix style (f v)"
proof (cases "style = PathWindows")
  case True
  have "hasPrefix v ''//'' \<or> CHR ''/'' \<notin> set v"
    using normalizeWindowsPathBase_form [of raw t v] assms(2) True by metis
  then have "hasPrefix (f v) ''//'' = hasPrefix v ''//''"
    using keeps_separatorsD(2) [OF assms(1), of v] by (auto simp: hasPrefix_iff keeps_separatorsD(4,5) [OF assms(1)])
  then show ?thesis using True keeps_separatorsD(1) [OF assms(1), of v "[]"]
    by (simp add: volume_prefix_def keeps_separatorsD(4,5) [OF assms(1)])
next
  case False
  then show ?thesis by (cases style) (simp_all add: volume_prefix_def keeps_separatorsD(4,5) [OF assms(1)])
qed

section \<open>Properties\<close>

text \<open>
  C29: a \<open>path_within\<close> constraint, case-sensitive or not, holds of a target exactly when the
  folded segments of its base start the folded segments of the target, for repository, POSIX, drive
  and UNC paths. So a sibling whose name extends the base (\<open>/srv/data2\<close> for \<open>/srv/data\<close>) is
  outside, and a target on another volume is indeterminate. Lower case keeps the separators of a
  path, which the library documents: it works rune by rune.
\<close>

theorem path_within_segments:
  assumes "preparePathConstraint lib constraint = Some c"
    and "pac_case_sensitive constraint \<or> keeps_separators (lib_toLower lib)"
    and "normalizeRuntimePath (pac_base constraint) (pac_style constraint) = Some (base, baseVolume)"
    and "normalizeRuntimePath raw (pac_style constraint) = Some (target, volume)"
  shows "matchPathConstraint lib raw c =
    (if path_fold lib constraint volume \<noteq> path_fold lib constraint baseVolume then ConditionIndeterminate
     else conditionFromBool (\<exists>rest. map (path_fold lib constraint) (path_segments target)
       = map (path_fold lib constraint) (path_segments base) @ rest))"
proof -
  define f where "f = path_fold lib constraint"
  have f: "keeps_separators f"
    using assms(2) by (cases "pac_case_sensitive constraint") (auto simp: f_def path_fold_def keeps_separators_def)
  have c: "pac_match_base c = f base" "pac_match_volume c = f baseVolume" "pac_prepared c" "pac_style c = pac_style constraint"
      "pac_match_prefix c = trimSuffix (f base) ''/'' @ ''/''" "pac_case_sensitive c = pac_case_sensitive constraint"
    using assms(1,3) by (auto simp: preparePathConstraint_def Let_def f_def path_fold_def)
  obtain ss where ss: "base = volume_prefix (pac_style constraint) baseVolume @ joinSlash ss" "segments_ok ss"
      "volume_prefix (pac_style constraint) baseVolume = [] \<and> ss \<noteq> []
       \<or> volume_prefix (pac_style constraint) baseVolume \<noteq> [] \<and> last (volume_prefix (pac_style constraint) baseVolume) = CHR ''/''"
    using normalizeRuntimePath_form assms(3) by metis
  obtain ts where ts: "target = volume_prefix (pac_style constraint) volume @ joinSlash ts" "segments_ok ts"
      "volume_prefix (pac_style constraint) volume = [] \<or> last (volume_prefix (pac_style constraint) volume) = CHR ''/''"
    using normalizeRuntimePath_form assms(4) by metis
  have match: "matchPathConstraint lib raw c = (if f volume \<noteq> f baseVolume then ConditionIndeterminate
      else conditionFromBool (f target = f base \<or> hasPrefix (f target) (trimSuffix (f base) ''/'' @ ''/'')))"
    using assms(4) c by (simp add: matchPathConstraint_def f_def path_fold_def conditionFromBool_def Let_def)
  show ?thesis
  proof (cases "f volume = f baseVolume")
    case True
    let ?pre = "f (volume_prefix (pac_style constraint) baseVolume)"
    have pre: "f (volume_prefix (pac_style constraint) volume) = ?pre"
      using fold_volume_prefix [OF f assms(4)] fold_volume_prefix [OF f assms(3)] True by simp
    have forms: "f base = ?pre @ joinSlash (map f ss)" "f target = ?pre @ joinSlash (map f ts)"
      using ss(3) ts(3) fold_prefix [OF f] keeps_separatorsD(4) [OF f] by (auto simp: ss(1) ts(1) fold_joinSlash [OF f] pre)
    have ok: "segments_ok (map f ss)" "segments_ok (map f ts)"
      using ss(2) ts(2) keeps_separatorsD(2,3) [OF f] by (auto simp: segments_ok_def)
    have edge: "?pre = [] \<and> map f ss \<noteq> [] \<or> ?pre \<noteq> [] \<and> last ?pre = CHR ''/''"
    proof (cases "volume_prefix (pac_style constraint) baseVolume" rule: rev_cases)
      case Nil
      then show ?thesis using ss(3) keeps_separatorsD(4) [OF f] by simp
    next
      case (snoc q y)
      then show ?thesis using ss(3) keeps_separatorsD(1) [OF f, of q "[]"] keeps_separatorsD(4) [OF f] by simp
    qed
    then have edge': "?pre = [] \<or> last ?pre = CHR ''/''" by blast
    have "(f target = f base \<or> hasPrefix (f target) (trimSuffix (f base) ''/'' @ ''/'')) \<longleftrightarrow> (\<exists>us. map f ts = map f ss @ us)"
      unfolding forms by (rule within_iff_segments [OF ok edge])
    also have "\<dots> \<longleftrightarrow> (\<exists>us. path_segments (f target) = path_segments (f base) @ us)"
      unfolding forms path_segments_join [OF ok(1) edge'] path_segments_join [OF ok(2) edge']
      by (simp only: append_assoc same_append_eq)
    finally show ?thesis using True match by (simp add: f_def [symmetric] fold_segments [OF f])
  qed (simp add: match f_def [symmetric])
qed

text \<open>A drive compared without regard to case.\<close>

definition lower_ascii :: "char \<Rightarrow> char" where
  "lower_ascii c =
     (if 65 \<le> (of_char c :: nat) \<and> (of_char c :: nat) \<le> 90 then char_of ((of_char c :: nat) + 32) else c)"

lemma lower_ascii_slash: "lower_ascii c = CHR ''/'' \<longleftrightarrow> c = CHR ''/''"
proof
  assume l: "lower_ascii c = CHR ''/''"
  then have "(of_char (lower_ascii c) :: nat) = 47" by simp
  then have "\<not> (65 \<le> (of_char c :: nat) \<and> (of_char c :: nat) \<le> 90)"
    by (auto simp: lower_ascii_def of_char_of)
  then show "c = CHR ''/''" using l by (simp only: lower_ascii_def if_False)
qed (simp add: lower_ascii_def)

lemma lower_ascii_keeps: "keeps_separators (map lower_ascii)"
proof -
  have "CHR ''/'' \<notin> set (map lower_ascii s)" if "CHR ''/'' \<notin> set s" for s
    using that lower_ascii_slash by (metis image_iff list.set_map)
  moreover have "lower_ascii (CHR ''/'') = CHR ''/''" by (simp add: lower_ascii_slash)
  ultimately show ?thesis by (simp add: keeps_separators_def)
qed

definition folding_lib :: stdlib where
  "folding_lib = \<lparr>lib_toLower = map lower_ascii, lib_parseURL = (\<lambda>s. None), lib_parseAddr = (\<lambda>s. None), lib_addrString = (\<lambda>a. [])\<rparr>"

definition folding_constraint :: path_constraint where
  "folding_constraint =
     \<lparr>pac_style = PathWindows, pac_base = ''C:/Data'', pac_case_sensitive = False, pac_match_base = [],
      pac_match_volume = [], pac_match_prefix = [], pac_prepared = False\<rparr>"

theorem path_within_segments_witness:
  "\<exists>c. preparePathConstraint folding_lib folding_constraint = Some c
    \<and> matchPathConstraint folding_lib ''c:/DATA/x'' c = ConditionTrue
    \<and> matchPathConstraint folding_lib ''c:/DATA2'' c = ConditionFalse"
proof -
  have n: "normalizeRuntimePath ''C:/Data'' PathWindows = Some (''C:/Data'', ''C:'')"
    "normalizeRuntimePath ''c:/DATA/x'' PathWindows = Some (''C:/DATA/x'', ''C:'')"
    "normalizeRuntimePath ''c:/DATA2'' PathWindows = Some (''C:/DATA2'', ''C:'')"
    by (simp_all add: normalizeRuntimePath_def normalizeWindowsPathBase_def windowsDrivePattern_def upperAscii_def
        is_letter_def Let_def char_of_def bit_0 validString_Cons containsControl_def runes_Cons hasPrefix_def backslash_def trimPrefix_def
        validateCanonicalPathSegments_def trimSuffix_def hasSuffix_def)
  obtain c where c: "preparePathConstraint folding_lib folding_constraint = Some c"
    using n(1) by (simp add: preparePathConstraint_def folding_constraint_def Let_def)
  have k: "pac_case_sensitive folding_constraint \<or> keeps_separators (lib_toLower folding_lib)"
    using lower_ascii_keeps by (simp add: folding_lib_def)
  have f: "path_fold folding_lib folding_constraint = map lower_ascii"
    by (rule ext) (simp add: path_fold_def folding_constraint_def folding_lib_def)
  have s: "pac_base folding_constraint = ''C:/Data''" "pac_style folding_constraint = PathWindows"
    by (simp_all add: folding_constraint_def)
  have segs: "map (map lower_ascii) (path_segments ''C:/Data'') = [''c:'', ''data'']"
    "map (map lower_ascii) (path_segments ''C:/DATA/x'') = [''c:'', ''data'', ''x'']"
    "map (map lower_ascii) (path_segments ''C:/DATA2'') = [''c:'', ''data2'']" by (simp_all add: path_segments_def lower_ascii_def char_of_def bit_0)
  show ?thesis
    using c path_within_segments [OF c k, unfolded s f, OF n(1,2)] path_within_segments [OF c k, unfolded s f, OF n(1,3)]
    by (simp add: segs conditionFromBool_def)
qed

text \<open>
  A URL constraint over canonical (sorted) lists holds of a normalized target exactly when
  its scheme and host are listed, an address literal and a query are allowed where present, and
  its port and path are covered where the constraint restricts them.
\<close>

theorem matchURLConstraint_iff:
  assumes "normalizeURLTarget lib raw = Some t"
    and "sorted (urc_schemes c)" and "sorted (urc_hosts c)" and "sorted (urc_ports c)"
  shows "matchURLConstraint lib raw c = conditionFromBool
    (utg_scheme t \<in> set (urc_schemes c) \<and> utg_host t \<in> set (urc_hosts c)
     \<and> (utg_ip_literal t \<longrightarrow> urc_allow_ip_literal c)
     \<and> (urc_ports c \<noteq> [] \<longrightarrow> utg_port t \<in> set (urc_ports c))
     \<and> (urc_path_prefixes c \<noteq> [] \<longrightarrow> matchesAnyPathPrefix (utg_path t) (urc_path_prefixes c))
     \<and> (utg_query t \<longrightarrow> urc_allow_query c))"
  using assms by (simp add: matchURLConstraint_def conditionFromBool_def containsSorted_iff containsPort_iff)

definition example_lib :: stdlib where
  "example_lib = \<lparr>lib_toLower = (\<lambda>s. s),
     lib_parseURL = (\<lambda>s. if s = ''https://a.b/x''
       then Some \<lparr>url_scheme = ''https'', url_host = ''a.b'', url_opaque = [], url_has_user = False,
         url_fragment = [], url_hostname = ''a.b'', url_port = [], url_escaped_path = ''/x'',
         url_raw_query = [], url_force_query = False\<rparr>
       else None),
     lib_parseAddr = (\<lambda>s. if s = ''10.1.2.3'' then Some (Addr4 0x0A010203, []) else None),
     lib_addrString = (\<lambda>a. [])\<rparr>"

theorem matchURLConstraint_iff_witness:
  "matchURLConstraint example_lib ''https://a.b/x''
     \<lparr>urc_schemes = [''https''], urc_hosts = [''a.b'', ''c.d''], urc_ports = [443], urc_path_prefixes = [''/x''],
      urc_allow_query = False, urc_allow_ip_literal = False\<rparr> = conditionFromBool True"
  using matchURLConstraint_iff [of example_lib "''https://a.b/x''"
      "\<lparr>utg_scheme = ''https'', utg_host = ''a.b'', utg_port = 443, utg_path = ''/x'',
        utg_ip_literal = False, utg_query = False\<rparr>"
      "\<lparr>urc_schemes = [''https''], urc_hosts = [''a.b'', ''c.d''], urc_ports = [443], urc_path_prefixes = [''/x''],
      urc_allow_query = False, urc_allow_ip_literal = False\<rparr>"]
  by (simp add: normalizeURLTarget_def example_lib_def validString_Cons containsControl_def runes_Cons
      runes_Cons hasPrefix_def backslash_def trimPrefix_def normalizeConstraintHost_def hasSuffix_def
      asciiHostPattern_def hostByte_def onlyDigitsAndDots_def dnsLabel_def normalizedURLPort_def
      normalizedURLPath_def urlSegment_def matchesAnyPathPrefix_def)

text \<open>\<open>in_prefix p a\<close>: the same family, and the leading bits of the prefix are those of the address.\<close>

fun in_prefix :: "ip_prefix \<Rightarrow> ip_addr \<Rightarrow> bool" where
  "in_prefix p (Addr4 w) =
     (\<exists>v. pfx_addr p = Addr4 v \<and> pfx_bits p \<le> 32 \<and> (\<forall>i. 32 - pfx_bits p \<le> i \<longrightarrow> bit v i = bit w i))"
| "in_prefix p (Addr6 w) =
     (\<exists>v. pfx_addr p = Addr6 v \<and> pfx_bits p \<le> 128 \<and> (\<forall>i. 128 - pfx_bits p \<le> i \<longrightarrow> bit v i = bit w i))"

lemma drop_bit_eq_iff:
  fixes v w :: "'a :: len word"
  shows "drop_bit n v = drop_bit n w \<longleftrightarrow> (\<forall>i. n \<le> i \<longrightarrow> bit v i = bit w i)"
proof
  assume eq: "drop_bit n v = drop_bit n w"
  show "\<forall>i. n \<le> i \<longrightarrow> bit v i = bit w i"
  proof (intro allI impI)
    fix i assume "n \<le> i"
    moreover have "bit (drop_bit n v) (i - n) = bit (drop_bit n w) (i - n)" using eq by simp
    ultimately show "bit v i = bit w i" by (simp add: bit_drop_bit_eq)
  qed
qed (auto intro: bit_word_eqI simp: bit_drop_bit_eq)

lemma drop_push_drop:
  fixes v :: "'a :: len word"
  shows "drop_bit n (push_bit n (drop_bit n v)) = drop_bit n v"
  by (rule bit_word_eqI) (auto simp: bit_drop_bit_eq bit_push_bit_iff dest: bit_imp_le_length)

lemma masked_contains:
  "(\<exists>q. prefix_masked p = Some q \<and> is4 (pfx_addr q) = is4 a \<and> prefix_contains q a) \<longleftrightarrow> in_prefix p a"
  by (cases a; cases "pfx_addr p")
    (auto simp: prefix_masked_def prefix_contains_def Let_def drop_push_drop drop_bit_eq_iff)

lemma matchPrefixes_iff: "matchPrefixes a ps = conditionFromBool (\<exists>p \<in> set ps. in_prefix p a)"
proof (induction ps)
  case (Cons p ps)
  have "in_prefix p a \<longleftrightarrow> (\<exists>q. prefix_masked p = Some q \<and> is4 (pfx_addr q) = is4 a \<and> prefix_contains q a)"
    by (simp add: masked_contains)
  then show ?case using Cons by (auto simp: conditionFromBool_def split: option.splits)
qed (simp add: conditionFromBool_def)

text \<open>
  A CIDR predicate holds of an address text exactly when the address, read as IPv4 when it
  is IPv4-mapped, agrees with one of the prefixes of its family on the prefix's leading bits; a
  text with a zone or without an address is indeterminate.
\<close>

theorem matchCIDRs_iff:
  "matchCIDRs lib raw prefixes =
     (if CHR ''%'' \<in> set raw then ConditionIndeterminate
      else case lib_parseAddr lib raw of
          None \<Rightarrow> ConditionIndeterminate
        | Some (address, zone) \<Rightarrow> conditionFromBool (\<exists>p \<in> set prefixes. in_prefix p (unmap address)))"
  by (auto simp: matchCIDRs_def matchPrefixes_iff split: option.splits)

end
