(* ===== verification/Action_Predicate.thy ===== *)
theory Action_Predicate
  imports Action_Targets
begin

text \<open>
  The evaluation of one compiled predicate (predicate_eval.go): the selection of the operand
  with its provenance, the operators, and the trace summary. An evaluation threads a memo of
  the request's roots (\<open>None\<close> is the nil memo) and a control; the lemmas show that the memo
  never changes a result and that a stopped control is never reported as an answer.
\<close>

section \<open>Selection\<close>

record selected_value =
  slv_pointer :: pointer_result
  slv_provenance :: provenance
  slv_available :: bool

record size_memo =
  csm_ready :: bool
  csm_valid :: bool
  csm_size :: nat

record predicate_roots =
  prt_context_value :: selected_value
  prt_context_ready :: bool
  prt_context_builds :: uint32
  prt_argument_size :: size_memo
  prt_context_size :: size_memo
  prt_result_size :: size_memo
  prt_progress_size :: size_memo

text \<open>The state one evaluation threads: the memo and the control.\<close>

record eval_state =
  evs_roots :: "predicate_roots option"
  evs_control :: control

definition poll :: "eval_state \<Rightarrow> reason_code \<times> eval_state" where
  "poll st = (case stopReason (evs_control st) of (reason, control) \<Rightarrow> (reason, st\<lparr>evs_control := control\<rparr>))"

definition pointer_only :: "pointer_state \<Rightarrow> pointer_result" where
  "pointer_only s = \<lparr>ptr_state = s, ptr_value = ValueUnset\<rparr>"

definition noSelected :: selected_value where
  "noSelected = \<lparr>slv_pointer = pointer_only PointerUnset, slv_provenance = ProvenanceUnset,
     slv_available = False\<rparr>"

definition noMemo :: size_memo where
  "noMemo = \<lparr>csm_ready = False, csm_valid = False, csm_size = 0\<rparr>"

definition noRoots :: predicate_roots where
  "noRoots = \<lparr>prt_context_value = noSelected, prt_context_ready = False, prt_context_builds = 0,
     prt_argument_size = noMemo, prt_context_size = noMemo, prt_result_size = noMemo,
     prt_progress_size = noMemo\<rparr>"

definition selectRoot :: "json_value option \<Rightarrow> string list \<Rightarrow> provenance \<Rightarrow> selected_value" where
  "selectRoot document tokens provenance =
     (case document of
        None \<Rightarrow> \<lparr>slv_pointer = pointer_only PointerMissing, slv_provenance = provenance, slv_available = False\<rparr>
      | Some v \<Rightarrow> \<lparr>slv_pointer = resolvePointerTokens v tokens, slv_provenance = provenance,
                  slv_available = True\<rparr>)"

text \<open>The loop of \<open>selectContextRoot\<close>: an unavailable entry ends it, else members and provenance.\<close>

fun contextMembers :: "provenance \<Rightarrow> member list \<Rightarrow> context_value list \<Rightarrow>
    selected_value + (provenance \<times> member list)" where
  "contextMembers provenance members [] = Inr (provenance, members)"
| "contextMembers provenance members (entry # rest) =
     (if \<not> ctx_available entry then
        Inl \<lparr>slv_pointer = pointer_only PointerMissing, slv_provenance = ctx_provenance entry,
             slv_available = False\<rparr>
      else contextMembers
             (if rank (ctx_provenance entry) < rank provenance then ctx_provenance entry else provenance)
             (members @ [(ctx_name entry, ctx_value entry)]) rest)"

definition selectContextRoot :: "context_value list \<Rightarrow> selected_value" where
  "selectContextRoot context =
     (case contextMembers ProvenanceOperatorBound [] context of
        Inl refused \<Rightarrow> refused
      | Inr (provenance, members) \<Rightarrow>
          (case mkObject members of
             Inl e \<Rightarrow> \<lparr>slv_pointer = pointer_only PointerWrongContainer,
                      slv_provenance = ProvenanceUnset, slv_available = False\<rparr>
           | Inr v \<Rightarrow> \<lparr>slv_pointer = \<lparr>ptr_state = PointerPresent, ptr_value = v\<rparr>,
                      slv_provenance = (if length context = 0 then ProvenanceAgentSupplied else provenance),
                      slv_available = True\<rparr>))"

definition selectContextMember :: "context_value list \<Rightarrow> string list \<Rightarrow> selected_value" where
  "selectContextMember context tokens =
     (case sortContext context (hd tokens) of
        None \<Rightarrow> \<lparr>slv_pointer = pointer_only PointerMissing, slv_provenance = ProvenanceAgentSupplied,
                slv_available = True\<rparr>
      | Some index \<Rightarrow>
          let entry = context ! index
          in if \<not> ctx_available entry then
               \<lparr>slv_pointer = pointer_only PointerMissing, slv_provenance = ctx_provenance entry,
                slv_available = False\<rparr>
             else
               \<lparr>slv_pointer = resolvePointerTokens (ctx_value entry) (tl tokens),
                slv_provenance = ctx_provenance entry, slv_available = True\<rparr>)"

definition selectContext :: "context_value list \<Rightarrow> string list \<Rightarrow> selected_value" where
  "selectContext context tokens =
     (if length tokens = 0 then selectContextRoot context else selectContextMember context tokens)"

text \<open>The memoized form, on the memo.\<close>

definition roots_selectContext ::
  "predicate_roots \<Rightarrow> context_value list \<Rightarrow> string list \<Rightarrow> selected_value \<times> predicate_roots" where
  "roots_selectContext r context tokens =
     (if length tokens \<noteq> 0 then (selectContextMember context tokens, r)
      else
        let r = (if \<not> prt_context_ready r
                 then r\<lparr>prt_context_value := selectContextRoot context, prt_context_ready := True,
                        prt_context_builds := prt_context_builds r + 1\<rparr>
                 else r)
        in (prt_context_value r, r))"

definition selectPredicateValueWithRoots ::
  "compiled_predicate \<Rightarrow> request \<Rightarrow> eval_state \<Rightarrow> selected_value \<times> eval_state" where
  "selectPredicateValueWithRoots p request st =
     (case prd_source (cpr_predicate p) of
        SourceArguments \<Rightarrow> (selectRoot (req_arguments request) (cpr_tokens p) ProvenanceAgentSupplied, st)
      | SourceResult \<Rightarrow> (selectRoot (req_result request) (cpr_tokens p) ProvenanceAgentSupplied, st)
      | SourceProgress \<Rightarrow> (selectRoot (req_progress request) (cpr_tokens p) ProvenanceAgentSupplied, st)
      | SourceContext \<Rightarrow>
          (case evs_roots st of
             Some r \<Rightarrow>
               (case roots_selectContext r (req_context request) (cpr_tokens p) of
                  (selected, r) \<Rightarrow> (selected, st\<lparr>evs_roots := Some r\<rparr>))
           | None \<Rightarrow> (selectContext (req_context request) (cpr_tokens p), st))
      | SourceOther s \<Rightarrow>
          (\<lparr>slv_pointer = pointer_only PointerWrongContainer, slv_provenance = ProvenanceUnset,
            slv_available = False\<rparr>, st))"

section \<open>Summaries\<close>

fun root_memo :: "value_source \<Rightarrow> predicate_roots \<Rightarrow> size_memo option" where
  "root_memo SourceArguments r = Some (prt_argument_size r)"
| "root_memo SourceContext r = Some (prt_context_size r)"
| "root_memo SourceResult r = Some (prt_result_size r)"
| "root_memo SourceProgress r = Some (prt_progress_size r)"
| "root_memo (SourceOther s) r = None"

fun set_root_memo :: "value_source \<Rightarrow> size_memo \<Rightarrow> predicate_roots \<Rightarrow> predicate_roots" where
  "set_root_memo SourceArguments m r = r\<lparr>prt_argument_size := m\<rparr>"
| "set_root_memo SourceContext m r = r\<lparr>prt_context_size := m\<rparr>"
| "set_root_memo SourceResult m r = r\<lparr>prt_result_size := m\<rparr>"
| "set_root_memo SourceProgress m r = r\<lparr>prt_progress_size := m\<rparr>"
| "set_root_memo (SourceOther s) m r = r"

text \<open>\<open>canonicalSize\<close> without and with a memo: the size, whether it is valid, and the memo.\<close>

definition plainSize :: "json_value \<Rightarrow> nat \<times> bool" where
  "plainSize v = (case CanonicalJSONSize v of Inl e \<Rightarrow> (0, False) | Inr n \<Rightarrow> (n, True))"

definition memoSize :: "json_value \<Rightarrow> size_memo \<Rightarrow> size_memo" where
  "memoSize v memo =
     (if csm_ready memo then memo
      else \<lparr>csm_ready = True, csm_valid = snd (plainSize v), csm_size = fst (plainSize v)\<rparr>)"

definition canonicalSize :: "json_value \<Rightarrow> size_memo option \<Rightarrow> (nat \<times> bool) \<times> size_memo option" where
  "canonicalSize v memo =
     (case memo of
        None \<Rightarrow> (plainSize v, None)
      | Some m \<Rightarrow> let m = memoSize v m in ((csm_size m, csm_valid m), Some m))"

definition item_count :: "json_value \<Rightarrow> nat" where
  "item_count v =
     (case value_object_len v of
        Some n \<Rightarrow> n
      | None \<Rightarrow> (case value_array_len v of Some n \<Rightarrow> n | None \<Rightarrow> 0))"

definition summarizePointerMemoized ::
  "pointer_result \<Rightarrow> size_memo option \<Rightarrow> operand_summary \<times> size_memo option" where
  "summarizePointerMemoized pointer memo =
     (if ptr_state pointer \<noteq> PointerPresent \<and> ptr_state pointer \<noteq> PointerNull
      then (noSummary\<lparr>sum_pointer_state := ptr_state pointer\<rparr>, memo)
      else
        (case canonicalSize (ptr_value pointer) memo of
           ((encodedSize, valid), memo) \<Rightarrow>
             (\<lparr>sum_pointer_state = ptr_state pointer, sum_kind = kind_of (ptr_value pointer),
               sum_byte_length = (if valid then encodedSize else 0),
               sum_item_count = item_count (ptr_value pointer)\<rparr>, memo)))"

definition summarizePredicatePointer ::
  "compiled_predicate \<Rightarrow> pointer_result \<Rightarrow> eval_state \<Rightarrow> operand_summary \<times> eval_state" where
  "summarizePredicatePointer p pointer st =
     (let source = prd_source (cpr_predicate p);
          memo = (case evs_roots st of
                    None \<Rightarrow> None
                  | Some r \<Rightarrow> if length (cpr_tokens p) = 0 then root_memo source r else None)
      in case summarizePointerMemoized pointer memo of
           (summary, memo) \<Rightarrow>
             (summary,
              case (memo, evs_roots st) of
                (Some m, Some r) \<Rightarrow> st\<lparr>evs_roots := Some (set_root_memo source m r)\<rparr>
              | _ \<Rightarrow> st))"

section \<open>Operators\<close>

definition MaxListValues :: nat where "MaxListValues = 256"

definition reasonForMatcher :: "bool \<Rightarrow> bool \<Rightarrow> reason_code" where
  "reasonForMatcher targetValid matcherValid =
     (if \<not> matcherValid then ReasonInternalInvariant
      else if \<not> targetValid then ReasonConditionIndeterminate
      else NoReason)"

text \<open>The states in which the operand need not be looked at; \<open>None\<close> when it is ready.\<close>

definition operatorTargetState ::
  "compiled_predicate \<Rightarrow> pointer_result \<Rightarrow> (condition_state \<times> reason_code) option" where
  "operatorTargetState p selected =
     (let op = prd_op (cpr_predicate p)
      in if ptr_state selected = PointerMissing then
           (if op = OperatorExists then Some (ConditionFalse, NoReason)
            else Some (ConditionIndeterminate, ReasonConditionIndeterminate))
         else if ptr_state selected = PointerWrongContainer \<or> ptr_state selected = PointerInvalidIndex then
           Some (ConditionIndeterminate, ReasonConditionIndeterminate)
         else if op = OperatorExists then Some (ConditionTrue, NoReason)
         else if prd_value (cpr_predicate p) = None then
           Some (ConditionIndeterminate, ReasonInternalInvariant)
         else if ptr_state selected = PointerNull \<and> op \<noteq> OperatorEqual \<and> op \<noteq> OperatorNotEqual then
           Some (ConditionIndeterminate, ReasonConditionIndeterminate)
         else None)"

definition evaluateEqualityOperator :: "operator \<Rightarrow> json_value \<Rightarrow> json_value \<Rightarrow> condition_state \<times> reason_code" where
  "evaluateEqualityOperator op target operand =
     (let equal = value_equal target operand
      in (conditionFromBool (if op = OperatorNotEqual then \<not> equal else equal), NoReason))"

text \<open>The loop of \<open>evaluateMembership\<close> over the items; \<open>None\<close> on an item of another kind.\<close>

fun membershipLoop :: "json_value \<Rightarrow> value_kind \<Rightarrow> bool \<Rightarrow> bool \<Rightarrow> json_value list \<Rightarrow> bool option" where
  "membershipLoop target kind comparable matched [] = Some matched"
| "membershipLoop target kind comparable matched (item # rest) =
     (if \<not> value_scalar item \<or> kind_of item \<noteq> kind then None
      else membershipLoop target kind comparable (matched \<or> comparable \<and> value_equal target item) rest)"

definition evaluateMembership :: "operator \<Rightarrow> json_value \<Rightarrow> json_value \<Rightarrow> condition_state \<times> reason_code" where
  "evaluateMembership op target operand =
     (if op \<noteq> OperatorIn \<and> op \<noteq> OperatorNotIn then (ConditionIndeterminate, ReasonInternalInvariant)
      else case value_items operand of
          None \<Rightarrow> (ConditionIndeterminate, ReasonInternalInvariant)
        | Some items \<Rightarrow>
            if length items = 0 \<or> MaxListValues < length items then
              (ConditionIndeterminate, ReasonInternalInvariant)
            else if \<not> value_scalar (hd items) then (ConditionIndeterminate, ReasonInternalInvariant)
            else
              (let operandKind = kind_of (hd items);
                   comparable = (value_scalar target \<and> kind_of target = operandKind)
               in case membershipLoop target operandKind comparable
                         (comparable \<and> value_equal target (hd items)) (tl items) of
                    None \<Rightarrow> (ConditionIndeterminate, ReasonInternalInvariant)
                  | Some matched \<Rightarrow>
                      if \<not> comparable then (ConditionIndeterminate, ReasonConditionIndeterminate)
                      else (conditionFromBool (if op = OperatorNotIn then \<not> matched else matched), NoReason)))"

definition evaluateStringOperator :: "operator \<Rightarrow> json_value \<Rightarrow> json_value \<Rightarrow> condition_state \<times> reason_code" where
  "evaluateStringOperator op target operand =
     (case value_text target of
        None \<Rightarrow> (ConditionIndeterminate, ReasonConditionIndeterminate)
      | Some body \<Rightarrow>
          (case value_text operand of
             None \<Rightarrow> (ConditionIndeterminate, ReasonInternalInvariant)
           | Some want \<Rightarrow>
               (conditionFromBool
                  (case op of
                     OperatorPrefix \<Rightarrow> hasPrefix body want
                   | OperatorSuffix \<Rightarrow> hasSuffix body want
                   | _ \<Rightarrow> containsString body want), NoReason)))"

definition evaluateNumericOperator :: "operator \<Rightarrow> json_value \<Rightarrow> json_value \<Rightarrow> condition_state \<times> reason_code" where
  "evaluateNumericOperator op target operand =
     (case value_decimal target of
        None \<Rightarrow> (ConditionIndeterminate, ReasonConditionIndeterminate)
      | Some left \<Rightarrow>
          (case value_decimal operand of
             None \<Rightarrow> (ConditionIndeterminate, ReasonInternalInvariant)
           | Some right \<Rightarrow>
               let comparison = decimal_compare left right
               in (conditionFromBool
                     (case op of
                        OperatorGreater \<Rightarrow> 0 < comparison
                      | OperatorGreaterEq \<Rightarrow> 0 \<le> comparison
                      | OperatorLess \<Rightarrow> comparison < 0
                      | _ \<Rightarrow> comparison \<le> 0), NoReason)))"

text \<open>Globs and regular expressions poll the control around the match.\<close>

definition evaluatePatternOperator ::
  "compiled_predicate \<Rightarrow> json_value \<Rightarrow> control \<Rightarrow> condition_state \<times> reason_code \<times> control" where
  "evaluatePatternOperator p target control =
     (case stopReason control of
        (reason, control) \<Rightarrow>
          if reason \<noteq> NoReason then (ConditionIndeterminate, reason, control)
          else
            (let body = value_text target
             in if prd_op (cpr_predicate p) = OperatorGlob then
                  (if body = None \<or> cpr_glob p = None then
                     (ConditionIndeterminate, reasonForMatcher (body \<noteq> None) (cpr_glob p \<noteq> None), control)
                   else
                     (case glob_matchWithControl (cpr_glob p) (the body) control of
                        (matched, finished, reason, control) \<Rightarrow>
                          if \<not> finished then
                            (ConditionIndeterminate,
                             (if reason \<noteq> NoReason then reason else ReasonLimitExceeded), control)
                          else (conditionFromBool matched, NoReason, control)))
                else
                  (case (body, cpr_regex p) of
                     (Some s, Some regex) \<Rightarrow>
                       (case stopReason control of
                          (reason, control) \<Rightarrow>
                            if reason \<noteq> NoReason then (ConditionIndeterminate, reason, control)
                            else (conditionFromBool (regex s), NoReason, control))
                   | (_, regex) \<Rightarrow>
                       (ConditionIndeterminate, reasonForMatcher (body \<noteq> None) (regex \<noteq> None), control))))"

definition evaluateURLPredicate ::
  "stdlib \<Rightarrow> compiled_predicate \<Rightarrow> json_value \<Rightarrow> condition_state \<times> reason_code" where
  "evaluateURLPredicate lib p target =
     (case (value_text target, cpr_url p) of
        (Some s, Some constraint) \<Rightarrow> (matchURLConstraint lib s constraint, NoReason)
      | (body, constraint) \<Rightarrow>
          (ConditionIndeterminate, reasonForMatcher (body \<noteq> None) (constraint \<noteq> None)))"

definition evaluateCIDRPredicate ::
  "stdlib \<Rightarrow> compiled_predicate \<Rightarrow> json_value \<Rightarrow> condition_state \<times> reason_code" where
  "evaluateCIDRPredicate lib p target =
     (case value_text target of
        Some s \<Rightarrow>
          if length (cpr_cidrs p) = 0 then (ConditionIndeterminate, reasonForMatcher True False)
          else (matchCIDRs lib s (cpr_cidrs p), NoReason)
      | None \<Rightarrow> (ConditionIndeterminate, reasonForMatcher False (0 < length (cpr_cidrs p))))"

definition evaluatePathPredicate ::
  "stdlib \<Rightarrow> compiled_predicate \<Rightarrow> json_value \<Rightarrow> condition_state \<times> reason_code" where
  "evaluatePathPredicate lib p target =
     (case (value_text target, cpr_path p) of
        (Some s, Some constraint) \<Rightarrow> (matchPathConstraint lib s constraint, NoReason)
      | (body, constraint) \<Rightarrow>
          (ConditionIndeterminate, reasonForMatcher (body \<noteq> None) (constraint \<noteq> None)))"

definition with_control :: "condition_state \<times> reason_code \<Rightarrow> control \<Rightarrow> condition_state \<times> reason_code \<times> control" where
  "with_control r control = (fst r, snd r, control)"

definition evaluateOperator ::
  "stdlib \<Rightarrow> compiled_predicate \<Rightarrow> pointer_result \<Rightarrow> control \<Rightarrow> condition_state \<times> reason_code \<times> control" where
  "evaluateOperator lib p selected control =
     (case operatorTargetState p selected of
        Some r \<Rightarrow> with_control r control
      | None \<Rightarrow>
          let op = prd_op (cpr_predicate p); target = ptr_value selected;
              want = the (prd_value (cpr_predicate p))
          in if op \<in> {OperatorEqual, OperatorNotEqual} then
               with_control (evaluateEqualityOperator op target want) control
             else if op \<in> {OperatorIn, OperatorNotIn} then
               with_control (evaluateMembership op target want) control
             else if op \<in> {OperatorPrefix, OperatorSuffix, OperatorContains} then
               with_control (evaluateStringOperator op target want) control
             else if op \<in> {OperatorGlob, OperatorRegex} then evaluatePatternOperator p target control
             else if op \<in> {OperatorGreater, OperatorGreaterEq, OperatorLess, OperatorLessEq} then
               with_control (evaluateNumericOperator op target want) control
             else if op = OperatorURL then with_control (evaluateURLPredicate lib p target) control
             else if op = OperatorCIDR then with_control (evaluateCIDRPredicate lib p target) control
             else if op = OperatorPathWithin then with_control (evaluatePathPredicate lib p target) control
             else (ConditionIndeterminate, ReasonInternalInvariant, control))"

section \<open>The evaluation of a predicate\<close>

record predicate_evaluation =
  pev_state :: condition_state
  pev_reason :: reason_code
  pev_actual :: provenance
  pev_required :: provenance
  pev_complete :: bool
  pev_summary :: operand_summary

definition indeterminatePredicate ::
  "reason_code \<Rightarrow> provenance \<Rightarrow> provenance \<Rightarrow> operand_summary \<Rightarrow> predicate_evaluation" where
  "indeterminatePredicate reason actual required summary =
     \<lparr>pev_state = ConditionIndeterminate, pev_reason = reason, pev_actual = actual,
      pev_required = required, pev_complete = False, pev_summary = summary\<rparr>"

definition operator_step ::
  "stdlib \<Rightarrow> compiled_predicate \<Rightarrow> pointer_result \<Rightarrow> eval_state \<Rightarrow> (condition_state \<times> reason_code) \<times> eval_state" where
  "operator_step lib p selected st =
     (case evaluateOperator lib p selected (evs_control st) of
        (state, reason, control) \<Rightarrow> ((state, reason), st\<lparr>evs_control := control\<rparr>))"

text \<open>
  The refusals on provenance, in their order: context that is unavailable, context below the
  required provenance, and an allow rule on a path the host has not observed. The second
  component is the provenance the trace records as required.
\<close>

definition provenanceRefusal ::
  "compiled_predicate \<Rightarrow> decision \<Rightarrow> selected_value \<Rightarrow> (reason_code \<times> provenance) option" where
  "provenanceRefusal p ruleDecision selected =
     (let spec = cpr_predicate p; required = prd_minimum_provenance spec
      in if prd_source spec = SourceContext \<and> \<not> slv_available selected then
           Some (ReasonConditionIndeterminate, required)
         else if prd_source spec = SourceContext \<and> rank (slv_provenance selected) < rank required then
           Some (ReasonContextUntrusted, required)
         else if prd_op spec = OperatorPathWithin \<and> ruleDecision = DecisionAllow
                 \<and> rank (slv_provenance selected) < rank ProvenanceHostObserved then
           Some (ReasonContextUntrusted, ProvenanceHostObserved)
         else None)"

definition predicate_invalid :: "compiled_predicate \<Rightarrow> bool \<Rightarrow> bool" where
  "predicate_invalid p validatePointer \<longleftrightarrow>
     \<not> operator_valid (prd_op (cpr_predicate p)) \<or> \<not> source_valid (prd_source (cpr_predicate p))
     \<or> validatePointer \<and> validateCompiledPointer (cpr_tokens p) \<noteq> None"

definition evaluatePredicateCore ::
  "stdlib \<Rightarrow> compiled_predicate option \<Rightarrow> request \<Rightarrow> decision \<Rightarrow> bool \<Rightarrow> bool \<Rightarrow> eval_state \<Rightarrow>
     predicate_evaluation \<times> eval_state" where
  "evaluatePredicateCore lib predicate request ruleDecision validatePointer summaryRequired st =
     (case poll st of
        (reason, st) \<Rightarrow>
          if reason \<noteq> NoReason then
            (indeterminatePredicate reason ProvenanceUnset ProvenanceUnset noSummary, st)
          else
            (case predicate of
               None \<Rightarrow> (indeterminatePredicate ReasonInternalInvariant ProvenanceUnset ProvenanceUnset noSummary, st)
             | Some p \<Rightarrow>
                 if predicate_invalid p validatePointer then
                   (indeterminatePredicate ReasonInternalInvariant ProvenanceUnset ProvenanceUnset noSummary, st)
                 else
                   (case selectPredicateValueWithRoots p request st of
                      (selected, st) \<Rightarrow>
                        (case provenanceRefusal p ruleDecision selected of
                           Some (reason, required) \<Rightarrow>
                             (case summarizePredicatePointer p (slv_pointer selected) st of
                                (summary, st) \<Rightarrow>
                                  (indeterminatePredicate reason (slv_provenance selected) required summary, st))
                         | None \<Rightarrow>
                             (let required = prd_minimum_provenance (cpr_predicate p)
                              in case operator_step lib p (slv_pointer selected) st of
                                   (answer, st) \<Rightarrow>
                                     if evaluationStopped (snd answer) then
                                       (indeterminatePredicate (snd answer) (slv_provenance selected) required
                                          noSummary, st)
                                     else
                                       (case poll st of
                                          (stop, st) \<Rightarrow>
                                            if stop \<noteq> NoReason then
                                              (indeterminatePredicate stop (slv_provenance selected) required
                                                 noSummary, st)
                                            else
                                              (case (if summaryRequired \<or> snd answer \<noteq> NoReason
                                                     then summarizePredicatePointer p (slv_pointer selected) st
                                                     else (noSummary, st)) of
                                                 (summary, st) \<Rightarrow>
                                                   (\<lparr>pev_state = fst answer, pev_reason = snd answer,
                                                     pev_actual = slv_provenance selected,
                                                     pev_required = required,
                                                     pev_complete = (fst answer \<noteq> ConditionIndeterminate),
                                                     pev_summary = summary\<rparr>, st))))))))"

section \<open>The memo and a quiet control never change a result\<close>

text \<open>What the memo may hold: the context root and the sizes of the request's own roots.\<close>

definition root_value :: "request \<Rightarrow> value_source \<Rightarrow> json_value" where
  "root_value request source =
     ptr_value (slv_pointer (case source of
        SourceArguments \<Rightarrow> selectRoot (req_arguments request) [] ProvenanceAgentSupplied
      | SourceResult \<Rightarrow> selectRoot (req_result request) [] ProvenanceAgentSupplied
      | SourceProgress \<Rightarrow> selectRoot (req_progress request) [] ProvenanceAgentSupplied
      | SourceContext \<Rightarrow> selectContextRoot (req_context request)
      | SourceOther s \<Rightarrow> noSelected))"

definition roots_ok :: "request \<Rightarrow> predicate_roots \<Rightarrow> bool" where
  "roots_ok request r \<longleftrightarrow>
     (prt_context_ready r \<longrightarrow> prt_context_value r = selectContextRoot (req_context request))
     \<and> (\<forall>source m. root_memo source r = Some m \<longrightarrow> csm_ready m \<longrightarrow>
          (csm_size m, csm_valid m) = plainSize (root_value request source))"

definition eval_ok :: "request \<Rightarrow> eval_state \<Rightarrow> bool" where
  "eval_ok request st \<longleftrightarrow>
     (case evs_roots st of None \<Rightarrow> True | Some r \<Rightarrow> roots_ok request r) \<and> quiet (evs_control st)"

lemma eval_ok_start:
  "quiet control \<Longrightarrow> eval_ok request \<lparr>evs_roots = Some noRoots, evs_control = control\<rparr>"
  "quiet control \<Longrightarrow> eval_ok request \<lparr>evs_roots = None, evs_control = control\<rparr>"
  by (auto simp: eval_ok_def roots_ok_def noRoots_def noMemo_def elim!: root_memo.elims)

text \<open>An operation is transparent when it gives the same result from every such state.\<close>

definition transparent :: "request \<Rightarrow> (eval_state \<Rightarrow> 'a \<times> eval_state) \<Rightarrow> bool" where
  "transparent request f \<longleftrightarrow>
     (\<forall>st st'. eval_ok request st \<longrightarrow> eval_ok request st' \<longrightarrow>
        fst (f st) = fst (f st') \<and> eval_ok request (snd (f st)))"

named_theorems transparent_intros "operations that do not depend on the memo and a quiet control"

lemma transparentI:
  assumes "\<And>st. eval_ok request st \<Longrightarrow> fst (f st) = x \<and> eval_ok request (snd (f st))"
  shows "transparent request f"
  using assms by (simp add: transparent_def)

lemma transparentD:
  assumes "transparent request f" and "eval_ok request st" and "eval_ok request st'"
  shows "fst (f st) = fst (f st')" and "eval_ok request (snd (f st))"
  using assms unfolding transparent_def by blast+

lemma transparent_return [transparent_intros]: "transparent request (\<lambda>st. (x, st))"
  by (simp add: transparent_def)

lemma transparent_bind_from:
  assumes "transparent request f"
    and "\<And>x st. eval_ok request st \<Longrightarrow> x = fst (f st) \<Longrightarrow> transparent request (g x)"
  shows "transparent request (\<lambda>st. case f st of (x, st) \<Rightarrow> g x st)"
  unfolding transparent_def
proof (intro allI impI)
  fix st st' assume ok: "eval_ok request st" "eval_ok request st'"
  obtain x1 s1 where f1: "f st = (x1, s1)" by (cases "f st")
  obtain x2 s2 where f2: "f st' = (x2, s2)" by (cases "f st'")
  have "x1 = x2" "eval_ok request s1" "eval_ok request s2"
    using transparentD [OF assms(1) ok] transparentD [OF assms(1) ok(2,1)] f1 f2 by auto
  then show "fst (case f st of (x, st) \<Rightarrow> g x st) = fst (case f st' of (x, st) \<Rightarrow> g x st)
      \<and> eval_ok request (snd (case f st of (x, st) \<Rightarrow> g x st))"
    using transparentD [OF assms(2) [of st x1] \<open>eval_ok request s1\<close> \<open>eval_ok request s2\<close>]
      f1 f2 ok \<open>x1 = x2\<close> by simp
qed

lemma transparent_bind [transparent_intros]:
  "transparent request f \<Longrightarrow> (\<And>x. transparent request (g x)) \<Longrightarrow>
     transparent request (\<lambda>st. case f st of (x, st) \<Rightarrow> g x st)"
  by (rule transparent_bind_from)

lemma transparent_if [transparent_intros]:
  "(b \<Longrightarrow> transparent request f) \<Longrightarrow> (\<not> b \<Longrightarrow> transparent request g) \<Longrightarrow>
     transparent request (\<lambda>st. if b then f st else g st)"
  by (cases b) simp_all

lemma transparent_poll [transparent_intros]: "transparent request poll"
proof (rule transparentI [where x = NoReason])
  fix st assume ok: "eval_ok request st"
  obtain r c where s: "stopReason (evs_control st) = (r, c)" by (cases "stopReason (evs_control st)")
  then show "fst (poll st) = NoReason \<and> eval_ok request (snd (poll st))"
    using quiet_stopReason ok by (auto simp: poll_def eval_ok_def)
qed

lemma poll_quiet: "eval_ok request st \<Longrightarrow> poll st = (reason, st') \<Longrightarrow> reason = NoReason \<and> eval_ok request st'"
  using quiet_stopReason by (fastforce simp: poll_def eval_ok_def split: prod.splits)

lemma transparent_select [transparent_intros]:
  "transparent request (selectPredicateValueWithRoots p request)"
proof (rule transparentI [where x = "fst (selectPredicateValueWithRoots p request \<lparr>evs_roots = None, evs_control = None\<rparr>)"])
  fix st assume ok: "eval_ok request st"
  show "fst (selectPredicateValueWithRoots p request st)
        = fst (selectPredicateValueWithRoots p request \<lparr>evs_roots = None, evs_control = None\<rparr>)
      \<and> eval_ok request (snd (selectPredicateValueWithRoots p request st))"
  proof (cases "prd_source (cpr_predicate p) = SourceContext \<and> evs_roots st \<noteq> None")
    case False
    then show ?thesis using ok
      by (cases "prd_source (cpr_predicate p)") (auto simp: selectPredicateValueWithRoots_def)
  next
    case True
    then obtain r where r: "prd_source (cpr_predicate p) = SourceContext" "evs_roots st = Some r" by auto
    obtain x r' where sel: "roots_selectContext r (req_context request) (cpr_tokens p) = (x, r')"
      by (cases "roots_selectContext r (req_context request) (cpr_tokens p)")
    have "roots_ok request r" using ok r by (simp add: eval_ok_def)
    have memo: "root_memo source r' = root_memo source r" for source
      using sel by (cases source) (auto simp: roots_selectContext_def Let_def split: if_splits)
    have "x = selectContext (req_context request) (cpr_tokens p)" "prt_context_ready r' \<longrightarrow> prt_context_value r' = selectContextRoot (req_context request)"
      using sel \<open>roots_ok request r\<close>
      by (auto simp: roots_selectContext_def selectContext_def roots_ok_def Let_def split: if_splits)
    moreover then have "roots_ok request r'" using \<open>roots_ok request r\<close> by (simp add: roots_ok_def memo)
    ultimately show ?thesis using r sel ok by (simp add: selectPredicateValueWithRoots_def eval_ok_def)
  qed
qed

lemma select_root_value:
  assumes "cpr_tokens p = []"
  shows "\<forall>s. prd_source (cpr_predicate p) \<noteq> SourceOther s \<Longrightarrow> eval_ok request st \<Longrightarrow>
    ptr_value (slv_pointer (fst (selectPredicateValueWithRoots p request st))) = root_value request (prd_source (cpr_predicate p))"
  using assms
  by (cases "prd_source (cpr_predicate p)"; cases "evs_roots st")
    (auto simp: selectPredicateValueWithRoots_def root_value_def selectRoot_def roots_selectContext_def
      selectContext_def eval_ok_def roots_ok_def Let_def split: option.splits prod.splits)

lemma root_memo_set:
  "root_memo source r \<noteq> None \<Longrightarrow>
     root_memo s (set_root_memo source m r) = (if s = source then Some m else root_memo s r)"
  by (cases source; cases s) auto

lemma set_root_memo_context [simp]:
  "prt_context_ready (set_root_memo source m r) = prt_context_ready r"
  "prt_context_value (set_root_memo source m r) = prt_context_value r"
  by (cases source; simp)+

lemma memoSize_plain:
  "(csm_ready m \<longrightarrow> (csm_size m, csm_valid m) = plainSize v) \<Longrightarrow>
     (csm_size (memoSize v m), csm_valid (memoSize v m)) = plainSize v \<and> csm_ready (memoSize v m)"
  by (auto simp: memoSize_def)

lemma summarize_memo:
  assumes "csm_ready m \<longrightarrow> (csm_size m, csm_valid m) = plainSize (ptr_value pointer)"
  shows "fst (summarizePointerMemoized pointer (Some m)) = fst (summarizePointerMemoized pointer None)
    \<and> (\<exists>m'. snd (summarizePointerMemoized pointer (Some m)) = Some m'
          \<and> (csm_ready m' \<longrightarrow> (csm_size m', csm_valid m') = plainSize (ptr_value pointer)))"
  using memoSize_plain [OF assms] assms
  by (auto simp: summarizePointerMemoized_def canonicalSize_def Let_def split: prod.splits)

lemma summarize_plain: "snd (summarizePointerMemoized pointer None) = None"
  by (simp add: summarizePointerMemoized_def canonicalSize_def split: prod.splits)

lemma transparent_summarize:
  assumes "\<not> predicate_invalid p validate" and "eval_ok request st0"
    and "selected = fst (selectPredicateValueWithRoots p request st0)"
  shows "transparent request (summarizePredicatePointer p (slv_pointer selected))"
proof (rule transparentI [where x = "fst (summarizePointerMemoized (slv_pointer selected) None)"])
  fix st assume ok: "eval_ok request st"
  let ?ptr = "slv_pointer selected" and ?src = "prd_source (cpr_predicate p)"
  have src: "\<forall>s. ?src \<noteq> SourceOther s" using assms(1) by (auto simp: predicate_invalid_def)
  show "fst (summarizePredicatePointer p ?ptr st) = fst (summarizePointerMemoized ?ptr None)
      \<and> eval_ok request (snd (summarizePredicatePointer p ?ptr st))"
  proof (cases "evs_roots st")
    case None
    then show ?thesis using ok summarize_plain [of ?ptr]
      by (auto simp: summarizePredicatePointer_def split: prod.splits)
  next
    case (Some r)
    show ?thesis
    proof (cases "cpr_tokens p = []")
      case False
      then show ?thesis using ok Some summarize_plain [of ?ptr]
        by (auto simp: summarizePredicatePointer_def split: prod.splits)
    next
      case True
      have v: "ptr_value ?ptr = root_value request ?src"
        using select_root_value [OF True src assms(2)] assms(3) by simp
      obtain m where m: "root_memo ?src r = Some m" using src by (cases ?src) auto
      have r: "roots_ok request r" using ok Some by (simp add: eval_ok_def)
      then have "csm_ready m \<longrightarrow> (csm_size m, csm_valid m) = plainSize (ptr_value ?ptr)"
        using m v by (auto simp: roots_ok_def)
      then obtain x m' where x: "summarizePointerMemoized ?ptr (Some m) = (x, Some m')"
          "x = fst (summarizePointerMemoized ?ptr None)"
          "csm_ready m' \<longrightarrow> (csm_size m', csm_valid m') = plainSize (ptr_value ?ptr)"
        using summarize_memo [of m ?ptr] by (metis prod.collapse)
      have "roots_ok request (set_root_memo ?src m' r)"
        using r m x(3) v by (auto simp: roots_ok_def root_memo_set split: if_splits)
      then show ?thesis using ok Some True m x by (simp add: summarizePredicatePointer_def eval_ok_def)
    qed
  qed
qed

lemma glob_quiet:
  assumes "quiet control" and "glob_matchWithControl g v control = (m, c, r, control')"
  shows "quiet control' \<and> r = NoReason \<and> (\<exists>u. glob_matchWithControl g v None = (m, c, r, u))"
proof (cases g)
  case None
  then show ?thesis using assms by (auto simp: glob_matchWithControl_def)
next
  case (Some x)
  then show ?thesis using assms matchWithWork_quiet [OF assms(1), of x v "matchWorkLimit x (length v)" m c r control']
    by (auto simp: glob_matchWithControl_def)
qed

lemma pattern_quiet:
  assumes q: "quiet control" and e: "evaluatePatternOperator p target control = (s, r, control')"
  shows "quiet control' \<and> \<not> evaluationStopped r \<and> (\<exists>u. evaluatePatternOperator p target None = (s, r, u))"
proof -
  obtain r1 c1 where s1: "stopReason control = (r1, c1)" by (cases "stopReason control")
  have q1: "r1 = NoReason" "quiet c1" using quiet_stopReason [OF q s1] by auto
  obtain r2 c2 where s2: "stopReason c1 = (r2, c2)" by (cases "stopReason c1")
  have q2: "r2 = NoReason" "quiet c2" using quiet_stopReason [OF q1(2) s2] by auto
  obtain m c r3 c3 where g: "glob_matchWithControl (cpr_glob p) (the (value_text target)) c1 = (m, c, r3, c3)"
    by (cases "glob_matchWithControl (cpr_glob p) (the (value_text target)) c1")
  obtain u where g': "quiet c3" "r3 = NoReason" "glob_matchWithControl (cpr_glob p) (the (value_text target)) None = (m, c, r3, u)"
    using glob_quiet [OF q1(2) g] by auto
  show ?thesis
    using e s1 q1 s2 q2 g g'
    by (cases "prd_op (cpr_predicate p) = OperatorGlob"; cases "value_text target";
        cases "cpr_glob p"; cases "cpr_regex p")
      (auto simp: evaluatePatternOperator_def Let_def reasonForMatcher_def split: if_splits)
qed

lemma reasons_not_stopped:
  "operatorTargetState p selected = Some (s, r) \<Longrightarrow> \<not> evaluationStopped r"
  "\<not> evaluationStopped (snd (evaluateMembership op target want))"
  "\<not> evaluationStopped (snd (evaluateEqualityOperator op target want))"
  "\<not> evaluationStopped (snd (evaluateStringOperator op target want))"
  "\<not> evaluationStopped (snd (evaluateNumericOperator op target want))"
  "\<not> evaluationStopped (snd (evaluateURLPredicate lib p target))"
  "\<not> evaluationStopped (snd (evaluateCIDRPredicate lib p target))"
  "\<not> evaluationStopped (snd (evaluatePathPredicate lib p target))"
  by (auto simp: operatorTargetState_def evaluateMembership_def evaluateEqualityOperator_def
      evaluateStringOperator_def evaluateNumericOperator_def evaluateURLPredicate_def
      evaluateCIDRPredicate_def evaluatePathPredicate_def reasonForMatcher_def Let_def
      split: if_splits option.splits)

lemma operator_quiet:
  assumes "quiet control" and "evaluateOperator lib p selected control = (s, r, control')"
  shows "quiet control' \<and> \<not> evaluationStopped r \<and> (\<exists>u. evaluateOperator lib p selected None = (s, r, u))"
proof (cases "operatorTargetState p selected")
  case (Some x)
  then show ?thesis using assms reasons_not_stopped(1) [of p selected s r]
    by (auto simp: evaluateOperator_def with_control_def)
next
  case None
  show ?thesis
  proof (cases "prd_op (cpr_predicate p) \<in> {OperatorGlob, OperatorRegex}")
    case True
    then show ?thesis using assms None pattern_quiet [of control p "ptr_value selected" s r control']
      by (auto simp: evaluateOperator_def Let_def)
  next
    case False
    then show ?thesis using assms None reasons_not_stopped
      by (cases "prd_op (cpr_predicate p)") (auto simp: evaluateOperator_def Let_def with_control_def)
  qed
qed

lemma transparent_operator [transparent_intros]: "transparent request (operator_step lib p selected)"
proof (rule transparentI [where x = "fst (operator_step lib p selected \<lparr>evs_roots = None, evs_control = None\<rparr>)"])
  fix st assume ok: "eval_ok request st"
  obtain s r c where e: "evaluateOperator lib p selected (evs_control st) = (s, r, c)"
    by (cases "evaluateOperator lib p selected (evs_control st)")
  have "quiet (evs_control st)" using ok by (simp add: eval_ok_def)
  then obtain u where "quiet c" "evaluateOperator lib p selected None = (s, r, u)"
    using operator_quiet e by blast
  then show "fst (operator_step lib p selected st)
        = fst (operator_step lib p selected \<lparr>evs_roots = None, evs_control = None\<rparr>)
      \<and> eval_ok request (snd (operator_step lib p selected st))"
    using ok e by (simp add: operator_step_def eval_ok_def)
qed

text \<open>Under a quiet control no predicate is reported as stopped.\<close>

lemma predicate_not_stopped:
  assumes ok: "eval_ok request st"
    and ev: "evaluatePredicateCore lib predicate request d v sr st = (ev, st')"
  shows "\<not> evaluationStopped (pev_reason ev)"
proof -
  obtain r1 s1 where p1: "poll st = (r1, s1)" by (cases "poll st")
  then have ok1: "r1 = NoReason" "eval_ok request s1" using poll_quiet [OF ok] by auto
  show ?thesis
  proof (cases "predicate = None \<or> predicate_invalid (the predicate) v")
    case True
    then show ?thesis using ev p1 ok1
      by (auto simp: evaluatePredicateCore_def indeterminatePredicate_def split: if_splits option.splits)
  next
    case False
    then obtain p where p: "predicate = Some p" "\<not> predicate_invalid p v" by auto
    obtain sel s2 where sel: "selectPredicateValueWithRoots p request s1 = (sel, s2)"
      by (cases "selectPredicateValueWithRoots p request s1")
    have ok2: "eval_ok request s2" using transparentD(2) [OF transparent_select ok1(2) ok1(2), of p] sel by simp
    show ?thesis
    proof (cases "provenanceRefusal p d sel")
      case (Some x)
      then show ?thesis using ev p1 ok1 p sel
        by (auto simp: evaluatePredicateCore_def indeterminatePredicate_def provenanceRefusal_def Let_def
            split: prod.splits if_splits)
    next
      case None
      obtain a s3 where op: "operator_step lib p (slv_pointer sel) s2 = (a, s3)"
        by (cases "operator_step lib p (slv_pointer sel) s2")
      have a: "\<not> evaluationStopped (snd a)"
        using op ok2 operator_quiet by (fastforce simp: operator_step_def eval_ok_def split: prod.splits)
      have ok3: "eval_ok request s3" using transparentD(2) [OF transparent_operator ok2 ok2] op by (metis snd_conv)
      obtain r4 s4 where p4: "poll s3 = (r4, s4)" by (cases "poll s3")
      then have "r4 = NoReason" using poll_quiet [OF ok3] by auto
      then show ?thesis using ev p1 ok1 p sel None op a p4
        by (auto simp: evaluatePredicateCore_def Let_def split: prod.splits if_splits)
    qed
  qed
qed

lemma transparent_predicate [transparent_intros]:
  "transparent request (evaluatePredicateCore lib predicate request ruleDecision validatePointer summaryRequired)"
proof (cases predicate)
  case None
  then show ?thesis unfolding evaluatePredicateCore_def
    by (simp only: option.case) (intro transparent_intros)
next
  case (Some p)
  show ?thesis
  proof (cases "predicate_invalid p validatePointer")
    case True
    then show ?thesis unfolding evaluatePredicateCore_def Some
      by (simp only: option.case if_True) (intro transparent_intros)
  next
    case False
    have tail: "transparent request (\<lambda>st. case provenanceRefusal p ruleDecision selected of
        Some (reason, required) \<Rightarrow>
          (case summarizePredicatePointer p (slv_pointer selected) st of
             (summary, st) \<Rightarrow> (indeterminatePredicate reason (slv_provenance selected) required summary, st))
      | None \<Rightarrow> f st)"
      if "transparent request f" "transparent request (summarizePredicatePointer p (slv_pointer selected))"
      for selected f
      using that by (cases "provenanceRefusal p ruleDecision selected")
        (auto intro!: transparent_intros split: prod.splits)
    show ?thesis unfolding evaluatePredicateCore_def Some Let_def using False
      by (simp only: option.case if_False)
        (intro transparent_intros transparent_bind_from [OF transparent_select] tail
          transparent_summarize [OF False]; assumption)
  qed
qed

section \<open>The stops of a predicate\<close>

text \<open>A result whose reason is a stop is that of the poll that fired, and no other poll fired.\<close>

lemma poll_ran: "poll st = (r, st') \<Longrightarrow> ran (evs_control st) r (evs_control st')"
  using ran_stopReason by (fastforce simp: poll_def split: prod.splits)

lemma poll_polls: "poll st = (r, s1) \<Longrightarrow> 0 < polls (evs_control st) \<Longrightarrow> polls (evs_control s1) < polls (evs_control st)"
  by (auto simp: poll_def stopReason_def polls_def split: option.splits list.splits prod.splits)

lemma pattern_ran:
  assumes "evaluatePatternOperator p target a = (s, r, b)"
  shows "ran a (stopped_as r) b"
proof -
  obtain r1 c1 where s1: "stopReason a = (r1, c1)" by (cases "stopReason a")
  note ran1 = ran_stopReason [OF s1]
  note st1 = ran_stopped [OF ran1]
  obtain m f r2 c2 where g: "glob_matchWithControl (cpr_glob p) (the (value_text target)) c1 = (m, f, r2, c2)"
    by (cases "glob_matchWithControl (cpr_glob p) (the (value_text target)) c1")
  obtain r3 c3 where s3: "stopReason c1 = (r3, c3)" by (cases "stopReason c1")
  show ?thesis
  proof (cases "r1 = NoReason")
    case False
    then show ?thesis using assms s1 ran1 st1 by (simp add: evaluatePatternOperator_def)
  next
    case True
    have "ran a r2 c2" "ran a r3 c3" using ran_trans ran1 True glob_match_ran [OF g] ran_stopReason [OF s3] by blast+
    then show ?thesis using assms s1 True g s3 ran1 glob_match_ran [OF g] ran_stopped [of a r2 c2] ran_stopped [of a r3 c3]
      by (auto simp: evaluatePatternOperator_def reasonForMatcher_def Let_def split: if_splits option.splits)
  qed
qed

lemma reasonForMatcher_not_stopped [simp]: "\<not> evaluationStopped (reasonForMatcher a b)"
  by (simp add: reasonForMatcher_def)

lemma quiet_reasons:
  "operatorTargetState p selected = Some (s, r) \<Longrightarrow> \<not> evaluationStopped r"
  "\<not> evaluationStopped (snd (evaluateEqualityOperator op target want))"
  "\<not> evaluationStopped (snd (evaluateMembership op target want))"
  "\<not> evaluationStopped (snd (evaluateStringOperator op target want))"
  "\<not> evaluationStopped (snd (evaluateNumericOperator op target want))"
  "\<not> evaluationStopped (snd (evaluateURLPredicate lib p target))"
  "\<not> evaluationStopped (snd (evaluateCIDRPredicate lib p target))"
  "\<not> evaluationStopped (snd (evaluatePathPredicate lib p target))"
  by (auto simp: operatorTargetState_def evaluateEqualityOperator_def evaluateMembership_def
      evaluateStringOperator_def evaluateNumericOperator_def evaluateURLPredicate_def
      evaluateCIDRPredicate_def evaluatePathPredicate_def Let_def split: if_splits option.splits)

lemma operator_ran: "evaluateOperator lib p selected a = (s, r, b) \<Longrightarrow> ran a (stopped_as r) b"
  using pattern_ran [of p "ptr_value selected" a] quiet_reasons
  unfolding evaluateOperator_def with_control_def Let_def
  by (cases "operatorTargetState p selected") (auto split: if_splits)

lemma select_control: "selectPredicateValueWithRoots p request st = (selected, st') \<Longrightarrow> evs_control st' = evs_control st"
  by (auto simp: selectPredicateValueWithRoots_def split: value_source.splits option.splits prod.splits)

lemma summarize_control: "summarizePredicatePointer p pointer st = (summary, st') \<Longrightarrow> evs_control st' = evs_control st"
  by (auto simp: summarizePredicatePointer_def Let_def split: option.splits prod.splits)

lemma refusal_not_stopped: "provenanceRefusal p d selected = Some (r, required) \<Longrightarrow> \<not> evaluationStopped r"
  by (auto simp: provenanceRefusal_def Let_def split: if_splits)

lemma predicate_ran:
  assumes "evaluatePredicateCore lib predicate request d v sr st = (ev, st')"
  shows "ran (evs_control st) (stopped_as (pev_reason ev)) (evs_control st')"
proof -
  obtain r1 s1 where p1: "poll st = (r1, s1)" by (cases "poll st")
  note ran1 = poll_ran [OF p1]
  show ?thesis
  proof (cases "r1 \<noteq> NoReason \<or> predicate = None \<or> predicate_invalid (the predicate) v")
    case True
    then show ?thesis using assms p1 ran1 ran_stopped [OF ran1]
      by (auto simp: evaluatePredicateCore_def indeterminatePredicate_def split: if_splits option.splits)
  next
    case False
    then obtain p where p: "predicate = Some p" "\<not> predicate_invalid p v" "r1 = NoReason" by auto
    obtain sel s2 where sel: "selectPredicateValueWithRoots p request s1 = (sel, s2)"
      by (cases "selectPredicateValueWithRoots p request s1")
    have ran2: "ran (evs_control st) NoReason (evs_control s2)" using ran1 p(3) select_control [OF sel] by simp
    show ?thesis
    proof (cases "provenanceRefusal p d sel")
      case (Some x)
      then show ?thesis using assms p1 p sel ran2 refusal_not_stopped summarize_control
        by (cases x) (fastforce simp: evaluatePredicateCore_def indeterminatePredicate_def split: prod.splits)
    next
      case None
      obtain a s3 where op: "operator_step lib p (slv_pointer sel) s2 = (a, s3)"
        by (cases "operator_step lib p (slv_pointer sel) s2")
      have ran3: "ran (evs_control s2) (stopped_as (snd a)) (evs_control s3)"
        using op operator_ran by (auto simp: operator_step_def split: prod.splits)
      obtain r4 s4 where p4: "poll s3 = (r4, s4)" by (cases "poll s3")
      note ran4 = poll_ran [OF p4]
      note run = assms [unfolded evaluatePredicateCore_def p1 p(1), simplified, unfolded p(3), simplified]
      show ?thesis
      proof (cases "evaluationStopped (snd a)")
        case True
        then show ?thesis using assms p1 p sel None op ran_trans [OF ran2 ran3]
          by (auto simp: evaluatePredicateCore_def indeterminatePredicate_def Let_def)
      next
        case False
        then have "ran (evs_control st) r4 (evs_control s4)"
          using ran_trans [OF ran_trans [OF ran2] ran4] ran3 by simp
        moreover have "evs_control st' = evs_control s4" "pev_reason ev = (if r4 = NoReason then snd a else r4)"
          using assms p1 p sel None op False p4 summarize_control
          by (auto simp: evaluatePredicateCore_def indeterminatePredicate_def Let_def split: prod.splits if_splits)
        ultimately show ?thesis using ran_stopped [of _ r4] False by (metis stopped_as_simps(2))
      qed
    qed
  qed
qed

section \<open>Properties\<close>

text \<open>
  C38: whatever the memo already holds of the request and whatever control is polled, a control
  that never fires and a coherent memo leave the evaluation of a predicate as it is with
  neither, so caching and cancellation support cannot change a policy answer.
\<close>

theorem predicate_memo_control_irrelevant:
  assumes "eval_ok request st"
  shows "fst (evaluatePredicateCore lib predicate request d validatePointer summaryRequired st)
      = fst (evaluatePredicateCore lib predicate request d validatePointer summaryRequired
               \<lparr>evs_roots = None, evs_control = None\<rparr>)
    \<and> eval_ok request (snd (evaluatePredicateCore lib predicate request d validatePointer summaryRequired st))"
proof -
  have "eval_ok request \<lparr>evs_roots = None, evs_control = None\<rparr>" by (simp add: eval_ok_start)
  then show ?thesis using transparentD [OF transparent_predicate assms] by blast
qed

definition example_request :: request where
  "example_request =
     \<lparr>req_format_version = ''1'', req_call_id = ''call'', req_transport = TransportMCPStdio,
      req_platform = [], req_server_label = ''srv'', req_server_fingerprint = ''fp'', req_tool = ''tool'',
      req_tool_contract_digest = ''digest'', req_phase = PhasePreCall, req_repository_identity = ''repo'',
      req_policy_digest = ''pd'', req_lock_digest = ''ld'', req_authority_mode = AuthorityOperatorPinned,
      req_arguments = Some (JString ''x''), req_result = None, req_progress = None,
      req_context = [\<lparr>ctx_name = ''env'', ctx_value = JString ''prod'',
        ctx_provenance = ProvenanceHostObserved, ctx_available = True\<rparr>],
      req_completeness = CompleteEvidence, req_deadline = DeadlineReady, req_state_version = ''sv''\<rparr>"

definition example_predicate :: compiled_predicate where
  "example_predicate =
     \<lparr>cpr_predicate = \<lparr>prd_source = SourceContext, prd_pointer = ''/env'',
        prd_minimum_provenance = ProvenanceHostObserved, prd_op = OperatorEqual,
        prd_value = Some (JString ''prod'')\<rparr>,
      cpr_tokens = [''env''], cpr_regex = None, cpr_glob = None, cpr_url = None, cpr_cidrs = [], cpr_path = None\<rparr>"

theorem predicate_memo_control_irrelevant_witness:
  "fst (evaluatePredicateCore example_lib (Some example_predicate) example_request DecisionAllow False True
        \<lparr>evs_roots = Some noRoots, evs_control = None\<rparr>)
      = fst (evaluatePredicateCore example_lib (Some example_predicate) example_request DecisionAllow False True
               \<lparr>evs_roots = None, evs_control = None\<rparr>)
    \<and> eval_ok example_request (snd (evaluatePredicateCore example_lib (Some example_predicate) example_request
          DecisionAllow False True \<lparr>evs_roots = Some noRoots, evs_control = None\<rparr>))"
  by (rule predicate_memo_control_irrelevant) (simp add: eval_ok_start)

text \<open>The answers of an operator: determinate without a reason, or indeterminate.\<close>

definition answer_ok :: "condition_state \<Rightarrow> reason_code \<Rightarrow> bool" where
  "answer_ok state reason \<longleftrightarrow>
     state = ConditionIndeterminate \<or> (state = ConditionTrue \<or> state = ConditionFalse) \<and> reason = NoReason"

lemma answer_ok_bool [simp]: "answer_ok (conditionFromBool b) NoReason"
  by (simp add: answer_ok_def conditionFromBool_def)

lemma answer_ok_determinate [simp]: "answer_ok ConditionTrue NoReason" "answer_ok ConditionFalse NoReason"
  by (simp_all add: answer_ok_def)

lemma answer_ok_indeterminate [simp]: "answer_ok ConditionIndeterminate r"
  by (simp add: answer_ok_def)

lemma answer_ok_path: "answer_ok (matchPathConstraint lib s c) NoReason"
  by (auto simp: matchPathConstraint_def Let_def split: option.splits prod.splits)

lemma answer_ok_url: "answer_ok (matchURLConstraint lib s c) NoReason"
  by (auto simp: matchURLConstraint_def answer_ok_def split: option.splits)

lemma answer_ok_cidr: "answer_ok (matchCIDRs lib s ps) NoReason"
  by (auto simp: matchCIDRs_def matchPrefixes_iff split: option.splits)

lemma operatorTargetState_answer: "operatorTargetState p selected = Some (s, r) \<Longrightarrow> answer_ok s r"
  by (auto simp: operatorTargetState_def answer_ok_def Let_def split: if_splits)

lemma pattern_answer: "evaluatePatternOperator p target control = (s, r, c) \<Longrightarrow> answer_ok s r"
  by (auto simp: evaluatePatternOperator_def Let_def split: if_splits prod.splits option.splits)

lemma membership_answer: "answer_ok (fst (evaluateMembership op target want)) (snd (evaluateMembership op target want))"
  by (auto simp: evaluateMembership_def Let_def split: option.splits)

lemma simple_answers:
  "answer_ok (fst (evaluateEqualityOperator op target want)) (snd (evaluateEqualityOperator op target want))"
  "answer_ok (fst (evaluateStringOperator op target want)) (snd (evaluateStringOperator op target want))"
  "answer_ok (fst (evaluateNumericOperator op target want)) (snd (evaluateNumericOperator op target want))"
  by (auto simp: evaluateEqualityOperator_def evaluateStringOperator_def evaluateNumericOperator_def Let_def
      split: option.splits)

lemma target_answers:
  "answer_ok (fst (evaluateURLPredicate lib p target)) (snd (evaluateURLPredicate lib p target))"
  "answer_ok (fst (evaluateCIDRPredicate lib p target)) (snd (evaluateCIDRPredicate lib p target))"
  "answer_ok (fst (evaluatePathPredicate lib p target)) (snd (evaluatePathPredicate lib p target))"
  by (auto simp: evaluateURLPredicate_def evaluateCIDRPredicate_def evaluatePathPredicate_def
      answer_ok_path answer_ok_url answer_ok_cidr split: option.splits)

lemma operator_answer: "evaluateOperator lib p selected control = (s, r, c) \<Longrightarrow> answer_ok s r"
  using operatorTargetState_answer [of p selected] pattern_answer
    membership_answer simple_answers target_answers
  unfolding evaluateOperator_def with_control_def Let_def
  by (cases "operatorTargetState p selected") (auto split: if_splits)

lemma predicate_evaluation_shape:
  assumes "evaluatePredicateCore lib predicate request d v sr st = (ev, st')"
  shows "answer_ok (pev_state ev) (pev_reason ev) \<and> (pev_complete ev \<longleftrightarrow> pev_state ev \<noteq> ConditionIndeterminate)"
  using assms operator_answer
  unfolding evaluatePredicateCore_def
  by (auto simp: indeterminatePredicate_def operator_step_def Let_def
      split: prod.splits if_splits option.splits)

text \<open>
  C39: a determinate answer never rests on context below the provenance the predicate requires,
  nor on unavailable context, and under an allow rule a determinate \<open>path_within\<close> answer rests on
  provenance of at least host observation. Determinate answers are exactly the complete ones and
  carry no reason.
\<close>

theorem determinate_answer_trusted:
  assumes "evaluatePredicateCore lib (Some p) request d validatePointer summaryRequired st = (ev, st')"
    and "pev_state ev \<noteq> ConditionIndeterminate"
  shows "pev_complete ev \<and> pev_reason ev = NoReason
    \<and> (prd_source (cpr_predicate p) = SourceContext \<longrightarrow>
         rank (prd_minimum_provenance (cpr_predicate p)) \<le> rank (pev_actual ev))
    \<and> (prd_op (cpr_predicate p) = OperatorPathWithin \<and> d = DecisionAllow \<longrightarrow>
         rank ProvenanceHostObserved \<le> rank (pev_actual ev))"
proof -
  have shape: "pev_complete ev \<and> pev_reason ev = NoReason"
    using predicate_evaluation_shape [OF assms(1)] assms(2) by (auto simp: answer_ok_def)
  obtain r1 s1 where p1: "poll st = (r1, s1)" by (cases "poll st")
  obtain sel s2 where sel: "selectPredicateValueWithRoots p request s1 = (sel, s2)"
    by (cases "selectPredicateValueWithRoots p request s1")
  have none: "provenanceRefusal p d sel = None"
    using assms p1 sel unfolding evaluatePredicateCore_def
    by (auto simp: indeterminatePredicate_def split: if_splits option.splits prod.splits)
  have actual: "pev_actual ev = slv_provenance sel"
    using assms p1 sel none unfolding evaluatePredicateCore_def
    by (auto simp: indeterminatePredicate_def Let_def split: if_splits option.splits prod.splits)
  show ?thesis using shape none actual by (auto simp: provenanceRefusal_def Let_def split: if_splits)
qed

theorem determinate_answer_trusted_witness:
  "\<exists>ev :: predicate_evaluation. pev_complete ev \<and> pev_reason ev = NoReason
    \<and> (prd_source (cpr_predicate example_predicate) = SourceContext \<longrightarrow>
         rank (prd_minimum_provenance (cpr_predicate example_predicate)) \<le> rank (pev_actual ev))
    \<and> (prd_op (cpr_predicate example_predicate) = OperatorPathWithin \<and> DecisionAllow = DecisionAllow \<longrightarrow>
         rank ProvenanceHostObserved \<le> rank (pev_actual ev))"
proof -
  define r where "r = evaluatePredicateCore example_lib (Some example_predicate) example_request DecisionAllow
      False False \<lparr>evs_roots = None, evs_control = None\<rparr>"
  have "pev_state (fst r) = ConditionTrue"
    by (simp add: r_def evaluatePredicateCore_def poll_def predicate_invalid_def example_predicate_def
        selectPredicateValueWithRoots_def selectContext_def selectContextMember_def sortContext_def
        search_from.simps example_request_def provenanceRefusal_def operator_step_def evaluateOperator_def
        operatorTargetState_def with_control_def evaluateEqualityOperator_def conditionFromBool_def)
  then have ne: "pev_state (fst r) \<noteq> ConditionIndeterminate" by simp
  have eq: "evaluatePredicateCore example_lib (Some example_predicate) example_request DecisionAllow
      False False \<lparr>evs_roots = None, evs_control = None\<rparr> = (fst r, snd r)" by (simp add: r_def)
  show ?thesis using determinate_answer_trusted [OF eq ne] by blast
qed

section \<open>Indeterminate answers without a reason\<close>

text \<open>
  The only indeterminate answers of an operator without a reason code are those on a URL, address
  (one with a zone among them) or path that cannot be read, or a path on another volume; the empty code is not a valid one.
\<close>

definition unreadable_target :: "stdlib \<Rightarrow> compiled_predicate \<Rightarrow> json_value \<Rightarrow> bool" where
  "unreadable_target lib p v \<longleftrightarrow>
     (case value_text v of
        None \<Rightarrow> False
      | Some s \<Rightarrow>
          prd_op (cpr_predicate p) = OperatorURL \<and> cpr_url p \<noteq> None \<and> normalizeURLTarget lib s = None
          \<or> prd_op (cpr_predicate p) = OperatorCIDR \<and> cpr_cidrs p \<noteq> []
            \<and> (lib_parseAddr lib s = None \<or> CHR ''%'' \<in> set s)
          \<or> prd_op (cpr_predicate p) = OperatorPathWithin
            \<and> (\<exists>c. cpr_path p = Some c \<and> matchPathConstraint lib s c = ConditionIndeterminate))"

lemma conditionFromBool_determinate [simp]: "conditionFromBool b \<noteq> ConditionIndeterminate"
  by (simp add: conditionFromBool_def)

lemma reasonForMatcher_none [simp]: "reasonForMatcher a b = NoReason \<longleftrightarrow> a \<and> b"
  by (simp add: reasonForMatcher_def)

lemma matchURL_indeterminate:
  "matchURLConstraint lib s u = ConditionIndeterminate \<longleftrightarrow> normalizeURLTarget lib s = None"
  by (auto simp: matchURLConstraint_def split: option.splits)

lemma matchCIDRs_indeterminate:
  "ps \<noteq> [] \<Longrightarrow> matchCIDRs lib s ps = ConditionIndeterminate \<longleftrightarrow> (lib_parseAddr lib s = None \<or> CHR ''%'' \<in> set s)"
  by (auto simp: matchCIDRs_def matchPrefixes_iff split: option.splits)

lemma pattern_reason: "evaluatePatternOperator p v a = (ConditionIndeterminate, r, b) \<Longrightarrow> r \<noteq> NoReason"
  by (auto simp: evaluatePatternOperator_def Let_def split: if_splits prod.splits option.splits)

lemma value_operators_reason:
  "evaluateEqualityOperator op target want = (ConditionIndeterminate, r) \<Longrightarrow> r \<noteq> NoReason"
  "evaluateMembership op target want = (ConditionIndeterminate, r) \<Longrightarrow> r \<noteq> NoReason"
  "evaluateStringOperator op target want = (ConditionIndeterminate, r) \<Longrightarrow> r \<noteq> NoReason"
  "evaluateNumericOperator op target want = (ConditionIndeterminate, r) \<Longrightarrow> r \<noteq> NoReason"
  by (auto simp: evaluateEqualityOperator_def evaluateMembership_def evaluateStringOperator_def
      evaluateNumericOperator_def Let_def split: if_splits option.splits)

lemma target_operators_reason:
  "prd_op (cpr_predicate p) = OperatorURL \<Longrightarrow>
     evaluateURLPredicate lib p v = (ConditionIndeterminate, NoReason) \<longleftrightarrow> unreadable_target lib p v"
  "prd_op (cpr_predicate p) = OperatorCIDR \<Longrightarrow>
     evaluateCIDRPredicate lib p v = (ConditionIndeterminate, NoReason) \<longleftrightarrow> unreadable_target lib p v"
  "prd_op (cpr_predicate p) = OperatorPathWithin \<Longrightarrow>
     evaluatePathPredicate lib p v = (ConditionIndeterminate, NoReason) \<longleftrightarrow> unreadable_target lib p v"
  by (auto simp: unreadable_target_def evaluateURLPredicate_def evaluateCIDRPredicate_def evaluatePathPredicate_def
      matchURL_indeterminate matchCIDRs_indeterminate split: option.splits)

lemma indeterminate_without_reason_iff:
  assumes "operatorTargetState p selected = None"
  shows "(\<exists>c. evaluateOperator lib p selected control = (ConditionIndeterminate, NoReason, c))
    \<longleftrightarrow> unreadable_target lib p (ptr_value selected)"
proof -
  have none: "\<not> unreadable_target lib p (ptr_value selected)"
    if "prd_op (cpr_predicate p) \<notin> {OperatorURL, OperatorCIDR, OperatorPathWithin}"
    using that by (auto simp: unreadable_target_def split: option.splits)
  show ?thesis
    using assms none pattern_reason [of p "ptr_value selected" control NoReason] value_operators_reason [of _ "ptr_value selected" "the (prd_value (cpr_predicate p))" NoReason]
      target_operators_reason [of p lib "ptr_value selected"]
    unfolding evaluateOperator_def with_control_def Let_def by (auto simp: prod_eq_iff)
qed

end
