(* ===== verification/Action_Condition.thy ===== *)
theory Action_Condition
  imports Action_Predicate
begin

text \<open>
  The evaluation of a condition tree (condition_eval.go): three-valued all, any and not over
  predicates, with the merge of reasons and provenance for the trace and the loop that skips
  children whose metadata is known once the parent is decided. The specification is the plain
  evaluation of every child; the lemmas show that skipping never changes a result, and that the
  truth value is strong Kleene logic over the predicates.
\<close>

section \<open>The code\<close>

definition MaxConditionDepth :: nat where "MaxConditionDepth = 16"
definition MaxConditionNodes :: nat where "MaxConditionNodes = 1024"

record condition_evaluation =
  cev_state :: condition_state
  cev_reason :: reason_code
  cev_actual :: provenance
  cev_required :: provenance
  cev_complete :: bool
  cev_summary :: operand_summary
  cev_nodes :: nat

text \<open>The zero \<open>conditionEvaluation\<close>.\<close>

definition noEvaluation :: condition_evaluation where
  "noEvaluation = \<lparr>cev_state = ConditionStateUnset, cev_reason = NoReason, cev_actual = ProvenanceUnset,
     cev_required = ProvenanceUnset, cev_complete = False, cev_summary = noSummary, cev_nodes = 0\<rparr>"

definition stoppedConditionEvaluation :: "reason_code \<Rightarrow> condition_evaluation" where
  "stoppedConditionEvaluation reason =
     noEvaluation\<lparr>cev_state := ConditionIndeterminate, cev_reason := reason\<rparr>"

definition invalidConditionEvaluation :: "nat \<Rightarrow> condition_evaluation" where
  "invalidConditionEvaluation nodes =
     noEvaluation\<lparr>cev_state := ConditionIndeterminate, cev_reason := ReasonInternalInvariant,
       cev_nodes := nodes\<rparr>"

fun conditionReasonStrength :: "reason_code \<Rightarrow> nat" where
  "conditionReasonStrength ReasonDeadlineExceeded = 6"
| "conditionReasonStrength ReasonCancelled = 6"
| "conditionReasonStrength ReasonInternalInvariant = 5"
| "conditionReasonStrength ReasonLimitExceeded = 4"
| "conditionReasonStrength ReasonContextUntrusted = 3"
| "conditionReasonStrength ReasonIdentityUnavailable = 2"
| "conditionReasonStrength ReasonConditionIndeterminate = 1"
| "conditionReasonStrength r = 0"

text \<open>The three steps of a merge: the stronger reason, the lower actual and the higher required provenance.\<close>

definition merge_reason :: "condition_evaluation \<Rightarrow> condition_evaluation \<Rightarrow> condition_evaluation" where
  "merge_reason target child =
     (if conditionReasonStrength (cev_reason target) < conditionReasonStrength (cev_reason child)
      then target\<lparr>cev_reason := cev_reason child, cev_summary := cev_summary child\<rparr>
      else target)"

definition merge_actual :: "condition_evaluation \<Rightarrow> condition_evaluation \<Rightarrow> condition_evaluation" where
  "merge_actual target child =
     (if provenance_valid (cev_actual child)
         \<and> (\<not> provenance_valid (cev_actual target) \<or> rank (cev_actual child) < rank (cev_actual target))
      then target\<lparr>cev_actual := cev_actual child\<rparr> else target)"

definition merge_required :: "condition_evaluation \<Rightarrow> condition_evaluation \<Rightarrow> condition_evaluation" where
  "merge_required target child =
     (if provenance_valid (cev_required child)
         \<and> (\<not> provenance_valid (cev_required target) \<or> rank (cev_required target) < rank (cev_required child))
      then target\<lparr>cev_required := cev_required child\<rparr> else target)"

definition mergeConditionMetadata :: "condition_evaluation \<Rightarrow> condition_evaluation \<Rightarrow> condition_evaluation" where
  "mergeConditionMetadata target child =
     merge_required (merge_actual (merge_reason target child) child) child"

definition combine_state :: "condition_kind \<Rightarrow> condition_state \<Rightarrow> condition_state \<Rightarrow> condition_state" where
  "combine_state kind result child =
     (if kind = ConditionAll then
        (if child = ConditionFalse then ConditionFalse
         else if child = ConditionIndeterminate \<and> result = ConditionTrue then ConditionIndeterminate
         else result)
      else
        (if child = ConditionTrue then ConditionTrue
         else if child = ConditionIndeterminate \<and> result = ConditionFalse then ConditionIndeterminate
         else result))"

definition combineConditionChild ::
  "condition_evaluation \<Rightarrow> condition_kind \<Rightarrow> condition_evaluation \<Rightarrow> condition_evaluation" where
  "combineConditionChild result kind child =
     (let result = result\<lparr>cev_complete := cev_complete result \<and> cev_complete child\<rparr>;
          result = mergeConditionMetadata result child
      in result\<lparr>cev_state := combine_state kind (cev_state result) (cev_state child)\<rparr>)"

definition conditionStateDecisive :: "condition_kind \<Rightarrow> condition_state \<Rightarrow> bool" where
  "conditionStateDecisive kind state \<longleftrightarrow>
     kind = ConditionAll \<and> state = ConditionFalse \<or> kind = ConditionAny \<and> state = ConditionTrue"

definition requestOwnedValueSource :: "value_source \<Rightarrow> bool" where
  "requestOwnedValueSource source \<longleftrightarrow>
     source = SourceArguments \<or> source = SourceResult \<or> source = SourceProgress"

text \<open>The metadata of a subtree that need not be evaluated, and whether it is safe to use it.\<close>

definition skip_predicate :: "compiled_condition \<Rightarrow> condition_evaluation option" where
  "skip_predicate c =
     (case cnd_predicate c of
        None \<Rightarrow> None
      | Some p \<Rightarrow>
          if length (cnd_children c) \<noteq> 0 \<or> prd_op (cpr_predicate p) \<noteq> OperatorExists
             \<or> length (cpr_tokens p) \<noteq> 0
             \<or> \<not> requestOwnedValueSource (prd_source (cpr_predicate p)) then None
          else Some (noEvaluation\<lparr>cev_actual := ProvenanceAgentSupplied,
                 cev_required := prd_minimum_provenance (cpr_predicate p),
                 cev_complete := True, cev_nodes := 1\<rparr>))"

lemma children_size: "size_list (size_option size) (cnd_children c) < Suc (size c)"
  by (cases c) auto

lemma only_child_size: "cnd_children c = [child] \<Longrightarrow> size_option size child < Suc (size c)"
  by (cases c) auto

function skippedConditionMetadata ::
    "compiled_condition option \<Rightarrow> nat \<Rightarrow> eval_state \<Rightarrow> (condition_evaluation \<times> bool) \<times> eval_state"
  and skippedChildren ::
    "compiled_condition option list \<Rightarrow> nat \<Rightarrow> condition_evaluation \<Rightarrow> eval_state \<Rightarrow>
       (condition_evaluation \<times> bool) \<times> eval_state"
where
  "skippedConditionMetadata condition depth st =
     (case poll st of
        (reason, st) \<Rightarrow>
          if reason \<noteq> NoReason then ((stoppedConditionEvaluation reason, False), st)
          else
            (case condition of
               None \<Rightarrow> ((noEvaluation\<lparr>cev_complete := True\<rparr>, True), st)
             | Some c \<Rightarrow>
                 if MaxConditionDepth < depth then ((noEvaluation, False), st)
                 else if cnd_kind c = ConditionPredicate then
                   (case skip_predicate c of
                      None \<Rightarrow> ((noEvaluation, False), st)
                    | Some metadata \<Rightarrow> ((metadata, True), st))
                 else if cnd_kind c = ConditionNot then
                   (case (cnd_predicate c, cnd_children c) of
                      (None, [child]) \<Rightarrow>
                        (case skippedConditionMetadata child (depth + 1) st of
                           ((metadata, safe), st) \<Rightarrow>
                             if evaluationStopped (cev_reason metadata) then ((metadata, False), st)
                             else if \<not> safe \<or> MaxConditionNodes \<le> cev_nodes metadata then
                               ((noEvaluation, False), st)
                             else ((metadata\<lparr>cev_nodes := cev_nodes metadata + 1\<rparr>, True), st))
                    | _ \<Rightarrow> ((noEvaluation, False), st))
                 else if cnd_kind c = ConditionAll \<or> cnd_kind c = ConditionAny then
                   (if cnd_predicate c \<noteq> None \<or> length (cnd_children c) = 0 then ((noEvaluation, False), st)
                    else skippedChildren (cnd_children c) depth
                           (noEvaluation\<lparr>cev_complete := True, cev_nodes := 1\<rparr>) st)
                 else ((noEvaluation, False), st)))"
| "skippedChildren [] depth result st = ((result, True), st)"
| "skippedChildren (child # children) depth result st =
     (case skippedConditionMetadata child (depth + 1) st of
        ((metadata, safe), st) \<Rightarrow>
          if evaluationStopped (cev_reason metadata) then ((metadata, False), st)
          else if \<not> safe \<or> MaxConditionNodes - cev_nodes metadata < cev_nodes result then
            ((noEvaluation, False), st)
          else skippedChildren children depth
                 (mergeConditionMetadata (result\<lparr>cev_nodes := cev_nodes result + cev_nodes metadata\<rparr>) metadata)
                 st)"
  by pat_completeness auto
termination
  by (relation "measure (\<lambda>x. case x of Inl (c, d, s) \<Rightarrow> size_option size c
      | Inr (cs, d, r, s) \<Rightarrow> size_list (size_option size) cs)")
    (auto simp: children_size only_child_size)

declare skippedConditionMetadata.simps [simp del] skippedChildren.simps [simp del]

definition predicateEvaluation :: "predicate_evaluation \<Rightarrow> condition_evaluation" where
  "predicateEvaluation ev =
     \<lparr>cev_state = pev_state ev, cev_reason = pev_reason ev, cev_actual = pev_actual ev,
      cev_required = pev_required ev, cev_complete = pev_complete ev, cev_summary = pev_summary ev,
      cev_nodes = 1\<rparr>"

definition negateEvaluation :: "condition_evaluation \<Rightarrow> condition_evaluation" where
  "negateEvaluation child =
     (let child = child\<lparr>cev_nodes := cev_nodes child + 1\<rparr>
      in if MaxConditionNodes < cev_nodes child then invalidConditionEvaluation (cev_nodes child)
         else if cev_state child = ConditionTrue then child\<lparr>cev_state := ConditionFalse\<rparr>
         else if cev_state child = ConditionFalse then child\<lparr>cev_state := ConditionTrue\<rparr>
         else child)"

definition logicalStart :: "condition_kind \<Rightarrow> condition_evaluation" where
  "logicalStart kind =
     noEvaluation\<lparr>cev_complete := True, cev_nodes := 1,
       cev_state := (if kind = ConditionAll then ConditionTrue else ConditionFalse)\<rparr>"

definition logicalFinish :: "condition_evaluation \<Rightarrow> condition_evaluation" where
  "logicalFinish result =
     (if cev_state result \<noteq> ConditionIndeterminate
      then result\<lparr>cev_reason := NoReason, cev_complete := True\<rparr> else result)"

text \<open>
  The evaluator. The loop over the children returns \<open>Inl\<close> for an early return of the code and
  \<open>Inr\<close> for the accumulated result; \<open>skipLoop\<close> is the inner loop that a decided parent enters.
\<close>

function evaluateConditionTreeCore ::
    "stdlib \<Rightarrow> request \<Rightarrow> decision \<Rightarrow> bool \<Rightarrow> bool \<Rightarrow> compiled_condition option \<Rightarrow> nat \<Rightarrow> eval_state \<Rightarrow>
       condition_evaluation \<times> eval_state"
  and logicalLoop ::
    "stdlib \<Rightarrow> request \<Rightarrow> decision \<Rightarrow> bool \<Rightarrow> condition_kind \<Rightarrow> compiled_condition option list \<Rightarrow> nat \<Rightarrow>
       condition_evaluation \<Rightarrow> eval_state \<Rightarrow> (condition_evaluation + condition_evaluation) \<times> eval_state"
  and skipLoop ::
    "stdlib \<Rightarrow> request \<Rightarrow> decision \<Rightarrow> bool \<Rightarrow> condition_kind \<Rightarrow> compiled_condition option list \<Rightarrow> nat \<Rightarrow>
       condition_evaluation \<Rightarrow> eval_state \<Rightarrow> (condition_evaluation + condition_evaluation) \<times> eval_state"
where
  "evaluateConditionTreeCore lib request d vp sr condition depth st =
     (case poll st of
        (reason, st) \<Rightarrow>
          if reason \<noteq> NoReason then (stoppedConditionEvaluation reason, st)
          else
            (case condition of
               None \<Rightarrow> (noEvaluation\<lparr>cev_state := ConditionTrue, cev_complete := True\<rparr>, st)
             | Some c \<Rightarrow>
                 if MaxConditionDepth < depth then (invalidConditionEvaluation 1, st)
                 else if cnd_kind c = ConditionPredicate then
                   (if cnd_predicate c = None \<or> length (cnd_children c) \<noteq> 0
                    then (invalidConditionEvaluation 1, st)
                    else (case evaluatePredicateCore lib (cnd_predicate c) request d vp sr st of
                        (ev, st) \<Rightarrow> (predicateEvaluation ev, st)))
                 else if cnd_kind c = ConditionNot then
                   (case (cnd_predicate c, cnd_children c) of
                      (None, [child]) \<Rightarrow>
                        (case evaluateConditionTreeCore lib request d vp sr child (depth + 1) st of
                           (ev, st) \<Rightarrow>
                             if evaluationStopped (cev_reason ev) then (ev, st) else (negateEvaluation ev, st))
                    | _ \<Rightarrow> (invalidConditionEvaluation 1, st))
                 else if cnd_kind c = ConditionAll \<or> cnd_kind c = ConditionAny then
                   (if cnd_predicate c \<noteq> None \<or> length (cnd_children c) = 0
                    then (invalidConditionEvaluation 1, st)
                    else (case logicalLoop lib request d vp (cnd_kind c) (cnd_children c) depth
                                 (logicalStart (cnd_kind c)) st of
                        (Inl ev, st) \<Rightarrow> (ev, st)
                      | (Inr ev, st) \<Rightarrow> (logicalFinish ev, st)))
                 else (invalidConditionEvaluation 1, st)))"
| "logicalLoop lib request d vp kind [] depth result st = (Inr result, st)"
| "logicalLoop lib request d vp kind (child # children) depth result st =
     (case evaluateConditionTreeCore lib request d vp False child (depth + 1) st of
        (ev, st) \<Rightarrow>
          if evaluationStopped (cev_reason ev) then (Inl ev, st)
          else
            (let result = result\<lparr>cev_nodes := cev_nodes result + cev_nodes ev\<rparr>
             in if MaxConditionNodes < cev_nodes result
                then (Inl (invalidConditionEvaluation (cev_nodes result)), st)
                else
                  (let result = combineConditionChild result kind ev
                   in if \<not> conditionStateDecisive kind (cev_state result)
                      then logicalLoop lib request d vp kind children depth result st
                      else skipLoop lib request d vp kind children depth result st)))"
| "skipLoop lib request d vp kind [] depth result st = (Inr result, st)"
| "skipLoop lib request d vp kind (child # children) depth result st =
     (case skippedConditionMetadata child (depth + 1) st of
        ((metadata, safe), st) \<Rightarrow>
          if evaluationStopped (cev_reason metadata) then (Inl metadata, st)
          else if \<not> safe \<or> MaxConditionNodes - cev_nodes metadata < cev_nodes result
          then logicalLoop lib request d vp kind (child # children) depth result st
          else skipLoop lib request d vp kind children depth
                 (mergeConditionMetadata (result\<lparr>cev_nodes := cev_nodes result + cev_nodes metadata\<rparr>) metadata)
                 st)"
  by pat_completeness auto
termination
  by (relation "measures
      [\<lambda>x. case x of
         Inl (lib, request, d, vp, sr, c, depth, st) \<Rightarrow> size_option size c
       | Inr (Inl (lib, request, d, vp, kind, cs, depth, result, st)) \<Rightarrow> size_list (size_option size) cs
       | Inr (Inr (lib, request, d, vp, kind, cs, depth, result, st)) \<Rightarrow> size_list (size_option size) cs,
       \<lambda>x. case x of Inr (Inr y) \<Rightarrow> 1 | _ \<Rightarrow> 0]")
    (auto simp: children_size only_child_size)

declare evaluateConditionTreeCore.simps [simp del] logicalLoop.simps [simp del] skipLoop.simps [simp del]

definition evaluateConditionTreeWithRootsControl ::
  "stdlib \<Rightarrow> compiled_condition option \<Rightarrow> request \<Rightarrow> decision \<Rightarrow> nat \<Rightarrow> eval_state \<Rightarrow>
     condition_evaluation \<times> eval_state" where
  "evaluateConditionTreeWithRootsControl lib condition request d depth st =
     evaluateConditionTreeCore lib request d False True condition depth st"

section \<open>The specification: every child is evaluated\<close>

text \<open>The evaluation of a predicate without a memo and without a control.\<close>

definition plainPredicate ::
  "stdlib \<Rightarrow> request \<Rightarrow> decision \<Rightarrow> bool \<Rightarrow> bool \<Rightarrow> compiled_predicate option \<Rightarrow> condition_evaluation" where
  "plainPredicate lib request d vp sr p =
     predicateEvaluation (fst (evaluatePredicateCore lib p request d vp sr
       \<lparr>evs_roots = None, evs_control = None\<rparr>))"

function plainTree ::
    "stdlib \<Rightarrow> request \<Rightarrow> decision \<Rightarrow> bool \<Rightarrow> bool \<Rightarrow> compiled_condition option \<Rightarrow> nat \<Rightarrow> condition_evaluation"
  and plainChildren ::
    "stdlib \<Rightarrow> request \<Rightarrow> decision \<Rightarrow> bool \<Rightarrow> condition_kind \<Rightarrow> compiled_condition option list \<Rightarrow> nat \<Rightarrow>
       condition_evaluation \<Rightarrow> condition_evaluation + condition_evaluation"
where
  "plainTree lib request d vp sr condition depth =
     (case condition of
        None \<Rightarrow> noEvaluation\<lparr>cev_state := ConditionTrue, cev_complete := True\<rparr>
      | Some c \<Rightarrow>
          if MaxConditionDepth < depth then invalidConditionEvaluation 1
          else if cnd_kind c = ConditionPredicate then
            (if cnd_predicate c = None \<or> length (cnd_children c) \<noteq> 0 then invalidConditionEvaluation 1
             else plainPredicate lib request d vp sr (cnd_predicate c))
          else if cnd_kind c = ConditionNot then
            (case (cnd_predicate c, cnd_children c) of
               (None, [child]) \<Rightarrow> negateEvaluation (plainTree lib request d vp sr child (depth + 1))
             | _ \<Rightarrow> invalidConditionEvaluation 1)
          else if cnd_kind c = ConditionAll \<or> cnd_kind c = ConditionAny then
            (if cnd_predicate c \<noteq> None \<or> length (cnd_children c) = 0 then invalidConditionEvaluation 1
             else (case plainChildren lib request d vp (cnd_kind c) (cnd_children c) depth
                          (logicalStart (cnd_kind c)) of
                 Inl ev \<Rightarrow> ev
               | Inr ev \<Rightarrow> logicalFinish ev))
          else invalidConditionEvaluation 1)"
| "plainChildren lib request d vp kind [] depth result = Inr result"
| "plainChildren lib request d vp kind (child # children) depth result =
     (let ev = plainTree lib request d vp False child (depth + 1);
          result = result\<lparr>cev_nodes := cev_nodes result + cev_nodes ev\<rparr>
      in if MaxConditionNodes < cev_nodes result then Inl (invalidConditionEvaluation (cev_nodes result))
         else plainChildren lib request d vp kind children depth (combineConditionChild result kind ev))"
  by pat_completeness auto
termination
  by (relation "measure
      (\<lambda>x. case x of
         Inl (lib, request, d, vp, sr, c, depth) \<Rightarrow> size_option size c
       | Inr (lib, request, d, vp, kind, cs, depth, result) \<Rightarrow> size_list (size_option size) cs)")
    (auto simp: children_size only_child_size)

declare plainTree.simps [simp del] plainChildren.simps [simp del]

section \<open>Skipping is sound\<close>

text \<open>The metadata of a skippable subtree is its evaluation but for the truth value.\<close>

definition determinate :: "condition_state \<Rightarrow> bool" where
  "determinate s \<longleftrightarrow> s = ConditionTrue \<or> s = ConditionFalse"

definition same_but_state :: "condition_evaluation \<Rightarrow> condition_evaluation \<Rightarrow> bool" where
  "same_but_state m ev \<longleftrightarrow>
     ev = m\<lparr>cev_state := cev_state ev\<rparr> \<and> determinate (cev_state ev) \<and> cev_reason m = NoReason
     \<and> cev_complete m \<and> cev_nodes m \<le> MaxConditionNodes"

lemma determinate_simps [simp]:
  "determinate ConditionTrue" "determinate ConditionFalse" "\<not> determinate ConditionIndeterminate"
  "\<not> determinate ConditionStateUnset"
  by (simp_all add: determinate_def)

lemma combine_determinate:
  "determinate a \<Longrightarrow> determinate b \<Longrightarrow> determinate (combine_state kind a b)"
  by (auto simp: determinate_def combine_state_def)

lemma noEvaluation_sel [simp]:
  "cev_state noEvaluation = ConditionStateUnset" "cev_reason noEvaluation = NoReason"
  "cev_nodes noEvaluation = 0" "cev_complete noEvaluation = False" "cev_summary noEvaluation = noSummary"
  by (simp_all add: noEvaluation_def)

text \<open>A merge looks at neither truth value, node count nor completeness.\<close>

lemma merge_reason_state:
  "merge_reason (t\<lparr>cev_state := s\<rparr>) c = (merge_reason t c)\<lparr>cev_state := s\<rparr>"
  "merge_reason t (c\<lparr>cev_state := s\<rparr>) = merge_reason t c"
  by (simp add: merge_reason_def if_distrib [where f = "cev_state_update (\<lambda>_. s)"] split del: if_split,
      rule if_cong; cases t; simp)+

lemma merge_actual_state:
  "merge_actual (t\<lparr>cev_state := s\<rparr>) c = (merge_actual t c)\<lparr>cev_state := s\<rparr>"
  "merge_actual t (c\<lparr>cev_state := s\<rparr>) = merge_actual t c"
  by (simp add: merge_actual_def if_distrib [where f = "cev_state_update (\<lambda>_. s)"] split del: if_split,
      rule if_cong; cases t; simp)+

lemma merge_required_state:
  "merge_required (t\<lparr>cev_state := s\<rparr>) c = (merge_required t c)\<lparr>cev_state := s\<rparr>"
  "merge_required t (c\<lparr>cev_state := s\<rparr>) = merge_required t c"
  by (simp add: merge_required_def if_distrib [where f = "cev_state_update (\<lambda>_. s)"] split del: if_split,
      rule if_cong; cases t; simp)+

lemma merge_update:
  "mergeConditionMetadata (t\<lparr>cev_state := s\<rparr>) c = (mergeConditionMetadata t c)\<lparr>cev_state := s\<rparr>"
  "mergeConditionMetadata t (c\<lparr>cev_state := s\<rparr>) = mergeConditionMetadata t c"
  by (simp_all add: mergeConditionMetadata_def merge_reason_state merge_actual_state merge_required_state)

lemma merge_step_sel [simp]:
  "cev_state (merge_reason t c) = cev_state t" "cev_state (merge_actual t c) = cev_state t"
  "cev_state (merge_required t c) = cev_state t"
  "cev_nodes (merge_reason t c) = cev_nodes t" "cev_nodes (merge_actual t c) = cev_nodes t"
  "cev_nodes (merge_required t c) = cev_nodes t"
  "cev_complete (merge_reason t c) = cev_complete t" "cev_complete (merge_actual t c) = cev_complete t"
  "cev_complete (merge_required t c) = cev_complete t"
  "cev_reason (merge_actual t c) = cev_reason t" "cev_reason (merge_required t c) = cev_reason t"
  by (simp_all add: merge_reason_def merge_actual_def merge_required_def)

lemma merge_sel [simp]:
  "cev_state (mergeConditionMetadata t c) = cev_state t"
  "cev_nodes (mergeConditionMetadata t c) = cev_nodes t"
  "cev_complete (mergeConditionMetadata t c) = cev_complete t"
  by (simp_all add: mergeConditionMetadata_def)

lemma merge_no_reason:
  "cev_reason c = NoReason \<Longrightarrow> cev_reason (mergeConditionMetadata t c) = cev_reason t"
  by (simp add: mergeConditionMetadata_def merge_reason_def)

lemma combine_same:
  assumes "same_but_state m ev"
  shows "combineConditionChild result kind ev
      = (mergeConditionMetadata result m)\<lparr>cev_state := combine_state kind (cev_state result) (cev_state ev)\<rparr>"
proof -
  have ev: "ev = m\<lparr>cev_state := cev_state ev\<rparr>" and c: "cev_complete m"
    using assms by (auto simp: same_but_state_def)
  have "cev_complete ev" by (subst ev) (simp add: c)
  then have r: "result\<lparr>cev_complete := cev_complete result \<and> cev_complete ev\<rparr> = result" by simp
  have "mergeConditionMetadata result ev = mergeConditionMetadata result m"
    by (subst ev) (simp add: merge_update)
  then show ?thesis unfolding combineConditionChild_def Let_def r by simp
qed

lemma exists_root_predicate:
  assumes "prd_op (cpr_predicate p) = OperatorExists" and "cpr_tokens p = []"
    and "requestOwnedValueSource (prd_source (cpr_predicate p))"
  shows "\<exists>s. determinate s \<and> plainPredicate lib request d vp False (Some p)
      = noEvaluation\<lparr>cev_state := s, cev_actual := ProvenanceAgentSupplied,
          cev_required := prd_minimum_provenance (cpr_predicate p), cev_complete := True, cev_nodes := 1\<rparr>"
proof -
  let ?st = "\<lparr>evs_roots = None, evs_control = None\<rparr> :: eval_state"
  have valid: "\<not> predicate_invalid p vp"
    using assms by (auto simp: predicate_invalid_def requestOwnedValueSource_def validateCompiledPointer_def)
  obtain doc where sel: "selectPredicateValueWithRoots p request ?st = (selectRoot doc [] ProvenanceAgentSupplied, ?st)"
    using assms by (auto simp: requestOwnedValueSource_def selectPredicateValueWithRoots_def)
  have nr: "provenanceRefusal p d (selectRoot doc [] ProvenanceAgentSupplied) = None"
    using assms by (auto simp: provenanceRefusal_def requestOwnedValueSource_def Let_def)
  obtain s where op: "operatorTargetState p (slv_pointer (selectRoot doc [] ProvenanceAgentSupplied)) = Some (s, NoReason)"
      "determinate s"
    using assms by (cases doc) (auto simp: operatorTargetState_def selectRoot_def pointer_only_def Let_def)
  have prov: "slv_provenance (selectRoot doc [] ProvenanceAgentSupplied) = ProvenanceAgentSupplied"
    by (cases doc) (simp_all add: selectRoot_def)
  have "s \<noteq> ConditionIndeterminate" using op(2) by auto
  then show ?thesis using valid sel nr op prov
    by (intro exI [of _ s]) (simp add: plainPredicate_def evaluatePredicateCore_def poll_def operator_step_def
        evaluateOperator_def with_control_def predicateEvaluation_def noEvaluation_def)
qed

lemma skip_predicate_sound:
  assumes "skip_predicate c = Some m"
  shows "cnd_predicate c \<noteq> None \<and> cnd_children c = []
    \<and> same_but_state m (plainPredicate lib request d vp False (cnd_predicate c))"
proof -
  obtain p where p: "cnd_predicate c = Some p" "cnd_children c = []"
      "prd_op (cpr_predicate p) = OperatorExists" "cpr_tokens p = []"
      "requestOwnedValueSource (prd_source (cpr_predicate p))"
      "m = noEvaluation\<lparr>cev_actual := ProvenanceAgentSupplied,
          cev_required := prd_minimum_provenance (cpr_predicate p), cev_complete := True, cev_nodes := 1\<rparr>"
    using assms by (auto simp: skip_predicate_def split: option.splits if_splits)
  obtain s where "determinate s" "plainPredicate lib request d vp False (Some p)
      = noEvaluation\<lparr>cev_state := s, cev_actual := ProvenanceAgentSupplied,
          cev_required := prd_minimum_provenance (cpr_predicate p), cev_complete := True, cev_nodes := 1\<rparr>"
    using exists_root_predicate [OF p(3-5)] by blast
  then show ?thesis using p by (simp add: same_but_state_def MaxConditionNodes_def)
qed

lemma stopped_reason: "evaluationStopped (cev_reason (stoppedConditionEvaluation r)) \<longleftrightarrow> evaluationStopped r"
  by (simp add: stoppedConditionEvaluation_def)

lemma same_start: "same_but_state (noEvaluation\<lparr>cev_complete := True, cev_nodes := 1\<rparr>) (logicalStart kind)"
  by (simp add: same_but_state_def logicalStart_def MaxConditionNodes_def noEvaluation_def)

lemma same_sel:
  assumes "same_but_state m ev"
  shows "determinate (cev_state ev)" "cev_nodes ev = cev_nodes m" "cev_reason ev = NoReason" "cev_complete ev"
    "cev_reason m = NoReason" "cev_nodes m \<le> MaxConditionNodes"
proof -
  have "ev = m\<lparr>cev_state := cev_state ev\<rparr>" using assms by (simp add: same_but_state_def)
  then show "cev_nodes ev = cev_nodes m" "cev_reason ev = NoReason" "cev_complete ev"
    using assms by (metis same_but_state_def condition_evaluation.select_convs condition_evaluation.surjective
        condition_evaluation.update_convs(1))+
qed (use assms in \<open>simp_all add: same_but_state_def\<close>)

lemma same_finish:
  assumes "same_but_state m ev"
  shows "logicalFinish ev = ev"
proof -
  have "ev\<lparr>cev_reason := NoReason, cev_complete := True\<rparr> = ev"
    using same_sel(3,4) [OF assms] by (cases ev) simp
  then show ?thesis by (simp add: logicalFinish_def)
qed

lemma same_negate:
  assumes "same_but_state m ev" and "cev_nodes m < MaxConditionNodes"
  shows "same_but_state (m\<lparr>cev_nodes := cev_nodes m + 1\<rparr>) (negateEvaluation ev)"
proof -
  obtain s where s: "ev = m\<lparr>cev_state := s\<rparr>" "determinate s" using assms by (auto simp: same_but_state_def)
  show ?thesis using assms s
    by (auto simp: same_but_state_def negateEvaluation_def Let_def determinate_def)
qed

lemma same_combine:
  assumes r: "same_but_state r result" and m: "same_but_state m ev"
    and n: "cev_nodes r + cev_nodes m \<le> MaxConditionNodes"
  shows "same_but_state (mergeConditionMetadata (r\<lparr>cev_nodes := cev_nodes r + cev_nodes m\<rparr>) m)
      (combineConditionChild (result\<lparr>cev_nodes := cev_nodes result + cev_nodes ev\<rparr>) kind ev)"
proof -
  let ?r = "r\<lparr>cev_nodes := cev_nodes r + cev_nodes m\<rparr>"
  obtain s where s: "result = r\<lparr>cev_state := s\<rparr>" "determinate s" using r by (auto simp: same_but_state_def)
  have "result\<lparr>cev_nodes := cev_nodes result + cev_nodes ev\<rparr> = ?r\<lparr>cev_state := s\<rparr>"
    using s(1) same_sel(2) [OF m] by simp
  then have "combineConditionChild (result\<lparr>cev_nodes := cev_nodes result + cev_nodes ev\<rparr>) kind ev
      = (mergeConditionMetadata ?r m)\<lparr>cev_state := combine_state kind s (cev_state ev)\<rparr>"
    by (simp add: combine_same [OF m] merge_update)
  moreover have "determinate (combine_state kind s (cev_state ev))"
    using combine_determinate s(2) same_sel(1) [OF m] by blast
  ultimately show ?thesis using n same_sel(5) [OF r] same_sel(5) [OF m] r
    by (simp add: same_but_state_def merge_no_reason)
qed

text \<open>The cases of the switch on a condition.\<close>

lemma condition_shapes:
  obtains (deep) "MaxConditionDepth < depth"
    | (pred) "\<not> MaxConditionDepth < depth" "cnd_kind c = ConditionPredicate"
    | (neg) child where "\<not> MaxConditionDepth < depth" "cnd_kind c = ConditionNot"
        "cnd_predicate c = None" "cnd_children c = [child]"
    | (neg_bad) "\<not> MaxConditionDepth < depth" "cnd_kind c = ConditionNot"
        "\<not> (\<exists>child. cnd_predicate c = None \<and> cnd_children c = [child])"
    | (many) "\<not> MaxConditionDepth < depth" "cnd_kind c = ConditionAll \<or> cnd_kind c = ConditionAny"
        "cnd_predicate c = None" "length (cnd_children c) \<noteq> 0"
    | (many_bad) "\<not> MaxConditionDepth < depth" "cnd_kind c = ConditionAll \<or> cnd_kind c = ConditionAny"
        "cnd_predicate c \<noteq> None \<or> length (cnd_children c) = 0"
    | (other) "\<not> MaxConditionDepth < depth" "cnd_kind c \<noteq> ConditionPredicate" "cnd_kind c \<noteq> ConditionNot"
        "cnd_kind c \<noteq> ConditionAll" "cnd_kind c \<noteq> ConditionAny"
  by blast

lemma skip_sound:
  "eval_ok request st \<Longrightarrow> skippedConditionMetadata condition depth st = ((m, safe), st') \<Longrightarrow>
     eval_ok request st' \<and> \<not> evaluationStopped (cev_reason m)
     \<and> (safe \<longrightarrow> same_but_state m (plainTree lib request d vp False condition depth))"
  "eval_ok request st \<Longrightarrow> skippedChildren children depth r st = ((m, safe), st') \<Longrightarrow>
     same_but_state r acc \<Longrightarrow>
     eval_ok request st' \<and> \<not> evaluationStopped (cev_reason m)
     \<and> (safe \<longrightarrow> (\<exists>ev. plainChildren lib request d vp kind children depth acc = Inr ev \<and> same_but_state m ev))"
proof (induction condition depth st and children depth r st arbitrary: m safe st' and m safe st' acc kind
    rule: skippedConditionMetadata_skippedChildren.induct)
  case (1 condition depth st)
  obtain r1 s1 where p1: "poll st = (r1, s1)" by (cases "poll st")
  then have ok: "r1 = NoReason" "eval_ok request s1" using poll_quiet [OF 1(3)] by auto
  have run: "skippedConditionMetadata condition depth st = ((m, safe), st')" by (rule 1(4))
  show ?case
  proof (cases condition)
    case None
    then show ?thesis using run p1 ok
      by (auto simp: skippedConditionMetadata.simps plainTree.simps same_but_state_def)
  next
    case (Some c)
    note [simp] = skippedConditionMetadata.simps [of "Some c" depth st]
      plainTree.simps [of lib request d vp False "Some c" depth]
    show ?thesis
    proof (cases rule: condition_shapes [where depth = depth and c = c])
      case deep
      then show ?thesis using run p1 ok Some by auto
    next
      case pred
      then show ?thesis using run p1 ok Some skip_predicate_sound [of c m lib request d vp]
        by (auto dest: same_sel(5) split: option.splits)
    next
      case (neg child)
      obtain m1 safe1 s2 where r2: "skippedConditionMetadata child (depth + 1) s1 = ((m1, safe1), s2)"
        by (metis prod.exhaust)
      have ih: "eval_ok request s2 \<and> \<not> evaluationStopped (cev_reason m1)
          \<and> (safe1 \<longrightarrow> same_but_state m1 (plainTree lib request d vp False child (depth + 1)))"
        by (rule 1(1) [OF p1 [symmetric] _ Some neg(1) _ neg(2) _ neg(3) neg(4) _ ok(2) r2])
          (use ok neg in simp_all)
      then show ?thesis using run p1 ok Some neg r2 same_negate [of m1 "plainTree lib request d vp False child (depth + 1)"]
        by (auto split: if_splits simp: same_sel(3))
    next
      case neg_bad
      then show ?thesis using run p1 ok Some by (auto split: option.splits list.splits)
    next
      case many
      obtain m1 safe1 s2 where r2: "skippedChildren (cnd_children c) depth
          (noEvaluation\<lparr>cev_complete := True, cev_nodes := 1\<rparr>) s1 = ((m1, safe1), s2)"
        by (metis prod.exhaust)
      have ih: "eval_ok request s2 \<and> \<not> evaluationStopped (cev_reason m1)
          \<and> (safe1 \<longrightarrow> (\<exists>ev. plainChildren lib request d vp (cnd_kind c) (cnd_children c) depth
                 (logicalStart (cnd_kind c)) = Inr ev \<and> same_but_state m1 ev))"
        by (rule 1(2) [OF p1 [symmetric] _ Some many(1) _ _ many(2) _ ok(2) r2 same_start])
          (use ok many in auto)
      then show ?thesis using run p1 ok Some many r2 by (auto simp: same_finish)
    next
      case many_bad
      then show ?thesis using run p1 ok Some by auto
    next
      case other
      then show ?thesis using run p1 ok Some by simp
    qed
  qed
next
  case (2 depth r st)
  then show ?case by (auto simp: skippedChildren.simps plainChildren.simps same_but_state_def)
next
  case (3 child children depth r st)
  obtain m1 safe1 s1 where r1: "skippedConditionMetadata child (depth + 1) st = ((m1, safe1), s1)"
    by (metis prod.exhaust)
  let ?ev = "plainTree lib request d vp False child (depth + 1)"
  have ih: "eval_ok request s1 \<and> \<not> evaluationStopped (cev_reason m1) \<and> (safe1 \<longrightarrow> same_but_state m1 ?ev)"
    by (rule 3(1) [OF 3(3) r1])
  show ?case
  proof (cases "\<not> safe1 \<or> MaxConditionNodes - cev_nodes m1 < cev_nodes r")
    case True
    then show ?thesis using 3(4) r1 ih by (auto simp: skippedChildren.simps)
  next
    case False
    let ?r = "mergeConditionMetadata (r\<lparr>cev_nodes := cev_nodes r + cev_nodes m1\<rparr>) m1"
    let ?acc = "combineConditionChild (acc\<lparr>cev_nodes := cev_nodes acc + cev_nodes ?ev\<rparr>) kind ?ev"
    have same: "same_but_state m1 ?ev" using ih False by blast
    have n: "cev_nodes r + cev_nodes m1 \<le> MaxConditionNodes"
      using False same_sel(6) [OF same] by linarith
    have acc: "same_but_state ?r ?acc" by (rule same_combine [OF 3(5) same n])
    have run: "skippedChildren children depth ?r s1 = ((m, safe), st')"
      using 3(4) r1 ih False by (simp add: skippedChildren.simps)
    have "eval_ok request st' \<and> \<not> evaluationStopped (cev_reason m)
        \<and> (safe \<longrightarrow> (\<exists>ev. plainChildren lib request d vp kind children depth ?acc = Inr ev \<and> same_but_state m ev))"
      by (rule 3(2) [OF r1 [symmetric] refl _ _ _ run acc]) (use ih False in auto)
    moreover have "cev_nodes acc + cev_nodes ?ev \<le> MaxConditionNodes"
      using n same_sel(2) [OF same] same_sel(2) [OF 3(5)] by simp
    ultimately show ?thesis by (simp add: plainChildren.simps Let_def)
  qed
qed

lemma merge_not_stopped:
  "\<not> evaluationStopped (cev_reason t) \<Longrightarrow> \<not> evaluationStopped (cev_reason c) \<Longrightarrow>
     \<not> evaluationStopped (cev_reason (mergeConditionMetadata t c))"
  by (simp add: mergeConditionMetadata_def merge_reason_def)

lemma combine_not_stopped:
  "\<not> evaluationStopped (cev_reason t) \<Longrightarrow> \<not> evaluationStopped (cev_reason c) \<Longrightarrow>
     \<not> evaluationStopped (cev_reason (combineConditionChild t kind c))"
  by (simp add: combineConditionChild_def Let_def merge_not_stopped)

lemma decisive_combine:
  "conditionStateDecisive kind s \<Longrightarrow> determinate b \<Longrightarrow> combine_state kind s b = s"
  by (auto simp: conditionStateDecisive_def determinate_def combine_state_def)

lemma decisive_combine_same:
  assumes "conditionStateDecisive kind (cev_state result)" and m: "same_but_state m ev"
  shows "combineConditionChild result kind ev = mergeConditionMetadata result m"
proof -
  have "combine_state kind (cev_state result) (cev_state ev) = cev_state (mergeConditionMetadata result m)"
    using decisive_combine [OF assms(1) same_sel(1) [OF m]] by simp
  moreover have "t\<lparr>cev_state := cev_state t\<rparr> = t" for t :: condition_evaluation by simp
  ultimately show ?thesis by (simp add: combine_same [OF m])
qed

lemma negate_not_stopped:
  "\<not> evaluationStopped (cev_reason ev) \<Longrightarrow> \<not> evaluationStopped (cev_reason (negateEvaluation ev))"
  by (simp add: negateEvaluation_def invalidConditionEvaluation_def Let_def)

lemma invalid_not_stopped [simp]: "\<not> evaluationStopped (cev_reason (invalidConditionEvaluation n))"
  by (simp add: invalidConditionEvaluation_def)

lemma finish_not_stopped:
  "\<not> evaluationStopped (cev_reason ev) \<Longrightarrow> \<not> evaluationStopped (cev_reason (logicalFinish ev))"
  by (simp add: logicalFinish_def)

lemma start_not_stopped [simp]: "\<not> evaluationStopped (cev_reason (logicalStart kind))"
  by (simp add: logicalStart_def)

lemma predicate_plain:
  assumes ok: "eval_ok request st" and e: "evaluatePredicateCore lib p request d vp sr st = (ev, st')"
  shows "predicateEvaluation ev = plainPredicate lib request d vp sr p \<and> eval_ok request st'
    \<and> \<not> evaluationStopped (cev_reason (predicateEvaluation ev))"
proof -
  have "eval_ok request \<lparr>evs_roots = None, evs_control = None\<rparr>" by (simp add: eval_ok_start)
  then show ?thesis
    using transparentD [OF transparent_predicate ok, of "\<lparr>evs_roots = None, evs_control = None\<rparr>" lib p d vp sr]
      predicate_not_stopped [OF ok e] e
    by (simp add: plainPredicate_def predicateEvaluation_def)
qed

definition agrees :: "(condition_evaluation + condition_evaluation) \<Rightarrow> bool" where
  "agrees r \<longleftrightarrow> (case r of Inl ev \<Rightarrow> \<not> evaluationStopped (cev_reason ev) | Inr ev \<Rightarrow> \<not> evaluationStopped (cev_reason ev))"

lemma agrees_simps [simp]:
  "agrees (Inl ev) \<longleftrightarrow> \<not> evaluationStopped (cev_reason ev)"
  "agrees (Inr ev) \<longleftrightarrow> \<not> evaluationStopped (cev_reason ev)"
  by (simp_all add: agrees_def)

lemma tree_quiet:
  "eval_ok request st \<Longrightarrow> evaluateConditionTreeCore lib request d vp sr condition depth st = (ev, st') \<Longrightarrow>
     ev = plainTree lib request d vp sr condition depth \<and> eval_ok request st'
     \<and> \<not> evaluationStopped (cev_reason ev)"
  "eval_ok request st \<Longrightarrow> logicalLoop lib request d vp kind children depth result st = (r, st') \<Longrightarrow>
     \<not> evaluationStopped (cev_reason result) \<Longrightarrow>
     r = plainChildren lib request d vp kind children depth result \<and> eval_ok request st' \<and> agrees r"
  "eval_ok request st \<Longrightarrow> skipLoop lib request d vp kind children depth result st = (r, st') \<Longrightarrow>
     \<not> evaluationStopped (cev_reason result) \<Longrightarrow> conditionStateDecisive kind (cev_state result) \<Longrightarrow>
     r = plainChildren lib request d vp kind children depth result \<and> eval_ok request st' \<and> agrees r"
proof (induction lib request d vp sr condition depth st and lib request d vp kind children depth result st
    and lib request d vp kind children depth result st
    arbitrary: ev st' and r st' and r st'
    rule: evaluateConditionTreeCore_logicalLoop_skipLoop.induct)
  case (1 lib request d vp sr condition depth st)
  obtain r1 s1 where p1: "poll st = (r1, s1)" by (cases "poll st")
  then have ok: "r1 = NoReason" "eval_ok request s1" using poll_quiet [OF 1(3)] by auto
  have run: "evaluateConditionTreeCore lib request d vp sr condition depth st = (ev, st')" by (rule 1(4))
  show ?case
  proof (cases condition)
    case None
    then show ?thesis using run p1 ok
      by (auto simp: evaluateConditionTreeCore.simps plainTree.simps)
  next
    case (Some c)
    note [simp] = evaluateConditionTreeCore.simps [of lib request d vp sr "Some c" depth st]
      plainTree.simps [of lib request d vp sr "Some c" depth]
    show ?thesis
    proof (cases rule: condition_shapes [where depth = depth and c = c])
      case deep
      then show ?thesis using run p1 ok Some by auto
    next
      case pred
      obtain pe s2 where pe: "evaluatePredicateCore lib (cnd_predicate c) request d vp sr s1 = (pe, s2)"
        by (cases "evaluatePredicateCore lib (cnd_predicate c) request d vp sr s1")
      then show ?thesis using run p1 ok Some pred predicate_plain [OF ok(2) pe] by (auto split: if_splits)
    next
      case (neg child)
      obtain ev1 s2 where r2: "evaluateConditionTreeCore lib request d vp sr child (depth + 1) s1 = (ev1, s2)"
        by (cases "evaluateConditionTreeCore lib request d vp sr child (depth + 1) s1")
      have "ev1 = plainTree lib request d vp sr child (depth + 1) \<and> eval_ok request s2
          \<and> \<not> evaluationStopped (cev_reason ev1)"
        by (rule 1(1) [OF p1 [symmetric] _ Some neg(1) _ neg(2) _ neg(3) neg(4) _ ok(2) r2])
          (use ok neg in simp_all)
      then show ?thesis using run p1 ok Some neg r2 by (auto simp: negate_not_stopped)
    next
      case neg_bad
      then show ?thesis using run p1 ok Some by (auto split: option.splits list.splits)
    next
      case many
      obtain r s2 where r2: "logicalLoop lib request d vp (cnd_kind c) (cnd_children c) depth
          (logicalStart (cnd_kind c)) s1 = (r, s2)"
        by (cases "logicalLoop lib request d vp (cnd_kind c) (cnd_children c) depth (logicalStart (cnd_kind c)) s1")
      have ih: "r = plainChildren lib request d vp (cnd_kind c) (cnd_children c) depth (logicalStart (cnd_kind c))
          \<and> eval_ok request s2 \<and> agrees r"
        by (rule 1(2) [OF p1 [symmetric] _ Some many(1) _ _ many(2) _ ok(2) r2 start_not_stopped])
          (use ok many in auto)
      have plain: "plainChildren lib request d vp (cnd_kind c) (cnd_children c) depth (logicalStart (cnd_kind c)) = r"
        and ih: "eval_ok request s2" "agrees r"
        using ih by blast+
      show ?thesis
      proof (cases r)
        case (Inl x)
        then show ?thesis using run p1 ok Some many r2 ih plain by auto
      next
        case (Inr x)
        then show ?thesis using run p1 ok Some many r2 ih plain by (auto simp: finish_not_stopped)
      qed
    next
      case many_bad
      then show ?thesis using run p1 ok Some by auto
    next
      case other
      then show ?thesis using run p1 ok Some by auto
    qed
  qed
next
  case (2 lib request d vp kind depth result st)
  then show ?case by (auto simp: logicalLoop.simps plainChildren.simps)
next
  case (3 lib request d vp kind child children depth result st)
  obtain ev s1 where r1: "evaluateConditionTreeCore lib request d vp False child (depth + 1) st = (ev, s1)"
    by (cases "evaluateConditionTreeCore lib request d vp False child (depth + 1) st")
  have ih: "ev = plainTree lib request d vp False child (depth + 1)" "eval_ok request s1"
      "\<not> evaluationStopped (cev_reason ev)"
    using 3(1) [OF 3(4) r1] by blast+
  let ?n = "result\<lparr>cev_nodes := cev_nodes result + cev_nodes ev\<rparr>"
  let ?next = "combineConditionChild ?n kind ev"
  have ns: "\<not> evaluationStopped (cev_reason ?next)" using 3(6) ih(3) by (simp add: combine_not_stopped)
  show ?case
  proof (cases "MaxConditionNodes < cev_nodes ?n")
    case True
    then show ?thesis using 3(5) r1 ih by (auto simp: logicalLoop.simps plainChildren.simps Let_def)
  next
    case False
    note step = 3(5) r1 ih False
    have "r = plainChildren lib request d vp kind children depth ?next \<and> eval_ok request st' \<and> agrees r"
    proof (cases "conditionStateDecisive kind (cev_state ?next)")
      case True
      have run: "skipLoop lib request d vp kind children depth ?next s1 = (r, st')"
        using step True by (simp add: logicalLoop.simps Let_def)
      show ?thesis
        by (rule 3(3) [OF r1 [symmetric] ih(3) refl False refl _ ih(2) run ns True]) (simp add: True)
    next
      case n: False
      have run: "logicalLoop lib request d vp kind children depth ?next s1 = (r, st')"
        using step n by (simp add: logicalLoop.simps Let_def)
      show ?thesis by (rule 3(2) [OF r1 [symmetric] ih(3) refl False refl n ih(2) run ns])
    qed
    then show ?thesis using False ih(1) by (auto simp: plainChildren.simps Let_def)
  qed
next
  case (4 lib request d vp kind depth result st)
  then show ?case by (auto simp: skipLoop.simps plainChildren.simps)
next
  case (5 lib request d vp kind child children depth result st)
  obtain m safe s1 where r1: "skippedConditionMetadata child (depth + 1) st = ((m, safe), s1)"
    by (metis prod.exhaust)
  let ?ev = "plainTree lib request d vp False child (depth + 1)"
  have ih: "eval_ok request s1" "\<not> evaluationStopped (cev_reason m)" "safe \<longrightarrow> same_but_state m ?ev"
    using skip_sound(1) [OF 5(3) r1] by blast+
  show ?case
  proof (cases "\<not> safe \<or> MaxConditionNodes - cev_nodes m < cev_nodes result")
    case True
    have run: "logicalLoop lib request d vp kind (child # children) depth result s1 = (r, st')"
      using 5(4) r1 ih True by (auto simp: skipLoop.simps)
    show ?thesis by (rule 5(1) [OF r1 [symmetric] refl ih(2) True ih(1) run 5(5)])
  next
    case False
    let ?n = "result\<lparr>cev_nodes := cev_nodes result + cev_nodes m\<rparr>"
    let ?next = "mergeConditionMetadata ?n m"
    have same: "same_but_state m ?ev" using ih False by blast
    have dec: "conditionStateDecisive kind (cev_state ?next)" using 5(6) by simp
    have ns: "\<not> evaluationStopped (cev_reason ?next)" using 5(5) ih(2) by (simp add: merge_not_stopped)
    have run: "skipLoop lib request d vp kind children depth ?next s1 = (r, st')"
      using 5(4) r1 ih False by (auto simp: skipLoop.simps)
    have "r = plainChildren lib request d vp kind children depth ?next \<and> eval_ok request st' \<and> agrees r"
      by (rule 5(2) [OF r1 [symmetric] refl ih(2) False ih(1) run ns dec])
    moreover have "cev_nodes result + cev_nodes ?ev \<le> MaxConditionNodes"
      using False same_sel(2,6) [OF same] by linarith
    moreover have "combineConditionChild ?n kind ?ev = ?next"
      using decisive_combine_same [OF _ same] 5(6) by simp
    ultimately show ?thesis using same_sel(2) [OF same] by (auto simp: plainChildren.simps Let_def)
  qed
qed

section \<open>Strong Kleene logic\<close>

text \<open>The truth value of a condition over given truth values of its predicates.\<close>

definition kleene_not :: "condition_state \<Rightarrow> condition_state" where
  "kleene_not s = (if s = ConditionTrue then ConditionFalse else if s = ConditionFalse then ConditionTrue else s)"

definition kleene_all :: "condition_state set \<Rightarrow> condition_state" where
  "kleene_all S = (if ConditionFalse \<in> S then ConditionFalse
     else if S \<subseteq> {ConditionTrue} then ConditionTrue else ConditionIndeterminate)"

definition kleene_any :: "condition_state set \<Rightarrow> condition_state" where
  "kleene_any S = (if ConditionTrue \<in> S then ConditionTrue
     else if S \<subseteq> {ConditionFalse} then ConditionFalse else ConditionIndeterminate)"

function kleene :: "(compiled_predicate \<Rightarrow> condition_state) \<Rightarrow> compiled_condition option \<Rightarrow> condition_state" where
  "kleene t None = ConditionTrue"
| "kleene t (Some c) =
     (if cnd_kind c = ConditionPredicate then t (the (cnd_predicate c))
      else if cnd_kind c = ConditionNot then
        kleene_not (case cnd_children c of [child] \<Rightarrow> kleene t child | _ \<Rightarrow> ConditionIndeterminate)
      else if cnd_kind c = ConditionAll then kleene_all (kleene t ` set (cnd_children c))
      else kleene_any (kleene t ` set (cnd_children c)))"
  by pat_completeness auto
termination
  by (relation "measure (\<lambda>(t, c). size_option size c)")
    (auto simp: only_child_size dest: size_list_estimation' intro: le_less_trans [OF size_list_estimation' children_size])

declare kleene.simps(2) [simp del]

text \<open>What the plan compiler produces: the switch has a case for every node, within the bounds.\<close>

function wellformed_condition :: "nat \<Rightarrow> compiled_condition option \<Rightarrow> bool" where
  "wellformed_condition depth None \<longleftrightarrow> True"
| "wellformed_condition depth (Some c) \<longleftrightarrow>
     depth \<le> MaxConditionDepth
     \<and> (if cnd_kind c = ConditionPredicate then cnd_predicate c \<noteq> None \<and> cnd_children c = []
        else cnd_predicate c = None
          \<and> (cnd_kind c = ConditionNot \<and> length (cnd_children c) = 1
             \<or> (cnd_kind c = ConditionAll \<or> cnd_kind c = ConditionAny) \<and> cnd_children c \<noteq> [])
          \<and> (\<forall>child \<in> set (cnd_children c). wellformed_condition (depth + 1) child))"
  by pat_completeness auto
termination
  by (relation "measure (\<lambda>(d, c). size_option size c)")
    (auto intro: le_less_trans [OF size_list_estimation' children_size])

function condition_nodes :: "compiled_condition option \<Rightarrow> nat" where
  "condition_nodes None = 0"
| "condition_nodes (Some c) = 1 + (\<Sum>child \<leftarrow> cnd_children c. condition_nodes child)"
  by pat_completeness auto
termination
  by (relation "measure (size_option size)")
    (auto intro: le_less_trans [OF size_list_estimation' children_size])

declare wellformed_condition.simps(2) [simp del] condition_nodes.simps(2) [simp del]

definition proper :: "condition_state \<Rightarrow> bool" where
  "proper s \<longleftrightarrow> s = ConditionTrue \<or> s = ConditionFalse \<or> s = ConditionIndeterminate"

lemma kleene_all_insert:
  "proper a \<Longrightarrow> proper b \<Longrightarrow> kleene_all (insert (combine_state ConditionAll a b) S) = kleene_all (insert a (insert b S))"
  by (auto simp: proper_def combine_state_def kleene_all_def)

lemma kleene_any_insert:
  "proper a \<Longrightarrow> proper b \<Longrightarrow> kleene_any (insert (combine_state ConditionAny a b) S) = kleene_any (insert a (insert b S))"
  by (auto simp: proper_def combine_state_def kleene_any_def)

lemma combine_proper: "proper a \<Longrightarrow> proper b \<Longrightarrow> proper (combine_state kind a b)"
  by (auto simp: proper_def combine_state_def)

lemma fold_combine:
  "proper a \<Longrightarrow> (\<forall>x \<in> set xs. proper x) \<Longrightarrow>
     foldl (combine_state ConditionAll) a xs = kleene_all (insert a (set xs))"
  "proper a \<Longrightarrow> (\<forall>x \<in> set xs. proper x) \<Longrightarrow>
     foldl (combine_state ConditionAny) a xs = kleene_any (insert a (set xs))"
proof (induction xs arbitrary: a)
  case Nil
  { case 1 then show ?case by (auto simp: proper_def kleene_all_def) next
    case 2 then show ?case by (auto simp: proper_def kleene_any_def) }
next
  case (Cons x xs)
  { case 1 then show ?case using Cons(1) [of "combine_state ConditionAll a x"]
      by (simp add: kleene_all_insert combine_proper) next
    case 2 then show ?case using Cons(2) [of "combine_state ConditionAny a x"]
      by (simp add: kleene_any_insert combine_proper) }
qed

lemma predicate_summary_irrelevant:
  "pev_state (fst (evaluatePredicateCore lib p request d vp sr \<lparr>evs_roots = None, evs_control = None\<rparr>))
     = pev_state (fst (evaluatePredicateCore lib p request d vp False \<lparr>evs_roots = None, evs_control = None\<rparr>))"
  by (auto simp: evaluatePredicateCore_def indeterminatePredicate_def Let_def split: option.splits prod.splits)

text \<open>The truth value that a predicate has for a request under a rule's decision.\<close>

definition predicate_truth :: "stdlib \<Rightarrow> request \<Rightarrow> decision \<Rightarrow> bool \<Rightarrow> compiled_predicate \<Rightarrow> condition_state" where
  "predicate_truth lib request d vp p = cev_state (plainPredicate lib request d vp False (Some p))"

lemma predicate_truth_proper: "proper (predicate_truth lib request d vp p)"
proof -
  obtain ev st where "evaluatePredicateCore lib (Some p) request d vp False \<lparr>evs_roots = None, evs_control = None\<rparr> = (ev, st)"
    by (cases "evaluatePredicateCore lib (Some p) request d vp False \<lparr>evs_roots = None, evs_control = None\<rparr>")
  then show ?thesis
    using predicate_evaluation_shape by (fastforce simp: predicate_truth_def plainPredicate_def predicateEvaluation_def
        proper_def answer_ok_def)
qed

lemma finish_sel [simp]:
  "cev_state (logicalFinish ev) = cev_state ev" "cev_nodes (logicalFinish ev) = cev_nodes ev"
  by (simp_all add: logicalFinish_def)

lemma combine_sel [simp]:
  "cev_nodes (combineConditionChild t kind c) = cev_nodes t"
  "cev_state (combineConditionChild t kind c) = combine_state kind (cev_state t) (cev_state c)"
  by (simp_all add: combineConditionChild_def Let_def)

lemma kleene_proper: "(\<And>p. proper (t p)) \<Longrightarrow> proper (kleene t c)"
proof (induction t c rule: kleene.induct)
  case (1 t)
  then show ?case by (simp add: proper_def)
next
  case (2 t c)
  have "proper (kleene_not s)" if "proper s" for s using that by (auto simp: proper_def kleene_not_def)
  moreover have "proper (kleene_all S)" "proper (kleene_any S)" for S
    by (simp_all add: proper_def kleene_all_def kleene_any_def)
  moreover have "proper ConditionIndeterminate" by (simp add: proper_def)
  ultimately show ?case using 2 by (auto simp: kleene.simps(2) split: list.splits)
qed

lemma tree_kleene:
  "wellformed_condition depth condition \<Longrightarrow> condition_nodes condition \<le> MaxConditionNodes \<Longrightarrow>
     cev_state (plainTree lib request d vp sr condition depth) = kleene (predicate_truth lib request d vp) condition
     \<and> cev_nodes (plainTree lib request d vp sr condition depth) = condition_nodes condition"
  "(\<forall>child \<in> set children. wellformed_condition (depth + 1) child) \<Longrightarrow>
     cev_nodes result + (\<Sum>child \<leftarrow> children. condition_nodes child) \<le> MaxConditionNodes \<Longrightarrow>
     \<exists>r. plainChildren lib request d vp kind children depth result = Inr r
       \<and> cev_state r = foldl (combine_state kind) (cev_state result)
             (map (kleene (predicate_truth lib request d vp)) children)
       \<and> cev_nodes r = cev_nodes result + (\<Sum>child \<leftarrow> children. condition_nodes child)"
proof (induction lib request d vp sr condition depth and lib request d vp kind children depth result
    rule: plainTree_plainChildren.induct)
  case (1 lib request d vp sr condition depth)
  show ?case
  proof (cases condition)
    case None
    then show ?thesis by (simp add: plainTree.simps)
  next
    case (Some c)
    note [simp] = plainTree.simps [of lib request d vp sr "Some c" depth] wellformed_condition.simps(2)
      condition_nodes.simps(2) kleene.simps(2)
    have wf: "depth \<le> MaxConditionDepth" using 1 Some by simp
    consider (pred) p where "cnd_kind c = ConditionPredicate" "cnd_predicate c = Some p" "cnd_children c = []"
      | (neg) child where "cnd_kind c = ConditionNot" "cnd_predicate c = None" "cnd_children c = [child]"
      | (many) "cnd_kind c = ConditionAll \<or> cnd_kind c = ConditionAny" "cnd_predicate c = None" "cnd_children c \<noteq> []"
      using 1(3) Some by (auto simp: length_Suc_conv split: if_splits)
    then show ?thesis
    proof cases
      case pred
      then show ?thesis using Some wf predicate_summary_irrelevant [of lib "Some p" request d vp sr]
        by (simp add: predicate_truth_def plainPredicate_def predicateEvaluation_def)
    next
      case (neg child)
      have ih: "cev_state (plainTree lib request d vp sr child (depth + 1)) = kleene (predicate_truth lib request d vp) child
          \<and> cev_nodes (plainTree lib request d vp sr child (depth + 1)) = condition_nodes child"
        by (rule 1(1) [OF Some _ _ neg(1) _ neg(2) neg(3)]) (use 1(3,4) wf Some neg in auto)
      then show ?thesis using 1(4) Some wf neg
        by (auto simp: negateEvaluation_def kleene_not_def Let_def)
    next
      case many
      have "\<exists>r. plainChildren lib request d vp (cnd_kind c) (cnd_children c) depth (logicalStart (cnd_kind c)) = Inr r
          \<and> cev_state r = foldl (combine_state (cnd_kind c)) (cev_state (logicalStart (cnd_kind c)))
             (map (kleene (predicate_truth lib request d vp)) (cnd_children c))
          \<and> cev_nodes r = cev_nodes (logicalStart (cnd_kind c)) + (\<Sum>child \<leftarrow> cnd_children c. condition_nodes child)"
        by (rule 1(2) [OF Some _ _ _ many(1)]) (use 1(3,4) wf Some many in \<open>auto simp: logicalStart_def\<close>)
      then obtain r where r: "plainChildren lib request d vp (cnd_kind c) (cnd_children c) depth (logicalStart (cnd_kind c)) = Inr r"
          "cev_state r = foldl (combine_state (cnd_kind c)) (cev_state (logicalStart (cnd_kind c)))
             (map (kleene (predicate_truth lib request d vp)) (cnd_children c))"
          "cev_nodes r = 1 + (\<Sum>child \<leftarrow> cnd_children c. condition_nodes child)"
        by (auto simp: logicalStart_def)
      have p: "\<forall>x \<in> set (map (kleene (predicate_truth lib request d vp)) (cnd_children c)). proper x"
        by (auto intro: kleene_proper predicate_truth_proper)
      show ?thesis
      proof (cases "cnd_kind c = ConditionAll")
        case True
        then have "cev_state r = kleene_all (kleene (predicate_truth lib request d vp) ` set (cnd_children c))"
          using r(2) fold_combine(1) [OF _ p, of ConditionTrue] by (auto simp: logicalStart_def proper_def kleene_all_def)
        then show ?thesis using Some wf many True r(1,3) by simp
      next
        case False
        then have "cev_state r = kleene_any (kleene (predicate_truth lib request d vp) ` set (cnd_children c))"
          using r(2) many(1) fold_combine(2) [OF _ p, of ConditionFalse] by (auto simp: logicalStart_def proper_def kleene_any_def)
        then show ?thesis using Some wf many False r(1,3) by simp
      qed
    qed
  qed
next
  case (2 lib request d vp kind depth result)
  then show ?case by (simp add: plainChildren.simps)
next
  case (3 lib request d vp kind child children depth result)
  let ?ev = "plainTree lib request d vp False child (depth + 1)"
  let ?n = "result\<lparr>cev_nodes := cev_nodes result + cev_nodes ?ev\<rparr>"
  have ih: "cev_state ?ev = kleene (predicate_truth lib request d vp) child" "cev_nodes ?ev = condition_nodes child"
    using 3(1) 3(3,4) by auto
  have small: "\<not> MaxConditionNodes < cev_nodes ?n" using 3(4) ih by simp
  have "\<exists>r. plainChildren lib request d vp kind children depth (combineConditionChild ?n kind ?ev) = Inr r
       \<and> cev_state r = foldl (combine_state kind) (cev_state (combineConditionChild ?n kind ?ev))
             (map (kleene (predicate_truth lib request d vp)) children)
       \<and> cev_nodes r = cev_nodes (combineConditionChild ?n kind ?ev) + (\<Sum>child \<leftarrow> children. condition_nodes child)"
    by (rule 3(2) [OF refl refl small]) (use 3(3,4) ih in auto)
  then show ?case using small ih by (simp add: plainChildren.simps Let_def add.assoc)
qed

text \<open>The monotonicity of strong Kleene logic: settling an indeterminate predicate keeps what is settled.\<close>

lemma kleene_all_refine:
  assumes "\<And>x. x \<in> S \<Longrightarrow> determinate (f x) \<Longrightarrow> g x = f x" and "determinate (kleene_all (f ` S))"
  shows "kleene_all (g ` S) = kleene_all (f ` S)"
proof (cases "ConditionFalse \<in> f ` S")
  case True
  then obtain x where x: "x \<in> S" "f x = ConditionFalse" by auto
  then have "g x = ConditionFalse" using assms(1) [of x] by simp
  then have "ConditionFalse \<in> g ` S" using x by (metis imageI)
  then show ?thesis using True by (simp add: kleene_all_def)
next
  case False
  then have "f ` S \<subseteq> {ConditionTrue}" using assms(2) by (auto simp: kleene_all_def split: if_splits)
  then have "g ` S = f ` S" using assms(1) by (intro image_cong) auto
  then show ?thesis by simp
qed

lemma kleene_any_refine:
  assumes "\<And>x. x \<in> S \<Longrightarrow> determinate (f x) \<Longrightarrow> g x = f x" and "determinate (kleene_any (f ` S))"
  shows "kleene_any (g ` S) = kleene_any (f ` S)"
proof (cases "ConditionTrue \<in> f ` S")
  case True
  then obtain x where x: "x \<in> S" "f x = ConditionTrue" by auto
  then have "g x = ConditionTrue" using assms(1) [of x] by simp
  then have "ConditionTrue \<in> g ` S" using x by (metis imageI)
  then show ?thesis using True by (simp add: kleene_any_def)
next
  case False
  then have "f ` S \<subseteq> {ConditionFalse}" using assms(2) by (auto simp: kleene_any_def split: if_splits)
  then have "g ` S = f ` S" using assms(1) by (intro image_cong) auto
  then show ?thesis by simp
qed

lemma kleene_refine:
  assumes "\<And>p. determinate (t p) \<Longrightarrow> t' p = t p" and "\<And>p. proper (t p)" and "\<And>p. proper (t' p)"
  shows "determinate (kleene t c) \<Longrightarrow> kleene t' c = kleene t c"
  using assms
proof (induction t c rule: kleene.induct)
  case (1 t)
  then show ?case by simp
next
  case (2 t c)
  have child: "kleene t' x = kleene t x" if "x \<in> set (cnd_children c)" "determinate (kleene t x)"
      "cnd_kind c = ConditionAll \<or> cnd_kind c \<noteq> ConditionPredicate \<and> cnd_kind c \<noteq> ConditionNot" for x
    using 2(2,3) [OF _ _ _ that(1,2) 2(5-7)] that(3) by (cases "cnd_kind c = ConditionAll") auto
  consider (pred) "cnd_kind c = ConditionPredicate" | (neg) "cnd_kind c = ConditionNot"
    | (all) "cnd_kind c = ConditionAll"
    | (any) "cnd_kind c \<noteq> ConditionPredicate" "cnd_kind c \<noteq> ConditionNot" "cnd_kind c \<noteq> ConditionAll" by blast
  then show ?case
  proof cases
    case pred
    then show ?thesis using 2(4,5) by (simp add: kleene.simps(2))
  next
    case neg
    then show ?thesis using 2(1) [OF _ neg _ _ _ 2(5-7)] 2(4)
      by (auto simp: kleene.simps(2) kleene_not_def determinate_def split: list.splits if_splits)
  next
    case all
    have "determinate (kleene_all (kleene t ` set (cnd_children c)))" using 2(4) all by (simp add: kleene.simps(2))
    then have "kleene_all (kleene t' ` set (cnd_children c)) = kleene_all (kleene t ` set (cnd_children c))"
      by (intro kleene_all_refine child) (use all in auto)
    then show ?thesis using all by (simp add: kleene.simps(2))
  next
    case any
    have "determinate (kleene_any (kleene t ` set (cnd_children c)))" using 2(4) any by (simp add: kleene.simps(2))
    then have "kleene_any (kleene t' ` set (cnd_children c)) = kleene_any (kleene t ` set (cnd_children c))"
      by (intro kleene_any_refine child) (use any in auto)
    then show ?thesis using any by (simp add: kleene.simps(2))
  qed
qed

section \<open>Interrupted evaluations\<close>

lemma poll_cases: "poll st = (r, st') \<Longrightarrow> r = NoReason \<or> evaluationStopped r"
  using stopReason_cases by (fastforce simp: poll_def split: prod.splits)

lemma skip_reason:
  "skippedConditionMetadata condition depth st = ((m, safe), st') \<Longrightarrow>
     cev_reason m = NoReason \<or> (\<exists>r. evaluationStopped r \<and> m = stoppedConditionEvaluation r)"
  "skippedChildren children depth result st = ((m, safe), st') \<Longrightarrow> cev_reason result = NoReason \<Longrightarrow>
     cev_reason m = NoReason \<or> (\<exists>r. evaluationStopped r \<and> m = stoppedConditionEvaluation r)"
proof (induction condition depth st and children depth result st arbitrary: m safe st' and m safe st'
    rule: skippedConditionMetadata_skippedChildren.induct)
  case (1 condition depth st)
  obtain r1 s1 where p1: "poll st = (r1, s1)" by (cases "poll st")
  have r1: "r1 = NoReason \<or> evaluationStopped r1" by (rule poll_cases [OF p1])
  show ?case
  proof (cases "r1 \<noteq> NoReason \<or> condition = None")
    case True
    then show ?thesis using 1(3) p1 r1
      by (cases condition) (auto simp: skippedConditionMetadata.simps split: if_splits)
  next
    case False
    then obtain c where c: "condition = Some c" "\<not> r1 \<noteq> NoReason" by auto
    note run = 1(3) [unfolded c(1) skippedConditionMetadata.simps [of "Some c" depth st]]
    show ?thesis
    proof (cases rule: condition_shapes [where depth = depth and c = c])
      case (neg child)
      obtain m1 safe1 s2 where r2: "skippedConditionMetadata child (depth + 1) s1 = ((m1, safe1), s2)"
        by (metis prod.exhaust)
      have "cev_reason m1 = NoReason \<or> (\<exists>r. evaluationStopped r \<and> m1 = stoppedConditionEvaluation r)"
        by (rule 1(1) [OF p1 [symmetric] c(2,1) neg(1) _ neg(2) _ neg(3) neg(4) _ r2]) (use neg in simp_all)
      moreover have "m = m1 \<or> m = noEvaluation \<or> m = m1\<lparr>cev_nodes := cev_nodes m1 + 1\<rparr> \<and> \<not> evaluationStopped (cev_reason m1)"
        using run p1 c neg r2 by (auto split: if_splits)
      ultimately show ?thesis by (auto simp: stoppedConditionEvaluation_def)
    next
      case many
      show ?thesis
        by (rule 1(2) [OF p1 [symmetric] c(2,1) many(1) _ _ many(2), of m safe st'])
          (use run p1 c many in auto)
    next
      case pred
      then show ?thesis using run p1 c by (auto simp: skip_predicate_def split: option.splits if_splits)
    qed (use run p1 c in \<open>auto split: option.splits list.splits\<close>)
  qed
next
  case (2 depth result st)
  then show ?case by (simp add: skippedChildren.simps)
next
  case (3 child children depth result st)
  obtain m1 safe1 s1 where r1: "skippedConditionMetadata child (depth + 1) st = ((m1, safe1), s1)"
    by (metis prod.exhaust)
  have ih: "cev_reason m1 = NoReason \<or> (\<exists>r. evaluationStopped r \<and> m1 = stoppedConditionEvaluation r)" by (rule 3(1) [OF r1])
  show ?case
  proof (cases "evaluationStopped (cev_reason m1) \<or> \<not> safe1 \<or> MaxConditionNodes - cev_nodes m1 < cev_nodes result")
    case True
    then show ?thesis using 3(3) r1 ih by (auto simp: skippedChildren.simps split: if_splits)
  next
    case False
    then show ?thesis using 3(2) [OF r1 [symmetric] refl, of m safe st'] 3(3,4) r1 ih
      by (auto simp: skippedChildren.simps merge_no_reason stoppedConditionEvaluation_def)
  qed
qed

text \<open>What every evaluation returns, also when its control fires.\<close>

definition evaluation_shape :: "condition_evaluation \<Rightarrow> bool" where
  "evaluation_shape ev \<longleftrightarrow>
     proper (cev_state ev)
     \<and> (determinate (cev_state ev) \<longrightarrow> cev_reason ev = NoReason \<and> cev_complete ev)"

lemma evaluation_shape_simps [simp]:
  "evaluation_shape (stoppedConditionEvaluation r)" "evaluation_shape (invalidConditionEvaluation n)"
  by (simp_all add: evaluation_shape_def stoppedConditionEvaluation_def invalidConditionEvaluation_def proper_def)

lemma shape_predicate:
  "evaluatePredicateCore lib p request d vp sr st = (ev, st') \<Longrightarrow> evaluation_shape (predicateEvaluation ev)"
  using predicate_evaluation_shape [of lib p request d vp sr st ev st']
  by (auto simp: evaluation_shape_def predicateEvaluation_def proper_def determinate_def answer_ok_def)

lemma shape_negate: "evaluation_shape ev \<Longrightarrow> evaluation_shape (negateEvaluation ev)"
  by (auto simp: evaluation_shape_def negateEvaluation_def Let_def invalidConditionEvaluation_def proper_def
      determinate_def)

lemma shape_finish: "proper (cev_state ev) \<Longrightarrow> evaluation_shape (logicalFinish ev)"
  by (auto simp: evaluation_shape_def logicalFinish_def determinate_def)

definition loop_shape :: "(condition_evaluation + condition_evaluation) \<Rightarrow> bool" where
  "loop_shape r \<longleftrightarrow> (case r of Inl ev \<Rightarrow> evaluation_shape ev | Inr ev \<Rightarrow> proper (cev_state ev))"

lemma loop_shape_simps [simp]:
  "loop_shape (Inl ev) \<longleftrightarrow> evaluation_shape ev" "loop_shape (Inr ev) \<longleftrightarrow> proper (cev_state ev)"
  by (simp_all add: loop_shape_def)

lemma tree_shape:
  "evaluateConditionTreeCore lib request d vp sr condition depth st = (ev, st') \<Longrightarrow> evaluation_shape ev"
  "logicalLoop lib request d vp kind children depth result st = (r, st') \<Longrightarrow> proper (cev_state result) \<Longrightarrow>
     loop_shape r"
  "skipLoop lib request d vp kind children depth result st = (r, st') \<Longrightarrow> proper (cev_state result) \<Longrightarrow>
     loop_shape r"
proof (induction lib request d vp sr condition depth st and lib request d vp kind children depth result st
    and lib request d vp kind children depth result st
    arbitrary: ev st' and r st' and r st'
    rule: evaluateConditionTreeCore_logicalLoop_skipLoop.induct)
  case (1 lib request d vp sr condition depth st)
  obtain r1 s1 where p1: "poll st = (r1, s1)" by (cases "poll st")
  show ?case
  proof (cases "r1 \<noteq> NoReason \<or> condition = None")
    case True
    then show ?thesis using 1(3) p1
      by (cases condition)
        (auto simp: evaluateConditionTreeCore.simps evaluation_shape_def stoppedConditionEvaluation_def proper_def split: if_splits)
  next
    case False
    then obtain c where c: "condition = Some c" "\<not> r1 \<noteq> NoReason" by auto
    note run = 1(3) [unfolded c(1) evaluateConditionTreeCore.simps [of lib request d vp sr "Some c" depth st]]
    show ?thesis
    proof (cases rule: condition_shapes [where depth = depth and c = c])
      case (neg child)
      obtain ev1 s2 where r2: "evaluateConditionTreeCore lib request d vp sr child (depth + 1) s1 = (ev1, s2)"
        by (metis prod.exhaust)
      have "evaluation_shape ev1"
        by (rule 1(1) [OF p1 [symmetric] c(2,1) neg(1) _ neg(2) _ neg(3) neg(4) _ r2]) (use neg in simp_all)
      then show ?thesis using run p1 c neg r2 by (auto simp: shape_negate split: if_splits)
    next
      case many
      obtain r s2 where r2: "logicalLoop lib request d vp (cnd_kind c) (cnd_children c) depth
          (logicalStart (cnd_kind c)) s1 = (r, s2)"
        by (metis prod.exhaust)
      have "loop_shape r"
        by (rule 1(2) [OF p1 [symmetric] c(2,1) many(1) _ _ many(2) _ r2])
          (use many in \<open>auto simp: logicalStart_def proper_def\<close>)
      then show ?thesis using run p1 c many r2 by (cases r) (auto simp: shape_finish)
    next
      case pred
      then show ?thesis using run p1 c by (auto simp: shape_predicate split: prod.splits if_splits)
    qed (use run p1 c in \<open>auto split: option.splits list.splits\<close>)
  qed
next
  case (2 lib request d vp kind depth result st)
  then show ?case by (auto simp: logicalLoop.simps)
next
  case (3 lib request d vp kind child children depth result st)
  obtain ev s1 where r1: "evaluateConditionTreeCore lib request d vp False child (depth + 1) st = (ev, s1)"
    by (metis prod.exhaust)
  have ih: "evaluation_shape ev" by (rule 3(1) [OF r1])
  let ?n = "result\<lparr>cev_nodes := cev_nodes result + cev_nodes ev\<rparr>"
  let ?next = "combineConditionChild ?n kind ev"
  have p: "proper (cev_state ?next)" using ih 3(5) by (simp add: combine_proper evaluation_shape_def)
  show ?case
  proof (cases "evaluationStopped (cev_reason ev) \<or> MaxConditionNodes < cev_nodes ?n")
    case True
    then show ?thesis using 3(4) r1 ih by (auto simp: logicalLoop.simps Let_def split: if_splits)
  next
    case False
    then have f: "\<not> evaluationStopped (cev_reason ev)" "\<not> MaxConditionNodes < cev_nodes ?n" by blast+
    show ?thesis
    proof (cases "conditionStateDecisive kind (cev_state ?next)")
      case True
      have run: "skipLoop lib request d vp kind children depth ?next s1 = (r, st')"
        using 3(4) r1 f True by (simp add: logicalLoop.simps Let_def)
      show ?thesis by (rule 3(3) [OF r1 [symmetric] f(1) refl f(2) refl _ run p]) (use True in simp)
    next
      case n: False
      have run: "logicalLoop lib request d vp kind children depth ?next s1 = (r, st')"
        using 3(4) r1 f n by (simp add: logicalLoop.simps Let_def)
      show ?thesis by (rule 3(2) [OF r1 [symmetric] f(1) refl f(2) refl n run p])
    qed
  qed
next
  case (4 lib request d vp kind depth result st)
  then show ?case by (auto simp: skipLoop.simps)
next
  case (5 lib request d vp kind child children depth result st)
  obtain m safe s1 where r1: "skippedConditionMetadata child (depth + 1) st = ((m, safe), s1)"
    by (metis prod.exhaust)
  have m: "cev_reason m = NoReason \<or> (\<exists>r. evaluationStopped r \<and> m = stoppedConditionEvaluation r)"
    by (rule skip_reason(1) [OF r1])
  show ?case
  proof (cases "evaluationStopped (cev_reason m)")
    case True
    then show ?thesis using 5(3) r1 m by (auto simp: skipLoop.simps)
  next
    case ns: False
    show ?thesis
    proof (cases "\<not> safe \<or> MaxConditionNodes - cev_nodes m < cev_nodes result")
      case True
      have run: "logicalLoop lib request d vp kind (child # children) depth result s1 = (r, st')"
        using 5(3) r1 ns True by (auto simp: skipLoop.simps)
      show ?thesis by (rule 5(1) [OF r1 [symmetric] refl ns True run 5(4)])
    next
      case False
      have run: "skipLoop lib request d vp kind children depth
          (mergeConditionMetadata (result\<lparr>cev_nodes := cev_nodes result + cev_nodes m\<rparr>) m) s1 = (r, st')"
        using 5(3) r1 ns False by (auto simp: skipLoop.simps)
      show ?thesis by (rule 5(2) [OF r1 [symmetric] refl ns False run]) (simp add: 5(4))
    qed
  qed
qed

text \<open>
  Every stop is reported: the polls of an evaluation saw nothing unless its result is the stop
  of the last one.
\<close>

lemma skip_ran:
  "skippedConditionMetadata condition depth st = ((m, safe), st') \<Longrightarrow>
     ran (evs_control st) (stopped_as (cev_reason m)) (evs_control st')"
  "skippedChildren children depth result st = ((m, safe), st') \<Longrightarrow> cev_reason result = NoReason \<Longrightarrow>
     ran (evs_control st) (stopped_as (cev_reason m)) (evs_control st')"
proof (induction condition depth st and children depth result st arbitrary: m safe st' and m safe st'
    rule: skippedConditionMetadata_skippedChildren.induct)
  case (1 condition depth st)
  obtain r1 s1 where p1: "poll st = (r1, s1)" by (cases "poll st")
  note ran1 = poll_ran [OF p1]
  show ?case
  proof (cases "r1 \<noteq> NoReason \<or> condition = None")
    case True
    then show ?thesis using 1(3) p1 ran1 ran_stopped [OF ran1]
      by (cases condition)
        (auto simp: skippedConditionMetadata.simps stoppedConditionEvaluation_def split: if_splits)
  next
    case False
    then obtain c where c: "condition = Some c" "\<not> r1 \<noteq> NoReason" by auto
    note run = 1(3) [unfolded c(1) skippedConditionMetadata.simps [of "Some c" depth st]]
    have ran1: "ran (evs_control st) NoReason (evs_control s1)" using ran1 c(2) by simp
    show ?thesis
    proof (cases rule: condition_shapes [where depth = depth and c = c])
      case (neg child)
      obtain m1 safe1 s2 where r2: "skippedConditionMetadata child (depth + 1) s1 = ((m1, safe1), s2)"
        by (metis prod.exhaust)
      have "ran (evs_control s1) (stopped_as (cev_reason m1)) (evs_control s2)"
        by (rule 1(1) [OF p1 [symmetric] c(2,1) neg(1) _ neg(2) _ neg(3) neg(4) _ r2]) (use neg in simp_all)
      then have "ran (evs_control st) (stopped_as (cev_reason m1)) (evs_control s2)" by (rule ran_trans [OF ran1])
      then show ?thesis using run p1 c neg r2 by (auto split: if_splits)
    next
      case many
      have "ran (evs_control s1) (stopped_as (cev_reason m)) (evs_control st')"
        by (rule 1(2) [OF p1 [symmetric] c(2,1) many(1) _ _ many(2), of m safe st'])
          (use run p1 c many in auto)
      then show ?thesis by (rule ran_trans [OF ran1])
    next
      case pred
      then show ?thesis using run p1 c ran1 by (auto simp: skip_predicate_def split: option.splits if_splits)
    qed (use run p1 c ran1 in \<open>auto split: option.splits list.splits\<close>)
  qed
next
  case (2 depth result st)
  then show ?case by (simp add: skippedChildren.simps)
next
  case (3 child children depth result st)
  obtain m1 safe1 s1 where r1: "skippedConditionMetadata child (depth + 1) st = ((m1, safe1), s1)"
    by (metis prod.exhaust)
  note ran1 = 3(1) [OF r1]
  show ?case
  proof (cases "evaluationStopped (cev_reason m1) \<or> \<not> safe1 \<or> MaxConditionNodes - cev_nodes m1 < cev_nodes result")
    case True
    then show ?thesis using 3(3) r1 ran1 by (auto simp: skippedChildren.simps split: if_splits)
  next
    case False
    then have "ran (evs_control st) NoReason (evs_control s1)" using ran1 by simp
    moreover have "ran (evs_control s1) (stopped_as (cev_reason m)) (evs_control st')"
      using 3(2) [OF r1 [symmetric] refl, of m safe st'] 3(3,4) r1 False skip_reason(1) [OF r1]
      by (auto simp: skippedChildren.simps merge_no_reason stoppedConditionEvaluation_def)
    ultimately show ?thesis by (rule ran_trans)
  qed
qed

definition loop_ran :: "eval_state \<Rightarrow> condition_evaluation + condition_evaluation \<Rightarrow> eval_state \<Rightarrow> bool" where
  "loop_ran st r st' \<longleftrightarrow>
     (case r of
        Inl ev \<Rightarrow> ran (evs_control st) (stopped_as (cev_reason ev)) (evs_control st')
      | Inr ev \<Rightarrow> \<not> evaluationStopped (cev_reason ev) \<and> ran (evs_control st) NoReason (evs_control st'))"

lemma loop_ran_simps [simp]:
  "loop_ran st (Inl ev) st' \<longleftrightarrow> ran (evs_control st) (stopped_as (cev_reason ev)) (evs_control st')"
  "loop_ran st (Inr ev) st' \<longleftrightarrow>
     \<not> evaluationStopped (cev_reason ev) \<and> ran (evs_control st) NoReason (evs_control st')"
  by (simp_all add: loop_ran_def)

lemma loop_ran_trans:
  "ran (evs_control st) NoReason (evs_control s1) \<Longrightarrow> loop_ran s1 r st' \<Longrightarrow> loop_ran st r st'"
  by (cases r) (auto intro: ran_trans)

lemma tree_ran:
  "evaluateConditionTreeCore lib request d vp sr condition depth st = (ev, st') \<Longrightarrow>
     ran (evs_control st) (stopped_as (cev_reason ev)) (evs_control st')"
  "logicalLoop lib request d vp kind children depth result st = (r, st') \<Longrightarrow>
     \<not> evaluationStopped (cev_reason result) \<Longrightarrow> loop_ran st r st'"
  "skipLoop lib request d vp kind children depth result st = (r, st') \<Longrightarrow>
     \<not> evaluationStopped (cev_reason result) \<Longrightarrow> loop_ran st r st'"
proof (induction lib request d vp sr condition depth st and lib request d vp kind children depth result st
    and lib request d vp kind children depth result st
    arbitrary: ev st' and r st' and r st'
    rule: evaluateConditionTreeCore_logicalLoop_skipLoop.induct)
  case (1 lib request d vp sr condition depth st)
  obtain r1 s1 where p1: "poll st = (r1, s1)" by (cases "poll st")
  note ran1 = poll_ran [OF p1]
  show ?case
  proof (cases "r1 \<noteq> NoReason \<or> condition = None")
    case True
    then show ?thesis using 1(3) p1 ran1 ran_stopped [OF ran1]
      by (cases condition)
        (auto simp: evaluateConditionTreeCore.simps stoppedConditionEvaluation_def split: if_splits)
  next
    case False
    then obtain c where c: "condition = Some c" "\<not> r1 \<noteq> NoReason" by auto
    note run = 1(3) [unfolded c(1) evaluateConditionTreeCore.simps [of lib request d vp sr "Some c" depth st]]
    have ran1: "ran (evs_control st) NoReason (evs_control s1)" using ran1 c(2) by simp
    show ?thesis
    proof (cases rule: condition_shapes [where depth = depth and c = c])
      case (neg child)
      obtain ev1 s2 where r2: "evaluateConditionTreeCore lib request d vp sr child (depth + 1) s1 = (ev1, s2)"
        by (metis prod.exhaust)
      have "ran (evs_control s1) (stopped_as (cev_reason ev1)) (evs_control s2)"
        by (rule 1(1) [OF p1 [symmetric] c(2,1) neg(1) _ neg(2) _ neg(3) neg(4) _ r2]) (use neg in simp_all)
      then have "ran (evs_control st) (stopped_as (cev_reason ev1)) (evs_control s2)" by (rule ran_trans [OF ran1])
      then show ?thesis using run p1 c neg r2 by (auto simp: negate_not_stopped split: if_splits)
    next
      case many
      obtain r s2 where r2: "logicalLoop lib request d vp (cnd_kind c) (cnd_children c) depth
          (logicalStart (cnd_kind c)) s1 = (r, s2)"
        by (metis prod.exhaust)
      have "loop_ran s1 r s2"
        by (rule 1(2) [OF p1 [symmetric] c(2,1) many(1) _ _ many(2) _ r2]) (use many in auto)
      then have "loop_ran st r s2" by (rule loop_ran_trans [OF ran1])
      then show ?thesis using run p1 c many r2 by (cases r) (auto simp: finish_not_stopped)
    next
      case pred
      show ?thesis
      proof (cases "cnd_predicate c = None \<or> length (cnd_children c) \<noteq> 0")
        case True
        then show ?thesis using run p1 c pred ran1 by auto
      next
        case False
        obtain pv s2 where e: "evaluatePredicateCore lib (cnd_predicate c) request d vp sr s1 = (pv, s2)"
          by (metis prod.exhaust)
        have "ran (evs_control st) (stopped_as (pev_reason pv)) (evs_control s2)"
          by (rule ran_trans [OF ran1 predicate_ran [OF e]])
        then show ?thesis using run p1 c pred False e by (auto simp: predicateEvaluation_def)
      qed
    qed (use run p1 c ran1 in \<open>auto split: option.splits list.splits\<close>)
  qed
next
  case (2 lib request d vp kind depth result st)
  then show ?case by (auto simp: logicalLoop.simps)
next
  case (3 lib request d vp kind child children depth result st)
  obtain ev s1 where r1: "evaluateConditionTreeCore lib request d vp False child (depth + 1) st = (ev, s1)"
    by (metis prod.exhaust)
  note ran1 = 3(1) [OF r1]
  let ?n = "result\<lparr>cev_nodes := cev_nodes result + cev_nodes ev\<rparr>"
  let ?next = "combineConditionChild ?n kind ev"
  show ?case
  proof (cases "evaluationStopped (cev_reason ev) \<or> MaxConditionNodes < cev_nodes ?n")
    case True
    then show ?thesis using 3(4) r1 ran1 by (auto simp: logicalLoop.simps Let_def split: if_splits)
  next
    case False
    then have f: "\<not> evaluationStopped (cev_reason ev)" "\<not> MaxConditionNodes < cev_nodes ?n" by blast+
    have p: "\<not> evaluationStopped (cev_reason ?next)" using combine_not_stopped [of ?n ev kind] 3(5) f(1) by simp
    have ran1: "ran (evs_control st) NoReason (evs_control s1)" using ran1 f(1) by simp
    show ?thesis
    proof (cases "conditionStateDecisive kind (cev_state ?next)")
      case True
      have run: "skipLoop lib request d vp kind children depth ?next s1 = (r, st')"
        using 3(4) r1 f True by (simp add: logicalLoop.simps Let_def)
      have "loop_ran s1 r st'" by (rule 3(3) [OF r1 [symmetric] f(1) refl f(2) refl _ run p]) (use True in simp)
      then show ?thesis by (rule loop_ran_trans [OF ran1])
    next
      case n: False
      have run: "logicalLoop lib request d vp kind children depth ?next s1 = (r, st')"
        using 3(4) r1 f n by (simp add: logicalLoop.simps Let_def)
      have "loop_ran s1 r st'" by (rule 3(2) [OF r1 [symmetric] f(1) refl f(2) refl n run p])
      then show ?thesis by (rule loop_ran_trans [OF ran1])
    qed
  qed
next
  case (4 lib request d vp kind depth result st)
  then show ?case by (auto simp: skipLoop.simps)
next
  case (5 lib request d vp kind child children depth result st)
  obtain m safe s1 where r1: "skippedConditionMetadata child (depth + 1) st = ((m, safe), s1)"
    by (metis prod.exhaust)
  note ran1 = skip_ran(1) [OF r1]
  show ?case
  proof (cases "evaluationStopped (cev_reason m)")
    case True
    then show ?thesis using 5(3) r1 ran1 by (auto simp: skipLoop.simps)
  next
    case ns: False
    have ran1: "ran (evs_control st) NoReason (evs_control s1)" using ran1 ns by simp
    show ?thesis
    proof (cases "\<not> safe \<or> MaxConditionNodes - cev_nodes m < cev_nodes result")
      case True
      have run: "logicalLoop lib request d vp kind (child # children) depth result s1 = (r, st')"
        using 5(3) r1 ns True by (auto simp: skipLoop.simps)
      have "loop_ran s1 r st'" by (rule 5(1) [OF r1 [symmetric] refl ns True run 5(4)])
      then show ?thesis by (rule loop_ran_trans [OF ran1])
    next
      case False
      let ?next = "mergeConditionMetadata (result\<lparr>cev_nodes := cev_nodes result + cev_nodes m\<rparr>) m"
      have run: "skipLoop lib request d vp kind children depth ?next s1 = (r, st')"
        using 5(3) r1 ns False by (auto simp: skipLoop.simps)
      have p: "\<not> evaluationStopped (cev_reason ?next)" by (rule merge_not_stopped) (use 5(4) ns in simp_all)
      have "loop_ran s1 r st'" by (rule 5(2) [OF r1 [symmetric] refl ns False run p])
      then show ?thesis by (rule loop_ran_trans [OF ran1])
    qed
  qed
qed

text \<open>An evaluation polls its control before anything else.\<close>

lemma tree_polls:
  assumes e: "evaluateConditionTreeCore lib request d vp sr condition depth st = (ev, st')"
    and left: "0 < polls (evs_control st)"
  shows "polls (evs_control st') < polls (evs_control st)"
proof -
  obtain r1 s1 where p1: "poll st = (r1, s1)" by (cases "poll st")
  have "polls (evs_control st') \<le> polls (evs_control s1)"
  proof (cases "r1 \<noteq> NoReason \<or> condition = None")
    case True
    then show ?thesis using e p1
      by (cases condition) (auto simp: evaluateConditionTreeCore.simps split: if_splits)
  next
    case False
    then obtain c where c: "condition = Some c" "r1 = NoReason" by auto
    note run = e [unfolded c(1) evaluateConditionTreeCore.simps [of lib request d vp sr "Some c" depth st]]
    show ?thesis
    proof (cases rule: condition_shapes [where depth = depth and c = c])
      case (neg child)
      obtain ev1 s2 where r2: "evaluateConditionTreeCore lib request d vp sr child (depth + 1) s1 = (ev1, s2)"
        by (metis prod.exhaust)
      then show ?thesis using run p1 c neg ran_polls [OF tree_ran(1) [OF r2]] by (auto split: if_splits)
    next
      case many
      obtain r s2 where r2: "logicalLoop lib request d vp (cnd_kind c) (cnd_children c) depth
          (logicalStart (cnd_kind c)) s1 = (r, s2)"
        by (metis prod.exhaust)
      have "polls (evs_control s2) \<le> polls (evs_control s1)"
        using tree_ran(2) [OF r2 start_not_stopped] ran_polls by (cases r) auto
      then show ?thesis using run p1 c many r2 by (cases r) auto
    next
      case pred
      then show ?thesis using run p1 c ran_polls [OF predicate_ran]
        by (auto split: prod.splits if_splits)
    qed (use run p1 c in \<open>auto split: option.splits list.splits\<close>)
  qed
  then show ?thesis using poll_polls [OF p1 left] by simp
qed

section \<open>Properties\<close>

text \<open>
  C23: the memo, the control and the loop that skips children of a decided parent never change
  what an undisturbed evaluation of a condition returns: the result, with its reason, its
  provenance for the trace, its summary and its node count, is that of the plain evaluation of
  every child without any memo.
\<close>

theorem condition_tree_plain:
  assumes "eval_ok request st"
  shows "fst (evaluateConditionTreeWithRootsControl lib condition request d depth st)
      = plainTree lib request d False True condition depth
    \<and> eval_ok request (snd (evaluateConditionTreeWithRootsControl lib condition request d depth st))"
proof -
  obtain ev st' where e: "evaluateConditionTreeCore lib request d False True condition depth st = (ev, st')"
    by (metis prod.exhaust)
  then show ?thesis using tree_quiet(1) [OF assms e]
    by (simp add: evaluateConditionTreeWithRootsControl_def)
qed

definition example_condition :: "compiled_condition option" where
  "example_condition = Some (CompiledCondition ConditionAny
     [Some (CompiledCondition ConditionPredicate [] (Some example_predicate)), None] None)"

theorem condition_tree_plain_witness:
  "fst (evaluateConditionTreeWithRootsControl example_lib example_condition example_request DecisionBlock 1
        \<lparr>evs_roots = Some noRoots, evs_control = None\<rparr>)
      = plainTree example_lib example_request DecisionBlock False True example_condition 1
    \<and> eval_ok example_request (snd (evaluateConditionTreeWithRootsControl example_lib example_condition
        example_request DecisionBlock 1 \<lparr>evs_roots = Some noRoots, evs_control = None\<rparr>))"
  by (rule condition_tree_plain) (simp add: eval_ok_start)

text \<open>
  C12: the truth value of a well-formed condition is strong Kleene logic over its predicates, so
  a settled condition is robust: whatever value the indeterminate predicates would have had, the
  answer would be the same.
\<close>

theorem condition_is_kleene:
  assumes "eval_ok request st" and "wellformed_condition depth condition"
    and "condition_nodes condition \<le> MaxConditionNodes"
  shows "cev_state (fst (evaluateConditionTreeWithRootsControl lib condition request d depth st))
      = kleene (predicate_truth lib request d False) condition
    \<and> (determinate (kleene (predicate_truth lib request d False) condition) \<longrightarrow>
         (\<forall>t. (\<forall>p. proper (t p)
                \<and> (determinate (predicate_truth lib request d False p) \<longrightarrow> t p = predicate_truth lib request d False p)) \<longrightarrow>
            kleene t condition = kleene (predicate_truth lib request d False) condition))"
proof -
  obtain ev st' where e: "evaluateConditionTreeCore lib request d False True condition depth st = (ev, st')"
    by (metis prod.exhaust)
  then have "fst (evaluateConditionTreeWithRootsControl lib condition request d depth st)
      = plainTree lib request d False True condition depth"
    using tree_quiet(1) [OF assms(1) e] by (simp add: evaluateConditionTreeWithRootsControl_def)
  then have "cev_state (fst (evaluateConditionTreeWithRootsControl lib condition request d depth st))
      = kleene (predicate_truth lib request d False) condition"
    using tree_kleene(1) [OF assms(2,3), of lib request d False True] by simp
  moreover have "kleene t condition = kleene (predicate_truth lib request d False) condition"
    if "determinate (kleene (predicate_truth lib request d False) condition)"
      and "\<forall>p. proper (t p)
        \<and> (determinate (predicate_truth lib request d False p) \<longrightarrow> t p = predicate_truth lib request d False p)" for t
    by (rule kleene_refine [OF _ _ _ that(1)]) (use that(2) predicate_truth_proper in blast)+
  ultimately show ?thesis by blast
qed

theorem condition_is_kleene_witness:
  "cev_state (fst (evaluateConditionTreeWithRootsControl example_lib example_condition example_request DecisionBlock 1
        \<lparr>evs_roots = Some noRoots, evs_control = None\<rparr>)) = ConditionTrue"
proof -
  have "wellformed_condition 1 example_condition" "condition_nodes example_condition \<le> MaxConditionNodes"
    by (simp_all add: example_condition_def wellformed_condition.simps(2) condition_nodes.simps(2)
        MaxConditionDepth_def MaxConditionNodes_def)
  then have "cev_state (fst (evaluateConditionTreeWithRootsControl example_lib example_condition example_request
      DecisionBlock 1 \<lparr>evs_roots = Some noRoots, evs_control = None\<rparr>))
      = kleene (predicate_truth example_lib example_request DecisionBlock False) example_condition"
    using condition_is_kleene [OF eval_ok_start(1) [OF quiet_nil]] by blast
  then show ?thesis by (simp add: example_condition_def kleene.simps(2) kleene_any_def)
qed

text \<open>
  C24: interruption fails closed. An evaluation polls its control; when a poll fires, whatever child
  is being evaluated or skipped at the time, no further poll is made and the result is that stop,
  and indeterminate. So a result with another reason, and every settled one, comes from a run all of
  whose polls saw neither the deadline nor a cancellation.
\<close>

theorem condition_stop_fails_closed:
  assumes "evaluateConditionTreeWithRootsControl lib condition request d depth st = (ev, st')"
  shows "ran (evs_control st) (stopped_as (cev_reason ev)) (evs_control st')
    \<and> (0 < polls (evs_control st) \<longrightarrow> polls (evs_control st') < polls (evs_control st))
    \<and> (evaluationStopped (cev_reason ev) \<longrightarrow> cev_state ev = ConditionIndeterminate)
    \<and> (cev_state ev = ConditionTrue \<or> cev_state ev = ConditionFalse \<longrightarrow>
         cev_reason ev = NoReason \<and> cev_complete ev \<and> ran (evs_control st) NoReason (evs_control st'))"
proof -
  note run = assms [unfolded evaluateConditionTreeWithRootsControl_def]
  show ?thesis using tree_ran(1) [OF run] tree_polls [OF run] tree_shape(1) [OF run]
    by (auto simp: evaluation_shape_def determinate_def proper_def)
qed

text \<open>The second poll finds the context cancelled, while the first child of the condition is evaluated.\<close>

definition cancelled_state :: eval_state where
  "cancelled_state = \<lparr>evs_roots = None, evs_control = Some (newEvaluationControl True None
     [\<lparr>pv_now = 0, pv_closed = False, pv_deadline_error = False\<rparr>,
      \<lparr>pv_now = 1, pv_closed = True, pv_deadline_error = False\<rparr>])\<rparr>"

theorem condition_stop_fails_closed_witness:
  "\<exists>ev st'. evaluateConditionTreeWithRootsControl example_lib example_condition example_request DecisionBlock 1
        cancelled_state = (ev, st')
    \<and> cev_reason ev = ReasonCancelled \<and> cev_state ev = ConditionIndeterminate
    \<and> ran (evs_control cancelled_state) ReasonCancelled (evs_control st')"
proof -
  obtain ev st' where e: "evaluateConditionTreeWithRootsControl example_lib example_condition example_request
      DecisionBlock 1 cancelled_state = (ev, st')"
    by (metis prod.exhaust)
  define s1 where "s1 = cancelled_state\<lparr>evs_control := Some (newEvaluationControl True None
      [\<lparr>pv_now = 1, pv_closed = True, pv_deadline_error = False\<rparr>])\<rparr>"
  define s2 where "s2 = cancelled_state\<lparr>evs_control := Some (newEvaluationControl True None [])\<rparr>"
  have p: "poll cancelled_state = (NoReason, s1)" "poll s1 = (ReasonCancelled, s2)"
    by (simp_all add: poll_def stopReason_def view_reason_def cancelled_state_def s1_def s2_def newEvaluationControl_def)
  have child: "evaluateConditionTreeCore lib request d vp sr condition depth s1 = (stoppedConditionEvaluation ReasonCancelled, s2)"
    for lib request d vp sr condition depth
    by (subst evaluateConditionTreeCore.simps) (simp add: p(2))
  have loop: "logicalLoop lib request d vp kind (c # cs) depth result s1 = (Inl (stoppedConditionEvaluation ReasonCancelled), s2)"
    for lib request d vp kind c cs depth result
    by (simp add: logicalLoop.simps(2) child stopped_reason)
  have "evaluateConditionTreeCore example_lib example_request DecisionBlock False True example_condition 1 cancelled_state
      = (stoppedConditionEvaluation ReasonCancelled, s2)"
    by (subst evaluateConditionTreeCore.simps)
      (simp add: p(1) example_condition_def MaxConditionDepth_def loop)
  then have "ev = stoppedConditionEvaluation ReasonCancelled"
    using e by (simp add: evaluateConditionTreeWithRootsControl_def)
  then have r: "cev_reason ev = ReasonCancelled" by (simp add: stoppedConditionEvaluation_def)
  have "ran (evs_control cancelled_state) (stopped_as (cev_reason ev)) (evs_control st')"
    and "evaluationStopped (cev_reason ev) \<longrightarrow> cev_state ev = ConditionIndeterminate"
    using condition_stop_fails_closed [OF e] by blast+
  then have "cev_state ev = ConditionIndeterminate" "ran (evs_control cancelled_state) ReasonCancelled (evs_control st')"
    by (simp_all add: r)
  then show ?thesis using e r by blast
qed

end
