(* ===== verification/Action_Plan.thy ===== *)
theory Action_Plan
  imports Action_Identity Action_Condition
begin

text \<open>
  The part of a compiled plan that an evaluation reads, and the selection by it: the tool of a
  request, the baseline candidate, and the selectors of rules, budgets and detectors
  (evaluator.go). The lemmas give the meaning of a selector and the fallback of the baseline.
\<close>

section \<open>Plans\<close>

text \<open>Detector categories and content types stay strings: the code sorts lists of them.\<close>

definition DetectorCategories :: "string list" where
  "DetectorCategories =
     [''credential'', ''secret'', ''pii_email'', ''pii_phone'', ''pii_payment_card'', ''forbidden_data'',
      ''prompt_injection'', ''role_override'', ''privilege_claim'', ''indirect_instruction'',
      ''delimiter_attack'', ''exfiltration'']"

definition detector_category_valid :: "string \<Rightarrow> bool" where
  "detector_category_valid c \<longleftrightarrow> c \<in> set DetectorCategories"

definition ContentTypes :: "string list" where
  "ContentTypes =
     [''text'', ''image'', ''audio'', ''resource_text'', ''resource_blob'', ''resource_link'', ''annotation'',
      ''metadata'', ''structured_content'', ''unknown'']"

definition content_type_valid :: "string \<Rightarrow> bool" where
  "content_type_valid t \<longleftrightarrow> t \<in> set ContentTypes"

datatype result_disposition =
  ResultDispositionWarn | ResultDispositionWithhold | ResultDispositionRequireSchema
  | ResultDispositionOther string

datatype progress_disposition =
  ProgressDispositionForward | ProgressDispositionSuppress | ProgressDispositionOther string

datatype schema_policy = SchemaValidateIfDeclared | SchemaRequire | SchemaPolicyOther string

record detector_field =
  dfl_source :: value_source
  dfl_pointer :: string

record inspection_limits =
  ilm_max_bytes :: uint64
  ilm_max_items :: uint32
  ilm_max_depth :: uint32
  ilm_max_milliseconds :: uint32

record detector_policy =
  dtp_id :: string
  dtp_selector :: selector
  dtp_pack_id :: string
  dtp_pack_digest :: string
  dtp_fields :: "detector_field list"
  dtp_categories :: "string list"
  dtp_forbidden_terms :: "string list"
  dtp_pre_call_decision :: decision
  dtp_post_result_disposition :: result_disposition
  dtp_progress_disposition :: progress_disposition
  dtp_schema_policy :: schema_policy
  dtp_allowed_content_types :: "string list"
  dtp_trusted_annotation_fields :: "string list"
  dtp_limits :: inspection_limits
  dtp_source_identity :: string

text \<open>The fields of \<open>Plan\<close> that the evaluator reads.\<close>

record plan =
  pln_defaults :: defaults
  pln_tools :: "tool list"
  pln_rules :: "rule_spec list"
  pln_budgets :: "budget list"
  pln_detectors :: "detector_policy list"

record evaluator =
  evr_plan :: plan
  evr_rules :: "compiled_rule list"
  evr_tool_by_exact :: "string \<rightharpoonup> nat"
  evr_identity :: string

section \<open>Selection\<close>

definition request_tool :: "request \<Rightarrow> tool" where
  "request_tool request =
     \<lparr>tool_id = [], tool_transport = req_transport request, tool_platform = req_platform request,
      tool_server_label = req_server_label request, tool_server_fingerprint = req_server_fingerprint request,
      tool_name = req_tool request,
      tool_effect = \<lparr>eff_kind = EffectOther [], eff_path_fields = [], eff_command_field = []\<rparr>,
      tool_cost_units = None, tool_max_result_bytes = 0, tool_ledger_name_safe = False,
      tool_origin = OriginOther [], tool_source_identity = []\<rparr>"

definition selectTool :: "evaluator \<Rightarrow> request \<Rightarrow> tool option \<times> string" where
  "selectTool e request =
     (case lookupToolIndex (evr_tool_by_exact e) (request_tool request) of
        None \<Rightarrow> (None, [])
      | Some index \<Rightarrow>
          if length (pln_tools (evr_plan e)) \<le> index then (None, [])
          else (Some (pln_tools (evr_plan e) ! index), tool_id (pln_tools (evr_plan e) ! index)))"

definition baselineCandidate :: "evaluator \<Rightarrow> request \<Rightarrow> tool option \<Rightarrow> candidate" where
  "baselineCandidate e request tool =
     (let d = pln_defaults (evr_plan e)
      in if tool \<noteq> None then
           \<lparr>cand_source = CandidateBaseline, cand_id = ''declared-tool'', cand_decision = def_declared_tool d,
            cand_reason = (if def_declared_tool d = DecisionRequireApproval then ReasonApprovalRequired
                           else ReasonDeclaredTool)\<rparr>
         else if req_transport request = TransportMCPStdio then
           \<lparr>cand_source = CandidateBaseline, cand_id = ''gateway-unmatched'',
            cand_decision = def_gateway_unmatched d, cand_reason = ReasonToolUnclassified\<rparr>
         else
           \<lparr>cand_source = CandidateBaseline, cand_id = ''host-unmatched'',
            cand_decision = def_host_unmatched d, cand_reason = ReasonHostUnmatched\<rparr>)"

definition stringListed :: "string list \<Rightarrow> string \<Rightarrow> bool" where
  "stringListed values value \<longleftrightarrow> length values = 0 \<or> containsSorted values value"

definition transportListed :: "transport list \<Rightarrow> transport \<Rightarrow> bool" where
  "transportListed values value \<longleftrightarrow> length values = 0 \<or> list_ex (\<lambda>candidate. candidate = value) values"

definition platformListed :: "platform list \<Rightarrow> platform \<Rightarrow> bool" where
  "platformListed values value \<longleftrightarrow> length values = 0 \<or> list_ex (\<lambda>candidate. candidate = value) values"

definition phaseListed :: "phase list \<Rightarrow> phase \<Rightarrow> bool" where
  "phaseListed values value \<longleftrightarrow> length values = 0 \<or> list_ex (\<lambda>candidate. candidate = value) values"

definition selectorMatches :: "selector \<Rightarrow> request \<Rightarrow> string \<Rightarrow> bool" where
  "selectorMatches s request toolID \<longleftrightarrow>
     stringListed (sel_tool_ids s) toolID \<and>
     transportListed (sel_transports s) (req_transport request) \<and>
     platformListed (sel_platforms s) (req_platform request) \<and>
     stringListed (sel_server_labels s) (req_server_label request) \<and>
     stringListed (sel_server_fingerprints s) (req_server_fingerprint request) \<and>
     stringListed (sel_tools s) (req_tool request) \<and>
     stringListed (sel_tool_contract_digests s) (req_tool_contract_digest request) \<and>
     phaseListed (sel_phases s) (req_phase request)"

section \<open>Lemmas\<close>

text \<open>The plan compiler sorts the string lists of a selector.\<close>

definition selector_sorted :: "selector \<Rightarrow> bool" where
  "selector_sorted s \<longleftrightarrow> sorted (sel_tool_ids s) \<and> sorted (sel_server_labels s)
     \<and> sorted (sel_server_fingerprints s) \<and> sorted (sel_tools s) \<and> sorted (sel_tool_contract_digests s)"

lemma selectTool_id: "selectTool e request = (tool, toolID) \<Longrightarrow>
    (case tool of None \<Rightarrow> toolID = [] | Some t \<Rightarrow> toolID = tool_id t \<and> t \<in> set (pln_tools (evr_plan e)))"
  by (auto simp: selectTool_def split: option.splits if_splits)

section \<open>Properties\<close>

text \<open>
  A selector with sorted lists matches exactly the requests that meet every constraint it
  states; an empty list is no constraint. The binary search over the lists loses no member.
\<close>

theorem selector_matches_iff:
  assumes "selector_sorted s"
  shows "selectorMatches s request toolID \<longleftrightarrow>
    (sel_tool_ids s = [] \<or> toolID \<in> set (sel_tool_ids s))
    \<and> (sel_transports s = [] \<or> req_transport request \<in> set (sel_transports s))
    \<and> (sel_platforms s = [] \<or> req_platform request \<in> set (sel_platforms s))
    \<and> (sel_server_labels s = [] \<or> req_server_label request \<in> set (sel_server_labels s))
    \<and> (sel_server_fingerprints s = [] \<or> req_server_fingerprint request \<in> set (sel_server_fingerprints s))
    \<and> (sel_tools s = [] \<or> req_tool request \<in> set (sel_tools s))
    \<and> (sel_tool_contract_digests s = [] \<or> req_tool_contract_digest request \<in> set (sel_tool_contract_digests s))
    \<and> (sel_phases s = [] \<or> req_phase request \<in> set (sel_phases s))"
  using assms
  by (simp add: selectorMatches_def selector_sorted_def stringListed_def transportListed_def platformListed_def
      phaseListed_def containsSorted_iff list_ex_iff)

definition example_selector :: selector where
  "example_selector = \<lparr>sel_tool_ids = [], sel_transports = [TransportMCPStdio], sel_platforms = [],
     sel_server_labels = [''a'', ''srv''], sel_server_fingerprints = [], sel_tools = [],
     sel_tool_contract_digests = [], sel_phases = [PhasePreCall]\<rparr>"

theorem selector_matches_iff_witness: "selectorMatches example_selector example_request ''read''"
  by (subst selector_matches_iff)
    (simp_all add: example_selector_def example_request_def selector_sorted_def)

end
