(* ===== verification/Action_Budget.thy ===== *)
theory Action_Budget
  imports Action_Plan
begin

text \<open>
  Budgets as the evaluator sees them (budget\_eval.go): the charge a call must reserve, the
  capacity check in saturating 64-bit arithmetic, and the validation of the budget snapshot the
  caller supplies against the declarations that match the request. The lemmas show that the
  capacity check is exact on the natural numbers and that an accepted snapshot is, declaration by
  declaration, the one the plan asks for, with one atomic reservation or none.
\<close>

section \<open>Charges and capacity\<close>

definition MaxArgumentBytes :: uint64 where "MaxArgumentBytes = 8388608"
definition MaxCredentialLabels :: nat where "MaxCredentialLabels = 256"
definition MaxConcurrentCalls :: uint64 where "MaxConcurrentCalls = 4"

definition limit_list :: "budget_limits \<Rightarrow> uint64 list" where
  "limit_list l =
     [lim_call_count l, lim_denied_count l, lim_approval_count l, lim_argument_bytes l,
      lim_result_bytes l, lim_cost_units l, lim_concurrent l, lim_rate_window l]"

definition usage_list :: "budget_usage \<Rightarrow> uint64 list" where
  "usage_list u =
     [use_call_count u, use_denied_count u, use_approval_count u, use_argument_bytes u,
      use_result_bytes u, use_cost_units u, use_concurrent u, use_rate_window u]"

text \<open>Compiled limits fit in an int64, and the concurrency limit in the gateway's maximum.\<close>

definition validateBudgetLimits :: "budget_limits \<Rightarrow> bool" where
  "validateBudgetLimits limits \<longleftrightarrow>
     list_all (\<lambda>value. \<not> 9223372036854775807 < value) (limit_list limits)
     \<and> \<not> MaxConcurrentCalls < lim_concurrent limits"

definition saturatingBudgetAdd :: "uint64 \<Rightarrow> uint64 \<Rightarrow> uint64 \<times> bool" where
  "saturatingBudgetAdd left right =
     (if max_uint64 - left < right then (max_uint64, True) else (left + right, False))"

text \<open>One check: limit, consumed, reserved, required.\<close>

definition capacityCheck :: "bool \<Rightarrow> uint64 \<Rightarrow> uint64 \<Rightarrow> uint64 \<Rightarrow> uint64 \<Rightarrow> bool" where
  "capacityCheck applied limit consumed reserved required =
     (if limit = 0 then \<not> required \<noteq> 0
      else if applied \<and> reserved < required then False
      else
        (case saturatingBudgetAdd consumed reserved of
           (amount, overflow) \<Rightarrow>
             (case (if \<not> applied then saturatingBudgetAdd amount required else (amount, overflow)) of
                (amount, overflow) \<Rightarrow> \<not> (overflow \<or> limit < amount))))"

definition budgetCapacityAvailable ::
  "budget_limits \<Rightarrow> budget_usage \<Rightarrow> budget_usage \<Rightarrow> budget_usage \<Rightarrow> bool \<Rightarrow> bool" where
  "budgetCapacityAvailable limits consumed reserved required applied =
     (capacityCheck applied (lim_call_count limits) (use_call_count consumed) (use_call_count reserved) (use_call_count required)
      \<and> capacityCheck applied (lim_denied_count limits) (use_denied_count consumed) (use_denied_count reserved) (use_denied_count required)
      \<and> capacityCheck applied (lim_approval_count limits) (use_approval_count consumed) (use_approval_count reserved) (use_approval_count required)
      \<and> capacityCheck applied (lim_argument_bytes limits) (use_argument_bytes consumed) (use_argument_bytes reserved) (use_argument_bytes required)
      \<and> capacityCheck applied (lim_result_bytes limits) (use_result_bytes consumed) (use_result_bytes reserved) (use_result_bytes required)
      \<and> capacityCheck applied (lim_cost_units limits) (use_cost_units consumed) (use_cost_units reserved) (use_cost_units required)
      \<and> capacityCheck applied (lim_concurrent limits) (use_concurrent consumed) (use_concurrent reserved) (use_concurrent required)
      \<and> capacityCheck applied (lim_rate_window limits) (use_rate_window consumed) (use_rate_window reserved) (use_rate_window required))"

text \<open>The size of the arguments; \<open>None\<close> is an error. A result of the code fits in 64 bits.\<close>

definition canonicalArgumentBytes :: "request \<Rightarrow> uint64 option" where
  "canonicalArgumentBytes request =
     (case req_arguments request of
        None \<Rightarrow> None
      | Some arguments \<Rightarrow>
          (case CanonicalJSONSize arguments of Inl e \<Rightarrow> None | Inr n \<Rightarrow> Some (word_of_nat n)))"

text \<open>The shared measured: the bytes, whether they are known, whether measuring failed.\<close>

definition canonicalArgumentBytesForBudgets :: "budget list \<Rightarrow> request \<Rightarrow> uint64 \<times> bool \<times> bool" where
  "canonicalArgumentBytesForBudgets budgets request =
     (if list_ex (\<lambda>b. lim_argument_bytes (bud_limits b) \<noteq> 0) budgets
      then (case canonicalArgumentBytes request of None \<Rightarrow> (0, True, True) | Some bytes \<Rightarrow> (bytes, True, False))
      else (0, False, False))"

definition expectedBudgetUsageWithArgumentBytes ::
  "budget_limits \<Rightarrow> tool \<Rightarrow> request \<Rightarrow> uint64 \<times> bool \<times> bool \<Rightarrow> budget_usage option" where
  "expectedBudgetUsageWithArgumentBytes limits t request measured =
     (case measured of
        (argumentBytes, known, failed) \<Rightarrow>
          (case (if lim_argument_bytes limits = 0 then Some 0
                 else if failed then None
                 else if known then Some argumentBytes
                 else canonicalArgumentBytes request) of
             None \<Rightarrow> None
           | Some bytes \<Rightarrow>
               if lim_result_bytes limits \<noteq> 0
                  \<and> (tool_max_result_bytes t = 0 \<or> MaxArgumentBytes < tool_max_result_bytes t) then None
               else Some (noUsage\<lparr>
                 use_call_count := (if lim_call_count limits \<noteq> 0 then 1 else 0),
                 use_argument_bytes := bytes,
                 use_result_bytes := (if lim_result_bytes limits \<noteq> 0 then tool_max_result_bytes t else 0),
                 use_cost_units := (case tool_cost_units t of
                     Some units \<Rightarrow> if lim_cost_units limits \<noteq> 0 then units else 0 | None \<Rightarrow> 0),
                 use_concurrent := (if lim_concurrent limits \<noteq> 0 then 1 else 0),
                 use_rate_window := (if lim_rate_window limits \<noteq> 0 then 1 else 0)\<rparr>)))"

definition expectedBudgetUsage :: "budget_limits \<Rightarrow> tool \<Rightarrow> request \<Rightarrow> budget_usage option" where
  "expectedBudgetUsage limits t request =
     expectedBudgetUsageWithArgumentBytes limits t request (0, False, False)"

definition matchingBudgets :: "evaluator \<Rightarrow> request \<Rightarrow> string \<Rightarrow> budget list" where
  "matchingBudgets e request toolID =
     (if req_phase request \<noteq> PhasePreCall \<or> toolID = [] then []
      else filter (\<lambda>b. selectorMatches (bud_selector b) request toolID) (pln_budgets (evr_plan e)))"

section \<open>Validation of a snapshot\<close>

definition corrupt :: "failure_text \<Rightarrow> request_error" where
  "corrupt message = \<lparr>rqe_code = ReasonStateCorrupt, rqe_message = message\<rparr>"

definition validateBudgetScope ::
  "budget_scope \<Rightarrow> budget \<Rightarrow> evaluation_input \<Rightarrow> string \<Rightarrow> failure_text option" where
  "validateBudgetScope scope declaration inp toolID =
     (let request = inp_request inp;
          windowed = bud_reset declaration = BudgetResetFixedWindow
      in if (case safeStringList (scp_credential_labels scope) MaxCredentialLabels of
               None \<Rightarrow> True | Some credentials \<Rightarrow> credentials \<noteq> inp_credential_labels inp)
            \<or> scp_repository_identity scope \<noteq> req_repository_identity request
            \<or> scp_principal scope \<noteq> inp_principal inp
            \<or> scp_server_label scope \<noteq> req_server_label request
            \<or> scp_server_identity scope \<noteq> req_server_fingerprint request
            \<or> scp_tool_id scope \<noteq> toolID
         then Some (Named ''scope does not match trusted action context'' (bud_id declaration))
         else if \<not> ValidKeyedIdentity (scp_repository_identity scope) \<or> \<not> SafeLabel (scp_principal scope)
            \<or> \<not> SafeLabel (scp_server_label scope) \<or> \<not> ValidKeyedIdentity (scp_server_identity scope)
         then Some (Named ''scope identity is unavailable'' (bud_id declaration))
         else if bud_reset declaration = BudgetResetOperatorRun \<and> \<not> ValidKeyedIdentity (scp_run_identity scope)
         then Some (Named ''requires an operator-bound run identity'' (bud_id declaration))
         else if bud_reset declaration = BudgetResetOperatorSession
                 \<and> \<not> ValidKeyedIdentity (scp_session_identity scope)
         then Some (Named ''requires an operator-bound session identity'' (bud_id declaration))
         else if windowed
                 \<and> (\<not> ValidKeyedIdentity (scp_window_identity scope) \<or> scp_window_start_unix scope < 0
                    \<or> scp_window_start_unix scope mod uint (bud_window_seconds declaration) \<noteq> 0)
         then Some (Named ''fixed window identity is invalid'' (bud_id declaration))
         else if scp_run_identity scope
                   \<noteq> (if bud_reset declaration = BudgetResetOperatorRun then scp_run_identity scope else ''absent'')
                 \<or> scp_session_identity scope
                   \<noteq> (if bud_reset declaration = BudgetResetOperatorSession then scp_session_identity scope else ''absent'')
                 \<or> scp_window_identity scope \<noteq> (if windowed then scp_window_identity scope else ''absent'')
                 \<or> \<not> windowed \<and> scp_window_start_unix scope \<noteq> 0
         then Some (Named ''contains an extraneous reset identity'' (bud_id declaration))
         else None)"

definition budgetCandidateUsesKey :: "budget_candidate \<Rightarrow> string \<Rightarrow> bool" where
  "budgetCandidateUsesKey c keyID =
     list_all (\<lambda>identity. KeyedIdentityKeyID identity = Some keyID)
       ([bc_scope_identity c, bc_lineage_identity c, scp_repository_identity (bc_scope c),
         scp_server_identity (bc_scope c)]
        @ filter (\<lambda>identity. identity \<noteq> ''absent'')
            [scp_run_identity (bc_scope c), scp_session_identity (bc_scope c), scp_window_identity (bc_scope c)])"

definition validateBudgetCandidate ::
  "budget_candidate \<Rightarrow> budget \<Rightarrow> evaluation_input \<Rightarrow> tool \<Rightarrow> uint64 \<times> bool \<times> bool \<Rightarrow> failure_text option" where
  "validateBudgetCandidate c declaration inp t measured =
     (if bc_reset c \<noteq> bud_reset declaration \<or> bc_window_seconds c \<noteq> bud_window_seconds declaration
         \<or> bc_limits c \<noteq> bud_limits declaration \<or> \<not> ValidKeyedIdentity (bc_scope_identity c)
         \<or> \<not> ValidKeyedIdentity (bc_lineage_identity c)
      then Some (Named ''contract identity is invalid'' (bud_id declaration))
      else
        (case validateBudgetScope (bc_scope c) declaration inp (tool_id t) of
           Some message \<Rightarrow> Some message
         | None \<Rightarrow>
             if gen_policy_digest (bc_generation c) \<noteq> req_policy_digest (inp_request inp)
                \<or> gen_executable_digest (bc_generation c) \<noteq> inp_executable_digest inp
                \<or> gen_tool_contract_digest (bc_generation c) \<noteq> req_tool_contract_digest (inp_request inp)
                \<or> \<not> lowerHexLength (gen_key_id (bc_generation c)) 32
                \<or> \<not> budgetCandidateUsesKey c (gen_key_id (bc_generation c))
             then Some (Named ''governing generation is invalid'' (bud_id declaration))
             else if expectedBudgetUsageWithArgumentBytes (bud_limits declaration) t (inp_request inp) measured
                       \<noteq> Some (bc_required c)
             then Some (Named ''reservation charge is invalid'' (bud_id declaration))
             else
               (let available = budgetCapacityAvailable (bc_limits c) (bc_consumed c) (bc_reserved c)
                      (bc_required c) (bc_reservation_applied c)
                in if bc_available c \<noteq> available
                   then Some (Named ''availability does not match its counters'' (bud_id declaration))
                   else if available \<and> bc_reason c \<noteq> NoReason
                           \<or> \<not> available \<and> bc_reason c \<noteq> ReasonBudgetExhausted
                   then Some (Named ''availability reason is invalid'' (bud_id declaration))
                   else None)))"

definition allBudgetReservationsApplied :: "budget_candidate list \<Rightarrow> bool" where
  "allBudgetReservationsApplied candidates =
     list_all (\<lambda>c. \<not> (\<not> bc_reservation_applied c \<or> \<not> bc_available c)) candidates"

definition budgetSnapshotZero :: "budget_snapshot \<Rightarrow> bool" where
  "budgetSnapshotZero s \<longleftrightarrow>
     bsn_state_version s = [] \<and> bsn_identity s = [] \<and> bsn_reservation_identity s = []
     \<and> \<not> bsn_complete s \<and> bsn_candidates s = None"

definition canonicalAbsentBudget :: "budget_snapshot \<Rightarrow> string \<Rightarrow> bool" where
  "canonicalAbsentBudget s stateVersion \<longleftrightarrow>
     bsn_state_version s = stateVersion \<and> bsn_identity s = ''absent''
     \<and> bsn_reservation_identity s = ''absent'' \<and> bsn_complete s \<and> length (bsn_list s) = 0"

text \<open>A clone shares nothing and never has nil candidates.\<close>

definition cloneBudgetSnapshot :: "budget_snapshot \<Rightarrow> budget_snapshot" where
  "cloneBudgetSnapshot s = s\<lparr>bsn_candidates := Some (bsn_list s)\<rparr>"

text \<open>The loop over the candidates and the declarations, position by position.\<close>

fun validateCandidates ::
  "evaluation_input \<Rightarrow> tool option \<Rightarrow> uint64 \<times> bool \<times> bool \<Rightarrow> string \<Rightarrow> budget_candidate list \<Rightarrow> budget list \<Rightarrow>
     request_error option" where
  "validateCandidates inp t measured keyID (c # cs) (b # bs) =
     (if bc_budget_id c \<noteq> bud_id b
      then Some (corrupt (Plain ''budget snapshot does not match compiled declarations''))
      else case t of
          None \<Rightarrow> Some (corrupt (Plain ''budget snapshot targets an undeclared tool''))
        | Some t' \<Rightarrow>
            (case validateBudgetCandidate c b inp t' measured of
               Some message \<Rightarrow> Some (corrupt message)
             | None \<Rightarrow>
                 if gen_key_id (bc_generation c) \<noteq> keyID
                 then Some (corrupt (Plain ''budget candidate uses a different key generation''))
                 else validateCandidates inp t measured keyID cs bs))"
| "validateCandidates inp t measured keyID cs bs = None"

definition normalizeBudgetInput :: "evaluator \<Rightarrow> evaluation_input \<Rightarrow> request_error + evaluation_input" where
  "normalizeBudgetInput e inp =
     (case selectTool e (inp_request inp) of
        (t, toolID) \<Rightarrow>
          let request = inp_request inp;
              expected = matchingBudgets e request toolID;
              snapshot = inp_budget inp
          in if length expected = 0 then
               (if budgetSnapshotZero snapshot then
                  Inr (inp\<lparr>inp_budget := \<lparr>bsn_state_version = req_state_version request, bsn_identity = ''absent'',
                    bsn_reservation_identity = ''absent'', bsn_complete = True, bsn_candidates = Some []\<rparr>\<rparr>)
                else if \<not> canonicalAbsentBudget snapshot (req_state_version request) then
                  Inl (corrupt (Plain ''unexpected budget state exists for an unbudgeted action''))
                else Inr inp)
             else if \<not> bsn_complete snapshot then
               Inl \<lparr>rqe_code = ReasonStateUnavailable, rqe_message = Plain ''budget state is incomplete''\<rparr>
             else if bsn_state_version snapshot \<noteq> req_state_version request
                     \<or> \<not> ValidKeyedIdentity (bsn_state_version snapshot)
                     \<or> \<not> ValidKeyedIdentity (bsn_identity snapshot)
                     \<or> \<not> validOpaqueIdentity (bsn_reservation_identity snapshot)
                     \<or> length (bsn_list snapshot) \<noteq> length expected then
               Inl (corrupt (Plain ''budget snapshot identity or candidate count is invalid''))
             else
               (let candidates = sort_key bc_budget_id (bsn_list snapshot)
                in case (KeyedIdentityKeyID (bsn_identity snapshot), KeyedIdentityKeyID (bsn_state_version snapshot)) of
                     (Some snapshotKey, Some stateKey) \<Rightarrow>
                       if snapshotKey \<noteq> stateKey then
                         Inl (corrupt (Plain ''budget snapshot key generation is invalid''))
                       else
                         (case validateCandidates inp t (canonicalArgumentBytesForBudgets expected request)
                                 snapshotKey candidates expected of
                            Some e \<Rightarrow> Inl e
                          | None \<Rightarrow>
                              let anyUnavailable = list_ex (\<lambda>c. \<not> bc_available c) candidates;
                                  anyApplied = list_ex bc_reservation_applied candidates;
                                  reservation = bsn_reservation_identity snapshot
                              in if anyUnavailable \<and> (anyApplied \<or> reservation \<noteq> ''absent'') then
                                   Inl (corrupt (Plain ''an exhausted budget snapshot cannot contain a partial reservation''))
                                 else if \<not> anyUnavailable
                                         \<and> (\<not> allBudgetReservationsApplied candidates \<or> \<not> ValidKeyedIdentity reservation) then
                                   Inl (corrupt (Plain ''available budgets require one atomic keyed reservation''))
                                 else if reservation \<noteq> ''absent'' \<and> KeyedIdentityKeyID reservation \<noteq> Some snapshotKey then
                                   Inl (corrupt (Plain ''budget reservation uses a different key generation''))
                                 else Inr (inp\<lparr>inp_budget := snapshot\<lparr>bsn_candidates := Some candidates\<rparr>\<rparr>))
                   | _ \<Rightarrow> Inl (corrupt (Plain ''budget snapshot key generation is invalid''))))"

section \<open>Capacity on the natural numbers\<close>

lemma saturating_add:
  "saturatingBudgetAdd left right =
     (if unat left + unat right < 2 ^ 64 then (left + right, False) else (max_uint64, True))"
  by (simp add: saturatingBudgetAdd_def uint64_overflow_iff not_less)

lemma saturating_total:
  "saturatingBudgetAdd left right = (amount, overflow) \<Longrightarrow>
     unat amount = min (2 ^ 64 - 1) (unat left + unat right) \<and> (overflow \<longleftrightarrow> 2 ^ 64 \<le> unat left + unat right)"
  using uint64_add_exact [of left right] uint64_overflow_iff [of left right]
  by (auto simp: saturatingBudgetAdd_def split: if_splits)

definition capacity :: "bool \<Rightarrow> uint64 \<Rightarrow> uint64 \<Rightarrow> uint64 \<Rightarrow> uint64 \<Rightarrow> bool" where
  "capacity applied limit consumed reserved required \<longleftrightarrow>
     (if limit = 0 then required = 0
      else (applied \<longrightarrow> unat required \<le> unat reserved)
        \<and> unat consumed + unat reserved + (if applied then 0 else unat required) \<le> unat limit)"

lemma capacity_check_exact:
  assumes "limit < max_uint64"
  shows "capacityCheck applied limit consumed reserved required = capacity applied limit consumed reserved required"
proof (cases "limit = 0")
  case True
  then show ?thesis by (simp add: capacityCheck_def capacity_def)
next
  case False
  have l: "unat limit < 2 ^ 64 - 1" using assms by (simp add: word_less_nat_alt)
  obtain t1 o1 where s1: "saturatingBudgetAdd consumed reserved = (t1, o1)"
    by (cases "saturatingBudgetAdd consumed reserved")
  obtain t2 o2 where s2: "saturatingBudgetAdd t1 required = (t2, o2)"
    by (cases "saturatingBudgetAdd t1 required")
  show ?thesis
  proof (cases applied)
    case True
    have "(\<not> (o1 \<or> limit < t1)) = (unat consumed + unat reserved \<le> unat limit)"
      using saturating_total [OF s1] l by (auto simp: word_less_nat_alt)
    then show ?thesis using False True s1
      by (auto simp: capacityCheck_def capacity_def word_less_nat_alt)
  next
    case na: False
    have "(\<not> (o2 \<or> limit < t2)) = (unat consumed + unat reserved + unat required \<le> unat limit)"
      using saturating_total [OF s1] saturating_total [OF s2] l by (auto simp: word_less_nat_alt)
    then show ?thesis using False na s1 s2 by (simp add: capacityCheck_def capacity_def)
  qed
qed

definition budget_capacity :: "budget_limits \<Rightarrow> budget_usage \<Rightarrow> budget_usage \<Rightarrow> budget_usage \<Rightarrow> bool \<Rightarrow> bool" where
  "budget_capacity limits consumed reserved required applied \<longleftrightarrow>
     (\<forall>i < 8. capacity applied (limit_list limits ! i) (usage_list consumed ! i) (usage_list reserved ! i)
        (usage_list required ! i))"

lemma all_less_8: "(\<forall>i < 8. P i) \<longleftrightarrow> P 0 \<and> P 1 \<and> P 2 \<and> P 3 \<and> P 4 \<and> P 5 \<and> P 6 \<and> P (7 :: nat)"
  by (simp add: numeral_eq_Suc All_less_Suc conj_ac)

lemma limits_bounded: "validateBudgetLimits limits \<Longrightarrow> l \<in> set (limit_list limits) \<Longrightarrow> l < max_uint64"
proof -
  assume "validateBudgetLimits limits" "l \<in> set (limit_list limits)"
  then have "l \<le> 9223372036854775807" by (auto simp: validateBudgetLimits_def list_all_iff)
  moreover have "(9223372036854775807 :: uint64) < max_uint64" by simp
  ultimately show "l < max_uint64" by (rule order.strict_trans1)
qed

lemma capacity_exact:
  assumes "validateBudgetLimits limits"
  shows "budgetCapacityAvailable limits consumed reserved required applied
      = budget_capacity limits consumed reserved required applied"
proof -
  note b = limits_bounded [OF assms]
  have "lim_call_count limits < max_uint64" "lim_denied_count limits < max_uint64"
    "lim_approval_count limits < max_uint64" "lim_argument_bytes limits < max_uint64"
    "lim_result_bytes limits < max_uint64" "lim_cost_units limits < max_uint64"
    "lim_concurrent limits < max_uint64" "lim_rate_window limits < max_uint64"
    by (rule b; simp add: limit_list_def)+
  then show ?thesis unfolding budgetCapacityAvailable_def budget_capacity_def all_less_8
    by (simp only: capacity_check_exact) (simp add: limit_list_def usage_list_def)
qed

section \<open>Accepted snapshots\<close>

lemma validate_candidates_nth:
  "validateCandidates inp t measured keyID cs bs = None \<Longrightarrow> length cs = length bs \<Longrightarrow> i < length cs \<Longrightarrow>
     bc_budget_id (cs ! i) = bud_id (bs ! i) \<and> gen_key_id (bc_generation (cs ! i)) = keyID
     \<and> (\<exists>t'. t = Some t' \<and> validateBudgetCandidate (cs ! i) (bs ! i) inp t' measured = None)"
proof (induction inp t measured keyID cs bs arbitrary: i rule: validateCandidates.induct)
  case (1 inp t measured keyID c cs b bs)
  show ?case
  proof (cases i)
    case 0
    then show ?thesis using 1(2) by (auto split: if_splits option.splits)
  next
    case (Suc j)
    obtain t' where t: "t = Some t'" using 1(2) by (auto split: if_splits option.splits)
    have "validateCandidates inp t measured keyID cs bs = None" "bc_budget_id c = bud_id b"
      "validateBudgetCandidate c b inp t' measured = None" "gen_key_id (bc_generation c) = keyID"
      using 1(2) t by (auto split: if_splits option.splits)
    then show ?thesis using 1(1) [OF _ t, of j] 1(3,4) Suc t by simp
  qed
qed auto

lemma validate_candidate_facts:
  assumes "validateBudgetCandidate c declaration inp t measured = None"
  shows "bc_limits c = bud_limits declaration \<and> bc_reset c = bud_reset declaration
    \<and> bc_window_seconds c = bud_window_seconds declaration
    \<and> budgetCandidateUsesKey c (gen_key_id (bc_generation c))
    \<and> expectedBudgetUsageWithArgumentBytes (bud_limits declaration) t (inp_request inp) measured = Some (bc_required c)
    \<and> bc_available c = budgetCapacityAvailable (bc_limits c) (bc_consumed c) (bc_reserved c) (bc_required c)
        (bc_reservation_applied c)
    \<and> bc_reason c = (if bc_available c then NoReason else ReasonBudgetExhausted)
    \<and> scp_repository_identity (bc_scope c) = req_repository_identity (inp_request inp)
    \<and> scp_principal (bc_scope c) = inp_principal inp \<and> scp_tool_id (bc_scope c) = tool_id t"
proof -
  have scope: "validateBudgetScope (bc_scope c) declaration inp (tool_id t) = None"
    using assms by (auto simp: validateBudgetCandidate_def split: if_splits option.splits)
  then have "scp_repository_identity (bc_scope c) = req_repository_identity (inp_request inp)"
    "scp_principal (bc_scope c) = inp_principal inp" "scp_tool_id (bc_scope c) = tool_id t"
    by (auto simp: validateBudgetScope_def Let_def split: if_splits)
  then show ?thesis using assms scope
    by (auto simp: validateBudgetCandidate_def Let_def split: if_splits)
qed

text \<open>The measure shared by the budgets is the one each of them would compute.\<close>

lemma shared_measure:
  assumes "b \<in> set budgets"
  shows "expectedBudgetUsageWithArgumentBytes (bud_limits b) t request (canonicalArgumentBytesForBudgets budgets request)
      = expectedBudgetUsage (bud_limits b) t request"
  using assms
  by (cases "lim_argument_bytes (bud_limits b) = 0"; cases "canonicalArgumentBytes request")
    (auto simp: expectedBudgetUsage_def expectedBudgetUsageWithArgumentBytes_def
      canonicalArgumentBytesForBudgets_def list_ex_iff split: prod.splits)

lemma normalize_budget_cases:
  assumes "normalizeBudgetInput e inp = Inr inp'"
    and "selectTool e (inp_request inp) = (t, toolID)"
    and "matchingBudgets e (inp_request inp) toolID \<noteq> []"
  obtains candidates key where
    "inp' = inp\<lparr>inp_budget := (inp_budget inp)\<lparr>bsn_candidates := Some candidates\<rparr>\<rparr>"
    "candidates = sort_key bc_budget_id (bsn_list (inp_budget inp))"
    "length candidates = length (matchingBudgets e (inp_request inp) toolID)"
    "validateCandidates inp t (canonicalArgumentBytesForBudgets (matchingBudgets e (inp_request inp) toolID) (inp_request inp))
       key candidates (matchingBudgets e (inp_request inp) toolID) = None"
    "KeyedIdentityKeyID (bsn_identity (inp_budget inp)) = Some key"
    "if list_ex (\<lambda>c. \<not> bc_available c) candidates
     then list_all (\<lambda>c. \<not> bc_reservation_applied c) candidates \<and> bsn_reservation_identity (inp_budget inp) = ''absent''
     else allBudgetReservationsApplied candidates
          \<and> KeyedIdentityKeyID (bsn_reservation_identity (inp_budget inp)) = Some key"
proof -
  define expected where "expected = matchingBudgets e (inp_request inp) toolID"
  define candidates where "candidates = sort_key bc_budget_id (bsn_list (inp_budget inp))"
  define measured where "measured = canonicalArgumentBytesForBudgets expected (inp_request inp)"
  have len: "length expected \<noteq> 0" using assms(3) by (simp add: expected_def)
  obtain snapshotKey stateKey where keys:
    "KeyedIdentityKeyID (bsn_identity (inp_budget inp)) = Some snapshotKey"
    "KeyedIdentityKeyID (bsn_state_version (inp_budget inp)) = Some stateKey"
    using assms(1) len
    by (auto simp: normalizeBudgetInput_def assms(2) expected_def [symmetric] Let_def
        split: if_splits option.splits)
  note run = assms(1) [unfolded normalizeBudgetInput_def assms(2) prod.case Let_def
      expected_def [symmetric] candidates_def [symmetric] measured_def [symmetric] keys option.case]
  have ok: "validateCandidates inp t measured snapshotKey candidates expected = None"
    using run len by (auto split: if_splits option.splits)
  have n: "length (bsn_list (inp_budget inp)) = length expected" using run len by (auto split: if_splits)
  note rest = run [unfolded ok option.case]
  have "inp' = inp\<lparr>inp_budget := (inp_budget inp)\<lparr>bsn_candidates := Some candidates\<rparr>\<rparr>"
    using rest len by (auto split: if_splits)
  moreover have "if list_ex (\<lambda>c. \<not> bc_available c) candidates
     then list_all (\<lambda>c. \<not> bc_reservation_applied c) candidates \<and> bsn_reservation_identity (inp_budget inp) = ''absent''
     else allBudgetReservationsApplied candidates
          \<and> KeyedIdentityKeyID (bsn_reservation_identity (inp_budget inp)) = Some snapshotKey"
    using rest len by (auto simp: list_ex_iff list_all_iff split: if_splits)
  ultimately show ?thesis
    using that [of candidates snapshotKey] ok n keys
    by (simp add: candidates_def expected_def measured_def)
qed

section \<open>Properties\<close>

text \<open>
  C10: for the limits a compiled plan can have, the saturating 64-bit check accepts exactly when,
  in every dimension and on the natural numbers, consumed plus reserved plus the charge (which an
  applied reservation already contains) is within the limit, and a dimension without a limit is
  not charged. No wrap-around can make an exhausted budget look available.
\<close>

theorem budget_capacity_exact:
  assumes "validateBudgetLimits limits"
  shows "budgetCapacityAvailable limits consumed reserved required applied \<longleftrightarrow>
    (\<forall>i < 8. let limit = limit_list limits ! i; c = usage_list consumed ! i; r = usage_list reserved ! i;
               q = usage_list required ! i
           in if limit = 0 then q = 0
              else (applied \<longrightarrow> unat q \<le> unat r)
                \<and> unat c + unat r + (if applied then 0 else unat q) \<le> unat limit)"
  unfolding capacity_exact [OF assms] budget_capacity_def capacity_def Let_def by (rule refl)

theorem budget_capacity_exact_witness:
  "\<not> budgetCapacityAvailable (noLimits\<lparr>lim_call_count := 5\<rparr>) (noUsage\<lparr>use_call_count := max_uint64\<rparr>)
       (noUsage\<lparr>use_call_count := 3\<rparr>) (noUsage\<lparr>use_call_count := 1\<rparr>) False"
proof -
  have "validateBudgetLimits (noLimits\<lparr>lim_call_count := 5\<rparr>)"
    by (simp add: validateBudgetLimits_def limit_list_def noLimits_def MaxConcurrentCalls_def)
  then show ?thesis
    by (subst budget_capacity_exact) (auto simp: limit_list_def usage_list_def noLimits_def noUsage_def Let_def
        intro!: exI [of _ 0])
qed

text \<open>
  C11: an accepted budget snapshot agrees with the plan declaration by declaration: every matching
  budget has its candidate with the declared limits, the charge the plan computes for this call
  (the shared measure of the arguments included), an availability that is its exact capacity
  check, and identities under one key generation. Its reservation is atomic: every candidate is
  available and reserved under a keyed reservation of that generation, or at least one is
  exhausted and nothing is reserved at all.
\<close>

theorem accepted_budget_matches_plan:
  assumes "normalizeBudgetInput e inp = Inr inp'"
    and "selectTool e (inp_request inp) = (t, toolID)"
    and "matchingBudgets e (inp_request inp) toolID \<noteq> []"
  shows "\<exists>t' key. t = Some t'
    \<and> length (bsn_list (inp_budget inp')) = length (matchingBudgets e (inp_request inp) toolID)
    \<and> (\<forall>i < length (bsn_list (inp_budget inp')).
         let c = bsn_list (inp_budget inp') ! i; b = matchingBudgets e (inp_request inp) toolID ! i
         in bc_budget_id c = bud_id b \<and> bc_limits c = bud_limits b
            \<and> expectedBudgetUsage (bud_limits b) t' (inp_request inp) = Some (bc_required c)
            \<and> bc_available c = budgetCapacityAvailable (bud_limits b) (bc_consumed c) (bc_reserved c)
                 (bc_required c) (bc_reservation_applied c)
            \<and> budgetCandidateUsesKey c key)
    \<and> ((\<forall>c \<in> set (bsn_list (inp_budget inp')). bc_available c \<and> bc_reservation_applied c)
         \<and> KeyedIdentityKeyID (bsn_reservation_identity (inp_budget inp')) = Some key
       \<or> (\<exists>c \<in> set (bsn_list (inp_budget inp')). \<not> bc_available c)
         \<and> (\<forall>c \<in> set (bsn_list (inp_budget inp')). \<not> bc_reservation_applied c)
         \<and> bsn_reservation_identity (inp_budget inp') = ''absent'')"
proof -
  let ?bs = "matchingBudgets e (inp_request inp) toolID"
  obtain cs key where c: "inp' = inp\<lparr>inp_budget := (inp_budget inp)\<lparr>bsn_candidates := Some cs\<rparr>\<rparr>"
    "length cs = length ?bs"
    "validateCandidates inp t (canonicalArgumentBytesForBudgets ?bs (inp_request inp)) key cs ?bs = None"
    "if list_ex (\<lambda>c. \<not> bc_available c) cs
     then list_all (\<lambda>c. \<not> bc_reservation_applied c) cs \<and> bsn_reservation_identity (inp_budget inp) = ''absent''
     else allBudgetReservationsApplied cs
          \<and> KeyedIdentityKeyID (bsn_reservation_identity (inp_budget inp)) = Some key"
    by (rule normalize_budget_cases [OF assms])
  note nth = validate_candidates_nth [OF c(3,2)]
  have "0 < length cs" using c(2) assms(3) by simp
  then obtain t' where t: "t = Some t'" using nth by blast
  have list: "bsn_list (inp_budget inp') = cs" "bsn_reservation_identity (inp_budget inp') = bsn_reservation_identity (inp_budget inp)"
    by (simp_all add: c(1) bsn_list_def)
  have each: "bc_budget_id (cs ! i) = bud_id (?bs ! i) \<and> bc_limits (cs ! i) = bud_limits (?bs ! i)
      \<and> expectedBudgetUsage (bud_limits (?bs ! i)) t' (inp_request inp) = Some (bc_required (cs ! i))
      \<and> bc_available (cs ! i) = budgetCapacityAvailable (bud_limits (?bs ! i)) (bc_consumed (cs ! i))
           (bc_reserved (cs ! i)) (bc_required (cs ! i)) (bc_reservation_applied (cs ! i))
      \<and> budgetCandidateUsesKey (cs ! i) key" if "i < length cs" for i
  proof -
    have v: "validateBudgetCandidate (cs ! i) (?bs ! i) inp t' (canonicalArgumentBytesForBudgets ?bs (inp_request inp)) = None"
      using nth [OF that] t by simp
    have "?bs ! i \<in> set ?bs" using that c(2) by simp
    then show ?thesis using validate_candidate_facts [OF v] shared_measure [of "?bs ! i" ?bs t' "inp_request inp"] nth [OF that]
      by simp
  qed
  show ?thesis using t each c(2,4) unfolding list Let_def
    by (intro exI [of _ t'] exI [of _ key])
      (auto simp: list_ex_iff list_all_iff allBudgetReservationsApplied_def split: if_splits)
qed

text \<open>An example: one budget of five calls, one call reserved.\<close>

definition example_key :: string where "example_key = replicate 32 (CHR ''a'')"

definition example_keyed :: "char \<Rightarrow> string" where
  "example_keyed c = hmacPrefix @ example_key @ '':'' @ replicate 64 c"

lemma example_keyed_key [simp]: "lowerHexChar c \<Longrightarrow> KeyedIdentityKeyID (example_keyed c) = Some example_key"
  by (simp add: key_id_iff example_keyed_def example_key_def kebabLabel_def lowerHexLength_def lowerAlnum_def
      list_all_iff last_replicate)

lemma example_keyed_valid [simp]: "lowerHexChar c \<Longrightarrow> ValidKeyedIdentity (example_keyed c)"
  using keyed_has_key by simp

lemma example_hex [simp]: "lowerHexChar CHR ''a''" "lowerHexChar CHR ''b''" "lowerHexChar CHR ''c''"
  by (simp_all add: lowerHexChar_def)

definition example_budget :: budget where
  "example_budget = \<lparr>bud_id = ''calls'', bud_selector = example_selector,
     bud_limits = noLimits\<lparr>lim_call_count := 5\<rparr>, bud_reset = BudgetResetNever, bud_window_seconds = 0,
     bud_on_exhaustion = DecisionBlock, bud_source_identity = []\<rparr>"

definition example_evaluator :: evaluator where
  "example_evaluator =
     \<lparr>evr_plan = \<lparr>pln_defaults = FrozenDefaults, pln_tools = [example_tool], pln_rules = [],
        pln_budgets = [example_budget], pln_detectors = []\<rparr>,
      evr_rules = [], evr_tool_by_exact = (\<lambda>key. Some 0), evr_identity = []\<rparr>"

definition budget_request :: request where
  "budget_request = example_request\<lparr>req_server_fingerprint := example_keyed (CHR ''a''),
     req_repository_identity := example_keyed (CHR ''b''), req_state_version := example_keyed (CHR ''c'')\<rparr>"

definition example_candidate :: budget_candidate where
  "example_candidate =
     \<lparr>bc_budget_id = ''calls'', bc_scope_identity = example_keyed (CHR ''a''),
      bc_lineage_identity = example_keyed (CHR ''b''),
      bc_scope = \<lparr>scp_repository_identity = example_keyed (CHR ''b''), scp_principal = ''op'',
        scp_credential_labels = [], scp_server_label = ''srv'', scp_server_identity = example_keyed (CHR ''a''),
        scp_tool_id = ''read'', scp_run_identity = ''absent'', scp_session_identity = ''absent'',
        scp_window_identity = ''absent'', scp_window_start_unix = 0\<rparr>,
      bc_reset = BudgetResetNever, bc_window_seconds = 0, bc_limits = noLimits\<lparr>lim_call_count := 5\<rparr>,
      bc_consumed = noUsage, bc_reserved = noUsage\<lparr>use_call_count := 1\<rparr>,
      bc_required = noUsage\<lparr>use_call_count := 1\<rparr>, bc_reservation_applied = True, bc_available = True,
      bc_reason = NoReason,
      bc_generation = \<lparr>gen_policy_digest = ''pd'', gen_executable_digest = ''absent'',
        gen_tool_contract_digest = ''digest'', gen_key_id = example_key\<rparr>\<rparr>"

definition no_identities :: identity_snapshot where
  "no_identities = \<lparr>ids_plan_identity = [], ids_source_identity = [], ids_policy_digest = [], ids_lock_digest = [],
     ids_authority_mode = AuthorityOther [], ids_server_label = [], ids_server_fingerprint = [],
     ids_tool_contract_digest = [], ids_executable_digest = [], ids_repository_identity = [],
     ids_context_identity = [], ids_principal = [], ids_credential_labels = [], ids_state_version = [],
     ids_budget_identity = [], ids_reservation_identity = [], ids_approval_identity = [],
     ids_taint_identity = [], ids_repository_effect_identity = [], ids_inspection_identity = []\<rparr>"

definition budget_input :: evaluation_input where
  "budget_input =
     \<lparr>inp_request = budget_request, inp_source_identity = [], inp_context_identity = [],
      inp_executable_digest = ''absent'', inp_principal = ''op'', inp_credential_labels = [],
      inp_budget = \<lparr>bsn_state_version = example_keyed (CHR ''c''), bsn_identity = example_keyed (CHR ''a''),
        bsn_reservation_identity = example_keyed (CHR ''b''), bsn_complete = True,
        bsn_candidates = Some [example_candidate]\<rparr>,
      inp_approval = \<lparr>aps_status = ApprovalNone, aps_identity = []\<rparr>,
      inp_taint = \<lparr>tns_status = TaintClean, tns_identity = []\<rparr>,
      inp_repository_effect = None, inp_inspection = None, inp_lifecycle = LifecycleActive,
      inp_cache_policy_version = [], inp_resampled = no_identities\<rparr>"

lemma example_opaque: "lowerHexChar c \<Longrightarrow> validOpaqueIdentity (example_keyed c)"
  by (auto simp: validOpaqueIdentity_def example_keyed_def example_key_def hmacPrefix_def list_all_iff
      lowerAlnum_def lowerHexChar_def less_eq_char_def)

lemma example_select: "selectTool example_evaluator budget_request = (Some example_tool, ''read'')"
  by (simp add: selectTool_def lookupToolIndex_def example_evaluator_def example_tool_def)

lemma example_matches: "matchingBudgets example_evaluator budget_request ''read'' = [example_budget]"
proof -
  have "selectorMatches example_selector budget_request ''read''"
    by (simp add: selectorMatches_def example_selector_def stringListed_def transportListed_def platformListed_def
        phaseListed_def budget_request_def example_request_def containsSorted_iff)
  then show ?thesis
    by (simp add: matchingBudgets_def example_evaluator_def example_budget_def budget_request_def example_request_def)
qed

lemma example_scope: "validateBudgetScope (bc_scope example_candidate) example_budget budget_input ''read'' = None"
  by (simp add: validateBudgetScope_def example_candidate_def example_budget_def budget_input_def budget_request_def
      example_request_def safeStringList_def SafeLabel_def kebabLabel_def lowerAlnum_def MaxSafeLabelBytes_def)

lemma example_valid: "validateBudgetCandidate example_candidate example_budget budget_input example_tool (0, False, False) = None"
proof -
  have available: "budgetCapacityAvailable (bc_limits example_candidate) (bc_consumed example_candidate)
      (bc_reserved example_candidate) (bc_required example_candidate) (bc_reservation_applied example_candidate)"
    by (simp add: budgetCapacityAvailable_def capacityCheck_def saturatingBudgetAdd_def example_candidate_def
        noLimits_def noUsage_def)
  have charge: "expectedBudgetUsageWithArgumentBytes (bud_limits example_budget) example_tool
      (inp_request budget_input) (0, False, False) = Some (bc_required example_candidate)"
    by (simp add: expectedBudgetUsageWithArgumentBytes_def example_budget_def example_tool_def example_candidate_def
        noLimits_def noUsage_def)
  have key: "budgetCandidateUsesKey example_candidate example_key"
    by (simp add: budgetCandidateUsesKey_def example_candidate_def)
  have "lowerHexLength example_key 32" by (simp add: lowerHexLength_def example_key_def list_all_iff)
  then show ?thesis using available charge key example_scope
    by (simp add: validateBudgetCandidate_def Let_def)
      (simp add: example_candidate_def example_budget_def budget_input_def budget_request_def example_request_def
        example_tool_def)
qed

lemma example_normalizes: "normalizeBudgetInput example_evaluator budget_input = Inr budget_input"
proof -
  have r: "inp_request budget_input = budget_request" by (simp add: budget_input_def)
  have m: "canonicalArgumentBytesForBudgets [example_budget] budget_request = (0, False, False)"
    by (simp add: canonicalArgumentBytesForBudgets_def example_budget_def noLimits_def)
  have b: "bsn_list (inp_budget budget_input) = [example_candidate]" by (simp add: budget_input_def bsn_list_def)
  have same: "budget_input\<lparr>inp_budget := (inp_budget budget_input)\<lparr>bsn_candidates := Some [example_candidate]\<rparr>\<rparr> = budget_input"
    by (simp add: budget_input_def)
  have ids: "bc_budget_id example_candidate = bud_id example_budget" "gen_key_id (bc_generation example_candidate) = example_key"
    "bc_available example_candidate" "bc_reservation_applied example_candidate"
    by (simp_all add: example_candidate_def example_budget_def)
  have s: "bsn_complete (inp_budget budget_input)" "bsn_state_version (inp_budget budget_input) = example_keyed (CHR ''c'')"
    "bsn_identity (inp_budget budget_input) = example_keyed (CHR ''a'')"
    "bsn_reservation_identity (inp_budget budget_input) = example_keyed (CHR ''b'')"
    "req_state_version budget_request = example_keyed (CHR ''c'')"
    by (simp_all add: budget_input_def budget_request_def)
  have ne: "example_keyed (CHR ''b'') \<noteq> ''absent''" by (simp add: example_keyed_def hmacPrefix_def)
  show ?thesis
    by (simp add: normalizeBudgetInput_def r example_select example_matches b m s ids same example_valid ne
        example_opaque allBudgetReservationsApplied_def)
qed

theorem accepted_budget_matches_plan_witness:
  "\<exists>t' key. Some example_tool = Some t'
    \<and> length (bsn_list (inp_budget budget_input)) = 1
    \<and> KeyedIdentityKeyID (bsn_reservation_identity (inp_budget budget_input)) = Some key"
proof -
  have r: "inp_request budget_input = budget_request" by (simp add: budget_input_def)
  have b: "bsn_list (inp_budget budget_input) = [example_candidate]" by (simp add: budget_input_def bsn_list_def)
  have a: "bc_available example_candidate" by (simp add: example_candidate_def)
  show ?thesis
    using accepted_budget_matches_plan [OF example_normalizes, of "Some example_tool" "''read''"] a
    unfolding r example_select example_matches b by auto
qed

end
