(* ===== verification/Action_Normalize.thy ===== *)
theory Action_Normalize
  imports Action_Identity Action_Request "HOL-Library.Product_Lexorder"
begin

text \<open>
  The validation of a request before evaluation (request\_normalize.go): its metadata, the one
  payload of its phase, the bounds of every value, the context sorted by name, and the
  declaration of missing evidence. The lemmas show what an accepted request satisfies, that
  acceptance is stable (normalizing again changes nothing), and that incomplete evidence always
  names a reason.
\<close>

section \<open>Values\<close>

definition maxArgumentBytes :: nat where "maxArgumentBytes = 8388608"
definition MaxContextValues :: nat where "MaxContextValues = 256"
definition RequestFormatVersion :: string where "RequestFormatVersion = ''1''"

definition validRuntimeDecimal :: "decimal \<Rightarrow> bool" where
  "validRuntimeDecimal d \<longleftrightarrow>
     (if dec_coefficient d = ''0'' then \<not> dec_negative d \<and> dec_exponent d = 0
      else \<not> (length (dec_coefficient d) = 0 \<or> MaxNumberDigits < length (dec_coefficient d)
              \<or> dec_exponent d < - MaxNumberExponent \<or> MaxNumberExponent < dec_exponent d
              \<or> hd (dec_coefficient d) = CHR ''0'' \<or> last (dec_coefficient d) = CHR ''0'')
           \<and> list_all (\<lambda>c. \<not> (c < CHR ''0'' \<or> CHR ''9'' < c)) (dec_coefficient d))"

text \<open>The counter of items is threaded; \<open>previous\<close> is the name of the member before.\<close>

fun validateRuntimeValue :: "json_value \<Rightarrow> nat \<Rightarrow> nat \<Rightarrow> request_error + nat"
  and validateRuntimeArray :: "json_value list \<Rightarrow> nat \<Rightarrow> nat \<Rightarrow> request_error + nat"
  and validateRuntimeObject :: "string option \<Rightarrow> member list \<Rightarrow> nat \<Rightarrow> nat \<Rightarrow> request_error + nat"
where
  "validateRuntimeValue v depth items =
     (if MaxJSONDepth < depth then
        Inl (request_failure ReasonLimitExceeded ''normalized value exceeds the depth limit'')
      else case v of
          Null \<Rightarrow> Inr items
        | Boolean b \<Rightarrow> Inr items
        | Number d \<Rightarrow>
            if \<not> validRuntimeDecimal d then
              Inl (request_failure ReasonInvalidRequest ''normalized number is invalid'')
            else Inr items
        | JString s \<Rightarrow>
            if \<not> validString s \<or> MaxJSONStringBytes < length s then
              Inl (request_failure ReasonLimitExceeded ''normalized string exceeds its limit'')
            else Inr items
        | Array vs \<Rightarrow> validateRuntimeArray vs depth items
        | Object ms \<Rightarrow> validateRuntimeObject None ms depth items
        | ValueUnset \<Rightarrow> Inl (request_failure ReasonInvalidRequest ''normalized value kind is invalid''))"
| "validateRuntimeArray [] depth items = Inr items"
| "validateRuntimeArray (v # vs) depth items =
     (let items = items + 1
      in if MaxJSONItems < items then
           Inl (request_failure ReasonLimitExceeded ''normalized value exceeds the item limit'')
         else case validateRuntimeValue v (depth + 1) items of
             Inl e \<Rightarrow> Inl e
           | Inr items \<Rightarrow> validateRuntimeArray vs depth items)"
| "validateRuntimeObject previous [] depth items = Inr items"
| "validateRuntimeObject previous ((name, v) # ms) depth items =
     (if \<not> validString name \<or> MaxJSONStringBytes < length name
         \<or> (case previous of None \<Rightarrow> False | Some p \<Rightarrow> name \<le> p) then
        Inl (request_failure ReasonInvalidRequest ''normalized object key is invalid'')
      else
        (let items = items + 1
         in if MaxJSONItems < items then
              Inl (request_failure ReasonLimitExceeded ''normalized value exceeds the item limit'')
            else case validateRuntimeValue v (depth + 1) items of
                Inl e \<Rightarrow> Inl e
              | Inr items \<Rightarrow> validateRuntimeObject (Some name) ms depth items))"

declare validateRuntimeValue.simps [simp del]

definition cloneRuntimeValue :: "json_value \<Rightarrow> request_error + nat" where
  "cloneRuntimeValue v =
     (case validateRuntimeValue v 0 0 of
        Inl e \<Rightarrow> Inl e
      | Inr items \<Rightarrow>
          (case CanonicalJSONSize v of
             Inl e \<Rightarrow> Inl (request_failure ReasonInvalidRequest ''normalized value is invalid'')
           | Inr n \<Rightarrow>
               if maxArgumentBytes < n then
                 Inl (request_failure ReasonLimitExceeded ''normalized value exceeds the byte limit'')
               else Inr n))"

section \<open>Context\<close>

definition validContextName :: "string \<Rightarrow> bool" where
  "validContextName value \<longleftrightarrow>
     \<not> (value = [] \<or> MaxPointerBytes < length value \<or> \<not> validString value)
     \<and> list_all (\<lambda>r. \<not> (r = 0 \<or> isControl r)) (runes value)"

text \<open>The loop over the entries with the bytes used so far.\<close>

fun cloneEntries :: "context_value list \<Rightarrow> nat \<Rightarrow> request_error + context_value list" where
  "cloneEntries [] valueBytes = Inr []"
| "cloneEntries (entry # rest) valueBytes =
     (if \<not> validContextName (ctx_name entry) \<or> \<not> provenance_valid (ctx_provenance entry) then
        Inl (request_failure ReasonInvalidRequest ''context metadata is invalid'')
      else if \<not> ctx_available entry then
        (if kind_of (ctx_value entry) \<noteq> ValueKindUnset then
           Inl (request_failure ReasonInvalidRequest ''unavailable context cannot carry a value'')
         else case cloneEntries rest valueBytes of
             Inl e \<Rightarrow> Inl e
           | Inr entries \<Rightarrow>
               Inr (\<lparr>ctx_name = ctx_name entry, ctx_value = ValueUnset, ctx_provenance = ctx_provenance entry,
                     ctx_available = False\<rparr> # entries))
      else
        (case cloneRuntimeValue (ctx_value entry) of
           Inl e \<Rightarrow> Inl e
         | Inr n \<Rightarrow>
             if maxArgumentBytes - valueBytes < n then
               Inl (request_failure ReasonLimitExceeded ''request values exceed the aggregate byte limit'')
             else case cloneEntries rest (valueBytes + n) of
                 Inl e \<Rightarrow> Inl e
               | Inr entries \<Rightarrow>
                   Inr (\<lparr>ctx_name = ctx_name entry, ctx_value = ctx_value entry,
                         ctx_provenance = ctx_provenance entry, ctx_available = True\<rparr> # entries)))"

text \<open>The loop that looks for equal neighbours.\<close>

fun adjacentDuplicate :: "string list \<Rightarrow> bool" where
  "adjacentDuplicate (x # y # ys) \<longleftrightarrow> x = y \<or> adjacentDuplicate (y # ys)"
| "adjacentDuplicate xs \<longleftrightarrow> False"

definition cloneContextValues :: "context_value list \<Rightarrow> nat \<Rightarrow> request_error + context_value list" where
  "cloneContextValues inp valueBytes =
     (if MaxContextValues < length inp then
        Inl (request_failure ReasonLimitExceeded ''context value count exceeds the contract limit'')
      else case cloneEntries inp valueBytes of
          Inl e \<Rightarrow> Inl e
        | Inr entries \<Rightarrow>
            let context = sort_key ctx_name entries
            in if adjacentDuplicate (map ctx_name context) then
                 Inl (request_failure ReasonDuplicateKey ''context contains a duplicate key'')
               else Inr context)"

section \<open>Missing evidence\<close>

fun evidence_field_valid :: "evidence_field \<Rightarrow> bool" where
  "evidence_field_valid (EvidenceOther s) = False"
| "evidence_field_valid f = True"

definition failureReason :: "reason_code \<Rightarrow> bool" where
  "failureReason r \<longleftrightarrow>
     reason_valid r \<and> r \<noteq> ReasonDeclaredTool \<and> r \<noteq> ReasonHostUnmatched \<and> r \<noteq> ReasonRuleMatched"

fun completenessField :: "completeness \<Rightarrow> evidence_field \<Rightarrow> bool" where
  "completenessField c EvidenceRequest = cpl_request c"
| "completenessField c EvidencePolicy = cpl_policy c"
| "completenessField c EvidenceIdentity = cpl_identity c"
| "completenessField c EvidenceContext = cpl_context c"
| "completenessField c EvidenceState = cpl_state c"
| "completenessField c EvidencePhase = cpl_phase c"
| "completenessField c (EvidenceOther s) = False"

definition missing_key :: "missing_evidence \<Rightarrow> string \<times> string" where
  "missing_key m = (evidence_field_text (miss_field m), reason_text (miss_reason m))"

fun checkMissing :: "completeness \<Rightarrow> missing_evidence option \<Rightarrow> missing_evidence list \<Rightarrow> request_error option" where
  "checkMissing c previous [] = None"
| "checkMissing c previous (m # ms) =
     (if \<not> evidence_field_valid (miss_field m) \<or> \<not> failureReason (miss_reason m) then
        Some (request_failure ReasonInvalidRequest ''completeness contains an invalid missing-evidence reason'')
      else if previous = Some m then
        Some (request_failure ReasonDuplicateKey ''completeness contains a duplicate missing-evidence entry'')
      else if completenessField c (miss_field m) then
        Some (request_failure ReasonInvalidRequest ''complete evidence cannot also be listed as missing'')
      else checkMissing c (Some m) ms)"

definition evidence_fields :: "evidence_field list" where
  "evidence_fields = [EvidenceRequest, EvidencePolicy, EvidenceIdentity, EvidenceContext, EvidenceState, EvidencePhase]"

definition normalizeCompleteness :: "completeness \<Rightarrow> request_error + completeness" where
  "normalizeCompleteness inp =
     (let out = inp\<lparr>cpl_missing := sort_key missing_key (cpl_missing inp)\<rparr>
      in case checkMissing out None (cpl_missing out) of
           Some e \<Rightarrow> Inl e
         | None \<Rightarrow>
             if list_ex (\<lambda>field. \<not> completenessField out field \<and> field \<notin> set (map miss_field (cpl_missing out)))
                  evidence_fields
             then Inl (request_failure ReasonInvalidRequest ''incomplete evidence requires one typed missing reason'')
             else Inr out)"

section \<open>Requests\<close>

definition identityFailure :: "string \<Rightarrow> request_error option" where
  "identityFailure message = Some (request_failure ReasonIdentityUnavailable message)"

definition validateRequestMetadata :: "request \<Rightarrow> request_error option" where
  "validateRequestMetadata r =
     (if req_format_version r \<noteq> RequestFormatVersion \<or> \<not> validCallID (req_call_id r) then
        Some (request_failure ReasonInvalidRequest ''request version or call identity is invalid'')
      else if \<not> transport_valid (req_transport r) \<or> \<not> phase_valid (req_phase r)
              \<or> \<not> authority_valid (req_authority_mode r) \<or> \<not> deadline_valid (req_deadline r) then
        Some (request_failure ReasonInvalidRequest ''request enum value is invalid'')
      else if \<not> validateToolName (req_tool r) (req_transport r = TransportMCPStdio) then
        Some (request_failure ReasonInvalidRequest ''request tool identity is invalid'')
      else if req_transport r = TransportHostMCP
              \<and> (\<not> ValidPlatform (req_platform r) \<or> req_server_label r \<noteq> []
                 \<or> \<not> sha256IdentityPattern (req_server_fingerprint r)) then
        identityFailure ''host transport identity is unavailable''
      else if req_transport r = TransportMCPStdio
              \<and> (req_platform r \<noteq> [] \<or> \<not> SafeLabel (req_server_label r)
                 \<or> \<not> hmacIdentityPattern (req_server_fingerprint r)) then
        identityFailure ''stdio transport identity is unavailable''
      else if \<not> sha256IdentityPattern (req_tool_contract_digest r) \<or> \<not> ValidIdentity (req_repository_identity r)
              \<or> \<not> lowerHex64 (req_policy_digest r) \<or> \<not> lowerHex64 (req_lock_digest r)
              \<or> \<not> validOpaqueIdentity (req_state_version r) then
        identityFailure ''required request identity is unavailable''
      else None)"

definition payloadFailure :: "string \<Rightarrow> request_error + nat" where
  "payloadFailure message = Inl (request_failure ReasonUnsupportedPhase message)"

text \<open>The payload is copied unchanged, so only its size is returned.\<close>

definition validatePhasePayload :: "request \<Rightarrow> request_error + nat" where
  "validatePhasePayload r =
     (case req_phase r of
        PhasePreCall \<Rightarrow>
          (case (req_arguments r, req_result r, req_progress r) of
             (Some arguments, None, None) \<Rightarrow>
               (case cloneRuntimeValue arguments of
                  Inl e \<Rightarrow> Inl e
                | Inr n \<Rightarrow>
                    if kind_of arguments \<noteq> ValueObject then
                      Inl (request_failure ReasonInvalidRequest ''arguments must contain one object'')
                    else Inr n)
           | _ \<Rightarrow> payloadFailure ''pre-call payload shape is invalid'')
      | PhasePostResult \<Rightarrow>
          (case (req_arguments r, req_result r, req_progress r) of
             (None, Some v, None) \<Rightarrow> cloneRuntimeValue v
           | _ \<Rightarrow> payloadFailure ''post-result payload shape is invalid'')
      | PhaseProgress \<Rightarrow>
          (case (req_arguments r, req_result r, req_progress r) of
             (None, None, Some v) \<Rightarrow> cloneRuntimeValue v
           | _ \<Rightarrow> payloadFailure ''progress payload shape is invalid'')
      | PhaseObservation \<Rightarrow>
          (case (req_arguments r, req_result r, req_progress r) of
             (None, None, None) \<Rightarrow> Inr 0
           | _ \<Rightarrow> payloadFailure ''observation payload shape is invalid'')
      | PhaseOther s \<Rightarrow> payloadFailure ''request phase is unsupported'')"

definition validateAndCloneRequest :: "request \<Rightarrow> request_error + request" where
  "validateAndCloneRequest inp =
     (case validateRequestMetadata inp of
        Some e \<Rightarrow> Inl e
      | None \<Rightarrow>
          (case validatePhasePayload inp of
             Inl e \<Rightarrow> Inl e
           | Inr phaseBytes \<Rightarrow>
               (case cloneContextValues (req_context inp) phaseBytes of
                  Inl e \<Rightarrow> Inl e
                | Inr context \<Rightarrow>
                    (case normalizeCompleteness (req_completeness inp) of
                       Inl e \<Rightarrow> Inl e
                     | Inr completeness \<Rightarrow>
                         Inr (inp\<lparr>req_context := context, req_completeness := completeness\<rparr>)))))"

section \<open>Accepted values\<close>

lemma runtime_decimal_iff [simp]: "validRuntimeDecimal d \<longleftrightarrow> canonical d"
  by (cases d) (auto simp: validRuntimeDecimal_def canonical_def zeroDecimal_def all_digits_def is_digit_def
      list_all_iff not_less)

text \<open>The nested values of a value, and how deep they are nested.\<close>

fun value_count :: "json_value \<Rightarrow> nat" and values_count :: "json_value list \<Rightarrow> nat"
  and members_count :: "member list \<Rightarrow> nat" where
  "value_count (Array vs) = values_count vs"
| "value_count (Object ms) = members_count ms"
| "value_count v = 0"
| "values_count [] = 0"
| "values_count (v # vs) = 1 + value_count v + values_count vs"
| "members_count [] = 0"
| "members_count ((name, v) # ms) = 1 + value_count v + members_count ms"

fun value_depth :: "json_value \<Rightarrow> nat" and values_depth :: "json_value list \<Rightarrow> nat"
  and members_depth :: "member list \<Rightarrow> nat" where
  "value_depth (Array vs) = values_depth vs"
| "value_depth (Object ms) = members_depth ms"
| "value_depth v = 0"
| "values_depth [] = 0"
| "values_depth (v # vs) = max (value_depth v + 1) (values_depth vs)"
| "members_depth [] = 0"
| "members_depth ((name, v) # ms) = max (value_depth v + 1) (members_depth ms)"

lemma values_count_length: "length vs \<le> values_count vs"
  by (induction vs) auto

lemma members_count_length: "length ms \<le> members_count ms"
  by (induction ms) auto

lemma runtime_iff:
  "validateRuntimeValue v depth items = Inr n \<longleftrightarrow>
     depth + value_depth v \<le> MaxJSONDepth \<and> wf_value v \<and> n = items + value_count v
     \<and> (value_count v = 0 \<or> n \<le> MaxJSONItems)"
  "validateRuntimeArray vs depth items = Inr n \<longleftrightarrow>
     (vs = [] \<or> depth + values_depth vs \<le> MaxJSONDepth) \<and> (\<forall>v \<in> set vs. wf_value v)
     \<and> n = items + values_count vs \<and> (vs = [] \<or> n \<le> MaxJSONItems)"
  "validateRuntimeObject previous ms depth items = Inr n \<longleftrightarrow>
     (ms = [] \<or> depth + members_depth ms \<le> MaxJSONDepth)
     \<and> (\<forall>m \<in> set ms. key_ok (fst m) \<and> wf_value (snd m)) \<and> keys_sorted fst ms
     \<and> (\<forall>p m. previous = Some p \<longrightarrow> m \<in> set ms \<longrightarrow> p < fst m)
     \<and> n = items + members_count ms \<and> (ms = [] \<or> n \<le> MaxJSONItems)"
proof (induction v depth items and vs depth items and previous ms depth items arbitrary: n and n and n
    rule: validateRuntimeValue_validateRuntimeArray_validateRuntimeObject.induct)
  case (1 v depth items)
  show ?case
  proof (cases "MaxJSONDepth < depth")
    case True
    then show ?thesis by (simp add: validateRuntimeValue.simps)
  next
    case False
    show ?thesis
    proof (cases v)
      case (Array vs)
      have "length vs \<le> MaxJSONItems" if "values_count vs = 0 \<or> items + values_count vs \<le> MaxJSONItems"
        using that values_count_length [of vs] by auto
      moreover have "vs = [] \<longleftrightarrow> values_count vs = 0" by (cases vs) auto
      ultimately show ?thesis using False 1(1) [OF _ Array, of n] Array
        by (auto simp: validateRuntimeValue.simps [of "Array vs"])
    next
      case (Object ms)
      have "length ms \<le> MaxJSONItems" if "members_count ms = 0 \<or> items + members_count ms \<le> MaxJSONItems"
        using that members_count_length [of ms] by auto
      moreover have "ms = [] \<longleftrightarrow> members_count ms = 0" by (cases ms) auto
      ultimately show ?thesis using False 1(2) [OF _ Object, of n] Object
        by (auto simp: validateRuntimeValue.simps [of "Object ms"])
    qed (use False in \<open>auto simp: validateRuntimeValue.simps key_ok_def\<close>)
  qed
next
  case (2 depth items)
  then show ?case by auto
next
  case (3 v vs depth items)
  show ?case
  proof (cases "MaxJSONItems < items + 1")
    case True
    then show ?thesis by auto
  next
    case False
    have ih1: "validateRuntimeValue v (depth + 1) (items + 1) = Inr k \<longleftrightarrow>
        depth + 1 + value_depth v \<le> MaxJSONDepth \<and> wf_value v \<and> k = items + 1 + value_count v
        \<and> (value_count v = 0 \<or> k \<le> MaxJSONItems)" for k
      by (rule 3(1) [OF refl False])
    show ?thesis
    proof (cases "validateRuntimeValue v (depth + 1) (items + 1)")
      case (Inl e)
      then have "\<not> (depth + 1 + value_depth v \<le> MaxJSONDepth \<and> wf_value v
          \<and> (value_count v = 0 \<or> items + 1 + value_count v \<le> MaxJSONItems))"
        using ih1 [of "items + 1 + value_count v"] by simp
      then show ?thesis using Inl False by auto
    next
      case (Inr k)
      then have k: "depth + 1 + value_depth v \<le> MaxJSONDepth" "wf_value v" "k = items + 1 + value_count v"
          "value_count v = 0 \<or> k \<le> MaxJSONItems"
        using ih1 by blast+
      then show ?thesis using Inr False 3(2) [OF refl False Inr, of n] by auto
    qed
  qed
next
  case (4 previous depth items)
  then show ?case by auto
next
  case (5 previous name v ms depth items)
  show ?case
  proof (cases "\<not> validString name \<or> MaxJSONStringBytes < length name
       \<or> (case previous of None \<Rightarrow> False | Some p \<Rightarrow> name \<le> p)")
    case True
    then have "\<not> (key_ok name \<and> (\<forall>p. previous = Some p \<longrightarrow> p < name))"
      by (auto simp: key_ok_def not_less split: option.splits)
    then have "\<not> ((\<forall>m \<in> set ((name, v) # ms). key_ok (fst m) \<and> wf_value (snd m))
        \<and> (\<forall>p m. previous = Some p \<longrightarrow> m \<in> set ((name, v) # ms) \<longrightarrow> p < fst m))"
      by (metis fst_conv list.set_intros(1))
    moreover have "validateRuntimeObject previous ((name, v) # ms) depth items \<noteq> Inr n" using True by auto
    ultimately show ?thesis by blast
  next
    case ok: False
    then have key: "key_ok name" "\<forall>p. previous = Some p \<longrightarrow> p < name"
      by (auto simp: key_ok_def split: option.splits)
    show ?thesis
    proof (cases "MaxJSONItems < items + 1")
      case True
      then show ?thesis using ok by auto
    next
      case False
      have ih1: "validateRuntimeValue v (depth + 1) (items + 1) = Inr k \<longleftrightarrow>
          depth + 1 + value_depth v \<le> MaxJSONDepth \<and> wf_value v \<and> k = items + 1 + value_count v
          \<and> (value_count v = 0 \<or> k \<le> MaxJSONItems)" for k
        by (rule 5(1) [OF ok refl False])
      show ?thesis
      proof (cases "validateRuntimeValue v (depth + 1) (items + 1)")
        case (Inl e)
        then have "\<not> (depth + 1 + value_depth v \<le> MaxJSONDepth \<and> wf_value v
            \<and> (value_count v = 0 \<or> items + 1 + value_count v \<le> MaxJSONItems))"
          using ih1 [of "items + 1 + value_count v"] by simp
        then show ?thesis using Inl False ok by auto
      next
        case (Inr k)
        then have k: "depth + 1 + value_depth v \<le> MaxJSONDepth" "wf_value v" "k = items + 1 + value_count v"
            "value_count v = 0 \<or> k \<le> MaxJSONItems"
          using ih1 by blast+
        have order: "keys_sorted fst ((name, v) # ms) \<longleftrightarrow> keys_sorted fst ms \<and> (\<forall>m \<in> set ms. name < fst m)"
          by auto
        have prev: "(\<forall>p m. previous = Some p \<longrightarrow> m \<in> set ((name, v) # ms) \<longrightarrow> p < fst m)
            \<longleftrightarrow> (\<forall>p m. previous = Some p \<longrightarrow> m \<in> set ms \<longrightarrow> p < fst m)"
          using key(2) by auto
        have trans: "\<forall>m \<in> set ms. name < fst m \<Longrightarrow> \<forall>p m. previous = Some p \<longrightarrow> m \<in> set ms \<longrightarrow> p < fst m"
          using key(2) by (auto intro: order.strict_trans)
        show ?thesis using Inr False ok k key 5(2) [OF ok refl False Inr, of n] trans
          unfolding order prev by auto
      qed
    qed
  qed
qed

lemma cloneRuntimeValue_ok:
  "cloneRuntimeValue v = Inr n \<longleftrightarrow>
     wf_value v \<and> value_depth v \<le> MaxJSONDepth \<and> value_count v \<le> MaxJSONItems
     \<and> CanonicalJSONSize v = Inr n \<and> n \<le> maxArgumentBytes"
proof (cases "validateRuntimeValue v 0 0")
  case (Inl e)
  then show ?thesis using runtime_iff(1) [of v 0 0 "value_count v"] by (auto simp: cloneRuntimeValue_def)
next
  case (Inr items)
  then show ?thesis using runtime_iff(1) [of v 0 0 items] by (auto simp: cloneRuntimeValue_def split: sum.splits)
qed

section \<open>Accepted context\<close>

text \<open>The bytes of an entry, and what the loop accepts.\<close>

definition entry_size :: "context_value \<Rightarrow> nat" where
  "entry_size entry = (if ctx_available entry then (case cloneRuntimeValue (ctx_value entry) of Inl e \<Rightarrow> 0 | Inr n \<Rightarrow> n) else 0)"

definition entry_ok :: "context_value \<Rightarrow> bool" where
  "entry_ok entry \<longleftrightarrow> validContextName (ctx_name entry) \<and> provenance_valid (ctx_provenance entry)
     \<and> (if ctx_available entry then \<exists>n. cloneRuntimeValue (ctx_value entry) = Inr n
        else ctx_value entry = ValueUnset)"

lemma kind_unset_iff [simp]: "kind_of v = ValueKindUnset \<longleftrightarrow> v = ValueUnset"
  by (cases v) auto

lemma entry_rebuilt [simp]:
  "\<lparr>ctx_name = ctx_name e, ctx_value = ctx_value e, ctx_provenance = ctx_provenance e, ctx_available = ctx_available e\<rparr> = e"
  by simp

lemma cloneEntries_ok:
  "b \<le> maxArgumentBytes \<Longrightarrow>
     cloneEntries entries b = Inr es \<longleftrightarrow>
       es = entries \<and> (\<forall>e \<in> set entries. entry_ok e) \<and> b + (\<Sum>e \<leftarrow> entries. entry_size e) \<le> maxArgumentBytes"
proof (induction entries b arbitrary: es rule: cloneEntries.induct)
  case (1 b)
  then show ?case by auto
next
  case (2 entry rest b)
  show ?case
  proof (cases "validContextName (ctx_name entry) \<and> provenance_valid (ctx_provenance entry)")
    case False
    then show ?thesis by (auto simp: entry_ok_def)
  next
    case meta: True
    show ?thesis
    proof (cases "ctx_available entry")
      case False
      have rebuilt: "\<lparr>ctx_name = ctx_name entry, ctx_value = ValueUnset, ctx_provenance = ctx_provenance entry,
          ctx_available = False\<rparr> = entry" if "ctx_value entry = ValueUnset"
        using that False by (cases entry) simp
      show ?thesis
      proof (cases "ctx_value entry = ValueUnset")
        case v: True
        have rest: "cloneEntries rest b = Inr es \<longleftrightarrow> es = rest \<and> (\<forall>e \<in> set rest. entry_ok e)
            \<and> b + (\<Sum>e \<leftarrow> rest. entry_size e) \<le> maxArgumentBytes" for es
          by (rule 2(1)) (use meta False v 2(3) in auto)
        have e: "entry_ok entry" "entry_size entry = 0" using meta False v by (simp_all add: entry_ok_def entry_size_def)
        show ?thesis using meta False v rest [of rest] rest [of "projr (cloneEntries rest b)"] rebuilt [OF v] e
          by (cases "cloneEntries rest b") auto
      qed (use meta False in \<open>auto simp: entry_ok_def\<close>)
    next
      case True
      have rebuilt: "\<lparr>ctx_name = ctx_name entry, ctx_value = ctx_value entry, ctx_provenance = ctx_provenance entry,
          ctx_available = True\<rparr> = entry"
        using True by (cases entry) simp
      show ?thesis
      proof (cases "cloneRuntimeValue (ctx_value entry)")
        case (Inl e)
        then show ?thesis using meta True by (auto simp: entry_ok_def)
      next
        case (Inr n)
        then have n: "n \<le> maxArgumentBytes" by (simp add: cloneRuntimeValue_ok)
        show ?thesis
        proof (cases "maxArgumentBytes - b < n")
          case big: True
          then show ?thesis using meta True Inr 2(3) by (auto simp: entry_size_def)
        next
          case False
          then have "b + n \<le> maxArgumentBytes" using 2(3) by linarith
          then have rest: "cloneEntries rest (b + n) = Inr es \<longleftrightarrow> es = rest \<and> (\<forall>e \<in> set rest. entry_ok e)
              \<and> b + n + (\<Sum>e \<leftarrow> rest. entry_size e) \<le> maxArgumentBytes" for es
            by (intro 2(2)) (use meta True Inr False in auto)
          have e: "entry_ok entry" "entry_size entry = n" using meta True Inr by (simp_all add: entry_ok_def entry_size_def)
          show ?thesis
            using meta True Inr False rest [of rest] rest [of "projr (cloneEntries rest (b + n))"] rebuilt e
            by (cases "cloneEntries rest (b + n)") auto
        qed
      qed
    qed
  qed
qed

lemma adjacent_distinct: "sorted xs \<Longrightarrow> adjacentDuplicate xs \<longleftrightarrow> \<not> distinct xs"
  by (induction xs rule: adjacentDuplicate.induct) (auto simp: le_less)

lemma cloneContextValues_ok:
  assumes "b \<le> maxArgumentBytes"
  shows "cloneContextValues inp b = Inr context \<longleftrightarrow>
    length inp \<le> MaxContextValues \<and> (\<forall>e \<in> set inp. entry_ok e) \<and> b + (\<Sum>e \<leftarrow> inp. entry_size e) \<le> maxArgumentBytes
    \<and> distinct (map ctx_name inp) \<and> context = sort_key ctx_name inp"
proof -
  have "distinct (map ctx_name (sort_key ctx_name inp)) \<longleftrightarrow> distinct (map ctx_name inp)"
    by (metis mset_map mset_sort mset_eq_imp_distinct_iff)
  moreover have "cloneEntries inp b = (if (\<forall>e \<in> set inp. entry_ok e)
      \<and> b + (\<Sum>e \<leftarrow> inp. entry_size e) \<le> maxArgumentBytes then Inr inp else Inl (projl (cloneEntries inp b)))"
    using cloneEntries_ok [OF assms, of inp inp] cloneEntries_ok [OF assms, of inp "projr (cloneEntries inp b)"]
    by (cases "cloneEntries inp b") auto
  ultimately show ?thesis
    by (cases "(\<forall>e \<in> set inp. entry_ok e) \<and> b + (\<Sum>e \<leftarrow> inp. entry_size e) \<le> maxArgumentBytes")
      (auto simp: cloneContextValues_def Let_def adjacent_distinct)
qed

lemma cloneContextValues_again:
  assumes "b \<le> maxArgumentBytes" and "cloneContextValues inp b = Inr context"
  shows "cloneContextValues context b = Inr context"
proof -
  have c: "context = sort_key ctx_name inp" using assms cloneContextValues_ok by blast
  have "mset context = mset inp" by (simp add: c)
  then have "(\<Sum>e \<leftarrow> context. entry_size e) = (\<Sum>e \<leftarrow> inp. entry_size e)"
    by (metis mset_map sum_mset_sum_list)
  moreover have "distinct (map ctx_name context) \<longleftrightarrow> distinct (map ctx_name inp)"
    by (metis \<open>mset context = mset inp\<close> mset_map mset_eq_imp_distinct_iff)
  moreover have "sort_key ctx_name context = context" by (simp add: c sort_key_id_if_sorted)
  ultimately show ?thesis using assms(2) unfolding cloneContextValues_ok [OF assms(1)] by (simp add: c)
qed

lemma cloneContextValues_sorted:
  assumes "b \<le> maxArgumentBytes" and "cloneContextValues inp b = Inr context"
  shows "keys_sorted ctx_name context"
proof -
  have c: "context = sort_key ctx_name inp" "distinct (map ctx_name inp)"
    using assms cloneContextValues_ok by blast+
  moreover have "distinct (map ctx_name context)"
    using c by (metis mset_map mset_sort mset_eq_imp_distinct_iff)
  ultimately show ?thesis by (simp add: strict_sorted_iff)
qed

section \<open>Accepted evidence\<close>

lemma refusals_None:
  "(if a then Some x else if b then Some y else if d then Some z else r) = None \<longleftrightarrow> \<not> a \<and> \<not> b \<and> \<not> d \<and> r = None"
  by simp

lemma checkMissing_Cons:
  "checkMissing c previous (m # ms) = None \<longleftrightarrow>
     \<not> (\<not> evidence_field_valid (miss_field m) \<or> \<not> failureReason (miss_reason m)) \<and> \<not> previous = Some m
     \<and> \<not> completenessField c (miss_field m) \<and> checkMissing c (Some m) ms = None"
  unfolding checkMissing.simps by (rule refusals_None)

lemma checkMissing_None:
  "checkMissing c previous ms = None \<Longrightarrow>
     (\<forall>m \<in> set ms. evidence_field_valid (miss_field m) \<and> failureReason (miss_reason m)
        \<and> \<not> completenessField c (miss_field m))"
proof (induction ms arbitrary: previous)
  case (Cons m ms)
  note facts = Cons.prems [unfolded checkMissing_Cons]
  have "\<forall>m \<in> set ms. evidence_field_valid (miss_field m) \<and> failureReason (miss_reason m)
        \<and> \<not> completenessField c (miss_field m)"
    by (rule Cons.IH) (use facts in blast)
  then show ?case using facts by (simp only: set_simps ball_simps simp_thms de_Morgan_disj not_not)
qed simp

lemma normalizeCompleteness_ok:
  "normalizeCompleteness c = Inr c' \<longleftrightarrow>
     c\<lparr>cpl_missing := sort_key missing_key (cpl_missing c)\<rparr> = c' \<and> checkMissing c' None (cpl_missing c') = None
     \<and> \<not> list_ex (\<lambda>field. \<not> completenessField c' field \<and> field \<notin> set (map miss_field (cpl_missing c'))) evidence_fields"
proof -
  define out where "out = c\<lparr>cpl_missing := sort_key missing_key (cpl_missing c)\<rparr>"
  show ?thesis unfolding normalizeCompleteness_def out_def [symmetric] Let_def
    by (cases "checkMissing out None (cpl_missing out)") auto
qed

lemma normalizeCompleteness_again:
  assumes "normalizeCompleteness c = Inr c'"
  shows "normalizeCompleteness c' = Inr c'"
proof -
  have c': "c\<lparr>cpl_missing := sort_key missing_key (cpl_missing c)\<rparr> = c'"
    and ok: "checkMissing c' None (cpl_missing c') = None"
    and all: "\<not> list_ex (\<lambda>field. \<not> completenessField c' field \<and> field \<notin> set (map miss_field (cpl_missing c'))) evidence_fields"
    using assms unfolding normalizeCompleteness_ok by blast+
  have "cpl_missing c' = sort_key missing_key (cpl_missing c)" unfolding c' [symmetric] by simp
  then have "sort_key missing_key (cpl_missing c') = cpl_missing c'" by (simp add: sort_key_id_if_sorted)
  then have "c'\<lparr>cpl_missing := sort_key missing_key (cpl_missing c')\<rparr> = c'" by simp
  then show ?thesis unfolding normalizeCompleteness_ok using ok all by blast
qed

lemma completeness_reasons:
  assumes "normalizeCompleteness c = Inr c'"
  shows "(\<forall>m \<in> set (cpl_missing c'). failureReason (miss_reason m)) \<and> (evidence_complete c' \<or> cpl_missing c' \<noteq> [])"
proof -
  have ok: "checkMissing c' None (cpl_missing c') = None"
    and all: "\<not> list_ex (\<lambda>field. \<not> completenessField c' field \<and> field \<notin> set (map miss_field (cpl_missing c'))) evidence_fields"
    using assms unfolding normalizeCompleteness_ok by blast+
  have "evidence_complete c'" if "cpl_missing c' = []"
    using all that by (simp add: evidence_fields_def evidence_complete_def)
  then show ?thesis using checkMissing_None [OF ok] by blast
qed

section \<open>Accepted requests\<close>

definition phase_payload :: "request \<Rightarrow> json_value option" where
  "phase_payload r =
     (case req_phase r of
        PhasePreCall \<Rightarrow> req_arguments r
      | PhasePostResult \<Rightarrow> req_result r
      | PhaseProgress \<Rightarrow> req_progress r
      | _ \<Rightarrow> None)"

lemma payload_ok:
  assumes "validatePhasePayload r = Inr n"
  shows "n \<le> maxArgumentBytes
    \<and> (case phase_payload r of None \<Rightarrow> req_phase r = PhaseObservation \<and> n = 0
       | Some v \<Rightarrow> cloneRuntimeValue v = Inr n)
    \<and> (req_phase r \<noteq> PhasePreCall \<longrightarrow> req_arguments r = None)
    \<and> (req_phase r \<noteq> PhasePostResult \<longrightarrow> req_result r = None)
    \<and> (req_phase r \<noteq> PhaseProgress \<longrightarrow> req_progress r = None)
    \<and> (req_phase r = PhasePreCall \<longrightarrow> (\<exists>v. req_arguments r = Some v \<and> kind_of v = ValueObject))"
  using assms
  by (auto simp: validatePhasePayload_def payloadFailure_def phase_payload_def cloneRuntimeValue_ok
      split: phase.splits option.splits sum.splits if_splits)

text \<open>The payload that the phase of a request calls for, and no other.\<close>

definition exact_payload :: "request \<Rightarrow> bool" where
  "exact_payload r \<longleftrightarrow>
     (case req_phase r of
        PhasePreCall \<Rightarrow> (\<exists>v. req_arguments r = Some v \<and> kind_of v = ValueObject) \<and> req_result r = None \<and> req_progress r = None
      | PhasePostResult \<Rightarrow> req_arguments r = None \<and> req_result r \<noteq> None \<and> req_progress r = None
      | PhaseProgress \<Rightarrow> req_arguments r = None \<and> req_result r = None \<and> req_progress r \<noteq> None
      | PhaseObservation \<Rightarrow> req_arguments r = None \<and> req_result r = None \<and> req_progress r = None
      | PhaseOther s \<Rightarrow> False)"

lemma payload_exact: "validatePhasePayload r = Inr n \<Longrightarrow> exact_payload r"
  by (auto simp: validatePhasePayload_def payloadFailure_def exact_payload_def
      split: phase.splits option.splits sum.splits if_splits)

lemma metadata_update:
  "validateRequestMetadata (r\<lparr>req_context := context, req_completeness := c\<rparr>) = validateRequestMetadata r"
  "validatePhasePayload (r\<lparr>req_context := context, req_completeness := c\<rparr>) = validatePhasePayload r"
  by (simp_all add: validateRequestMetadata_def validatePhasePayload_def
      cong: if_cong option.case_cong phase.case_cong split del: if_split)

lemma validate_request_cases:
  assumes "validateAndCloneRequest inp = Inr r"
  obtains n cx c where "validateRequestMetadata inp = None" "validatePhasePayload inp = Inr n"
    "cloneContextValues (req_context inp) n = Inr cx" "normalizeCompleteness (req_completeness inp) = Inr c"
    "r = inp\<lparr>req_context := cx, req_completeness := c\<rparr>"
  using assms by (auto simp: validateAndCloneRequest_def split: option.splits sum.splits)

section \<open>Properties\<close>

text \<open>
  C26: the validation of a value accepts exactly the well-formed values within the bounds on
  nesting and on the number of nested values, with the exact count; so what reaches the evaluator
  is a value the constructors could have built, and equality on it is structural.
\<close>

theorem runtime_value_iff:
  "validateRuntimeValue v 0 0 = Inr n \<longleftrightarrow>
     wf_value v \<and> value_depth v \<le> MaxJSONDepth \<and> value_count v \<le> MaxJSONItems \<and> n = value_count v"
  by (auto simp: runtime_iff)

text \<open>
  C25: an accepted request is stable, normalizing it again returns it unchanged; it differs from
  the given one only in the order of its context and of its missing evidence, its context is
  strictly sorted by name (so the evaluator's binary search finds every entry), it carries
  exactly the payload of its phase, and all its values together stay within the byte limit.
\<close>

theorem request_normalization_stable:
  assumes "validateAndCloneRequest inp = Inr r"
  shows "validateAndCloneRequest r = Inr r \<and> keys_sorted ctx_name (req_context r)
    \<and> mset (req_context r) = mset (req_context inp) \<and> exact_payload r
    \<and> (\<exists>n. (case phase_payload r of None \<Rightarrow> n = 0
             | Some v \<Rightarrow> wf_value v \<and> CanonicalJSONSize v = Inr n)
          \<and> n + (\<Sum>e \<leftarrow> req_context r. entry_size e) \<le> maxArgumentBytes)"
proof -
  obtain n cx c where s: "validateRequestMetadata inp = None" "validatePhasePayload inp = Inr n"
    "cloneContextValues (req_context inp) n = Inr cx" "normalizeCompleteness (req_completeness inp) = Inr c"
    "r = inp\<lparr>req_context := cx, req_completeness := c\<rparr>"
    by (rule validate_request_cases [OF assms])
  have n: "n \<le> maxArgumentBytes" using payload_ok [OF s(2)] by blast
  have again: "validateAndCloneRequest r = Inr r"
    using s(1,2) cloneContextValues_again [OF n s(3)] normalizeCompleteness_again [OF s(4)]
    by (simp add: validateAndCloneRequest_def s(5) metadata_update)
  have m: "mset cx = mset (req_context inp)" using s(3) cloneContextValues_ok [OF n] by auto
  have "(\<Sum>e \<leftarrow> cx. entry_size e) = (\<Sum>e \<leftarrow> req_context inp. entry_size e)"
    by (metis m mset_map sum_mset_sum_list)
  then have sum: "n + (\<Sum>e \<leftarrow> cx. entry_size e) \<le> maxArgumentBytes"
    using s(3) cloneContextValues_ok [OF n] by simp
  have p: "phase_payload r = phase_payload inp" by (cases "req_phase inp") (simp_all add: s(5) phase_payload_def)
  have "validatePhasePayload r = Inr n" using s(2) by (simp add: s(5) metadata_update)
  then have "exact_payload r" by (rule payload_exact)
  then show ?thesis
    using again cloneContextValues_sorted [OF n s(3)] m sum payload_ok [OF s(2)] unfolding p
    by (auto simp: s(5) cloneRuntimeValue_ok intro!: exI [of _ n] split: option.splits)
qed

text \<open>
  After normalization incomplete evidence always lists at least one missing entry with a
  failure reason, so the evaluator's access to the first missing reason is within bounds and a
  refusal for missing evidence always carries a valid reason.
\<close>

theorem incomplete_has_reason:
  assumes "validateAndCloneRequest inp = Inr r" and "\<not> evidence_complete (req_completeness r)"
  shows "cpl_missing (req_completeness r) \<noteq> []
    \<and> reason_valid (miss_reason (cpl_missing (req_completeness r) ! 0))"
proof -
  obtain n cx c where s: "normalizeCompleteness (req_completeness inp) = Inr c"
    "r = inp\<lparr>req_context := cx, req_completeness := c\<rparr>"
    by (rule validate_request_cases [OF assms(1)])
  then have "cpl_missing c \<noteq> []" "\<forall>m \<in> set (cpl_missing c). failureReason (miss_reason m)"
    using completeness_reasons [OF s(1)] assms(2) by auto
  then show ?thesis using s(2) by (auto simp: failureReason_def)
qed

text \<open>An observation of a host that misses its policy evidence.\<close>

definition good_request :: request where
  "good_request =
     \<lparr>req_format_version = ''1'', req_call_id = ''act_'' @ replicate 26 (CHR ''a''), req_transport = TransportHostMCP,
      req_platform = ''codex'', req_server_label = [],
      req_server_fingerprint = ''sha256:'' @ replicate 64 (CHR ''a''), req_tool = ''t'',
      req_tool_contract_digest = ''sha256:'' @ replicate 64 (CHR ''b''), req_phase = PhaseObservation,
      req_repository_identity = ''sha256:'' @ replicate 64 (CHR ''c''),
      req_policy_digest = replicate 64 (CHR ''d''), req_lock_digest = replicate 64 (CHR ''e''),
      req_authority_mode = AuthorityOperatorPinned, req_arguments = None, req_result = None, req_progress = None,
      req_context = [], req_completeness = CompleteEvidence\<lparr>cpl_policy := False,
        cpl_missing := [\<lparr>miss_field = EvidencePolicy, miss_reason = ReasonPolicyStale\<rparr>]\<rparr>,
      req_deadline = DeadlineReady, req_state_version = ''v1''\<rparr>"

lemma good_request_valid: "validateAndCloneRequest good_request = Inr good_request"
proof -
  have m: "validateRequestMetadata good_request = None"
    by (simp add: validateRequestMetadata_def good_request_def RequestFormatVersion_def validCallID_def list_all_iff
        validateToolName_def MaxToolNameBytes_def validString_Cons runes_Cons isControl_def ValidPlatform_def
        BuiltinPlatforms_def sha256IdentityPattern_def hasPrefix_def lowerHexLength_def lowerHexChar_def
        ValidIdentity_def lowerHex64_def validOpaqueIdentity_def lowerAlnum_def phase_valid_iff)
  have p: "validatePhasePayload good_request = Inr 0"
    by (simp add: validatePhasePayload_def good_request_def)
  have x: "cloneContextValues (req_context good_request) 0 = Inr []"
    by (simp add: cloneContextValues_def good_request_def MaxContextValues_def)
  have c: "normalizeCompleteness (req_completeness good_request) = Inr (req_completeness good_request)"
    by (simp add: normalizeCompleteness_def good_request_def evidence_fields_def CompleteEvidence_def failureReason_def)
  show ?thesis unfolding validateAndCloneRequest_def m p x c option.case sum.case
    by (simp add: good_request_def)
qed

theorem request_normalization_stable_witness:
  "validateAndCloneRequest good_request = Inr good_request \<and> keys_sorted ctx_name (req_context good_request)
    \<and> exact_payload good_request"
  using request_normalization_stable [OF good_request_valid] by blast

theorem incomplete_has_reason_witness:
  "reason_valid (miss_reason (cpl_missing (req_completeness good_request) ! 0))"
proof -
  have "\<not> evidence_complete (req_completeness good_request)"
    by (simp add: good_request_def evidence_complete_def CompleteEvidence_def)
  then show ?thesis using incomplete_has_reason [OF good_request_valid] by blast
qed

end
