(* ===== verification/Action_Inspection.thy ===== *)
theory Action_Inspection
  imports Action_Budget Action_Normalize
begin

text \<open>
  The validation of content-inspection evidence (inspection\_evidence.go): the expectation the
  plan derives from the detectors that match a request, the normalization of every list of the
  evidence, its totals, and the outcomes a phase allows. The lemmas show that accepted evidence
  is stable, agrees with the expectation, has exact totals, and that a match names a rule.
\<close>

section \<open>Expectation\<close>

definition MaxDetectors :: nat where "MaxDetectors = 1024"
definition MaxDetectorCategories :: nat where "MaxDetectorCategories = 32"

record inspection_expectation =
  exp_pack_identities :: "string list"
  exp_field_count :: nat

fun phaseSource :: "phase \<Rightarrow> value_source" where
  "phaseSource PhasePreCall = SourceArguments"
| "phaseSource PhasePostResult = SourceResult"
| "phaseSource PhaseProgress = SourceProgress"
| "phaseSource p = SourceOther []"

text \<open>The two sets of the code are the lists without repetitions.\<close>

definition matchingDetectors :: "evaluator \<Rightarrow> request \<Rightarrow> detector_policy list" where
  "matchingDetectors e request =
     filter (\<lambda>p. selectorMatches (dtp_selector p) request (snd (selectTool e request))) (pln_detectors (evr_plan e))"

definition inspectionExpectation :: "evaluator \<Rightarrow> request \<Rightarrow> inspection_expectation" where
  "inspectionExpectation e request =
     (let policies = matchingDetectors e request;
          fields = filter (\<lambda>f. dfl_source f = phaseSource (req_phase request)) (concat (map dtp_fields policies))
      in \<lparr>exp_pack_identities = sort (remdups (map dtp_pack_digest policies)),
          exp_field_count = length (remdups (map dfl_pointer fields))\<rparr>)"

section \<open>Lists\<close>

fun inspection_status_valid :: "inspection_status \<Rightarrow> bool" where
  "inspection_status_valid (InspectionStatusOther s) = False"
| "inspection_status_valid s = True"

fun schema_status_valid :: "schema_status \<Rightarrow> bool" where
  "schema_status_valid (InspectionSchemaOther s) = False"
| "schema_status_valid s = True"

fun source_text :: "value_source \<Rightarrow> string" where
  "source_text SourceArguments = ''arguments''"
| "source_text SourceContext = ''context''"
| "source_text SourceResult = ''result''"
| "source_text SourceProgress = ''progress''"
| "source_text (SourceOther s) = s"

definition normalizeLabels :: "(string \<Rightarrow> bool) \<Rightarrow> string list \<Rightarrow> string list option" where
  "normalizeLabels ok values = (let out = sort values in if distinctRun ok out then Some out else None)"

definition normalizeInspectionRuleIDs :: "string list \<Rightarrow> string list option" where
  "normalizeInspectionRuleIDs = normalizeLabels SafeLabel"

definition normalizeInspectionCategories :: "string list \<Rightarrow> string list option" where
  "normalizeInspectionCategories = normalizeLabels detector_category_valid"

definition normalizeInspectionPackIdentities :: "string list \<Rightarrow> string list option" where
  "normalizeInspectionPackIdentities = normalizeLabels ValidSHA256Identity"

definition MaxArgumentBytes64 :: uint64 where "MaxArgumentBytes64 = 8388608"
definition MaxJSONItems32 :: uint32 where "MaxJSONItems32 = 65536"

definition field_key :: "field_evidence \<Rightarrow> string \<times> string" where
  "field_key f = (source_text (fev_source f), fev_pointer_identity f)"

text \<open>The loop over the sorted fields: the totals, or a refusal.\<close>

fun sumFields :: "phase \<Rightarrow> field_evidence option \<Rightarrow> uint64 \<Rightarrow> uint32 \<Rightarrow> field_evidence list \<Rightarrow> (uint64 \<times> uint32) option" where
  "sumFields phase previous bytes items [] = Some (bytes, items)"
| "sumFields phase previous bytes items (f # fs) =
     (if fev_source f \<noteq> phaseSource phase \<or> \<not> ValidKeyedIdentity (fev_pointer_identity f)
         \<or> \<not> ValidKeyedIdentity (fev_value_identity f) \<or> MaxArgumentBytes64 < fev_byte_length f
         \<or> MaxJSONItems32 < fev_item_count f then None
      else if (case previous of None \<Rightarrow> False
               | Some p \<Rightarrow> fev_source p = fev_source f \<and> fev_pointer_identity p = fev_pointer_identity f) then None
      else if MaxArgumentBytes64 - bytes < fev_byte_length f \<or> MaxJSONItems32 - items < fev_item_count f then None
      else sumFields phase (Some f) (bytes + fev_byte_length f) (items + fev_item_count f) fs)"

definition content_key :: "content_evidence \<Rightarrow> string \<times> string" where
  "content_key c = (cev_content_type c, cev_identity c)"

fun checkContent :: "content_evidence option \<Rightarrow> content_evidence list \<Rightarrow> bool" where
  "checkContent previous [] \<longleftrightarrow> True"
| "checkContent previous (c # cs) \<longleftrightarrow>
     \<not> (\<not> content_type_valid (cev_content_type c) \<or> \<not> ValidKeyedIdentity (cev_identity c)
        \<or> MaxArgumentBytes64 < cev_byte_length c)
     \<and> \<not> (case previous of None \<Rightarrow> False
           | Some p \<Rightarrow> cev_content_type p = cev_content_type c \<and> cev_identity p = cev_identity c)
     \<and> checkContent (Some c) cs"

definition normalizeInspectionLists :: "inspection_evidence \<Rightarrow> phase \<Rightarrow> inspection_evidence option" where
  "normalizeInspectionLists ev phase =
     (if MaxDetectors < length (iev_rule_ids ev) \<or> MaxDetectorCategories < length (iev_categories ev)
         \<or> MaxDetectors < length (iev_pack_identities ev) \<or> MaxJSONItems < length (iev_fields ev)
         \<or> MaxJSONItems < length (iev_unsupported_content ev) then None
      else
        (case (normalizeInspectionRuleIDs (iev_rule_ids ev), normalizeInspectionCategories (iev_categories ev),
               normalizeInspectionPackIdentities (iev_pack_identities ev)) of
           (Some rules, Some categories, Some packs) \<Rightarrow>
             if length packs = 0 then None
             else
               (let fields = sort_key field_key (iev_fields ev);
                    content = sort_key content_key (iev_unsupported_content ev)
                in case sumFields phase None 0 0 fields of
                     None \<Rightarrow> None
                   | Some (bytes, items) \<Rightarrow>
                       if bytes \<noteq> iev_scanned_bytes ev \<or> items \<noteq> iev_scanned_items ev then None
                       else if \<not> checkContent None content then None
                       else Some (ev\<lparr>iev_rule_ids := rules, iev_categories := categories,
                         iev_pack_identities := packs, iev_fields := fields, iev_unsupported_content := content\<rparr>))
         | _ \<Rightarrow> None))"

section \<open>Phases and outcomes\<close>

definition validInspectionMatchOutcome :: "inspection_evidence \<Rightarrow> phase \<Rightarrow> bool" where
  "validInspectionMatchOutcome ev phase =
     (case phase of
        PhasePreCall \<Rightarrow>
          iev_reason ev = ReasonRuleMatched
          \<and> (iev_decision ev = DecisionWarn \<or> iev_decision ev = DecisionBlock \<or> iev_decision ev = DecisionRequireApproval)
      | PhasePostResult \<Rightarrow>
          iev_decision ev = DecisionWarn \<and> iev_reason ev = ReasonRuleMatched
          \<or> iev_decision ev = DecisionBlock \<and> iev_reason ev = ReasonResultWithheld
      | PhaseProgress \<Rightarrow>
          iev_decision ev = DecisionWarn \<and> iev_reason ev = ReasonRuleMatched
          \<or> iev_decision ev = DecisionBlock \<and> iev_reason ev = ReasonResultWithheld
      | _ \<Rightarrow> False)"

definition validateInspectionPhase :: "inspection_evidence \<Rightarrow> phase \<Rightarrow> nat \<Rightarrow> bool" where
  "validateInspectionPhase ev phase expectedFields \<longleftrightarrow>
     (if phase = PhasePostResult then iev_schema_status ev \<noteq> InspectionSchemaNotApplicable
      else \<not> (iev_schema_status ev \<noteq> InspectionSchemaNotApplicable \<or> iev_schema_identity ev \<noteq> ''absent''))
     \<and> \<not> (phase \<noteq> PhasePostResult \<and> 0 < length (iev_unsupported_content ev))
     \<and> \<not> (iev_status ev \<noteq> InspectionIncomplete \<and> length (iev_fields ev) \<noteq> expectedFields)
     \<and> \<not> (iev_status ev = InspectionIncomplete \<and> expectedFields < length (iev_fields ev))
     \<and> \<not> (iev_status ev = InspectionMatched \<and> \<not> validInspectionMatchOutcome ev phase)
     \<and> \<not> (iev_status ev = InspectionIncomplete \<and> iev_reason ev = ReasonSchemaInvalid \<and> phase \<noteq> PhasePostResult)
     \<and> \<not> (iev_status ev = InspectionIncomplete \<and> iev_reason ev = ReasonUnsupportedContent
          \<and> (phase \<noteq> PhasePostResult \<or> length (iev_unsupported_content ev) = 0))"

definition inspectionFailureReason :: "reason_code \<Rightarrow> bool" where
  "inspectionFailureReason r \<longleftrightarrow>
     r \<in> {ReasonInspectionIncomplete, ReasonUnsupportedContent, ReasonSchemaInvalid, ReasonLimitExceeded,
          ReasonInvalidUTF8, ReasonCancelled, ReasonDeadlineExceeded}"

definition inspectionOutcomeOk :: "inspection_evidence \<Rightarrow> bool" where
  "inspectionOutcomeOk ev =
     (case iev_status ev of
        InspectionClean \<Rightarrow>
          \<not> (iev_decision ev \<noteq> DecisionOther [] \<or> iev_reason ev \<noteq> NoReason \<or> length (iev_rule_ids ev) \<noteq> 0
             \<or> length (iev_categories ev) \<noteq> 0)
      | InspectionMatched \<Rightarrow>
          \<not> (iev_decision ev \<noteq> DecisionWarn \<and> iev_decision ev \<noteq> DecisionBlock
             \<and> iev_decision ev \<noteq> DecisionRequireApproval
             \<or> length (iev_rule_ids ev) = 0 \<or> length (iev_categories ev) = 0
             \<or> iev_reason ev \<noteq> ReasonRuleMatched \<and> iev_reason ev \<noteq> ReasonResultWithheld)
      | InspectionIncomplete \<Rightarrow>
          \<not> (iev_decision ev \<noteq> DecisionBlock \<or> length (iev_rule_ids ev) \<noteq> 0 \<or> length (iev_categories ev) \<noteq> 0
             \<or> \<not> inspectionFailureReason (iev_reason ev))
      | InspectionStatusOther s \<Rightarrow> True)"

definition invalidInspection :: "string \<Rightarrow> request_error + inspection_evidence option" where
  "invalidInspection message = Inl (request_failure ReasonInvalidRequest message)"

text \<open>
  The messages of the list and phase checks, which the code takes from their errors, are one
  text here each.
\<close>

definition normalizeInspectionEvidence ::
  "inspection_evidence option \<Rightarrow> inspection_expectation \<Rightarrow> phase \<Rightarrow> request_error + inspection_evidence option" where
  "normalizeInspectionEvidence inp expected phase =
     (let required = 0 < length (exp_pack_identities expected)
      in case inp of
           None \<Rightarrow>
             if required then
               Inl (request_failure ReasonInspectionIncomplete ''required content inspection evidence is absent'')
             else Inr None
         | Some ev \<Rightarrow>
             if \<not> required \<or> \<not> inspection_status_valid (iev_status ev) \<or> \<not> ValidKeyedIdentity (iev_identity ev)
                \<or> \<not> schema_status_valid (iev_schema_status ev)
                \<or> iev_schema_identity ev \<noteq> ''absent'' \<and> \<not> ValidSHA256Identity (iev_schema_identity ev)
                \<or> MaxArgumentBytes64 < iev_scanned_bytes ev \<or> MaxJSONItems32 < iev_scanned_items ev then
               invalidInspection ''content inspection evidence is invalid''
             else if (iev_schema_status ev = InspectionSchemaValid \<or> iev_schema_status ev = InspectionSchemaInvalid)
                     \<and> \<not> ValidSHA256Identity (iev_schema_identity ev) then
               invalidInspection ''content inspection schema identity is absent''
             else if \<not> (iev_schema_status ev = InspectionSchemaValid \<or> iev_schema_status ev = InspectionSchemaInvalid)
                     \<and> iev_schema_identity ev \<noteq> ''absent'' then
               invalidInspection ''content inspection schema identity is unexpected''
             else
               (case normalizeInspectionLists ev phase of
                  None \<Rightarrow> invalidInspection ''content inspection lists are invalid''
                | Some out \<Rightarrow>
                    if iev_pack_identities out \<noteq> exp_pack_identities expected then
                      invalidInspection ''content inspection pack identities do not match policy''
                    else if \<not> validateInspectionPhase out phase (exp_field_count expected) then
                      invalidInspection ''content inspection evidence does not fit its phase''
                    else if \<not> inspectionOutcomeOk out then
                      invalidInspection ''content inspection evidence contradicts its status''
                    else Inr (Some out)))"

definition inspectionIdentity :: "inspection_evidence option \<Rightarrow> string" where
  "inspectionIdentity evidence = (case evidence of None \<Rightarrow> ''absent'' | Some ev \<Rightarrow> iev_identity ev)"

section \<open>Accepted evidence\<close>

lemma normalizeLabels_ok:
  "normalizeLabels ok values = Some out \<longleftrightarrow> out = sort values \<and> (\<forall>v \<in> set values. ok v) \<and> distinct values"
  by (auto simp: normalizeLabels_def Let_def distinctRun_sorted)

lemma normalizeLabels_again: "normalizeLabels ok values = Some out \<Longrightarrow> normalizeLabels ok out = Some out"
  by (auto simp: normalizeLabels_ok sorted_sort_id)

lemma normalizeLabels_length: "normalizeLabels ok values = Some out \<Longrightarrow> length out = length values"
  by (auto simp: normalizeLabels_ok)

lemma within64: "\<not> MaxArgumentBytes64 - bytes < l \<Longrightarrow> bytes \<le> MaxArgumentBytes64 \<Longrightarrow>
    unat (bytes + l) = unat bytes + unat l \<and> bytes + l \<le> MaxArgumentBytes64"
proof -
  assume a: "\<not> MaxArgumentBytes64 - bytes < l" "bytes \<le> MaxArgumentBytes64"
  have s: "unat (MaxArgumentBytes64 - bytes) = unat MaxArgumentBytes64 - unat bytes" using a(2) by (rule unat_sub)
  have le: "unat bytes \<le> unat MaxArgumentBytes64" using a(2) by (simp add: word_le_nat_alt)
  have "unat bytes + unat l \<le> unat MaxArgumentBytes64" using a(1) s le by (simp add: word_less_nat_alt)
  moreover have "unat MaxArgumentBytes64 < 2 ^ 64" by (rule uint64_lt)
  ultimately have "unat (bytes + l) = unat bytes + unat l" by (simp add: unat_word_ariths)
  then show ?thesis using \<open>unat bytes + unat l \<le> unat MaxArgumentBytes64\<close> by (simp add: word_le_nat_alt)
qed

lemma sumFields_bytes:
  "sumFields phase previous bytes items fs = Some (b, i) \<Longrightarrow> bytes \<le> MaxArgumentBytes64 \<Longrightarrow>
     unat b = unat bytes + (\<Sum>f \<leftarrow> fs. unat (fev_byte_length f)) \<and> b \<le> MaxArgumentBytes64
     \<and> (\<forall>f \<in> set fs. fev_source f = phaseSource phase)"
proof (induction phase previous bytes items fs rule: sumFields.induct)
  case (1 phase previous bytes items)
  then show ?case by simp
next
  case (2 phase previous bytes items f fs)
  have g: "fev_source f = phaseSource phase" "\<not> MaxArgumentBytes64 - bytes < fev_byte_length f"
    and rest: "sumFields phase (Some f) (bytes + fev_byte_length f) (items + fev_item_count f) fs = Some (b, i)"
    using 2(2) by (simp_all split: if_splits)
  note w = within64 [OF g(2) 2(3)]
  have "unat b = unat (bytes + fev_byte_length f) + (\<Sum>f \<leftarrow> fs. unat (fev_byte_length f)) \<and> b \<le> MaxArgumentBytes64
     \<and> (\<forall>f \<in> set fs. fev_source f = phaseSource phase)"
    by (rule 2(1)) (use 2(2) rest w in \<open>simp_all split: if_splits\<close>)
  then show ?case using w g by simp
qed

lemma within32: "\<not> MaxJSONItems32 - items < n \<Longrightarrow> items \<le> MaxJSONItems32 \<Longrightarrow>
    unat (items + n) = unat items + unat n \<and> items + n \<le> MaxJSONItems32"
proof -
  assume a: "\<not> MaxJSONItems32 - items < n" "items \<le> MaxJSONItems32"
  have "unat (MaxJSONItems32 - items) = unat MaxJSONItems32 - unat items" using a(2) by (rule unat_sub)
  then have le: "unat items + unat n \<le> unat MaxJSONItems32" using a by (simp add: word_less_nat_alt word_le_nat_alt)
  then have "unat (items + n) = unat items + unat n" by (simp add: unat_word_ariths MaxJSONItems32_def)
  then show ?thesis using le by (simp add: word_le_nat_alt)
qed

lemma sumFields_items:
  "sumFields phase previous bytes items fs = Some (b, i) \<Longrightarrow> items \<le> MaxJSONItems32 \<Longrightarrow>
     unat i = unat items + (\<Sum>f \<leftarrow> fs. unat (fev_item_count f)) \<and> i \<le> MaxJSONItems32"
proof (induction phase previous bytes items fs rule: sumFields.induct)
  case (2 phase previous bytes items f fs)
  have g: "\<not> MaxJSONItems32 - items < fev_item_count f"
    and rest: "sumFields phase (Some f) (bytes + fev_byte_length f) (items + fev_item_count f) fs = Some (b, i)"
    using 2(2) by (simp_all split: if_splits)
  note w = within32 [OF g 2(3)]
  have "unat i = unat (items + fev_item_count f) + (\<Sum>f \<leftarrow> fs. unat (fev_item_count f)) \<and> i \<le> MaxJSONItems32"
    by (rule 2(1)) (use 2(2) rest w in \<open>simp_all split: if_splits\<close>)
  then show ?case using w by simp
qed simp

lemma inspection_lists_cases:
  assumes "normalizeInspectionLists ev phase = Some out"
  obtains rules categories packs where
    "normalizeInspectionRuleIDs (iev_rule_ids ev) = Some rules"
    "normalizeInspectionCategories (iev_categories ev) = Some categories"
    "normalizeInspectionPackIdentities (iev_pack_identities ev) = Some packs" "packs \<noteq> []"
    "sumFields phase None 0 0 (sort_key field_key (iev_fields ev)) = Some (iev_scanned_bytes ev, iev_scanned_items ev)"
    "checkContent None (sort_key content_key (iev_unsupported_content ev))"
    "\<not> (MaxDetectors < length (iev_rule_ids ev) \<or> MaxDetectorCategories < length (iev_categories ev)
         \<or> MaxDetectors < length (iev_pack_identities ev) \<or> MaxJSONItems < length (iev_fields ev)
         \<or> MaxJSONItems < length (iev_unsupported_content ev))"
    "ev\<lparr>iev_rule_ids := rules, iev_categories := categories, iev_pack_identities := packs,
        iev_fields := sort_key field_key (iev_fields ev),
        iev_unsupported_content := sort_key content_key (iev_unsupported_content ev)\<rparr> = out"
  using assms
  by (auto simp: normalizeInspectionLists_def Let_def split: if_splits option.splits)

lemma inspection_lists_again:
  assumes "normalizeInspectionLists ev phase = Some out"
  shows "normalizeInspectionLists out phase = Some out"
proof -
  obtain rules categories packs where c:
    "normalizeInspectionRuleIDs (iev_rule_ids ev) = Some rules"
    "normalizeInspectionCategories (iev_categories ev) = Some categories"
    "normalizeInspectionPackIdentities (iev_pack_identities ev) = Some packs" "packs \<noteq> []"
    "sumFields phase None 0 0 (sort_key field_key (iev_fields ev)) = Some (iev_scanned_bytes ev, iev_scanned_items ev)"
    "checkContent None (sort_key content_key (iev_unsupported_content ev))"
    "\<not> (MaxDetectors < length (iev_rule_ids ev) \<or> MaxDetectorCategories < length (iev_categories ev)
         \<or> MaxDetectors < length (iev_pack_identities ev) \<or> MaxJSONItems < length (iev_fields ev)
         \<or> MaxJSONItems < length (iev_unsupported_content ev))"
    "ev\<lparr>iev_rule_ids := rules, iev_categories := categories, iev_pack_identities := packs,
        iev_fields := sort_key field_key (iev_fields ev),
        iev_unsupported_content := sort_key content_key (iev_unsupported_content ev)\<rparr> = out"
    by (rule inspection_lists_cases [OF assms])
  have sel: "iev_rule_ids out = rules" "iev_categories out = categories" "iev_pack_identities out = packs"
    "iev_fields out = sort_key field_key (iev_fields ev)"
    "iev_unsupported_content out = sort_key content_key (iev_unsupported_content ev)"
    "iev_scanned_bytes out = iev_scanned_bytes ev" "iev_scanned_items out = iev_scanned_items ev"
    by (simp_all add: c(8) [symmetric])
  have again: "normalizeInspectionRuleIDs rules = Some rules" "normalizeInspectionCategories categories = Some categories"
    "normalizeInspectionPackIdentities packs = Some packs"
    using c(1-3) normalizeLabels_again
    unfolding normalizeInspectionRuleIDs_def normalizeInspectionCategories_def normalizeInspectionPackIdentities_def
    by blast+
  have len: "length rules = length (iev_rule_ids ev)" "length categories = length (iev_categories ev)"
    "length packs = length (iev_pack_identities ev)"
    using c(1-3) normalizeLabels_length
    unfolding normalizeInspectionRuleIDs_def normalizeInspectionCategories_def normalizeInspectionPackIdentities_def
    by blast+
  have sorted: "sort_key field_key (sort_key field_key xs) = sort_key field_key xs"
    "sort_key content_key (sort_key content_key ys) = sort_key content_key ys" for xs ys
    by (simp_all add: sort_key_id_if_sorted)
  have same: "out\<lparr>iev_rule_ids := rules, iev_categories := categories, iev_pack_identities := packs,
        iev_fields := sort_key field_key (iev_fields ev),
        iev_unsupported_content := sort_key content_key (iev_unsupported_content ev)\<rparr> = out"
    by (simp add: c(8) [symmetric])
  have "iev_pack_identities ev \<noteq> []" using len(3) c(4) by auto
  then show ?thesis unfolding normalizeInspectionLists_def sel again sorted option.case prod.case Let_def
    using c(4-7) len same by simp
qed

definition inspection_gate :: "inspection_evidence \<Rightarrow> bool" where
  "inspection_gate ev \<longleftrightarrow>
     inspection_status_valid (iev_status ev) \<and> ValidKeyedIdentity (iev_identity ev)
     \<and> schema_status_valid (iev_schema_status ev)
     \<and> (iev_schema_identity ev = ''absent'' \<or> ValidSHA256Identity (iev_schema_identity ev))
     \<and> \<not> MaxArgumentBytes64 < iev_scanned_bytes ev \<and> \<not> MaxJSONItems32 < iev_scanned_items ev
     \<and> (if iev_schema_status ev = InspectionSchemaValid \<or> iev_schema_status ev = InspectionSchemaInvalid
        then ValidSHA256Identity (iev_schema_identity ev) else iev_schema_identity ev = ''absent'')"

lemma inspection_ok:
  "normalizeInspectionEvidence (Some ev) expected phase = Inr result \<longleftrightarrow>
     exp_pack_identities expected \<noteq> [] \<and> inspection_gate ev
     \<and> (\<exists>out. normalizeInspectionLists ev phase = Some out \<and> result = Some out
          \<and> iev_pack_identities out = exp_pack_identities expected
          \<and> validateInspectionPhase out phase (exp_field_count expected) \<and> inspectionOutcomeOk out)"
proof (cases "normalizeInspectionLists ev phase")
  case None
  then show ?thesis
    by (simp add: normalizeInspectionEvidence_def invalidInspection_def Let_def)
next
  case (Some out)
  then show ?thesis
    by (simp add: normalizeInspectionEvidence_def invalidInspection_def inspection_gate_def Let_def) blast
qed

lemma inspection_none: "normalizeInspectionEvidence None expected phase = Inr result \<longleftrightarrow>
    exp_pack_identities expected = [] \<and> result = None"
  by (auto simp: normalizeInspectionEvidence_def Let_def)

lemma lists_keep:
  assumes "normalizeInspectionLists ev phase = Some out"
  shows "iev_status out = iev_status ev \<and> iev_identity out = iev_identity ev
    \<and> iev_schema_status out = iev_schema_status ev \<and> iev_schema_identity out = iev_schema_identity ev
    \<and> iev_scanned_bytes out = iev_scanned_bytes ev \<and> iev_scanned_items out = iev_scanned_items ev"
  by (rule inspection_lists_cases [OF assms]) force

section \<open>Properties\<close>

text \<open>
  Accepted inspection evidence is stable under a second normalization, and absent evidence is
  accepted exactly when no detector of the plan matches the request.
\<close>

theorem inspection_normalization_stable:
  assumes "normalizeInspectionEvidence inp expected phase = Inr result"
  shows "normalizeInspectionEvidence result expected phase = Inr result
    \<and> (result = None \<longleftrightarrow> exp_pack_identities expected = []) \<and> (result = None \<longleftrightarrow> inp = None)"
proof (cases inp)
  case None
  then show ?thesis using assms by (simp add: inspection_none)
next
  case (Some ev)
  then obtain out where o: "exp_pack_identities expected \<noteq> []" "inspection_gate ev"
    "normalizeInspectionLists ev phase = Some out" "result = Some out"
    "iev_pack_identities out = exp_pack_identities expected"
    "validateInspectionPhase out phase (exp_field_count expected)" "inspectionOutcomeOk out"
    using assms unfolding Some inspection_ok by blast
  have "inspection_gate out" using o(2) lists_keep [OF o(3)] by (simp add: inspection_gate_def)
  then show ?thesis using o inspection_lists_again [OF o(3)] Some by (simp add: inspection_ok)
qed

text \<open>
  C27: accepted evidence carries exactly the detector packs that the plan expects, its fields are
  of the payload of the phase and their bytes and items add up to the scanned bytes and items
  without wrap-around, each within its limit, an incomplete inspection decides block, and a match names at least one rule (the evaluator reads
  the first) and never allows.
\<close>

theorem inspection_evidence_sound:
  assumes "normalizeInspectionEvidence (Some ev) expected phase = Inr (Some out)"
  shows "iev_pack_identities out = exp_pack_identities expected
    \<and> (\<forall>f \<in> set (iev_fields out). fev_source f = phaseSource phase)
    \<and> unat (iev_scanned_bytes out) = (\<Sum>f \<leftarrow> iev_fields out. unat (fev_byte_length f))
    \<and> unat (iev_scanned_bytes out) \<le> maxArgumentBytes
    \<and> unat (iev_scanned_items out) = (\<Sum>f \<leftarrow> iev_fields out. unat (fev_item_count f))
    \<and> unat (iev_scanned_items out) \<le> MaxJSONItems
    \<and> (iev_status out = InspectionIncomplete \<longrightarrow> iev_decision out = DecisionBlock)
    \<and> (iev_status out = InspectionMatched \<longrightarrow> iev_rule_ids out \<noteq> [] \<and> iev_decision out \<noteq> DecisionAllow)
    \<and> (iev_status out = InspectionClean \<longrightarrow> iev_rule_ids out = [])"
proof -
  have o: "normalizeInspectionLists ev phase = Some out" "iev_pack_identities out = exp_pack_identities expected"
    "inspectionOutcomeOk out"
    using assms unfolding inspection_ok by blast+
  have sum: "sumFields phase None 0 0 (iev_fields out) = Some (iev_scanned_bytes out, iev_scanned_items out)"
    by (rule inspection_lists_cases [OF o(1)]) force
  have "(0 :: uint64) \<le> MaxArgumentBytes64" by simp
  then have t: "unat (iev_scanned_bytes out) = unat (0 :: uint64) + (\<Sum>f \<leftarrow> iev_fields out. unat (fev_byte_length f))
      \<and> iev_scanned_bytes out \<le> MaxArgumentBytes64 \<and> (\<forall>f \<in> set (iev_fields out). fev_source f = phaseSource phase)"
    by (rule sumFields_bytes [OF sum])
  then have "unat (iev_scanned_bytes out) \<le> maxArgumentBytes"
    by (simp add: word_le_nat_alt MaxArgumentBytes64_def maxArgumentBytes_def)
  moreover have "unat (iev_scanned_items out) = (\<Sum>f \<leftarrow> iev_fields out. unat (fev_item_count f))"
    "unat (iev_scanned_items out) \<le> MaxJSONItems"
    using sumFields_items [OF sum] by (simp_all add: word_le_nat_alt MaxJSONItems32_def MaxJSONItems_def)
  ultimately show ?thesis using o(2,3) t by (auto simp: inspectionOutcomeOk_def)
qed

text \<open>An inspection of one argument field without a match.\<close>

definition clean_evidence :: inspection_evidence where
  "clean_evidence =
     \<lparr>iev_status = InspectionClean, iev_identity = example_keyed (CHR ''a''), iev_decision = DecisionOther [],
      iev_reason = NoReason, iev_rule_ids = [], iev_categories = [],
      iev_pack_identities = [''sha256:'' @ replicate 64 (CHR ''a'')],
      iev_schema_status = InspectionSchemaNotApplicable, iev_schema_identity = ''absent'',
      iev_fields = [\<lparr>fev_source = SourceArguments, fev_pointer_identity = example_keyed (CHR ''b''),
        fev_value_identity = example_keyed (CHR ''c''), fev_byte_length = 7, fev_item_count = 1\<rparr>],
      iev_unsupported_content = [], iev_scanned_bytes = 7, iev_scanned_items = 1\<rparr>"

definition clean_expectation :: inspection_expectation where
  "clean_expectation = \<lparr>exp_pack_identities = [''sha256:'' @ replicate 64 (CHR ''a'')], exp_field_count = 1\<rparr>"

lemma clean_accepted:
  "normalizeInspectionEvidence (Some clean_evidence) clean_expectation PhasePreCall = Inr (Some clean_evidence)"
proof -
  have sha: "ValidSHA256Identity (''sha256:'' @ replicate 64 (CHR ''a''))"
    by (simp add: ValidSHA256Identity_def sha256IdentityPattern_def hasPrefix_def lowerHexLength_def list_all_iff)
  have lists: "normalizeInspectionLists clean_evidence PhasePreCall = Some clean_evidence"
    using sha
    by (simp add: normalizeInspectionLists_def clean_evidence_def normalizeInspectionRuleIDs_def
        normalizeInspectionCategories_def normalizeInspectionPackIdentities_def normalizeLabels_def
        MaxDetectors_def MaxDetectorCategories_def MaxJSONItems_def MaxArgumentBytes64_def MaxJSONItems32_def)
  have "inspection_gate clean_evidence"
    by (simp add: inspection_gate_def clean_evidence_def MaxArgumentBytes64_def MaxJSONItems32_def)
  then show ?thesis using lists
    by (simp add: inspection_ok clean_expectation_def)
      (simp add: clean_evidence_def validateInspectionPhase_def inspectionOutcomeOk_def)
qed

theorem inspection_normalization_stable_witness:
  "normalizeInspectionEvidence (Some clean_evidence) clean_expectation PhasePreCall = Inr (Some clean_evidence)
    \<and> (Some clean_evidence = None \<longleftrightarrow> exp_pack_identities clean_expectation = [])
    \<and> (Some clean_evidence = None \<longleftrightarrow> Some clean_evidence = None)"
  by (rule inspection_normalization_stable) (rule clean_accepted)

theorem inspection_evidence_sound_witness:
  "unat (iev_scanned_bytes clean_evidence) = (\<Sum>f \<leftarrow> iev_fields clean_evidence. unat (fev_byte_length f))
    \<and> unat (iev_scanned_items clean_evidence) = (\<Sum>f \<leftarrow> iev_fields clean_evidence. unat (fev_item_count f))"
  using inspection_evidence_sound [OF clean_accepted] by blast

end
