(* ===== verification/Action_Encode.thy ===== *)
theory Action_Encode
  imports Go_Json Go_Digest Action_Inspection
begin

text \<open>
  The encodings whose digests identify requests, cache entries and approvals, and that bound a
  trace: the JSON form of the records of evaluator\_types.go by their field tags. A slice that
  the normalizers leave nil is written as null, every other empty slice as an empty list. The
  lemmas give the shape of a digest, and that the digest preimage of a request binds it.
\<close>

section \<open>The texts of the vocabularies\<close>

fun phase_text :: "phase \<Rightarrow> string" where
  "phase_text PhasePreCall = ''pre_call''"
| "phase_text PhasePostResult = ''post_result''"
| "phase_text PhaseProgress = ''progress''"
| "phase_text PhaseObservation = ''observation''"
| "phase_text (PhaseOther s) = s"

fun decision_text :: "decision \<Rightarrow> string" where
  "decision_text DecisionAllow = ''allow''"
| "decision_text DecisionWarn = ''warn''"
| "decision_text DecisionRequireApproval = ''require_approval''"
| "decision_text DecisionBlock = ''block''"
| "decision_text (DecisionOther s) = s"

fun provenance_text :: "provenance \<Rightarrow> string" where
  "provenance_text ProvenanceAgentSupplied = ''agent_supplied''"
| "provenance_text ProvenanceAdapterAsserted = ''adapter_asserted''"
| "provenance_text ProvenanceHostObserved = ''host_observed''"
| "provenance_text ProvenanceOperatorBound = ''operator_bound''"
| "provenance_text (ProvenanceOther s) = s"

fun budget_reset_text :: "budget_reset \<Rightarrow> string" where
  "budget_reset_text BudgetResetNever = ''never''"
| "budget_reset_text BudgetResetOperatorRun = ''operator_run''"
| "budget_reset_text BudgetResetOperatorSession = ''operator_session''"
| "budget_reset_text BudgetResetFixedWindow = ''fixed_window''"
| "budget_reset_text (BudgetResetOther s) = s"

fun authority_text :: "authority_mode \<Rightarrow> string" where
  "authority_text AuthorityOperatorPinned = ''operator_pinned''"
| "authority_text AuthorityRepositoryManaged = ''repository_managed''"
| "authority_text (AuthorityOther s) = s"

fun deadline_text :: "deadline_state \<Rightarrow> string" where
  "deadline_text DeadlineReady = ''ready''"
| "deadline_text DeadlineExceeded = ''exceeded''"
| "deadline_text (DeadlineOther s) = s"

fun lifecycle_text :: "lifecycle_state \<Rightarrow> string" where
  "lifecycle_text LifecycleActive = ''active''"
| "lifecycle_text LifecycleCancelled = ''cancelled''"
| "lifecycle_text LifecycleShutdown = ''shutdown''"
| "lifecycle_text (LifecycleOther s) = s"

fun approval_status_text :: "approval_status \<Rightarrow> string" where
  "approval_status_text ApprovalNone = ''none''"
| "approval_status_text ApprovalPending = ''pending''"
| "approval_status_text ApprovalCurrentUnconsumed = ''current_unconsumed''"
| "approval_status_text ApprovalConsumed = ''consumed''"
| "approval_status_text (ApprovalOther s) = s"

fun taint_status_text :: "taint_status \<Rightarrow> string" where
  "taint_status_text TaintClean = ''clean''"
| "taint_status_text TaintPresent = ''tainted''"
| "taint_status_text TaintUnknown = ''unknown''"
| "taint_status_text (TaintOther s) = s"

fun inspection_status_text :: "inspection_status \<Rightarrow> string" where
  "inspection_status_text InspectionClean = ''clean''"
| "inspection_status_text InspectionMatched = ''matched''"
| "inspection_status_text InspectionIncomplete = ''incomplete''"
| "inspection_status_text (InspectionStatusOther s) = s"

fun schema_status_text :: "schema_status \<Rightarrow> string" where
  "schema_status_text InspectionSchemaNotApplicable = ''not_applicable''"
| "schema_status_text InspectionSchemaNotDeclared = ''not_declared''"
| "schema_status_text InspectionSchemaValid = ''valid''"
| "schema_status_text InspectionSchemaInvalid = ''invalid''"
| "schema_status_text InspectionSchemaRequired = ''required_missing''"
| "schema_status_text (InspectionSchemaOther s) = s"

fun condition_state_text :: "condition_state \<Rightarrow> string" where
  "condition_state_text ConditionFalse = ''false''"
| "condition_state_text ConditionTrue = ''true''"
| "condition_state_text ConditionIndeterminate = ''indeterminate''"
| "condition_state_text ConditionStateUnset = []"

fun pointer_state_text :: "pointer_state \<Rightarrow> string" where
  "pointer_state_text PointerPresent = ''present''"
| "pointer_state_text PointerNull = ''null''"
| "pointer_state_text PointerMissing = ''missing''"
| "pointer_state_text PointerWrongContainer = ''wrong_container''"
| "pointer_state_text PointerInvalidIndex = ''invalid_index''"
| "pointer_state_text PointerUnset = []"

fun selector_state_text :: "selector_state \<Rightarrow> string" where
  "selector_state_text SelectorMatched = ''matched''"
| "selector_state_text SelectorUnmatched = ''unmatched''"

fun value_kind_text :: "value_kind \<Rightarrow> string" where
  "value_kind_text ValueNull = ''null''"
| "value_kind_text ValueBool = ''boolean''"
| "value_kind_text ValueNumber = ''number''"
| "value_kind_text ValueString = ''string''"
| "value_kind_text ValueArray = ''array''"
| "value_kind_text ValueObject = ''object''"
| "value_kind_text ValueKindUnset = []"

section \<open>Fields\<close>

definition text_field :: "string \<Rightarrow> string \<Rightarrow> (string \<times> json) list" where
  "text_field name s = [(name, JText s)]"

definition text_omitted :: "string \<Rightarrow> string \<Rightarrow> (string \<times> json) list" where
  "text_omitted name s = (if s = [] then [] else [(name, JText s)])"

definition nat_omitted :: "string \<Rightarrow> nat \<Rightarrow> (string \<times> json) list" where
  "nat_omitted name n = (if n = 0 then [] else [(name, JNumber (show_nat n))])"

definition nat_field :: "string \<Rightarrow> nat \<Rightarrow> (string \<times> json) list" where
  "nat_field name n = [(name, JNumber (show_nat n))]"

definition bool_field :: "string \<Rightarrow> bool \<Rightarrow> (string \<times> json) list" where
  "bool_field name b = [(name, JBool b)]"

definition texts_field :: "string \<Rightarrow> string list \<Rightarrow> (string \<times> json) list" where
  "texts_field name ss = [(name, JList (map JText ss))]"

definition tree_omitted :: "string \<Rightarrow> json option \<Rightarrow> (string \<times> json) list" where
  "tree_omitted name t = (case t of None \<Rightarrow> [] | Some j \<Rightarrow> [(name, j)])"

section \<open>Trace entries\<close>

definition operand_json :: "operand_summary \<Rightarrow> json" where
  "operand_json s =
     JRecord (text_field ''pointer_state'' (pointer_state_text (sum_pointer_state s))
       @ text_omitted ''kind'' (value_kind_text (sum_kind s))
       @ nat_omitted ''byte_length'' (sum_byte_length s) @ nat_omitted ''item_count'' (sum_item_count s))"

definition trace_entry_json :: "trace_entry \<Rightarrow> json" where
  "trace_entry_json t =
     JRecord (text_field ''rule_id'' (tre_rule_id t) @ text_omitted ''tool_id'' (tre_tool_id t)
       @ text_field ''selector'' (selector_state_text (tre_selector t))
       @ text_field ''condition'' (condition_state_text (tre_condition t))
       @ text_omitted ''candidate_decision'' (decision_text (tre_decision t))
       @ text_omitted ''reason'' (reason_text (tre_reason t))
       @ text_omitted ''actual_provenance'' (provenance_text (tre_actual t))
       @ text_omitted ''required_provenance'' (provenance_text (tre_required t))
       @ bool_field ''complete'' (tre_complete t) @ [(''operand'', operand_json (tre_operand t))]
       @ nat_omitted ''omitted'' (tre_omitted t))"

section \<open>Requests\<close>

definition missing_json :: "missing_evidence \<Rightarrow> json" where
  "missing_json m =
     JRecord (text_field ''field'' (evidence_field_text (miss_field m))
       @ text_field ''reason'' (reason_text (miss_reason m)))"

definition completeness_json :: "completeness \<Rightarrow> json" where
  "completeness_json c =
     JRecord (bool_field ''request_complete'' (cpl_request c) @ bool_field ''policy_complete'' (cpl_policy c)
       @ bool_field ''identity_complete'' (cpl_identity c) @ bool_field ''context_complete'' (cpl_context c)
       @ bool_field ''state_complete'' (cpl_state c) @ bool_field ''phase_complete'' (cpl_phase c)
       @ [(''missing'', JList (map missing_json (cpl_missing c)))])"

definition context_value_json :: "context_value \<Rightarrow> json" where
  "context_value_json c =
     JRecord (text_field ''name'' (ctx_name c)
       @ tree_omitted ''value'' (if ctx_available c then Some (value_json (ctx_value c)) else None)
       @ text_field ''provenance'' (provenance_text (ctx_provenance c))
       @ bool_field ''available'' (ctx_available c))"

definition request_json :: "request \<Rightarrow> json" where
  "request_json r =
     JRecord (text_field ''format_version'' (req_format_version r) @ text_field ''call_id'' (req_call_id r)
       @ text_field ''transport'' (transport_text (req_transport r))
       @ text_omitted ''platform'' (req_platform r) @ text_omitted ''server_label'' (req_server_label r)
       @ text_field ''server_fingerprint'' (req_server_fingerprint r) @ text_field ''tool'' (req_tool r)
       @ text_field ''tool_contract_digest'' (req_tool_contract_digest r)
       @ text_field ''phase'' (phase_text (req_phase r))
       @ text_field ''repository_identity'' (req_repository_identity r)
       @ text_field ''policy_digest'' (req_policy_digest r) @ text_field ''lock_digest'' (req_lock_digest r)
       @ text_field ''authority_mode'' (authority_text (req_authority_mode r))
       @ tree_omitted ''arguments'' (map_option value_json (req_arguments r))
       @ tree_omitted ''result'' (map_option value_json (req_result r))
       @ tree_omitted ''progress'' (map_option value_json (req_progress r))
       @ [(''context'', JList (map context_value_json (req_context r))),
          (''completeness'', completeness_json (req_completeness r))]
       @ text_field ''deadline'' (deadline_text (req_deadline r))
       @ text_field ''state_version'' (req_state_version r))"

text \<open>The values a request encodes; the encoding fails when one of them does.\<close>

definition request_values :: "request \<Rightarrow> json_value list" where
  "request_values r =
     List.concat (map (\<lambda>p. case p of None \<Rightarrow> [] | Some v \<Rightarrow> [v]) [req_arguments r, req_result r, req_progress r])
     @ map ctx_value (filter ctx_available (req_context r))"

definition marshalRequest :: "request \<Rightarrow> string option" where
  "marshalRequest r =
     (if list_all (\<lambda>v. case MarshalJSON v of Inl e \<Rightarrow> False | Inr bytes \<Rightarrow> True) (request_values r)
      then Some (encode (request_json r)) else None)"

definition CanonicalRequest :: "request \<Rightarrow> request_error + string" where
  "CanonicalRequest r =
     (case validateAndCloneRequest r of
        Inl e \<Rightarrow> Inl e
      | Inr normalized \<Rightarrow>
          (case marshalRequest normalized of
             None \<Rightarrow> Inl (request_failure ReasonInvalidRequest ''request cannot be encoded canonically'')
           | Some body \<Rightarrow>
               if maxArgumentBytes + MaxJSONStringBytes < length body
               then Inl (request_failure ReasonLimitExceeded ''canonical request exceeds the byte limit'')
               else Inr body))"

definition RequestDigest :: "request \<Rightarrow> request_error + string" where
  "RequestDigest r = (case CanonicalRequest r of Inl e \<Rightarrow> Inl e | Inr body \<Rightarrow> Inr (digestBytes body))"

definition requestDigestValidated :: "request \<Rightarrow> string option" where
  "requestDigestValidated r = map_option digestBytes (marshalRequest r)"

section \<open>The mutable state of an evaluation\<close>

definition usage_json :: "budget_usage \<Rightarrow> json" where
  "usage_json u =
     JRecord (nat_field ''call_count'' (unat (use_call_count u)) @ nat_field ''denied_count'' (unat (use_denied_count u))
       @ nat_field ''approval_count'' (unat (use_approval_count u))
       @ nat_field ''argument_bytes'' (unat (use_argument_bytes u))
       @ nat_field ''result_bytes'' (unat (use_result_bytes u)) @ nat_field ''cost_units'' (unat (use_cost_units u))
       @ nat_field ''concurrent'' (unat (use_concurrent u)) @ nat_field ''rate_window'' (unat (use_rate_window u)))"

definition limits_json :: "budget_limits \<Rightarrow> json" where
  "limits_json l =
     JRecord (nat_omitted ''call_count'' (unat (lim_call_count l)) @ nat_omitted ''denied_count'' (unat (lim_denied_count l))
       @ nat_omitted ''approval_count'' (unat (lim_approval_count l))
       @ nat_omitted ''argument_bytes'' (unat (lim_argument_bytes l))
       @ nat_omitted ''result_bytes'' (unat (lim_result_bytes l)) @ nat_omitted ''cost_units'' (unat (lim_cost_units l))
       @ nat_omitted ''concurrent'' (unat (lim_concurrent l)) @ nat_omitted ''rate_window'' (unat (lim_rate_window l)))"

definition scope_json :: "budget_scope \<Rightarrow> json" where
  "scope_json s =
     JRecord (text_field ''repository_identity'' (scp_repository_identity s) @ text_field ''principal'' (scp_principal s)
       @ [(''credential_labels'',
           if scp_credential_labels s = [] then JNull else JList (map JText (scp_credential_labels s)))]
       @ text_field ''server_label'' (scp_server_label s) @ text_field ''server_identity'' (scp_server_identity s)
       @ text_field ''tool_id'' (scp_tool_id s) @ text_field ''run_identity'' (scp_run_identity s)
       @ text_field ''session_identity'' (scp_session_identity s)
       @ text_field ''window_identity'' (scp_window_identity s)
       @ (if scp_window_start_unix s = 0 then []
          else [(''window_start_unix'', JNumber (show_int (scp_window_start_unix s)))]))"

definition generation_json :: "budget_generation \<Rightarrow> json" where
  "generation_json g =
     JRecord (text_field ''policy_digest'' (gen_policy_digest g)
       @ text_field ''executable_digest'' (gen_executable_digest g)
       @ text_field ''tool_contract_digest'' (gen_tool_contract_digest g) @ text_field ''key_id'' (gen_key_id g))"

definition budget_candidate_json :: "budget_candidate \<Rightarrow> json" where
  "budget_candidate_json c =
     JRecord (text_field ''budget_id'' (bc_budget_id c) @ text_field ''scope_identity'' (bc_scope_identity c)
       @ text_field ''lineage_identity'' (bc_lineage_identity c) @ [(''scope'', scope_json (bc_scope c))]
       @ text_field ''reset'' (budget_reset_text (bc_reset c))
       @ nat_omitted ''window_seconds'' (unat (bc_window_seconds c))
       @ [(''limits'', limits_json (bc_limits c)), (''consumed'', usage_json (bc_consumed c)),
          (''reserved'', usage_json (bc_reserved c)), (''required'', usage_json (bc_required c))]
       @ bool_field ''reservation_applied'' (bc_reservation_applied c) @ bool_field ''available'' (bc_available c)
       @ text_omitted ''reason'' (reason_text (bc_reason c)) @ [(''generation'', generation_json (bc_generation c))])"

definition budget_snapshot_json :: "budget_snapshot \<Rightarrow> json" where
  "budget_snapshot_json s =
     JRecord (text_field ''state_version'' (bsn_state_version s) @ text_field ''identity'' (bsn_identity s)
       @ text_field ''reservation_identity'' (bsn_reservation_identity s) @ bool_field ''complete'' (bsn_complete s)
       @ [(''candidates'', JList (map budget_candidate_json (bsn_list s)))])"

definition approval_json :: "approval_snapshot \<Rightarrow> json" where
  "approval_json a =
     JRecord (text_field ''status'' (approval_status_text (aps_status a)) @ text_field ''identity'' (aps_identity a))"

definition taint_json :: "taint_snapshot \<Rightarrow> json" where
  "taint_json t =
     JRecord (text_field ''status'' (taint_status_text (tns_status t)) @ text_field ''identity'' (tns_identity t))"

definition repository_effect_json :: "repository_effect_candidate \<Rightarrow> json" where
  "repository_effect_json r =
     JRecord (text_field ''decision'' (decision_text (rec_decision r)) @ text_field ''reason'' (reason_text (rec_reason r))
       @ texts_field ''rule_ids'' (rec_rule_ids r) @ text_field ''identity'' (rec_identity r)
       @ bool_field ''complete'' (rec_complete r))"

definition field_evidence_json :: "field_evidence \<Rightarrow> json" where
  "field_evidence_json f =
     JRecord (text_field ''source'' (source_text (fev_source f))
       @ text_field ''pointer_identity'' (fev_pointer_identity f) @ text_field ''value_identity'' (fev_value_identity f)
       @ nat_field ''byte_length'' (unat (fev_byte_length f)) @ nat_field ''item_count'' (unat (fev_item_count f)))"

definition content_evidence_json :: "content_evidence \<Rightarrow> json" where
  "content_evidence_json c =
     JRecord (text_field ''content_type'' (cev_content_type c) @ text_field ''identity'' (cev_identity c)
       @ nat_field ''byte_length'' (unat (cev_byte_length c)))"

definition inspection_json :: "inspection_evidence \<Rightarrow> json" where
  "inspection_json e =
     JRecord (text_field ''status'' (inspection_status_text (iev_status e)) @ text_field ''identity'' (iev_identity e)
       @ text_omitted ''decision'' (decision_text (iev_decision e)) @ text_omitted ''reason'' (reason_text (iev_reason e))
       @ texts_field ''rule_ids'' (iev_rule_ids e) @ texts_field ''categories'' (iev_categories e)
       @ texts_field ''pack_identities'' (iev_pack_identities e)
       @ text_field ''schema_status'' (schema_status_text (iev_schema_status e))
       @ text_field ''schema_identity'' (iev_schema_identity e)
       @ [(''fields'', JList (map field_evidence_json (iev_fields e))),
          (''unsupported_content'', JList (map content_evidence_json (iev_unsupported_content e)))]
       @ nat_field ''scanned_bytes'' (unat (iev_scanned_bytes e)) @ nat_field ''scanned_items'' (unat (iev_scanned_items e)))"

definition identity_snapshot_json :: "identity_snapshot \<Rightarrow> json" where
  "identity_snapshot_json s =
     JRecord (text_field ''plan_identity'' (ids_plan_identity s) @ text_field ''source_identity'' (ids_source_identity s)
       @ text_field ''policy_digest'' (ids_policy_digest s) @ text_field ''lock_digest'' (ids_lock_digest s)
       @ text_field ''authority_mode'' (authority_text (ids_authority_mode s))
       @ text_field ''server_label'' (ids_server_label s) @ text_field ''server_fingerprint'' (ids_server_fingerprint s)
       @ text_field ''tool_contract_digest'' (ids_tool_contract_digest s)
       @ text_field ''executable_digest'' (ids_executable_digest s)
       @ text_field ''repository_identity'' (ids_repository_identity s)
       @ text_field ''context_identity'' (ids_context_identity s) @ text_field ''principal'' (ids_principal s)
       @ texts_field ''credential_labels'' (ids_credential_labels s) @ text_field ''state_version'' (ids_state_version s)
       @ text_field ''budget_identity'' (ids_budget_identity s)
       @ text_field ''reservation_identity'' (ids_reservation_identity s)
       @ text_field ''approval_identity'' (ids_approval_identity s) @ text_field ''taint_identity'' (ids_taint_identity s)
       @ text_field ''repository_effect_identity'' (ids_repository_effect_identity s)
       @ text_field ''inspection_identity'' (ids_inspection_identity s))"

section \<open>Digests are identities\<close>

lemma hexDigit_lower: "n < 16 \<Longrightarrow> lowerHexChar (hexDigit n)"
  by (auto simp: lowerHexChar_def hexDigit_def less_eq_char_def)

lemma word_hex_lower: "list_all lowerHexChar (word_hex w)"
proof -
  have "unat (drop_bit n w AND 15) < 16" for n
  proof -
    have "drop_bit n w AND 15 \<le> 15" by (rule word_and_le1)
    then have "unat (drop_bit n w AND 15) \<le> unat (15 :: 32 word)" by (simp only: word_le_nat_alt)
    then show ?thesis by simp
  qed
  then have "lowerHexChar (hexDigit (unat (drop_bit n w AND 15)))" for n by (rule hexDigit_lower)
  then show ?thesis unfolding word_hex_def list_all_iff by (simp only: list.set_map ball_simps) simp
qed

lemma hexEncode_lower: "list_all lowerHexChar (hexEncode ws)"
  by (induction ws) (simp_all add: hexEncode_def word_hex_lower)

lemma digest_is_identity: "ValidSHA256Identity (digestBytes body)"
  using hexEncode_length [of "sha256 body"] hexEncode_lower [of "sha256 body"]
  by (simp add: ValidSHA256Identity_def sha256IdentityPattern_def digestBytes_def hasPrefix_def
      lowerHexLength_def sha256_length)

lemma validated_values_encode:
  assumes "validateAndCloneRequest inp = Inr r"
  shows "marshalRequest r = Some (encode (request_json r))"
proof -
  obtain n cx c where p: "validatePhasePayload inp = Inr n" and cx: "cloneContextValues (req_context inp) n = Inr cx"
    and r: "r = inp\<lparr>req_context := cx, req_completeness := c\<rparr>"
    using assms by (rule validate_request_cases)
  have ok: "\<exists>bytes. MarshalJSON v = Inr bytes" if "cloneRuntimeValue v = Inr k" for v k
    using that canonicalJSONSize_appendJSON(1) [of v 0 k "[]"] by (auto simp: cloneRuntimeValue_ok MarshalJSON_def CanonicalJSONSize_def)
  have n: "n \<le> maxArgumentBytes" using payload_ok [OF p] by simp
  have "\<exists>bytes. MarshalJSON v = Inr bytes" if v: "v \<in> set (request_values r)" for v
  proof -
    consider "req_arguments inp = Some v" | "req_result inp = Some v" | "req_progress inp = Some v"
      | e where "e \<in> set cx" "ctx_available e" "v = ctx_value e"
      using v by (auto simp: request_values_def r split: option.splits)
    then show ?thesis
    proof cases
      case 4
      have "entry_ok e" using 4(1) cx cloneContextValues_ok [OF n, of "req_context inp" cx] by auto
      then show ?thesis using 4 ok unfolding entry_ok_def by metis
    qed (use payload_ok [OF p] ok in \<open>auto simp: phase_payload_def split: phase.splits option.splits\<close>)
  qed
  then show ?thesis by (force simp: marshalRequest_def list_all_iff split: sum.splits)
qed

end
