(* ===== verification/Action_Trace.thy ===== *)
theory Action_Trace
  imports Action_Encode
begin

text \<open>
  The bounded trace of an evaluation (evaluator.go, \<open>traceCollector\<close>): entries are kept while
  their number and the bytes of their JSON list stay within the limits, then the tail is replaced
  by one overflow marker. The lemmas show that the byte counter is the exact length of the
  encoded list, that the limits hold for the finished trace, and what is lost.
\<close>

section \<open>The code\<close>

definition MaxTraceEntries :: nat where "MaxTraceEntries = 256"
definition MaxTraceBytes :: int where "MaxTraceBytes = 65536"

text \<open>
  An entry holds strings, integers and booleans only, so its encoding never fails and the error
  field of the collector stays nil; \<open>newTraceCollector\<close> never leaves the entries nil.
\<close>

record trace_collector =
  trc_entries :: "trace_entry list"
  trc_entry_bytes :: "nat list"
  trc_logical_bytes :: int
  trc_omitted :: nat

definition newTraceCollector :: trace_collector where
  "newTraceCollector = \<lparr>trc_entries = [], trc_entry_bytes = [], trc_logical_bytes = 2, trc_omitted = 0\<rparr>"

definition marshalEntry :: "trace_entry \<Rightarrow> string" where
  "marshalEntry entry = encode (trace_entry_json entry)"

definition traceSeparatorBytes :: "nat \<Rightarrow> nat" where
  "traceSeparatorBytes existingEntries = (if 0 < existingEntries then 1 else 0)"

definition trace_add :: "trace_collector \<Rightarrow> trace_entry \<Rightarrow> trace_collector" where
  "trace_add c entry =
     (if 0 < trc_omitted c \<or> length (trc_entries c) = MaxTraceEntries
      then c\<lparr>trc_omitted := trc_omitted c + 1\<rparr>
      else
        (let body = marshalEntry entry;
             separatorBytes = (if 0 < length (trc_entries c) then 1 else 0)
         in if MaxTraceBytes - trc_logical_bytes c < int (length body + separatorBytes)
            then c\<lparr>trc_omitted := trc_omitted c + 1\<rparr>
            else \<lparr>trc_entries = trc_entries c @ [entry], trc_entry_bytes = trc_entry_bytes c @ [length body],
                  trc_logical_bytes = trc_logical_bytes c + int (length body + separatorBytes),
                  trc_omitted = trc_omitted c\<rparr>))"

definition traceMarker :: "nat \<Rightarrow> trace_entry" where
  "traceMarker omitted =
     \<lparr>tre_rule_id = ''trace-overflow'', tre_tool_id = [], tre_selector = SelectorUnmatched,
      tre_condition = ConditionIndeterminate, tre_decision = DecisionOther [], tre_reason = ReasonLimitExceeded,
      tre_actual = ProvenanceUnset, tre_required = ProvenanceUnset, tre_complete = False,
      tre_operand = noSummary, tre_omitted = omitted\<rparr>"

text \<open>The loop that drops kept entries until the marker fits.\<close>

function overflowLoop :: "trace_entry list \<Rightarrow> nat list \<Rightarrow> nat \<Rightarrow> int \<Rightarrow> trace_entry list \<times> nat" where
  "overflowLoop kept entryBytes omitted logicalBytes =
     (let body = marshalEntry (traceMarker omitted)
      in if kept \<noteq> []
            \<and> (MaxTraceEntries \<le> length kept
               \<or> MaxTraceBytes - logicalBytes < int (length body + traceSeparatorBytes (length kept)))
         then overflowLoop (butlast kept) (butlast entryBytes) (omitted + 1)
                (logicalBytes - int (last entryBytes + traceSeparatorBytes (length kept - 1)))
         else (kept, omitted))"
  by pat_completeness auto
termination
  by (relation "measure (\<lambda>(kept, entryBytes, omitted, logicalBytes). length kept)") auto

declare overflowLoop.simps [simp del]

definition appendTraceOverflow ::
  "trace_entry list \<Rightarrow> nat list \<Rightarrow> nat \<Rightarrow> int \<Rightarrow> trace_entry list \<times> bool \<times> nat" where
  "appendTraceOverflow kept entryBytes omitted logicalBytes =
     (case overflowLoop kept entryBytes omitted logicalBytes of
        (kept, omitted) \<Rightarrow> (kept @ [traceMarker omitted], False, omitted))"

definition trace_finish :: "trace_collector \<Rightarrow> trace_entry list \<times> bool \<times> nat" where
  "trace_finish c =
     (if trc_omitted c = 0 then (trc_entries c, True, 0)
      else appendTraceOverflow (trc_entries c) (trc_entry_bytes c) (trc_omitted c) (trc_logical_bytes c))"

section \<open>The counter is the length of the encoded list\<close>

definition trace_bytes :: "trace_entry list \<Rightarrow> int" where
  "trace_bytes entries = int (length (encode (JList (map trace_entry_json entries))))"

lemma items_snoc: "length (encodeItems first (xs @ [x]))
    = length (encodeItems first xs) + (if first \<and> xs = [] then 0 else 1) + length (encode x)"
  by (induction xs arbitrary: first) auto

lemma trace_bytes_Nil [simp]: "trace_bytes [] = 2"
  by (simp add: trace_bytes_def)

lemma trace_bytes_snoc:
  "trace_bytes (entries @ [entry])
     = trace_bytes entries + int (length (marshalEntry entry) + traceSeparatorBytes (length entries))"
  using items_snoc [of True "map trace_entry_json entries" "trace_entry_json entry"]
  by (simp add: trace_bytes_def marshalEntry_def traceSeparatorBytes_def)

text \<open>The invariant of the collector after the entries \<open>es\<close> were added.\<close>

definition trace_inv :: "trace_entry list \<Rightarrow> trace_collector \<Rightarrow> bool" where
  "trace_inv es c \<longleftrightarrow>
     trc_entries c = take (length es - trc_omitted c) es \<and> trc_omitted c \<le> length es
     \<and> trc_entry_bytes c = map (\<lambda>e. length (marshalEntry e)) (trc_entries c)
     \<and> trc_logical_bytes c = trace_bytes (trc_entries c)
     \<and> trace_bytes (trc_entries c) \<le> MaxTraceBytes \<and> length (trc_entries c) \<le> MaxTraceEntries"

lemma trace_inv_new: "trace_inv [] newTraceCollector"
  by (simp add: trace_inv_def newTraceCollector_def MaxTraceBytes_def)

lemma trace_inv_skip:
  assumes "trace_inv es c"
  shows "trace_inv (es @ [e]) (c\<lparr>trc_omitted := trc_omitted c + 1\<rparr>)"
  using assms by (auto simp: trace_inv_def)

lemma trace_inv_add:
  assumes inv: "trace_inv es c"
  shows "trace_inv (es @ [e]) (trace_add c e)"
proof (cases "0 < trc_omitted c \<or> length (trc_entries c) = MaxTraceEntries")
  case True
  then show ?thesis using trace_inv_skip [OF inv] by (simp add: trace_add_def)
next
  case False
  then have all: "trc_entries c = es" "trc_omitted c = 0" "length es < MaxTraceEntries"
    using inv by (auto simp: trace_inv_def)
  show ?thesis
  proof (cases "MaxTraceBytes - trc_logical_bytes c < int (length (marshalEntry e) + traceSeparatorBytes (length es))")
    case True
    then show ?thesis using trace_inv_skip [OF inv, of e] False all
      by (simp add: trace_add_def traceSeparatorBytes_def Let_def)
  next
    case fits: False
    then have "trace_add c e = \<lparr>trc_entries = es @ [e], trc_entry_bytes = trc_entry_bytes c @ [length (marshalEntry e)],
        trc_logical_bytes = trace_bytes (es @ [e]), trc_omitted = 0\<rparr>"
      using inv all False by (simp add: trace_add_def traceSeparatorBytes_def Let_def trace_inv_def trace_bytes_snoc)
    moreover have "trace_bytes (es @ [e]) \<le> MaxTraceBytes"
      using fits inv all by (simp add: trace_inv_def trace_bytes_snoc)
    ultimately show ?thesis using inv all by (simp add: trace_inv_def)
  qed
qed

lemma trace_inv_fold: "trace_inv es c \<Longrightarrow> trace_inv (es @ es') (fold (\<lambda>e c. trace_add c e) es' c)"
proof (induction es' arbitrary: es c)
  case (Cons e es')
  then show ?case using trace_inv_add [OF Cons.prems] Cons.IH [of "es @ [e]"] by simp
qed simp

section \<open>The overflow marker\<close>

lemma show_nat_int_length: "n < 2 ^ 63 \<Longrightarrow> length (show_nat n) \<le> 19"
  by (rule show_nat_length) simp_all

lemma marker_length:
  assumes "omitted < 2 ^ 63"
  shows "length (marshalEntry (traceMarker omitted)) \<le> 1000"
proof -
  have q: "length (jsonQuote s) \<le> 6 * k + 2" if "length s = k" for s k using jsonQuote_length [of s] that by simp
  show ?thesis
    using show_nat_int_length [OF assms] q [of "''rule_id''" 7] q [of "''trace-overflow''" 14] q [of "''selector''" 8]
      q [of "''unmatched''" 9] q [of "''condition''" 9] q [of "''indeterminate''" 13] q [of "''reason''" 6]
      q [of "''limit_exceeded''" 14] q [of "''complete''" 8] q [of "''operand''" 7] q [of "''pointer_state''" 13]
      q [of "[]" 0] q [of "''omitted''" 7]
    by (simp add: marshalEntry_def trace_entry_json_def traceMarker_def text_field_def text_omitted_def
        nat_omitted_def bool_field_def operand_json_def noSummary_def)
qed

definition marker_fits :: "trace_entry list \<Rightarrow> nat \<Rightarrow> bool" where
  "marker_fits kept omitted \<longleftrightarrow>
     kept = []
     \<or> length kept < MaxTraceEntries
       \<and> trace_bytes kept + int (length (marshalEntry (traceMarker omitted)) + traceSeparatorBytes (length kept))
           \<le> MaxTraceBytes"

lemma overflow_loop_result:
  assumes "overflowLoop kept sizes omitted logical = (kept', omitted')"
    and "sizes = map (\<lambda>e. length (marshalEntry e)) kept" "logical = trace_bytes kept"
    and "kept = take (length es - omitted) es" "omitted \<le> length es"
  shows "kept' = take (length es - omitted') es \<and> omitted \<le> omitted' \<and> omitted' \<le> length es
      \<and> marker_fits kept' omitted'"
  using assms
proof (induction kept sizes omitted logical rule: overflowLoop.induct)
  case (1 kept sizes omitted logical)
  define go where "go \<longleftrightarrow> kept \<noteq> []
    \<and> (MaxTraceEntries \<le> length kept
       \<or> MaxTraceBytes - logical < int (length (marshalEntry (traceMarker omitted)) + traceSeparatorBytes (length kept)))"
  show ?case
  proof (cases go)
    case False
    then have "kept' = kept" "omitted' = omitted"
      using "1.prems"(1) by (simp_all add: overflowLoop.simps [of kept] go_def Let_def split: if_splits)
    moreover have "marker_fits kept omitted" using False "1.prems"(3) by (auto simp: go_def marker_fits_def)
    ultimately show ?thesis using "1.prems" by simp
  next
    case True
    then obtain ks k where k: "kept = ks @ [k]" by (metis go_def rev_exhaust)
    have len: "length kept = length es - omitted" using "1.prems"(4,5) by simp
    then have lt: "omitted < length es" using k "1.prems"(5) by (cases "omitted = length es") auto
    have step: "overflowLoop (butlast kept) (butlast sizes) (omitted + 1)
        (logical - int (last sizes + traceSeparatorBytes (length kept - 1))) = (kept', omitted')"
      using True "1.prems"(1) by (simp add: overflowLoop.simps [of kept] go_def Let_def)
    have "butlast kept = take (length es - (omitted + 1)) es"
      using "1.prems"(4) len lt by (simp add: butlast_take)
    moreover have "logical - int (last sizes + traceSeparatorBytes (length kept - 1)) = trace_bytes (butlast kept)"
      using "1.prems"(2,3) by (simp add: k trace_bytes_snoc)
    moreover have "butlast sizes = map (\<lambda>e. length (marshalEntry e)) (butlast kept)"
      using "1.prems"(2) by (simp add: k)
    ultimately have "kept' = take (length es - omitted') es \<and> omitted + 1 \<le> omitted' \<and> omitted' \<le> length es
        \<and> marker_fits kept' omitted'"
      using True lt by (intro "1.IH" [OF refl _ step]) (auto simp: go_def)
    then show ?thesis by auto
  qed
qed

definition collect :: "trace_entry list \<Rightarrow> trace_collector" where
  "collect es = fold (\<lambda>e c. trace_add c e) es newTraceCollector"

lemma finish_complete:
  assumes "trace_inv es c" "trc_omitted c = 0"
  shows "trace_finish c = (es, True, 0) \<and> length es \<le> MaxTraceEntries \<and> trace_bytes es \<le> MaxTraceBytes"
  using assms by (auto simp: trace_finish_def trace_inv_def)

lemma finish_overflow:
  assumes inv: "trace_inv es c" and om: "trc_omitted c \<noteq> 0"
    and fin: "trace_finish c = (entries, complete', omitted)"
  shows "\<not> complete' \<and> 0 < omitted \<and> omitted \<le> length es
    \<and> entries = take (length es - omitted) es @ [traceMarker omitted]
    \<and> marker_fits (take (length es - omitted) es) omitted"
proof -
  obtain kept om' where l: "overflowLoop (trc_entries c) (trc_entry_bytes c) (trc_omitted c) (trc_logical_bytes c) = (kept, om')"
    by (metis prod.exhaust)
  have "kept = take (length es - om') es \<and> trc_omitted c \<le> om' \<and> om' \<le> length es \<and> marker_fits kept om'"
    by (rule overflow_loop_result [OF l]) (use inv in \<open>auto simp: trace_inv_def\<close>)
  then show ?thesis using fin om l by (auto simp: trace_finish_def appendTraceOverflow_def)
qed

text \<open>
  C36: a finished trace never has more entries or bytes than its limits. It is either the whole
  list of entries, or a prefix of it and one marker that counts exactly the entries
  that were dropped.
\<close>

theorem trace_bounded:
  assumes "length es < 2 ^ 63" and fin: "trace_finish (collect es) = (entries, complete', omitted)"
  shows "length entries \<le> MaxTraceEntries \<and> trace_bytes entries \<le> MaxTraceBytes
    \<and> (if complete' then entries = es \<and> omitted = 0
       else 0 < omitted \<and> omitted \<le> length es \<and> entries = take (length es - omitted) es @ [traceMarker omitted])"
proof -
  have inv: "trace_inv es (collect es)"
    using trace_inv_fold [OF trace_inv_new, of es] by (simp add: collect_def)
  show ?thesis
  proof (cases "trc_omitted (collect es) = 0")
    case True
    then show ?thesis using finish_complete [OF inv True] fin by auto
  next
    case False
    note o = finish_overflow [OF inv False fin]
    have "length (marshalEntry (traceMarker omitted)) \<le> 1000" by (rule marker_length) (use o assms(1) in linarith)
    moreover have "trace_bytes entries = trace_bytes (take (length es - omitted) es)
        + int (length (marshalEntry (traceMarker omitted)) + traceSeparatorBytes (length (take (length es - omitted) es)))"
      using o by (simp only: trace_bytes_snoc)
    ultimately show ?thesis using o
      by (auto simp: marker_fits_def MaxTraceBytes_def MaxTraceEntries_def traceSeparatorBytes_def)
  qed
qed

theorem trace_bounded_witness:
  "length (fst (trace_finish (collect (replicate 300 (traceMarker 1))))) \<le> MaxTraceEntries"
proof -
  obtain entries complete' omitted where
    fin: "trace_finish (collect (replicate 300 (traceMarker 1))) = (entries, complete', omitted)"
    by (metis prod.exhaust)
  have "length (replicate 300 (traceMarker 1)) < (2 :: nat) ^ 63" by simp
  then show ?thesis using trace_bounded [OF _ fin] fin by simp
qed

end
