(* ===== verification/Action_Evaluator.thy ===== *)
theory Action_Evaluator
  imports Action_Trace
begin

text \<open>
  The evaluation of a request (evaluator.go, decision\_cache.go): normalization of the input,
  the identities it must carry, the accumulation of candidates from the inspection, the budgets,
  the repository effect and the rules, and the result. The theory ends with the facts that make
  the decision safe: the strongest candidate wins, every failure blocks, and an interrupted or
  incomplete evaluation is never cached.
\<close>

section \<open>Ordering\<close>

definition candidateOrder :: "candidate \<Rightarrow> string" where
  "candidateOrder c =
     (case cand_source c of
        CandidateRule \<Rightarrow> ''0:'' @ cand_id c
      | CandidateInspection \<Rightarrow> ''1:'' @ cand_id c
      | CandidateBudget \<Rightarrow> ''2:'' @ cand_id c
      | CandidateRepositoryEffect \<Rightarrow> ''3:'' @ cand_id c
      | CandidateBaseline \<Rightarrow> ''4:'' @ cand_id c)"

text \<open>The sorts order by decreasing strength; \<open>sort.Slice\<close> is read as a stable sort.\<close>

definition sortCandidates :: "candidate list \<Rightarrow> candidate list" where
  "sortCandidates cs = sort_key (\<lambda>c. (- strength (cand_decision c), candidateOrder c)) cs"

record matched_rule =
  mtr_id :: string
  mtr_decision :: decision

definition sortMatchedRules :: "matched_rule list \<Rightarrow> matched_rule list" where
  "sortMatchedRules rules = sort_key (\<lambda>r. (- strength (mtr_decision r), mtr_id r)) rules"

fun matchedRuleIDsLoop :: "string set \<Rightarrow> matched_rule list \<Rightarrow> string list" where
  "matchedRuleIDsLoop seen [] = []"
| "matchedRuleIDsLoop seen (r # rules) =
     (if mtr_id r \<in> seen then matchedRuleIDsLoop seen rules
      else mtr_id r # matchedRuleIDsLoop (insert (mtr_id r) seen) rules)"

definition matchedRuleIDs :: "matched_rule list \<Rightarrow> string list" where
  "matchedRuleIDs rules = matchedRuleIDsLoop {} rules"

definition candidateReason :: "decision \<Rightarrow> reason_code" where
  "candidateReason d = (if d = DecisionRequireApproval then ReasonApprovalRequired else ReasonRuleMatched)"

definition markEvaluationIncomplete :: "completeness \<Rightarrow> reason_code \<Rightarrow> completeness" where
  "markEvaluationIncomplete c reason =
     (let untrusted = reason = ReasonContextUntrusted \<or> reason = ReasonIdentityUnavailable;
          field = (if untrusted then EvidenceContext else EvidencePhase);
          c = (if untrusted then c\<lparr>cpl_context := False\<rparr> else c\<lparr>cpl_phase := False\<rparr>);
          missing = \<lparr>miss_field = field, miss_reason = reason\<rparr>
      in if missing \<in> set (cpl_missing c) then c
         else c\<lparr>cpl_missing := sort_key missing_key (cpl_missing c @ [missing])\<rparr>)"

section \<open>Results\<close>

definition phaseOutcome :: "phase \<Rightarrow> decision \<Rightarrow> phase_outcome" where
  "phaseOutcome phase d =
     (let permitted = d = DecisionAllow \<or> d = DecisionWarn
      in case phase of
           PhasePreCall \<Rightarrow> if permitted then OutcomeDispatchEligible else OutcomeDispatchBlocked
         | PhasePostResult \<Rightarrow> if permitted then OutcomeDeliveryEligible else OutcomeWithheld
         | PhaseProgress \<Rightarrow> if permitted then OutcomeProgressEligible else OutcomeSuppressed
         | PhaseObservation \<Rightarrow> OutcomeRecorded
         | PhaseOther s \<Rightarrow> OutcomeDispatchBlocked)"

definition failureMessage :: "reason_code \<Rightarrow> failure_text" where
  "failureMessage code = Plain
     (case code of
        ReasonDeadlineExceeded \<Rightarrow> ''evaluation deadline was reached''
      | ReasonCancelled \<Rightarrow> ''evaluation was cancelled''
      | ReasonShutdown \<Rightarrow> ''gateway shutdown prevents evaluation''
      | ReasonContextUntrusted \<Rightarrow> ''required evaluation evidence is incomplete''
      | ReasonInspectionIncomplete \<Rightarrow> ''required evaluation evidence is incomplete''
      | ReasonPolicyStale \<Rightarrow> ''policy identity changed before use''
      | ReasonLockMismatch \<Rightarrow> ''lock identity changed before use''
      | ReasonToolContractStale \<Rightarrow> ''tool contract changed before use''
      | ReasonStateUnavailable \<Rightarrow> ''mutable state identity changed before use''
      | ReasonInternalInvariant \<Rightarrow> ''compiled action invariant failed''
      | _ \<Rightarrow> ''required identity changed before use'')"

definition missingCache :: cache_result where
  "missingCache = noCache\<lparr>car_reason := CacheIdentityMissing\<rparr>"

text \<open>A nil evaluator is \<open>None\<close>.\<close>

definition failEvaluationWithCache ::
  "evaluator option \<Rightarrow> evaluation_input \<Rightarrow> reason_code \<Rightarrow> failure_text \<Rightarrow> cache_result \<Rightarrow> evaluation_result" where
  "failEvaluationWithCache e inp code message cache =
     (let request = inp_request inp;
          reason =
            (if car_reason cache = CacheReasonUnset then CacheIdentityMissing
             else if car_reason cache = CacheEligible
             then (if \<not> evidence_complete (req_completeness request) then CacheEvidenceIncomplete
                   else CacheFailureResult)
             else car_reason cache)
      in \<lparr>res_decision = DecisionBlock, res_reason = code, res_tool_id = [], res_matched_rule_ids = [],
          res_candidates = [], res_budget_candidates = bsn_list (cloneBudgetSnapshot (inp_budget inp)),
          res_trace = [], res_trace_complete = True, res_trace_omitted = 0,
          res_completeness = req_completeness request, res_policy_digest = req_policy_digest request,
          res_lock_digest = req_lock_digest request,
          res_plan_identity = (case e of None \<Rightarrow> [] | Some e \<Rightarrow> evr_identity e),
          res_source_identity = inp_source_identity inp,
          res_cache = cache\<lparr>car_eligible := False, car_reason := reason\<rparr>,
          res_required_approval_identity = [], res_inspection = inp_inspection inp,
          res_phase_outcome = phaseOutcome (req_phase request) DecisionBlock,
          res_failure = Some \<lparr>fail_code = code, fail_message = message\<rparr>\<rparr>)"

definition failEvaluation ::
  "evaluator option \<Rightarrow> evaluation_input \<Rightarrow> reason_code \<Rightarrow> failure_text \<Rightarrow> evaluation_result" where
  "failEvaluation e inp code message = failEvaluationWithCache e inp code message missingCache"

text \<open>A poll: \<open>Inl\<close> the failure of a stopped evaluation, \<open>Inr\<close> the control that goes on.\<close>

definition stoppedEvaluation ::
  "evaluator \<Rightarrow> evaluation_input \<Rightarrow> cache_result \<Rightarrow> control \<Rightarrow> evaluation_result + control" where
  "stoppedEvaluation e inp cache control =
     (case stopReason control of
        (reason, control) \<Rightarrow>
          if reason = NoReason then Inr control
          else Inl (failEvaluationWithCache (Some e) inp reason (failureMessage reason) cache))"

section \<open>Identities\<close>

definition CacheIdentityVersion :: string where "CacheIdentityVersion = ''action-decision-v1''"
definition evaluationCollectionPollInterval :: nat where "evaluationCollectionPollInterval = 8"

definition normalizeIdentitySnapshot :: "identity_snapshot \<Rightarrow> identity_snapshot option" where
  "normalizeIdentitySnapshot s =
     (case safeStringList (ids_credential_labels s) MaxCredentialLabels of
        None \<Rightarrow> None
      | Some credentials \<Rightarrow>
          let valid = sha256IdentityPattern (ids_plan_identity s) \<and> lowerHex64 (ids_source_identity s)
            \<and> lowerHex64 (ids_policy_digest s) \<and> lowerHex64 (ids_lock_digest s)
            \<and> authority_valid (ids_authority_mode s)
            \<and> (ids_server_label s = [] \<or> SafeLabel (ids_server_label s))
            \<and> ValidIdentity (ids_server_fingerprint s) \<and> sha256IdentityPattern (ids_tool_contract_digest s)
            \<and> validExecutableSnapshot (ids_executable_digest s) \<and> ValidIdentity (ids_repository_identity s)
            \<and> validOpaqueIdentity (ids_context_identity s) \<and> SafeLabel (ids_principal s)
            \<and> validOpaqueIdentity (ids_state_version s) \<and> validOpaqueIdentity (ids_budget_identity s)
            \<and> validOpaqueIdentity (ids_reservation_identity s) \<and> validOpaqueIdentity (ids_approval_identity s)
            \<and> validOpaqueIdentity (ids_taint_identity s) \<and> validOpaqueIdentity (ids_repository_effect_identity s)
            \<and> validOpaqueIdentity (ids_inspection_identity s)
          in if valid then Some (s\<lparr>ids_credential_labels := credentials\<rparr>) else None)"

definition expectedIdentities :: "evaluator \<Rightarrow> evaluation_input \<Rightarrow> identity_snapshot" where
  "expectedIdentities e inp =
     (let request = inp_request inp; zero = budgetSnapshotZero (inp_budget inp)
      in \<lparr>ids_plan_identity = evr_identity e, ids_source_identity = inp_source_identity inp,
          ids_policy_digest = req_policy_digest request, ids_lock_digest = req_lock_digest request,
          ids_authority_mode = req_authority_mode request, ids_server_label = req_server_label request,
          ids_server_fingerprint = req_server_fingerprint request,
          ids_tool_contract_digest = req_tool_contract_digest request,
          ids_executable_digest =
            (if inp_executable_digest inp = [] \<and> req_transport request = TransportHostMCP then ''absent''
             else inp_executable_digest inp),
          ids_repository_identity = req_repository_identity request,
          ids_context_identity = inp_context_identity inp, ids_principal = inp_principal inp,
          ids_credential_labels = inp_credential_labels inp, ids_state_version = req_state_version request,
          ids_budget_identity = (if zero then ''absent'' else bsn_identity (inp_budget inp)),
          ids_reservation_identity = (if zero then ''absent'' else bsn_reservation_identity (inp_budget inp)),
          ids_approval_identity = aps_identity (inp_approval inp), ids_taint_identity = tns_identity (inp_taint inp),
          ids_repository_effect_identity =
            (case inp_repository_effect inp of None \<Rightarrow> ''absent'' | Some r \<Rightarrow> rec_identity r),
          ids_inspection_identity = inspectionIdentity (inp_inspection inp)\<rparr>)"

definition verifyResampledIdentitiesExpected :: "identity_snapshot \<Rightarrow> identity_snapshot \<Rightarrow> reason_code" where
  "verifyResampledIdentitiesExpected actual expected =
     (if ids_plan_identity actual \<noteq> ids_plan_identity expected
         \<or> ids_source_identity actual \<noteq> ids_source_identity expected
         \<or> ids_policy_digest actual \<noteq> ids_policy_digest expected then ReasonPolicyStale
      else if ids_lock_digest actual \<noteq> ids_lock_digest expected then ReasonLockMismatch
      else if ids_tool_contract_digest actual \<noteq> ids_tool_contract_digest expected then ReasonToolContractStale
      else if ids_executable_digest actual \<noteq> ids_executable_digest expected then ReasonIdentityUnavailable
      else if ids_authority_mode actual \<noteq> ids_authority_mode expected
              \<or> ids_server_label actual \<noteq> ids_server_label expected
              \<or> ids_server_fingerprint actual \<noteq> ids_server_fingerprint expected
              \<or> ids_repository_identity actual \<noteq> ids_repository_identity expected
              \<or> ids_context_identity actual \<noteq> ids_context_identity expected
              \<or> ids_principal actual \<noteq> ids_principal expected
              \<or> ids_credential_labels actual \<noteq> ids_credential_labels expected then ReasonIdentityUnavailable
      else if ids_state_version actual \<noteq> ids_state_version expected
              \<or> ids_budget_identity actual \<noteq> ids_budget_identity expected
              \<or> ids_reservation_identity actual \<noteq> ids_reservation_identity expected
              \<or> ids_approval_identity actual \<noteq> ids_approval_identity expected
              \<or> ids_repository_effect_identity actual \<noteq> ids_repository_effect_identity expected
              \<or> ids_inspection_identity actual \<noteq> ids_inspection_identity expected then ReasonStateUnavailable
      else if ids_taint_identity actual \<noteq> ids_taint_identity expected then ReasonIdentityUnavailable
      else NoReason)"

section \<open>Normalization of the input\<close>

definition inputFailure :: "reason_code \<Rightarrow> string \<Rightarrow> request_error + 'a" where
  "inputFailure code message = Inl (request_failure code message)"

definition normalizeRepositoryEffect ::
  "repository_effect_candidate option \<Rightarrow> request_error + repository_effect_candidate option" where
  "normalizeRepositoryEffect effect =
     (case effect of
        None \<Rightarrow> Inr None
      | Some r \<Rightarrow>
          if \<not> decision_valid (rec_decision r) \<or> \<not> reason_valid (rec_reason r)
             \<or> \<not> validOpaqueIdentity (rec_identity r)
          then inputFailure ReasonInvalidRequest ''repository effect candidate is invalid''
          else (case safeStringList (rec_rule_ids r) MaxListValues of
              None \<Rightarrow> inputFailure ReasonInvalidRequest ''repository effect rule identities are invalid''
            | Some ruleIDs \<Rightarrow> Inr (Some (r\<lparr>rec_rule_ids := ruleIDs\<rparr>))))"

definition mutableAuthorityValid :: "evaluation_input \<Rightarrow> bool" where
  "mutableAuthorityValid inp \<longleftrightarrow>
     approval_status_valid (aps_status (inp_approval inp)) \<and> validOpaqueIdentity (aps_identity (inp_approval inp))
     \<and> taint_status_valid (tns_status (inp_taint inp)) \<and> validOpaqueIdentity (tns_identity (inp_taint inp))
     \<and> lifecycle_valid (inp_lifecycle inp) \<and> inp_cache_policy_version inp = CacheIdentityVersion"

text \<open>\<open>err.(*RequestError)\<close> always succeeds: the request validator returns no other error.\<close>

definition normalizeEvaluationInput :: "evaluator \<Rightarrow> evaluation_input \<Rightarrow> request_error + evaluation_input" where
  "normalizeEvaluationInput e inp =
     (case validateAndCloneRequest (inp_request inp) of
        Inl err \<Rightarrow> Inl err
      | Inr request \<Rightarrow>
          let inp = inp\<lparr>inp_request := request\<rparr>
          in if \<not> lowerHex64 (inp_source_identity inp) \<or> \<not> validOpaqueIdentity (inp_context_identity inp)
                \<or> \<not> SafeLabel (inp_principal inp)
             then inputFailure ReasonIdentityUnavailable ''source or principal identity is unavailable''
             else
               (case safeStringList (inp_credential_labels inp) MaxCredentialLabels of
                  None \<Rightarrow> inputFailure ReasonInvalidRequest ''credential labels are invalid''
                | Some credentials \<Rightarrow>
                    let inp = inp\<lparr>inp_credential_labels := credentials\<rparr>
                    in if req_transport request = TransportMCPStdio
                          \<and> \<not> sha256IdentityPattern (inp_executable_digest inp)
                       then inputFailure ReasonIdentityUnavailable ''executable identity is unavailable''
                       else
                         let inp = (if req_transport request \<noteq> TransportMCPStdio \<and> inp_executable_digest inp = []
                                    then inp\<lparr>inp_executable_digest := ''absent''\<rparr> else inp)
                         in if \<not> mutableAuthorityValid inp
                            then inputFailure ReasonIdentityUnavailable ''mutable authority identity is unavailable''
                            else
                              (case normalizeRepositoryEffect (inp_repository_effect inp) of
                                 Inl err \<Rightarrow> Inl err
                               | Inr effect \<Rightarrow>
                                   let inp = inp\<lparr>inp_repository_effect := effect\<rparr>
                                   in (case normalizeInspectionEvidence (inp_inspection inp)
                                          (inspectionExpectation e (inp_request inp)) (req_phase (inp_request inp)) of
                                         Inl err \<Rightarrow> Inl err
                                       | Inr inspection \<Rightarrow>
                                           (case normalizeBudgetInput e (inp\<lparr>inp_inspection := inspection\<rparr>) of
                                              Inl err \<Rightarrow> Inl err
                                            | Inr inp \<Rightarrow>
                                                (case normalizeIdentitySnapshot (inp_resampled inp) of
                                                   None \<Rightarrow> inputFailure ReasonIdentityUnavailable
                                                     ''resampled identity set is incomplete''
                                                 | Some snapshot \<Rightarrow> Inr (inp\<lparr>inp_resampled := snapshot\<rparr>)))))))"

section \<open>The identity of a cached decision\<close>

definition cacheBinding :: "evaluator \<Rightarrow> evaluation_input \<Rightarrow> string \<Rightarrow> identity_snapshot \<Rightarrow> json" where
  "cacheBinding e inp requestIdentity expected =
     (let request = inp_request inp
      in JRecord (text_field ''version'' (inp_cache_policy_version inp) @ text_field ''request'' requestIdentity
        @ text_field ''transport'' (transport_text (req_transport request))
        @ text_field ''server_label'' (req_server_label request)
        @ text_field ''server_fingerprint'' (req_server_fingerprint request) @ text_field ''tool'' (req_tool request)
        @ text_field ''tool_contract_digest'' (req_tool_contract_digest request)
        @ text_field ''executable_digest'' (inp_executable_digest inp)
        @ text_field ''phase'' (phase_text (req_phase request)) @ text_field ''plan_identity'' (evr_identity e)
        @ text_field ''source_identity'' (inp_source_identity inp)
        @ text_field ''policy_authority'' (authority_text (req_authority_mode request))
        @ text_field ''context_identity'' (inp_context_identity inp) @ text_field ''principal'' (inp_principal inp)
        @ texts_field ''credential_labels'' (inp_credential_labels inp)
        @ text_field ''repository_identity'' (req_repository_identity request)
        @ text_field ''state_version'' (req_state_version request)
        @ [(''budget'', budget_snapshot_json (cloneBudgetSnapshot (inp_budget inp))),
           (''approval'', approval_json (inp_approval inp)), (''taint'', taint_json (inp_taint inp))]
        @ text_field ''lifecycle'' (lifecycle_text (inp_lifecycle inp))
        @ [(''completeness'', completeness_json (req_completeness request))]
        @ tree_omitted ''repository_effect'' (map_option repository_effect_json (inp_repository_effect inp))
        @ text_field ''repository_effect_identity'' (ids_repository_effect_identity expected)
        @ tree_omitted ''inspection'' (map_option inspection_json (inp_inspection inp))
        @ text_field ''inspection_identity'' (ids_inspection_identity expected)
        @ [(''resampled'', identity_snapshot_json (inp_resampled inp))]))"

definition cacheIdentityWithReason ::
  "evaluator \<Rightarrow> evaluation_input \<Rightarrow> string \<Rightarrow> identity_snapshot \<Rightarrow> cache_reason \<Rightarrow> cache_result" where
  "cacheIdentityWithReason e inp requestIdentity expected reason =
     \<lparr>car_eligible = (reason = CacheEligible), car_reason = reason,
      car_identity = digestBytes (encode (cacheBinding e inp requestIdentity expected))\<rparr>"

definition cacheReasonOf :: "evaluator \<Rightarrow> evaluation_input \<Rightarrow> identity_snapshot \<Rightarrow> cache_reason" where
  "cacheReasonOf e inp expected =
     (if inp_lifecycle inp \<noteq> LifecycleActive \<or> req_deadline (inp_request inp) \<noteq> DeadlineReady
      then CacheLifecycleInactive
      else if def_cache (pln_defaults (evr_plan e)) = CacheNever then CachePolicyNever
      else if \<not> evidence_complete (req_completeness (inp_request inp)) then CacheEvidenceIncomplete
      else if list_ex (\<lambda>entry. \<not> ctx_available entry) (req_context (inp_request inp)) then CacheContextUnresolved
      else if tns_status (inp_taint inp) \<noteq> TaintClean then CacheEvidenceTainted
      else
        (let code = verifyResampledIdentitiesExpected (inp_resampled inp) expected
         in if code = NoReason then CacheEligible
            else if code = ReasonStateUnavailable then CacheStateStale else CacheIdentityDrift))"

definition cacheIdentityNormalized ::
  "evaluator \<Rightarrow> evaluation_input \<Rightarrow> string \<Rightarrow> identity_snapshot \<Rightarrow> cache_result" where
  "cacheIdentityNormalized e inp requestIdentity expected =
     cacheIdentityWithReason e inp requestIdentity expected (cacheReasonOf e inp expected)"

definition CacheIdentity :: "evaluator option \<Rightarrow> evaluation_input \<Rightarrow> cache_result" where
  "CacheIdentity e inp =
     (case e of
        None \<Rightarrow> missingCache
      | Some e \<Rightarrow>
          (case normalizeEvaluationInput e inp of
             Inl err \<Rightarrow> missingCache
           | Inr inp \<Rightarrow>
               (case requestDigestValidated (inp_request inp) of
                  None \<Rightarrow> missingCache
                | Some requestIdentity \<Rightarrow>
                    cacheIdentityNormalized e inp requestIdentity (expectedIdentities e inp))))"

definition finalizeCacheResult ::
  "cache_result \<Rightarrow> bool \<Rightarrow> decision \<Rightarrow> approval_snapshot \<Rightarrow> completeness \<Rightarrow> bool \<Rightarrow> cache_result" where
  "finalizeCacheResult base ruleNever d approval c failure =
     (if failure then base\<lparr>car_eligible := False, car_reason := CacheFailureResult\<rparr>
      else if \<not> evidence_complete c then base\<lparr>car_eligible := False, car_reason := CacheEvidenceIncomplete\<rparr>
      else if d = DecisionRequireApproval \<and> aps_status approval \<noteq> ApprovalCurrentUnconsumed
      then base\<lparr>car_eligible := False, car_reason := CacheApprovalPending\<rparr>
      else if ruleNever then base\<lparr>car_eligible := False, car_reason := CacheRuleNever\<rparr>
      else base)"

section \<open>Preparation\<close>

definition preflightFailure :: "evaluation_input \<Rightarrow> identity_snapshot \<Rightarrow> reason_code" where
  "preflightFailure inp expected =
     (if req_deadline (inp_request inp) = DeadlineExceeded then ReasonDeadlineExceeded
      else if inp_lifecycle inp = LifecycleCancelled then ReasonCancelled
      else if inp_lifecycle inp = LifecycleShutdown then ReasonShutdown
      else if \<not> evidence_complete (req_completeness (inp_request inp))
      then miss_reason (cpl_missing (req_completeness (inp_request inp)) ! 0)
      else verifyResampledIdentitiesExpected (inp_resampled inp) expected)"

text \<open>A prepared evaluation, or the failure that the preparation ended with.\<close>

record prepared =
  ppd_input :: evaluation_input
  ppd_request_identity :: string
  ppd_cache :: cache_result

definition prepareEvaluation ::
  "evaluator \<Rightarrow> evaluation_input \<Rightarrow> control \<Rightarrow> (evaluation_result + prepared) \<times> control" where
  "prepareEvaluation e inp control =
     (case stoppedEvaluation e inp noCache control of
        Inl failure \<Rightarrow> (Inl failure, control)
      | Inr control \<Rightarrow>
          (case normalizeEvaluationInput e inp of
             Inl err \<Rightarrow> (Inl (failEvaluation (Some e) inp (rqe_code err) (rqe_message err)), control)
           | Inr inp \<Rightarrow>
               (case stoppedEvaluation e inp noCache control of
                  Inl failure \<Rightarrow> (Inl failure, control)
                | Inr control \<Rightarrow>
                    (case requestDigestValidated (inp_request inp) of
                       None \<Rightarrow> (Inl (failEvaluation (Some e) inp ReasonInternalInvariant
                                 (Plain ''canonical request identity failed'')), control)
                     | Some requestIdentity \<Rightarrow>
                         let expected = expectedIdentities e inp;
                             cacheBase = cacheIdentityNormalized e inp requestIdentity expected
                         in (case stoppedEvaluation e inp cacheBase control of
                               Inl failure \<Rightarrow> (Inl failure, control)
                             | Inr control \<Rightarrow>
                                 let code = preflightFailure inp expected
                                 in if code \<noteq> NoReason
                                    then (Inl (failEvaluationWithCache (Some e) inp code (failureMessage code) cacheBase),
                                          control)
                                    else (Inr \<lparr>ppd_input = inp, ppd_request_identity = requestIdentity,
                                                ppd_cache = cacheBase\<rparr>, control))))))"

section \<open>Accumulation\<close>

record accumulator =
  acc_evaluator :: evaluator
  acc_input :: evaluation_input
  acc_tool :: "tool option"
  acc_tool_id :: string
  acc_candidates :: "candidate list"
  acc_matched :: "matched_rule list"
  acc_trace :: trace_collector
  acc_budgets :: "budget_candidate list"
  acc_roots :: predicate_roots
  acc_cache_never :: bool
  acc_completeness :: completeness
  acc_cache_base :: cache_result
  acc_control :: control

text \<open>A step ends the evaluation with a failure, \<open>Inl\<close>, or goes on, \<open>Inr\<close>.\<close>

type_synonym step = "evaluation_result + accumulator"

definition newEvaluationAccumulator ::
  "evaluator \<Rightarrow> evaluation_input \<Rightarrow> cache_result \<Rightarrow> control \<Rightarrow> accumulator" where
  "newEvaluationAccumulator e inp cacheBase control =
     (case selectTool e (inp_request inp) of
        (t, toolID) \<Rightarrow>
          \<lparr>acc_evaluator = e, acc_input = inp, acc_tool = t, acc_tool_id = toolID,
           acc_candidates = [baselineCandidate e (inp_request inp) t], acc_matched = [],
           acc_trace = newTraceCollector, acc_budgets = bsn_list (cloneBudgetSnapshot (inp_budget inp)),
           acc_roots = noRoots, acc_cache_never = False, acc_completeness = req_completeness (inp_request inp),
           acc_cache_base = cacheBase, acc_control = control\<rparr>)"

definition acc_fail :: "accumulator \<Rightarrow> reason_code \<Rightarrow> failure_text \<Rightarrow> evaluation_result" where
  "acc_fail a code message =
     failEvaluationWithCache (Some (acc_evaluator a)) (acc_input a) code message (acc_cache_base a)"

definition stopFailure :: "accumulator \<Rightarrow> step" where
  "stopFailure a =
     (case stoppedEvaluation (acc_evaluator a) (acc_input a) (acc_cache_base a) (acc_control a) of
        Inl failure \<Rightarrow> Inl failure
      | Inr control \<Rightarrow> Inr (a\<lparr>acc_control := control\<rparr>))"

text \<open>The collection loops poll before every eighth element.\<close>

definition pollAt :: "nat \<Rightarrow> accumulator \<Rightarrow> step" where
  "pollAt index a = (if index mod evaluationCollectionPollInterval = 0 then stopFailure a else Inr a)"

definition addCandidate :: "candidate \<Rightarrow> accumulator \<Rightarrow> accumulator" where
  "addCandidate c a = a\<lparr>acc_candidates := acc_candidates a @ [c]\<rparr>"

definition addMatch :: "matched_rule \<Rightarrow> trace_entry \<Rightarrow> accumulator \<Rightarrow> accumulator" where
  "addMatch m entry a =
     a\<lparr>acc_matched := acc_matched a @ [m], acc_trace := trace_add (acc_trace a) entry\<rparr>"

fun addBudgetsLoop :: "nat \<Rightarrow> budget_candidate list \<Rightarrow> accumulator \<Rightarrow> step" where
  "addBudgetsLoop index [] a = Inr a"
| "addBudgetsLoop index (b # bs) a =
     (case pollAt index a of
        Inl failure \<Rightarrow> Inl failure
      | Inr a \<Rightarrow>
          addBudgetsLoop (index + 1) bs
            (if bc_available b then a
             else addCandidate \<lparr>cand_source = CandidateBudget, cand_id = bc_budget_id b,
                    cand_decision = DecisionBlock, cand_reason = ReasonBudgetExhausted\<rparr> a))"

definition addBudgets :: "accumulator \<Rightarrow> step" where
  "addBudgets a = addBudgetsLoop 0 (acc_budgets a) a"

text \<open>The matches of an external candidate, one trace entry for each of its rules.\<close>

definition matchEntry :: "string \<Rightarrow> string \<Rightarrow> candidate \<Rightarrow> operand_summary \<Rightarrow> trace_entry" where
  "matchEntry ruleID toolID c operand =
     \<lparr>tre_rule_id = ruleID, tre_tool_id = toolID, tre_selector = SelectorMatched, tre_condition = ConditionTrue,
      tre_decision = cand_decision c, tre_reason = cand_reason c, tre_actual = ProvenanceUnset,
      tre_required = ProvenanceUnset, tre_complete = True, tre_operand = operand, tre_omitted = 0\<rparr>"

fun addMatches :: "nat \<Rightarrow> candidate \<Rightarrow> operand_summary \<Rightarrow> string list \<Rightarrow> accumulator \<Rightarrow> step" where
  "addMatches index c operand [] a = Inr a"
| "addMatches index c operand (ruleID # ruleIDs) a =
     (case pollAt index a of
        Inl failure \<Rightarrow> Inl failure
      | Inr a \<Rightarrow>
          addMatches (index + 1) c operand ruleIDs
            (addMatch \<lparr>mtr_id = ruleID, mtr_decision = cand_decision c\<rparr>
              (matchEntry ruleID (acc_tool_id a) c operand) a))"

definition addInspection :: "accumulator \<Rightarrow> step" where
  "addInspection a =
     (case stopFailure a of
        Inl failure \<Rightarrow> Inl failure
      | Inr a \<Rightarrow>
          (case inp_inspection (acc_input a) of
             None \<Rightarrow> Inr a
           | Some ev \<Rightarrow>
               if iev_status ev = InspectionIncomplete then
                 (let c = markEvaluationIncomplete (acc_completeness a) (iev_reason ev);
                      request = (inp_request (acc_input a))\<lparr>req_completeness := c\<rparr>;
                      a = a\<lparr>acc_completeness := c, acc_input := (acc_input a)\<lparr>inp_request := request\<rparr>\<rparr>
                  in Inl (acc_fail a (iev_reason ev) (Plain ''content inspection did not complete safely'')))
               else if iev_status ev \<noteq> InspectionMatched then Inr a
               else
                 (let c = \<lparr>cand_source = CandidateInspection, cand_id = iev_rule_ids ev ! 0,
                           cand_decision = iev_decision ev, cand_reason = iev_reason ev\<rparr>
                  in addMatches 0 c
                       (noSummary\<lparr>sum_byte_length := unat (iev_scanned_bytes ev),
                          sum_item_count := unat (iev_scanned_items ev)\<rparr>)
                       (iev_rule_ids ev) (addCandidate c a))))"

definition addRepositoryEffect :: "accumulator \<Rightarrow> step" where
  "addRepositoryEffect a =
     (case stopFailure a of
        Inl failure \<Rightarrow> Inl failure
      | Inr a \<Rightarrow>
          (case acc_tool a of
             None \<Rightarrow> Inr a
           | Some t \<Rightarrow>
               if eff_kind (tool_effect t) \<noteq> EffectRepositoryRead \<and> eff_kind (tool_effect t) \<noteq> EffectRepositoryWrite
               then Inr a
               else
                 (let incomplete = Inl (acc_fail a ReasonInspectionIncomplete
                        (Plain ''repository effect evidence is incomplete''))
                  in case inp_repository_effect (acc_input a) of
                       None \<Rightarrow> incomplete
                     | Some r \<Rightarrow>
                         if \<not> rec_complete r then incomplete
                         else
                           (let c = \<lparr>cand_source = CandidateRepositoryEffect, cand_id = ''repository-effect'',
                                     cand_decision = rec_decision r, cand_reason = rec_reason r\<rparr>
                            in addMatches 0 c noSummary (rec_rule_ids r) (addCandidate c a)))))"

definition populateConditionTrace :: "trace_entry \<Rightarrow> condition_evaluation \<Rightarrow> trace_entry" where
  "populateConditionTrace entry condition =
     entry\<lparr>tre_condition := cev_state condition, tre_actual := cev_actual condition,
       tre_required := cev_required condition, tre_complete := cev_complete condition,
       tre_operand := cev_summary condition\<rparr>"

definition addTrace :: "trace_entry \<Rightarrow> accumulator \<Rightarrow> accumulator" where
  "addTrace entry a = a\<lparr>acc_trace := trace_add (acc_trace a) entry\<rparr>"

definition addRuleCandidate :: "compiled_rule \<Rightarrow> trace_entry \<Rightarrow> accumulator \<Rightarrow> accumulator" where
  "addRuleCandidate r entry a =
     (let a = addCandidate \<lparr>cand_source = CandidateRule, cand_id = rul_id (cru_rule r),
                cand_decision = tre_decision entry, cand_reason = tre_reason entry\<rparr> a;
          a = addMatch \<lparr>mtr_id = rul_id (cru_rule r), mtr_decision = tre_decision entry\<rparr> entry a
      in a\<lparr>acc_cache_never := acc_cache_never a \<or> rul_cache (cru_rule r) = CacheNever\<rparr>)"

text \<open>A rule: \<open>Inl\<close> the code the evaluation fails with, \<open>Inr\<close> the accumulator.\<close>

definition ruleOutcome :: "compiled_rule \<Rightarrow> trace_entry \<Rightarrow> condition_evaluation \<Rightarrow> accumulator \<Rightarrow> reason_code + accumulator" where
  "ruleOutcome r entry condition a =
     (let entry = populateConditionTrace entry condition
      in if cev_state condition = ConditionFalse then
           (case stopReason (acc_control a) of
              (reason, control) \<Rightarrow>
                let a = a\<lparr>acc_control := control\<rparr>
                in if reason \<noteq> NoReason then Inl reason else Inr (addTrace entry a))
         else if cev_state condition = ConditionIndeterminate then
           Inr (addRuleCandidate r
             (entry\<lparr>tre_decision := rul_on_indeterminate (cru_rule r), tre_reason := cev_reason condition\<rparr>)
             (a\<lparr>acc_completeness := markEvaluationIncomplete (acc_completeness a) (cev_reason condition)\<rparr>))
         else if cev_state condition = ConditionTrue then
           Inr (addRuleCandidate r
             (entry\<lparr>tre_decision := rul_decision (cru_rule r), tre_reason := candidateReason (rul_decision (cru_rule r))\<rparr>) a)
         else Inl ReasonInternalInvariant)"

definition ruleEntry :: "compiled_rule \<Rightarrow> string \<Rightarrow> trace_entry" where
  "ruleEntry r toolID =
     \<lparr>tre_rule_id = rul_id (cru_rule r), tre_tool_id = toolID, tre_selector = SelectorUnmatched,
      tre_condition = ConditionFalse, tre_decision = DecisionOther [], tre_reason = NoReason,
      tre_actual = ProvenanceUnset, tre_required = ProvenanceUnset, tre_complete = True,
      tre_operand = noSummary, tre_omitted = 0\<rparr>"

definition evaluateRule :: "stdlib \<Rightarrow> compiled_rule \<Rightarrow> accumulator \<Rightarrow> reason_code + accumulator" where
  "evaluateRule lib r a =
     (let entry = ruleEntry r (acc_tool_id a); request = inp_request (acc_input a)
      in if \<not> selectorMatches (rul_selector (cru_rule r)) request (acc_tool_id a) then Inr (addTrace entry a)
         else
           (case stopReason (acc_control a) of
              (reason, control) \<Rightarrow>
                if reason \<noteq> NoReason then Inl reason
                else
                  (case evaluateConditionTreeWithRootsControl lib (cru_condition r) request
                          (rul_decision (cru_rule r)) 1 \<lparr>evs_roots = Some (acc_roots a), evs_control = control\<rparr> of
                     (condition, st) \<Rightarrow>
                       let a = a\<lparr>acc_control := evs_control st,
                             acc_roots := (case evs_roots st of None \<Rightarrow> acc_roots a | Some roots \<Rightarrow> roots)\<rparr>
                       in if evaluationStopped (cev_reason condition) then Inl (cev_reason condition)
                          else if cev_reason condition = ReasonInternalInvariant then Inl ReasonInternalInvariant
                          else ruleOutcome r (entry\<lparr>tre_selector := SelectorMatched\<rparr>) condition a)))"

fun evaluateRulesLoop :: "stdlib \<Rightarrow> nat \<Rightarrow> compiled_rule list \<Rightarrow> accumulator \<Rightarrow> step" where
  "evaluateRulesLoop lib index [] a = Inr a"
| "evaluateRulesLoop lib index (r # rs) a =
     (case pollAt index a of
        Inl failure \<Rightarrow> Inl failure
      | Inr a \<Rightarrow>
          (case evaluateRule lib r a of
             Inl code \<Rightarrow> Inl (acc_fail a code (failureMessage code))
           | Inr a \<Rightarrow> evaluateRulesLoop lib (index + 1) rs a))"

definition evaluateRules :: "stdlib \<Rightarrow> accumulator \<Rightarrow> step" where
  "evaluateRules lib a = evaluateRulesLoop lib 0 (evr_rules (acc_evaluator a)) a"

section \<open>The result\<close>

definition approvalBinding :: "evaluation_input \<Rightarrow> evaluation_result \<Rightarrow> json" where
  "approvalBinding inp res =
     JRecord (text_field ''call_id'' (req_call_id (inp_request inp))
       @ text_field ''request'' (car_identity (res_cache res)) @ text_field ''plan'' (res_plan_identity res)
       @ text_field ''source'' (res_source_identity res) @ texts_field ''rules'' (res_matched_rule_ids res)
       @ text_field ''decision'' (decision_text (res_decision res))
       @ text_field ''state_version'' (req_state_version (inp_request inp)))"

definition approvalRequirementIdentity :: "evaluation_input \<Rightarrow> evaluation_result \<Rightarrow> string" where
  "approvalRequirementIdentity inp res = digestBytes (encode (approvalBinding inp res))"

definition baseResult :: "accumulator \<Rightarrow> evaluation_result" where
  "baseResult a =
     (let candidates = sortCandidates (acc_candidates a); d = cand_decision (candidates ! 0);
          inp = acc_input a; request = inp_request inp
      in \<lparr>res_decision = d, res_reason = cand_reason (candidates ! 0), res_tool_id = acc_tool_id a,
          res_matched_rule_ids = matchedRuleIDs (sortMatchedRules (acc_matched a)), res_candidates = candidates,
          res_budget_candidates = bsn_list (cloneBudgetSnapshot (inp_budget inp)), res_trace = [],
          res_trace_complete = False, res_trace_omitted = 0, res_completeness = acc_completeness a,
          res_policy_digest = req_policy_digest request, res_lock_digest = req_lock_digest request,
          res_plan_identity = evr_identity (acc_evaluator a), res_source_identity = inp_source_identity inp,
          res_cache = noCache, res_required_approval_identity = [], res_inspection = inp_inspection inp,
          res_phase_outcome = phaseOutcome (req_phase request) d, res_failure = None\<rparr>)"

definition completeResult :: "accumulator \<Rightarrow> evaluation_result" where
  "completeResult a =
     (case trace_finish (acc_trace a) of
        (trace, traceComplete, traceOmitted) \<Rightarrow>
          let res = baseResult a
          in res\<lparr>res_trace := trace, res_trace_complete := traceComplete, res_trace_omitted := traceOmitted,
               res_cache := finalizeCacheResult (acc_cache_base a) (acc_cache_never a) (res_decision res)
                 (inp_approval (acc_input a)) (res_completeness res) False\<rparr>)"

text \<open>Sorting and the trace cannot fail, so only the polls between them are visible.\<close>

definition acc_result :: "accumulator \<Rightarrow> evaluation_result" where
  "acc_result a =
     (case stopFailure a of
        Inl failure \<Rightarrow> failure
      | Inr a \<Rightarrow>
          (case stopFailure a of
             Inl failure \<Rightarrow> failure
           | Inr a \<Rightarrow>
               (case stopFailure a of
                  Inl failure \<Rightarrow> failure
                | Inr a \<Rightarrow>
                    let res = completeResult a
                    in if res_decision res = DecisionRequireApproval then
                         (case stopFailure a of
                            Inl failure \<Rightarrow> failure
                          | Inr a \<Rightarrow>
                              res\<lparr>res_required_approval_identity := approvalRequirementIdentity (acc_input a) res\<rparr>)
                       else res)))"

definition evaluatePreparedInput ::
  "stdlib \<Rightarrow> evaluator \<Rightarrow> evaluation_input \<Rightarrow> cache_result \<Rightarrow> control \<Rightarrow> evaluation_result" where
  "evaluatePreparedInput lib e inp cacheBase control =
     (case stoppedEvaluation e inp cacheBase control of
        Inl failure \<Rightarrow> failure
      | Inr control \<Rightarrow>
          (case addInspection (newEvaluationAccumulator e inp cacheBase control) of
             Inl failure \<Rightarrow> failure
           | Inr a \<Rightarrow>
               (case addBudgets a of
                  Inl failure \<Rightarrow> failure
                | Inr a \<Rightarrow>
                    (case addRepositoryEffect a of
                       Inl failure \<Rightarrow> failure
                     | Inr a \<Rightarrow>
                         (case evaluateRules lib a of Inl failure \<Rightarrow> failure | Inr a \<Rightarrow> acc_result a)))))"

definition unavailablePolicy :: "evaluation_input \<Rightarrow> evaluation_result" where
  "unavailablePolicy inp =
     failEvaluation None inp ReasonPolicyMissing (Plain ''compiled action policy is unavailable'')"

definition evaluate :: "stdlib \<Rightarrow> evaluator option \<Rightarrow> evaluation_input \<Rightarrow> control \<Rightarrow> evaluation_result" where
  "evaluate lib e inp control =
     (case e of
        None \<Rightarrow> unavailablePolicy inp
      | Some e \<Rightarrow>
          (case prepareEvaluation e inp control of
             (Inl failure, control) \<Rightarrow> failure
           | (Inr p, control) \<Rightarrow> evaluatePreparedInput lib e (ppd_input p) (ppd_cache p) control))"

end
