(* ===== verification/Action_Decision.thy ===== *)
theory Action_Decision
  imports Action_Evaluator
begin

text \<open>
  What an evaluation decides. Whatever the control does, an evaluation ends with a failure that
  blocks and is not cached, or with the strongest of its candidates; a decision is cacheable only
  under the conditions of the cache identity. Under a control that never fires the candidates
  are exactly those of a specification that evaluates every rule by itself.
\<close>

section \<open>Steps keep the frame\<close>

definition is_failure :: "evaluation_result \<Rightarrow> bool" where
  "is_failure res \<longleftrightarrow> (\<exists>e inp code message cache. res = failEvaluationWithCache e inp code message cache)"

definition extends :: "trace_collector \<Rightarrow> trace_collector \<Rightarrow> bool" where
  "extends c d \<longleftrightarrow> (\<exists>es. d = fold (\<lambda>e c. trace_add c e) es c)"

lemma extends_refl [simp]: "extends c c"
  unfolding extends_def by (rule exI [of _ "[]"]) simp

lemma extends_add [simp]: "extends c (trace_add c e)"
  unfolding extends_def by (rule exI [of _ "[e]"]) simp

lemma extends_trans: "extends a b \<Longrightarrow> extends b c \<Longrightarrow> extends a c"
  unfolding extends_def by (metis fold_append comp_apply)

definition frame :: "accumulator \<Rightarrow> accumulator \<Rightarrow> bool" where
  "frame a b \<longleftrightarrow>
     acc_evaluator b = acc_evaluator a \<and> acc_input b = acc_input a \<and> acc_tool b = acc_tool a
     \<and> acc_tool_id b = acc_tool_id a \<and> acc_cache_base b = acc_cache_base a \<and> acc_budgets b = acc_budgets a
     \<and> set (acc_candidates a) \<subseteq> set (acc_candidates b)
     \<and> extends (acc_trace a) (acc_trace b)"

definition step_ok :: "accumulator \<Rightarrow> step \<Rightarrow> bool" where
  "step_ok a s \<longleftrightarrow> (case s of Inl failure \<Rightarrow> is_failure failure | Inr b \<Rightarrow> frame a b)"

lemma frame_refl [simp]: "frame a a"
  by (simp add: frame_def)

lemma frame_trans: "frame a b \<Longrightarrow> frame b c \<Longrightarrow> frame a c"
  unfolding frame_def by (auto intro: extends_trans)

lemma step_ok_simps [simp]:
  "step_ok a (Inl f) \<longleftrightarrow> is_failure f" "step_ok a (Inr b) \<longleftrightarrow> frame a b"
  by (simp_all add: step_ok_def)

lemma step_ok_trans: "frame a b \<Longrightarrow> step_ok b s \<Longrightarrow> step_ok a s"
  by (cases s) (auto intro: frame_trans)

lemma failure_is_failure [simp]:
  "is_failure (failEvaluationWithCache e inp code message cache)" "is_failure (failEvaluation e inp code message)"
  "is_failure (acc_fail a code message)"
  unfolding is_failure_def failEvaluation_def acc_fail_def by blast+

lemma frame_updates [simp]:
  "frame a (a\<lparr>acc_control := control\<rparr>)" "frame a (a\<lparr>acc_control := control, acc_roots := roots\<rparr>)"
  "frame a (a\<lparr>acc_completeness := c\<rparr>)" "frame a (a\<lparr>acc_cache_never := n\<rparr>)"
  "frame a (addCandidate cand a)" "frame a (addMatch m entry a)" "frame a (addTrace entry a)"
  by (auto simp: frame_def addCandidate_def addMatch_def addTrace_def)

lemma stoppedEvaluation_cases:
  "case stoppedEvaluation e inp cache control of Inl f \<Rightarrow> is_failure f | Inr control' \<Rightarrow> True"
  by (auto simp: stoppedEvaluation_def split: prod.splits)

lemma stopFailure_ok: "step_ok a (stopFailure a)"
  by (auto simp: stopFailure_def stoppedEvaluation_def split: prod.splits)

lemma pollAt_ok: "step_ok a (pollAt index a)"
  by (simp add: pollAt_def stopFailure_ok)

lemma addBudgetsLoop_ok: "step_ok a (addBudgetsLoop index bs a)"
proof (induction index bs a rule: addBudgetsLoop.induct)
  case (2 index b bs a)
  show ?case
  proof (cases "pollAt index a")
    case (Inr a1)
    have "frame a a1" using pollAt_ok [of a index] Inr by simp
    then have "frame a (if bc_available b then a1 else addCandidate c a1)" for c
      using frame_trans frame_updates(5) by (metis (full_types))
    then show ?thesis unfolding addBudgetsLoop.simps Inr sum.case
      by (rule step_ok_trans [OF _ "2.IH" [OF Inr]])
  qed (use pollAt_ok [of a index] in simp)
qed simp

lemma addMatches_ok: "step_ok a (addMatches index c operand ids a)"
proof (induction index c operand ids a rule: addMatches.induct)
  case (2 index c operand r ids a)
  show ?case
  proof (cases "pollAt index a")
    case (Inr a1)
    have "frame a a1" using pollAt_ok [of a index] Inr by simp
    then have "frame a (addMatch m entry a1)" for m entry using frame_trans frame_updates(6) by blast
    then show ?thesis using "2.IH" [OF Inr] Inr by (auto intro: step_ok_trans)
  qed (use pollAt_ok [of a index] in simp)
qed simp

lemma addInspection_ok: "step_ok a (addInspection a)"
proof (cases "stopFailure a")
  case (Inl f)
  then show ?thesis using stopFailure_ok [of a] by (simp add: addInspection_def)
next
  case (Inr b)
  then have f: "frame a b" using stopFailure_ok [of a] by simp
  then have "frame a (addCandidate c b)" for c using frame_trans frame_updates(5) by blast
  then have "step_ok a (addMatches 0 c operand ids (addCandidate c b))" for c operand ids
    using addMatches_ok step_ok_trans by blast
  then show ?thesis using f Inr by (auto simp: addInspection_def Let_def split: option.splits)
qed

lemma addRepositoryEffect_ok: "step_ok a (addRepositoryEffect a)"
proof (cases "stopFailure a")
  case (Inl f)
  then show ?thesis using stopFailure_ok [of a] by (simp add: addRepositoryEffect_def)
next
  case (Inr b)
  then have f: "frame a b" using stopFailure_ok [of a] by simp
  then have "frame a (addCandidate c b)" for c using frame_trans frame_updates(5) by blast
  then have "step_ok a (addMatches 0 c operand ids (addCandidate c b))" for c operand ids
    using addMatches_ok step_ok_trans by blast
  then show ?thesis using f Inr by (auto simp: addRepositoryEffect_def Let_def split: option.splits)
qed

lemma addRuleCandidate_frame: "frame a (addRuleCandidate r entry a)"
proof -
  have "frame a (addMatch m entry (addCandidate c a))" for m c
    using frame_trans frame_updates(5,6) by blast
  then show ?thesis unfolding addRuleCandidate_def Let_def using frame_trans frame_updates(4) by blast
qed

lemma ruleOutcome_frame: "ruleOutcome r entry condition a = Inr b \<Longrightarrow> frame a b"
proof -
  assume b: "ruleOutcome r entry condition a = Inr b"
  have 1: "frame a (addTrace entry' (a\<lparr>acc_control := control\<rparr>))" for entry' control
    using frame_trans frame_updates(1,7) by blast
  have 2: "frame a (addRuleCandidate r entry' (a\<lparr>acc_completeness := c\<rparr>))" for entry' c
    using frame_trans [OF frame_updates(3)] addRuleCandidate_frame by blast
  show ?thesis using b 1 2 addRuleCandidate_frame
    by (auto simp: ruleOutcome_def Let_def split: if_splits prod.splits)
qed

lemma evaluateRule_frame: "evaluateRule lib r a = Inr b \<Longrightarrow> frame a b"
proof -
  assume b: "evaluateRule lib r a = Inr b"
  have 1: "ruleOutcome r entry condition (a\<lparr>acc_control := c, acc_roots := roots\<rparr>) = Inr b \<Longrightarrow> frame a b"
    for entry condition c roots
    using frame_trans [OF frame_updates(2) ruleOutcome_frame] by blast
  show ?thesis using b 1 by (auto simp: evaluateRule_def Let_def split: if_splits prod.splits option.splits)
qed

lemma evaluateRulesLoop_ok: "step_ok a (evaluateRulesLoop lib index rs a)"
proof (induction lib index rs a rule: evaluateRulesLoop.induct)
  case (2 lib index r rs a)
  show ?case
  proof (cases "pollAt index a")
    case (Inr a1)
    have f: "frame a a1" using pollAt_ok [of a index] Inr by simp
    show ?thesis
    proof (cases "evaluateRule lib r a1")
      case rule: (Inr a2)
      have "frame a a2" using f evaluateRule_frame [OF rule] by (rule frame_trans)
      then show ?thesis using "2.IH" [OF Inr rule] Inr rule by (auto intro: step_ok_trans)
    qed (simp add: Inr)
  qed (use pollAt_ok [of a index] in simp)
qed simp


section \<open>Every result\<close>

text \<open>The accumulator that the rules end with, or the failure before it.\<close>

definition accumulated :: "stdlib \<Rightarrow> accumulator \<Rightarrow> step" where
  "accumulated lib a =
     (case addInspection a of
        Inl f \<Rightarrow> Inl f
      | Inr a \<Rightarrow>
          (case addBudgets a of
             Inl f \<Rightarrow> Inl f
           | Inr a \<Rightarrow>
               (case addRepositoryEffect a of Inl f \<Rightarrow> Inl f | Inr a \<Rightarrow> evaluateRules lib a)))"

lemma evaluatePreparedInput_accumulated:
  "evaluatePreparedInput lib e inp cacheBase control =
     (case stoppedEvaluation e inp cacheBase control of
        Inl f \<Rightarrow> f
      | Inr control \<Rightarrow>
          (case accumulated lib (newEvaluationAccumulator e inp cacheBase control) of
             Inl f \<Rightarrow> f | Inr a \<Rightarrow> acc_result a))"
  by (simp add: evaluatePreparedInput_def accumulated_def split: sum.split)

lemma accumulated_ok: "step_ok a (accumulated lib a)"
proof -
  have 1: "step_ok a (addBudgets a)" for a by (simp add: addBudgets_def addBudgetsLoop_ok)
  have 2: "step_ok a (evaluateRules lib a)" for a by (simp add: evaluateRules_def evaluateRulesLoop_ok)
  show ?thesis
    using addInspection_ok [of a] 1 addRepositoryEffect_ok 2
    unfolding accumulated_def by (auto split: sum.split intro: step_ok_trans frame_trans) (metis frame_trans step_ok_simps(1,2) step_ok_trans)+
qed


definition result_of :: "accumulator \<Rightarrow> evaluation_result \<Rightarrow> bool" where
  "result_of a res \<longleftrightarrow>
     res_failure res = None \<and> res_candidates res = sortCandidates (acc_candidates a)
     \<and> res_decision res = cand_decision (res_candidates res ! 0) \<and> res_reason res = cand_reason (res_candidates res ! 0)
     \<and> res_completeness res = acc_completeness a
     \<and> (res_trace res, res_trace_complete res, res_trace_omitted res) = trace_finish (acc_trace a)
     \<and> res_cache res = finalizeCacheResult (acc_cache_base a) (acc_cache_never a) (res_decision res)
          (inp_approval (acc_input a)) (acc_completeness a) False
     \<and> res_phase_outcome res = phaseOutcome (req_phase (inp_request (acc_input a))) (res_decision res)
     \<and> res_matched_rule_ids res = matchedRuleIDs (sortMatchedRules (acc_matched a))"

lemma stopFailure_Inr: "stopFailure a = Inr b \<Longrightarrow> \<exists>c. b = a\<lparr>acc_control := c\<rparr>"
  by (auto simp: stopFailure_def split: sum.splits)

lemma completeResult_of: "result_of a (completeResult a)"
  by (cases "trace_finish (acc_trace a)") (simp add: completeResult_def result_of_def baseResult_def Let_def)

lemma completeResult_control: "completeResult (a\<lparr>acc_control := c\<rparr>) = completeResult a"
  by (simp add: completeResult_def baseResult_def Let_def)

lemma acc_result_cases: "is_failure (acc_result a) \<or> result_of a (acc_result a)"
proof -
  have failed: "is_failure f" if "stopFailure b = Inl f" for b f
    using stopFailure_ok [of b] that by simp
  have keep: "result_of a (res\<lparr>res_required_approval_identity := i\<rparr>)" if "result_of a res" for res i
    using that by (simp add: result_of_def)
  show ?thesis
  proof (cases "stopFailure a")
    case 1: (Inr a1)
    show ?thesis
    proof (cases "stopFailure a1")
      case 2: (Inr a2)
      show ?thesis
      proof (cases "stopFailure a2")
        case 3: (Inr a3)
        have c: "completeResult a3 = completeResult a"
          using stopFailure_Inr [OF 1] stopFailure_Inr [OF 2] stopFailure_Inr [OF 3] by (auto simp: completeResult_control)
        show ?thesis
        proof (cases "stopFailure a3")
          case 4: (Inr a4)
          have "acc_result a = completeResult a
              \<or> (\<exists>i. acc_result a = (completeResult a)\<lparr>res_required_approval_identity := i\<rparr>)"
            using 1 2 3 4 c by (simp add: acc_result_def Let_def) blast
          then show ?thesis using completeResult_of keep by metis
        next
          case (Inl f)
          then show ?thesis using 1 2 3 c failed completeResult_of by (simp add: acc_result_def Let_def)
        qed
      qed (use 1 2 failed in \<open>simp add: acc_result_def\<close>)
    qed (use 1 failed in \<open>simp add: acc_result_def\<close>)
  qed (use failed in \<open>simp add: acc_result_def\<close>)
qed

lemma failure_sel:
  assumes "is_failure res"
  shows "res_decision res = DecisionBlock" "res_failure res \<noteq> None" "\<not> car_eligible (res_cache res)"
    "\<exists>phase. res_phase_outcome res = phaseOutcome phase DecisionBlock" "res_trace res = []"
  using assms by (auto simp: is_failure_def failEvaluationWithCache_def Let_def)

lemma blocked_outcome:
  "phaseOutcome phase DecisionBlock \<notin> {OutcomeDispatchEligible, OutcomeDeliveryEligible, OutcomeProgressEligible}"
  by (cases phase) (auto simp: phaseOutcome_def)

lemma stopped_failure: "stoppedEvaluation e inp cache control = Inl f \<Longrightarrow> is_failure f"
  using stoppedEvaluation_cases [of e inp cache control] by simp

lemma prepare_cases:
  assumes "prepareEvaluation e inp control = (r, c)"
  shows "case r of
      Inl f \<Rightarrow> is_failure f
    | Inr p \<Rightarrow> normalizeEvaluationInput e inp = Inr (ppd_input p)
        \<and> requestDigestValidated (inp_request (ppd_input p)) = Some (ppd_request_identity p)
        \<and> ppd_cache p = cacheIdentityNormalized e (ppd_input p) (ppd_request_identity p)
             (expectedIdentities e (ppd_input p))
        \<and> preflightFailure (ppd_input p) (expectedIdentities e (ppd_input p)) = NoReason"
  using assms
  by (auto simp: prepareEvaluation_def Let_def dest!: stopped_failure split: sum.splits option.splits if_splits)

lemma evaluate_cases:
  assumes "evaluate lib (Some e) inp control = res"
  obtains (failure) "is_failure res"
    | (result) p c control' a where "prepareEvaluation e inp control = (Inr p, c)"
        "accumulated lib (newEvaluationAccumulator e (ppd_input p) (ppd_cache p) control') = Inr a" "result_of a res"
proof (cases "prepareEvaluation e inp control")
  case (Pair r c)
  show ?thesis
  proof (cases r)
    case (Inl f)
    then show ?thesis using failure prepare_cases [OF Pair] assms Pair by (simp add: evaluate_def)
  next
    case (Inr p)
    then have res: "res = evaluatePreparedInput lib e (ppd_input p) (ppd_cache p) c"
      using assms Pair by (simp add: evaluate_def)
    show ?thesis
    proof (cases "stoppedEvaluation e (ppd_input p) (ppd_cache p) c")
      case Inl
      then show ?thesis using failure stopped_failure [OF Inl] res by (simp add: evaluatePreparedInput_accumulated)
    next
      case go: (Inr control')
      let ?a = "newEvaluationAccumulator e (ppd_input p) (ppd_cache p) control'"
      show ?thesis
      proof (cases "accumulated lib ?a")
        case Inl
        then show ?thesis
          using failure accumulated_ok [of ?a lib] res go by (simp add: evaluatePreparedInput_accumulated)
      next
        case acc: (Inr a)
        then have "res = acc_result a" using res go by (simp add: evaluatePreparedInput_accumulated)
        then show ?thesis using acc_result_cases [of a] failure result Pair Inr acc by auto
      qed
    qed
  qed
qed

section \<open>The strongest candidate\<close>

lemma sortCandidates_set [simp]: "set (sortCandidates cs) = set cs"
  by (simp add: sortCandidates_def)

lemma sortCandidates_head:
  assumes "c \<in> set cs"
  shows "strength (cand_decision c) \<le> strength (cand_decision (sortCandidates cs ! 0))"
proof -
  let ?k = "\<lambda>c. (- strength (cand_decision c), candidateOrder c)"
  have "c \<in> set (sortCandidates cs)" using assms by simp
  then obtain i where i: "i < length (sortCandidates cs)" "sortCandidates cs ! i = c"
    by (metis in_set_conv_nth)
  have "sorted (map ?k (sortCandidates cs))" by (simp add: sortCandidates_def)
  then have "?k (sortCandidates cs ! 0) \<le> ?k (sortCandidates cs ! i)" using i sorted_nth_mono
    by (metis (no_types, lifting) le0 length_map nth_map order_le_less_trans)
  then show ?thesis using i by (auto simp: less_eq_prod_def)
qed

lemma result_strongest:
  assumes "result_of a res" and "c \<in> set (acc_candidates a)"
  shows "res_candidates res \<noteq> []" "set (res_candidates res) = set (acc_candidates a)"
    "strength (cand_decision c) \<le> strength (res_decision res)"
    "\<exists>d \<in> set (acc_candidates a). cand_decision d = res_decision res \<and> cand_reason d = res_reason res"
proof -
  have cs: "res_candidates res = sortCandidates (acc_candidates a)" using assms(1) by (simp add: result_of_def)
  show ne: "res_candidates res \<noteq> []" using assms(2) cs by (metis empty_iff list.set(1) sortCandidates_set)
  show "set (res_candidates res) = set (acc_candidates a)" by (simp add: cs)
  show "strength (cand_decision c) \<le> strength (res_decision res)"
    using sortCandidates_head [OF assms(2)] assms(1) by (simp add: result_of_def)
  have "res_candidates res ! 0 \<in> set (acc_candidates a)" using ne cs by (metis length_greater_0_conv nth_mem sortCandidates_set)
  then show "\<exists>d \<in> set (acc_candidates a). cand_decision d = res_decision res \<and> cand_reason d = res_reason res"
    using assms(1) by (auto simp: result_of_def)
qed

lemma new_accumulator_sel:
  "acc_input (newEvaluationAccumulator e inp cache control) = inp"
  "acc_evaluator (newEvaluationAccumulator e inp cache control) = e"
  "acc_cache_base (newEvaluationAccumulator e inp cache control) = cache"
  "acc_trace (newEvaluationAccumulator e inp cache control) = newTraceCollector"
  "acc_control (newEvaluationAccumulator e inp cache control) = control"
  "acc_roots (newEvaluationAccumulator e inp cache control) = noRoots"
  "acc_tool (newEvaluationAccumulator e inp cache control) = fst (selectTool e (inp_request inp))"
  "acc_tool_id (newEvaluationAccumulator e inp cache control) = snd (selectTool e (inp_request inp))"
  "acc_budgets (newEvaluationAccumulator e inp cache control) = bsn_list (inp_budget inp)"
  "acc_candidates (newEvaluationAccumulator e inp cache control)
     = [baselineCandidate e (inp_request inp) (fst (selectTool e (inp_request inp)))]"
  by (simp_all add: newEvaluationAccumulator_def cloneBudgetSnapshot_def bsn_list_def split: prod.split option.split)

text \<open>
  C6: whatever the control does, an evaluation either fails, and then it blocks, is never
  cacheable and permits no phase to proceed, or it decides by its strongest candidate, the
  baseline of the plan being one of them.
\<close>

theorem evaluation_fails_closed:
  assumes "evaluate lib (Some e) inp control = res"
  shows "if res_failure res \<noteq> None
    then res_decision res = DecisionBlock \<and> \<not> car_eligible (res_cache res)
      \<and> res_phase_outcome res \<notin> {OutcomeDispatchEligible, OutcomeDeliveryEligible, OutcomeProgressEligible}
    else (\<forall>c \<in> set (res_candidates res). strength (cand_decision c) \<le> strength (res_decision res))
      \<and> (\<exists>c \<in> set (res_candidates res). cand_decision c = res_decision res \<and> cand_reason c = res_reason res)
      \<and> (\<exists>inp'. normalizeEvaluationInput e inp = Inr inp'
           \<and> baselineCandidate e (inp_request inp') (fst (selectTool e (inp_request inp'))) \<in> set (res_candidates res))"
  using assms
proof (cases rule: evaluate_cases)
  case failure
  then show ?thesis using failure_sel [OF failure] blocked_outcome by metis
next
  case (result p c control' a)
  let ?b = "baselineCandidate e (inp_request (ppd_input p)) (fst (selectTool e (inp_request (ppd_input p))))"
  have fr: "frame (newEvaluationAccumulator e (ppd_input p) (ppd_cache p) control') a"
    using accumulated_ok [of "newEvaluationAccumulator e (ppd_input p) (ppd_cache p) control'" lib] result(2) by simp
  then have b: "?b \<in> set (acc_candidates a)" by (simp add: frame_def new_accumulator_sel)
  note s = result_strongest [OF result(3)]
  have "normalizeEvaluationInput e inp = Inr (ppd_input p)" using prepare_cases [OF result(1)] by simp
  moreover have "res_failure res = None" using result(3) by (simp add: result_of_def)
  ultimately show ?thesis using s(2) [OF b] s(3) s(4) [OF b] b by auto
qed


section \<open>What may be cached\<close>

lemma verify_resampled_iff: "verifyResampledIdentitiesExpected actual expected = NoReason \<longleftrightarrow> actual = expected"
proof
  assume "verifyResampledIdentitiesExpected actual expected = NoReason"
  then show "actual = expected"
    unfolding verifyResampledIdentitiesExpected_def
    by (intro identity_snapshot.equality) (simp_all split: if_splits)
qed (simp add: verifyResampledIdentitiesExpected_def)

lemma cache_base_eligible:
  "car_eligible (cacheIdentityNormalized e inp requestIdentity expected) \<longleftrightarrow>
     inp_lifecycle inp = LifecycleActive \<and> req_deadline (inp_request inp) = DeadlineReady
     \<and> def_cache (pln_defaults (evr_plan e)) \<noteq> CacheNever
     \<and> evidence_complete (req_completeness (inp_request inp))
     \<and> (\<forall>entry \<in> set (req_context (inp_request inp)). ctx_available entry)
     \<and> tns_status (inp_taint inp) = TaintClean \<and> inp_resampled inp = expected"
  by (auto simp: cacheIdentityNormalized_def cacheIdentityWithReason_def cacheReasonOf_def Let_def list_ex_iff
      verify_resampled_iff split: if_splits)

lemma finalize_eligible:
  "car_eligible (finalizeCacheResult base never d approval c False) \<Longrightarrow>
     car_eligible base \<and> evidence_complete c \<and> \<not> never
     \<and> (d = DecisionRequireApproval \<longrightarrow> aps_status approval = ApprovalCurrentUnconsumed)
     \<and> finalizeCacheResult base never d approval c False = base"
  by (auto simp: finalizeCacheResult_def split: if_splits)

text \<open>
  C13: a result is cacheable only when nothing that it depends on is unsettled: no failure, no
  missing evidence, an active lifecycle before the deadline, a plan that allows caching, every
  context value available, no taint, identities resampled exactly as expected, and, for an
  approval, a current one that is not consumed. Its cache key is then the digest of the binding
  of the normalized input.
\<close>

theorem cacheable_only_if_settled:
  assumes "evaluate lib (Some e) inp control = res" and el: "car_eligible (res_cache res)"
  shows "res_failure res = None \<and> evidence_complete (res_completeness res)
    \<and> (\<exists>inp' requestIdentity. normalizeEvaluationInput e inp = Inr inp'
        \<and> inp_lifecycle inp' = LifecycleActive \<and> req_deadline (inp_request inp') = DeadlineReady
        \<and> def_cache (pln_defaults (evr_plan e)) \<noteq> CacheNever
        \<and> (\<forall>entry \<in> set (req_context (inp_request inp')). ctx_available entry)
        \<and> tns_status (inp_taint inp') = TaintClean \<and> inp_resampled inp' = expectedIdentities e inp'
        \<and> (res_decision res = DecisionRequireApproval \<longrightarrow> aps_status (inp_approval inp') = ApprovalCurrentUnconsumed)
        \<and> requestDigestValidated (inp_request inp') = Some requestIdentity
        \<and> car_identity (res_cache res)
            = digestBytes (encode (cacheBinding e inp' requestIdentity (expectedIdentities e inp'))))"
  using assms(1)
proof (cases rule: evaluate_cases)
  case failure
  then show ?thesis using failure_sel(3) el by blast
next
  case (result p c control' a)
  have fr: "frame (newEvaluationAccumulator e (ppd_input p) (ppd_cache p) control') a"
    using accumulated_ok [of "newEvaluationAccumulator e (ppd_input p) (ppd_cache p) control'" lib] result(2) by simp
  then have base: "acc_cache_base a = ppd_cache p" "acc_input a = ppd_input p"
    by (simp_all add: frame_def new_accumulator_sel)
  have cache: "res_cache res = finalizeCacheResult (ppd_cache p) (acc_cache_never a) (res_decision res)
      (inp_approval (ppd_input p)) (res_completeness res) False" "res_failure res = None"
    using result(3) base by (simp_all add: result_of_def)
  note fin = finalize_eligible [OF el [unfolded cache(1)]]
  note prep = prepare_cases [OF result(1), simplified]
  have "car_identity (ppd_cache p)
      = digestBytes (encode (cacheBinding e (ppd_input p) (ppd_request_identity p) (expectedIdentities e (ppd_input p))))"
    using prep by (simp add: cacheIdentityNormalized_def cacheIdentityWithReason_def)
  then show ?thesis using fin prep cache cache_base_eligible
    by (intro conjI exI [of _ "ppd_input p"] exI [of _ "ppd_request_identity p"]) auto
qed


section \<open>The candidates of an undisturbed evaluation\<close>

text \<open>The condition of a rule, evaluated by itself, without memo, control or skipping.\<close>

definition rule_condition :: "stdlib \<Rightarrow> request \<Rightarrow> compiled_rule \<Rightarrow> condition_evaluation" where
  "rule_condition lib request r = plainTree lib request (rul_decision (cru_rule r)) False True (cru_condition r) 1"

definition rule_broken :: "stdlib \<Rightarrow> request \<Rightarrow> string \<Rightarrow> compiled_rule \<Rightarrow> bool" where
  "rule_broken lib request toolID r \<longleftrightarrow>
     selectorMatches (rul_selector (cru_rule r)) request toolID
     \<and> cev_reason (rule_condition lib request r) = ReasonInternalInvariant"

definition rule_candidates :: "stdlib \<Rightarrow> request \<Rightarrow> string \<Rightarrow> compiled_rule \<Rightarrow> candidate list" where
  "rule_candidates lib request toolID r =
     (if \<not> selectorMatches (rul_selector (cru_rule r)) request toolID then []
      else
        (case cev_state (rule_condition lib request r) of
           ConditionTrue \<Rightarrow>
             [\<lparr>cand_source = CandidateRule, cand_id = rul_id (cru_rule r), cand_decision = rul_decision (cru_rule r),
               cand_reason = candidateReason (rul_decision (cru_rule r))\<rparr>]
         | ConditionIndeterminate \<Rightarrow>
             [\<lparr>cand_source = CandidateRule, cand_id = rul_id (cru_rule r),
               cand_decision = rul_on_indeterminate (cru_rule r),
               cand_reason = cev_reason (rule_condition lib request r)\<rparr>]
         | _ \<Rightarrow> []))"

definition budget_candidates :: "budget_candidate list \<Rightarrow> candidate list" where
  "budget_candidates bs =
     map (\<lambda>b. \<lparr>cand_source = CandidateBudget, cand_id = bc_budget_id b, cand_decision = DecisionBlock,
       cand_reason = ReasonBudgetExhausted\<rparr>) (filter (\<lambda>b. \<not> bc_available b) bs)"

definition inspection_candidates :: "inspection_evidence option \<Rightarrow> candidate list" where
  "inspection_candidates evidence =
     (case evidence of
        None \<Rightarrow> []
      | Some ev \<Rightarrow>
          if iev_status ev = InspectionMatched
          then [\<lparr>cand_source = CandidateInspection, cand_id = iev_rule_ids ev ! 0, cand_decision = iev_decision ev,
                 cand_reason = iev_reason ev\<rparr>]
          else [])"

definition inspection_blocked :: "inspection_evidence option \<Rightarrow> bool" where
  "inspection_blocked evidence \<longleftrightarrow> (\<exists>ev. evidence = Some ev \<and> iev_status ev = InspectionIncomplete)"

definition repository_tool :: "tool option \<Rightarrow> bool" where
  "repository_tool t \<longleftrightarrow>
     (\<exists>t'. t = Some t' \<and> eff_kind (tool_effect t') \<in> {EffectRepositoryRead, EffectRepositoryWrite})"

definition effect_blocked :: "tool option \<Rightarrow> repository_effect_candidate option \<Rightarrow> bool" where
  "effect_blocked t effect \<longleftrightarrow> repository_tool t \<and> (case effect of None \<Rightarrow> True | Some r \<Rightarrow> \<not> rec_complete r)"

definition effect_candidates :: "tool option \<Rightarrow> repository_effect_candidate option \<Rightarrow> candidate list" where
  "effect_candidates t effect =
     (if repository_tool t
      then (case effect of
          None \<Rightarrow> []
        | Some r \<Rightarrow> [\<lparr>cand_source = CandidateRepositoryEffect, cand_id = ''repository-effect'',
                     cand_decision = rec_decision r, cand_reason = rec_reason r\<rparr>])
      else [])"

definition spec_candidates :: "stdlib \<Rightarrow> evaluator \<Rightarrow> evaluation_input \<Rightarrow> candidate list" where
  "spec_candidates lib e inp =
     (case selectTool e (inp_request inp) of
        (t, toolID) \<Rightarrow>
          [baselineCandidate e (inp_request inp) t] @ inspection_candidates (inp_inspection inp)
          @ budget_candidates (bsn_list (inp_budget inp)) @ effect_candidates t (inp_repository_effect inp)
          @ List.concat (map (rule_candidates lib (inp_request inp) toolID) (evr_rules e)))"

definition spec_blocked :: "stdlib \<Rightarrow> evaluator \<Rightarrow> evaluation_input \<Rightarrow> bool" where
  "spec_blocked lib e inp \<longleftrightarrow>
     inspection_blocked (inp_inspection inp)
     \<or> effect_blocked (fst (selectTool e (inp_request inp))) (inp_repository_effect inp)
     \<or> list_ex (rule_broken lib (inp_request inp) (snd (selectTool e (inp_request inp)))) (evr_rules e)"

subsection \<open>Refinement\<close>

definition acc_ok :: "accumulator \<Rightarrow> bool" where
  "acc_ok a \<longleftrightarrow> eval_ok (inp_request (acc_input a)) \<lparr>evs_roots = Some (acc_roots a), evs_control = acc_control a\<rparr>"

text \<open>A step of an undisturbed evaluation: it goes on, keeps the frame, and adds these candidates.\<close>

definition goes_on :: "accumulator \<Rightarrow> candidate list \<Rightarrow> step \<Rightarrow> bool" where
  "goes_on a cs s \<longleftrightarrow>
     (\<exists>b. s = Inr b \<and> acc_ok b \<and> frame a b \<and> acc_candidates b = acc_candidates a @ cs)"

lemma goes_on_I: "acc_ok b \<Longrightarrow> frame a b \<Longrightarrow> acc_candidates b = acc_candidates a @ cs \<Longrightarrow> goes_on a cs (Inr b)"
  by (simp add: goes_on_def)

lemma goes_on_trans:
  assumes "acc_ok b" "frame a b" "acc_candidates b = acc_candidates a @ cs" "goes_on b cs' s"
  shows "goes_on a (cs @ cs') s"
  using assms frame_trans by (auto simp: goes_on_def)

lemma acc_ok_updates:
  "acc_ok (addCandidate c a) \<longleftrightarrow> acc_ok a" "acc_ok (addMatch m entry a) \<longleftrightarrow> acc_ok a"
  "acc_ok (addTrace entry a) \<longleftrightarrow> acc_ok a" "acc_ok (a\<lparr>acc_completeness := k\<rparr>) \<longleftrightarrow> acc_ok a"
  "acc_ok (a\<lparr>acc_cache_never := n\<rparr>) \<longleftrightarrow> acc_ok a"
  by (simp_all add: acc_ok_def addCandidate_def addMatch_def addTrace_def)

lemma candidates_updates:
  "acc_candidates (addCandidate c a) = acc_candidates a @ [c]" "acc_candidates (addMatch m entry a) = acc_candidates a"
  "acc_candidates (addTrace entry a) = acc_candidates a"
  by (simp_all add: addCandidate_def addMatch_def addTrace_def)

lemma acc_ok_stop:
  assumes "acc_ok a" "stopReason (acc_control a) = (reason, control)"
  shows "reason = NoReason" "acc_ok (a\<lparr>acc_control := control\<rparr>)"
  using assms quiet_stopReason by (auto simp: acc_ok_def eval_ok_def)

lemma stopFailure_goes_on: "acc_ok a \<Longrightarrow> goes_on a [] (stopFailure a)"
proof -
  assume ok: "acc_ok a"
  obtain reason control where c: "stopReason (acc_control a) = (reason, control)" by (metis prod.exhaust)
  then have "stopFailure a = Inr (a\<lparr>acc_control := control\<rparr>)"
    using acc_ok_stop(1) [OF ok c] by (simp add: stopFailure_def stoppedEvaluation_def)
  then show ?thesis using acc_ok_stop(2) [OF ok c] by (simp add: goes_on_I)
qed

lemma pollAt_goes_on: "acc_ok a \<Longrightarrow> goes_on a [] (pollAt index a)"
  by (simp add: pollAt_def stopFailure_goes_on goes_on_I)

lemma goes_on_poll:
  assumes "acc_ok a" obtains b where "pollAt index a = Inr b" "acc_ok b" "frame a b" "acc_candidates b = acc_candidates a"
  using pollAt_goes_on [OF assms, of index] by (auto simp: goes_on_def)

lemma addBudgetsLoop_goes_on: "acc_ok a \<Longrightarrow> goes_on a (budget_candidates bs) (addBudgetsLoop index bs a)"
proof (induction bs arbitrary: index a)
  case (Cons b bs)
  obtain a1 where a1: "pollAt index a = Inr a1" "acc_ok a1" "frame a a1" "acc_candidates a1 = acc_candidates a"
    using goes_on_poll [OF Cons.prems] by blast
  show ?case
  proof (cases "bc_available b")
    case True
    have "goes_on a ([] @ budget_candidates bs) (addBudgetsLoop (index + 1) bs a1)"
      by (rule goes_on_trans [OF a1(2,3) _ Cons.IH [OF a1(2)]]) (simp add: a1)
    then show ?thesis using True a1(1) by (simp add: budget_candidates_def)
  next
    case False
    define c where "c = \<lparr>cand_source = CandidateBudget, cand_id = bc_budget_id b, cand_decision = DecisionBlock,
      cand_reason = ReasonBudgetExhausted\<rparr>"
    have ok: "acc_ok (addCandidate c a1)" by (simp add: acc_ok_updates a1)
    have "goes_on a ([c] @ budget_candidates bs) (addBudgetsLoop (index + 1) bs (addCandidate c a1))"
      by (rule goes_on_trans [OF ok frame_trans [OF a1(3) frame_updates(5)] _ Cons.IH [OF ok]])
        (simp add: a1 candidates_updates)
    then show ?thesis using False a1(1) by (simp add: budget_candidates_def c_def)
  qed
qed (simp add: goes_on_I budget_candidates_def)

lemma addMatches_goes_on: "acc_ok a \<Longrightarrow> goes_on a [] (addMatches index c operand ids a)"
proof (induction ids arbitrary: index a)
  case (Cons ruleID ids)
  obtain a1 where a1: "pollAt index a = Inr a1" "acc_ok a1" "frame a a1" "acc_candidates a1 = acc_candidates a"
    using goes_on_poll [OF Cons.prems] by blast
  define a2 where "a2 = addMatch \<lparr>mtr_id = ruleID, mtr_decision = cand_decision c\<rparr>
    (matchEntry ruleID (acc_tool_id a1) c operand) a1"
  have ok: "acc_ok a2" by (simp add: a2_def acc_ok_updates a1)
  have f: "frame a a2" unfolding a2_def by (rule frame_trans [OF a1(3) frame_updates(6)])
  have "goes_on a ([] @ []) (addMatches (index + 1) c operand ids a2)"
    by (rule goes_on_trans [OF ok f _ Cons.IH [OF ok]]) (simp add: a2_def a1 candidates_updates)
  then show ?case using a1(1) by (simp add: a2_def)
qed (simp add: goes_on_I)


lemma goes_on_stop:
  assumes "acc_ok a" obtains b where "stopFailure a = Inr b" "acc_ok b" "frame a b" "acc_candidates b = acc_candidates a"
  using stopFailure_goes_on [OF assms] by (auto simp: goes_on_def)

lemma added_matches_go_on:
  assumes "acc_ok b" "frame a b" "acc_candidates b = acc_candidates a"
  shows "goes_on a [c] (addMatches 0 c operand ids (addCandidate c b))"
proof -
  have ok: "acc_ok (addCandidate c b)" by (simp add: acc_ok_updates assms)
  have "goes_on a ([c] @ []) (addMatches 0 c operand ids (addCandidate c b))"
    by (rule goes_on_trans [OF ok frame_trans [OF assms(2) frame_updates(5)] _ addMatches_goes_on [OF ok]])
      (simp add: candidates_updates assms)
  then show ?thesis by simp
qed

lemma addInspection_refines:
  assumes "acc_ok a"
  shows "if inspection_blocked (inp_inspection (acc_input a))
    then \<exists>f. addInspection a = Inl f
    else goes_on a (inspection_candidates (inp_inspection (acc_input a))) (addInspection a)"
proof -
  obtain b where b: "stopFailure a = Inr b" "acc_ok b" "frame a b" "acc_candidates b = acc_candidates a"
    by (rule goes_on_stop [OF assms])
  have inp: "acc_input b = acc_input a" using b(3) by (simp add: frame_def)
  show ?thesis
  proof (cases "inp_inspection (acc_input a)")
    case None
    then show ?thesis using b inp
      by (simp add: addInspection_def inspection_blocked_def inspection_candidates_def goes_on_I)
  next
    case (Some ev)
    then show ?thesis using b inp added_matches_go_on [OF b(2-4)]
      by (auto simp: addInspection_def inspection_blocked_def inspection_candidates_def Let_def intro: goes_on_I)
  qed
qed

lemma addRepositoryEffect_refines:
  assumes "acc_ok a"
  shows "if effect_blocked (acc_tool a) (inp_repository_effect (acc_input a))
    then \<exists>f. addRepositoryEffect a = Inl f
    else goes_on a (effect_candidates (acc_tool a) (inp_repository_effect (acc_input a))) (addRepositoryEffect a)"
proof -
  obtain b where b: "stopFailure a = Inr b" "acc_ok b" "frame a b" "acc_candidates b = acc_candidates a"
    by (rule goes_on_stop [OF assms])
  have eq: "acc_input b = acc_input a" "acc_tool b = acc_tool a" using b(3) by (simp_all add: frame_def)
  show ?thesis
  proof (cases "repository_tool (acc_tool a)")
    case False
    then have "addRepositoryEffect a = Inr b" using b eq
      by (auto simp: addRepositoryEffect_def repository_tool_def split: option.split)
    then show ?thesis using False b by (simp add: effect_blocked_def effect_candidates_def goes_on_I)
  next
    case True
    then obtain t where t: "acc_tool a = Some t" "eff_kind (tool_effect t) \<in> {EffectRepositoryRead, EffectRepositoryWrite}"
      by (auto simp: repository_tool_def)
    show ?thesis
    proof (cases "inp_repository_effect (acc_input a)")
      case None
      then show ?thesis using True t b eq by (auto simp: addRepositoryEffect_def effect_blocked_def Let_def)
    next
      case (Some r)
      then show ?thesis using True t b eq added_matches_go_on [OF b(2-4)]
        by (auto simp: addRepositoryEffect_def effect_blocked_def effect_candidates_def Let_def)
    qed
  qed
qed

lemma rule_condition_shape:
  assumes "eval_ok request st"
  shows "proper (cev_state (rule_condition lib request r))" "\<not> evaluationStopped (cev_reason (rule_condition lib request r))"
proof -
  obtain ev st' where e: "evaluateConditionTreeCore lib request (rul_decision (cru_rule r)) False True (cru_condition r) 1 st = (ev, st')"
    by (metis prod.exhaust)
  have "ev = rule_condition lib request r" "\<not> evaluationStopped (cev_reason ev)"
    using tree_quiet(1) [OF assms e] by (auto simp: rule_condition_def)
  moreover have "evaluation_shape ev" by (rule tree_shape(1) [OF e])
  ultimately show "proper (cev_state (rule_condition lib request r))"
    "\<not> evaluationStopped (cev_reason (rule_condition lib request r))"
    by (auto simp: evaluation_shape_def)
qed

lemma addRuleCandidate_goes_on:
  assumes "acc_ok a"
  shows "acc_ok (addRuleCandidate r entry a)"
    "acc_candidates (addRuleCandidate r entry a)
       = acc_candidates a @ [\<lparr>cand_source = CandidateRule, cand_id = rul_id (cru_rule r),
           cand_decision = tre_decision entry, cand_reason = tre_reason entry\<rparr>]"
  using assms by (simp_all add: addRuleCandidate_def Let_def acc_ok_updates candidates_updates)

lemma ruleOutcome_refines:
  assumes ok: "acc_ok a" and cond: "condition = rule_condition lib (inp_request (acc_input a)) r"
    and sel: "selectorMatches (rul_selector (cru_rule r)) (inp_request (acc_input a)) toolID"
    and shape: "proper (cev_state condition)"
  obtains b where "ruleOutcome r entry condition a = Inr b" "acc_ok b"
    "acc_candidates b = acc_candidates a @ rule_candidates lib (inp_request (acc_input a)) toolID r"
proof -
  note cands = rule_candidates_def [of lib "inp_request (acc_input a)" toolID r, folded cond]
  obtain reason control where c: "stopReason (acc_control a) = (reason, control)" by (metis prod.exhaust)
  consider "cev_state condition = ConditionFalse" | "cev_state condition = ConditionIndeterminate"
    | "cev_state condition = ConditionTrue" using shape by (cases "cev_state condition") (auto simp: proper_def)
  then show ?thesis
  proof cases
    case 1
    then show ?thesis using that acc_ok_stop [OF ok c] c sel cands
      by (simp add: ruleOutcome_def Let_def acc_ok_updates candidates_updates)
  next
    case 2
    have ok': "acc_ok (a\<lparr>acc_completeness := markEvaluationIncomplete (acc_completeness a) (cev_reason condition)\<rparr>)"
      using ok by (simp add: acc_ok_updates)
    show ?thesis using 2 that addRuleCandidate_goes_on [OF ok'] sel cands by (simp add: ruleOutcome_def Let_def)
  next
    case 3
    then show ?thesis using that addRuleCandidate_goes_on [OF ok] sel cands by (simp add: ruleOutcome_def Let_def)
  qed
qed

lemma evaluateRule_refines:
  assumes ok: "acc_ok a"
  shows "if rule_broken lib (inp_request (acc_input a)) (acc_tool_id a) r
    then \<exists>code. evaluateRule lib r a = Inl code
    else \<exists>b. evaluateRule lib r a = Inr b \<and> acc_ok b
      \<and> acc_candidates b = acc_candidates a @ rule_candidates lib (inp_request (acc_input a)) (acc_tool_id a) r"
proof (cases "selectorMatches (rul_selector (cru_rule r)) (inp_request (acc_input a)) (acc_tool_id a)")
  case False
  then show ?thesis using ok
    by (simp add: evaluateRule_def rule_broken_def rule_candidates_def Let_def acc_ok_updates candidates_updates)
next
  case sel: True
  let ?request = "inp_request (acc_input a)"
  obtain reason control where c: "stopReason (acc_control a) = (reason, control)" by (metis prod.exhaust)
  note go = acc_ok_stop [OF ok c]
  let ?st = "\<lparr>evs_roots = Some (acc_roots a), evs_control = control\<rparr>"
  have st: "eval_ok ?request ?st" using go(2) by (simp add: acc_ok_def)
  obtain ev st' where e: "evaluateConditionTreeCore lib ?request (rul_decision (cru_rule r)) False True (cru_condition r) 1 ?st = (ev, st')"
    by (metis prod.exhaust)
  have ev: "ev = rule_condition lib ?request r" and st': "eval_ok ?request st'"
    using tree_quiet(1) [OF st e] by (simp_all add: rule_condition_def)
  define b where "b = a\<lparr>acc_control := evs_control st',
    acc_roots := (case evs_roots st' of None \<Rightarrow> acc_roots a | Some roots \<Rightarrow> roots)\<rparr>"
  have b: "acc_ok b" "acc_candidates b = acc_candidates a" "acc_input b = acc_input a"
    using st' ok by (auto simp: b_def acc_ok_def eval_ok_def split: option.split)
  have run: "evaluateRule lib r a =
      (if cev_reason ev = ReasonInternalInvariant then Inl ReasonInternalInvariant
       else ruleOutcome r ((ruleEntry r (acc_tool_id a))\<lparr>tre_selector := SelectorMatched\<rparr>) ev b)"
    using sel c go(1) e rule_condition_shape(2) [OF st, of lib r]
    by (simp add: evaluateRule_def evaluateConditionTreeWithRootsControl_def Let_def b_def ev)
  show ?thesis
  proof (cases "cev_reason ev = ReasonInternalInvariant")
    case True
    then show ?thesis using run sel ev by (simp add: rule_broken_def)
  next
    case False
    obtain b' where "ruleOutcome r ((ruleEntry r (acc_tool_id a))\<lparr>tre_selector := SelectorMatched\<rparr>) ev b = Inr b'"
      "acc_ok b'" "acc_candidates b' = acc_candidates b @ rule_candidates lib ?request (acc_tool_id a) r"
      by (rule ruleOutcome_refines [OF b(1), of ev lib r "acc_tool_id a"])
        (use ev sel b rule_condition_shape(1) [OF st] in auto)
    then show ?thesis using run False ev b by (simp add: rule_broken_def)
  qed
qed

lemma evaluateRulesLoop_refines:
  assumes "acc_ok a"
  shows "if list_ex (rule_broken lib (inp_request (acc_input a)) (acc_tool_id a)) rs
    then \<exists>f. evaluateRulesLoop lib index rs a = Inl f
    else goes_on a (List.concat (map (rule_candidates lib (inp_request (acc_input a)) (acc_tool_id a)) rs))
      (evaluateRulesLoop lib index rs a)"
  using assms
proof (induction rs arbitrary: index a)
  case (Cons r rs)
  obtain a1 where a1: "pollAt index a = Inr a1" "acc_ok a1" "frame a a1" "acc_candidates a1 = acc_candidates a"
    using goes_on_poll [OF Cons.prems] by blast
  have eq1: "acc_input a1 = acc_input a" "acc_tool_id a1 = acc_tool_id a" using a1(3) by (simp_all add: frame_def)
  note rule = evaluateRule_refines [OF a1(2), of lib r, unfolded eq1]
  show ?case
  proof (cases "rule_broken lib (inp_request (acc_input a)) (acc_tool_id a) r")
    case True
    then show ?thesis using rule a1(1) by auto
  next
    case False
    then obtain a2 where a2: "evaluateRule lib r a1 = Inr a2" "acc_ok a2"
      "acc_candidates a2 = acc_candidates a1 @ rule_candidates lib (inp_request (acc_input a)) (acc_tool_id a) r"
      using rule by auto
    have f: "frame a a2" by (rule frame_trans [OF a1(3) evaluateRule_frame [OF a2(1)]])
    have eq2: "acc_input a2 = acc_input a" "acc_tool_id a2 = acc_tool_id a" using f by (simp_all add: frame_def)
    have cs: "acc_candidates a2 = acc_candidates a @ rule_candidates lib (inp_request (acc_input a)) (acc_tool_id a) r"
      using a2(3) a1(4) by simp
    have run: "evaluateRulesLoop lib index (r # rs) a = evaluateRulesLoop lib (index + 1) rs a2"
      using a1(1) a2(1) by simp
    show ?thesis using Cons.IH [OF a2(2), of "index + 1", unfolded eq2] goes_on_trans [OF a2(2) f cs] False run by auto
  qed
qed (simp add: goes_on_I)


lemma accumulated_refines:
  assumes ok: "acc_ok a" and budgets: "acc_budgets a = bsn_list (inp_budget (acc_input a))"
  shows "if inspection_blocked (inp_inspection (acc_input a))
      \<or> effect_blocked (acc_tool a) (inp_repository_effect (acc_input a))
      \<or> list_ex (rule_broken lib (inp_request (acc_input a)) (acc_tool_id a)) (evr_rules (acc_evaluator a))
    then \<exists>f. accumulated lib a = Inl f
    else goes_on a
      (inspection_candidates (inp_inspection (acc_input a)) @ budget_candidates (bsn_list (inp_budget (acc_input a)))
       @ effect_candidates (acc_tool a) (inp_repository_effect (acc_input a))
       @ List.concat (map (rule_candidates lib (inp_request (acc_input a)) (acc_tool_id a)) (evr_rules (acc_evaluator a))))
      (accumulated lib a)"
proof (cases "inspection_blocked (inp_inspection (acc_input a))")
  case True
  then show ?thesis using addInspection_refines [OF ok] by (auto simp: accumulated_def)
next
  case insp: False
  then obtain a1 where a1: "addInspection a = Inr a1" "acc_ok a1" "frame a a1"
    "acc_candidates a1 = acc_candidates a @ inspection_candidates (inp_inspection (acc_input a))"
    using addInspection_refines [OF ok] by (auto simp: goes_on_def)
  then obtain a2 where a2: "addBudgets a1 = Inr a2" "acc_ok a2" "frame a1 a2"
    "acc_candidates a2 = acc_candidates a1 @ budget_candidates (acc_budgets a1)"
    using addBudgetsLoop_goes_on [OF a1(2), of "acc_budgets a1" 0] by (auto simp: goes_on_def addBudgets_def)
  have f2: "frame a a2" by (rule frame_trans [OF a1(3) a2(3)])
  have eq: "acc_input a2 = acc_input a" "acc_tool a2 = acc_tool a" "acc_budgets a1 = acc_budgets a"
    using f2 a1(3) by (simp_all add: frame_def)
  show ?thesis
  proof (cases "effect_blocked (acc_tool a) (inp_repository_effect (acc_input a))")
    case True
    then show ?thesis using addRepositoryEffect_refines [OF a2(2)] a1 a2 eq by (auto simp: accumulated_def)
  next
    case False
    then obtain a3 where a3: "addRepositoryEffect a2 = Inr a3" "acc_ok a3" "frame a2 a3"
      "acc_candidates a3 = acc_candidates a2 @ effect_candidates (acc_tool a) (inp_repository_effect (acc_input a))"
      using addRepositoryEffect_refines [OF a2(2)] eq by (auto simp: goes_on_def)
    have f3: "frame a a3" by (rule frame_trans [OF f2 a3(3)])
    have eq3: "acc_input a3 = acc_input a" "acc_tool_id a3 = acc_tool_id a" "acc_evaluator a3 = acc_evaluator a"
      using f3 by (simp_all add: frame_def)
    have run: "accumulated lib a = evaluateRulesLoop lib 0 (evr_rules (acc_evaluator a)) a3"
      using a1 a2 a3 eq3 by (simp add: accumulated_def evaluateRules_def)
    have cs: "acc_candidates a3 = acc_candidates a @ (inspection_candidates (inp_inspection (acc_input a))
        @ budget_candidates (bsn_list (inp_budget (acc_input a)))
        @ effect_candidates (acc_tool a) (inp_repository_effect (acc_input a)))"
      using a1(4) a2(4) a3(4) eq budgets by simp
    show ?thesis
      using evaluateRulesLoop_refines [OF a3(2), of lib "evr_rules (acc_evaluator a)" 0, unfolded eq3]
        goes_on_trans [OF a3(2) f3 cs] insp False run by (auto split: if_splits)
  qed
qed

lemma acc_result_goes_on:
  assumes "acc_ok a"
  shows "result_of a (acc_result a)"
proof -
  obtain a1 where a1: "stopFailure a = Inr a1" "acc_ok a1" using goes_on_stop [OF assms] by blast
  obtain a2 where a2: "stopFailure a1 = Inr a2" "acc_ok a2" using goes_on_stop [OF a1(2)] by blast
  obtain a3 where a3: "stopFailure a2 = Inr a3" "acc_ok a3" using goes_on_stop [OF a2(2)] by blast
  obtain a4 where a4: "stopFailure a3 = Inr a4" "acc_ok a4" using goes_on_stop [OF a3(2)] by blast
  have "res_failure (completeResult a3) = None" using completeResult_of [of a3] by (simp add: result_of_def)
  then have "res_failure (acc_result a) = None" using a1 a2 a3 a4 by (simp add: acc_result_def Let_def)
  then show ?thesis using acc_result_cases [of a] failure_sel(2) by blast
qed

lemma stoppedEvaluation_quiet: "quiet control \<Longrightarrow> \<exists>c. stoppedEvaluation e inp cache control = Inr c \<and> quiet c"
  using quiet_stopReason by (fastforce simp: stoppedEvaluation_def split: prod.split)

lemma stopped_quiet: "stoppedEvaluation e inp cache control = Inr c \<Longrightarrow> quiet control \<Longrightarrow> quiet c"
  using stoppedEvaluation_quiet [of control e inp cache] by auto

lemma prepare_quiet:
  assumes "quiet control" and "prepareEvaluation e inp control = (r, c)"
  shows "quiet c"
  using assms
  by (auto simp: prepareEvaluation_def Let_def dest!: stopped_quiet split: sum.splits option.splits if_splits)

lemma evaluation_refinement:
  assumes "quiet control" and "prepareEvaluation e inp control = (Inr p, c)"
    and "evaluate lib (Some e) inp control = res"
  shows "if spec_blocked lib e (ppd_input p) then res_failure res \<noteq> None
    else res_failure res = None \<and> res_candidates res = sortCandidates (spec_candidates lib e (ppd_input p))"
proof -
  obtain c' where c': "stoppedEvaluation e (ppd_input p) (ppd_cache p) c = Inr c'" "quiet c'"
    using stoppedEvaluation_quiet prepare_quiet [OF assms(1,2)] by blast
  let ?a = "newEvaluationAccumulator e (ppd_input p) (ppd_cache p) c'"
  have ok: "acc_ok ?a" by (simp add: acc_ok_def new_accumulator_sel eval_ok_start c')
  have run: "res = (case accumulated lib ?a of Inl f \<Rightarrow> f | Inr a \<Rightarrow> acc_result a)"
    using assms(2,3) c' by (simp add: evaluate_def evaluatePreparedInput_accumulated)
  note ref = accumulated_refines [OF ok, of lib, unfolded new_accumulator_sel, OF refl]
  show ?thesis
  proof (cases "spec_blocked lib e (ppd_input p)")
    case True
    then obtain f where f: "accumulated lib ?a = Inl f"
      using ref by (auto simp: spec_blocked_def split: if_splits)
    then have "is_failure f" using accumulated_ok [of ?a lib] by simp
    then show ?thesis using True run f failure_sel(2) by simp
  next
    case False
    then have "goes_on ?a (inspection_candidates (inp_inspection (ppd_input p))
        @ budget_candidates (bsn_list (inp_budget (ppd_input p)))
        @ effect_candidates (fst (selectTool e (inp_request (ppd_input p)))) (inp_repository_effect (ppd_input p))
        @ List.concat (map (rule_candidates lib (inp_request (ppd_input p))
            (snd (selectTool e (inp_request (ppd_input p))))) (evr_rules e))) (accumulated lib ?a)"
      using ref by (auto simp: spec_blocked_def split: if_splits)
    then obtain a where a: "accumulated lib ?a = Inr a" "acc_ok a"
      "acc_candidates a = spec_candidates lib e (ppd_input p)"
      by (auto simp: goes_on_def spec_candidates_def new_accumulator_sel split: prod.split)
    then show ?thesis using False run acc_result_goes_on [OF a(2)] by (simp add: result_of_def)
  qed
qed


text \<open>
  C7: an evaluation that is not interrupted refines its specification: it fails exactly when
  the inspection is incomplete, the evidence on the repository effect of the tool is, or a
  selected rule has a broken condition; otherwise its candidates are the baseline, the matched
  inspection, every exhausted budget, the repository effect, and the decision of every selected
  rule whose condition, evaluated by itself, is true or indeterminate, ordered by strength.
\<close>

theorem evaluation_refines_spec:
  assumes "quiet control" and "prepareEvaluation e inp control = (Inr p, c)"
    and "evaluate lib (Some e) inp control = res"
  shows "if spec_blocked lib e (ppd_input p) then res_failure res \<noteq> None
    else res_failure res = None \<and> res_candidates res = sortCandidates (spec_candidates lib e (ppd_input p))"
  by (rule evaluation_refinement [OF assms])

section \<open>An example\<close>

text \<open>One rule that warns of everything, and an observation of an undeclared host tool.\<close>

definition calm_rule :: compiled_rule where
  "calm_rule =
     \<lparr>cru_rule = \<lparr>rul_id = ''warn-all'',
        rul_selector = \<lparr>sel_tool_ids = [], sel_transports = [], sel_platforms = [], sel_server_labels = [],
          sel_server_fingerprints = [], sel_tools = [], sel_tool_contract_digests = [], sel_phases = []\<rparr>,
        rul_decision = DecisionWarn, rul_on_indeterminate = DecisionBlock, rul_cache = CacheExact,
        rul_source_identity = []\<rparr>,
      cru_condition = None\<rparr>"

definition calm_evaluator :: evaluator where
  "calm_evaluator =
     \<lparr>evr_plan = \<lparr>pln_defaults = FrozenDefaults, pln_tools = [], pln_rules = [], pln_budgets = [], pln_detectors = []\<rparr>,
      evr_rules = [calm_rule], evr_tool_by_exact = (\<lambda>key. None),
      evr_identity = ''sha256:'' @ replicate 64 (CHR ''f'')\<rparr>"

definition calm_request :: request where
  "calm_request = good_request\<lparr>req_completeness := CompleteEvidence\<rparr>"

definition calm_state :: evaluation_input where
  "calm_state =
     \<lparr>inp_request = calm_request, inp_source_identity = replicate 64 (CHR ''a''), inp_context_identity = ''cx'',
      inp_executable_digest = ''absent'', inp_principal = ''op'', inp_credential_labels = [],
      inp_budget = \<lparr>bsn_state_version = ''v1'', bsn_identity = ''absent'', bsn_reservation_identity = ''absent'',
        bsn_complete = True, bsn_candidates = Some []\<rparr>,
      inp_approval = \<lparr>aps_status = ApprovalNone, aps_identity = ''none''\<rparr>,
      inp_taint = \<lparr>tns_status = TaintClean, tns_identity = ''clean''\<rparr>,
      inp_repository_effect = None, inp_inspection = None, inp_lifecycle = LifecycleActive,
      inp_cache_policy_version = CacheIdentityVersion, inp_resampled = no_identities\<rparr>"

definition calm_input :: evaluation_input where
  "calm_input = calm_state\<lparr>inp_resampled := expectedIdentities calm_evaluator calm_state\<rparr>"

lemma calm_request_valid: "validateAndCloneRequest calm_request = Inr calm_request"
proof -
  have m: "validateRequestMetadata calm_request = None"
  proof -
    have "validateRequestMetadata good_request = None"
      using good_request_valid by (auto elim: validate_request_cases)
    then show ?thesis by (simp add: calm_request_def validateRequestMetadata_def
        cong: if_cong split del: if_split)
  qed
  have p: "validatePhasePayload calm_request = Inr 0"
    by (simp add: validatePhasePayload_def good_request_def calm_request_def)
  have x: "cloneContextValues (req_context calm_request) 0 = Inr []"
    by (simp add: cloneContextValues_def good_request_def calm_request_def MaxContextValues_def)
  have c: "normalizeCompleteness (req_completeness calm_request) = Inr (req_completeness calm_request)"
    by (simp add: normalizeCompleteness_def calm_request_def evidence_fields_def CompleteEvidence_def)
  show ?thesis unfolding validateAndCloneRequest_def m p x c option.case sum.case
    by (simp add: calm_request_def good_request_def)
qed

lemma calm_select: "selectTool calm_evaluator r = (None, [])"
  by (simp add: selectTool_def calm_evaluator_def lookupToolIndex_def)

lemma calm_expected: "expectedIdentities calm_evaluator calm_input = inp_resampled calm_input"
  by (simp add: calm_input_def expectedIdentities_def Let_def)

lemma calm_snapshot: "normalizeIdentitySnapshot (inp_resampled calm_input) = Some (inp_resampled calm_input)"
  by (simp add: normalizeIdentitySnapshot_def calm_input_def expectedIdentities_def Let_def calm_state_def calm_request_def
      good_request_def calm_evaluator_def safeStringList_def sha256IdentityPattern_def hasPrefix_def lowerHexLength_def
      lowerHexChar_def ValidIdentity_def lowerHex64_def validOpaqueIdentity_def lowerAlnum_def list_all_iff
      validExecutableSnapshot_def SafeLabel_def kebabLabel_def MaxSafeLabelBytes_def inspectionIdentity_def
      budgetSnapshotZero_def)

lemma calm_normalizes: "normalizeEvaluationInput calm_evaluator calm_input = Inr calm_input"
proof -
  have r: "inp_request calm_input = calm_request" by (simp add: calm_input_def calm_state_def)
  have e: "inspectionExpectation calm_evaluator calm_request = \<lparr>exp_pack_identities = [], exp_field_count = 0\<rparr>"
    by (simp add: inspectionExpectation_def matchingDetectors_def calm_evaluator_def)
  have i: "normalizeInspectionEvidence None \<lparr>exp_pack_identities = [], exp_field_count = 0\<rparr> ph = Inr None" for ph
    by (simp add: normalizeInspectionEvidence_def)
  have ids: "lowerHex64 (replicate 64 (CHR ''a''))" "validOpaqueIdentity ''cx''" "SafeLabel ''op''"
    "validOpaqueIdentity ''none''" "validOpaqueIdentity ''clean''"
    by (simp_all add: lowerHex64_def lowerHexLength_def lowerHexChar_def list_all_iff validOpaqueIdentity_def
        lowerAlnum_def SafeLabel_def kebabLabel_def MaxSafeLabelBytes_def)
  have auth: "mutableAuthorityValid calm_input"
    by (simp add: mutableAuthorityValid_def calm_input_def calm_state_def ids)
  have b: "normalizeBudgetInput calm_evaluator calm_input = Inr calm_input"
  proof -
    have "inp_budget calm_input = \<lparr>bsn_state_version = ''v1'', bsn_identity = ''absent'',
        bsn_reservation_identity = ''absent'', bsn_complete = True, bsn_candidates = Some []\<rparr>"
      "req_state_version calm_request = ''v1''" "matchingBudgets calm_evaluator calm_request [] = []"
      by (simp_all add: calm_input_def calm_state_def calm_request_def good_request_def matchingBudgets_def)
    then show ?thesis
      by (simp add: normalizeBudgetInput_def r calm_select budgetSnapshotZero_def canonicalAbsentBudget_def bsn_list_def)
  qed
  have host: "req_transport calm_request = TransportHostMCP" by (simp add: calm_request_def good_request_def)
  have s: "calm_input\<lparr>inp_request := calm_request\<rparr> = calm_input" "calm_input\<lparr>inp_credential_labels := []\<rparr> = calm_input"
    "calm_input\<lparr>inp_repository_effect := None\<rparr> = calm_input" "calm_input\<lparr>inp_inspection := None\<rparr> = calm_input"
    "calm_input\<lparr>inp_resampled := inp_resampled calm_input\<rparr> = calm_input"
    by (simp_all add: calm_input_def calm_state_def)
  have f: "inp_source_identity calm_input = replicate 64 (CHR ''a'')" "inp_context_identity calm_input = ''cx''"
    "inp_principal calm_input = ''op''" "inp_credential_labels calm_input = []"
    "inp_executable_digest calm_input = ''absent''" "inp_repository_effect calm_input = None"
    "inp_inspection calm_input = None"
    by (simp_all add: calm_input_def calm_state_def)
  show ?thesis unfolding normalizeEvaluationInput_def r calm_request_valid sum.case Let_def s f
    using ids by (simp add: safeStringList_def host s f auth normalizeRepositoryEffect_def r e i b calm_snapshot)
qed

lemma calm_prepares:
  "\<exists>p. prepareEvaluation calm_evaluator calm_input None = (Inr p, None) \<and> ppd_input p = calm_input"
proof -
  have r: "inp_request calm_input = calm_request" by (simp add: calm_input_def calm_state_def)
  have d: "requestDigestValidated calm_request = Some (digestBytes (encode (request_json calm_request)))"
    using validated_values_encode [OF calm_request_valid] by (simp add: requestDigestValidated_def)
  have s: "stoppedEvaluation e inp cache None = Inr None" for e inp cache by (simp add: stoppedEvaluation_def)
  have f: "preflightFailure calm_input (expectedIdentities calm_evaluator calm_input) = NoReason"
    unfolding calm_expected
    by (simp add: preflightFailure_def verify_resampled_iff calm_input_def calm_state_def calm_request_def good_request_def)
  show ?thesis
    by (simp add: prepareEvaluation_def s calm_normalizes r d Let_def f)
qed

lemma calm_condition:
  "rule_condition lib calm_request calm_rule = noEvaluation\<lparr>cev_state := ConditionTrue, cev_complete := True\<rparr>"
  by (simp add: rule_condition_def calm_rule_def plainTree.simps)

lemma calm_not_blocked: "\<not> spec_blocked lib calm_evaluator calm_input"
proof -
  have "evr_rules calm_evaluator = [calm_rule]" "inp_inspection calm_input = None" "inp_request calm_input = calm_request"
    by (simp_all add: calm_evaluator_def calm_input_def calm_state_def)
  then show ?thesis
    by (simp add: spec_blocked_def calm_select inspection_blocked_def effect_blocked_def repository_tool_def
        rule_broken_def calm_condition noEvaluation_def)
qed

definition calm_candidates :: "candidate list" where
  "calm_candidates =
     [\<lparr>cand_source = CandidateBaseline, cand_id = ''host-unmatched'', cand_decision = DecisionAllow,
       cand_reason = ReasonHostUnmatched\<rparr>,
      \<lparr>cand_source = CandidateRule, cand_id = ''warn-all'', cand_decision = DecisionWarn,
       cand_reason = ReasonRuleMatched\<rparr>]"

lemma calm_spec: "spec_candidates lib calm_evaluator calm_input = calm_candidates"
proof -
  have r: "inp_request calm_input = calm_request" by (simp add: calm_input_def calm_state_def)
  have sel: "selectorMatches (rul_selector (cru_rule calm_rule)) calm_request []"
    by (simp add: selectorMatches_def calm_rule_def stringListed_def transportListed_def platformListed_def phaseListed_def)
  have "rule_candidates lib calm_request [] calm_rule =
      [\<lparr>cand_source = CandidateRule, cand_id = ''warn-all'', cand_decision = DecisionWarn,
        cand_reason = ReasonRuleMatched\<rparr>]"
    using sel by (simp add: rule_candidates_def calm_condition) (simp add: calm_rule_def candidateReason_def)
  moreover have "evr_rules calm_evaluator = [calm_rule]" by (simp add: calm_evaluator_def)
  moreover have "inp_inspection calm_input = None" "bsn_list (inp_budget calm_input) = []"
    "inp_repository_effect calm_input = None"
    by (simp_all add: calm_input_def calm_state_def bsn_list_def)
  moreover have "baselineCandidate calm_evaluator calm_request None = \<lparr>cand_source = CandidateBaseline,
      cand_id = ''host-unmatched'', cand_decision = DecisionAllow, cand_reason = ReasonHostUnmatched\<rparr>"
    by (simp add: baselineCandidate_def calm_evaluator_def FrozenDefaults_def calm_request_def good_request_def)
  ultimately show ?thesis
    by (simp add: spec_candidates_def r calm_select inspection_candidates_def budget_candidates_def
        effect_candidates_def repository_tool_def calm_candidates_def)
qed

theorem evaluation_refines_spec_witness:
  "res_candidates (evaluate example_lib (Some calm_evaluator) calm_input None) = sortCandidates calm_candidates"
proof -
  obtain p where p: "prepareEvaluation calm_evaluator calm_input None = (Inr p, None)" "ppd_input p = calm_input"
    using calm_prepares by blast
  show ?thesis
    using evaluation_refines_spec [OF quiet_nil p(1) refl, of example_lib] p(2) calm_not_blocked [of example_lib] by (simp add: calm_spec)
qed

definition cancelled_control :: control where
  "cancelled_control = Some (newEvaluationControl True None [\<lparr>pv_now = 0, pv_closed = True, pv_deadline_error = False\<rparr>])"

theorem evaluation_fails_closed_witness:
  "res_decision (evaluate example_lib (Some calm_evaluator) calm_input cancelled_control) = DecisionBlock
    \<and> \<not> car_eligible (res_cache (evaluate example_lib (Some calm_evaluator) calm_input cancelled_control))"
proof -
  have "stopReason cancelled_control = (ReasonCancelled, Some (newEvaluationControl True None []))"
    by (simp add: cancelled_control_def stopReason_def newEvaluationControl_def view_reason_def)
  then have "res_failure (evaluate example_lib (Some calm_evaluator) calm_input cancelled_control) \<noteq> None"
    by (simp add: evaluate_def prepareEvaluation_def stoppedEvaluation_def failEvaluationWithCache_def Let_def)
  then show ?thesis
    using evaluation_fails_closed [OF refl, of example_lib calm_evaluator calm_input cancelled_control] by simp
qed

lemma calm_accumulates:
  "\<exists>a. accumulated lib (newEvaluationAccumulator calm_evaluator calm_input cache None) = Inr a
    \<and> acc_cache_never a = False \<and> acc_completeness a = CompleteEvidence"
proof -
  let ?a = "newEvaluationAccumulator calm_evaluator calm_input cache None"
  have r: "inp_request calm_input = calm_request" by (simp add: calm_input_def calm_state_def)
  have f: "acc_control ?a = None" "acc_tool ?a = None" "acc_tool_id ?a = []" "acc_input ?a = calm_input"
    "acc_evaluator ?a = calm_evaluator" "acc_budgets ?a = []" "acc_cache_never ?a = False"
    "acc_completeness ?a = CompleteEvidence"
    by (simp_all add: newEvaluationAccumulator_def calm_select r bsn_list_def cloneBudgetSnapshot_def)
      (simp_all add: calm_input_def calm_state_def calm_request_def)
  have stop: "stopFailure a = Inr a" if "acc_control a = None" for a
    using that by (cases a) (simp add: stopFailure_def stoppedEvaluation_def)
  have insp: "addInspection ?a = Inr ?a"
    using stop [OF f(1)] f by (simp add: addInspection_def calm_input_def calm_state_def)
  have bud: "addBudgets ?a = Inr ?a" by (simp add: addBudgets_def f)
  have eff: "addRepositoryEffect ?a = Inr ?a" using stop [OF f(1)] f by (simp add: addRepositoryEffect_def)
  have sel: "selectorMatches (rul_selector (cru_rule calm_rule)) calm_request []"
    by (simp add: selectorMatches_def calm_rule_def stringListed_def transportListed_def platformListed_def phaseListed_def)
  have cond: "evaluateConditionTreeWithRootsControl lib (cru_condition calm_rule) calm_request d (Suc 0) \<lparr>evs_roots = Some roots, evs_control = None\<rparr>
      = (noEvaluation\<lparr>cev_state := ConditionTrue, cev_complete := True\<rparr>, \<lparr>evs_roots = Some roots, evs_control = None\<rparr>)" for d roots
    by (simp add: evaluateConditionTreeWithRootsControl_def evaluateConditionTreeCore.simps calm_rule_def poll_def)
  have cache: "rul_cache (cru_rule calm_rule) = CacheExact" by (simp add: calm_rule_def)
  obtain b where b: "evaluateRule lib calm_rule ?a = Inr b" "acc_cache_never b = False" "acc_completeness b = CompleteEvidence"
    by (simp add: evaluateRule_def f r sel cond ruleOutcome_def addRuleCandidate_def addCandidate_def addMatch_def
        noEvaluation_def cache Let_def)
  have rules: "evr_rules calm_evaluator = [calm_rule]" by (simp add: calm_evaluator_def)
  show ?thesis using b stop [OF f(1)]
    by (simp add: accumulated_def insp bud eff evaluateRules_def f rules pollAt_def)
qed

lemma calm_cacheable:
  "car_eligible (res_cache (evaluate lib (Some calm_evaluator) calm_input None))
    \<and> res_failure (evaluate lib (Some calm_evaluator) calm_input None) = None"
proof -
  let ?res = "evaluate lib (Some calm_evaluator) calm_input None"
  obtain p where p: "prepareEvaluation calm_evaluator calm_input None = (Inr p, None)" "ppd_input p = calm_input"
    using calm_prepares by blast
  obtain a where a: "accumulated lib (newEvaluationAccumulator calm_evaluator calm_input (ppd_cache p) None) = Inr a"
    "acc_cache_never a = False" "acc_completeness a = CompleteEvidence"
    using calm_accumulates by blast
  have fr: "frame (newEvaluationAccumulator calm_evaluator calm_input (ppd_cache p) None) a"
    using accumulated_ok [of "newEvaluationAccumulator calm_evaluator calm_input (ppd_cache p) None" lib] a(1) by simp
  have res: "?res = acc_result a" using p a(1)
    by (simp add: evaluate_def evaluatePreparedInput_accumulated stoppedEvaluation_def)
  have ok: "res_failure ?res = None" "res_candidates ?res = sortCandidates calm_candidates"
    using evaluation_refinement [OF quiet_nil p(1) refl, of lib] calm_not_blocked [of lib] p(2) by (simp_all add: calm_spec)
  then have ro: "result_of a ?res" using acc_result_cases [of a] failure_sel(2) res by metis
  have "res_cache ?res = finalizeCacheResult (ppd_cache p) False (res_decision ?res) (inp_approval (acc_input a))
      CompleteEvidence False" using a fr ro by (simp add: result_of_def frame_def new_accumulator_sel)
  moreover have "res_decision ?res \<noteq> DecisionRequireApproval"
  proof -
    have "res_candidates ?res ! 0 \<in> set (sortCandidates calm_candidates)"
      using ok(2) sortCandidates_set [of calm_candidates]
      by (metis calm_candidates_def length_greater_0_conv list.distinct(1) nth_mem set_empty)
    then show ?thesis using ro by (auto simp: result_of_def calm_candidates_def)
  qed
  moreover have "car_eligible (ppd_cache p)"
  proof -
    have "ppd_cache p = cacheIdentityNormalized calm_evaluator calm_input (ppd_request_identity p)
        (expectedIdentities calm_evaluator calm_input)"
      using prepare_cases [OF p(1)] p(2) by simp
    then show ?thesis unfolding calm_expected
      by (simp add: cache_base_eligible)
        (simp add: calm_input_def calm_state_def calm_request_def good_request_def calm_evaluator_def FrozenDefaults_def)
  qed
  ultimately have "car_eligible (res_cache ?res)" by (simp add: finalizeCacheResult_def)
  then show ?thesis using ok(1) by simp
qed

theorem cacheable_only_if_settled_witness:
  "\<exists>requestIdentity. car_identity (res_cache (evaluate example_lib (Some calm_evaluator) calm_input None))
    = digestBytes (encode (cacheBinding calm_evaluator calm_input requestIdentity
        (expectedIdentities calm_evaluator calm_input)))"
  using cacheable_only_if_settled [OF refl, of example_lib calm_evaluator calm_input None] calm_normalizes
    calm_cacheable [of example_lib] by auto

end
