(* ===== verification/Action_Cache.thy ===== *)
theory Action_Cache
  imports Action_Decision
begin

text \<open>
  The decision cache (decision_cache.go) and the prepared evaluations that share one
  normalization between a lookup, an evaluation and a store (evaluator.go). The critical section
  of a store is one step: the copy and the estimate are made before the lock is taken.
\<close>

section \<open>What a result occupies\<close>

text \<open>
  \<open>unsafe.Sizeof\<close> on a platform with words of 64 bits: a string is two words, a slice three, a
  pointer one, and a field starts at a multiple of its alignment.
\<close>

definition sizeofString :: uint64 where "sizeofString = 16"
definition sizeofCandidate :: uint64 where "sizeofCandidate = 64"
definition sizeofBudgetCandidate :: uint64 where "sizeofBudgetCandidate = 576"
definition sizeofTraceEntry :: uint64 where "sizeofTraceEntry = 192"
definition sizeofMissingEvidence :: uint64 where "sizeofMissingEvidence = 32"
definition sizeofInspectionEvidence :: uint64 where "sizeofInspectionEvidence = 232"
definition sizeofFieldEvidence :: uint64 where "sizeofFieldEvidence = 64"
definition sizeofContentEvidence :: uint64 where "sizeofContentEvidence = 40"
definition sizeofFailure :: uint64 where "sizeofFailure = 32"
definition sizeofEvaluationResult :: uint64 where "sizeofEvaluationResult = 344"

definition MaxDecisionCacheEntries :: nat where "MaxDecisionCacheEntries = 256"
definition MaxDecisionCacheBytes :: uint64 where "MaxDecisionCacheBytes = 67108864"
definition decisionCacheAllocationOverhead :: uint64 where "decisionCacheAllocationOverhead = 512"
definition decisionCacheSliceOverhead :: uint64 where "decisionCacheSliceOverhead = 64"
definition decisionCacheStringOverhead :: uint64 where "decisionCacheStringOverhead = 16"

fun candidate_source_text :: "candidate_source \<Rightarrow> string" where
  "candidate_source_text CandidateBaseline = ''baseline''"
| "candidate_source_text CandidateRule = ''rule''"
| "candidate_source_text CandidateRepositoryEffect = ''repository_effect''"
| "candidate_source_text CandidateBudget = ''budget''"
| "candidate_source_text CandidateInspection = ''inspection''"

fun phase_outcome_text :: "phase_outcome \<Rightarrow> string" where
  "phase_outcome_text OutcomeDispatchEligible = ''dispatch_eligible''"
| "phase_outcome_text OutcomeDispatchBlocked = ''dispatch_blocked''"
| "phase_outcome_text OutcomeDeliveryEligible = ''delivery_eligible''"
| "phase_outcome_text OutcomeWithheld = ''withheld''"
| "phase_outcome_text OutcomeProgressEligible = ''progress_eligible''"
| "phase_outcome_text OutcomeSuppressed = ''suppressed''"
| "phase_outcome_text OutcomeRecorded = ''recorded''"

fun cache_reason_text :: "cache_reason \<Rightarrow> string" where
  "cache_reason_text CacheEligible = ''eligible''"
| "cache_reason_text CachePolicyNever = ''policy_never''"
| "cache_reason_text CacheRuleNever = ''rule_never''"
| "cache_reason_text CacheIdentityMissing = ''identity_missing''"
| "cache_reason_text CacheIdentityDrift = ''identity_drift''"
| "cache_reason_text CacheContextUnresolved = ''context_unresolved''"
| "cache_reason_text CacheStateStale = ''state_stale''"
| "cache_reason_text CacheApprovalPending = ''approval_pending''"
| "cache_reason_text CacheEvidenceTainted = ''evidence_tainted''"
| "cache_reason_text CacheEvidenceIncomplete = ''evidence_incomplete''"
| "cache_reason_text CacheFailureResult = ''failure_result''"
| "cache_reason_text CacheLifecycleInactive = ''lifecycle_inactive''"
| "cache_reason_text CacheReasonUnset = []"

text \<open>The text of a failure; a name is a kebab-case label, which \<open>%q\<close> only quotes.\<close>

fun failure_message :: "failure_text \<Rightarrow> string" where
  "failure_message (Plain s) = s"
| "failure_message (Named s name) = ''budget '' @ [CHR 34] @ name @ [CHR 34] @ '' '' @ s"

definition addDecisionCacheBytes :: "uint64 \<Rightarrow> uint64 \<Rightarrow> uint64" where
  "addDecisionCacheBytes amount bytes = (if max_uint64 - bytes < amount then max_uint64 else bytes + amount)"

definition addDecisionCacheString :: "string \<Rightarrow> uint64 \<Rightarrow> uint64" where
  "addDecisionCacheString v bytes =
     (if v = [] then bytes else addDecisionCacheBytes (of_nat (length v) + decisionCacheStringOverhead) bytes)"

definition addDecisionCacheSlice :: "nat \<Rightarrow> uint64 \<Rightarrow> uint64 \<Rightarrow> uint64" where
  "addDecisionCacheSlice n elementSize bytes =
     (if n = 0 then bytes
      else addDecisionCacheBytes (of_nat n * elementSize) (addDecisionCacheBytes decisionCacheSliceOverhead bytes))"

definition addStrings :: "string list \<Rightarrow> uint64 \<Rightarrow> uint64" where
  "addStrings = fold addDecisionCacheString"

definition addDecisionCacheStringSlice :: "string list \<Rightarrow> uint64 \<Rightarrow> uint64" where
  "addDecisionCacheStringSlice vs bytes = addStrings vs (addDecisionCacheSlice (length vs) sizeofString bytes)"

definition candidateStrings :: "candidate \<Rightarrow> string list" where
  "candidateStrings c =
     [candidate_source_text (cand_source c), cand_id c, decision_text (cand_decision c), reason_text (cand_reason c)]"

definition addBudgetCandidate :: "budget_candidate \<Rightarrow> uint64 \<Rightarrow> uint64" where
  "addBudgetCandidate c bytes =
     (let scope = bc_scope c; generation = bc_generation c
      in addStrings
           [scp_server_label scope, scp_server_identity scope, scp_tool_id scope, scp_run_identity scope,
            scp_session_identity scope, scp_window_identity scope, gen_policy_digest generation,
            gen_executable_digest generation, gen_tool_contract_digest generation, gen_key_id generation]
         (addDecisionCacheStringSlice (scp_credential_labels scope)
         (addStrings
           [bc_budget_id c, bc_scope_identity c, bc_lineage_identity c, budget_reset_text (bc_reset c),
            reason_text (bc_reason c), scp_repository_identity scope, scp_principal scope] bytes)))"

definition traceStrings :: "trace_entry \<Rightarrow> string list" where
  "traceStrings t =
     [tre_rule_id t, tre_tool_id t, selector_state_text (tre_selector t), condition_state_text (tre_condition t),
      decision_text (tre_decision t), reason_text (tre_reason t), provenance_text (tre_actual t),
      provenance_text (tre_required t), pointer_state_text (sum_pointer_state (tre_operand t)),
      value_kind_text (sum_kind (tre_operand t))]"

definition addInspectionBytes :: "inspection_evidence \<Rightarrow> uint64 \<Rightarrow> uint64" where
  "addInspectionBytes i bytes =
     (let bytes = bytes + (decisionCacheAllocationOverhead + sizeofInspectionEvidence);
          bytes = addStrings
            [inspection_status_text (iev_status i), iev_identity i, decision_text (iev_decision i),
             reason_text (iev_reason i)] bytes;
          bytes = addDecisionCacheStringSlice (iev_pack_identities i)
            (addDecisionCacheStringSlice (iev_rule_ids i) bytes);
          bytes = addStrings [schema_status_text (iev_schema_status i), iev_schema_identity i] bytes;
          bytes = addDecisionCacheStringSlice (iev_categories i) bytes;
          bytes = addDecisionCacheSlice (length (iev_fields i)) sizeofFieldEvidence bytes;
          bytes = fold (\<lambda>f. addStrings [source_text (fev_source f), fev_pointer_identity f, fev_value_identity f])
            (iev_fields i) bytes;
          bytes = addDecisionCacheSlice (length (iev_unsupported_content i)) sizeofContentEvidence bytes
      in fold (\<lambda>c. addStrings [cev_content_type c, cev_identity c]) (iev_unsupported_content i) bytes)"

definition estimateDecisionCacheResultBytes :: "evaluation_result \<Rightarrow> uint64" where
  "estimateDecisionCacheResultBytes res =
     (let bytes = decisionCacheAllocationOverhead + sizeofEvaluationResult;
          bytes = addStrings
            [decision_text (res_decision res), reason_text (res_reason res), res_tool_id res, res_policy_digest res,
             res_lock_digest res, res_plan_identity res, res_source_identity res, car_identity (res_cache res),
             cache_reason_text (car_reason (res_cache res)), res_required_approval_identity res,
             phase_outcome_text (res_phase_outcome res)] bytes;
          bytes = addDecisionCacheStringSlice (res_matched_rule_ids res) bytes;
          bytes = addDecisionCacheSlice (length (res_candidates res)) sizeofCandidate bytes;
          bytes = fold (\<lambda>c. addStrings (candidateStrings c)) (res_candidates res) bytes;
          bytes = addDecisionCacheSlice (length (res_budget_candidates res)) sizeofBudgetCandidate bytes;
          bytes = fold addBudgetCandidate (res_budget_candidates res) bytes;
          bytes = addDecisionCacheSlice (length (res_trace res)) sizeofTraceEntry bytes;
          bytes = fold (\<lambda>t. addStrings (traceStrings t)) (res_trace res) bytes;
          bytes = addDecisionCacheSlice (length (cpl_missing (res_completeness res))) sizeofMissingEvidence bytes;
          bytes = fold (\<lambda>m. addStrings [evidence_field_text (miss_field m), reason_text (miss_reason m)])
            (cpl_missing (res_completeness res)) bytes;
          bytes = (case res_inspection res of None \<Rightarrow> bytes | Some i \<Rightarrow> addInspectionBytes i bytes)
      in (case res_failure res of
            None \<Rightarrow> bytes
          | Some f \<Rightarrow>
              addStrings [reason_text (fail_code f), failure_message (fail_message f)]
                (bytes + (decisionCacheAllocationOverhead + sizeofFailure))))"

section \<open>The cache\<close>

record decision_cache_entry =
  dce_result :: evaluation_result
  dce_bytes :: uint64

record decision_cache =
  dca_entries :: "string \<Rightarrow> decision_cache_entry option"
  dca_order :: "string list"
  dca_bytes :: uint64

definition NewDecisionCache :: decision_cache where
  "NewDecisionCache = \<lparr>dca_entries = (\<lambda>k. None), dca_order = [], dca_bytes = 0\<rparr>"

text \<open>
  A clone shares no memory with its source. The results of the model are values, so a clone
  copies the lists and the structures they hold.
\<close>

definition cloneEvaluationResult :: "evaluation_result \<Rightarrow> evaluation_result" where
  "cloneEvaluationResult source =
     source\<lparr>res_matched_rule_ids := map id (res_matched_rule_ids source),
       res_candidates := map id (res_candidates source),
       res_budget_candidates := map id (res_budget_candidates source),
       res_trace := map id (res_trace source),
       res_completeness := (res_completeness source)\<lparr>cpl_missing := map id (cpl_missing (res_completeness source))\<rparr>,
       res_inspection := map_option id (res_inspection source),
       res_failure := map_option id (res_failure source)\<rparr>"

text \<open>A hit is a result, a miss is \<open>None\<close>; the reason is returned with both.\<close>

definition lookupIdentity :: "decision_cache option \<Rightarrow> cache_result \<Rightarrow> evaluation_result option \<times> cache_reason" where
  "lookupIdentity c identity =
     (if \<not> car_eligible identity then (None, car_reason identity)
      else (case c of
          None \<Rightarrow> (None, CacheEligible)
        | Some c \<Rightarrow>
            (case dca_entries c (car_identity identity) of
               None \<Rightarrow> (None, CacheEligible)
             | Some entry \<Rightarrow>
                 if \<not> car_eligible (res_cache (dce_result entry))
                    \<or> car_identity (res_cache (dce_result entry)) \<noteq> car_identity identity
                 then (None, CacheEligible)
                 else (Some (cloneEvaluationResult (dce_result entry)), CacheEligible))))"

text \<open>The eviction loop; \<open>None\<close> is the panic of \<open>c.order[0]\<close> on an empty slice.\<close>

fun evictOldest ::
  "string list \<Rightarrow> (string \<Rightarrow> decision_cache_entry option) \<Rightarrow> uint64 \<Rightarrow> decision_cache option" where
  "evictOldest [] entries bytes =
     (if MaxDecisionCacheBytes < bytes then None
      else Some \<lparr>dca_entries = entries, dca_order = [], dca_bytes = bytes\<rparr>)"
| "evictOldest (oldest # order) entries bytes =
     (if MaxDecisionCacheEntries < length (oldest # order) \<or> MaxDecisionCacheBytes < bytes
      then (case entries oldest of
          Some previous \<Rightarrow> evictOldest order (entries(oldest := None)) (bytes - dce_bytes previous)
        | None \<Rightarrow> evictOldest order entries bytes)
      else Some \<lparr>dca_entries = entries, dca_order = oldest # order, dca_bytes = bytes\<rparr>)"

definition publishEntry :: "decision_cache \<Rightarrow> string \<Rightarrow> evaluation_result \<Rightarrow> uint64 \<Rightarrow> decision_cache option" where
  "publishEntry c k stored entryBytes =
     (let entries = (dca_entries c)(k \<mapsto> \<lparr>dce_result = stored, dce_bytes = entryBytes\<rparr>)
      in (case dca_entries c k of
            Some previous \<Rightarrow>
              evictOldest (dca_order c) entries (dca_bytes c - dce_bytes previous + entryBytes)
          | None \<Rightarrow> evictOldest (dca_order c @ [k]) entries (dca_bytes c + entryBytes)))"

text \<open>The cache after the call with what it returns; \<open>None\<close> is a panic.\<close>

definition storeIdentity ::
  "decision_cache option \<Rightarrow> cache_result \<Rightarrow> evaluation_result \<Rightarrow> (decision_cache option \<times> bool) option" where
  "storeIdentity c identity res =
     (case c of
        None \<Rightarrow> Some (None, False)
      | Some d \<Rightarrow>
          if \<not> car_eligible identity \<or> \<not> car_eligible (res_cache res) \<or> res_failure res \<noteq> None
             \<or> car_identity identity \<noteq> car_identity (res_cache res)
          then Some (c, False)
          else
            (let stored = cloneEvaluationResult res; entryBytes = estimateDecisionCacheResultBytes stored
             in if MaxDecisionCacheBytes < entryBytes then Some (c, False)
                else map_option (\<lambda>d. (Some d, True)) (publishEntry d (car_identity identity) stored entryBytes)))"

definition cache_Lookup ::
  "decision_cache option \<Rightarrow> evaluator option \<Rightarrow> evaluation_input \<Rightarrow> evaluation_result option \<times> cache_reason" where
  "cache_Lookup c e inp = lookupIdentity c (CacheIdentity e inp)"

definition cache_Store ::
  "decision_cache option \<Rightarrow> evaluator option \<Rightarrow> evaluation_input \<Rightarrow> evaluation_result \<Rightarrow>
     (decision_cache option \<times> bool) option" where
  "cache_Store c e inp res = storeIdentity c (CacheIdentity e inp) res"

section \<open>Prepared evaluations\<close>

text \<open>
  A prepared evaluation owns either the failure of its preparation, with the cache result that
  the failure carries, or an evaluator with a normalized input.
\<close>

datatype prepared_evaluation =
  PreparedFailure evaluation_result cache_result
  | PreparedInput evaluator prepared

definition prepare :: "evaluator option \<Rightarrow> evaluation_input \<Rightarrow> control \<Rightarrow> prepared_evaluation \<times> control" where
  "prepare e inp control =
     (case e of
        None \<Rightarrow> (PreparedFailure (unavailablePolicy inp) noCache, control)
      | Some e \<Rightarrow>
          (case prepareEvaluation e inp control of
             (Inl failure, control) \<Rightarrow> (PreparedFailure failure (res_cache failure), control)
           | (Inr p, control) \<Rightarrow> (PreparedInput e p, control)))"

fun preparedCache :: "prepared_evaluation \<Rightarrow> cache_result" where
  "preparedCache (PreparedFailure failure cache) = cache"
| "preparedCache (PreparedInput e p) = ppd_cache p"

definition preparedCacheIdentity :: "prepared_evaluation option \<Rightarrow> cache_result" where
  "preparedCacheIdentity p = (case p of None \<Rightarrow> missingCache | Some p \<Rightarrow> preparedCache p)"

fun prepared_evaluate :: "stdlib \<Rightarrow> prepared_evaluation \<Rightarrow> control \<Rightarrow> evaluation_result" where
  "prepared_evaluate lib (PreparedFailure failure cache) control = cloneEvaluationResult failure"
| "prepared_evaluate lib (PreparedInput e p) control =
     evaluatePreparedInput lib e (ppd_input p) (ppd_cache p) control"

definition LookupPrepared ::
  "decision_cache option \<Rightarrow> prepared_evaluation option \<Rightarrow> evaluation_result option \<times> cache_reason" where
  "LookupPrepared c p = lookupIdentity c (preparedCacheIdentity p)"

definition StorePrepared ::
  "decision_cache option \<Rightarrow> prepared_evaluation option \<Rightarrow> evaluation_result \<Rightarrow>
     (decision_cache option \<times> bool) option" where
  "StorePrepared c p res = storeIdentity c (preparedCacheIdentity p) res"

section \<open>The invariant of the cache\<close>

definition cached_ok :: "string \<Rightarrow> decision_cache_entry \<Rightarrow> bool" where
  "cached_ok k e \<longleftrightarrow>
     car_eligible (res_cache (dce_result e)) \<and> car_identity (res_cache (dce_result e)) = k
     \<and> res_failure (dce_result e) = None
     \<and> estimateDecisionCacheResultBytes (dce_result e) = dce_bytes e \<and> dce_bytes e \<le> MaxDecisionCacheBytes"

definition entry_bytes :: "(string \<Rightarrow> decision_cache_entry option) \<Rightarrow> string \<Rightarrow> nat" where
  "entry_bytes entries k = (case entries k of None \<Rightarrow> 0 | Some e \<Rightarrow> unat (dce_bytes e))"

text \<open>What holds while the loop runs: the order lists the keys once, the counter is exact.\<close>

definition accounted :: "string list \<Rightarrow> (string \<Rightarrow> decision_cache_entry option) \<Rightarrow> uint64 \<Rightarrow> bool" where
  "accounted order entries bytes \<longleftrightarrow>
     distinct order \<and> set order = dom entries \<and> unat bytes = sum_list (map (entry_bytes entries) order)
     \<and> (\<forall>k e. entries k = Some e \<longrightarrow> cached_ok k e)"

definition cache_ok :: "decision_cache \<Rightarrow> bool" where
  "cache_ok c \<longleftrightarrow>
     accounted (dca_order c) (dca_entries c) (dca_bytes c)
     \<and> length (dca_order c) \<le> MaxDecisionCacheEntries \<and> dca_bytes c \<le> MaxDecisionCacheBytes"

lemma clone_is_copy [simp]: "cloneEvaluationResult res = res"
  by (simp add: cloneEvaluationResult_def option.map_id)

lemma new_cache_ok: "cache_ok NewDecisionCache"
  by (simp add: cache_ok_def accounted_def NewDecisionCache_def)

lemma bytes_without:
  "k \<notin> set ks \<Longrightarrow> sum_list (map (entry_bytes (entries(k := v))) ks) = sum_list (map (entry_bytes entries) ks)"
  by (intro arg_cong [of _ _ sum_list] map_cong) (auto simp: entry_bytes_def)

lemma accounted_pop:
  assumes "accounted (k # order) entries bytes"
  shows "\<exists>e. entries k = Some e \<and> accounted order (entries(k := None)) (bytes - dce_bytes e)"
proof -
  have "k \<in> dom entries" using assms unfolding accounted_def by (metis list.set_intros(1))
  then obtain e where e: "entries k = Some e" by blast
  have k: "k \<notin> set order" using assms by (simp add: accounted_def)
  have b: "unat bytes = unat (dce_bytes e) + sum_list (map (entry_bytes entries) order)"
    using assms e by (simp add: accounted_def entry_bytes_def)
  then have "unat (bytes - dce_bytes e) = sum_list (map (entry_bytes entries) order)"
    by (simp add: unat_sub word_le_nat_alt)
  moreover have "set order = dom (entries(k := None))" using assms k by (auto simp: accounted_def)
  ultimately show ?thesis using assms e k by (auto simp: accounted_def bytes_without)
qed

lemma single_fits: "accounted [k] entries bytes \<Longrightarrow> bytes \<le> MaxDecisionCacheBytes"
proof -
  assume a: "accounted [k] entries bytes"
  then obtain e where e: "entries k = Some e" using accounted_pop by blast
  then have "unat bytes = unat (dce_bytes e)" using a by (simp add: accounted_def entry_bytes_def)
  then have "bytes = dce_bytes e" by (rule word_unat_eq_iff [THEN iffD2])
  moreover have "dce_bytes e \<le> MaxDecisionCacheBytes" using a e unfolding accounted_def cached_ok_def by blast
  ultimately show ?thesis by metis
qed

text \<open>The loop never panics, ends within the bounds, only drops the oldest keys and keeps the newest.\<close>

lemma evict_ok:
  assumes "accounted order entries bytes"
  shows "\<exists>c n. evictOldest order entries bytes = Some c \<and> cache_ok c \<and> dca_order c = drop n order
    \<and> n \<le> length order \<and> (order \<noteq> [] \<longrightarrow> n < length order)
    \<and> (\<forall>k. dca_entries c k = (if k \<in> set (take n order) then None else entries k))"
  using assms
proof (induction order arbitrary: entries bytes)
  case Nil
  then show ?case
    by (auto simp: accounted_def cache_ok_def word_le_nat_alt word_less_nat_alt)
next
  case (Cons k order)
  show ?case
  proof (cases "MaxDecisionCacheEntries < length (k # order) \<or> MaxDecisionCacheBytes < bytes")
    case True
    obtain e where e: "entries k = Some e" and acc: "accounted order (entries(k := None)) (bytes - dce_bytes e)"
      using accounted_pop [OF Cons.prems] by blast
    obtain c n where c: "evictOldest order (entries(k := None)) (bytes - dce_bytes e) = Some c" "cache_ok c"
      "dca_order c = drop n order" "n \<le> length order" "order \<noteq> [] \<longrightarrow> n < length order"
      "\<forall>l. dca_entries c l = (if l \<in> set (take n order) then None else (entries(k := None)) l)"
      using Cons.IH [OF acc] by blast
    have "order \<noteq> []"
      using True single_fits [of k entries bytes] Cons.prems
      by (cases order) (simp_all add: MaxDecisionCacheEntries_def)
    moreover have "evictOldest (k # order) entries bytes = Some c" using True e c(1) by simp
    ultimately show ?thesis using c(2-) by (intro exI [of _ c] exI [of _ "Suc n"]) auto
  next
    case False
    let ?c = "\<lparr>dca_entries = entries, dca_order = k # order, dca_bytes = bytes\<rparr>"
    have "evictOldest (k # order) entries bytes = Some ?c" using False by simp
    moreover have "cache_ok ?c" using False Cons.prems by (auto simp: cache_ok_def)
    ultimately show ?thesis by (intro exI [of _ ?c] exI [of _ 0]) simp
  qed
qed

lemma accounted_push:
  assumes "cache_ok c" and "dca_entries c k = None" and "cached_ok k e"
  shows "accounted (dca_order c @ [k]) ((dca_entries c)(k \<mapsto> e)) (dca_bytes c + dce_bytes e)"
proof -
  have k: "k \<notin> set (dca_order c)" using assms(1,2) by (auto simp: cache_ok_def accounted_def)
  have "unat (dca_bytes c) \<le> 2 ^ 26" "unat (dce_bytes e) \<le> 2 ^ 26"
    using assms(1,3) by (simp_all add: cache_ok_def cached_ok_def word_le_nat_alt MaxDecisionCacheBytes_def)
  then have "unat (dca_bytes c + dce_bytes e) = unat (dca_bytes c) + unat (dce_bytes e)"
    by (intro unat_add_lem [THEN iffD1]) simp
  then show ?thesis using assms k
    by (auto simp: cache_ok_def accounted_def bytes_without entry_bytes_def)
qed

lemma split_bytes:
  "distinct ks \<Longrightarrow> k \<in> set ks \<Longrightarrow>
     sum_list (map f ks) = f k + sum_list (map f (remove1 k ks))" for f :: "'a \<Rightarrow> nat"
  by (rule sum_list_map_remove1)

lemma accounted_replace:
  assumes "cache_ok c" and p: "dca_entries c k = Some previous" and "cached_ok k e"
  shows "accounted (dca_order c) ((dca_entries c)(k \<mapsto> e)) (dca_bytes c - dce_bytes previous + dce_bytes e)"
proof -
  let ?rest = "sum_list (map (entry_bytes (dca_entries c)) (remove1 k (dca_order c)))"
  have acc: "accounted (dca_order c) (dca_entries c) (dca_bytes c)" using assms(1) by (simp add: cache_ok_def)
  then have d: "distinct (dca_order c)" and k: "k \<in> set (dca_order c)" using p by (auto simp: accounted_def)
  have b: "unat (dca_bytes c) = unat (dce_bytes previous) + ?rest"
    using acc split_bytes [OF d k, of "entry_bytes (dca_entries c)"] p by (simp add: accounted_def entry_bytes_def)
  have "unat (dca_bytes c) \<le> 2 ^ 26" "unat (dce_bytes e) \<le> 2 ^ 26"
    using assms(1,3) by (simp_all add: cache_ok_def cached_ok_def word_le_nat_alt MaxDecisionCacheBytes_def)
  moreover have s: "unat (dca_bytes c - dce_bytes previous) = ?rest"
    using b by (simp add: unat_sub word_le_nat_alt)
  ultimately have "unat (dca_bytes c - dce_bytes previous + dce_bytes e) = ?rest + unat (dce_bytes e)"
    using b by (subst unat_add_lem [THEN iffD1]) simp_all
  moreover have "sum_list (map (entry_bytes ((dca_entries c)(k \<mapsto> e))) (dca_order c)) = unat (dce_bytes e) + ?rest"
    using split_bytes [OF d k, of "entry_bytes ((dca_entries c)(k \<mapsto> e))"] d
    by (simp add: bytes_without) (simp add: entry_bytes_def)
  moreover have "set (dca_order c) = dom ((dca_entries c)(k \<mapsto> e))" using acc p by (auto simp: accounted_def)
  ultimately show ?thesis using acc assms(3) by (simp add: accounted_def)
qed

text \<open>What a store accepts.\<close>

definition storable :: "cache_result \<Rightarrow> evaluation_result \<Rightarrow> bool" where
  "storable identity res \<longleftrightarrow>
     car_eligible identity \<and> car_eligible (res_cache res) \<and> res_failure res = None
     \<and> car_identity identity = car_identity (res_cache res)
     \<and> estimateDecisionCacheResultBytes res \<le> MaxDecisionCacheBytes"

lemma store_refused: "\<not> storable identity res \<Longrightarrow> storeIdentity (Some c) identity res = Some (Some c, False)"
  by (auto simp: storeIdentity_def storable_def Let_def)

lemma store_accepted:
  "storable identity res \<Longrightarrow> storeIdentity (Some c) identity res =
     map_option (\<lambda>d. (Some d, True))
       (publishEntry c (car_identity identity) res (estimateDecisionCacheResultBytes res))"
  by (auto simp: storeIdentity_def storable_def Let_def)

lemma publish_ok:
  assumes ok: "cache_ok c" and st: "storable identity res"
  defines "k \<equiv> car_identity identity"
  shows "\<exists>d n. publishEntry c k res (estimateDecisionCacheResultBytes res) = Some d \<and> cache_ok d
    \<and> (let order = (if dca_entries c k = None then dca_order c @ [k] else dca_order c)
       in dca_order d = drop n order \<and> n < length order
          \<and> (\<forall>l. dca_entries d l =
               (if l \<in> set (take n order) then None
                else if l = k then Some \<lparr>dce_result = res, dce_bytes = estimateDecisionCacheResultBytes res\<rparr>
                else dca_entries c l)))"
proof -
  let ?e = "\<lparr>dce_result = res, dce_bytes = estimateDecisionCacheResultBytes res\<rparr>"
  have e: "cached_ok k ?e" using st by (auto simp: cached_ok_def storable_def k_def)
  show ?thesis
  proof (cases "dca_entries c k")
    case None
    obtain d n where d: "evictOldest (dca_order c @ [k]) ((dca_entries c)(k \<mapsto> ?e)) (dca_bytes c + dce_bytes ?e) = Some d"
      "cache_ok d" "dca_order d = drop n (dca_order c @ [k])" "n < length (dca_order c @ [k])"
      "\<forall>l. dca_entries d l = (if l \<in> set (take n (dca_order c @ [k])) then None else ((dca_entries c)(k \<mapsto> ?e)) l)"
      using evict_ok [OF accounted_push [OF ok None e]] by blast
    then show ?thesis using None by (intro exI [of _ d] exI [of _ n]) (simp add: publishEntry_def)
  next
    case (Some previous)
    have acc: "accounted (dca_order c) ((dca_entries c)(k \<mapsto> ?e)) (dca_bytes c - dce_bytes previous + dce_bytes ?e)"
      by (rule accounted_replace [OF ok Some e])
    then have ne: "dca_order c \<noteq> []" by (auto simp: accounted_def)
    obtain d n where d: "evictOldest (dca_order c) ((dca_entries c)(k \<mapsto> ?e))
        (dca_bytes c - dce_bytes previous + dce_bytes ?e) = Some d"
      "cache_ok d" "dca_order d = drop n (dca_order c)" "n < length (dca_order c)"
      "\<forall>l. dca_entries d l = (if l \<in> set (take n (dca_order c)) then None else ((dca_entries c)(k \<mapsto> ?e)) l)"
      using evict_ok [OF acc] ne by blast
    then show ?thesis using Some by (intro exI [of _ d] exI [of _ n]) (simp add: publishEntry_def)
  qed
qed

section \<open>A store that may forget\<close>

text \<open>
  The contract of a cache: it may drop what it holds, but it answers a request only with what
  was put under the same identity, and a value that it accepts under a new identity is found at
  once.
\<close>

locale lossy_store =
  fixes good :: "'s \<Rightarrow> bool"
    and start :: 's
    and find :: "'s \<Rightarrow> 'q \<Rightarrow> 'v option"
    and put :: "'s \<Rightarrow> 'q \<Rightarrow> 'v \<Rightarrow> 's"
    and accepts :: "'q \<Rightarrow> 'v \<Rightarrow> bool"
    and same :: "'q \<Rightarrow> 'q \<Rightarrow> bool"
  assumes good_start: "good start"
    and good_put: "good s \<Longrightarrow> good (put s q v)"
    and find_start: "find start q = None"
    and find_put: "good s \<Longrightarrow> find (put s q v) p = Some w \<Longrightarrow>
      same p q \<and> w = v \<and> accepts q v \<or> find s p = Some w"
    and find_fresh: "good s \<Longrightarrow> accepts q v \<Longrightarrow> find s q = None \<Longrightarrow> find (put s q v) q = Some v"
begin

abbreviation run :: "('q \<times> 'v) list \<Rightarrow> 's" where
  "run h \<equiv> foldr (\<lambda>(q, v) s. put s q v) h start"

lemma good_run: "good (run h)"
  by (induction h) (auto simp: good_start good_put)

lemma found_was_put: "find (run h) p = Some w \<Longrightarrow> \<exists>q. (q, w) \<in> set h \<and> accepts q w \<and> same p q"
proof (induction h)
  case (Cons x h)
  obtain q v where x: "x = (q, v)" by fastforce
  then show ?case using Cons find_put [OF good_run, of h q v p w] by auto
qed (simp add: find_start)

lemma found_satisfies:
  assumes "\<And>q v. (q, v) \<in> set h \<Longrightarrow> accepts q v \<Longrightarrow> P q v"
    and "\<And>p q v. same p q \<Longrightarrow> P q v \<Longrightarrow> P p v"
    and "find (run h) p = Some w"
  shows "P p w"
  using found_was_put [OF assms(3)] assms(1,2) by blast

end

section \<open>The cache as such a store\<close>

definition cacheAfter :: "decision_cache \<Rightarrow> cache_result \<Rightarrow> evaluation_result \<Rightarrow> decision_cache" where
  "cacheAfter c identity res =
     (case storeIdentity (Some c) identity res of Some (Some d, stored) \<Rightarrow> d | _ \<Rightarrow> c)"

definition cacheFind :: "decision_cache \<Rightarrow> cache_result \<Rightarrow> evaluation_result option" where
  "cacheFind c identity = fst (lookupIdentity (Some c) identity)"

definition same_identity :: "cache_result \<Rightarrow> cache_result \<Rightarrow> bool" where
  "same_identity i j \<longleftrightarrow> car_eligible i \<and> car_eligible j \<and> car_identity i = car_identity j"

lemma cacheFind_ok:
  assumes "cache_ok c"
  shows "cacheFind c i = (if car_eligible i then map_option dce_result (dca_entries c (car_identity i)) else None)"
proof (cases "dca_entries c (car_identity i)")
  case (Some e)
  then have "cached_ok (car_identity i) e" using assms by (simp add: cache_ok_def accounted_def)
  then show ?thesis using Some by (simp add: cacheFind_def lookupIdentity_def cached_ok_def)
qed (simp add: cacheFind_def lookupIdentity_def)

lemma lookup_reason: "lookupIdentity c i = (r, reason) \<Longrightarrow> car_eligible i \<Longrightarrow> reason = CacheEligible"
  by (auto simp: lookupIdentity_def split: option.splits if_splits)

lemma cacheAfter_storable:
  assumes "cache_ok c" and "storable i res"
  shows "storeIdentity (Some c) i res = Some (Some (cacheAfter c i res), True)"
  using publish_ok [OF assms] store_accepted [OF assms(2), of c] by (auto simp: cacheAfter_def)

lemma cacheAfter_refused: "\<not> storable i res \<Longrightarrow> cacheAfter c i res = c"
  by (simp add: cacheAfter_def store_refused)

lemma cacheAfter_publish:
  assumes "cache_ok c" and "storable i res"
    and "publishEntry c (car_identity i) res (estimateDecisionCacheResultBytes res) = Some d"
  shows "cacheAfter c i res = d"
  using assms store_accepted [OF assms(2), of c] by (simp add: cacheAfter_def)

interpretation decisions: lossy_store cache_ok NewDecisionCache cacheFind cacheAfter storable same_identity
proof
  show "cache_ok NewDecisionCache" by (rule new_cache_ok)
next
  fix c i res assume ok: "cache_ok c"
  then show "cache_ok (cacheAfter c i res)"
    using publish_ok [OF ok, of i res] cacheAfter_publish [OF ok, of i res] cacheAfter_refused [of i res c] by metis
next
  show "cacheFind NewDecisionCache i = None" for i
    by (simp add: cacheFind_def lookupIdentity_def NewDecisionCache_def)
next
  fix c i res p w
  assume ok: "cache_ok c" and f: "cacheFind (cacheAfter c i res) p = Some w"
  show "same_identity p i \<and> w = res \<and> storable i res \<or> cacheFind c p = Some w"
  proof (cases "storable i res")
    case True
    obtain d n order where d: "publishEntry c (car_identity i) res (estimateDecisionCacheResultBytes res) = Some d" "cache_ok d"
      "\<forall>l. dca_entries d l = (if l \<in> set (take n order) then None
         else if l = car_identity i then Some \<lparr>dce_result = res, dce_bytes = estimateDecisionCacheResultBytes res\<rparr>
         else dca_entries c l)"
      using publish_ok [OF ok True] unfolding Let_def by blast
    have "cacheFind d p = Some w" using f cacheAfter_publish [OF ok True d(1)] by simp
    then show ?thesis using True d(3) cacheFind_ok [OF ok, of p] cacheFind_ok [OF d(2), of p]
      by (auto simp: same_identity_def storable_def split: if_splits)
  qed (use f cacheAfter_refused in simp)
next
  fix c i res
  assume ok: "cache_ok c" and st: "storable i res" and none: "cacheFind c i = None"
  have el: "car_eligible i" using st by (simp add: storable_def)
  have new: "dca_entries c (car_identity i) = None" using none el cacheFind_ok [OF ok, of i] by simp
  obtain d n where d: "publishEntry c (car_identity i) res (estimateDecisionCacheResultBytes res) = Some d" "cache_ok d"
    "n < length (dca_order c @ [car_identity i])"
    "\<forall>l. dca_entries d l = (if l \<in> set (take n (dca_order c @ [car_identity i])) then None
       else if l = car_identity i then Some \<lparr>dce_result = res, dce_bytes = estimateDecisionCacheResultBytes res\<rparr>
       else dca_entries c l)"
    using publish_ok [OF ok st] new by (auto simp: Let_def)
  have "car_identity i \<notin> set (dca_order c)" using new ok by (auto simp: cache_ok_def accounted_def)
  then have "car_identity i \<notin> set (take n (dca_order c @ [car_identity i]))"
    using d(3) by (auto dest: in_set_takeD)
  then show "cacheFind (cacheAfter c i res) i = Some res"
    using d(4) el cacheFind_ok [OF d(2), of i] cacheAfter_publish [OF ok st d(1)] by simp
qed

section \<open>Histories\<close>

text \<open>
  The caches that a sequence of stores can produce, with the stores, the last one first. The
  lock makes the critical sections of concurrent stores such a sequence; a lookup changes nothing.
\<close>

inductive cache_history :: "(cache_result \<times> evaluation_result) list \<Rightarrow> decision_cache \<Rightarrow> bool" where
  created: "cache_history [] NewDecisionCache"
| stored: "cache_history h c \<Longrightarrow> storeIdentity (Some c) identity res = Some (Some d, accepted) \<Longrightarrow>
    cache_history ((identity, res) # h) d"

inductive_cases cache_history_ConsE: "cache_history (store # h) c"

lemma history_is_run: "cache_history h c \<Longrightarrow> c = decisions.run h"
  by (induction rule: cache_history.induct) (auto simp: cacheAfter_def)

lemma history_ok: "cache_history h c \<Longrightarrow> cache_ok c"
  using history_is_run decisions.good_run by metis

lemma store_never_panics:
  assumes "cache_ok c"
  shows "storeIdentity (Some c) identity res = Some (Some (cacheAfter c identity res), storable identity res)"
  using cacheAfter_storable [OF assms] store_refused cacheAfter_refused by (cases "storable identity res") auto

lemma history_exists: "\<exists>c. cache_history h c"
proof (induction h)
  case (Cons x h)
  then obtain c where c: "cache_history h c" by blast
  then show ?case
    using cache_history.stored [OF c store_never_panics [OF history_ok [OF c]]] by (cases x) auto
qed (blast intro: cache_history.created)

lemma bounded_bytes: "cache_ok c \<Longrightarrow> unat (dca_bytes c) \<le> 2 ^ 26"
  by (simp add: cache_ok_def word_le_nat_alt MaxDecisionCacheBytes_def)

lemma lookup_hit:
  "lookupIdentity (Some c) i = (Some res, reason) \<longleftrightarrow> cacheFind c i = Some res \<and> car_eligible i \<and> reason = CacheEligible"
  by (auto simp: cacheFind_def lookupIdentity_def split: option.splits if_splits)

text \<open>
  C14: every sequence of stores runs to its end without a panic, and leaves a cache that holds
  at most 256 results of at most 64 MiB together: the order lists exactly the stored
  identities, each once, the counter of bytes is the exact sum of the estimates, without
  wrap-around, and every entry is a cacheable result without failure under its own identity.
\<close>

theorem decision_cache_invariant:
  "\<exists>c. cache_history h c
    \<and> distinct (dca_order c) \<and> set (dca_order c) = dom (dca_entries c) \<and> length (dca_order c) \<le> 256
    \<and> unat (dca_bytes c) = sum_list (map (\<lambda>k. unat (dce_bytes (the (dca_entries c k)))) (dca_order c))
    \<and> unat (dca_bytes c) \<le> 2 ^ 26
    \<and> (\<forall>k e. dca_entries c k = Some e \<longrightarrow> car_eligible (res_cache (dce_result e))
        \<and> car_identity (res_cache (dce_result e)) = k \<and> res_failure (dce_result e) = None
        \<and> dce_bytes e = estimateDecisionCacheResultBytes (dce_result e))"
proof -
  obtain c where h: "cache_history h c" using history_exists by blast
  then have ok: "cache_ok c" by (rule history_ok)
  then have acc: "accounted (dca_order c) (dca_entries c) (dca_bytes c)" by (simp add: cache_ok_def)
  have m: "map (entry_bytes (dca_entries c)) (dca_order c)
      = map (\<lambda>k. unat (dce_bytes (the (dca_entries c k)))) (dca_order c)"
    using acc by (intro map_cong) (auto simp: accounted_def entry_bytes_def split: option.split)
  have "unat (dca_bytes c) = sum_list (map (entry_bytes (dca_entries c)) (dca_order c))"
    using acc unfolding accounted_def by blast
  then have "unat (dca_bytes c) = sum_list (map (\<lambda>k. unat (dce_bytes (the (dca_entries c k)))) (dca_order c))"
    unfolding m .
  moreover have "length (dca_order c) \<le> 256" using ok by (simp add: cache_ok_def MaxDecisionCacheEntries_def)
  ultimately show ?thesis using h acc bounded_bytes [OF ok]
    by (intro exI [of _ c]) (auto simp: accounted_def cached_ok_def)
qed

text \<open>
  A lookup after any sequence of stores answers only with a result that was stored, and
  accepted, under an eligible identity with the same digest.
\<close>

theorem cache_hit_was_stored:
  assumes "cache_history h c" and "lookupIdentity (Some c) i = (Some res, reason)"
  shows "car_eligible i \<and> reason = CacheEligible
    \<and> (\<exists>j. (j, res) \<in> set h \<and> car_eligible j \<and> car_identity j = car_identity i
        \<and> car_eligible (res_cache res) \<and> car_identity (res_cache res) = car_identity i \<and> res_failure res = None)"
proof -
  have "cacheFind (decisions.run h) i = Some res" "car_eligible i" "reason = CacheEligible"
    using assms history_is_run lookup_hit by metis+
  then show ?thesis using decisions.found_was_put [of h i res]
    by (auto simp: storable_def same_identity_def)
qed

text \<open>
  C22: a result that fits is stored under a new identity at once: the next lookup answers with
  it, whatever had to be evicted, and what is evicted are the oldest identities, so that the
  remaining ones keep their results.
\<close>

theorem cache_store_then_lookup:
  assumes "cache_history h c" and "storable i res" and "fst (lookupIdentity (Some c) i) = None"
  shows "\<exists>d n. storeIdentity (Some c) i res = Some (Some d, True)
    \<and> lookupIdentity (Some d) i = (Some res, CacheEligible)
    \<and> dca_order d = drop n (dca_order c) @ [car_identity i]
    \<and> (\<forall>k \<in> set (drop n (dca_order c)). dca_entries d k = dca_entries c k)"
proof -
  have ok: "cache_ok c" using assms(1) by (rule history_ok)
  have el: "car_eligible i" using assms(2) by (simp add: storable_def)
  have none: "cacheFind c i = None" using assms(3) by (simp add: cacheFind_def)
  then have new: "dca_entries c (car_identity i) = None" using cacheFind_ok [OF ok] el by simp
  obtain d n where d: "publishEntry c (car_identity i) res (estimateDecisionCacheResultBytes res) = Some d"
    "dca_order d = drop n (dca_order c @ [car_identity i])" "n < length (dca_order c @ [car_identity i])"
    "\<forall>l. dca_entries d l = (if l \<in> set (take n (dca_order c @ [car_identity i])) then None
       else if l = car_identity i then Some \<lparr>dce_result = res, dce_bytes = estimateDecisionCacheResultBytes res\<rparr>
       else dca_entries c l)"
    using publish_ok [OF ok assms(2)] new by (auto simp: Let_def)
  have after: "cacheAfter c i res = d" by (rule cacheAfter_publish [OF ok assms(2) d(1)])
  have dist: "distinct (dca_order c)" "car_identity i \<notin> set (dca_order c)"
    using ok new by (auto simp: cache_ok_def accounted_def)
  have "dca_entries d k = dca_entries c k" if k: "k \<in> set (drop n (dca_order c))" for k
  proof -
    have "k \<notin> set (take n (dca_order c))" using dist(1) k by (metis append_take_drop_id distinct_append disjoint_iff)
    moreover have "k \<noteq> car_identity i" using dist(2) k by (auto dest: in_set_dropD)
    ultimately show ?thesis using d(3,4) by simp
  qed
  then show ?thesis
    using d(2,3) cacheAfter_storable [OF ok assms(2)] after decisions.find_fresh [OF ok assms(2) none] el
    by (intro exI [of _ d] exI [of _ n]) (simp add: lookup_hit)
qed

text \<open>
  A prepared evaluation is the evaluation: preparing and then evaluating, with what the
  preparation left of the control, returns what the direct evaluation returns, and the identity
  under which it is looked up and stored is the cache identity of the input.
\<close>

theorem prepared_evaluation_agrees:
  "evaluate lib e inp control = (case prepare e inp control of (p, control') \<Rightarrow> prepared_evaluate lib p control')
    \<and> (case prepare e inp control of
          (PreparedInput e' p, control') \<Rightarrow> preparedCacheIdentity (Some (PreparedInput e' p)) = CacheIdentity e inp
        | (PreparedFailure failure cache, control') \<Rightarrow> \<not> car_eligible (preparedCacheIdentity (Some (PreparedFailure failure cache))))"
proof (cases e)
  case None
  then show ?thesis by (simp add: evaluate_def prepare_def preparedCacheIdentity_def noCache_def)
next
  case (Some e)
  obtain r c where r: "prepareEvaluation e inp control = (r, c)" by fastforce
  show ?thesis
  proof (cases r)
    case (Inl failure)
    then have "is_failure failure" using prepare_cases [of e inp control r c] r by simp
    then show ?thesis using Some Inl r failure_sel(3)
      by (auto simp: evaluate_def prepare_def preparedCacheIdentity_def)
  next
    case (Inr p)
    have "normalizeEvaluationInput e inp = Inr (ppd_input p)"
      "requestDigestValidated (inp_request (ppd_input p)) = Some (ppd_request_identity p)"
      "ppd_cache p = cacheIdentityNormalized e (ppd_input p) (ppd_request_identity p) (expectedIdentities e (ppd_input p))"
      using prepare_cases [of e inp control r c] r Inr by simp_all
    then show ?thesis using Some Inr r
      by (simp add: evaluate_def prepare_def preparedCacheIdentity_def CacheIdentity_def)
  qed
qed

section \<open>An example\<close>

definition sample_identity :: "string \<Rightarrow> cache_result" where
  "sample_identity k = \<lparr>car_eligible = True, car_reason = CacheEligible, car_identity = k\<rparr>"

definition sample_result :: "string \<Rightarrow> evaluation_result" where
  "sample_result k =
     \<lparr>res_decision = DecisionAllow, res_reason = ReasonDeclaredTool, res_tool_id = [], res_matched_rule_ids = [],
      res_candidates = [], res_budget_candidates = [], res_trace = [], res_trace_complete = True,
      res_trace_omitted = 0, res_completeness = CompleteEvidence, res_policy_digest = [], res_lock_digest = [],
      res_plan_identity = [], res_source_identity = [], res_cache = sample_identity k,
      res_required_approval_identity = [], res_inspection = None, res_phase_outcome = OutcomeDispatchEligible,
      res_failure = None\<rparr>"

lemma sample_storable: "storable (sample_identity ''k1'') (sample_result ''k1'')" "storable (sample_identity ''k2'') (sample_result ''k2'')"
  by (simp_all add: storable_def sample_identity_def sample_result_def estimateDecisionCacheResultBytes_def Let_def
      addStrings_def addDecisionCacheString_def addDecisionCacheBytes_def addDecisionCacheStringSlice_def
      addDecisionCacheSlice_def decisionCacheAllocationOverhead_def sizeofEvaluationResult_def
      decisionCacheStringOverhead_def CompleteEvidence_def MaxDecisionCacheBytes_def)

lemma sample_history:
  "cache_history [(sample_identity ''k1'', sample_result ''k1'')]
     (cacheAfter NewDecisionCache (sample_identity ''k1'') (sample_result ''k1''))"
  by (rule cache_history.stored [OF cache_history.created store_never_panics [OF new_cache_ok]])

lemma sample_found:
  "cacheFind (cacheAfter NewDecisionCache (sample_identity ''k1'') (sample_result ''k1'')) (sample_identity ''k1'')
    = Some (sample_result ''k1'')"
  by (rule decisions.find_fresh [OF new_cache_ok sample_storable(1) decisions.find_start])

theorem decision_cache_invariant_witness:
  "\<exists>c. cache_history [(sample_identity ''k1'', sample_result ''k1'')] c \<and> length (dca_order c) \<le> 256 \<and> unat (dca_bytes c) \<le> 2 ^ 26"
  using decision_cache_invariant [of "[(sample_identity ''k1'', sample_result ''k1'')]"] by blast

theorem cache_hit_was_stored_witness:
  "car_identity (res_cache (sample_result ''k1'')) = ''k1'' \<and> res_failure (sample_result ''k1'') = None"
  using cache_hit_was_stored [OF sample_history, of "sample_identity ''k1''" "sample_result ''k1''" CacheEligible]
    sample_found by (simp add: lookup_hit) (simp add: sample_identity_def)

theorem cache_store_then_lookup_witness:
  "\<exists>d. storeIdentity (Some (cacheAfter NewDecisionCache (sample_identity ''k1'') (sample_result ''k1'')))
      (sample_identity ''k2'') (sample_result ''k2'') = Some (Some d, True)
    \<and> lookupIdentity (Some d) (sample_identity ''k2'') = (Some (sample_result ''k2''), CacheEligible)"
proof -
  let ?c = "cacheAfter NewDecisionCache (sample_identity ''k1'') (sample_result ''k1'')"
  have "cacheFind ?c (sample_identity ''k2'') = None"
    using decisions.find_put [OF new_cache_ok, of "sample_identity ''k1''" "sample_result ''k1''" "sample_identity ''k2''"]
      decisions.find_start
    by (cases "cacheFind ?c (sample_identity ''k2'')") (auto simp: same_identity_def sample_identity_def)
  then have "fst (lookupIdentity (Some ?c) (sample_identity ''k2'')) = None" by (simp add: cacheFind_def)
  then show ?thesis using cache_store_then_lookup [OF sample_history sample_storable(2)] by blast
qed

end
