(* ===== verification/Action_Binding.thy ===== *)
theory Action_Binding
  imports Action_Cache
begin

text \<open>
  The cache key covers the evaluation: the trees that are digested, the request and the cache
  binding (decision_cache.go, evaluator_types.go), determine the normalized input field by
  field, so two inputs of one evaluator with the same trees are the same input.
\<close>

section \<open>Members of an encoded struct\<close>

named_theorems struct_simps "comparison of encoded structs, member by member"

definition fresh :: "string \<Rightarrow> (string \<times> json) list \<Rightarrow> bool" where
  "fresh name ms \<longleftrightarrow> name \<notin> fst ` set ms"

lemma fresh_simps [struct_simps]:
  "fresh n []" "fresh n ((m, j) # r) \<longleftrightarrow> n \<noteq> m \<and> fresh n r" "fresh n (r @ r') \<longleftrightarrow> fresh n r \<and> fresh n r'"
  "fresh n (text_field m s) \<longleftrightarrow> n \<noteq> m" "fresh n (bool_field m b) \<longleftrightarrow> n \<noteq> m" "fresh n (texts_field m ss) \<longleftrightarrow> n \<noteq> m"
  "fresh n (nat_field m k) \<longleftrightarrow> n \<noteq> m" "n \<noteq> m \<Longrightarrow> fresh n (text_omitted m s)" "n \<noteq> m \<Longrightarrow> fresh n (nat_omitted m k)"
  "n \<noteq> m \<Longrightarrow> fresh n (tree_omitted m t)"
  by (auto simp: fresh_def text_field_def bool_field_def texts_field_def nat_field_def text_omitted_def nat_omitted_def
      tree_omitted_def split: option.splits)

lemma show_nat_inject [simp]: "show_nat m = show_nat n \<longleftrightarrow> m = n"
  using show_nat_props by metis

lemma fresh_head: "fresh n r \<Longrightarrow> (n, j) # r' \<noteq> r"
  by (auto simp: fresh_def)

lemma member_simps [struct_simps]:
  "text_field n s @ r = text_field n s' @ r' \<longleftrightarrow> s = s' \<and> r = r'"
  "bool_field n b @ r = bool_field n b' @ r' \<longleftrightarrow> b = b' \<and> r = r'"
  "nat_field n k @ r = nat_field n k' @ r' \<longleftrightarrow> k = k' \<and> r = r'"
  "texts_field n ss @ r = texts_field n ss' @ r' \<longleftrightarrow> ss = ss' \<and> r = r'"
  by (auto simp: text_field_def bool_field_def nat_field_def texts_field_def inj_map_eq_map inj_def)

lemma last_member_simps [struct_simps]:
  "text_field n s = text_field n s' \<longleftrightarrow> s = s'" "bool_field n b = bool_field n b' \<longleftrightarrow> b = b'"
  "nat_field n k = nat_field n k' \<longleftrightarrow> k = k'"
  by (auto simp: text_field_def bool_field_def nat_field_def)

lemma omitted_simps [struct_simps]:
  "fresh n r \<Longrightarrow> fresh n r' \<Longrightarrow> text_omitted n s @ r = text_omitted n s' @ r' \<longleftrightarrow> s = s' \<and> r = r'"
  "fresh n r \<Longrightarrow> fresh n r' \<Longrightarrow> nat_omitted n k @ r = nat_omitted n k' @ r' \<longleftrightarrow> k = k' \<and> r = r'"
  "fresh n r \<Longrightarrow> fresh n r' \<Longrightarrow> tree_omitted n t @ r = tree_omitted n t' @ r' \<longleftrightarrow> t = t' \<and> r = r'"
  "nat_omitted n k = nat_omitted n k' \<longleftrightarrow> k = k'" "text_omitted n s = text_omitted n s' \<longleftrightarrow> s = s'"
  "tree_omitted n t = tree_omitted n t' \<longleftrightarrow> t = t'" "texts_field n ss = texts_field n ss' \<longleftrightarrow> ss = ss'"
  by (auto simp: text_omitted_def nat_omitted_def tree_omitted_def texts_field_def inj_map_eq_map inj_def dest: fresh_head fresh_head [THEN not_sym]
      split: option.splits)

section \<open>Texts of enumerations\<close>

text \<open>A text determines its constant among the valid ones.\<close>

definition valid_reasons :: "reason_code list" where
  "valid_reasons =
     [NoReason, ReasonDeclaredTool, ReasonHostUnmatched, ReasonRuleMatched, ReasonInvalidRequest, ReasonDuplicateKey,
      ReasonInvalidUTF8, ReasonSchemaInvalid, ReasonLimitExceeded, ReasonPolicyMissing, ReasonPolicyStale,
      ReasonLockMismatch, ReasonUnsupportedPhase, ReasonToolUnclassified, ReasonToolContractStale,
      ReasonContextUntrusted, ReasonIdentityUnavailable, ReasonConditionIndeterminate, ReasonBudgetExhausted,
      ReasonStateUnavailable, ReasonStateCorrupt, ReasonReservationIndeterminate, ReasonApprovalRequired,
      ReasonApprovalRejected, ReasonApprovalInvalid, ReasonApprovalExpired, ReasonApprovalReplayed,
      ReasonAuthorityUnavailable, ReasonInspectionIncomplete, ReasonUnsupportedContent, ReasonResultWithheld,
      ReasonLedgerUnavailable, ReasonLedgerCorrupt, ReasonDownstreamUnavailable, ReasonDownstreamError,
      ReasonDownstreamUnknown, ReasonProtocolError, ReasonCancelled, ReasonDeadlineExceeded, ReasonShutdown,
      ReasonInternalInvariant]"

definition reason_known :: "reason_code \<Rightarrow> bool" where
  "reason_known r \<longleftrightarrow> r = NoReason \<or> reason_valid r"

lemma reason_known_listed: "reason_known r \<longleftrightarrow> r \<in> set valid_reasons"
  by (cases r) (simp_all add: reason_known_def valid_reasons_def)

lemma reason_texts_distinct: "distinct (map reason_text valid_reasons)"
  unfolding valid_reasons_def by code_simp

lemma reason_text_inject: "reason_known a \<Longrightarrow> reason_known b \<Longrightarrow> reason_text a = reason_text b \<longleftrightarrow> a = b"
  using reason_texts_distinct by (metis distinct_map inj_onD reason_known_listed)

lemma enum_texts_inject:
  "transport_valid t \<Longrightarrow> transport_valid t' \<Longrightarrow> transport_text t = transport_text t' \<longleftrightarrow> t = t'"
  "phase_valid p \<Longrightarrow> phase_valid p' \<Longrightarrow> phase_text p = phase_text p' \<longleftrightarrow> p = p'"
  "authority_valid a \<Longrightarrow> authority_valid a' \<Longrightarrow> authority_text a = authority_text a' \<longleftrightarrow> a = a'"
  "deadline_valid d \<Longrightarrow> deadline_valid d' \<Longrightarrow> deadline_text d = deadline_text d' \<longleftrightarrow> d = d'"
  "lifecycle_valid l \<Longrightarrow> lifecycle_valid l' \<Longrightarrow> lifecycle_text l = lifecycle_text l' \<longleftrightarrow> l = l'"
  "approval_status_valid s \<Longrightarrow> approval_status_valid s' \<Longrightarrow> approval_status_text s = approval_status_text s' \<longleftrightarrow> s = s'"
  "taint_status_valid u \<Longrightarrow> taint_status_valid u' \<Longrightarrow> taint_status_text u = taint_status_text u' \<longleftrightarrow> u = u'"
  "provenance_valid v \<Longrightarrow> provenance_valid v' \<Longrightarrow> provenance_text v = provenance_text v' \<longleftrightarrow> v = v'"
  "evidence_field_valid f \<Longrightarrow> evidence_field_valid f' \<Longrightarrow> evidence_field_text f = evidence_field_text f' \<longleftrightarrow> f = f'"
  "inspection_status_valid i \<Longrightarrow> inspection_status_valid i' \<Longrightarrow>
     inspection_status_text i = inspection_status_text i' \<longleftrightarrow> i = i'"
  "schema_status_valid c \<Longrightarrow> schema_status_valid c' \<Longrightarrow> schema_status_text c = schema_status_text c' \<longleftrightarrow> c = c'"
  subgoal by (cases t; cases t'; simp add: enum_defs)
  subgoal by (cases p; cases p'; simp add: phase_valid_def AllPhases_def)
  subgoal by (cases a; cases a'; simp add: enum_defs)
  subgoal by (cases d; cases d'; simp add: enum_defs)
  subgoal by (cases l; cases l'; simp add: enum_defs)
  subgoal by (cases s; cases s'; simp add: enum_defs)
  subgoal by (cases u; cases u'; simp add: enum_defs)
  subgoal by (cases v; cases v'; simp add: provenance_valid_def)
  subgoal by (cases f; cases f'; simp add: enum_defs)
  subgoal by (cases i; cases i'; simp add: enum_defs)
  subgoal by (cases c; cases c'; simp add: enum_defs)
  done

definition decision_known :: "decision \<Rightarrow> bool" where
  "decision_known d \<longleftrightarrow> decision_valid d \<or> d = DecisionOther []"

lemma decision_text_inject:
  "decision_known d \<Longrightarrow> decision_known d' \<Longrightarrow> decision_text d = decision_text d' \<longleftrightarrow> d = d'"
  by (cases d; cases d'; simp add: decision_known_def)

section \<open>Records\<close>

lemma unat_same [simp]: "unat v = unat w \<longleftrightarrow> v = w" for v w :: "'a :: len word"
  by (simp add: word_unat_eq_iff)

lemma show_int_inject [simp]: "show_int i = show_int j \<longleftrightarrow> i = j"
proof -
  have "show_nat n \<noteq> CHR ''-'' # ds" for n ds
    using show_nat_props [of n] by (auto simp: is_digit_def)
  then show ?thesis by (auto simp: show_int_def) (metis)
qed

lemma map_determines:
  assumes "map f xs = map f ys" and "\<And>x y. (x, y) \<in> set (zip xs ys) \<Longrightarrow> f x = f y \<Longrightarrow> x = y"
  shows "xs = ys"
proof (rule nth_equalityI)
  show len: "length xs = length ys" using assms(1) by (rule map_eq_imp_length_eq)
  fix i assume i: "i < length xs"
  have "f (xs ! i) = f (ys ! i)" using arg_cong [OF assms(1), of "\<lambda>l. l ! i"] i len by simp
  moreover have "(xs ! i, ys ! i) \<in> set (zip xs ys)" using i len by (auto simp: set_zip)
  ultimately show "xs ! i = ys ! i" using assms(2) by blast
qed

lemma usage_inject: "usage_json a = usage_json b \<longleftrightarrow> a = b"
  by (cases a; cases b) (auto simp: usage_json_def struct_simps)

lemma limits_inject: "limits_json a = limits_json b \<longleftrightarrow> a = b"
  by (cases a; cases b) (auto simp: limits_json_def struct_simps)

lemma generation_inject: "generation_json a = generation_json b \<longleftrightarrow> a = b"
  by (cases a; cases b) (auto simp: generation_json_def struct_simps)

lemma scope_inject: "scope_json a = scope_json b \<longleftrightarrow> a = b"
  by (cases a; cases b) (auto simp: scope_json_def struct_simps inj_map_eq_map inj_def split: if_splits)

lemma budget_candidate_inject:
  "budget_candidate_json a = budget_candidate_json b \<Longrightarrow> reason_known (bc_reason a) \<Longrightarrow> reason_known (bc_reason b) \<Longrightarrow>
     bc_reset a = bc_reset b \<Longrightarrow> a = b"
  by (cases a; cases b) (simp add: budget_candidate_json_def struct_simps usage_inject limits_inject generation_inject
      scope_inject reason_text_inject)

lemma approval_inject:
  "approval_json a = approval_json b \<Longrightarrow> approval_status_valid (aps_status a) \<Longrightarrow> approval_status_valid (aps_status b) \<Longrightarrow> a = b"
  by (cases a; cases b) (simp add: approval_json_def struct_simps enum_texts_inject)

lemma taint_inject:
  "taint_json a = taint_json b \<Longrightarrow> taint_status_valid (tns_status a) \<Longrightarrow> taint_status_valid (tns_status b) \<Longrightarrow> a = b"
  by (cases a; cases b) (simp add: taint_json_def struct_simps enum_texts_inject)

lemma repository_effect_inject:
  "repository_effect_json a = repository_effect_json b \<Longrightarrow> decision_valid (rec_decision a) \<Longrightarrow> reason_valid (rec_reason a) \<Longrightarrow>
     decision_valid (rec_decision b) \<Longrightarrow> reason_valid (rec_reason b) \<Longrightarrow> a = b"
  by (cases a; cases b) (simp add: repository_effect_json_def struct_simps decision_text_inject decision_known_def
      reason_text_inject reason_known_def)

lemma identity_snapshot_inject:
  "identity_snapshot_json a = identity_snapshot_json b \<Longrightarrow> authority_valid (ids_authority_mode a) \<Longrightarrow>
     authority_valid (ids_authority_mode b) \<Longrightarrow> a = b"
  by (cases a; cases b) (simp add: identity_snapshot_json_def struct_simps enum_texts_inject)

lemma field_evidence_inject:
  "field_evidence_json a = field_evidence_json b \<Longrightarrow> fev_source a = fev_source b \<Longrightarrow> a = b"
  by (cases a; cases b) (simp add: field_evidence_json_def struct_simps)

lemma content_evidence_inject: "content_evidence_json a = content_evidence_json b \<longleftrightarrow> a = b"
  by (cases a; cases b) (auto simp: content_evidence_json_def struct_simps)

lemma missing_inject:
  "missing_json a = missing_json b \<Longrightarrow> evidence_field_valid (miss_field a) \<Longrightarrow> reason_known (miss_reason a) \<Longrightarrow>
     evidence_field_valid (miss_field b) \<Longrightarrow> reason_known (miss_reason b) \<Longrightarrow> a = b"
  by (cases a; cases b) (simp add: missing_json_def struct_simps enum_texts_inject reason_text_inject)

section \<open>Requests\<close>

definition settled_completeness :: "completeness \<Rightarrow> bool" where
  "settled_completeness c \<longleftrightarrow>
     (\<forall>m \<in> set (cpl_missing c). evidence_field_valid (miss_field m) \<and> reason_known (miss_reason m))"

lemma completeness_inject:
  assumes "completeness_json a = completeness_json b" and "settled_completeness a" "settled_completeness b"
  shows "a = b"
proof -
  have "cpl_missing a = cpl_missing b"
  proof (rule map_determines [of missing_json])
    show "map missing_json (cpl_missing a) = map missing_json (cpl_missing b)"
      using assms(1) by (simp add: completeness_json_def struct_simps)
    fix m n assume "(m, n) \<in> set (zip (cpl_missing a) (cpl_missing b))" "missing_json m = missing_json n"
    then show "m = n" using assms(2,3) missing_inject
      by (metis set_zip_leftD set_zip_rightD settled_completeness_def)
  qed
  then show ?thesis using assms(1) by (cases a; cases b) (simp add: completeness_json_def struct_simps)
qed

lemma context_value_inject:
  assumes "context_value_json a = context_value_json b" and "entry_ok a" "entry_ok b"
  shows "a = b"
proof -
  have p: "provenance_valid (ctx_provenance a)" "provenance_valid (ctx_provenance b)"
    using assms(2,3) by (simp_all add: entry_ok_def)
  have eq: "ctx_name a = ctx_name b" "ctx_provenance a = ctx_provenance b" "ctx_available a = ctx_available b"
    "ctx_available a \<Longrightarrow> value_json (ctx_value a) = value_json (ctx_value b)"
    using assms(1) p by (simp_all add: context_value_json_def struct_simps enum_texts_inject split: if_splits)
  have "ctx_value a = ctx_value b"
  proof (cases "ctx_available a")
    case True
    then have "wf_value (ctx_value a)" "wf_value (ctx_value b)"
      using assms(2,3) eq(3) by (auto simp: entry_ok_def cloneRuntimeValue_ok)
    then show ?thesis using value_json_inject eq(4) True by blast
  next
    case False
    then show ?thesis using assms(2,3) eq(3) by (simp add: entry_ok_def)
  qed
  then show ?thesis using eq by (cases a; cases b) simp
qed

definition settled_payload :: "json_value option \<Rightarrow> bool" where
  "settled_payload v \<longleftrightarrow> (case v of None \<Rightarrow> True | Some v \<Rightarrow> wf_value v)"

lemma payload_inject:
  "map_option value_json v = map_option value_json w \<Longrightarrow> settled_payload v \<Longrightarrow> settled_payload w \<Longrightarrow> v = w"
  by (auto simp: settled_payload_def dest: value_json_inject split: option.splits)

definition settled_request :: "request \<Rightarrow> bool" where
  "settled_request r \<longleftrightarrow>
     transport_valid (req_transport r) \<and> phase_valid (req_phase r) \<and> authority_valid (req_authority_mode r)
     \<and> deadline_valid (req_deadline r) \<and> settled_payload (req_arguments r) \<and> settled_payload (req_result r)
     \<and> settled_payload (req_progress r) \<and> (\<forall>c \<in> set (req_context r). entry_ok c)
     \<and> settled_completeness (req_completeness r)"

lemma request_inject:
  assumes "request_json a = request_json b" and "settled_request a" "settled_request b"
  shows "a = b"
proof -
  note s = assms(2,3) [unfolded settled_request_def]
  have "req_context a = req_context b"
  proof (rule map_determines [of context_value_json])
    show "map context_value_json (req_context a) = map context_value_json (req_context b)"
      using assms(1) by (simp add: request_json_def struct_simps)
    fix c d assume "(c, d) \<in> set (zip (req_context a) (req_context b))" "context_value_json c = context_value_json d"
    then show "c = d" using s context_value_inject by (metis set_zip_leftD set_zip_rightD)
  qed
  moreover have "completeness_json (req_completeness a) = completeness_json (req_completeness b)"
    using assms(1) by (simp add: request_json_def struct_simps)
  then have "req_completeness a = req_completeness b" using s completeness_inject by blast
  moreover have "map_option value_json (req_arguments a) = map_option value_json (req_arguments b)"
    "map_option value_json (req_result a) = map_option value_json (req_result b)"
    "map_option value_json (req_progress a) = map_option value_json (req_progress b)"
    using assms(1) by (simp_all add: request_json_def struct_simps)
  then have "req_arguments a = req_arguments b" "req_result a = req_result b" "req_progress a = req_progress b"
    using s payload_inject by blast+
  moreover have "req_transport a = req_transport b" "req_phase a = req_phase b"
    "req_authority_mode a = req_authority_mode b" "req_deadline a = req_deadline b"
    using assms(1) s by (simp_all add: request_json_def struct_simps enum_texts_inject)
  ultimately show ?thesis using assms(1)
    by (intro request.equality) (simp_all add: request_json_def struct_simps)
qed

lemma failure_reason_known: "failureReason r \<Longrightarrow> reason_known r"
  by (cases r) (simp_all add: failureReason_def reason_known_def)

lemma checkMissing_settled:
  "checkMissing c previous ms = None \<Longrightarrow> m \<in> set ms \<Longrightarrow> evidence_field_valid (miss_field m) \<and> failureReason (miss_reason m)"
  by (induction c previous ms rule: checkMissing.induct) (auto split: if_splits)

lemma validated_request_settled:
  assumes "validateAndCloneRequest inp = Inr r"
  shows "settled_request r"
proof -
  obtain n cx c where meta: "validateRequestMetadata inp = None" and p: "validatePhasePayload inp = Inr n"
    and cx: "cloneContextValues (req_context inp) n = Inr cx" and c: "normalizeCompleteness (req_completeness inp) = Inr c"
    and r: "r = inp\<lparr>req_context := cx, req_completeness := c\<rparr>"
    using assms by (rule validate_request_cases)
  have "n \<le> maxArgumentBytes" using payload_ok [OF p] by simp
  then have "\<forall>e \<in> set cx. entry_ok e" using cx cloneContextValues_ok [of n "req_context inp" cx] by auto
  moreover have "settled_completeness c"
    using c checkMissing_settled failure_reason_known unfolding settled_completeness_def normalizeCompleteness_ok by blast
  moreover have "settled_payload (req_arguments inp)" "settled_payload (req_result inp)" "settled_payload (req_progress inp)"
    using payload_ok [OF p] by (auto simp: settled_payload_def phase_payload_def cloneRuntimeValue_ok
        split: phase.splits option.splits)
  ultimately show ?thesis using meta r
    by (auto simp: settled_request_def validateRequestMetadata_def split: if_splits)
qed

section \<open>The mutable state\<close>

definition settled_inspection :: "phase \<Rightarrow> inspection_evidence \<Rightarrow> bool" where
  "settled_inspection p ev \<longleftrightarrow>
     inspection_status_valid (iev_status ev) \<and> schema_status_valid (iev_schema_status ev)
     \<and> decision_known (iev_decision ev) \<and> reason_known (iev_reason ev)
     \<and> (\<forall>f \<in> set (iev_fields ev). fev_source f = phaseSource p)"

lemma inspection_inject:
  assumes "inspection_json a = inspection_json b" and "settled_inspection p a" "settled_inspection p b"
  shows "a = b"
proof -
  note s = assms(2,3) [unfolded settled_inspection_def]
  have "iev_fields a = iev_fields b"
  proof (rule map_determines [of field_evidence_json])
    show "map field_evidence_json (iev_fields a) = map field_evidence_json (iev_fields b)"
      using assms(1) by (simp add: inspection_json_def struct_simps)
    fix f g assume "(f, g) \<in> set (zip (iev_fields a) (iev_fields b))" "field_evidence_json f = field_evidence_json g"
    then show "f = g" using s field_evidence_inject by (metis set_zip_leftD set_zip_rightD)
  qed
  moreover have "iev_unsupported_content a = iev_unsupported_content b"
    by (rule map_determines [of content_evidence_json])
      (use assms(1) in \<open>auto simp: inspection_json_def struct_simps content_evidence_inject\<close>)
  moreover have "iev_status a = iev_status b" "iev_schema_status a = iev_schema_status b"
    "iev_decision a = iev_decision b" "iev_reason a = iev_reason b"
    using assms(1) s by (simp_all add: inspection_json_def struct_simps enum_texts_inject decision_text_inject
        reason_text_inject)
  ultimately show ?thesis using assms(1)
    by (intro inspection_evidence.equality) (simp_all add: inspection_json_def struct_simps)
qed

definition settled_budget :: "budget list \<Rightarrow> budget_snapshot \<Rightarrow> bool" where
  "settled_budget declarations s \<longleftrightarrow>
     bsn_candidates s \<noteq> None \<and> map bc_reset (bsn_list s) = map bud_reset declarations
     \<and> (\<forall>c \<in> set (bsn_list s). reason_known (bc_reason c))"

lemma budget_snapshot_inject:
  assumes "budget_snapshot_json a = budget_snapshot_json b" and "settled_budget bs a" "settled_budget bs b"
  shows "a = b"
proof -
  note s = assms(2,3) [unfolded settled_budget_def]
  have len: "length (bsn_list a) = length (bsn_list b)" using s by (metis length_map)
  have "bsn_list a = bsn_list b"
  proof (rule map_determines [of budget_candidate_json])
    show "map budget_candidate_json (bsn_list a) = map budget_candidate_json (bsn_list b)"
      using assms(1) by (simp add: budget_snapshot_json_def struct_simps)
    fix c d assume z: "(c, d) \<in> set (zip (bsn_list a) (bsn_list b))" and eq: "budget_candidate_json c = budget_candidate_json d"
    obtain i where i: "i < length (bsn_list a)" "c = bsn_list a ! i" "d = bsn_list b ! i"
      using z by (auto simp: set_zip)
    have "map bc_reset (bsn_list a) ! i = map bc_reset (bsn_list b) ! i" using s by simp
    then have "bc_reset c = bc_reset d" using i len by simp
    moreover have "reason_known (bc_reason c)" "reason_known (bc_reason d)"
      using s z by (metis set_zip_leftD, metis set_zip_rightD)
    ultimately show "c = d" using eq budget_candidate_inject by blast
  qed
  moreover have "bsn_candidates a = Some (bsn_list a)" "bsn_candidates b = Some (bsn_list b)"
    using s by (auto simp: bsn_list_def)
  ultimately show ?thesis using assms(1)
    by (intro budget_snapshot.equality) (simp_all add: budget_snapshot_json_def struct_simps)
qed

lemma clone_budget_json [simp]: "budget_snapshot_json (cloneBudgetSnapshot s) = budget_snapshot_json s"
  by (simp add: budget_snapshot_json_def cloneBudgetSnapshot_def bsn_list_def)

section \<open>Inputs\<close>

definition expected_budgets :: "evaluator \<Rightarrow> request \<Rightarrow> budget list" where
  "expected_budgets e r = matchingBudgets e r (snd (selectTool e r))"

definition settled_input :: "evaluator \<Rightarrow> evaluation_input \<Rightarrow> bool" where
  "settled_input e n \<longleftrightarrow>
     settled_request (inp_request n) \<and> settled_budget (expected_budgets e (inp_request n)) (inp_budget n)
     \<and> approval_status_valid (aps_status (inp_approval n)) \<and> taint_status_valid (tns_status (inp_taint n))
     \<and> lifecycle_valid (inp_lifecycle n)
     \<and> (\<forall>r. inp_repository_effect n = Some r \<longrightarrow> decision_valid (rec_decision r) \<and> reason_valid (rec_reason r))
     \<and> (\<forall>ev. inp_inspection n = Some ev \<longrightarrow> settled_inspection (req_phase (inp_request n)) ev)
     \<and> authority_valid (ids_authority_mode (inp_resampled n))"

text \<open>Every field of the input is in one of the two trees.\<close>

lemma binding_covers_input:
  assumes "request_json (inp_request n) = request_json (inp_request m)"
    and "cacheBinding e n i x = cacheBinding e m j y"
    and n: "settled_input e n" and m: "settled_input e m"
  shows "n = m"
proof -
  have req: "inp_request n = inp_request m"
    using request_inject assms(1) n m by (simp add: settled_input_def)
  note eq = assms(2) [unfolded cacheBinding_def Let_def req]
  have trees: "map_option repository_effect_json (inp_repository_effect n)
      = map_option repository_effect_json (inp_repository_effect m)"
    "map_option inspection_json (inp_inspection n) = map_option inspection_json (inp_inspection m)"
    "budget_snapshot_json (inp_budget n) = budget_snapshot_json (inp_budget m)"
    "approval_json (inp_approval n) = approval_json (inp_approval m)" "taint_json (inp_taint n) = taint_json (inp_taint m)"
    "identity_snapshot_json (inp_resampled n) = identity_snapshot_json (inp_resampled m)"
    "lifecycle_text (inp_lifecycle n) = lifecycle_text (inp_lifecycle m)"
    using eq by (simp_all add: struct_simps)
  have "inp_repository_effect n = inp_repository_effect m"
    using trees(1) n m repository_effect_inject by (fastforce simp: settled_input_def map_option_case split: option.splits)
  moreover have "inp_inspection n = inp_inspection m"
    using trees(2) n m inspection_inject req
    by (fastforce simp: settled_input_def map_option_case split: option.splits)
  moreover have "inp_budget n = inp_budget m"
    using trees(3) n m budget_snapshot_inject req unfolding settled_input_def by metis
  moreover have "inp_approval n = inp_approval m" "inp_taint n = inp_taint m" "inp_resampled n = inp_resampled m"
    using trees(4-6) n m approval_inject taint_inject identity_snapshot_inject unfolding settled_input_def by blast+
  moreover have "inp_lifecycle n = inp_lifecycle m"
    using trees(7) n m by (simp add: settled_input_def enum_texts_inject)
  ultimately show ?thesis using req eq
    by (intro evaluation_input.equality) (simp_all add: struct_simps)
qed

section \<open>What normalization guarantees\<close>

text \<open>The nil candidates of a snapshot that is not the zero snapshot are not used by any store.\<close>

definition budget_present :: "evaluation_input \<Rightarrow> bool" where
  "budget_present inp \<longleftrightarrow> bsn_candidates (inp_budget inp) \<noteq> None \<or> budgetSnapshotZero (inp_budget inp)"

lemma normalized_cases:
  assumes "normalizeEvaluationInput e inp = Inr n"
  obtains r m b snapshot where
    "validateAndCloneRequest (inp_request inp) = Inr r" "inp_request m = r" "inp_budget m = inp_budget inp"
    "mutableAuthorityValid m" "normalizeRepositoryEffect (inp_repository_effect inp) = Inr (inp_repository_effect m)"
    "normalizeInspectionEvidence (inp_inspection inp) (inspectionExpectation e r) (req_phase r) = Inr (inp_inspection m)"
    "normalizeBudgetInput e m = Inr b" "normalizeIdentitySnapshot (inp_resampled b) = Some snapshot"
    "n = b\<lparr>inp_resampled := snapshot\<rparr>"
proof -
  obtain r where r: "validateAndCloneRequest (inp_request inp) = Inr r"
    using assms by (auto simp: normalizeEvaluationInput_def split: sum.splits)
  obtain credentials where c: "safeStringList (inp_credential_labels inp) MaxCredentialLabels = Some credentials"
    using assms r by (auto simp: normalizeEvaluationInput_def inputFailure_def Let_def split: option.splits if_splits)
  define tail where "tail k = (case normalizeRepositoryEffect (inp_repository_effect k) of
      Inl err \<Rightarrow> Inl err
    | Inr effect \<Rightarrow>
        (case normalizeInspectionEvidence (inp_inspection k) (inspectionExpectation e (inp_request k)) (req_phase (inp_request k)) of
            Inl err \<Rightarrow> Inl err
          | Inr inspection \<Rightarrow>
              (case normalizeBudgetInput e (k\<lparr>inp_repository_effect := effect, inp_inspection := inspection\<rparr>) of
                 Inl err \<Rightarrow> Inl err
               | Inr inp \<Rightarrow>
                   (case normalizeIdentitySnapshot (inp_resampled inp) of
                      None \<Rightarrow> inputFailure ReasonIdentityUnavailable ''resampled identity set is incomplete''
                    | Some snapshot \<Rightarrow> Inr (inp\<lparr>inp_resampled := snapshot\<rparr>)))))" for k
  obtain k where rest: "tail k = Inr n" and auth: "mutableAuthorityValid k"
    and sel: "inp_request k = r" "inp_budget k = inp_budget inp" "inp_repository_effect k = inp_repository_effect inp"
      "inp_inspection k = inp_inspection inp"
  proof (cases "req_transport r \<noteq> TransportMCPStdio \<and> inp_executable_digest inp = []")
    case True
    then show ?thesis
      using assms r c that [of "inp\<lparr>inp_request := r, inp_credential_labels := credentials, inp_executable_digest := ''absent''\<rparr>"]
      by (simp add: normalizeEvaluationInput_def inputFailure_def Let_def tail_def cong: sum.case_cong split: if_split_asm)
  next
    case False
    then show ?thesis
      using assms r c that [of "inp\<lparr>inp_request := r, inp_credential_labels := credentials\<rparr>"]
      by (simp add: normalizeEvaluationInput_def inputFailure_def Let_def tail_def cong: sum.case_cong split: if_split_asm)
  qed
  note rest = rest [unfolded tail_def sel]
  obtain effect where e: "normalizeRepositoryEffect (inp_repository_effect inp) = Inr effect"
    using rest by (auto split: sum.splits)
  obtain inspection where i: "normalizeInspectionEvidence (inp_inspection inp) (inspectionExpectation e r) (req_phase r)
      = Inr inspection"
    using rest e by (auto split: sum.splits)
  let ?m = "k\<lparr>inp_repository_effect := effect, inp_inspection := inspection\<rparr>"
  obtain b where b: "normalizeBudgetInput e ?m = Inr b"
    using rest e i by (auto split: sum.splits)
  obtain snapshot where s: "normalizeIdentitySnapshot (inp_resampled b) = Some snapshot" "n = b\<lparr>inp_resampled := snapshot\<rparr>"
    using rest e i b by (auto simp: inputFailure_def split: option.splits)
  have "mutableAuthorityValid ?m" using auth by (simp add: mutableAuthorityValid_def)
  then show ?thesis using that [of r ?m b snapshot] r sel e i b s by simp
qed

lemma normalized_budget:
  assumes "normalizeBudgetInput e m = Inr b" and "bsn_candidates (inp_budget m) \<noteq> None \<or> budgetSnapshotZero (inp_budget m)"
  shows "b = m\<lparr>inp_budget := inp_budget b\<rparr> \<and> settled_budget (expected_budgets e (inp_request m)) (inp_budget b)"
proof -
  obtain t toolID where t: "selectTool e (inp_request m) = (t, toolID)" by fastforce
  have x: "expected_budgets e (inp_request m) = matchingBudgets e (inp_request m) toolID"
    by (simp add: expected_budgets_def t)
  show ?thesis
  proof (cases "matchingBudgets e (inp_request m) toolID = []")
    case True
    consider "budgetSnapshotZero (inp_budget m)" "b = m\<lparr>inp_budget := \<lparr>bsn_state_version = req_state_version (inp_request m),
        bsn_identity = ''absent'', bsn_reservation_identity = ''absent'', bsn_complete = True, bsn_candidates = Some []\<rparr>\<rparr>"
      | "canonicalAbsentBudget (inp_budget m) (req_state_version (inp_request m))" "b = m"
        "bsn_candidates (inp_budget m) \<noteq> None"
      using assms True t by (auto simp: normalizeBudgetInput_def Let_def split: if_splits)
    then show ?thesis
      by cases (simp_all add: x True settled_budget_def bsn_list_def canonicalAbsentBudget_def)
  next
    case False
    obtain candidates key where b: "b = m\<lparr>inp_budget := (inp_budget m)\<lparr>bsn_candidates := Some candidates\<rparr>\<rparr>"
      and len: "length candidates = length (matchingBudgets e (inp_request m) toolID)"
      and ok: "validateCandidates m t (canonicalArgumentBytesForBudgets (matchingBudgets e (inp_request m) toolID) (inp_request m))
        key candidates (matchingBudgets e (inp_request m) toolID) = None"
      using normalize_budget_cases [OF assms(1) t False] by metis
    have each: "bc_reset (candidates ! i) = bud_reset (matchingBudgets e (inp_request m) toolID ! i)
        \<and> reason_known (bc_reason (candidates ! i))" if "i < length candidates" for i
      using validate_candidates_nth [OF ok len that] validate_candidate_facts
      by (metis reason_known_def reason_valid.simps(3) reason_valid.simps(20))
    then have "map bc_reset candidates = map bud_reset (matchingBudgets e (inp_request m) toolID)"
      using len by (intro nth_equalityI) simp_all
    then show ?thesis using b each x
      by (auto simp: settled_budget_def bsn_list_def in_set_conv_nth)
  qed
qed

lemma sumFields_source:
  "sumFields p previous bytes items fs = Some totals \<Longrightarrow> f \<in> set fs \<Longrightarrow> fev_source f = phaseSource p"
  by (induction p previous bytes items fs rule: sumFields.induct) (auto split: if_splits)

lemma inspection_reason_known: "inspectionFailureReason r \<Longrightarrow> reason_known r"
  by (cases r) (simp_all add: inspectionFailureReason_def reason_known_def)

lemma normalized_inspection:
  assumes "normalizeInspectionEvidence (Some ev) expected p = Inr (Some out)"
  shows "settled_inspection p out"
proof -
  have g: "inspection_gate ev" and l: "normalizeInspectionLists ev p = Some out" and ok: "inspectionOutcomeOk out"
    using assms unfolding inspection_ok by blast+
  obtain rules categories packs where
    f: "sumFields p None 0 0 (sort_key field_key (iev_fields ev)) = Some (iev_scanned_bytes ev, iev_scanned_items ev)"
    and out: "ev\<lparr>iev_rule_ids := rules, iev_categories := categories, iev_pack_identities := packs,
        iev_fields := sort_key field_key (iev_fields ev),
        iev_unsupported_content := sort_key content_key (iev_unsupported_content ev)\<rparr> = out"
    using inspection_lists_cases [OF l] by metis
  have s: "iev_status out = iev_status ev" "iev_schema_status out = iev_schema_status ev"
    "iev_fields out = sort_key field_key (iev_fields ev)" using out by auto
  have "inspection_status_valid (iev_status ev)" "schema_status_valid (iev_schema_status ev)"
    using g by (simp_all add: inspection_gate_def)
  moreover have "decision_known (iev_decision out) \<and> reason_known (iev_reason out)"
    using ok s \<open>inspection_status_valid (iev_status ev)\<close> inspection_reason_known
    by (cases "iev_status ev") (auto simp: inspectionOutcomeOk_def decision_known_def reason_known_def)
  ultimately show ?thesis using s f sumFields_source [of p None 0 0] by (simp add: settled_inspection_def)
qed

lemma normalized_effect:
  "normalizeRepositoryEffect effect = Inr (Some r) \<Longrightarrow> decision_valid (rec_decision r) \<and> reason_valid (rec_reason r)"
  by (auto simp: normalizeRepositoryEffect_def inputFailure_def split: option.splits if_splits)

lemma normalized_settled:
  assumes "normalizeEvaluationInput e inp = Inr n" and "budget_present inp"
  shows "settled_input e n"
proof -
  obtain r m b snapshot where r: "validateAndCloneRequest (inp_request inp) = Inr r" and m: "inp_request m = r" "inp_budget m = inp_budget inp"
    and auth: "mutableAuthorityValid m" and eff: "normalizeRepositoryEffect (inp_repository_effect inp) = Inr (inp_repository_effect m)"
    and insp: "normalizeInspectionEvidence (inp_inspection inp) (inspectionExpectation e r) (req_phase r) = Inr (inp_inspection m)"
    and b: "normalizeBudgetInput e m = Inr b" and s: "normalizeIdentitySnapshot (inp_resampled b) = Some snapshot"
    and n: "n = b\<lparr>inp_resampled := snapshot\<rparr>"
    using assms(1) by (rule normalized_cases)
  have bud: "b = m\<lparr>inp_budget := inp_budget b\<rparr>" "settled_budget (expected_budgets e r) (inp_budget b)"
    using normalized_budget [OF b] assms(2) m by (auto simp: budget_present_def)
  then have keep: "inp_request b = r" "inp_approval b = inp_approval m" "inp_taint b = inp_taint m"
    "inp_lifecycle b = inp_lifecycle m" "inp_repository_effect b = inp_repository_effect m"
    "inp_inspection b = inp_inspection m"
    using m by (metis evaluation_input.ext_inject evaluation_input.surjective evaluation_input.update_convs(7))+
  have "authority_valid (ids_authority_mode snapshot)"
    using s by (auto simp: normalizeIdentitySnapshot_def Let_def split: option.splits if_splits)
  moreover have "settled_inspection (req_phase r) ev" if "inp_inspection m = Some ev" for ev
    using insp that normalized_inspection inspection_none by (cases "inp_inspection inp") auto
  ultimately show ?thesis
    using validated_request_settled [OF r] bud(2) auth keep n eff normalized_effect
    by (auto simp: settled_input_def mutableAuthorityValid_def)
qed

section \<open>The cache is transparent\<close>

definition tree_digest :: "json \<Rightarrow> string" where
  "tree_digest t = digestBytes (encode t)"

definition request_tree :: "evaluator \<Rightarrow> evaluation_input \<Rightarrow> json" where
  "request_tree e inp =
     (case normalizeEvaluationInput e inp of Inl err \<Rightarrow> JNull | Inr n \<Rightarrow> request_json (inp_request n))"

definition binding_tree :: "evaluator \<Rightarrow> evaluation_input \<Rightarrow> json" where
  "binding_tree e inp =
     (case normalizeEvaluationInput e inp of
        Inl err \<Rightarrow> JNull
      | Inr n \<Rightarrow> cacheBinding e n (tree_digest (request_json (inp_request n))) (expectedIdentities e n))"

lemma normalized_request_digest:
  assumes "normalizeEvaluationInput e inp = Inr n"
  shows "requestDigestValidated (inp_request n) = Some (tree_digest (request_json (inp_request n)))"
proof -
  obtain r m b snapshot where r: "validateAndCloneRequest (inp_request inp) = Inr r" and m: "inp_request m = r"
    and b: "normalizeBudgetInput e m = Inr b" and n: "n = b\<lparr>inp_resampled := snapshot\<rparr>"
    using assms by (rule normalized_cases)
  have "inp_request b = inp_request m"
    using b by (auto simp: normalizeBudgetInput_def Let_def split: prod.splits option.splits if_splits)
  then have "inp_request n = r" using m n by simp
  then show ?thesis using validated_values_encode [OF r] by (simp add: requestDigestValidated_def tree_digest_def)
qed

lemma eligible_identity:
  assumes "car_eligible (CacheIdentity (Some e) inp)"
  obtains n where "normalizeEvaluationInput e inp = Inr n"
    "car_identity (CacheIdentity (Some e) inp) = tree_digest (binding_tree e inp)"
proof -
  obtain n where n: "normalizeEvaluationInput e inp = Inr n"
    using assms by (cases "normalizeEvaluationInput e inp") (simp_all add: CacheIdentity_def missingCache_def noCache_def)
  then have "car_identity (CacheIdentity (Some e) inp) = tree_digest (binding_tree e inp)"
    by (simp add: CacheIdentity_def normalized_request_digest [OF n] cacheIdentityNormalized_def
        cacheIdentityWithReason_def binding_tree_def tree_digest_def)
  then show ?thesis using that n by blast
qed

lemma evaluate_normalized:
  assumes "normalizeEvaluationInput e inp = Inr n" and "normalizeEvaluationInput e inp' = Inr n"
  shows "evaluate lib (Some e) inp None = evaluate lib (Some e) inp' None"
proof -
  have "prepareEvaluation e inp None = prepareEvaluation e inp' None"
    using assms by (simp add: prepareEvaluation_def stoppedEvaluation_def)
  then show ?thesis by (simp add: evaluate_def)
qed

lemma trees_determine:
  assumes "normalizeEvaluationInput e inp = Inr n" "normalizeEvaluationInput e inp' = Inr n'"
    and "budget_present inp" "budget_present inp'"
    and "request_tree e inp = request_tree e inp'" "binding_tree e inp = binding_tree e inp'"
  shows "n = n'"
proof (rule binding_covers_input)
  show "request_json (inp_request n) = request_json (inp_request n')"
    using assms by (simp add: request_tree_def)
  show "cacheBinding e n (tree_digest (request_json (inp_request n))) (expectedIdentities e n)
      = cacheBinding e n' (tree_digest (request_json (inp_request n'))) (expectedIdentities e n')"
    using assms by (simp add: binding_tree_def)
qed (use assms normalized_settled in blast)+

lemma binding_request: "cacheBinding e n i x = cacheBinding e' n' i' x' \<Longrightarrow> i = i'"
  by (simp add: cacheBinding_def Let_def struct_simps)

text \<open>
  C9: the cache key covers the evaluation. Two inputs that one evaluator accepts, and whose
  digested trees, the request and the binding, agree, have the same normalized input: every field
  that an evaluation reads is in one of the trees. So they evaluate to the same result.
\<close>

theorem cache_binding_covers_input:
  assumes "normalizeEvaluationInput e inp = Inr n" and "normalizeEvaluationInput e inp' = Inr n'"
    and "budget_present inp" and "budget_present inp'"
    and "request_json (inp_request n) = request_json (inp_request n')"
    and "cacheBinding e n i (expectedIdentities e n) = cacheBinding e n' i' (expectedIdentities e n')"
  shows "n = n' \<and> evaluate lib (Some e) inp None = evaluate lib (Some e) inp' None"
proof -
  have "n = n'"
    by (rule binding_covers_input [OF assms(5,6)]) (use assms normalized_settled in blast)+
  then show ?thesis using evaluate_normalized assms(1,2) by blast
qed

text \<open>
  C8: the cache is transparent. In a cache that was filled only with evaluations of one
  evaluator, each stored under the identity of its input, a hit answers exactly what evaluating
  the input would return, provided SHA-256 does not collide on the trees of these inputs.
\<close>

theorem cached_evaluation_transparent:
  assumes "cache_history h c"
    and "\<forall>(i, r) \<in> set h. \<exists>inp \<in> inputs. i = CacheIdentity (Some e) inp \<and> r = evaluate lib (Some e) inp None"
    and "inp \<in> inputs" and "\<forall>inp \<in> inputs. budget_present inp"
    and "inj_on tree_digest (request_tree e ` inputs)" and "inj_on tree_digest (binding_tree e ` inputs)"
    and "cache_Lookup (Some c) (Some e) inp = (Some res, reason)"
  shows "res = evaluate lib (Some e) inp None"
proof -
  let ?i = "CacheIdentity (Some e) inp"
  have hit: "cacheFind (decisions.run h) ?i = Some res" "car_eligible ?i"
    using assms(7) history_is_run [OF assms(1)] lookup_hit unfolding cache_Lookup_def by metis+
  obtain j where j: "(j, res) \<in> set h" "same_identity ?i j" using decisions.found_was_put [OF hit(1)] by blast
  then obtain inp' where inp': "inp' \<in> inputs" "j = CacheIdentity (Some e) inp'" "res = evaluate lib (Some e) inp' None"
    using assms(2) by fastforce
  obtain n where n: "normalizeEvaluationInput e inp = Inr n" "car_identity ?i = tree_digest (binding_tree e inp)"
    using eligible_identity [OF hit(2)] .
  have "car_eligible (CacheIdentity (Some e) inp')" using j(2) inp'(2) by (simp add: same_identity_def)
  then obtain n' where n': "normalizeEvaluationInput e inp' = Inr n'"
    "car_identity (CacheIdentity (Some e) inp') = tree_digest (binding_tree e inp')"
    by (rule eligible_identity)
  have "tree_digest (binding_tree e inp) = tree_digest (binding_tree e inp')"
    using j(2) inp'(2) n(2) n'(2) by (simp add: same_identity_def)
  then have bind: "binding_tree e inp = binding_tree e inp'"
    using assms(3,6) inp'(1) by (meson image_eqI inj_onD)
  then have "tree_digest (request_tree e inp) = tree_digest (request_tree e inp')"
    using n(1) n'(1) by (auto simp: binding_tree_def request_tree_def dest: binding_request)
  then have "request_tree e inp = request_tree e inp'"
    using assms(3,5) inp'(1) by (meson image_eqI inj_onD)
  then have "n = n'" using trees_determine n(1) n'(1) assms(3,4) inp'(1) bind by blast
  then show ?thesis using evaluate_normalized n(1) n'(1) inp'(3) by metis
qed

section \<open>An example\<close>

text \<open>An evaluator without rules, and an input that leaves its budget snapshot out.\<close>

definition idle_evaluator :: evaluator where
  "idle_evaluator = calm_evaluator\<lparr>evr_rules := []\<rparr>"

definition bare_input :: evaluation_input where
  "bare_input = calm_input\<lparr>inp_budget := \<lparr>bsn_state_version = [], bsn_identity = [], bsn_reservation_identity = [],
     bsn_complete = False, bsn_candidates = None\<rparr>\<rparr>"

lemma idle_select: "selectTool idle_evaluator r = (None, [])"
  by (simp add: selectTool_def idle_evaluator_def calm_evaluator_def lookupToolIndex_def)

lemma idle_normalizes_as: "normalizeEvaluationInput idle_evaluator inp = normalizeEvaluationInput calm_evaluator inp"
proof -
  have m: "matchingBudgets e r [] = []" for e r by (simp add: matchingBudgets_def)
  have "normalizeBudgetInput idle_evaluator = normalizeBudgetInput calm_evaluator"
    unfolding normalizeBudgetInput_def [abs_def] idle_select calm_select prod.case m ..
  moreover have "inspectionExpectation idle_evaluator = inspectionExpectation calm_evaluator"
    by (intro ext) (simp add: inspectionExpectation_def matchingDetectors_def idle_select calm_select,
      simp add: idle_evaluator_def)
  ultimately show ?thesis by (simp only: normalizeEvaluationInput_def)
qed

lemma idle_normalizes: "normalizeEvaluationInput idle_evaluator calm_input = Inr calm_input"
  by (simp add: idle_normalizes_as calm_normalizes)

lemma idle_expected: "expectedIdentities idle_evaluator calm_input = inp_resampled calm_input"
  using calm_expected by (simp add: expectedIdentities_def idle_evaluator_def)

definition idle_cache :: cache_result where
  "idle_cache = \<lparr>car_eligible = True, car_reason = CacheEligible,
     car_identity = tree_digest (binding_tree idle_evaluator calm_input)\<rparr>"

lemma calm_fields:
  "inp_request calm_input = calm_request" "inp_inspection calm_input = None" "inp_repository_effect calm_input = None"
  "bsn_list (inp_budget calm_input) = []" "inp_lifecycle calm_input = LifecycleActive"
  "inp_taint calm_input = \<lparr>tns_status = TaintClean, tns_identity = ''clean''\<rparr>"
  "req_deadline calm_request = DeadlineReady" "req_context calm_request = []"
  "req_completeness calm_request = CompleteEvidence" "req_phase calm_request = PhaseObservation"
  by (simp_all add: calm_input_def calm_state_def bsn_list_def calm_request_def good_request_def)

lemma idle_identity: "CacheIdentity (Some idle_evaluator) calm_input = idle_cache"
proof -
  have "cacheReasonOf idle_evaluator calm_input (inp_resampled calm_input) = CacheEligible"
    by (simp add: cacheReasonOf_def calm_fields verify_resampled_iff Let_def)
      (simp add: idle_evaluator_def calm_evaluator_def FrozenDefaults_def)
  then show ?thesis
    by (simp add: CacheIdentity_def idle_normalizes normalized_request_digest [OF idle_normalizes] idle_expected
        cacheIdentityNormalized_def cacheIdentityWithReason_def idle_cache_def binding_tree_def tree_digest_def)
qed

lemma idle_prepares:
  "\<exists>p. prepareEvaluation idle_evaluator calm_input None = (Inr p, None) \<and> ppd_input p = calm_input \<and> ppd_cache p = idle_cache"
proof -
  have s: "stoppedEvaluation e inp cache None = Inr None" for e inp cache by (simp add: stoppedEvaluation_def)
  have f: "preflightFailure calm_input (inp_resampled calm_input) = NoReason"
    by (simp add: preflightFailure_def verify_resampled_iff calm_fields)
  have "cacheIdentityNormalized idle_evaluator calm_input (tree_digest (request_json calm_request)) (inp_resampled calm_input)
      = idle_cache"
    using idle_identity by (simp add: CacheIdentity_def idle_normalizes calm_fields idle_expected
        normalized_request_digest [OF idle_normalizes, unfolded calm_fields])
  then show ?thesis
    by (simp add: prepareEvaluation_def s idle_normalizes idle_expected Let_def f calm_fields
        normalized_request_digest [OF idle_normalizes, unfolded calm_fields])
qed

lemma idle_result:
  "\<exists>a. evaluate lib (Some idle_evaluator) calm_input None = completeResult a
    \<and> acc_input a = calm_input \<and> acc_evaluator a = idle_evaluator \<and> acc_tool_id a = [] \<and> acc_matched a = []
    \<and> acc_candidates a = [\<lparr>cand_source = CandidateBaseline, cand_id = ''host-unmatched'',
         cand_decision = DecisionAllow, cand_reason = ReasonHostUnmatched\<rparr>]
    \<and> acc_trace a = newTraceCollector \<and> acc_completeness a = CompleteEvidence \<and> acc_cache_base a = idle_cache
    \<and> \<not> acc_cache_never a"
proof -
  obtain p where p: "prepareEvaluation idle_evaluator calm_input None = (Inr p, None)" "ppd_input p = calm_input"
    "ppd_cache p = idle_cache" using idle_prepares by blast
  let ?a = "newEvaluationAccumulator idle_evaluator calm_input idle_cache None"
  let ?base = "\<lparr>cand_source = CandidateBaseline, cand_id = ''host-unmatched'',
    cand_decision = DecisionAllow, cand_reason = ReasonHostUnmatched\<rparr>"
  have base: "baselineCandidate idle_evaluator calm_request None = ?base"
    by (simp add: baselineCandidate_def idle_evaluator_def calm_evaluator_def FrozenDefaults_def calm_request_def good_request_def)
  have f: "acc_control ?a = None" "acc_tool ?a = None" "acc_tool_id ?a = []" "acc_input ?a = calm_input"
    "acc_evaluator ?a = idle_evaluator" "acc_budgets ?a = []" "\<not> acc_cache_never ?a" "acc_matched ?a = []"
    "acc_candidates ?a = [?base]" "acc_trace ?a = newTraceCollector" "acc_cache_base ?a = idle_cache"
    "acc_completeness ?a = CompleteEvidence"
    by (simp_all add: newEvaluationAccumulator_def idle_select calm_fields base)
      (simp_all add: cloneBudgetSnapshot_def bsn_list_def calm_fields [unfolded bsn_list_def])
  have stop: "stopFailure ?a = Inr ?a" using f(1) by (cases ?a) (simp add: stopFailure_def stoppedEvaluation_def)
  have "addInspection ?a = Inr ?a" by (simp add: addInspection_def stop f calm_fields)
  moreover have "addBudgets ?a = Inr ?a" by (simp add: addBudgets_def f)
  moreover have "addRepositoryEffect ?a = Inr ?a" by (simp add: addRepositoryEffect_def stop f)
  moreover have "evr_rules idle_evaluator = []" by (simp add: idle_evaluator_def)
  then have "evaluateRules lib ?a = Inr ?a" by (simp add: evaluateRules_def f)
  ultimately have "evaluate lib (Some idle_evaluator) calm_input None = acc_result ?a"
    by (simp add: evaluate_def p evaluatePreparedInput_def stoppedEvaluation_def)
  moreover have "res_decision (completeResult ?a) = DecisionAllow"
    by (simp add: completeResult_def baseResult_def f sortCandidates_def Let_def split: prod.split)
  then have "acc_result ?a = completeResult ?a" by (simp add: acc_result_def stop)
  ultimately show ?thesis using f by (intro exI [of _ ?a]) simp
qed

definition texts_weight :: "string list \<Rightarrow> nat" where
  "texts_weight vs = sum_list (map (\<lambda>v. length v + 16) vs)"

lemma word_add_le: "unat (a + b) \<le> unat a + unat b" for a b :: uint64
  by (simp add: unat_word_ariths)

lemma addBytes_le: "unat (addDecisionCacheBytes amount bytes) \<le> unat amount + unat bytes"
  using uint64_overflow_iff [of bytes amount] word_add_le [of bytes amount]
  by (auto simp: addDecisionCacheBytes_def)

lemma of_nat_le: "unat (of_nat n :: uint64) \<le> n"
  by (simp add: unat_of_nat)

lemma addString_le: "unat (addDecisionCacheString v bytes) \<le> length v + 16 + unat bytes"
proof -
  have "unat (of_nat (length v) + decisionCacheStringOverhead) \<le> length v + 16"
    using word_add_le [of "of_nat (length v)" decisionCacheStringOverhead] of_nat_le [of "length v"]
    by (simp add: decisionCacheStringOverhead_def)
  then show ?thesis
    using addBytes_le [of "of_nat (length v) + decisionCacheStringOverhead" bytes]
    by (simp add: addDecisionCacheString_def)
qed

lemma addStrings_le: "unat (addStrings vs bytes) \<le> texts_weight vs + unat bytes"
proof (induction vs arbitrary: bytes)
  case (Cons v vs)
  show ?case using addString_le [of v bytes] Cons.IH [of "addDecisionCacheString v bytes"]
    by (simp add: addStrings_def texts_weight_def)
qed (simp add: addStrings_def texts_weight_def)

lemma addSlice_le: "unat (addDecisionCacheSlice 1 64 bytes) \<le> 64 + 64 + unat bytes"
  using addBytes_le [of 64 "addDecisionCacheBytes 64 bytes"] addBytes_le [of 64 bytes]
  by (simp add: addDecisionCacheSlice_def decisionCacheSliceOverhead_def)

lemma idle_storable: "storable idle_cache (evaluate lib (Some idle_evaluator) calm_input None)"
proof -
  obtain a where res: "evaluate lib (Some idle_evaluator) calm_input None = completeResult a"
    and a: "acc_input a = calm_input" "acc_evaluator a = idle_evaluator" "acc_tool_id a = []" "acc_matched a = []"
      "acc_candidates a = [\<lparr>cand_source = CandidateBaseline, cand_id = ''host-unmatched'',
         cand_decision = DecisionAllow, cand_reason = ReasonHostUnmatched\<rparr>]"
      "acc_trace a = newTraceCollector" "acc_completeness a = CompleteEvidence" "acc_cache_base a = idle_cache"
      "\<not> acc_cache_never a"
    using idle_result by blast
  have id: "car_eligible idle_cache" "car_reason idle_cache = CacheEligible" by (simp_all add: idle_cache_def)
  have len: "length (car_identity idle_cache) = 71" by (simp add: idle_cache_def tree_digest_def digestBytes_length)
  then have ne: "car_identity idle_cache \<noteq> []" by auto
  have req: "req_policy_digest calm_request = replicate 64 (CHR ''d'')" "req_lock_digest calm_request = replicate 64 (CHR ''e'')"
    by (simp_all add: calm_request_def good_request_def)
  have ids: "evr_identity idle_evaluator = ''sha256:'' @ replicate 64 (CHR ''f'')"
    "inp_source_identity calm_input = replicate 64 (CHR ''a'')"
    by (simp_all add: idle_evaluator_def calm_evaluator_def calm_input_def calm_state_def)
  have cache: "finalizeCacheResult idle_cache False DecisionAllow (inp_approval calm_input) CompleteEvidence False = idle_cache"
    by (simp add: finalizeCacheResult_def)
  have full: "completeResult a = \<lparr>res_decision = DecisionAllow, res_reason = ReasonHostUnmatched, res_tool_id = [],
      res_matched_rule_ids = [], res_candidates = acc_candidates a, res_budget_candidates = [], res_trace = [],
      res_trace_complete = True, res_trace_omitted = 0, res_completeness = CompleteEvidence,
      res_policy_digest = replicate 64 (CHR ''d''), res_lock_digest = replicate 64 (CHR ''e''),
      res_plan_identity = ''sha256:'' @ replicate 64 (CHR ''f''), res_source_identity = replicate 64 (CHR ''a''),
      res_cache = idle_cache, res_required_approval_identity = [], res_inspection = None,
      res_phase_outcome = OutcomeRecorded, res_failure = None\<rparr>"
    using a(9) by (simp add: completeResult_def baseResult_def a calm_fields req ids cache sortCandidates_def Let_def
        trace_finish_def newTraceCollector_def matchedRuleIDs_def sortMatchedRules_def phaseOutcome_def
        cloneBudgetSnapshot_def bsn_list_def calm_fields [unfolded bsn_list_def])
  let ?texts = "[''allow'', ''host_unmatched'', [], replicate 64 (CHR ''d''), replicate 64 (CHR ''e''),
    ''sha256:'' @ replicate 64 (CHR ''f''), replicate 64 (CHR ''a''), car_identity idle_cache, ''eligible'', [], ''recorded'']"
  let ?candidate = "[''baseline'', ''host-unmatched'', ''allow'', ''host_unmatched'']"
  have "unat (estimateDecisionCacheResultBytes (completeResult a)) = unat (addStrings ?candidate
      (addDecisionCacheSlice 1 64 (addStrings ?texts 856)))"
    by (simp add: full a id estimateDecisionCacheResultBytes_def Let_def addDecisionCacheStringSlice_def CompleteEvidence_def
        decisionCacheAllocationOverhead_def sizeofEvaluationResult_def candidateStrings_def sizeofCandidate_def)
      (simp add: addStrings_def addDecisionCacheSlice_def)
  also have "\<dots> \<le> texts_weight ?candidate + (64 + 64 + (texts_weight ?texts + 856))"
    by (intro order_trans [OF addStrings_le] add_mono order_refl order_trans [OF addSlice_le]) (simp_all add: texts_weight_def)
  also have "\<dots> \<le> 2 ^ 26" by (simp add: texts_weight_def len)
  finally have "estimateDecisionCacheResultBytes (completeResult a) \<le> MaxDecisionCacheBytes"
    by (simp add: word_le_nat_alt MaxDecisionCacheBytes_def)
  then show ?thesis unfolding res storable_def by (simp add: full id)
qed

lemma bare_normalizes: "normalizeEvaluationInput calm_evaluator bare_input = Inr calm_input"
proof -
  have e: "inspectionExpectation calm_evaluator calm_request = \<lparr>exp_pack_identities = [], exp_field_count = 0\<rparr>"
    by (simp add: inspectionExpectation_def matchingDetectors_def calm_evaluator_def)
  have i: "normalizeInspectionEvidence None \<lparr>exp_pack_identities = [], exp_field_count = 0\<rparr> ph = Inr None" for ph
    by (simp add: normalizeInspectionEvidence_def)
  have ids: "lowerHex64 (replicate 64 (CHR ''a''))" "validOpaqueIdentity ''cx''" "SafeLabel ''op''"
    "validOpaqueIdentity ''none''" "validOpaqueIdentity ''clean''"
    by (simp_all add: lowerHex64_def lowerHexLength_def lowerHexChar_def list_all_iff validOpaqueIdentity_def
        lowerAlnum_def SafeLabel_def kebabLabel_def MaxSafeLabelBytes_def)
  have auth: "mutableAuthorityValid bare_input"
    by (simp add: mutableAuthorityValid_def bare_input_def calm_input_def calm_state_def ids)
  have b: "normalizeBudgetInput calm_evaluator bare_input = Inr calm_input"
    by (simp add: normalizeBudgetInput_def calm_select matchingBudgets_def bare_input_def budgetSnapshotZero_def)
      (simp add: calm_input_def calm_state_def calm_request_def good_request_def)
  have host: "req_transport calm_request = TransportHostMCP" by (simp add: calm_request_def good_request_def)
  have r: "inp_request bare_input = calm_request" by (simp add: bare_input_def calm_fields)
  have s: "bare_input\<lparr>inp_request := calm_request\<rparr> = bare_input" "bare_input\<lparr>inp_credential_labels := []\<rparr> = bare_input"
    "bare_input\<lparr>inp_repository_effect := None\<rparr> = bare_input" "bare_input\<lparr>inp_inspection := None\<rparr> = bare_input"
    "calm_input\<lparr>inp_resampled := inp_resampled calm_input\<rparr> = calm_input"
    by (simp_all add: bare_input_def calm_input_def calm_state_def)
  have f: "inp_source_identity bare_input = replicate 64 (CHR ''a'')" "inp_context_identity bare_input = ''cx''"
    "inp_principal bare_input = ''op''" "inp_credential_labels bare_input = []"
    "inp_executable_digest bare_input = ''absent''" "inp_repository_effect bare_input = None"
    "inp_inspection bare_input = None"
    by (simp_all add: bare_input_def calm_input_def calm_state_def)
  show ?thesis unfolding normalizeEvaluationInput_def r calm_request_valid sum.case Let_def s f
    using ids by (simp add: safeStringList_def host s f auth normalizeRepositoryEffect_def r e i b calm_snapshot)
qed

theorem cache_binding_covers_input_witness:
  "evaluate example_lib (Some calm_evaluator) bare_input None = evaluate example_lib (Some calm_evaluator) calm_input None"
  using cache_binding_covers_input [OF bare_normalizes calm_normalizes, of _ _ example_lib]
  by (simp add: budget_present_def bare_input_def budgetSnapshotZero_def calm_input_def calm_state_def)

theorem cached_evaluation_transparent_witness:
  "\<exists>res. cache_Lookup (Some (cacheAfter NewDecisionCache idle_cache (evaluate example_lib (Some idle_evaluator) calm_input None)))
      (Some idle_evaluator) calm_input = (Some res, CacheEligible)
    \<and> res = evaluate example_lib (Some idle_evaluator) calm_input None"
proof -
  let ?r = "evaluate example_lib (Some idle_evaluator) calm_input None"
  let ?c = "cacheAfter NewDecisionCache idle_cache ?r"
  have h: "cache_history [(idle_cache, ?r)] ?c"
    by (rule cache_history.stored [OF cache_history.created store_never_panics [OF new_cache_ok]])
  have "cacheFind ?c idle_cache = Some ?r"
    by (rule decisions.find_fresh [OF new_cache_ok idle_storable decisions.find_start])
  then obtain res where hit: "cache_Lookup (Some ?c) (Some idle_evaluator) calm_input = (Some res, CacheEligible)"
    by (auto simp: cache_Lookup_def idle_identity lookup_hit idle_cache_def)
  have present: "budget_present calm_input" by (simp add: budget_present_def calm_input_def calm_state_def)
  have "res = ?r"
    by (rule cached_evaluation_transparent [OF h, of "{calm_input}", OF _ _ _ _ _ hit])
      (use idle_identity present in simp_all)
  then show ?thesis using hit by blast
qed

end
