(* ===== verification/State_Identity.thy ===== *)
theory State_Identity
  imports Action_Encode
begin

text \<open>
  The keyed identities of package actionstate (identity.go): HMAC-SHA-256 of length-prefixed
  parts under the key of the project, with a domain in front. The lemmas show that the framing
  is injective, so two operations feed the same bytes to the MAC only if they name the same
  domain and the same parts.
\<close>

section \<open>HMAC\<close>

text \<open>Package crypto/hmac over SHA-256; the key has 32 bytes, so it is padded and never hashed.\<close>

definition word_bytes :: "32 word \<Rightarrow> 8 word list" where
  "word_bytes w = map (\<lambda>i. ucast (drop_bit (8 * i) w AND 255)) [3, 2, 1, 0]"

definition sha256_bytes :: "string \<Rightarrow> 8 word list" where
  "sha256_bytes message = List.concat (map word_bytes (sha256 message))"

definition byte_text :: "8 word list \<Rightarrow> string" where
  "byte_text bytes = map (\<lambda>b. char_of (unat b)) bytes"

definition hmac_pad :: "8 word \<Rightarrow> 8 word list \<Rightarrow> string" where
  "hmac_pad pad material = byte_text (map (\<lambda>b. b XOR pad) (material @ replicate (64 - length material) 0))"

definition hmac_sha256 :: "8 word list \<Rightarrow> string \<Rightarrow> 8 word list" where
  "hmac_sha256 material message =
     sha256_bytes (hmac_pad 0x5c material @ byte_text (sha256_bytes (hmac_pad 0x36 material @ message)))"

definition hex_bytes :: "8 word list \<Rightarrow> string" where
  "hex_bytes bytes = List.concat (map (\<lambda>b. [hexDigit (unat (drop_bit 4 b)), hexDigit (unat (b AND 15))]) bytes)"

section \<open>Keys and domains\<close>

record identity_key =
  ikey_id :: string
  ikey_material :: "8 word list"

definition newIdentityKey :: "8 word list \<Rightarrow> identity_key option" where
  "newIdentityKey material =
     (if length material \<noteq> 32 then None
      else Some \<lparr>ikey_id = hex_bytes (take 16 (sha256_bytes (byte_text material))), ikey_material = material\<rparr>)"

definition identity_domains :: "string list" where
  "identity_domains =
     [''reconc/action/server/v1'', ''reconc/action/repository/v1'', ''reconc/action/working-directory/v1'',
      ''reconc/action/argv/v1'', ''reconc/action/environment-names/v1'', ''reconc/action/environment-value/v1'',
      ''reconc/action/argument/v1'', ''reconc/action/result/v1'', ''reconc/action/upstream-request/v1'',
      ''reconc/action/approval/v1'', ''reconc/action/budget/v1'', ''reconc/action/ledger/v1'',
      ''reconc/action/run/v1'', ''reconc/action/session/v1'', ''reconc/action/context/v1'',
      ''reconc/action/state/v1'', ''reconc/action/state-transaction/v1'', ''reconc/action/credential/v1'',
      ''reconc/action/inspection/v1'', ''reconc/action/call-id/v1'']"

definition domain_valid :: "string \<Rightarrow> bool" where
  "domain_valid d = list_ex (\<lambda>domain. domain = d) identity_domains"

definition DomainApproval :: string where "DomainApproval = ''reconc/action/approval/v1''"
definition DomainBudget :: string where "DomainBudget = ''reconc/action/budget/v1''"
definition DomainState :: string where "DomainState = ''reconc/action/state/v1''"
definition DomainTransaction :: string where "DomainTransaction = ''reconc/action/state-transaction/v1''"
definition DomainCallID :: string where "DomainCallID = ''reconc/action/call-id/v1''"
definition DomainUpstream :: string where "DomainUpstream = ''reconc/action/upstream-request/v1''"

section \<open>Framing\<close>

text \<open>Eight bytes of length, most significant first, and the bytes. A write to a MAC never fails.\<close>

definition frame_size :: "nat \<Rightarrow> string" where
  "frame_size n =
     (let size = of_nat n :: 64 word
      in byte_text (map (\<lambda>i. ucast (drop_bit (8 * i) size AND 255)) [7, 6, 5, 4, 3, 2, 1, 0]))"

definition writeFramed :: "string \<Rightarrow> string \<Rightarrow> string" where
  "writeFramed written part = written @ frame_size (length part) @ part"

definition framed :: "string list \<Rightarrow> string" where
  "framed parts = foldl writeFramed [] parts"

definition key_identity :: "identity_key \<Rightarrow> string \<Rightarrow> string list \<Rightarrow> string" where
  "key_identity k domain parts =
     (if \<not> domain_valid domain then []
      else ''hmac-sha256:v1:'' @ ikey_id k @ '':'' @ hex_bytes (hmac_sha256 (ikey_material k) (framed (domain # parts))))"

lemma sha256_bytes_length [simp]: "length (sha256_bytes message) = 32"
proof -
  have "length (List.concat (map word_bytes ws)) = 4 * length ws" for ws
    by (induction ws) (simp_all add: word_bytes_def)
  then show ?thesis by (simp add: sha256_bytes_def sha256_length)
qed

lemma frame_size_length: "length (frame_size n) = 8"
  by (simp add: frame_size_def byte_text_def Let_def)

lemma frame_size_nonempty [simp]: "frame_size n \<noteq> []"
  using frame_size_length [of n] by auto

lemma byte_text_inject [simp]: "byte_text a = byte_text b \<longleftrightarrow> a = b"
proof -
  have "inj (\<lambda>b :: 8 word. char_of (unat b) :: char)"
  proof (rule injI)
    fix x y :: "8 word"
    assume eq: "char_of (unat x) = (char_of (unat y) :: char)"
    have "unat x < 256" "unat y < 256" using unsigned_less [of x] unsigned_less [of y] by simp_all
    then have "unat x = unat y" using arg_cong [OF eq, of "of_char :: char \<Rightarrow> nat"] by simp
    then show "x = y" by (rule word_unat_eq_iff [THEN iffD2])
  qed
  then show ?thesis by (simp add: byte_text_def inj_map_eq_map)
qed

lemma low_byte_bit: "bit (ucast (drop_bit (8 * i) w AND 255) :: 8 word) j \<longleftrightarrow> j < 8 \<and> bit w (8 * i + j)" for w :: "64 word"
proof -
  have "(255 :: 64 word) = mask 8" by (simp add: mask_eq_exp_minus_1)
  then have "bit (drop_bit (8 * i) w AND 255) j \<longleftrightarrow> j < 8 \<and> bit w (8 * i + j)"
    by (auto simp only: bit_and_iff bit_mask_iff bit_drop_bit_eq comp_def possible_bit_word dest: bit_imp_le_length)
  then show ?thesis by (auto simp: bit_ucast_iff)
qed

lemma frame_size_inject:
  assumes "frame_size m = frame_size n" and "m < 2 ^ 64" and "n < 2 ^ 64"
  shows "m = n"
proof -
  let ?v = "of_nat m :: 64 word" and ?w = "of_nat n :: 64 word"
  have eq: "ucast (drop_bit (8 * i) ?v AND 255) = (ucast (drop_bit (8 * i) ?w AND 255) :: 8 word)" if "i < 8" for i
  proof -
    have "map (\<lambda>i. ucast (drop_bit (8 * i) ?v AND 255) :: 8 word) [7, 6, 5, 4, 3, 2, 1, 0]
        = map (\<lambda>i. ucast (drop_bit (8 * i) ?w AND 255)) [7, 6, 5, 4, 3, 2, 1, 0]"
      using assms(1) by (simp only: frame_size_def Let_def byte_text_inject)
    moreover have "i \<in> set [7, 6, 5, 4, 3, 2, 1, 0]" using that by auto
    ultimately show ?thesis by (simp only: map_eq_conv)
  qed
  have "?v = ?w"
  proof (rule bit_word_eqI)
    fix k assume "k < LENGTH(64)"
    then have i: "k div 8 < 8" by simp
    have "bit (ucast (drop_bit (8 * (k div 8)) ?v AND 255) :: 8 word) (k mod 8)
        \<longleftrightarrow> bit (ucast (drop_bit (8 * (k div 8)) ?w AND 255) :: 8 word) (k mod 8)"
      using eq [OF i] by simp
    then show "bit ?v k = bit ?w k" by (simp only: low_byte_bit) simp
  qed
  then have "unat ?v = unat ?w" by simp
  then show ?thesis using assms(2,3) by (simp add: unat_of_nat)
qed

definition frame_ok :: "string list \<Rightarrow> bool" where
  "frame_ok parts \<longleftrightarrow> (\<forall>part \<in> set parts. length part < 2 ^ 64)"

lemma framed_from: "foldl writeFramed written parts = written @ List.concat (map (\<lambda>p. frame_size (length p) @ p) parts)"
  by (induction parts arbitrary: written) (simp_all add: writeFramed_def)

lemma framed_concat: "framed parts = List.concat (map (\<lambda>p. frame_size (length p) @ p) parts)"
  by (simp add: framed_def framed_from)

lemma frames_inject:
  assumes "frame_ok ps" and "frame_ok qs"
    and "List.concat (map (\<lambda>p. frame_size (length p) @ p) ps) = List.concat (map (\<lambda>p. frame_size (length p) @ p) qs)"
  shows "ps = qs"
  using assms
proof (induction ps arbitrary: qs)
  case Nil
  then show ?case using frame_size_length [of "length (hd qs)"] by (cases qs) auto
next
  case (Cons p ps)
  show ?case
  proof (cases qs)
    case Nil
    then show ?thesis using Cons.prems(3) by simp
  next
    case (Cons q qs')
    have "frame_size (length p) @ p @ List.concat (map (\<lambda>p. frame_size (length p) @ p) ps)
        = frame_size (length q) @ q @ List.concat (map (\<lambda>p. frame_size (length p) @ p) qs')"
      using Cons.prems(3) Cons by simp
    then have f: "frame_size (length p) = frame_size (length q)"
      "p @ List.concat (map (\<lambda>p. frame_size (length p) @ p) ps) = q @ List.concat (map (\<lambda>p. frame_size (length p) @ p) qs')"
      using frame_size_length [of "length p"] frame_size_length [of "length q"] by simp_all
    have "length p = length q"
      using frame_size_inject [OF f(1)] Cons.prems(1,2) Cons by (simp add: frame_ok_def)
    then show ?thesis using f(2) Cons.IH [of qs'] Cons.prems(1,2) Cons by (simp add: frame_ok_def)
  qed
qed

text \<open>
  C21: the bytes that a keyed identity authenticates determine its domain and all its parts, so
  operations with different domains or parts never share a MAC input.
\<close>

theorem framed_inject:
  assumes "\<forall>part \<in> set (domain # parts). length part < 2 ^ 64" and "\<forall>part \<in> set (domain' # parts'). length part < 2 ^ 64"
    and "framed (domain # parts) = framed (domain' # parts')"
  shows "domain = domain' \<and> parts = parts'"
  using frames_inject [of "domain # parts" "domain' # parts'"] assms by (simp add: framed_concat frame_ok_def)

theorem framed_inject_witness: "framed [''a'', ''b''] \<noteq> framed [''ab'', []]"
  using framed_inject [of "''a''" "[''b'']" "''ab''" "[[]]"] by auto

end
