(* ===== verification/State_Call_Identity.thy ===== *)
theory State_Call_Identity
  imports State_Identity
begin

text \<open>
  Call identities (call_identity.go): 26 characters of base32 hold the issue second, random
  bits and the first bits of a MAC. Times are nanoseconds of the trusted clock. The lemmas show
  that encoding and decoding are inverse, so an identity has one spelling, and that history
  that counts as expired can never be admitted again.
\<close>

section \<open>Encoding\<close>

definition callIdentityAlphabet :: string where "callIdentityAlphabet = ''abcdefghijklmnopqrstuvwxyz234567''"
definition callIdentityPrefix :: string where "callIdentityPrefix = ''act_''"
definition callIdentityCharacter :: nat where "callIdentityCharacter = 26"
definition callIdentityBytes :: nat where "callIdentityBytes = 17"
definition callIdentityFields :: nat where "callIdentityFields = 10"
definition callIdentityMACBytes :: nat where "callIdentityMACBytes = 7"
definition callIdentityLastMask :: "8 word" where "callIdentityLastMask = 0xc0"

text \<open>The 16 bits that start at a byte; past the end they are zero.\<close>

definition byteWindow :: "8 word list \<Rightarrow> nat \<Rightarrow> 16 word" where
  "byteWindow raw i =
     push_bit 8 (ucast (raw ! i)) OR (if i + 1 < length raw then ucast (raw ! (i + 1)) else 0)"

definition characterValue :: "8 word list \<Rightarrow> nat \<Rightarrow> 16 word" where
  "characterValue raw index =
     (let bit = index * 5 in drop_bit (11 - bit mod 8) (byteWindow raw (bit div 8)) AND 0x1f)"

definition encodeCallIdentity :: "8 word list \<Rightarrow> string" where
  "encodeCallIdentity raw =
     callIdentityPrefix
     @ map (\<lambda>index. callIdentityAlphabet ! unat (characterValue raw index)) [0..<callIdentityCharacter]"

text \<open>\<open>raw[i] |= b\<close>, out of range nothing, as the guards of the code arrange.\<close>

definition orByte :: "nat \<Rightarrow> 8 word \<Rightarrow> 8 word list \<Rightarrow> 8 word list" where
  "orByte i b raw = (if i < length raw then raw[i := raw ! i OR b] else raw)"

definition orCharacter :: "nat \<Rightarrow> nat \<Rightarrow> 8 word list \<Rightarrow> 8 word list" where
  "orCharacter index v raw =
     (let bit = index * 5; window = push_bit (11 - bit mod 8) (of_nat v :: 16 word)
      in orByte (bit div 8 + 1) (ucast window) (orByte (bit div 8) (ucast (drop_bit 8 window)) raw))"

fun decodeCharacters :: "nat \<Rightarrow> string \<Rightarrow> 8 word list \<Rightarrow> 8 word list option" where
  "decodeCharacters index [] raw = Some raw"
| "decodeCharacters index (c # cs) raw =
     (case indexByte callIdentityAlphabet c of
        None \<Rightarrow> None
      | Some v \<Rightarrow> decodeCharacters (index + 1) cs (orCharacter index v raw))"

definition decodeCallIdentity :: "string \<Rightarrow> 8 word list option" where
  "decodeCallIdentity callID =
     (if length callID \<noteq> length callIdentityPrefix + callIdentityCharacter \<or> \<not> hasPrefix callID callIdentityPrefix
      then None
      else decodeCharacters 0 (drop (length callIdentityPrefix) callID) (replicate callIdentityBytes 0))"

section \<open>Issue and admission\<close>

text \<open>
  Instants are nanoseconds since the epoch; an error is its reason with its message. The random
  bytes of an issued identity are an argument.
\<close>

type_synonym state_error = "reason_code \<times> string"

definition CallIdentityAdmissionWindow :: int where "CallIdentityAdmissionWindow = 15 * 60 * 1000000000"
definition CallIdentityClockSkew :: int where "CallIdentityClockSkew = 30 * 1000000000"
definition callIdentitySeconds :: nat where "callIdentitySeconds = 5"
definition callIdentityRandom :: nat where "callIdentityRandom = 5"
definition maxCallIdentitySecond :: int where "maxCallIdentitySecond = 2 ^ 40 - 1"

text \<open>\<open>BigEndian.PutUint64\<close> and \<open>BigEndian.Uint64\<close>.\<close>

definition putUint64 :: "64 word \<Rightarrow> 8 word list" where
  "putUint64 v = map (\<lambda>i. ucast (drop_bit (8 * i) v)) [7, 6, 5, 4, 3, 2, 1, 0]"

definition bigEndian64 :: "8 word list \<Rightarrow> 64 word" where
  "bigEndian64 bytes = foldl (\<lambda>v b. push_bit 8 v OR ucast b) 0 bytes"

definition hexValue :: "char \<Rightarrow> nat option" where
  "hexValue c =
     (if CHR ''0'' \<le> c \<and> c \<le> CHR ''9'' then Some (of_char c - 48)
      else if CHR ''a'' \<le> c \<and> c \<le> CHR ''f'' then Some (of_char c - 87)
      else if CHR ''A'' \<le> c \<and> c \<le> CHR ''F'' then Some (of_char c - 55) else None)"

text \<open>\<open>hex.DecodeString\<close>; an odd digit is an error.\<close>

fun decodeHex :: "string \<Rightarrow> 8 word list option" where
  "decodeHex [] = Some []"
| "decodeHex [c] = None"
| "decodeHex (c # d # s) =
     (case (hexValue c, hexValue d) of
        (Some h, Some l) \<Rightarrow> map_option (\<lambda>bytes. of_nat (16 * h + l) # bytes) (decodeHex s)
      | _ \<Rightarrow> None)"

text \<open>The text after the last separator, \<open>None\<close> when there is none.\<close>

fun afterLast :: "char \<Rightarrow> string \<Rightarrow> string option" where
  "afterLast c [] = None"
| "afterLast c (x # s) = (case afterLast c s of Some rest \<Rightarrow> Some rest | None \<Rightarrow> if x = c then Some s else None)"

definition callIdentityMAC :: "identity_key \<Rightarrow> string \<Rightarrow> 8 word list \<Rightarrow> 8 word list option" where
  "callIdentityMAC k repositoryIdentity stamp =
     (case afterLast (CHR '':'') (key_identity k DomainCallID [repositoryIdentity, byte_text stamp]) of
        None \<Rightarrow> None
      | Some digits \<Rightarrow>
          (case decodeHex digits of
             None \<Rightarrow> None
           | Some digest \<Rightarrow>
               if length digest < callIdentityMACBytes then None
               else (let mac = take callIdentityMACBytes digest
                     in Some (mac[callIdentityMACBytes - 1 := mac ! (callIdentityMACBytes - 1) AND callIdentityLastMask]))))"

definition NewCallID :: "identity_key \<Rightarrow> string \<Rightarrow> int \<Rightarrow> string \<Rightarrow> 8 word list \<Rightarrow> state_error + string" where
  "NewCallID k repositoryIdentity second source entropy =
     (if second \<le> 0 \<or> maxCallIdentitySecond < second \<or> \<not> SafeLabel source
      then Inl (ReasonStateUnavailable, ''trusted clock snapshot is invalid'')
      else if length entropy < callIdentityRandom then Inl (ReasonIdentityUnavailable, ''read call identity entropy'')
      else
        (let stamp = take callIdentitySeconds (putUint64 (push_bit 24 (of_int second))) @ take callIdentityRandom entropy
         in case callIdentityMAC k repositoryIdentity stamp of
              None \<Rightarrow> Inl (ReasonIdentityUnavailable, ''derive call identity MAC'')
            | Some mac \<Rightarrow> Inr (encodeCallIdentity (stamp @ mac))))"

definition callIdentityIssuedAt :: "string \<Rightarrow> int option" where
  "callIdentityIssuedAt callID =
     (case decodeCallIdentity callID of
        None \<Rightarrow> None
      | Some raw \<Rightarrow> Some (int (unat (drop_bit 24 (bigEndian64 (take 8 raw)))) * 1000000000))"

definition issuedCallIdentity :: "identity_key \<Rightarrow> string \<Rightarrow> string \<Rightarrow> bool" where
  "issuedCallIdentity k repositoryIdentity callID =
     (case decodeCallIdentity callID of
        None \<Rightarrow> False
      | Some raw \<Rightarrow>
          callIdentityMAC k repositoryIdentity (take (callIdentitySeconds + callIdentityRandom) raw)
            = Some (drop (callIdentitySeconds + callIdentityRandom) raw))"

definition requireAdmissibleCallID :: "identity_key \<Rightarrow> string \<Rightarrow> string \<Rightarrow> int \<Rightarrow> state_error + unit" where
  "requireAdmissibleCallID k repositoryIdentity callID now =
     (if \<not> issuedCallIdentity k repositoryIdentity callID
      then Inl (ReasonIdentityUnavailable, ''action call identity was not issued by this action state'')
      else
        (let issued = (case callIdentityIssuedAt callID of Some second \<Rightarrow> second | None \<Rightarrow> 0)
         in if issued < now - CallIdentityAdmissionWindow \<or> now + CallIdentityClockSkew < issued
            then Inl (ReasonReservationIndeterminate, ''action call identity is outside its admission window'')
            else Inr ()))"

definition callIdentityExpired :: "string \<Rightarrow> int \<Rightarrow> bool" where
  "callIdentityExpired callID now =
     (case callIdentityIssuedAt callID of
        None \<Rightarrow> False
      | Some issued \<Rightarrow> issued + (CallIdentityAdmissionWindow + CallIdentityClockSkew) < now)"

section \<open>The identity as a row of bits\<close>

definition rawBit :: "8 word list \<Rightarrow> nat \<Rightarrow> bool" where
  "rawBit raw n \<longleftrightarrow> bit (raw ! (n div 8)) (7 - n mod 8)"

lemma raw_eqI:
  assumes "length a = length b" and "\<And>n. n < 8 * length a \<Longrightarrow> rawBit a n = rawBit b n"
  shows "a = b"
proof (rule nth_equalityI [OF assms(1)])
  fix i assume i: "i < length a"
  show "a ! i = b ! i"
  proof (rule bit_word_eqI)
    fix k assume "k < LENGTH(8)"
    then have m: "k = 7 - (7 - k)" "7 - k < 8" by simp_all
    define m where "m = 7 - k"
    then have m: "k = 7 - m" "m < 8" using m by simp_all
    have d: "(8 * i + m) div 8 = i" "(8 * i + m) mod 8 = m" using m(2) by simp_all
    have "8 * i + m < 8 * length a" using i m(2) by simp
    then show "bit (a ! i) k = bit (b ! i) k" using assms(2) [of "8 * i + m"] unfolding rawBit_def d m(1) by simp
  qed
qed

lemma high_window_bit:
  assumes "j < 8"
  shows "bit (byteWindow raw i) (j + 8) \<longleftrightarrow> bit (raw ! i) j"
  using assms by (simp add: byteWindow_def bit_or_iff bit_push_bit_iff bit_ucast_iff)
   (auto dest: bit_imp_le_length)

lemma low_window_bit:
  assumes "j < 8"
  shows "bit (byteWindow raw i) j \<longleftrightarrow> i + 1 < length raw \<and> bit (raw ! (i + 1)) j"
  using assms by (simp add: byteWindow_def bit_or_iff bit_push_bit_iff bit_ucast_iff)

lemma row_split: "x < 8 \<Longrightarrow> (8 * q + x) div 8 = q" "x < 8 \<Longrightarrow> (8 * q + x) mod 8 = x" for x q :: nat
  by simp_all

lemma bit_31: "bit (31 :: nat) j \<longleftrightarrow> j < 5" "bit (31 :: int) j \<longleftrightarrow> j < 5"
proof -
  have "(31 :: nat) = mask 5" "(31 :: int) = mask 5" by (simp_all add: mask_eq_exp_minus_1)
  then show "bit (31 :: nat) j \<longleftrightarrow> j < 5" "bit (31 :: int) j \<longleftrightarrow> j < 5" by (simp_all only: bit_mask_iff) simp_all
qed

text \<open>Bit \<open>j\<close> of character \<open>i\<close> is bit \<open>5 i + 4 - j\<close> of the row.\<close>

lemma character_bit:
  assumes "length raw = 17" and "i < 26"
  shows "bit (characterValue raw i) j \<longleftrightarrow> j < 5 \<and> rawBit raw (5 * i + 4 - j)"
proof (cases "j < 5")
  case False
  then show ?thesis by (simp add: characterValue_def Let_def bit_and_iff bit_31)
next
  case True
  define q where "q = 5 * i div 8"
  define r where "r = 5 * i mod 8"
  have i: "5 * i = 8 * q + r" "r < 8" by (simp_all add: q_def r_def)
  have q: "q < 17" using i assms(2) by linarith
  have "bit (characterValue raw i) j \<longleftrightarrow> bit (byteWindow raw q) (11 - r + j)"
    using True by (simp add: characterValue_def Let_def bit_and_iff bit_drop_bit_eq bit_31 mult.commute q_def r_def)
  also have "\<dots> \<longleftrightarrow> rawBit raw (5 * i + 4 - j)"
  proof (cases "r + 4 - j < 8")
    case c: True
    have n: "5 * i + 4 - j = 8 * q + (r + 4 - j)" using i True by linarith
    have e: "11 - r + j = (7 - (r + 4 - j)) + 8" using i c True by linarith
    show ?thesis unfolding e n rawBit_def row_split [OF c] by (rule high_window_bit) simp
  next
    case c: False
    define x where "x = r + 4 - j - 8"
    then have x: "r + 4 = j + 8 + x" using c by linarith
    have "5 * i + 4 = j + (8 * (q + 1) + x)" using i x by (simp add: algebra_simps)
    then have n: "5 * i + 4 - j = 8 * (q + 1) + x" by simp
    have e: "11 - r + j = 7 - x" using i True x by linarith
    have x: "x < 8" using i x by linarith
    have "8 * (q + 1) \<le> 5 * i + 4" using i(1) c by simp
    then have q: "q + 1 < length raw" using assms by simp
    show ?thesis unfolding e n rawBit_def row_split [OF x]
      by (subst low_window_bit) (use q in simp_all)
  qed
  finally show ?thesis using True by simp
qed

lemma character_range: "length raw = 17 \<Longrightarrow> i < 26 \<Longrightarrow> unat (characterValue raw i) < 32"
proof -
  have "characterValue raw i AND mask 5 = characterValue raw i"
    by (rule bit_word_eqI) (auto simp: characterValue_def Let_def bit_and_iff bit_31 bit_mask_iff possible_bit_word)
  then have "take_bit 5 (unat (characterValue raw i)) = unat (characterValue raw i)"
    by (metis take_bit_eq_mask unsigned_take_bit_eq)
  then show ?thesis using take_bit_nat_less_exp [of 5 "unat (characterValue raw i)"] by simp
qed

section \<open>Decoding\<close>

lemma orByte_length [simp]: "length (orByte i b raw) = length raw"
  by (simp add: orByte_def)

lemma orCharacter_length [simp]: "length (orCharacter i v raw) = length raw"
  by (simp add: orCharacter_def Let_def)

lemma orByte_bit:
  assumes "n < 8 * length raw"
  shows "rawBit (orByte i b raw) n \<longleftrightarrow> rawBit raw n \<or> n div 8 = i \<and> bit b (7 - n mod 8)"
  using assms by (auto simp: orByte_def rawBit_def bit_or_iff nth_list_update)

lemma low_byte: "bit (ucast (w :: 16 word) :: 8 word) j \<longleftrightarrow> j < 8 \<and> bit w j"
  by (auto simp: bit_ucast_iff)

text \<open>Decoding character \<open>i\<close> sets exactly the bits of its value.\<close>

lemma orCharacter_bit:
  assumes "length raw = 17" and "n < 136" and "i < 26" and "v < 32"
  shows "rawBit (orCharacter i v raw) n \<longleftrightarrow> rawBit raw n \<or> n div 5 = i \<and> bit v (4 - n mod 5)"
proof -
  define q where "q = 5 * i div 8"
  define r where "r = 5 * i mod 8"
  define m where "m = n mod 8"
  have i: "5 * i = 8 * q + r" "r < 8" by (simp_all add: q_def r_def)
  have n: "n = 8 * (n div 8) + m" "m < 8" by (simp_all add: m_def)
  let ?w = "push_bit (11 - r) (of_nat v :: 16 word)"
  have v: "k < 5" if "bit v k" for k
  proof (rule ccontr)
    assume "\<not> k < 5"
    then have "v < 2 ^ k" using assms(4) power_increasing [of 5 k "2 :: nat"] by simp
    then show False using that by (simp add: bit_iff_odd)
  qed
  have w: "bit ?w k \<longleftrightarrow> 11 - r \<le> k \<and> k < 16 \<and> bit v (k - (11 - r))" for k
    by (auto simp: bit_push_bit_iff bit_of_nat_iff possible_bit_word)
  have "rawBit (orCharacter i v raw) n \<longleftrightarrow> rawBit raw n
      \<or> n div 8 = q \<and> bit ?w (8 + (7 - m)) \<or> n div 8 = q + 1 \<and> bit ?w (7 - m)"
    using assms(1,2)
    by (simp add: orCharacter_def Let_def mult.commute [of i 5] orByte_bit low_byte bit_drop_bit_eq
        flip: q_def r_def m_def) auto
  moreover have "n div 8 = q \<and> bit ?w (8 + (7 - m)) \<or> n div 8 = q + 1 \<and> bit ?w (7 - m)
      \<longleftrightarrow> n div 5 = i \<and> bit v (4 - n mod 5)"
  proof
    assume "n div 8 = q \<and> bit ?w (8 + (7 - m)) \<or> n div 8 = q + 1 \<and> bit ?w (7 - m)"
    then obtain k where k: "n + k = 5 * i + 4" "bit v k"
    proof (elim disjE conjE)
      assume q: "n div 8 = q" and b: "bit ?w (8 + (7 - m))"
      have "n + (8 + (7 - m) - (11 - r)) = 5 * i + 4" using b [unfolded w] n q i by linarith
      then show ?thesis using that b [unfolded w] by blast
    next
      assume q: "n div 8 = q + 1" and b: "bit ?w (7 - m)"
      have "n + (7 - m - (11 - r)) = 5 * i + 4" using b [unfolded w] n q i by linarith
      then show ?thesis using that b [unfolded w] by blast
    qed
    then have "n = 5 * i + (4 - k)" using v [OF k(2)] by linarith
    moreover have "(5 * i + t) div 5 = i \<and> (5 * i + t) mod 5 = t" if "t < 5" for t using that by simp
    ultimately have "n div 5 = i" "n mod 5 = 4 - k" by simp_all
    then have "n div 5 = i" "4 - n mod 5 = k" using v [OF k(2)] by simp_all
    then show "n div 5 = i \<and> bit v (4 - n mod 5)" using k(2) by simp
  next
    assume a: "n div 5 = i \<and> bit v (4 - n mod 5)"
    define k where "k = 4 - n mod 5"
    have k: "bit v k" "n + k = 5 * i + 4" "k < 5" using a div_mult_mod_eq [of n 5] by (auto simp: k_def)
    show "n div 8 = q \<and> bit ?w (8 + (7 - m)) \<or> n div 8 = q + 1 \<and> bit ?w (7 - m)"
    proof (cases "n div 8 = q")
      case True
      have "8 + (7 - m) - (11 - r) = k" "11 - r \<le> 8 + (7 - m)" using n True i k by linarith+
      then show ?thesis using True k(1) by (simp add: w)
    next
      case False
      have q: "n div 8 = q + 1" using n i k False by linarith
      have "7 - m - (11 - r) = k" "11 - r \<le> 7 - m" using n q i k by linarith+
      then show ?thesis using q k(1) by (simp add: w)
    qed
  qed
  ultimately show ?thesis by simp
qed

text \<open>The characters of a text set the bits of their values.\<close>

lemma alphabet_length: "length callIdentityAlphabet = 32"
  by (simp add: callIdentityAlphabet_def)

lemma alphabet_distinct: "distinct callIdentityAlphabet"
  by (simp add: callIdentityAlphabet_def)

lemma indexByte_Some: "indexByte a c = Some v \<Longrightarrow> v < length a \<and> a ! v = c"
  by (induction a arbitrary: v) (auto split: if_splits)

lemma indexByte_nth: "distinct a \<Longrightarrow> v < length a \<Longrightarrow> indexByte a (a ! v) = Some v"
proof (induction a arbitrary: v)
  case (Cons x a)
  then show ?case by (cases v) auto
qed simp

lemma decodeCharacters_length: "decodeCharacters i cs raw = Some raw' \<Longrightarrow> length raw' = length raw"
  by (induction cs arbitrary: i raw) (auto split: option.splits)

lemma decodeCharacters_bits:
  assumes "decodeCharacters i cs raw = Some raw'" and "length raw = 17" and "i + length cs \<le> 26" and "n < 136"
  shows "rawBit raw' n \<longleftrightarrow> rawBit raw n
    \<or> i \<le> n div 5 \<and> n div 5 < i + length cs
      \<and> bit (the (indexByte callIdentityAlphabet (cs ! (n div 5 - i)))) (4 - n mod 5)"
  using assms(1-3)
proof (induction cs arbitrary: i raw)
  case (Cons c cs)
  then obtain v where v: "indexByte callIdentityAlphabet c = Some v"
    "decodeCharacters (i + 1) cs (orCharacter i v raw) = Some raw'" by (auto split: option.splits)
  have "v < 32" using indexByte_Some [OF v(1)] alphabet_length by simp
  then have "rawBit (orCharacter i v raw) n \<longleftrightarrow> rawBit raw n \<or> n div 5 = i \<and> bit v (4 - n mod 5)"
    using orCharacter_bit Cons.prems assms(4) by simp
  then have IH: "rawBit raw' n \<longleftrightarrow> rawBit raw n \<or> n div 5 = i \<and> bit v (4 - n mod 5)
      \<or> i + 1 \<le> n div 5 \<and> n div 5 < i + 1 + length cs
        \<and> bit (the (indexByte callIdentityAlphabet (cs ! (n div 5 - (i + 1))))) (4 - n mod 5)"
    using Cons.IH [OF v(2)] Cons.prems by simp
  show ?case
  proof (cases "i < n div 5")
    case True
    then have "(c # cs) ! (n div 5 - i) = cs ! (n div 5 - (i + 1))" by (simp add: nth_Cons')
    then show ?thesis using IH True by auto
  qed (use IH v(1) in \<open>auto simp: le_less\<close>)
qed auto

lemma decodeCharacters_total:
  "(\<forall>c \<in> set cs. c \<in> set callIdentityAlphabet) \<Longrightarrow> \<exists>raw'. decodeCharacters i cs raw = Some raw'"
proof (induction cs arbitrary: i raw)
  case (Cons c cs)
  then obtain v where "v < length callIdentityAlphabet" "callIdentityAlphabet ! v = c" by (auto simp: in_set_conv_nth)
  then have "indexByte callIdentityAlphabet c = Some v" using indexByte_nth [OF alphabet_distinct] by blast
  then show ?case using Cons.IH [of "i + 1" "orCharacter i v raw"] Cons.prems by simp
qed simp

text \<open>The rows that an identity can spell: 17 bytes, the last six bits zero.\<close>

definition row_ok :: "8 word list \<Rightarrow> bool" where
  "row_ok raw \<longleftrightarrow> length raw = 17 \<and> (\<forall>n \<in> {130..<136}. \<not> rawBit raw n)"

lemma zero_row_bit: "n < 136 \<Longrightarrow> \<not> rawBit (replicate 17 0) n"
  by (simp add: rawBit_def)

lemma decodeCallIdentity_bits:
  assumes "decodeCallIdentity s = Some raw"
  shows "row_ok raw" and "n < 130 \<Longrightarrow> rawBit raw n \<longleftrightarrow> bit (the (indexByte callIdentityAlphabet (s ! (n div 5 + 4)))) (4 - n mod 5)"
    and "i < 26 \<Longrightarrow> indexByte callIdentityAlphabet (s ! (i + 4)) \<noteq> None"
    and "length s = 30" and "take 4 s = callIdentityPrefix"
proof -
  have c: "length s = 30" "take 4 s = callIdentityPrefix"
    "decodeCharacters 0 (drop 4 s) (replicate 17 0) = Some raw"
    using assms by (auto simp: decodeCallIdentity_def callIdentityPrefix_def callIdentityCharacter_def
        callIdentityBytes_def hasPrefix_def numeral_eq_Suc split: if_splits)
  then show "length s = 30" "take 4 s = callIdentityPrefix" by simp_all
  note b = decodeCharacters_bits [OF c(3)]
  have nth: "drop 4 s ! k = s ! (k + 4)" if "k < 26" for k using that c(1) by (simp add: add.commute)
  have "\<not> rawBit raw n" if "130 \<le> n" "n < 136" for n
  proof -
    have "\<not> n div 5 < 26" using that by simp
    then show ?thesis using b [of n] that c(1) zero_row_bit [of n] by simp
  qed
  then show "row_ok raw" using decodeCharacters_length [OF c(3)] by (simp add: row_ok_def)
  show "rawBit raw n \<longleftrightarrow> bit (the (indexByte callIdentityAlphabet (s ! (n div 5 + 4)))) (4 - n mod 5)" if "n < 130"
  proof -
    have "n div 5 < 26" using that by simp
    then show ?thesis using b [of n] that c(1) zero_row_bit [of n] nth [of "n div 5"] by simp
  qed
  have spelled: "indexByte callIdentityAlphabet c \<noteq> None" if "c \<in> set cs" "decodeCharacters i cs raw = Some raw'" for c cs i raw raw'
    using that by (induction cs arbitrary: i raw) (auto split: option.splits)
  show "indexByte callIdentityAlphabet (s ! (i + 4)) \<noteq> None" if "i < 26"
  proof -
    have "drop 4 s ! i \<in> set (drop 4 s)" by (rule nth_mem) (use c(1) that in simp)
    then show ?thesis using spelled [OF _ c(3)] nth [OF that] by simp
  qed
qed

lemma encodeCallIdentity_length: "length (encodeCallIdentity raw) = 30"
  by (simp add: encodeCallIdentity_def callIdentityPrefix_def callIdentityCharacter_def)

lemma decode_then_encode:
  assumes "decodeCallIdentity s = Some raw"
  shows "encodeCallIdentity raw = s"
proof -
  note d = decodeCallIdentity_bits [OF assms]
  have "callIdentityAlphabet ! unat (characterValue raw i) = s ! (i + 4)" if i: "i < 26" for i
  proof -
    obtain v where v: "indexByte callIdentityAlphabet (s ! (i + 4)) = Some v" using d(3) [OF i] by blast
    then have v32: "v < 32" "callIdentityAlphabet ! v = s ! (i + 4)" using indexByte_Some alphabet_length by force+
    have "characterValue raw i = of_nat v"
    proof (rule bit_word_eqI)
      fix j assume "j < LENGTH(16)"
      have *: "bit (characterValue raw i) j \<longleftrightarrow> j < 5 \<and> rawBit raw (5 * i + 4 - j)"
        using character_bit [of raw i j] d(1) i by (simp add: row_ok_def)
      show "bit (characterValue raw i) j = bit (of_nat v :: 16 word) j"
      proof (cases "j < 5")
        case True
        then have n: "5 * i + 4 - j = 5 * i + (4 - j)" "4 - j < 5" by simp_all
        then have "(5 * i + 4 - j) div 5 = i" "(5 * i + 4 - j) mod 5 = 4 - j" by simp_all
        then have "rawBit raw (5 * i + 4 - j) \<longleftrightarrow> bit v j" using d(2) [of "5 * i + 4 - j"] i True v by simp
        then show ?thesis using * True by (auto simp: bit_of_nat_iff possible_bit_word dest: bit_imp_le_length)
      next
        case False
        then have "v < 2 ^ j" using v32 power_increasing [of 5 j "2 :: nat"] by simp
        then have "\<not> bit v j" by (simp add: bit_iff_odd)
        then show ?thesis using * False by (simp add: bit_of_nat_iff)
      qed
    qed
    moreover have "unat (of_nat v :: 16 word) = v" using v32 by (simp add: unat_of_nat)
    ultimately show ?thesis using v32 by simp
  qed
  then have "encodeCallIdentity raw = take 4 s @ map (\<lambda>i. s ! (i + 4)) [0..<26]"
    using d(5) by (simp add: encodeCallIdentity_def callIdentityCharacter_def)
  also have "map (\<lambda>i. s ! (i + 4)) [0..<26] = drop 4 s"
    by (rule nth_equalityI) (use d(4) in \<open>simp_all add: add.commute\<close>)
  finally show ?thesis by simp
qed

lemma encode_then_decode:
  assumes "row_ok raw"
  shows "decodeCallIdentity (encodeCallIdentity raw) = Some raw"
proof -
  define cs where "cs = map (\<lambda>i. callIdentityAlphabet ! unat (characterValue raw i)) [0..<26]"
  have len: "length raw = 17" using assms by (simp add: row_ok_def)
  have cs: "length cs = 26" "\<forall>c \<in> set cs. c \<in> set callIdentityAlphabet"
    using character_range [OF len] alphabet_length by (auto simp: cs_def intro!: nth_mem)
  obtain raw' where d: "decodeCharacters 0 cs (replicate 17 0) = Some raw'" using decodeCharacters_total [OF cs(2)] by blast
  have v: "the (indexByte callIdentityAlphabet (cs ! i)) = unat (characterValue raw i)" if "i < 26" for i
    using that indexByte_nth [OF alphabet_distinct] character_range [OF len that] by (simp add: cs_def alphabet_length)
  have "rawBit raw' n = rawBit raw n" if n: "n < 136" for n
  proof (cases "n < 130")
    case True
    have "5 * (n div 5) + 4 - (4 - n mod 5) = n" using div_mult_mod_eq [of n 5] mod_less_divisor [of 5 n] by linarith
    moreover have "bit (unat (characterValue raw (n div 5))) (4 - n mod 5) \<longleftrightarrow> rawBit raw (5 * (n div 5) + 4 - (4 - n mod 5))"
      using character_bit [OF len, of "n div 5" "4 - n mod 5"] True
      by (simp add: bit_unsigned_iff possible_bit_word less_eq_Suc_le)
    moreover have "n div 5 < 26" using True by simp
    ultimately show ?thesis using decodeCharacters_bits [OF d, of n] n cs(1) v [of "n div 5"] zero_row_bit [OF n] by simp
  next
    case False
    then show ?thesis using decodeCharacters_bits [OF d, of n] n cs(1) zero_row_bit [OF n] assms by (auto simp: row_ok_def)
  qed
  then have "raw' = raw" using decodeCharacters_length [OF d] len by (intro raw_eqI) simp_all
  moreover have "encodeCallIdentity raw = callIdentityPrefix @ cs"
    by (simp add: encodeCallIdentity_def cs_def callIdentityCharacter_def)
  ultimately show ?thesis using d cs(1)
    by (simp add: decodeCallIdentity_def callIdentityPrefix_def callIdentityCharacter_def callIdentityBytes_def hasPrefix_def)
qed

section \<open>Issued identities\<close>

lemma bigEndian64_bit: "bit (bigEndian64 bytes) j \<longleftrightarrow> j < 64 \<and> j < 8 * length bytes \<and> bit (rev bytes ! (j div 8)) (j mod 8)"
proof (induction bytes arbitrary: j rule: rev_induct)
  case Nil
  then show ?case by (simp add: bigEndian64_def)
next
  case (snoc b bytes)
  have step: "bigEndian64 (bytes @ [b]) = push_bit 8 (bigEndian64 bytes) OR ucast b" by (simp add: bigEndian64_def)
  show ?case
  proof (cases "j < 8")
    case True
    then show ?thesis by (simp add: step bit_or_iff bit_push_bit_iff bit_ucast_iff)
  next
    case False
    then have "j div 8 = Suc ((j - 8) div 8)" "(j - 8) mod 8 = j mod 8" by (simp_all add: le_div_geq le_mod_geq)
    moreover have "\<not> bit b j" using False bit_imp_le_length [of b j] by auto
    ultimately show ?thesis using False snoc.IH [of "j - 8"]
      by (auto simp: step bit_or_iff bit_push_bit_iff bit_ucast_iff possible_bit_word)
  qed
qed

lemma second_of_stamp:
  assumes "length rest = 3" and "bit_range = (\<forall>j. bit v j \<longrightarrow> j < 40)" and "bit_range"
  shows "drop_bit 24 (bigEndian64 (take 5 (putUint64 (push_bit 24 v)) @ rest)) = v"
proof (rule bit_word_eqI)
  fix j assume j: "j < LENGTH(64)"
  have len: "length (take 5 (putUint64 (push_bit 24 v)) @ rest) = 8" using assms(1) by (simp add: putUint64_def)
  show "bit (drop_bit 24 (bigEndian64 (take 5 (putUint64 (push_bit 24 v)) @ rest))) j = bit v j"
  proof (cases "j < 40")
    case True
    define n where "n = 24 + j"
    have n: "n < 64" "3 \<le> n div 8" using True by (simp_all add: n_def)
    then have "rev (take 5 (putUint64 (push_bit 24 v)) @ rest) ! (n div 8) = putUint64 (push_bit 24 v) ! (7 - n div 8)"
    proof -
      have "n div 8 = 3 \<or> n div 8 = 4 \<or> n div 8 = 5 \<or> n div 8 = 6 \<or> n div 8 = 7" using n by linarith
      then show ?thesis using assms(1) by (elim disjE) (simp_all add: nth_append rev_nth putUint64_def)
    qed
    moreover have "putUint64 w ! (7 - i) = ucast (drop_bit (8 * i) w)" if "i < 8" for i w
      using that by (auto simp: putUint64_def less_Suc_eq numeral_eq_Suc)
    moreover have "n div 8 < 8" using n(1) by simp
    ultimately have "bit (rev (take 5 (putUint64 (push_bit 24 v)) @ rest) ! (n div 8)) (n mod 8) \<longleftrightarrow> bit v j"
      using n True by (simp add: bit_ucast_iff bit_drop_bit_eq bit_push_bit_iff n_def possible_bit_word)
    then show ?thesis using n(1) len by (simp add: bit_drop_bit_eq bigEndian64_bit n_def)
  next
    case False
    then show ?thesis using assms(2,3) j by (auto simp: bit_drop_bit_eq bigEndian64_bit)
  qed
qed

lemma nibbles:
  fixes b :: "8 word"
  shows "unat (drop_bit 4 b) = unat b div 16" and "unat (b AND 15) = unat b mod 16" and "unat b < 256"
proof -
  show "unat (drop_bit 4 b) = unat b div 16" by (simp only: unat_drop_bit_eq) (simp add: drop_bit_eq_div)
  have "b AND 15 = take_bit 4 b" by (simp add: take_bit_eq_mask mask_eq_exp_minus_1)
  then show "unat (b AND 15) = unat b mod 16" by (simp only: unsigned_take_bit_eq) (simp add: take_bit_eq_mod)
  show "unat b < 256" using unsigned_less [of b] by simp
qed

lemma decodeHex_hex_bytes: "decodeHex (hex_bytes bytes) = Some bytes"
proof (induction bytes)
  case Nil
  then show ?case by (simp add: hex_bytes_def)
next
  case (Cons b bytes)
  have digit: "hexValue (hexDigit n) = Some n" if "n < 16" for n
    using that by (auto simp: hexValue_def hexDigit_def less_eq_char_def)
  have f: "unat (drop_bit 4 b) < 16" "unat (b AND 15) < 16" using nibbles [of b] by simp_all
  have g: "of_nat (16 * unat (drop_bit 4 b) + unat (b AND 15)) = b" by (simp only: nibbles mult_div_mod_eq) simp
  have "hex_bytes (b # bytes) = hexDigit (unat (drop_bit 4 b)) # hexDigit (unat (b AND 15)) # hex_bytes bytes"
    by (simp add: hex_bytes_def)
  then show ?case using Cons digit [OF f(1)] digit [OF f(2)] g by simp
qed

lemma afterLast_append: "c \<notin> set b \<Longrightarrow> afterLast c (a @ c # b) = Some b"
proof -
  assume "c \<notin> set b"
  then have "afterLast c b = None" by (induction b) auto
  then show ?thesis by (induction a) auto
qed

lemma hex_bytes_no_colon: "CHR '':'' \<notin> set (hex_bytes bytes)"
proof -
  have "hexDigit n \<noteq> CHR '':''" if "n < 16" for n using hexDigit_lower [OF that] by (auto simp: lowerHexChar_def less_eq_char_def)
  moreover have "unat (drop_bit 4 b) < 16" "unat (b AND 15) < 16" for b :: "8 word"
    using nibbles [of b] by simp_all
  ultimately show ?thesis by (fastforce simp: hex_bytes_def)
qed

lemma callIdentityMAC_Some:
  "callIdentityMAC k repo stamp
    = (let mac = take 7 (hmac_sha256 (ikey_material k) (framed [DomainCallID, repo, byte_text stamp]))
       in Some (mac[6 := mac ! 6 AND 0xc0]))"
proof -
  have "domain_valid DomainCallID" by (simp add: domain_valid_def identity_domains_def DomainCallID_def)
  moreover have "length (hmac_sha256 m t) = 32" for m t by (simp add: hmac_sha256_def sha256_bytes_length)
  moreover have "afterLast (CHR '':'') (''hmac-sha256:v1:'' @ ikey_id k @ '':'' @ hex_bytes bytes) = Some (hex_bytes bytes)" for bytes
    using afterLast_append [OF hex_bytes_no_colon, of "''hmac-sha256:v1:'' @ ikey_id k" bytes] by (simp only: append_assoc) simp
  ultimately show ?thesis
    by (simp only: callIdentityMAC_def key_identity_def decodeHex_hex_bytes callIdentityMACBytes_def callIdentityLastMask_def
        Let_def option.case if_False not_True_eq_False) simp
qed

lemma low_six_masked: "n < 6 \<Longrightarrow> \<not> bit (b AND (0xc0 :: 8 word)) n"
proof -
  assume "n < 6"
  then have "n = 0 \<or> n = 1 \<or> n = 2 \<or> n = 3 \<or> n = 4 \<or> n = 5" by linarith
  then have "\<not> bit (0xc0 :: 8 word) n" by (elim disjE) simp_all
  then show ?thesis by (simp only: bit_and_iff) simp
qed

lemma callIdentityMAC_shape:
  obtains mac where "callIdentityMAC k repo stamp = Some mac" and "length mac = 7" and "\<And>n. n < 6 \<Longrightarrow> \<not> bit (mac ! 6) n"
proof -
  have "length (hmac_sha256 m t) = 32" for m t by (simp add: hmac_sha256_def sha256_bytes_length)
  then show ?thesis using that low_six_masked by (simp add: callIdentityMAC_Some Let_def)
qed

lemma stamped_row_ok:
  assumes "length stamp = 10" and "length mac = 7" and "\<And>n. n < 6 \<Longrightarrow> \<not> bit (mac ! 6) n"
  shows "row_ok (stamp @ mac)"
proof -
  have "\<not> rawBit (stamp @ mac) n" if "n \<in> {130..<136}" for n
  proof -
    have d: "n div 8 = 16" using that by auto
    moreover have "7 - n mod 8 < 6" using that d div_mult_mod_eq [of n 8] by (simp, linarith)
    ultimately have "n div 8 = 16" "7 - n mod 8 < 6" .
    then show ?thesis using assms by (simp add: rawBit_def nth_append)
  qed
  then show ?thesis using assms by (simp add: row_ok_def)
qed

lemma second_bits:
  assumes "0 < second" and "second < 2 ^ 40"
  shows "bit (of_int second :: 64 word) j \<Longrightarrow> j < 40" and "unat (of_int second :: 64 word) = nat second"
proof -
  show u: "unat (of_int second :: 64 word) = nat second"
    using assms by (simp add: unsigned_of_int take_bit_int_eq_self)
  show "j < 40" if b: "bit (of_int second :: 64 word) j"
  proof (rule ccontr)
    assume "\<not> j < 40"
    then have "(2 :: int) ^ 40 \<le> 2 ^ j" by (intro power_increasing) simp_all
    then have "second < 2 ^ j" using assms by linarith
    then have "nat second < 2 ^ j" using assms by (simp add: nat_less_iff)
    then have "\<not> bit (nat second) j" by (simp add: bit_iff_odd)
    moreover have "bit (unat (of_int second :: 64 word)) j" using b by (simp only: bit_unsigned_iff) (simp add: bit_imp_le_length)
    then have "bit (nat second) j" by (simp only: u)
    ultimately show False by simp
  qed
qed

lemma NewCallID_issued:
  assumes "NewCallID k repo second source entropy = Inr s"
  shows "issuedCallIdentity k repo s" and "callIdentityIssuedAt s = Some (second * 1000000000)"
proof -
  define stamp where "stamp = take 5 (putUint64 (push_bit 24 (of_int second))) @ take 5 entropy"
  obtain mac where mac: "callIdentityMAC k repo stamp = Some mac" "length mac = 7" "\<And>n. n < 6 \<Longrightarrow> \<not> bit (mac ! 6) n"
    using callIdentityMAC_shape by blast
  have c: "0 < second" "second < 2 ^ 40" "5 \<le> length entropy" "s = encodeCallIdentity (stamp @ mac)"
    using assms mac(1)
    by (auto simp: NewCallID_def callIdentitySeconds_def callIdentityRandom_def maxCallIdentitySecond_def stamp_def Let_def
        split: if_splits)
  have len: "length stamp = 10" using c(3) by (simp add: stamp_def putUint64_def)
  have d: "decodeCallIdentity s = Some (stamp @ mac)"
    unfolding c(4) by (rule encode_then_decode [OF stamped_row_ok [OF len mac(2,3)]])
  show "issuedCallIdentity k repo s"
    using mac(1) len by (simp add: issuedCallIdentity_def d callIdentitySeconds_def callIdentityRandom_def)
  have t: "take 8 (stamp @ mac) = take 5 (putUint64 (push_bit 24 (of_int second))) @ take 3 (take 5 entropy)"
    using c(3) len by (simp add: stamp_def putUint64_def)
  have "drop_bit 24 (bigEndian64 (take 8 (stamp @ mac))) = of_int second"
    unfolding t by (rule second_of_stamp) (use c(3) second_bits [OF c(1,2)] in \<open>simp_all add: min_def\<close>)
  then show "callIdentityIssuedAt s = Some (second * 1000000000)"
    using second_bits(2) [OF c(1,2)] c(1) by (simp add: callIdentityIssuedAt_def d)
qed

text \<open>
  C19: decoding a call identity is the inverse of encoding it: a text decodes exactly when it is
  the encoding of 17 bytes whose last six bits are zero, so every identity has one spelling.
\<close>

theorem call_identity_spelling: "decodeCallIdentity s = Some raw \<longleftrightarrow> row_ok raw \<and> s = encodeCallIdentity raw"
  using decodeCallIdentity_bits(1) decode_then_encode encode_then_decode by metis

text \<open>
  An identity that the store issues is accepted by the same store from its issue second until
  the window closes, and reads back that second.
\<close>

theorem issued_call_admissible:
  assumes "NewCallID k repo second source entropy = Inr s"
    and "second * 1000000000 - CallIdentityClockSkew \<le> now"
    and "now \<le> second * 1000000000 + CallIdentityAdmissionWindow"
  shows "requireAdmissibleCallID k repo s now = Inr () \<and> callIdentityIssuedAt s = Some (second * 1000000000)"
  using assms(2,3) NewCallID_issued [OF assms(1)] by (simp add: requireAdmissibleCallID_def)

theorem issued_call_admissible_witness:
  "\<exists>s. NewCallID \<lparr>ikey_id = ''k'', ikey_material = replicate 32 0\<rparr> ''repo'' 7 ''clock'' (replicate 5 1) = Inr s
    \<and> requireAdmissibleCallID \<lparr>ikey_id = ''k'', ikey_material = replicate 32 0\<rparr> ''repo'' s 7000000000 = Inr ()"
proof -
  let ?k = "\<lparr>ikey_id = ''k'', ikey_material = replicate 32 0\<rparr>"
  have "SafeLabel ''clock''" by code_simp
  moreover obtain mac where
    "callIdentityMAC ?k ''repo'' (take 5 (putUint64 (push_bit 24 (of_int 7))) @ take 5 (replicate 5 1)) = Some mac"
    using callIdentityMAC_shape by blast
  ultimately obtain s where s: "NewCallID ?k ''repo'' 7 ''clock'' (replicate 5 1) = Inr s"
    by (auto simp: NewCallID_def maxCallIdentitySecond_def callIdentitySeconds_def callIdentityRandom_def Let_def)
  then show ?thesis using issued_call_admissible [OF s, of 7000000000]
    by (auto simp: CallIdentityClockSkew_def CallIdentityAdmissionWindow_def)
qed

text \<open>
  C20: history that counts as expired at some instant is never needed again: from that instant on
  the store admits no call under its identity, so pruning it cannot open a replay.
\<close>

theorem expired_never_admissible:
  assumes "callIdentityExpired s t" and "t \<le> now"
  shows "requireAdmissibleCallID k repo s now \<noteq> Inr ()"
  using assms
  by (auto simp: callIdentityExpired_def requireAdmissibleCallID_def CallIdentityAdmissionWindow_def CallIdentityClockSkew_def
      split: option.splits)

theorem expired_never_admissible_witness:
  "requireAdmissibleCallID \<lparr>ikey_id = ''k'', ikey_material = replicate 32 0\<rparr> ''repo''
     (encodeCallIdentity (replicate 17 0)) 1000000000000 \<noteq> Inr ()"
proof -
  have "callIdentityExpired (encodeCallIdentity (replicate 17 0)) 1000000000000" by code_simp
  from expired_never_admissible [OF this] show ?thesis by simp
qed

end
