(* ===== verification/State_Usage.thy ===== *)
theory State_Usage
  imports State_Call_Identity Action_Budget
begin

text \<open>
  The records of the action state (budget\_types.go), the arithmetic on usage counters
  (state\_clone.go) and the lookups that every operation shares. The lemmas show that a checked
  addition is exact in every dimension and how updating one budget record changes what a lineage
  has consumed.
\<close>

section \<open>Records\<close>

datatype reservation_status =
  ReservationReserved | ReservationDispatched | ReservationIndeterminate | ReservationStatusOther string

definition reservation_status_valid :: "reservation_status \<Rightarrow> bool" where
  "reservation_status_valid s \<longleftrightarrow>
     s = ReservationReserved \<or> s = ReservationDispatched \<or> s = ReservationIndeterminate"

datatype terminal_outcome =
  OutcomeReleased | OutcomeBlocked | OutcomeSucceeded | OutcomeFailed | OutcomeIndeterminateCommitted
  | OutcomeOther string

definition terminal_outcome_valid :: "terminal_outcome \<Rightarrow> bool" where
  "terminal_outcome_valid out \<longleftrightarrow>
     out = OutcomeReleased \<or> out = OutcomeBlocked \<or> out = OutcomeSucceeded \<or> out = OutcomeFailed
     \<or> out = OutcomeIndeterminateCommitted"

record budget_record =
  brc_budget_id :: string
  brc_scope_identity :: string
  brc_lineage_identity :: string
  brc_scope :: budget_scope
  brc_reset :: budget_reset
  brc_window_seconds :: uint32
  brc_limits :: budget_limits
  brc_consumed :: budget_usage
  brc_generation :: budget_generation
  brc_generation_history :: "budget_generation list"

record reservation_charge =
  chg_budget_id :: string
  chg_scope_identity :: string
  chg_lineage_identity :: string
  chg_generation :: budget_generation
  chg_reserved :: budget_usage
  chg_dispatch_committed :: bool
  chg_committed_approvals :: uint64

record reservation =
  rsv_identity :: string
  rsv_call_id :: string
  rsv_owner_id :: string
  rsv_request_identity :: string
  rsv_context_identity :: string
  rsv_executable_digest :: string
  rsv_status :: reservation_status
  rsv_created_at_unix :: int
  rsv_updated_at_unix :: int
  rsv_charges :: "reservation_charge list"

record terminal_call =
  trm_call_id :: string
  trm_reservation_identity :: string
  trm_outcome :: terminal_outcome
  trm_completed_at_unix :: int

record denial_accounting =
  dac_consumed_count :: uint64
  dac_capacity_exhausted :: bool

text \<open>The request and the status of an approval are those of package actionapproval.\<close>

datatype receipt_status =
  StatusPending | StatusApproved | StatusRejected | StatusExpired | StatusCancelled
  | StatusUnavailable | StatusMalformed | StatusReplayed | StatusOther string

datatype receipt_decision = ReceiptUnset | ReceiptApprove | ReceiptReject | ReceiptOther string

record selected_argument =
  sel_pointer :: string
  sel_state :: pointer_state
  sel_kind :: "value_kind option"
  sel_byte_length :: uint64
  sel_identity :: string

record approval_request =
  apq_schema :: string
  apq_format_version :: string
  apq_request_id :: string
  apq_call_id :: string
  apq_request_identity :: string
  apq_required_approval_identity :: string
  apq_plan_identity :: string
  apq_source_identity :: string
  apq_repository_identity :: string
  apq_state_version :: string
  apq_policy_digest :: string
  apq_lock_digest :: string
  apq_executable_digest :: string
  apq_server_label :: string
  apq_server_fingerprint :: string
  apq_tool_id :: string
  apq_tool :: string
  apq_tool_contract_digest :: string
  apq_phase :: phase
  apq_principal :: string
  apq_context_identity :: string
  apq_credential_labels :: "string list"
  apq_taint_identity :: string
  apq_repository_effect_identity :: string
  apq_selected_arguments :: "selected_argument list"
  apq_budget_reservation_id :: string
  apq_reason_code :: reason_code
  apq_rule_ids :: "string list"
  apq_authority_policy_id :: string
  apq_issued_at :: string
  apq_expires_at :: string
  apq_nonce :: string

record approval_record =
  apr_request :: approval_request
  apr_status :: receipt_status
  apr_reservation_identity :: string
  apr_nonce_identity :: string
  apr_registry_identity :: string
  apr_authority_key_id :: string
  apr_receipt_id :: string
  apr_receipt_identity :: string
  apr_receipt_signed_at :: string
  apr_receipt_decision :: receipt_decision
  apr_receipt_signature :: string
  apr_updated_at_unix :: int
  apr_denial_accounting :: "denial_accounting option"

record action_state =
  sta_schema :: string
  sta_format_version :: string
  sta_key_id :: string
  sta_repository_identity :: string
  sta_revision :: uint64
  sta_clock_source :: string
  sta_last_observed :: int
  sta_budgets :: "budget_record list"
  sta_reservations :: "reservation list"
  sta_terminal_calls :: "terminal_call list"
  sta_approvals :: "approval_record list"
  sta_digest :: string

definition MaxBudgetRecords :: nat where "MaxBudgetRecords = 65536"
definition MaxReservations :: nat where "MaxReservations = 65536"
definition MaxTerminalCallRecords :: nat where "MaxTerminalCallRecords = 65536"
definition MaxApprovalRecords :: nat where "MaxApprovalRecords = 65536"
definition MaxPendingApprovals :: nat where "MaxPendingApprovals = 4"

text \<open>A reading of the trusted clock: nanoseconds since the epoch and the label of its source.\<close>

record clock_snapshot =
  clk_time :: int
  clk_source :: string

definition unix_seconds :: "int \<Rightarrow> int" where
  "unix_seconds time = time div 1000000000"

section \<open>Counters\<close>

definition saturatingAdd :: "uint64 \<Rightarrow> uint64 \<Rightarrow> uint64" where
  "saturatingAdd left right = (if max_uint64 - left < right then max_uint64 else left + right)"

definition addOverflow :: "uint64 \<Rightarrow> uint64 \<Rightarrow> bool" where
  "addOverflow left right \<longleftrightarrow> max_uint64 - left < right"

definition saturatingUsageAdd :: "budget_usage \<Rightarrow> budget_usage \<Rightarrow> budget_usage" where
  "saturatingUsageAdd left right =
     \<lparr>use_call_count = saturatingAdd (use_call_count left) (use_call_count right),
      use_denied_count = saturatingAdd (use_denied_count left) (use_denied_count right),
      use_approval_count = saturatingAdd (use_approval_count left) (use_approval_count right),
      use_argument_bytes = saturatingAdd (use_argument_bytes left) (use_argument_bytes right),
      use_result_bytes = saturatingAdd (use_result_bytes left) (use_result_bytes right),
      use_cost_units = saturatingAdd (use_cost_units left) (use_cost_units right),
      use_concurrent = saturatingAdd (use_concurrent left) (use_concurrent right),
      use_rate_window = saturatingAdd (use_rate_window left) (use_rate_window right)\<rparr>"

definition checkedUsageAdd :: "budget_usage \<Rightarrow> budget_usage \<Rightarrow> budget_usage \<times> bool" where
  "checkedUsageAdd left right =
     (saturatingUsageAdd left right,
      addOverflow (use_call_count left) (use_call_count right)
      \<or> addOverflow (use_denied_count left) (use_denied_count right)
      \<or> addOverflow (use_approval_count left) (use_approval_count right)
      \<or> addOverflow (use_argument_bytes left) (use_argument_bytes right)
      \<or> addOverflow (use_result_bytes left) (use_result_bytes right)
      \<or> addOverflow (use_cost_units left) (use_cost_units right)
      \<or> addOverflow (use_concurrent left) (use_concurrent right)
      \<or> addOverflow (use_rate_window left) (use_rate_window right))"

definition dispatchUsage :: "budget_usage \<Rightarrow> budget_usage" where
  "dispatchUsage u =
     noUsage\<lparr>use_call_count := use_call_count u, use_argument_bytes := use_argument_bytes u,
       use_cost_units := use_cost_units u, use_rate_window := use_rate_window u\<rparr>"

definition postDispatchReservation :: "budget_usage \<Rightarrow> budget_usage" where
  "postDispatchReservation u =
     noUsage\<lparr>use_result_bytes := use_result_bytes u, use_concurrent := use_concurrent u\<rparr>"

section \<open>Lookups\<close>

definition budgetRecordForLineage :: "budget_record list \<Rightarrow> string \<Rightarrow> budget_record option" where
  "budgetRecordForLineage records lineage =
     map_option (\<lambda>index. records ! index) (find_key brc_lineage_identity records lineage)"

definition reservationIndex :: "reservation list \<Rightarrow> string \<Rightarrow> nat option" where
  "reservationIndex reservations identity = find_key rsv_identity reservations identity"

definition approvalRecordIndex :: "approval_record list \<Rightarrow> string \<Rightarrow> nat option" where
  "approvalRecordIndex records requestID = find_key (\<lambda>r. apq_request_id (apr_request r)) records requestID"

definition reservationForCall :: "reservation list \<Rightarrow> string \<Rightarrow> reservation option" where
  "reservationForCall reservations callID = find (\<lambda>r. rsv_call_id r = callID) reservations"

text \<open>The map from lineages to what the reservations hold, zero where a lineage has no entry.\<close>

fun addCharges :: "reservation_charge list \<Rightarrow> (string \<Rightarrow> budget_usage) \<Rightarrow> state_error + (string \<Rightarrow> budget_usage)" where
  "addCharges [] usage = Inr usage"
| "addCharges (c # cs) usage =
     (case checkedUsageAdd (usage (chg_lineage_identity c)) (chg_reserved c) of
        (sum_usage, overflow) \<Rightarrow>
          if overflow then Inl (ReasonStateCorrupt, ''aggregate budget reservation overflowed'')
          else addCharges cs (usage(chg_lineage_identity c := sum_usage)))"

definition reservedUsageByLineage :: "reservation list \<Rightarrow> state_error + (string \<Rightarrow> budget_usage)" where
  "reservedUsageByLineage reservations = addCharges (List.concat (map rsv_charges reservations)) (\<lambda>lineage. noUsage)"

text \<open>Charging a lineage: the record is looked up, added to and written back in place.\<close>

definition consume ::
  "string \<Rightarrow> string \<Rightarrow> budget_record list \<Rightarrow> string \<Rightarrow> budget_usage \<Rightarrow> state_error + budget_record list" where
  "consume absent overflowed budgets lineage usage =
     (case find_key brc_lineage_identity budgets lineage of
        None \<Rightarrow> Inl (ReasonStateCorrupt, absent)
      | Some index \<Rightarrow>
          (case checkedUsageAdd (brc_consumed (budgets ! index)) usage of
             (consumed, overflow) \<Rightarrow>
               if overflow then Inl (ReasonStateCorrupt, overflowed)
               else Inr (budgets[index := (budgets ! index)\<lparr>brc_consumed := consumed\<rparr>])))"

section \<open>Dimensions\<close>

datatype dimension =
  CallCount | DeniedCount | ApprovalCount | ArgumentBytes | ResultBytes | CostUnits | Concurrent | RateWindow

fun usage_at :: "dimension \<Rightarrow> budget_usage \<Rightarrow> uint64" where
  "usage_at CallCount u = use_call_count u"
| "usage_at DeniedCount u = use_denied_count u"
| "usage_at ApprovalCount u = use_approval_count u"
| "usage_at ArgumentBytes u = use_argument_bytes u"
| "usage_at ResultBytes u = use_result_bytes u"
| "usage_at CostUnits u = use_cost_units u"
| "usage_at Concurrent u = use_concurrent u"
| "usage_at RateWindow u = use_rate_window u"

lemma usage_at_noUsage [simp]: "usage_at d noUsage = 0"
  by (cases d) (simp_all add: noUsage_def)

lemma usage_eqI: "(\<And>d. usage_at d u = usage_at d v) \<Longrightarrow> u = v"
  using usage_at.simps by (metis (full_types) budget_usage.equality old.unit.exhaust)

lemma saturatingUsageAdd_at [usage_simps]:
  "usage_at d (saturatingUsageAdd u v) = saturatingAdd (usage_at d u) (usage_at d v)"
  by (cases d) (simp_all add: saturatingUsageAdd_def)

lemma checkedUsageAdd_exact [usage_simps]:
  assumes "checkedUsageAdd u v = (w, False)"
  shows "unat (usage_at d w) = unat (usage_at d u) + unat (usage_at d v)"
proof -
  have "\<not> addOverflow (usage_at d u) (usage_at d v)" and w: "w = saturatingUsageAdd u v"
    using assms by (cases d; simp add: checkedUsageAdd_def)+
  then have n: "\<not> max_uint64 - usage_at d u < usage_at d v" by (simp add: addOverflow_def)
  show ?thesis unfolding w saturatingUsageAdd_at saturatingAdd_def using uint64_add_exact [OF n] n by simp
qed

lemma dispatch_split:
  assumes "use_approval_count u = 0"
  shows "unat (usage_at d (dispatchUsage u)) + unat (usage_at d (postDispatchReservation u)) \<le> unat (usage_at d u)"
    and "d \<noteq> DeniedCount \<Longrightarrow>
      unat (usage_at d (dispatchUsage u)) + unat (usage_at d (postDispatchReservation u)) = unat (usage_at d u)"
  using assms by (cases d; simp add: dispatchUsage_def postDispatchReservation_def noUsage_def)+

section \<open>What a lineage has consumed\<close>

definition consumed_of :: "budget_record list \<Rightarrow> string \<Rightarrow> dimension \<Rightarrow> nat" where
  "consumed_of budgets lineage d =
     (case budgetRecordForLineage budgets lineage of None \<Rightarrow> 0 | Some r \<Rightarrow> unat (usage_at d (brc_consumed r)))"

abbreviation lineages_sorted :: "budget_record list \<Rightarrow> bool" where
  "lineages_sorted budgets \<equiv> keys_sorted brc_lineage_identity budgets"

text \<open>Records that differ at most in what they have consumed.\<close>

definition contract :: "budget_record \<Rightarrow> budget_record" where
  "contract r = r\<lparr>brc_consumed := noUsage\<rparr>"

lemma consume_Inr:
  assumes "consume absent overflowed budgets lineage usage = Inr budgets'"
  obtains index consumed where "find_key brc_lineage_identity budgets lineage = Some index"
    and "checkedUsageAdd (brc_consumed (budgets ! index)) usage = (consumed, False)"
    and "budgets' = budgets[index := (budgets ! index)\<lparr>brc_consumed := consumed\<rparr>]"
  using assms by (auto simp: consume_def split: option.splits prod.splits if_splits)

lemma consume_contract:
  assumes "consume absent overflowed budgets lineage usage = Inr budgets'"
  shows "map contract budgets' = map contract budgets"
  using assms
proof (rule consume_Inr)
  fix index consumed
  assume i: "find_key brc_lineage_identity budgets lineage = Some index"
    and b: "budgets' = budgets[index := (budgets ! index)\<lparr>brc_consumed := consumed\<rparr>]"
  have "contract ((budgets ! index)\<lparr>brc_consumed := consumed\<rparr>) = map contract budgets ! index"
    using find_key_Some [OF i] by (simp add: contract_def)
  then show "map contract budgets' = map contract budgets" unfolding b map_update by (simp only: list_update_id)
qed

lemma contract_lineage: "map contract a = map contract b \<Longrightarrow> map brc_lineage_identity a = map brc_lineage_identity b"
proof -
  assume "map contract a = map contract b"
  then have "map brc_lineage_identity (map contract a) = map brc_lineage_identity (map contract b)" by (rule arg_cong)
  then show ?thesis by (simp add: contract_def comp_def)
qed

lemma consume_sorted [table_intros]:
  "consume absent overflowed budgets lineage usage = Inr budgets' \<Longrightarrow> lineages_sorted budgets \<Longrightarrow> lineages_sorted budgets'"
  using contract_lineage [OF consume_contract] by metis

lemma consume_consumed:
  assumes "consume absent overflowed budgets lineage usage = Inr budgets'" and "lineages_sorted budgets"
  shows "consumed_of budgets' k d = consumed_of budgets k d + (if k = lineage then unat (usage_at d usage) else 0)"
proof -
  obtain index consumed where i: "find_key brc_lineage_identity budgets lineage = Some index"
    and c: "checkedUsageAdd (brc_consumed (budgets ! index)) usage = (consumed, False)"
    and b: "budgets' = budgets[index := (budgets ! index)\<lparr>brc_consumed := consumed\<rparr>]"
    using consume_Inr [OF assms(1)] by blast
  have at: "index < length budgets" "brc_lineage_identity (budgets ! index) = lineage" using find_key_Some [OF i] by simp_all
  have "find_key brc_lineage_identity budgets' = find_key brc_lineage_identity budgets"
    unfolding b by (rule by_key.find_update [OF assms(2) i]) (simp add: at)
  then have look: "budgetRecordForLineage budgets' k = map_option (\<lambda>j. budgets' ! j) (find_key brc_lineage_identity budgets k)"
    by (simp add: budgetRecordForLineage_def)
  show ?thesis
  proof (cases "k = lineage")
    case True
    have "budgets' ! index = (budgets ! index)\<lparr>brc_consumed := consumed\<rparr>" by (simp add: b at)
    then show ?thesis using True i checkedUsageAdd_exact [OF c]
      by (simp add: consumed_of_def look [unfolded True] budgetRecordForLineage_def [of budgets])
  next
    case False
    have "budgets' ! j = budgets ! j" if "find_key brc_lineage_identity budgets k = Some j" for j
      using that find_key_Some [OF that] at False by (auto simp: b nth_list_update)
    then show ?thesis using False
      by (cases "find_key brc_lineage_identity budgets k")
        (simp_all add: consumed_of_def look budgetRecordForLineage_def [of budgets])
  qed
qed

section \<open>What the reservations hold\<close>

definition charge_sum :: "reservation_charge list \<Rightarrow> string \<Rightarrow> dimension \<Rightarrow> nat" where
  "charge_sum charges lineage d =
     sum_list (map (\<lambda>c. if chg_lineage_identity c = lineage then unat (usage_at d (chg_reserved c)) else 0) charges)"

definition reserved_of :: "reservation list \<Rightarrow> string \<Rightarrow> dimension \<Rightarrow> nat" where
  "reserved_of reservations lineage d = charge_sum (List.concat (map rsv_charges reservations)) lineage d"

lemma charge_sum_simps [simp]:
  "charge_sum [] lineage d = 0"
  "charge_sum (c # cs) lineage d =
     (if chg_lineage_identity c = lineage then unat (usage_at d (chg_reserved c)) else 0) + charge_sum cs lineage d"
  "charge_sum (xs @ ys) lineage d = charge_sum xs lineage d + charge_sum ys lineage d"
  by (simp_all add: charge_sum_def)

lemma reserved_of_simps [simp]:
  "reserved_of [] lineage d = 0"
  "reserved_of (r # rs) lineage d = charge_sum (rsv_charges r) lineage d + reserved_of rs lineage d"
  "reserved_of (xs @ ys) lineage d = reserved_of xs lineage d + reserved_of ys lineage d"
  by (simp_all add: reserved_of_def)

lemma reserved_of_split:
  assumes "i < length rs"
  shows "reserved_of rs lineage d
    = reserved_of (take i rs @ drop (Suc i) rs) lineage d + charge_sum (rsv_charges (rs ! i)) lineage d"
  using assms by (subst id_take_nth_drop [OF assms]) simp

lemma reserved_of_update:
  assumes "i < length rs"
  shows "reserved_of (rs[i := r]) lineage d + charge_sum (rsv_charges (rs ! i)) lineage d
    = reserved_of rs lineage d + charge_sum (rsv_charges r) lineage d"
  using reserved_of_split [OF assms] assms by (simp add: upd_conv_take_nth_drop)

text \<open>The aggregate map of the code is this sum, or the code reports an overflow.\<close>

lemma addCharges_exact:
  "addCharges cs usage = Inr usage' \<Longrightarrow>
     unat (usage_at d (usage' lineage)) = unat (usage_at d (usage lineage)) + charge_sum cs lineage d"
proof (induction cs arbitrary: usage)
  case (Cons c cs)
  then obtain w where w: "checkedUsageAdd (usage (chg_lineage_identity c)) (chg_reserved c) = (w, False)"
    "addCharges cs (usage(chg_lineage_identity c := w)) = Inr usage'"
    by (auto split: prod.splits if_splits)
  then show ?case using Cons.IH [OF w(2)] checkedUsageAdd_exact [OF w(1), of d] by auto
qed simp

lemma reservedUsageByLineage_exact:
  "reservedUsageByLineage rs = Inr usage \<Longrightarrow> unat (usage_at d (usage lineage)) = reserved_of rs lineage d"
  using addCharges_exact [of "List.concat (map rsv_charges rs)" "\<lambda>lineage. noUsage" usage d lineage]
  by (simp add: reservedUsageByLineage_def reserved_of_def)

text \<open>The whole charge of a lineage: consumed and still reserved.\<close>

definition held :: "action_state \<Rightarrow> string \<Rightarrow> dimension \<Rightarrow> nat" where
  "held s lineage d = consumed_of (sta_budgets s) lineage d + reserved_of (sta_reservations s) lineage d"

end
