(* ===== verification/State_Charges.thy ===== *)
theory State_Charges
  imports State_Usage
begin

text \<open>
  How a reservation moves its charges between reserved and consumed (budget\_transition.go,
  budget\_events.go). Every loop over the charges of a reservation is a recursion that returns
  the budgets and the charges, so an error discards the whole update as the code does with its
  clone. The lemmas show what each operation does to the charge of every lineage.
\<close>

section \<open>Dispatch and results\<close>

text \<open>A loop keeps the charges it has passed.\<close>

type_synonym 'a charged = "state_error + budget_record list \<times> 'a"

definition keep_charge :: "reservation_charge \<Rightarrow> reservation_charge list charged \<Rightarrow> reservation_charge list charged" where
  "keep_charge c rest = (case rest of Inl e \<Rightarrow> Inl e | Inr (budgets, cs) \<Rightarrow> Inr (budgets, c # cs))"

fun dispatchCharges :: "budget_record list \<Rightarrow> reservation_charge list \<Rightarrow> reservation_charge list charged" where
  "dispatchCharges budgets [] = Inr (budgets, [])"
| "dispatchCharges budgets (c # cs) =
     (if chg_dispatch_committed c then keep_charge c (dispatchCharges budgets cs)
      else if use_approval_count (chg_reserved c) \<noteq> 0
      then Inl (ReasonReservationIndeterminate, ''approval count must commit before dispatch'')
      else
        (case consume ''reservation budget record is absent'' ''budget counter overflowed during dispatch''
                budgets (chg_lineage_identity c) (dispatchUsage (chg_reserved c)) of
           Inl e \<Rightarrow> Inl e
         | Inr budgets \<Rightarrow>
             keep_charge (c\<lparr>chg_reserved := postDispatchReservation (chg_reserved c), chg_dispatch_committed := True\<rparr>)
               (dispatchCharges budgets cs)))"

definition with_charges :: "action_state \<Rightarrow> nat \<Rightarrow> reservation_charge list charged \<Rightarrow> state_error + action_state" where
  "with_charges s index result =
     (case result of
        Inl e \<Rightarrow> Inl e
      | Inr (budgets, charges) \<Rightarrow>
          Inr (s\<lparr>sta_budgets := budgets,
                 sta_reservations := (sta_reservations s)[index := (sta_reservations s ! index)\<lparr>rsv_charges := charges\<rparr>]\<rparr>))"

definition commitDispatch :: "action_state \<Rightarrow> nat \<Rightarrow> state_error + action_state" where
  "commitDispatch s index =
     with_charges s index (dispatchCharges (sta_budgets s) (rsv_charges (sta_reservations s ! index)))"

fun resultCharges :: "uint64 \<Rightarrow> budget_record list \<Rightarrow> reservation_charge list \<Rightarrow> state_error + budget_record list" where
  "resultCharges actual budgets [] = Inr budgets"
| "resultCharges actual budgets (c # cs) =
     (case consume ''reservation budget record is absent'' ''budget counter overflowed during settlement''
             budgets (chg_lineage_identity c)
             (if use_result_bytes (chg_reserved c) \<noteq> 0 then noUsage\<lparr>use_result_bytes := actual\<rparr> else noUsage) of
        Inl e \<Rightarrow> Inl e
      | Inr budgets \<Rightarrow> resultCharges actual budgets cs)"

definition commitResult :: "action_state \<Rightarrow> nat \<Rightarrow> uint64 \<Rightarrow> state_error + action_state" where
  "commitResult s index actual =
     (case resultCharges actual (sta_budgets s) (rsv_charges (sta_reservations s ! index)) of
        Inl e \<Rightarrow> Inl e
      | Inr budgets \<Rightarrow> Inr (s\<lparr>sta_budgets := budgets\<rparr>))"

fun reservedResultCharges :: "budget_record list \<Rightarrow> reservation_charge list \<Rightarrow> state_error + budget_record list" where
  "reservedResultCharges budgets [] = Inr budgets"
| "reservedResultCharges budgets (c # cs) =
     (if budgetRecordForLineage budgets (chg_lineage_identity c) = None
      then Inl (ReasonStateCorrupt, ''reservation budget record is absent'')
      else if use_result_bytes (chg_reserved c) = 0 then reservedResultCharges budgets cs
      else
        (case consume ''reservation budget record is absent'' ''budget counter overflowed during settlement''
                budgets (chg_lineage_identity c) (noUsage\<lparr>use_result_bytes := use_result_bytes (chg_reserved c)\<rparr>) of
           Inl e \<Rightarrow> Inl e
         | Inr budgets \<Rightarrow> reservedResultCharges budgets cs))"

definition commitReservedResults :: "action_state \<Rightarrow> nat \<Rightarrow> state_error + action_state" where
  "commitReservedResults s index =
     (case reservedResultCharges (sta_budgets s) (rsv_charges (sta_reservations s ! index)) of
        Inl e \<Rightarrow> Inl e
      | Inr budgets \<Rightarrow> Inr (s\<lparr>sta_budgets := budgets\<rparr>))"

definition exceedsReservedResult :: "reservation \<Rightarrow> uint64 \<Rightarrow> bool" where
  "exceedsReservedResult r actual \<longleftrightarrow>
     list_ex (\<lambda>c. use_result_bytes (chg_reserved c) \<noteq> 0 \<and> use_result_bytes (chg_reserved c) < actual) (rsv_charges r)"

definition removeReservationAndRecord :: "action_state \<Rightarrow> nat \<Rightarrow> terminal_call \<Rightarrow> state_error + action_state" where
  "removeReservationAndRecord s index terminal =
     (if MaxTerminalCallRecords \<le> length (sta_terminal_calls s)
      then Inl (ReasonStateUnavailable, ''terminal call record capacity is exhausted'')
      else
        (let position = search_index trm_call_id (sta_terminal_calls s) (trm_call_id terminal)
         in Inr (s\<lparr>sta_reservations := take index (sta_reservations s) @ drop (Suc index) (sta_reservations s),
                   sta_terminal_calls := take position (sta_terminal_calls s) @ terminal # drop position (sta_terminal_calls s)\<rparr>)))"

text \<open>The window check divides by a positive number of seconds; instants are not negative.\<close>

fun currentContract :: "budget_record list \<Rightarrow> int \<Rightarrow> reservation_charge list \<Rightarrow> state_error option" where
  "currentContract budgets now [] = None"
| "currentContract budgets now (c # cs) =
     (case budgetRecordForLineage budgets (chg_lineage_identity c) of
        None \<Rightarrow> Some (ReasonStateUnavailable, ''reservation governing generation changed before use'')
      | Some r \<Rightarrow>
          if brc_budget_id r \<noteq> chg_budget_id c \<or> brc_scope_identity r \<noteq> chg_scope_identity c
             \<or> brc_generation r \<noteq> chg_generation c
          then Some (ReasonStateUnavailable, ''reservation governing generation changed before use'')
          else if brc_reset r = BudgetResetFixedWindow
                  \<and> (let seconds = int (unat (brc_window_seconds r))
                      in seconds \<le> 0 \<or> unix_seconds now div seconds * seconds \<noteq> scp_window_start_unix (brc_scope r))
          then Some (ReasonStateUnavailable, ''reservation fixed window elapsed before use'')
          else currentContract budgets now cs)"

definition requireCurrentReservationContract :: "action_state \<Rightarrow> reservation \<Rightarrow> int \<Rightarrow> state_error option" where
  "requireCurrentReservationContract s r now = currentContract (sta_budgets s) now (rsv_charges r)"

section \<open>Approvals and denials\<close>

text \<open>Only lineages whose budget limits approvals take part.\<close>

fun approvalReleases :: "budget_record list \<Rightarrow> reservation_charge list \<Rightarrow> state_error + bool \<times> reservation_charge list" where
  "approvalReleases budgets [] = Inr (False, [])"
| "approvalReleases budgets (c # cs) =
     (case budgetRecordForLineage budgets (chg_lineage_identity c) of
        None \<Rightarrow> Inl (ReasonStateCorrupt, ''approval budget record is absent'')
      | Some r \<Rightarrow>
          if lim_approval_count (brc_limits r) = 0
          then (case approvalReleases budgets cs of Inl e \<Rightarrow> Inl e | Inr (released, cs) \<Rightarrow> Inr (released, c # cs))
          else if use_approval_count (chg_reserved c) \<noteq> 1
          then Inl (ReasonReservationIndeterminate, ''approval count was not reserved'')
          else
            (case approvalReleases budgets cs of
               Inl e \<Rightarrow> Inl e
             | Inr (released, cs) \<Rightarrow>
                 Inr (True, c\<lparr>chg_reserved := (chg_reserved c)\<lparr>use_approval_count := 0\<rparr>\<rparr> # cs)))"

definition releaseApprovalCharges :: "action_state \<Rightarrow> nat \<Rightarrow> state_error + bool \<times> action_state" where
  "releaseApprovalCharges s index =
     (case approvalReleases (sta_budgets s) (rsv_charges (sta_reservations s ! index)) of
        Inl e \<Rightarrow> Inl e
      | Inr (released, charges) \<Rightarrow>
          Inr (released,
            s\<lparr>sta_reservations := (sta_reservations s)[index := (sta_reservations s ! index)\<lparr>rsv_charges := charges\<rparr>]\<rparr>))"

text \<open>The first pass of a commit counts the charges that take part and requires one unit of each.\<close>

fun approvalsReserved :: "budget_record list \<Rightarrow> reservation_charge list \<Rightarrow> state_error + nat" where
  "approvalsReserved budgets [] = Inr 0"
| "approvalsReserved budgets (c # cs) =
     (case budgetRecordForLineage budgets (chg_lineage_identity c) of
        None \<Rightarrow> Inl (ReasonStateCorrupt, ''approval budget record is absent'')
      | Some r \<Rightarrow>
          if lim_approval_count (brc_limits r) = 0 then approvalsReserved budgets cs
          else if use_approval_count (chg_reserved c) \<noteq> 1
          then Inl (ReasonReservationIndeterminate, ''approval count was not reserved'')
          else map_sum id Suc (approvalsReserved budgets cs))"

fun approvalCommits :: "budget_record list \<Rightarrow> reservation_charge list \<Rightarrow> reservation_charge list charged" where
  "approvalCommits budgets [] = Inr (budgets, [])"
| "approvalCommits budgets (c # cs) =
     (case budgetRecordForLineage budgets (chg_lineage_identity c) of
        None \<Rightarrow> Inl (ReasonStateCorrupt, ''approval budget record is absent'')
      | Some r \<Rightarrow>
          if lim_approval_count (brc_limits r) = 0 then keep_charge c (approvalCommits budgets cs)
          else
            (case consume ''approval budget record is absent'' ''approval counter overflowed''
                    budgets (chg_lineage_identity c) (noUsage\<lparr>use_approval_count := 1\<rparr>) of
               Inl e \<Rightarrow> Inl e
             | Inr budgets \<Rightarrow>
                 if chg_committed_approvals c = max_uint64
                 then Inl (ReasonStateCorrupt, ''reservation approval counter overflowed'')
                 else
                   keep_charge
                     (c\<lparr>chg_reserved := (chg_reserved c)\<lparr>use_approval_count := 0\<rparr>,
                        chg_committed_approvals := chg_committed_approvals c + 1\<rparr>)
                     (approvalCommits budgets cs)))"

definition commitApprovalCharges :: "action_state \<Rightarrow> nat \<Rightarrow> state_error + bool \<times> action_state" where
  "commitApprovalCharges s index =
     (let charges = rsv_charges (sta_reservations s ! index)
      in case approvalsReserved (sta_budgets s) charges of
           Inl e \<Rightarrow> Inl e
         | Inr relevant \<Rightarrow>
             if relevant = 0 then Inr (False, s)
             else map_sum id (Pair True) (with_charges s index (approvalCommits (sta_budgets s) charges)))"

text \<open>Counts of the charges that take part and of those already reserved.\<close>

fun approvalCounts :: "budget_record list \<Rightarrow> reservation_charge list \<Rightarrow> state_error + nat \<times> nat" where
  "approvalCounts budgets [] = Inr (0, 0)"
| "approvalCounts budgets (c # cs) =
     (case budgetRecordForLineage budgets (chg_lineage_identity c) of
        None \<Rightarrow> Inl (ReasonStateCorrupt, ''approval budget record is absent'')
      | Some r \<Rightarrow>
          if lim_approval_count (brc_limits r) = 0 then approvalCounts budgets cs
          else if use_approval_count (chg_reserved c) = 1
          then map_sum id (\<lambda>(relevant, already). (Suc relevant, Suc already)) (approvalCounts budgets cs)
          else if use_approval_count (chg_reserved c) \<noteq> 0
          then Inl (ReasonStateCorrupt, ''approval reservation is malformed'')
          else map_sum id (\<lambda>(relevant, already). (Suc relevant, already)) (approvalCounts budgets cs))"

definition limits_approvals :: "budget_record list \<Rightarrow> reservation_charge \<Rightarrow> bool" where
  "limits_approvals budgets c \<longleftrightarrow>
     (case budgetRecordForLineage budgets (chg_lineage_identity c) of
        None \<Rightarrow> False
      | Some r \<Rightarrow> lim_approval_count (brc_limits r) \<noteq> 0)"

definition approvalCapacity :: "budget_record list \<Rightarrow> (string \<Rightarrow> budget_usage) \<Rightarrow> reservation_charge \<Rightarrow> bool" where
  "approvalCapacity budgets reserved c \<longleftrightarrow>
     (case budgetRecordForLineage budgets (chg_lineage_identity c) of
        None \<Rightarrow> True
      | Some r \<Rightarrow>
          budgetCapacityAvailable (brc_limits r) (brc_consumed r) (reserved (chg_lineage_identity c))
            (noUsage\<lparr>use_approval_count := 1\<rparr>) False)"

definition reserveApprovalCharges :: "action_state \<Rightarrow> nat \<Rightarrow> state_error + bool \<times> action_state" where
  "reserveApprovalCharges s index =
     (let r = sta_reservations s ! index; budgets = sta_budgets s
      in case reservedUsageByLineage (sta_reservations s) of
           Inl e \<Rightarrow> Inl e
         | Inr reserved \<Rightarrow>
             (case approvalCounts budgets (rsv_charges r) of
                Inl e \<Rightarrow> Inl e
              | Inr (relevant, already) \<Rightarrow>
                  if relevant = 0 \<or> already = relevant then Inr (False, s)
                  else if already \<noteq> 0 then Inl (ReasonStateCorrupt, ''approval reservation is only partially applied'')
                  else if \<not> list_all (\<lambda>c. limits_approvals budgets c \<longrightarrow> approvalCapacity budgets reserved c) (rsv_charges r)
                  then Inl (ReasonBudgetExhausted, ''approval-count capacity is exhausted'')
                  else
                    (let charges = map (\<lambda>c. if limits_approvals budgets c
                                            then c\<lparr>chg_reserved := (chg_reserved c)\<lparr>use_approval_count := 1\<rparr>\<rparr> else c)
                                     (rsv_charges r)
                     in Inr (True, s\<lparr>sta_reservations := (sta_reservations s)[index := r\<lparr>rsv_charges := charges\<rparr>]\<rparr>))))"

text \<open>A denial is charged where the budget counts denials and has room; elsewhere it is noted.\<close>

fun denialCharges ::
  "(string \<Rightarrow> budget_usage) \<Rightarrow> budget_record list \<Rightarrow> reservation_charge list \<Rightarrow> denial_accounting
     \<Rightarrow> denial_accounting charged" where
  "denialCharges reserved budgets [] accounting = Inr (budgets, accounting)"
| "denialCharges reserved budgets (c # cs) accounting =
     (case budgetRecordForLineage budgets (chg_lineage_identity c) of
        None \<Rightarrow> Inl (ReasonStateCorrupt, ''denial budget record is absent'')
      | Some r \<Rightarrow>
          if lim_denied_count (brc_limits r) = 0 then denialCharges reserved budgets cs accounting
          else if \<not> budgetCapacityAvailable (brc_limits r) (brc_consumed r) (reserved (chg_lineage_identity c))
                     (noUsage\<lparr>use_denied_count := 1\<rparr>) False
          then denialCharges reserved budgets cs (accounting\<lparr>dac_capacity_exhausted := True\<rparr>)
          else
            (case consume [] [] budgets (chg_lineage_identity c) (noUsage\<lparr>use_denied_count := 1\<rparr>) of
               Inl _ \<Rightarrow> denialCharges reserved budgets cs (accounting\<lparr>dac_capacity_exhausted := True\<rparr>)
             | Inr budgets \<Rightarrow>
                 denialCharges reserved budgets cs (accounting\<lparr>dac_consumed_count := dac_consumed_count accounting + 1\<rparr>)))"

definition recordDenialCharges :: "action_state \<Rightarrow> nat \<Rightarrow> state_error + denial_accounting \<times> action_state" where
  "recordDenialCharges s index =
     (case reservedUsageByLineage (sta_reservations s) of
        Inl e \<Rightarrow> Inl e
      | Inr reserved \<Rightarrow>
          (case denialCharges reserved (sta_budgets s) (rsv_charges (sta_reservations s ! index))
                  \<lparr>dac_consumed_count = 0, dac_capacity_exhausted = False\<rparr> of
             Inl e \<Rightarrow> Inl e
           | Inr (budgets, accounting) \<Rightarrow> Inr (accounting, s\<lparr>sta_budgets := budgets\<rparr>)))"

section \<open>Effect on the charge of a lineage\<close>

lemma keep_charge_Inr:
  "keep_charge c rest = Inr (budgets', cs') \<longleftrightarrow> (\<exists>cs. rest = Inr (budgets', cs) \<and> cs' = c # cs)"
  by (cases rest) (auto simp: keep_charge_def)

lemma search_from_cong: "(\<And>i. i < j \<Longrightarrow> f i = g i) \<Longrightarrow> search_from f i j = search_from g i j"
proof (induction f i j rule: search_from.induct)
  case (1 f i j)
  show ?case
  proof (cases "i < j")
    case True
    then have "(i + j) div 2 < j" by simp
    then show ?thesis using 1 True by (simp add: search_from.simps [of f i j] search_from.simps [of g i j] Let_def)
  qed (simp add: search_from.simps [of f i j] search_from.simps [of g i j])
qed

lemma find_key_cong:
  assumes "map f a = map f b"
  shows "find_key f a k = find_key f b k"
proof -
  have len: "length a = length b" using assms by (metis length_map)
  have nth: "f (a ! i) = f (b ! i)" if "i < length b" for i using assms len that by (metis nth_map)
  have "sort_search (length a) (\<lambda>i. k \<le> f (a ! i)) = sort_search (length b) (\<lambda>i. k \<le> f (b ! i))"
    unfolding sort_search_def len by (rule search_from_cong) (simp add: nth)
  then have "search_index f a k = search_index f b k" by (simp add: search_index_def)
  then show ?thesis by (simp add: find_key_def Let_def len nth cong: conj_cong if_cong)
qed

lemma lookup_contract:
  assumes "map contract b = map contract b'"
  shows "map_option contract (budgetRecordForLineage b k) = map_option contract (budgetRecordForLineage b' k)"
proof -
  have f: "find_key brc_lineage_identity b k = find_key brc_lineage_identity b' k"
    by (rule find_key_cong [OF contract_lineage [OF assms]])
  have len: "length b = length b'" using assms by (metis length_map)
  have "contract (b ! i) = contract (b' ! i)" if "i < length b" for i using assms len that by (metis nth_map)
  then show ?thesis using find_key_Some [of brc_lineage_identity b k]
    by (cases "find_key brc_lineage_identity b k") (auto simp: budgetRecordForLineage_def f)
qed

lemma approval_limit_contract:
  assumes "map contract b = map contract b'"
  shows "map_option (\<lambda>r. lim_approval_count (brc_limits r)) (budgetRecordForLineage b k)
    = map_option (\<lambda>r. lim_approval_count (brc_limits r)) (budgetRecordForLineage b' k)"
proof -
  have "map_option (\<lambda>r. lim_approval_count (brc_limits r)) x
      = map_option (\<lambda>r. lim_approval_count (brc_limits r)) (map_option contract x)" for x
    by (cases x) (simp_all add: contract_def)
  then show ?thesis using lookup_contract [OF assms] by metis
qed

lemma approvalsReserved_contract:
  assumes "map contract b = map contract b'"
  shows "approvalsReserved b cs = approvalsReserved b' cs"
proof (induction cs)
  case (Cons c cs)
  show ?case using Cons approval_limit_contract [OF assms, of "chg_lineage_identity c"]
    by (cases "budgetRecordForLineage b (chg_lineage_identity c)";
        cases "budgetRecordForLineage b' (chg_lineage_identity c)") simp_all
qed simp

text \<open>
  Dispatch moves what it dispatches from reserved to consumed; no lineage gains. Only a denial
  count that was reserved would be lost, and none ever is.
\<close>

lemma dispatchCharges_effect:
  assumes "dispatchCharges b cs = Inr (b', cs')" and "lineages_sorted b"
  shows "map contract b' = map contract b \<and> map chg_lineage_identity cs' = map chg_lineage_identity cs
    \<and> list_all chg_dispatch_committed cs'
    \<and> consumed_of b' k d + charge_sum cs' k d \<le> consumed_of b k d + charge_sum cs k d
    \<and> (d \<noteq> DeniedCount \<longrightarrow> consumed_of b' k d + charge_sum cs' k d = consumed_of b k d + charge_sum cs k d)"
  using assms
proof (induction cs arbitrary: b cs')
  case (Cons c cs)
  show ?case
  proof (cases "chg_dispatch_committed c")
    case True
    then obtain cs'' where "dispatchCharges b cs = Inr (b', cs'')" "cs' = c # cs''"
      using Cons.prems(1) by (auto simp: keep_charge_Inr)
    then show ?thesis using Cons.IH Cons.prems(2) True by auto
  next
    case False
    define moved where "moved = c\<lparr>chg_reserved := postDispatchReservation (chg_reserved c), chg_dispatch_committed := True\<rparr>"
    have approvals: "use_approval_count (chg_reserved c) = 0" using Cons.prems(1) False by (auto split: if_splits)
    then obtain b1 where b1: "consume ''reservation budget record is absent'' ''budget counter overflowed during dispatch''
          b (chg_lineage_identity c) (dispatchUsage (chg_reserved c)) = Inr b1"
      and rest: "keep_charge moved (dispatchCharges b1 cs) = Inr (b', cs')"
      using Cons.prems(1) False by (auto simp: moved_def split: sum.splits)
    obtain cs'' where cs'': "dispatchCharges b1 cs = Inr (b', cs'')" "cs' = moved # cs''"
      using rest by (auto simp: keep_charge_Inr)
    have s1: "lineages_sorted b1" by (rule consume_sorted [OF b1 Cons.prems(2)])
    note IH = Cons.IH [OF cs''(1) s1]
    have eq: "consumed_of b1 k d
        = consumed_of b k d + (if k = chg_lineage_identity c then unat (usage_at d (dispatchUsage (chg_reserved c))) else 0)"
      by (rule consume_consumed [OF b1 Cons.prems(2)])
    show ?thesis
      using IH eq dispatch_split [OF approvals, of d] consume_contract [OF b1]
      by (auto simp: cs''(2) moved_def)
  qed
qed simp

lemma resultCharges_effect:
  assumes "resultCharges actual b cs = Inr b'" and "lineages_sorted b"
  shows "map contract b' = map contract b \<and> consumed_of b k d \<le> consumed_of b' k d
    \<and> (list_all (\<lambda>c. use_result_bytes (chg_reserved c) \<noteq> 0 \<longrightarrow> actual \<le> use_result_bytes (chg_reserved c)) cs
        \<longrightarrow> consumed_of b' k d \<le> consumed_of b k d + charge_sum cs k d)"
  using assms
proof (induction cs arbitrary: b)
  case (Cons c cs)
  define usage where "usage = (if use_result_bytes (chg_reserved c) \<noteq> 0 then noUsage\<lparr>use_result_bytes := actual\<rparr> else noUsage)"
  obtain b1 where b1: "consume ''reservation budget record is absent'' ''budget counter overflowed during settlement''
        b (chg_lineage_identity c) usage = Inr b1"
    and rest: "resultCharges actual b1 cs = Inr b'"
    using Cons.prems(1) by (auto simp: usage_def split: sum.splits)
  have s1: "lineages_sorted b1" by (rule consume_sorted [OF b1 Cons.prems(2)])
  have le: "unat (usage_at d usage) \<le> unat (usage_at d (chg_reserved c))"
    if "use_result_bytes (chg_reserved c) \<noteq> 0 \<longrightarrow> actual \<le> use_result_bytes (chg_reserved c)"
    using that by (cases d) (auto simp: usage_def noUsage_def word_le_nat_alt)
  show ?case
    using Cons.IH [OF rest s1] consume_consumed [OF b1 Cons.prems(2), of k d] consume_contract [OF b1] le by auto
qed simp

lemma reservedResultCharges_effect:
  assumes "reservedResultCharges b cs = Inr b'" and "lineages_sorted b"
  shows "map contract b' = map contract b
    \<and> consumed_of b' k d = consumed_of b k d + (if d = ResultBytes then charge_sum cs k ResultBytes else 0)"
  using assms
proof (induction cs arbitrary: b)
  case (Cons c cs)
  show ?case
  proof (cases "use_result_bytes (chg_reserved c) = 0")
    case True
    then have "reservedResultCharges b cs = Inr b'" using Cons.prems(1) by (auto split: if_splits)
    then show ?thesis using Cons.IH Cons.prems(2) True by simp
  next
    case False
    define usage where "usage = noUsage\<lparr>use_result_bytes := use_result_bytes (chg_reserved c)\<rparr>"
    obtain b1 where b1: "consume ''reservation budget record is absent'' ''budget counter overflowed during settlement''
          b (chg_lineage_identity c) usage = Inr b1"
      and rest: "reservedResultCharges b1 cs = Inr b'"
      using Cons.prems(1) False by (auto simp: usage_def split: sum.splits if_splits)
    have "usage_at d usage = (if d = ResultBytes then use_result_bytes (chg_reserved c) else 0)"
      by (cases d) (simp_all add: usage_def noUsage_def)
    then show ?thesis
      using Cons.IH [OF rest consume_sorted [OF b1 Cons.prems(2)]] consume_consumed [OF b1 Cons.prems(2), of k d]
        consume_contract [OF b1] by auto
  qed
qed simp

lemma approvalReleases_effect:
  assumes "approvalReleases b cs = Inr (released, cs')"
  shows "map chg_lineage_identity cs' = map chg_lineage_identity cs
    \<and> map chg_dispatch_committed cs' = map chg_dispatch_committed cs
    \<and> charge_sum cs' k d \<le> charge_sum cs k d \<and> (d \<noteq> ApprovalCount \<longrightarrow> charge_sum cs' k d = charge_sum cs k d)"
  using assms
proof (induction cs arbitrary: released cs')
  case (Cons c cs)
  have zero: "unat (usage_at d (u\<lparr>use_approval_count := 0\<rparr>)) \<le> unat (usage_at d u)
      \<and> (d \<noteq> ApprovalCount \<longrightarrow> usage_at d (u\<lparr>use_approval_count := 0\<rparr>) = usage_at d u)" for u
    by (cases d) simp_all
  obtain r cs'' where r: "approvalReleases b cs = Inr (r, cs'')"
    "cs' = c # cs'' \<or> cs' = c\<lparr>chg_reserved := (chg_reserved c)\<lparr>use_approval_count := 0\<rparr>\<rparr> # cs''"
    using Cons.prems by (auto split: option.splits if_splits sum.splits prod.splits)
  then show ?case using Cons.IH [OF r(1)] zero [of "chg_reserved c"] by auto
qed simp

lemma approvalCommits_effect:
  assumes "approvalCommits b cs = Inr (b', cs')" and "approvalsReserved b cs = Inr n" and "lineages_sorted b"
  shows "map contract b' = map contract b \<and> map chg_lineage_identity cs' = map chg_lineage_identity cs
    \<and> map chg_dispatch_committed cs' = map chg_dispatch_committed cs
    \<and> consumed_of b' k d + charge_sum cs' k d = consumed_of b k d + charge_sum cs k d"
  using assms
proof (induction cs arbitrary: b cs' n)
  case (Cons c cs)
  obtain r where r: "budgetRecordForLineage b (chg_lineage_identity c) = Some r"
    using Cons.prems(1) by (auto split: option.splits)
  show ?case
  proof (cases "lim_approval_count (brc_limits r) = 0")
    case True
    then obtain cs'' where "approvalCommits b cs = Inr (b', cs'')" "cs' = c # cs''" "approvalsReserved b cs = Inr n"
      using Cons.prems(1,2) r by (auto simp: keep_charge_Inr)
    then show ?thesis using Cons.IH Cons.prems(3) by auto
  next
    case False
    define moved where "moved = c\<lparr>chg_reserved := (chg_reserved c)\<lparr>use_approval_count := 0\<rparr>,
      chg_committed_approvals := chg_committed_approvals c + 1\<rparr>"
    have one: "use_approval_count (chg_reserved c) = 1" using Cons.prems(2) r False by (auto split: if_splits)
    obtain m where m: "approvalsReserved b cs = Inr m"
      using Cons.prems(2) r False one by (cases "approvalsReserved b cs") auto
    obtain b1 cs'' where b1: "consume ''approval budget record is absent'' ''approval counter overflowed''
          b (chg_lineage_identity c) (noUsage\<lparr>use_approval_count := 1\<rparr>) = Inr b1"
      and cs'': "approvalCommits b1 cs = Inr (b', cs'')" "cs' = moved # cs''"
      using Cons.prems(1) r False by (auto simp: keep_charge_Inr moved_def split: sum.splits if_splits)
    have "approvalsReserved b1 cs = Inr m" using m approvalsReserved_contract [OF consume_contract [OF b1]] by simp
    note IH = Cons.IH [OF cs''(1) this consume_sorted [OF b1 Cons.prems(3)]]
    have "unat (usage_at d (chg_reserved c)) = unat (usage_at d (noUsage\<lparr>use_approval_count := 1\<rparr>))
        + unat (usage_at d ((chg_reserved c)\<lparr>use_approval_count := 0\<rparr>))"
      using one by (cases d) (simp_all add: noUsage_def)
    then show ?thesis using IH consume_consumed [OF b1 Cons.prems(3), of k d] consume_contract [OF b1]
      by (auto simp: cs''(2) moved_def)
  qed
qed simp

text \<open>A denial counts at most to the limit that the budget sets.\<close>

lemma capacity_single:
  assumes "capacityCheck False limit consumed reserved 1"
  shows "limit = 0 \<or> unat consumed + unat reserved + 1 \<le> unat limit"
proof (cases "limit = 0 \<or> max_uint64 - consumed < reserved")
  case True
  have "saturatingBudgetAdd max_uint64 1 = (max_uint64, True)" by (simp add: saturatingBudgetAdd_def)
  moreover have "saturatingBudgetAdd consumed reserved = (max_uint64, True)" if "max_uint64 - consumed < reserved"
    using that by (simp add: saturatingBudgetAdd_def)
  ultimately show ?thesis using assms True by (auto simp: capacityCheck_def split: if_splits)
next
  case False
  then have a: "unat (consumed + reserved) = unat consumed + unat reserved" by (intro uint64_add_exact) simp
  have n: "\<not> max_uint64 - (consumed + reserved) < 1" and le: "\<not> limit < consumed + reserved + 1"
    using assms False by (auto simp: capacityCheck_def saturatingBudgetAdd_def split: if_splits)
  have "unat (consumed + reserved + 1) = unat (consumed + reserved) + 1" using uint64_add_exact [OF n] by simp
  then show ?thesis using a le by (simp add: not_less word_le_nat_alt)
qed

lemma denialCharges_effect:
  assumes "denialCharges reserved b cs acc = Inr (b', acc')" and "lineages_sorted b"
  shows "map contract b' = map contract b \<and> (d \<noteq> DeniedCount \<longrightarrow> consumed_of b' k d = consumed_of b k d)
    \<and> consumed_of b k DeniedCount \<le> consumed_of b' k DeniedCount
    \<and> (consumed_of b' k DeniedCount = consumed_of b k DeniedCount
       \<or> (\<exists>r. budgetRecordForLineage b k = Some r
              \<and> consumed_of b' k DeniedCount + unat (use_denied_count (reserved k)) \<le> unat (lim_denied_count (brc_limits r))))"
  using assms
proof (induction cs arbitrary: b acc)
  case (Cons c cs)
  obtain r where r: "budgetRecordForLineage b (chg_lineage_identity c) = Some r"
    using Cons.prems(1) by (auto split: option.splits)
  let ?one = "noUsage\<lparr>use_denied_count := 1\<rparr>"
  let ?charged = "consume [] [] b (chg_lineage_identity c) ?one"
  consider acc1 where "denialCharges reserved b cs acc1 = Inr (b', acc')"
    | b1 acc1 where "?charged = Inr b1" "denialCharges reserved b1 cs acc1 = Inr (b', acc')"
        "lim_denied_count (brc_limits r) \<noteq> 0"
        "budgetCapacityAvailable (brc_limits r) (brc_consumed r) (reserved (chg_lineage_identity c)) ?one False"
    using Cons.prems(1) r by (cases ?charged) (auto split: if_splits)
  then show ?case
  proof cases
    case 1
    then show ?thesis using Cons.IH Cons.prems(2) by blast
  next
    case 2
    note s1 = consume_sorted [OF 2(1) Cons.prems(2)]
    note IH = Cons.IH [OF 2(2) s1]
    have eq: "consumed_of b1 k e
        = consumed_of b k e + (if k = chg_lineage_identity c then unat (usage_at e ?one) else 0)" for e
      by (rule consume_consumed [OF 2(1) Cons.prems(2)])
    have other: "usage_at e ?one = 0" if "e \<noteq> DeniedCount" for e using that by (cases e) (simp_all add: noUsage_def)
    have con: "map contract b1 = map contract b" by (rule consume_contract [OF 2(1)])
    have lims: "\<exists>r'. budgetRecordForLineage b k = Some r' \<and> brc_limits r' = brc_limits r1"
      if "budgetRecordForLineage b1 k = Some r1" for r1
      using lookup_contract [OF con, of k] that
      by (cases "budgetRecordForLineage b k") (auto simp: contract_def dest: arg_cong [where f = brc_limits])
    have cap: "unat (use_denied_count (brc_consumed r)) + unat (use_denied_count (reserved (chg_lineage_identity c))) + 1
        \<le> unat (lim_denied_count (brc_limits r))"
      using 2(3,4) capacity_single by (fastforce simp: budgetCapacityAvailable_def noUsage_def)
    have now: "consumed_of b (chg_lineage_identity c) DeniedCount = unat (use_denied_count (brc_consumed r))"
      by (simp add: consumed_of_def r)
    show ?thesis
    proof (intro conjI impI)
      show "map contract b' = map contract b" using IH con by simp
      show "consumed_of b' k d = consumed_of b k d" if "d \<noteq> DeniedCount" using IH eq [of d] other [OF that] that by simp
      show "consumed_of b k DeniedCount \<le> consumed_of b' k DeniedCount" using IH eq [of DeniedCount] by linarith
      show "consumed_of b' k DeniedCount = consumed_of b k DeniedCount
         \<or> (\<exists>r. budgetRecordForLineage b k = Some r
              \<and> consumed_of b' k DeniedCount + unat (use_denied_count (reserved k)) \<le> unat (lim_denied_count (brc_limits r)))"
      proof (cases "consumed_of b' k DeniedCount = consumed_of b1 k DeniedCount")
        case True
        then show ?thesis using eq [of DeniedCount] cap now r
          by (cases "k = chg_lineage_identity c") (auto simp: noUsage_def)
      next
        case False
        then show ?thesis using IH lims by metis
      qed
    qed
  qed
qed simp

text \<open>What an operation on one reservation does to the charge of the whole state.\<close>

lemma with_charges_held:
  assumes "with_charges s index result = Inr s'" and "index < length (sta_reservations s)"
    and "\<And>b cs. result = Inr (b, cs) \<Longrightarrow> consumed_of b k d + charge_sum cs k d
      \<le> consumed_of (sta_budgets s) k d + charge_sum (rsv_charges (sta_reservations s ! index)) k d"
  shows "held s' k d \<le> held s k d"
proof -
  obtain b cs where r: "result = Inr (b, cs)"
    and s': "s' = s\<lparr>sta_budgets := b,
      sta_reservations := (sta_reservations s)[index := (sta_reservations s ! index)\<lparr>rsv_charges := cs\<rparr>]\<rparr>"
    using assms(1) by (auto simp: with_charges_def split: sum.splits)
  show ?thesis
    using assms(3) [OF r] reserved_of_update [OF assms(2), of "(sta_reservations s ! index)\<lparr>rsv_charges := cs\<rparr>" k d]
    by (simp add: held_def s')
qed

lemma commitDispatch_held:
  assumes "commitDispatch s index = Inr s'" and "index < length (sta_reservations s)" and "lineages_sorted (sta_budgets s)"
  shows "held s' k d \<le> held s k d"
  using assms(1) unfolding commitDispatch_def
  by (rule with_charges_held [OF _ assms(2)]) (use dispatchCharges_effect [OF _ assms(3)] in blast)

lemma removal_held:
  assumes "removeReservationAndRecord s index terminal = Inr s'" and "index < length (sta_reservations s)"
  shows "held s' k d + charge_sum (rsv_charges (sta_reservations s ! index)) k d = held s k d"
  using assms reserved_of_split [OF assms(2), of k d]
  by (auto simp: removeReservationAndRecord_def held_def Let_def split: if_splits)

end
