(* ===== verification/State_Transition.thy ===== *)
theory State_Transition
  imports State_Charges
begin

text \<open>
  The transitions of a reservation (budget\_transition.go, budget\_events.go,
  reconciliation.go): each operation as the code runs it between reading the state and writing
  the next one. What an operation reads from outside, the clock and the identity of the
  repository, is an observation. The lemmas show what every transition keeps; what each of them
  books is in State\_Booking.
\<close>

section \<open>The store and its observations\<close>

record action_store =
  sto_key :: identity_key
  sto_repository :: string
  sto_repository_identity :: string
  sto_project_key :: string
  sto_owner_id :: string

text \<open>\<open>None\<close> is a failed observation of the repository or a failed reading of the clock.\<close>

record observation =
  obs_repository :: "(string \<times> string) option"
  obs_clock :: "clock_snapshot option"

definition resampleRepositoryIdentity :: "action_store \<Rightarrow> observation \<Rightarrow> state_error option" where
  "resampleRepositoryIdentity store obs =
     (case obs_repository obs of
        None \<Rightarrow> Some (ReasonIdentityUnavailable, ''resample repository identity'')
      | Some (resolved, identity) \<Rightarrow>
          if resolved \<noteq> sto_repository store \<or> identity \<noteq> sto_repository_identity store
          then Some (ReasonIdentityUnavailable, ''repository identity changed after store creation'') else None)"

definition trustedNow :: "observation \<Rightarrow> action_state \<Rightarrow> state_error + clock_snapshot" where
  "trustedNow obs s =
     (case obs_clock obs of
        None \<Rightarrow> Inl (ReasonStateUnavailable, ''read trusted action-state clock'')
      | Some snapshot \<Rightarrow>
          if clk_time snapshot \<le> 0 \<or> \<not> SafeLabel (clk_source snapshot)
          then Inl (ReasonStateUnavailable, ''trusted clock snapshot is invalid'')
          else if sta_clock_source s \<noteq> [] \<and> sta_clock_source s \<noteq> clk_source snapshot
          then Inl (ReasonStateUnavailable, ''trusted clock source changed'')
          else if sta_last_observed s \<noteq> 0 \<and> clk_time snapshot < sta_last_observed s
          then Inl (ReasonStateUnavailable, ''trusted clock moved backward'')
          else Inr snapshot)"

definition applyClock :: "action_state \<Rightarrow> clock_snapshot \<Rightarrow> action_state" where
  "applyClock s snapshot = s\<lparr>sta_clock_source := clk_source snapshot, sta_last_observed := clk_time snapshot\<rparr>"

definition transitionState ::
  "action_store \<Rightarrow> observation \<Rightarrow> action_state \<Rightarrow> string \<Rightarrow> state_error + clock_snapshot" where
  "transitionState store obs s expected =
     (case resampleRepositoryIdentity store obs of
        Some e \<Rightarrow> Inl e
      | None \<Rightarrow>
          if expected \<noteq> sta_digest s then Inl (ReasonStateUnavailable, ''action state changed before transition'')
          else trustedNow obs s)"

text \<open>
  What an operation asks for: an error and nothing written, an error after the clock reading is
  written, the present state confirmed, the next state written, or the next state written and an
  error reported.
\<close>

datatype 'r outcome =
  Refused state_error
  | RefusedObserving action_state state_error
  | Unchanged 'r
  | Advance action_state 'r
  | AdvanceThen action_state 'r state_error

definition persistClockObservationOnFailure :: "action_state \<Rightarrow> clock_snapshot \<Rightarrow> state_error \<Rightarrow> 'r outcome" where
  "persistClockObservationOnFailure previous clock cause =
     (if clk_time clock \<le> sta_last_observed previous then Refused cause
      else RefusedObserving (applyClock previous clock) cause)"

section \<open>Transitions of one reservation\<close>

definition setStatus :: "action_state \<Rightarrow> nat \<Rightarrow> reservation_status \<Rightarrow> clock_snapshot \<Rightarrow> action_state" where
  "setStatus s index status clock =
     s\<lparr>sta_reservations := (sta_reservations s)[index :=
         (sta_reservations s ! index)\<lparr>rsv_status := status, rsv_updated_at_unix := unix_seconds (clk_time clock)\<rparr>]\<rparr>"

definition terminalFor :: "action_state \<Rightarrow> nat \<Rightarrow> string \<Rightarrow> terminal_outcome \<Rightarrow> clock_snapshot \<Rightarrow> terminal_call" where
  "terminalFor s index identity out clock =
     \<lparr>trm_call_id = rsv_call_id (sta_reservations s ! index), trm_reservation_identity = identity,
      trm_outcome = out, trm_completed_at_unix = unix_seconds (clk_time clock)\<rparr>"

text \<open>The common end of the operations that finish a call.\<close>

definition finishCall :: "action_state \<Rightarrow> nat \<Rightarrow> terminal_call \<Rightarrow> clock_snapshot \<Rightarrow> 'r \<Rightarrow> 'r outcome" where
  "finishCall s index terminal clock result =
     (case removeReservationAndRecord s index terminal of
        Inl e \<Rightarrow> Refused e
      | Inr s \<Rightarrow> Advance (applyClock s clock) result)"

definition MarkDispatched :: "action_store \<Rightarrow> observation \<Rightarrow> action_state \<Rightarrow> string \<Rightarrow> string \<Rightarrow> unit outcome" where
  "MarkDispatched store obs s identity expected =
     (case transitionState store obs s expected of
        Inl e \<Rightarrow> Refused e
      | Inr clock \<Rightarrow>
          (case reservationIndex (sta_reservations s) identity of
             None \<Rightarrow> Refused (ReasonReservationIndeterminate, ''budget reservation is absent'')
           | Some index \<Rightarrow>
               let r = sta_reservations s ! index
               in if rsv_status r = ReservationDispatched then Unchanged ()
                  else if rsv_status r \<noteq> ReservationReserved
                  then Refused (ReasonReservationIndeterminate, ''budget reservation is not dispatchable'')
                  else
                    (case requireCurrentReservationContract s r (clk_time clock) of
                       Some e \<Rightarrow> persistClockObservationOnFailure s clock e
                     | None \<Rightarrow>
                         (case commitDispatch s index of
                            Inl e \<Rightarrow> Refused e
                          | Inr s \<Rightarrow> Advance (applyClock (setStatus s index ReservationDispatched clock) clock) ()))))"

definition Release :: "action_store \<Rightarrow> observation \<Rightarrow> action_state \<Rightarrow> string \<Rightarrow> string \<Rightarrow> unit outcome" where
  "Release store obs s identity expected =
     (case transitionState store obs s expected of
        Inl e \<Rightarrow> Refused e
      | Inr clock \<Rightarrow>
          (case reservationIndex (sta_reservations s) identity of
             None \<Rightarrow> Refused (ReasonReservationIndeterminate, ''only a pre-dispatch reservation can be released'')
           | Some index \<Rightarrow>
               if rsv_status (sta_reservations s ! index) \<noteq> ReservationReserved
               then Refused (ReasonReservationIndeterminate, ''only a pre-dispatch reservation can be released'')
               else finishCall s index (terminalFor s index identity OutcomeReleased clock) clock ()))"

definition MarkIndeterminate :: "action_store \<Rightarrow> observation \<Rightarrow> action_state \<Rightarrow> string \<Rightarrow> string \<Rightarrow> unit outcome" where
  "MarkIndeterminate store obs s identity expected =
     (case transitionState store obs s expected of
        Inl e \<Rightarrow> Refused e
      | Inr clock \<Rightarrow>
          (case reservationIndex (sta_reservations s) identity of
             None \<Rightarrow> Refused (ReasonReservationIndeterminate, ''budget reservation is absent'')
           | Some index \<Rightarrow>
               if rsv_status (sta_reservations s ! index) = ReservationIndeterminate then Unchanged ()
               else
                 (case (if rsv_status (sta_reservations s ! index) = ReservationReserved
                        then commitDispatch s index else Inr s) of
                    Inl e \<Rightarrow> Refused e
                  | Inr s \<Rightarrow> Advance (applyClock (setStatus s index ReservationIndeterminate clock) clock) ())))"

definition Settle ::
  "action_store \<Rightarrow> observation \<Rightarrow> action_state \<Rightarrow> string \<Rightarrow> string \<Rightarrow> terminal_outcome \<Rightarrow> uint64 \<Rightarrow> unit outcome" where
  "Settle store obs s identity expected out actual =
     (if out \<noteq> OutcomeSucceeded \<and> out \<noteq> OutcomeFailed
      then Refused (ReasonStateCorrupt, ''terminal settlement outcome is invalid'')
      else
        (case transitionState store obs s expected of
           Inl e \<Rightarrow> Refused e
         | Inr clock \<Rightarrow>
             (case reservationIndex (sta_reservations s) identity of
                None \<Rightarrow> Refused (ReasonReservationIndeterminate, ''only a dispatched reservation can settle'')
              | Some index \<Rightarrow>
                  if rsv_status (sta_reservations s ! index) \<noteq> ReservationDispatched
                  then Refused (ReasonReservationIndeterminate, ''only a dispatched reservation can settle'')
                  else if exceedsReservedResult (sta_reservations s ! index) actual
                  then AdvanceThen (applyClock (setStatus s index ReservationIndeterminate clock) clock) ()
                         (ReasonResultWithheld, ''downstream result exceeds the reserved result-byte contract'')
                  else
                    (case commitResult s index actual of
                       Inl e \<Rightarrow> Refused e
                     | Inr s \<Rightarrow> finishCall s index (terminalFor s index identity out clock) clock ()))))"

section \<open>Maintenance by an operator\<close>

record reconciliation =
  rec_authorization_identity :: string
  rec_outcome :: terminal_outcome
  rec_actual_result_bytes :: uint64

fun outcome_text :: "terminal_outcome \<Rightarrow> string" where
  "outcome_text OutcomeReleased = ''released_before_dispatch''"
| "outcome_text OutcomeBlocked = ''blocked_before_dispatch''"
| "outcome_text OutcomeSucceeded = ''succeeded''"
| "outcome_text OutcomeFailed = ''failed''"
| "outcome_text OutcomeIndeterminateCommitted = ''indeterminate_committed''"
| "outcome_text (OutcomeOther t) = t"

text \<open>
  The identity of the code under a key: the prefix, the key identifier and 64 hexadecimal digits,
  as \<open>identityUsesKey\<close> checks byte by byte.
\<close>

definition validKeyedIdentityKeyID :: "string \<Rightarrow> bool" where
  "validKeyedIdentityKeyID keyID \<longleftrightarrow>
     keyID \<noteq> [] \<and> length keyID \<le> 32 \<and> hd keyID \<noteq> CHR ''-'' \<and> last keyID \<noteq> CHR ''-''
     \<and> list_all (\<lambda>c. lowerAlnum c \<or> c = CHR ''-'') keyID"

definition identityUsesKey :: "string \<Rightarrow> string \<Rightarrow> bool" where
  "identityUsesKey identity keyID \<longleftrightarrow>
     validKeyedIdentityKeyID keyID \<and> length identity = 15 + length keyID + 1 + 64
     \<and> take 15 identity = ''hmac-sha256:v1:'' \<and> take (length keyID) (drop 15 identity) = keyID
     \<and> identity ! (15 + length keyID) = CHR '':''
     \<and> list_all lowerHexChar (drop (15 + length keyID + 1) identity)"

definition validOpaqueStateIdentity :: "string \<Rightarrow> bool" where
  "validOpaqueStateIdentity value \<longleftrightarrow>
     value \<noteq> [] \<and> length value \<le> 256
     \<and> list_all (\<lambda>c. CHR ''A'' \<le> c \<and> c \<le> CHR ''Z'' \<or> lowerAlnum c \<or> c \<in> set ''._:-'') value"

definition NewReconciliationAuthorization ::
  "identity_key \<Rightarrow> string \<Rightarrow> string \<Rightarrow> terminal_outcome \<Rightarrow> uint64 \<Rightarrow> string option" where
  "NewReconciliationAuthorization k identity expected out actual =
     (if \<not> identityUsesKey identity (ikey_id k) \<or> \<not> identityUsesKey expected (ikey_id k)
         \<or> out \<noteq> OutcomeSucceeded \<and> out \<noteq> OutcomeFailed \<and> out \<noteq> OutcomeIndeterminateCommitted
         \<or> out = OutcomeIndeterminateCommitted \<and> actual \<noteq> 0
      then None
      else Some (key_identity k DomainApproval
        [''reconcile-indeterminate'', identity, expected, outcome_text out, show_nat (unat actual)]))"

definition NewOwnerAbandonmentAuthorization :: "identity_key \<Rightarrow> string \<Rightarrow> string \<Rightarrow> string option" where
  "NewOwnerAbandonmentAuthorization k ownerID expected =
     (if \<not> validOpaqueStateIdentity ownerID \<or> \<not> identityUsesKey expected (ikey_id k) then None
      else Some (key_identity k DomainApproval [''mark-owner-abandoned'', ownerID, expected]))"

definition ReconcileIndeterminate ::
  "action_store \<Rightarrow> observation \<Rightarrow> action_state \<Rightarrow> string \<Rightarrow> string \<Rightarrow> reconciliation \<Rightarrow> unit outcome" where
  "ReconcileIndeterminate store obs s identity expected r =
     (let out = rec_outcome r; actual = rec_actual_result_bytes r
      in if out \<noteq> OutcomeSucceeded \<and> out \<noteq> OutcomeFailed \<and> out \<noteq> OutcomeIndeterminateCommitted
            \<or> out = OutcomeIndeterminateCommitted \<and> actual \<noteq> 0
         then Refused (ReasonAuthorityUnavailable, ''explicit reconciliation authority is invalid'')
         else
           (case transitionState store obs s expected of
              Inl e \<Rightarrow> Refused e
            | Inr clock \<Rightarrow>
                (case reservationIndex (sta_reservations s) identity of
                   None \<Rightarrow> Refused (ReasonReservationIndeterminate, ''reservation is not indeterminate'')
                 | Some index \<Rightarrow>
                     if rsv_status (sta_reservations s ! index) \<noteq> ReservationIndeterminate
                     then Refused (ReasonReservationIndeterminate, ''reservation is not indeterminate'')
                     else if NewReconciliationAuthorization (sto_key store) identity expected out actual
                               \<noteq> Some (rec_authorization_identity r)
                     then Refused (ReasonAuthorityUnavailable,
                            ''reconciliation authority does not bind the exact operation'')
                     else
                       (case (if out = OutcomeIndeterminateCommitted then commitReservedResults s index
                              else if exceedsReservedResult (sta_reservations s ! index) actual
                              then Inl (ReasonStateCorrupt, ''reconciled result exceeds the reserved maximum'')
                              else commitResult s index actual) of
                          Inl e \<Rightarrow> Refused e
                        | Inr s \<Rightarrow> finishCall s index (terminalFor s index identity out clock) clock ()))))"

text \<open>The loops over the approvals and the reservations of an abandoned owner.\<close>

fun abandonApprovals :: "string \<Rightarrow> int \<Rightarrow> nat list \<Rightarrow> action_state \<Rightarrow> state_error + action_state" where
  "abandonApprovals ownerID now [] s = Inr s"
| "abandonApprovals ownerID now (i # is) s =
     (let r = sta_approvals s ! i
      in if apr_status r \<noteq> StatusPending \<or> apr_reservation_identity r = ''absent'' then abandonApprovals ownerID now is s
         else
           (case reservationIndex (sta_reservations s) (apr_reservation_identity r) of
              None \<Rightarrow> Inl (ReasonStateCorrupt, ''pending approval budget reservation is absent'')
            | Some position \<Rightarrow>
                if rsv_owner_id (sta_reservations s ! position) \<noteq> ownerID
                   \<or> rsv_status (sta_reservations s ! position) = ReservationIndeterminate
                then abandonApprovals ownerID now is s
                else
                  (case releaseApprovalCharges s position of
                     Inl e \<Rightarrow> Inl e
                   | Inr (released, s) \<Rightarrow>
                       abandonApprovals ownerID now is
                         (s\<lparr>sta_approvals := (sta_approvals s)[i :=
                             r\<lparr>apr_status := StatusUnavailable, apr_updated_at_unix := unix_seconds now\<rparr>]\<rparr>))))"

definition terminalizeAbandonedPendingApprovals :: "action_state \<Rightarrow> string \<Rightarrow> int \<Rightarrow> state_error + action_state" where
  "terminalizeAbandonedPendingApprovals s ownerID now = abandonApprovals ownerID now [0..<length (sta_approvals s)] s"

fun abandonReservations ::
  "string \<Rightarrow> clock_snapshot \<Rightarrow> nat list \<Rightarrow> action_state \<Rightarrow> state_error + bool \<times> action_state" where
  "abandonReservations ownerID clock [] s = Inr (False, s)"
| "abandonReservations ownerID clock (i # is) s =
     (let r = sta_reservations s ! i
      in if rsv_owner_id r \<noteq> ownerID \<or> rsv_status r = ReservationIndeterminate then abandonReservations ownerID clock is s
         else
           (case (if rsv_status r = ReservationReserved then commitDispatch s i else Inr s) of
              Inl e \<Rightarrow> Inl e
            | Inr s \<Rightarrow> map_sum id (\<lambda>(changed, s). (True, s))
                (abandonReservations ownerID clock is (setStatus s i ReservationIndeterminate clock))))"

definition MarkOwnerAbandoned ::
  "action_store \<Rightarrow> observation \<Rightarrow> action_state \<Rightarrow> string \<Rightarrow> string \<Rightarrow> string \<Rightarrow> unit outcome" where
  "MarkOwnerAbandoned store obs s ownerID expected authorization =
     (if \<not> validOpaqueStateIdentity ownerID
      then Refused (ReasonAuthorityUnavailable, ''abandonment reconciliation authority is invalid'')
      else
        (case transitionState store obs s expected of
           Inl e \<Rightarrow> Refused e
         | Inr clock \<Rightarrow>
             if NewOwnerAbandonmentAuthorization (sto_key store) ownerID expected \<noteq> Some authorization
             then Refused (ReasonAuthorityUnavailable, ''abandonment authority does not bind the exact operation'')
             else
               (case terminalizeAbandonedPendingApprovals s ownerID (clk_time clock) of
                  Inl e \<Rightarrow> Refused e
                | Inr s \<Rightarrow>
                    (case abandonReservations ownerID clock [0..<length (sta_reservations s)] s of
                       Inl e \<Rightarrow> Refused e
                     | Inr (changed, s) \<Rightarrow> if \<not> changed then Unchanged () else Advance (applyClock s clock) ()))))"

section \<open>Denials\<close>

definition RecordDenied ::
  "action_store \<Rightarrow> observation \<Rightarrow> action_state \<Rightarrow> string \<Rightarrow> string \<Rightarrow> denial_accounting outcome" where
  "RecordDenied store obs s identity expected =
     (case transitionState store obs s expected of
        Inl e \<Rightarrow> Refused e
      | Inr clock \<Rightarrow>
          (case reservationIndex (sta_reservations s) identity of
             None \<Rightarrow> Refused (ReasonReservationIndeterminate, ''denial requires a live pre-dispatch reservation'')
           | Some index \<Rightarrow>
               let r = sta_reservations s ! index
               in if rsv_status r \<noteq> ReservationReserved
                  then Refused (ReasonReservationIndeterminate, ''denial requires a live pre-dispatch reservation'')
                  else
                    (case requireCurrentReservationContract s r (clk_time clock) of
                       Some e \<Rightarrow> persistClockObservationOnFailure s clock e
                     | None \<Rightarrow>
                         (case recordDenialCharges s index of
                            Inl e \<Rightarrow> Refused e
                          | Inr (accounting, s) \<Rightarrow>
                              (case removeReservationAndRecord s index (terminalFor s index identity OutcomeBlocked clock) of
                                 Inl e \<Rightarrow> Refused e
                               | Inr s \<Rightarrow>
                                   if dac_capacity_exhausted accounting
                                   then AdvanceThen (applyClock s clock) accounting
                                          (ReasonBudgetExhausted, ''denial-count capacity is exhausted'')
                                   else Advance (applyClock s clock) accounting)))))"

section \<open>Operations as steps\<close>

datatype operation =
  OpMarkDispatched string | OpRelease string | OpMarkIndeterminate string
  | OpSettle string terminal_outcome uint64 | OpReconcile string reconciliation
  | OpAbandon string string | OpRecordDenied string

fun discard :: "'r outcome \<Rightarrow> unit outcome" where
  "discard (Refused e) = Refused e"
| "discard (RefusedObserving s e) = RefusedObserving s e"
| "discard (Unchanged r) = Unchanged ()"
| "discard (Advance s r) = Advance s ()"
| "discard (AdvanceThen s r e) = AdvanceThen s () e"

fun operate :: "action_store \<Rightarrow> observation \<Rightarrow> action_state \<Rightarrow> string \<Rightarrow> operation \<Rightarrow> unit outcome" where
  "operate store obs s v (OpMarkDispatched identity) = MarkDispatched store obs s identity v"
| "operate store obs s v (OpRelease identity) = Release store obs s identity v"
| "operate store obs s v (OpMarkIndeterminate identity) = MarkIndeterminate store obs s identity v"
| "operate store obs s v (OpSettle identity out actual) = Settle store obs s identity v out actual"
| "operate store obs s v (OpReconcile identity r) = ReconcileIndeterminate store obs s identity v r"
| "operate store obs s v (OpAbandon ownerID authorization) = MarkOwnerAbandoned store obs s ownerID v authorization"
| "operate store obs s v (OpRecordDenied identity) = discard (RecordDenied store obs s identity v)"

text \<open>What an operation writes at all, and what it writes beyond a clock reading.\<close>

fun written :: "'r outcome \<Rightarrow> action_state option" where
  "written (Refused e) = None"
| "written (RefusedObserving s e) = Some s"
| "written (Unchanged r) = None"
| "written (Advance s r) = Some s"
| "written (AdvanceThen s r e) = Some s"

fun advanced :: "'r outcome \<Rightarrow> action_state option" where
  "advanced (Advance s r) = Some s"
| "advanced (AdvanceThen s r e) = Some s"
| "advanced (Refused e) = None"
| "advanced (RefusedObserving s e) = None"
| "advanced (Unchanged r) = None"

text \<open>
  The elementary moves: an operation that advances ends in one of these, and what holds for each
  of them holds for every operation. A move is from a state to the written state.
\<close>

definition same_but_consumed :: "action_state \<Rightarrow> action_state \<Rightarrow> bool" where
  "same_but_consumed s s' \<longleftrightarrow>
     map contract (sta_budgets s') = map contract (sta_budgets s)
     \<and> sta_reservations s' = sta_reservations s \<and> sta_terminal_calls s' = sta_terminal_calls s
     \<and> sta_approvals s' = sta_approvals s"

inductive move :: "action_state \<Rightarrow> action_state \<Rightarrow> bool" where
  dispatch: "move s (applyClock (setStatus s' i st clock) clock)"
    if "i < length (sta_reservations s)" "rsv_status (sta_reservations s ! i) = ReservationReserved"
      "commitDispatch s i = Inr s'" "st = ReservationDispatched \<or> st = ReservationIndeterminate"
| strand: "move s (applyClock (setStatus s i ReservationIndeterminate clock) clock)"
    if "i < length (sta_reservations s)" "rsv_status (sta_reservations s ! i) \<noteq> ReservationReserved"
      "rsv_status (sta_reservations s ! i) \<noteq> ReservationIndeterminate"
| finish: "move s (applyClock s'' clock)"
    if "i < length (sta_reservations s)" "same_but_consumed s s'"
      "removeReservationAndRecord s' i terminal = Inr s''"
      "trm_call_id terminal = rsv_call_id (sta_reservations s ! i)"
      "\<And>k d. consumed_of (sta_budgets s') k d
         \<le> consumed_of (sta_budgets s) k d + charge_sum (rsv_charges (sta_reservations s ! i)) k d
         \<or> d = DeniedCount \<and> (\<exists>r. budgetRecordForLineage (sta_budgets s) k = Some r
              \<and> consumed_of (sta_budgets s') k d + reserved_of (sta_reservations s) k d \<le> unat (lim_denied_count (brc_limits r)))"
| abandon: "move s (applyClock s'' clock)"
    if "abandonApprovals ownerID now is s = Inr s'"
      "abandonReservations ownerID clock js s' = Inr (True, s'')" "\<forall>j \<in> set js. j < length (sta_reservations s')"
      "\<forall>j \<in> set is. j < length (sta_approvals s)"

lemma map_sum_InrE: "map_sum f g x = Inr y \<Longrightarrow> (\<And>z. x = Inr z \<Longrightarrow> y = g z \<Longrightarrow> thesis) \<Longrightarrow> thesis"
  by (cases x) auto

lemma find_reservation:
  "reservationIndex rs identity = Some i \<Longrightarrow> i < length rs \<and> rsv_identity (rs ! i) = identity"
  by (simp add: reservationIndex_def find_key_Some)

lemma same_but_consumed_refl [simp]: "same_but_consumed s s"
  by (simp add: same_but_consumed_def)

lemma persist_not_advanced [simp]: "advanced (persistClockObservationOnFailure s clock e) = None"
  by (simp add: persistClockObservationOnFailure_def)

lemma not_exceeding:
  assumes "\<not> exceedsReservedResult r actual"
  shows "list_all (\<lambda>c. use_result_bytes (chg_reserved c) \<noteq> 0 \<longrightarrow> actual \<le> use_result_bytes (chg_reserved c)) (rsv_charges r)"
  using assms by (auto simp: exceedsReservedResult_def list_ex_iff list_all_iff not_less)

lemma commitResult_same:
  assumes "commitResult s i actual = Inr s'" and "lineages_sorted (sta_budgets s)"
    and "\<not> exceedsReservedResult (sta_reservations s ! i) actual"
  shows "same_but_consumed s s' \<and> (\<forall>k d. consumed_of (sta_budgets s') k d
    \<le> consumed_of (sta_budgets s) k d + charge_sum (rsv_charges (sta_reservations s ! i)) k d)"
proof -
  obtain b where b: "resultCharges actual (sta_budgets s) (rsv_charges (sta_reservations s ! i)) = Inr b"
    and s': "s' = s\<lparr>sta_budgets := b\<rparr>"
    using assms(1) by (auto simp: commitResult_def split: sum.splits)
  show ?thesis using resultCharges_effect [OF b assms(2)] not_exceeding [OF assms(3)]
    by (simp add: same_but_consumed_def s')
qed

lemma commitReservedResults_same:
  assumes "commitReservedResults s i = Inr s'" and "lineages_sorted (sta_budgets s)"
  shows "same_but_consumed s s' \<and> (\<forall>k d. consumed_of (sta_budgets s') k d
    \<le> consumed_of (sta_budgets s) k d + charge_sum (rsv_charges (sta_reservations s ! i)) k d)"
proof -
  obtain b where b: "reservedResultCharges (sta_budgets s) (rsv_charges (sta_reservations s ! i)) = Inr b"
    and s': "s' = s\<lparr>sta_budgets := b\<rparr>"
    using assms(1) by (auto simp: commitReservedResults_def split: sum.splits)
  show ?thesis using reservedResultCharges_effect [OF b assms(2)] by (simp add: same_but_consumed_def s')
qed

lemma recordDenial_same:
  assumes "recordDenialCharges s i = Inr (accounting, s')" and "lineages_sorted (sta_budgets s)"
  shows "same_but_consumed s s' \<and> (\<forall>k d. consumed_of (sta_budgets s') k d \<le> consumed_of (sta_budgets s) k d
      \<or> d = DeniedCount \<and> (\<exists>r. budgetRecordForLineage (sta_budgets s) k = Some r
           \<and> consumed_of (sta_budgets s') k d + reserved_of (sta_reservations s) k d \<le> unat (lim_denied_count (brc_limits r))))"
proof -
  obtain reserved b where u: "reservedUsageByLineage (sta_reservations s) = Inr reserved"
    and d: "denialCharges reserved (sta_budgets s) (rsv_charges (sta_reservations s ! i))
        \<lparr>dac_consumed_count = 0, dac_capacity_exhausted = False\<rparr> = Inr (b, accounting)"
    and s': "s' = s\<lparr>sta_budgets := b\<rparr>"
    using assms(1) by (auto simp: recordDenialCharges_def split: sum.splits)
  have "unat (use_denied_count (reserved k)) = reserved_of (sta_reservations s) k DeniedCount" for k
    using reservedUsageByLineage_exact [OF u, of DeniedCount k] by simp
  then have "consumed_of b k d \<le> consumed_of (sta_budgets s) k d
      \<or> d = DeniedCount \<and> (\<exists>r. budgetRecordForLineage (sta_budgets s) k = Some r
           \<and> consumed_of b k d + reserved_of (sta_reservations s) k d \<le> unat (lim_denied_count (brc_limits r)))" for k d
    using denialCharges_effect [OF d assms(2), of d k] by (cases "d = DeniedCount") auto
  then show ?thesis using denialCharges_effect [OF d assms(2)] by (simp add: same_but_consumed_def s')
qed

lemma advanced_if: "advanced (if c then a else b) = Some t \<longleftrightarrow> (c \<and> advanced a = Some t \<or> \<not> c \<and> advanced b = Some t)"
  by simp

lemma advanced_try:
  "advanced (case r of Inl e \<Rightarrow> Refused e | Inr x \<Rightarrow> f x) = Some t \<longleftrightarrow> (\<exists>x. r = Inr x \<and> advanced (f x) = Some t)"
  by (cases r) simp_all

lemma advanced_finish:
  "advanced (finishCall s index terminal clock r) = Some t \<longleftrightarrow>
     (\<exists>s'. removeReservationAndRecord s index terminal = Inr s' \<and> t = applyClock s' clock)"
  by (auto simp: finishCall_def split: sum.splits)

lemma advanced_observe:
  "advanced (case c of Some e \<Rightarrow> persistClockObservationOnFailure s clock e | None \<Rightarrow> f) = Some t \<longleftrightarrow>
     c = None \<and> advanced f = Some t"
  by (cases c) simp_all

lemma advanced_lookup:
  "advanced (case r of None \<Rightarrow> Refused e | Some i \<Rightarrow> f i) = Some t \<longleftrightarrow> (\<exists>i. r = Some i \<and> advanced (f i) = Some t)"
  by (cases r) simp_all

lemmas advanced_simps = advanced_if advanced_try advanced_finish advanced_observe advanced_lookup

lemma operate_move:
  assumes "advanced (operate store obs s v p) = Some t" and "lineages_sorted (sta_budgets s)"
  shows "move s t"
proof (cases p)
  case (OpMarkDispatched identity)
  then have "advanced (MarkDispatched store obs s identity v) = Some t" using assms(1) by simp
  then obtain clock i s' where "i < length (sta_reservations s)" "rsv_status (sta_reservations s ! i) = ReservationReserved"
    "commitDispatch s i = Inr s'" "t = applyClock (setStatus s' i ReservationDispatched clock) clock"
    by (auto simp: MarkDispatched_def Let_def advanced_simps dest!: find_reservation)
  then show ?thesis by (auto intro: move.dispatch)
next
  case (OpMarkIndeterminate identity)
  then have "advanced (MarkIndeterminate store obs s identity v) = Some t" using assms(1) by simp
  then obtain clock i s' where i: "i < length (sta_reservations s)"
    "rsv_status (sta_reservations s ! i) \<noteq> ReservationIndeterminate"
    "(if rsv_status (sta_reservations s ! i) = ReservationReserved then commitDispatch s i else Inr s) = Inr s'"
    "t = applyClock (setStatus s' i ReservationIndeterminate clock) clock"
    by (simp only: MarkIndeterminate_def advanced_simps advanced.simps option.distinct) (blast dest: find_reservation)
  then show ?thesis
    by (cases "rsv_status (sta_reservations s ! i) = ReservationReserved") (auto intro: move.dispatch move.strand)
next
  case (OpRelease identity)
  then have "advanced (Release store obs s identity v) = Some t" using assms(1) by simp
  then obtain clock i s' where i: "i < length (sta_reservations s)"
    "removeReservationAndRecord s i (terminalFor s i identity OutcomeReleased clock) = Inr s'" "t = applyClock s' clock"
    by (auto simp: Release_def advanced_simps dest!: find_reservation)
  show ?thesis unfolding i(3) by (rule move.finish [OF i(1) _ i(2)]) (simp_all add: terminalFor_def)
next
  case (OpSettle identity out actual)
  then have "advanced (Settle store obs s identity v out actual) = Some t" using assms(1) by simp
  then obtain clock i where i: "i < length (sta_reservations s)"
    "rsv_status (sta_reservations s ! i) = ReservationDispatched"
    "exceedsReservedResult (sta_reservations s ! i) actual \<and> t = applyClock (setStatus s i ReservationIndeterminate clock) clock
     \<or> \<not> exceedsReservedResult (sta_reservations s ! i) actual \<and> (\<exists>s' s''. commitResult s i actual = Inr s'
         \<and> removeReservationAndRecord s' i (terminalFor s' i identity out clock) = Inr s'' \<and> t = applyClock s'' clock)"
    by (simp only: Settle_def advanced_simps advanced.simps option.distinct option.inject) (blast dest: find_reservation)
  from i(3) show ?thesis
  proof (elim disjE conjE exE)
    assume "t = applyClock (setStatus s i ReservationIndeterminate clock) clock"
    then show ?thesis using i(1,2) by (auto intro: move.strand)
  next
    fix s' s''
    assume e: "\<not> exceedsReservedResult (sta_reservations s ! i) actual" and c: "commitResult s i actual = Inr s'"
      and r: "removeReservationAndRecord s' i (terminalFor s' i identity out clock) = Inr s''" and t: "t = applyClock s'' clock"
    note same = commitResult_same [OF c assms(2) e]
    show ?thesis unfolding t
      by (rule move.finish [OF i(1) _ r]) (use same in \<open>auto simp: terminalFor_def same_but_consumed_def\<close>)
  qed
next
  case (OpReconcile identity q)
  then have "advanced (ReconcileIndeterminate store obs s identity v q) = Some t" using assms(1) by simp
  then obtain clock i s' s'' where i: "i < length (sta_reservations s)"
    "(if rec_outcome q = OutcomeIndeterminateCommitted then commitReservedResults s i
      else if exceedsReservedResult (sta_reservations s ! i) (rec_actual_result_bytes q)
      then Inl (ReasonStateCorrupt, ''reconciled result exceeds the reserved maximum'')
      else commitResult s i (rec_actual_result_bytes q)) = Inr s'"
    "removeReservationAndRecord s' i (terminalFor s' i identity (rec_outcome q) clock) = Inr s''" "t = applyClock s'' clock"
    by (simp only: ReconcileIndeterminate_def Let_def advanced_simps advanced.simps option.distinct)
      (blast dest: find_reservation)
  have same: "same_but_consumed s s' \<and> (\<forall>k d. consumed_of (sta_budgets s') k d
      \<le> consumed_of (sta_budgets s) k d + charge_sum (rsv_charges (sta_reservations s ! i)) k d)"
    using i(2) commitResult_same [OF _ assms(2)] commitReservedResults_same [OF _ assms(2)] by (metis Inl_Inr_False)
  show ?thesis unfolding i(4)
    by (rule move.finish [OF i(1) _ i(3)]) (use same in \<open>auto simp: terminalFor_def same_but_consumed_def\<close>)
next
  case (OpAbandon ownerID authorization)
  then have "advanced (MarkOwnerAbandoned store obs s ownerID v authorization) = Some t" using assms(1) by simp
  then obtain clock s' s'' where
    "abandonApprovals ownerID (clk_time clock) [0..<length (sta_approvals s)] s = Inr s'"
    "abandonReservations ownerID clock [0..<length (sta_reservations s')] s' = Inr (True, s'')" "t = applyClock s'' clock"
    unfolding MarkOwnerAbandoned_def terminalizeAbandonedPendingApprovals_def advanced_if advanced_try
    by (auto split: prod.splits if_splits)
  moreover have "\<forall>j \<in> set [0..<length (sta_approvals s)]. j < length (sta_approvals s)"
    "\<forall>j \<in> set [0..<length (sta_reservations s')]. j < length (sta_reservations s')" by simp_all
  ultimately show ?thesis using move.abandon by blast
next
  case (OpRecordDenied identity)
  then have "advanced (RecordDenied store obs s identity v) \<noteq> None"
    "map_option id (advanced (RecordDenied store obs s identity v)) = Some t"
    using assms(1) by (cases "RecordDenied store obs s identity v"; simp)+
  then have "advanced (RecordDenied store obs s identity v) = Some t" by simp
  then obtain clock i accounting s' s'' where i: "i < length (sta_reservations s)"
    "recordDenialCharges s i = Inr (accounting, s')"
    "removeReservationAndRecord s' i (terminalFor s' i identity OutcomeBlocked clock) = Inr s''" "t = applyClock s'' clock"
    by (auto simp: RecordDenied_def Let_def advanced_simps split: prod.splits if_splits dest!: find_reservation)
  have same: "same_but_consumed s s'" using recordDenial_same [OF i(2) assms(2)] by blast
  show ?thesis unfolding i(4)
    by (rule move.finish [OF i(1) same i(3)])
      (use recordDenial_same [OF i(2) assms(2)] in \<open>auto simp: terminalFor_def same_but_consumed_def dest: trans_le_add1\<close>)
qed

section \<open>What every step keeps\<close>

definition flags_ok :: "reservation \<Rightarrow> bool" where
  "flags_ok r \<longleftrightarrow> list_all (\<lambda>c. chg_dispatch_committed c = (rsv_status r \<noteq> ReservationReserved)) (rsv_charges r)"

definition state_wf :: "action_state \<Rightarrow> bool" where
  "state_wf s \<longleftrightarrow>
     lineages_sorted (sta_budgets s) \<and> keys_sorted rsv_identity (sta_reservations s)
     \<and> keys_sorted trm_call_id (sta_terminal_calls s)
     \<and> keys_sorted (\<lambda>r. apq_request_id (apr_request r)) (sta_approvals s)
     \<and> distinct (map rsv_call_id (sta_reservations s))
     \<and> rsv_call_id ` set (sta_reservations s) \<inter> trm_call_id ` set (sta_terminal_calls s) = {}
     \<and> list_all flags_ok (sta_reservations s)"

text \<open>Each step of a reservation lowers its rank; a finished one has none.\<close>

fun status_rank :: "reservation_status \<Rightarrow> nat" where
  "status_rank ReservationReserved = 3"
| "status_rank ReservationDispatched = 2"
| "status_rank ReservationIndeterminate = 1"
| "status_rank (ReservationStatusOther t) = 2"

definition rank_of :: "action_state \<Rightarrow> nat" where
  "rank_of s = sum_list (map (\<lambda>r. status_rank (rsv_status r)) (sta_reservations s))"

lemma clock_simps [simp]:
  "state_wf (applyClock s clock) = state_wf s" "held (applyClock s clock) = held s" "rank_of (applyClock s clock) = rank_of s"
  "sta_reservations (applyClock s clock) = sta_reservations s" "sta_terminal_calls (applyClock s clock) = sta_terminal_calls s"
  "sta_budgets (applyClock s clock) = sta_budgets s" "sta_approvals (applyClock s clock) = sta_approvals s"
  by (auto simp: applyClock_def state_wf_def rank_of_def held_def fun_eq_iff)

lemma setStatus_simps [simp]:
  "sta_terminal_calls (setStatus s i st clock) = sta_terminal_calls s" "sta_budgets (setStatus s i st clock) = sta_budgets s"
  "sta_approvals (setStatus s i st clock) = sta_approvals s"
  "length (sta_reservations (setStatus s i st clock)) = length (sta_reservations s)"
  by (simp_all add: setStatus_def)

lemma map_replace: "i < length xs \<Longrightarrow> f y = f (xs ! i) \<Longrightarrow> map f (xs[i := y]) = map f xs"
  by (metis list_update_id map_update)

lemma setStatus_held: "i < length (sta_reservations s) \<Longrightarrow> held (setStatus s i st clock) k d = held s k d"
  using reserved_of_update [of i "sta_reservations s"
      "(sta_reservations s ! i)\<lparr>rsv_status := st, rsv_updated_at_unix := unix_seconds (clk_time clock)\<rparr>" k d]
  by (simp add: held_def setStatus_def)

lemma rank_update:
  assumes "i < length (sta_reservations s)"
  shows "rank_of (s\<lparr>sta_reservations := (sta_reservations s)[i := r]\<rparr>) + status_rank (rsv_status (sta_reservations s ! i))
    = rank_of s + status_rank (rsv_status r)"
  using assms sum_list_update [of i "map (\<lambda>r. status_rank (rsv_status r)) (sta_reservations s)" "status_rank (rsv_status r)"]
    member_le_sum_list [of "status_rank (rsv_status (sta_reservations s ! i))" "map (\<lambda>r. status_rank (rsv_status r)) (sta_reservations s)"]
  by (simp add: rank_of_def map_update)

lemma rank_of_budgets [simp]: "rank_of (s\<lparr>sta_budgets := b\<rparr>) = rank_of s"
  by (simp add: rank_of_def)

text \<open>Replacing one reservation by one with the same names.\<close>

lemma state_wf_replace:
  assumes "state_wf s" and "i < length (sta_reservations s)" and "map contract b = map contract (sta_budgets s)"
    and "rsv_identity r = rsv_identity (sta_reservations s ! i)" and "rsv_call_id r = rsv_call_id (sta_reservations s ! i)"
    and "flags_ok r"
  shows "state_wf (s\<lparr>sta_budgets := b, sta_reservations := (sta_reservations s)[i := r]\<rparr>)"
proof -
  let ?rs = "(sta_reservations s)[i := r]"
  have ids: "map rsv_identity ?rs = map rsv_identity (sta_reservations s)" by (rule map_replace [OF assms(2,4)])
  have calls: "map rsv_call_id ?rs = map rsv_call_id (sta_reservations s)" by (rule map_replace [OF assms(2,5)])
  have callset: "rsv_call_id ` set ?rs = rsv_call_id ` set (sta_reservations s)" using calls by (metis list.set_map)
  have "list_all flags_ok ?rs" using assms(1,6) by (auto simp: state_wf_def list_all_iff dest!: set_update_subset_insert [THEN subsetD])
  then show ?thesis using assms(1) contract_lineage [OF assms(3)] by (simp add: state_wf_def ids calls callset)
qed

lemma dispatch_step:
  assumes "state_wf s" and "i < length (sta_reservations s)" and "rsv_status (sta_reservations s ! i) = ReservationReserved"
    and "commitDispatch s i = Inr s'" and "st = ReservationDispatched \<or> st = ReservationIndeterminate"
  shows "state_wf (setStatus s' i st clock) \<and> held (setStatus s' i st clock) k d \<le> held s k d
    \<and> rank_of (setStatus s' i st clock) < rank_of s
    \<and> map rsv_call_id (sta_reservations (setStatus s' i st clock)) = map rsv_call_id (sta_reservations s)
    \<and> sta_terminal_calls s' = sta_terminal_calls s \<and> sta_approvals s' = sta_approvals s"
proof -
  let ?r = "sta_reservations s ! i"
  have sorted: "lineages_sorted (sta_budgets s)" using assms(1) by (simp add: state_wf_def)
  obtain b cs where d: "dispatchCharges (sta_budgets s) (rsv_charges ?r) = Inr (b, cs)"
    and s': "s' = s\<lparr>sta_budgets := b, sta_reservations := (sta_reservations s)[i := ?r\<lparr>rsv_charges := cs\<rparr>]\<rparr>"
    using assms(4) by (auto simp: commitDispatch_def with_charges_def split: sum.splits)
  define r where "r = ?r\<lparr>rsv_charges := cs, rsv_status := st, rsv_updated_at_unix := unix_seconds (clk_time clock)\<rparr>"
  have t: "setStatus s' i st clock = s\<lparr>sta_budgets := b, sta_reservations := (sta_reservations s)[i := r]\<rparr>"
    using assms(2) by (simp add: setStatus_def s' r_def)
  note e = dispatchCharges_effect [OF d sorted]
  have "flags_ok r" using e assms(5) by (auto simp: flags_ok_def r_def list_all_iff)
  then have "state_wf (setStatus s' i st clock)"
    unfolding t using e by (intro state_wf_replace [OF assms(1,2)]) (auto simp: r_def)
  moreover have "held (setStatus s' i st clock) k d \<le> held s k d"
    using setStatus_held [of i s' st clock k d] commitDispatch_held [OF assms(4,2) sorted] assms(2) by (simp add: s')
  moreover have "rank_of (setStatus s' i st clock) < rank_of s"
    using rank_update [OF assms(2), of r] assms(3,5) by (auto simp: t r_def rank_of_def)
  moreover have "map rsv_call_id (sta_reservations (setStatus s' i st clock)) = map rsv_call_id (sta_reservations s)"
    unfolding t by (simp add: map_replace [OF assms(2)] r_def)
  ultimately show ?thesis by (simp add: s')
qed

lemma strand_step:
  assumes "state_wf s" and "i < length (sta_reservations s)" and "rsv_status (sta_reservations s ! i) \<noteq> ReservationReserved"
    and "rsv_status (sta_reservations s ! i) \<noteq> ReservationIndeterminate"
  shows "state_wf (setStatus s i ReservationIndeterminate clock) \<and> rank_of (setStatus s i ReservationIndeterminate clock) < rank_of s
    \<and> map rsv_call_id (sta_reservations (setStatus s i ReservationIndeterminate clock)) = map rsv_call_id (sta_reservations s)"
proof -
  let ?r = "sta_reservations s ! i"
  let ?n = "?r\<lparr>rsv_status := ReservationIndeterminate, rsv_updated_at_unix := unix_seconds (clk_time clock)\<rparr>"
  have t: "setStatus s i ReservationIndeterminate clock
      = s\<lparr>sta_budgets := sta_budgets s, sta_reservations := (sta_reservations s)[i := ?n]\<rparr>" by (simp add: setStatus_def)
  have "flags_ok ?r" using assms(1,2) by (simp add: state_wf_def list_all_length)
  then have "flags_ok ?n" using assms(3) by (simp add: flags_ok_def)
  then have "state_wf (setStatus s i ReservationIndeterminate clock)"
    unfolding t by (intro state_wf_replace [OF assms(1,2)]) simp_all
  moreover have "rank_of (setStatus s i ReservationIndeterminate clock) < rank_of s"
    using rank_update [OF assms(2), of ?n] assms(3,4) by (cases "rsv_status ?r") (auto simp: setStatus_def)
  ultimately show ?thesis unfolding t by (simp add: map_replace [OF assms(2)])
qed

lemma finish_step:
  assumes "state_wf s" and "i < length (sta_reservations s)" and "same_but_consumed s s'"
    and "removeReservationAndRecord s' i terminal = Inr t" and "trm_call_id terminal = rsv_call_id (sta_reservations s ! i)"
  shows "state_wf t \<and> rank_of t < rank_of s
    \<and> set (map rsv_call_id (sta_reservations t)) = set (map rsv_call_id (sta_reservations s)) - {trm_call_id terminal}
    \<and> set (sta_terminal_calls t) = insert terminal (set (sta_terminal_calls s))"
proof -
  define rs where "rs = sta_reservations s"
  define ts where "ts = sta_terminal_calls s"
  define us where "us = take i rs @ drop (Suc i) rs"
  let ?c = "trm_call_id terminal" and ?p = "search_index trm_call_id ts (trm_call_id terminal)"
  have i: "i < length rs" "?c = rsv_call_id (rs ! i)" using assms(2,5) by (simp_all add: rs_def)
  have t: "sta_reservations t = us" "sta_terminal_calls t = take ?p ts @ terminal # drop ?p ts"
    "sta_budgets t = sta_budgets s'" "sta_approvals t = sta_approvals s"
    using assms(3,4) by (auto simp: removeReservationAndRecord_def same_but_consumed_def Let_def rs_def ts_def us_def split: if_splits)
  have w: "keys_sorted rsv_identity rs" "keys_sorted trm_call_id ts" "distinct (map rsv_call_id rs)"
    "rsv_call_id ` set rs \<inter> trm_call_id ` set ts = {}" "list_all flags_ok rs"
    "keys_sorted (\<lambda>r. apq_request_id (apr_request r)) (sta_approvals s)" "lineages_sorted (sta_budgets s)"
    using assms(1) by (simp_all add: state_wf_def rs_def ts_def)
  have split: "rs = take i rs @ rs ! i # drop (Suc i) rs" by (rule id_take_nth_drop [OF i(1)])
  have calls: "set (map rsv_call_id us) = set (map rsv_call_id rs) - {?c}" and "distinct (map rsv_call_id us)"
  proof -
    have d: "distinct (map rsv_call_id (take i rs @ rs ! i # drop (Suc i) rs))" using w(3) split by metis
    have "set (map rsv_call_id rs) = insert ?c (set (map rsv_call_id us))"
      by (subst split) (auto simp: us_def i(2))
    then show "set (map rsv_call_id us) = set (map rsv_call_id rs) - {?c}" "distinct (map rsv_call_id us)"
      using d by (auto simp: us_def i(2))
  qed
  have terminals: "set (sta_terminal_calls t) = insert terminal (set ts)"
    unfolding t(2) by (metis (no_types, lifting) Un_insert_right append_take_drop_id list.simps(15) set_append)
  have fresh: "?c \<notin> trm_call_id ` set ts" using w(4) i by (metis disjoint_iff image_eqI nth_mem)
  have "us = take i rs @ drop (Suc i) rs" "set us \<subseteq> set rs" by (auto simp: us_def dest: in_set_takeD in_set_dropD)
  then have "state_wf t"
    unfolding state_wf_def t(1,3,4)
    using w calls \<open>distinct (map rsv_call_id us)\<close> terminals keys_sorted_take_drop [OF w(1), of i]
      keys_sorted_insert [OF w(2) fresh] contract_lineage [of "sta_budgets s'" "sta_budgets s"] assms(3)
    by (auto simp: t(2) same_but_consumed_def list_all_iff simp del: map_append)
  moreover have "rank_of t < rank_of s"
  proof -
    have "rank_of s = rank_of t + status_rank (rsv_status (rs ! i))"
      unfolding rank_of_def t(1) rs_def [symmetric] by (subst split) (simp add: us_def)
    moreover have "0 < status_rank (rsv_status (rs ! i))" by (cases "rsv_status (rs ! i)") simp_all
    ultimately show ?thesis by simp
  qed
  ultimately show ?thesis using calls terminals by (simp add: t(1) rs_def ts_def)
qed

lemma release_step:
  assumes "releaseApprovalCharges s j = Inr (released, s')" and "state_wf s" and "j < length (sta_reservations s)"
  shows "state_wf s' \<and> held s' k d \<le> held s k d \<and> rank_of s' = rank_of s
    \<and> map rsv_call_id (sta_reservations s') = map rsv_call_id (sta_reservations s)
    \<and> sta_terminal_calls s' = sta_terminal_calls s \<and> sta_approvals s' = sta_approvals s \<and> sta_budgets s' = sta_budgets s"
proof -
  let ?r = "sta_reservations s ! j"
  obtain cs where c: "approvalReleases (sta_budgets s) (rsv_charges ?r) = Inr (released, cs)"
    and s': "s' = s\<lparr>sta_reservations := (sta_reservations s)[j := ?r\<lparr>rsv_charges := cs\<rparr>]\<rparr>"
    using assms(1) by (auto simp: releaseApprovalCharges_def split: sum.splits)
  note e = approvalReleases_effect [OF c]
  have "flags_ok ?r" using assms(2,3) by (simp add: state_wf_def list_all_length)
  then have "list_all (\<lambda>b. b = (rsv_status ?r \<noteq> ReservationReserved)) (map chg_dispatch_committed (rsv_charges ?r))"
    by (simp add: flags_ok_def list_all_iff)
  then have "list_all (\<lambda>b. b = (rsv_status ?r \<noteq> ReservationReserved)) (map chg_dispatch_committed cs)" using e by simp
  then have "flags_ok (?r\<lparr>rsv_charges := cs\<rparr>)" by (simp add: flags_ok_def list_all_iff)
  then have "state_wf (s\<lparr>sta_budgets := sta_budgets s, sta_reservations := (sta_reservations s)[j := ?r\<lparr>rsv_charges := cs\<rparr>]\<rparr>)"
    by (intro state_wf_replace [OF assms(2,3)]) simp_all
  then have "state_wf s'" by (simp add: s')
  moreover have "held s' k d \<le> held s k d"
    using reserved_of_update [OF assms(3), of "?r\<lparr>rsv_charges := cs\<rparr>" k d] e [of k d] by (simp add: held_def s')
  moreover have "rank_of s' = rank_of s" using rank_update [OF assms(3), of "?r\<lparr>rsv_charges := cs\<rparr>"] by (simp add: s')
  ultimately show ?thesis by (simp add: s' map_replace [OF assms(3)])
qed

lemma approval_update_simps:
  assumes "i < length (sta_approvals s)" and "apr_request r = apr_request (sta_approvals s ! i)"
  shows "state_wf (s\<lparr>sta_approvals := (sta_approvals s)[i := r]\<rparr>) = state_wf s"
    and "map apr_request ((sta_approvals s)[i := r]) = map apr_request (sta_approvals s)"
proof -
  show m: "map apr_request ((sta_approvals s)[i := r]) = map apr_request (sta_approvals s)" by (rule map_replace [OF assms])
  have "map (\<lambda>r. apq_request_id (apr_request r)) ((sta_approvals s)[i := r]) = map (\<lambda>r. apq_request_id (apr_request r)) (sta_approvals s)"
    by (rule map_replace [OF assms(1)]) (simp add: assms(2))
  then show "state_wf (s\<lparr>sta_approvals := (sta_approvals s)[i := r]\<rparr>) = state_wf s" by (simp add: state_wf_def)
qed

lemma abandonApprovals_step:
  assumes "abandonApprovals ownerID now is s = Inr s'" and "state_wf s" and "\<forall>i \<in> set is. i < length (sta_approvals s)"
  shows "state_wf s' \<and> held s' k d \<le> held s k d \<and> rank_of s' = rank_of s
    \<and> map rsv_call_id (sta_reservations s') = map rsv_call_id (sta_reservations s)
    \<and> sta_terminal_calls s' = sta_terminal_calls s \<and> sta_budgets s' = sta_budgets s
    \<and> map apr_request (sta_approvals s') = map apr_request (sta_approvals s)"
  using assms
proof (induction "is" arbitrary: s)
  case (Cons i "is")
  let ?r = "sta_approvals s ! i"
  define r where "r = ?r\<lparr>apr_status := StatusUnavailable, apr_updated_at_unix := unix_seconds now\<rparr>"
  show ?case
  proof (cases "abandonApprovals ownerID now is s = Inr s'")
    case True
    then show ?thesis using Cons.IH Cons.prems by simp
  next
    case False
    then obtain j released s1 where j: "reservationIndex (sta_reservations s) (apr_reservation_identity ?r) = Some j"
      and rel: "releaseApprovalCharges s j = Inr (released, s1)"
      and rest: "abandonApprovals ownerID now is (s1\<lparr>sta_approvals := (sta_approvals s1)[i := r]\<rparr>) = Inr s'"
      using Cons.prems(1) by (auto simp: Let_def r_def split: if_splits option.splits sum.splits)
    note one = release_step [OF rel Cons.prems(2)]
    have jl: "j < length (sta_reservations s)" using find_reservation [OF j] by simp
    have i: "i < length (sta_approvals s1)" "apr_request r = apr_request (sta_approvals s1 ! i)"
      using one [OF jl] Cons.prems(3) by (simp_all add: r_def)
    note upd = approval_update_simps [OF i]
    have wf: "state_wf (s1\<lparr>sta_approvals := (sta_approvals s1)[i := r]\<rparr>)" using upd(1) one [OF jl] by simp
    have "\<forall>m \<in> set is. m < length (sta_approvals (s1\<lparr>sta_approvals := (sta_approvals s1)[i := r]\<rparr>))"
      using Cons.prems(3) one [OF jl] by simp
    note IH = Cons.IH [OF rest wf this]
    have "held (s1\<lparr>sta_approvals := a\<rparr>) k d = held s1 k d" "rank_of (s1\<lparr>sta_approvals := a\<rparr>) = rank_of s1" for a
      by (simp_all add: held_def rank_of_def)
    then show ?thesis using IH one [OF jl, of k d] upd(2) by auto
  qed
qed simp

lemma abandonReservations_step:
  assumes "abandonReservations ownerID clock js s = Inr (changed, s')" and "state_wf s"
    and "\<forall>j \<in> set js. j < length (sta_reservations s)"
  shows "state_wf s' \<and> held s' k d \<le> held s k d \<and> rank_of s' \<le> rank_of s \<and> (changed \<longrightarrow> rank_of s' < rank_of s)
    \<and> map rsv_call_id (sta_reservations s') = map rsv_call_id (sta_reservations s)
    \<and> sta_terminal_calls s' = sta_terminal_calls s \<and> sta_approvals s' = sta_approvals s"
  using assms
proof (induction js arbitrary: s changed s')
  case (Cons j js)
  let ?r = "sta_reservations s ! j"
  show ?case
  proof (cases "rsv_owner_id ?r \<noteq> ownerID \<or> rsv_status ?r = ReservationIndeterminate")
    case True
    then show ?thesis using Cons by (simp add: Let_def)
  next
    case False
    then obtain s1 changed' where s1: "(if rsv_status ?r = ReservationReserved then commitDispatch s j else Inr s) = Inr s1"
      and rest: "abandonReservations ownerID clock js (setStatus s1 j ReservationIndeterminate clock) = Inr (changed', s')"
      using Cons.prems(1)
      by (cases "if rsv_status ?r = ReservationReserved then commitDispatch s j else Inr s")
        (auto simp: Let_def elim!: map_sum_InrE split: sum.splits)
    let ?t = "setStatus s1 j ReservationIndeterminate clock"
    have j: "j < length (sta_reservations s)" using Cons.prems(3) by simp
    have one: "state_wf ?t \<and> held ?t k d \<le> held s k d \<and> rank_of ?t < rank_of s
        \<and> map rsv_call_id (sta_reservations ?t) = map rsv_call_id (sta_reservations s)
        \<and> sta_terminal_calls ?t = sta_terminal_calls s \<and> sta_approvals ?t = sta_approvals s"
    proof (cases "rsv_status ?r = ReservationReserved")
      case True
      then show ?thesis using dispatch_step [OF Cons.prems(2) j True, of s1 ReservationIndeterminate clock k d] s1 by simp
    next
      case ns: False
      then have "s1 = s" using s1 by simp
      then show ?thesis
        using strand_step [OF Cons.prems(2) j ns, of clock] False setStatus_held [OF j, of ReservationIndeterminate clock k d] by simp
    qed
    then have "length (sta_reservations ?t) = length (sta_reservations s)" by (metis length_map)
    then have "\<forall>j \<in> set js. j < length (sta_reservations ?t)" using Cons.prems(3) by simp
    note IH = Cons.IH [OF rest conjunct1 [OF one] this]
    then show ?thesis using one by auto
  qed
qed simp

text \<open>What every move does.\<close>

definition call_ids :: "action_state \<Rightarrow> string set" where
  "call_ids s = rsv_call_id ` set (sta_reservations s)"

lemma move_effect:
  assumes "move s t" and "state_wf s"
  shows "state_wf t" and "rank_of t < rank_of s"
    and "held t k d \<le> held s k d
      \<or> d = DeniedCount \<and> (\<exists>r. budgetRecordForLineage (sta_budgets s) k = Some r \<and> held t k d \<le> unat (lim_denied_count (brc_limits r)))"
    and "call_ids t \<subseteq> call_ids s" and "set (sta_terminal_calls s) \<subseteq> set (sta_terminal_calls t)"
    and "call_ids s \<subseteq> call_ids t \<union> trm_call_id ` set (sta_terminal_calls t)"
proof -
  have "state_wf t \<and> rank_of t < rank_of s
      \<and> (held t k d \<le> held s k d \<or> d = DeniedCount
           \<and> (\<exists>r. budgetRecordForLineage (sta_budgets s) k = Some r \<and> held t k d \<le> unat (lim_denied_count (brc_limits r))))
      \<and> call_ids t \<subseteq> call_ids s \<and> set (sta_terminal_calls s) \<subseteq> set (sta_terminal_calls t)
      \<and> call_ids s \<subseteq> call_ids t \<union> trm_call_id ` set (sta_terminal_calls t)"
    using assms
  proof (cases rule: move.cases)
    case (dispatch i s' st clock)
    note one = dispatch_step [OF assms(2) dispatch(2-5), of clock]
    have "call_ids (setStatus s' i st clock) = call_ids s" using one by (simp add: call_ids_def flip: set_map)
    then show ?thesis using one [of k d] by (simp add: dispatch(1) call_ids_def)
  next
    case (strand i clock)
    note one = strand_step [OF assms(2) strand(2-4), of clock]
    have "call_ids (setStatus s i ReservationIndeterminate clock) = call_ids s" using one by (simp add: call_ids_def flip: set_map)
    then show ?thesis using one setStatus_held [OF strand(2), of ReservationIndeterminate clock k d]
      by (simp add: strand(1) call_ids_def)
  next
    case (finish i s' terminal s'' clock)
    note one = finish_step [OF assms(2) finish(2-5)]
    have i: "i < length (sta_reservations s')" using finish(2,3) by (simp add: same_but_consumed_def)
    have h: "held s'' k d + charge_sum (rsv_charges (sta_reservations s ! i)) k d
        = consumed_of (sta_budgets s') k d + reserved_of (sta_reservations s) k d"
      using removal_held [OF finish(4) i, of k d] finish(3) by (simp add: same_but_consumed_def held_def)
    have "held s'' k d \<le> held s k d \<or> d = DeniedCount
        \<and> (\<exists>r. budgetRecordForLineage (sta_budgets s) k = Some r \<and> held s'' k d \<le> unat (lim_denied_count (brc_limits r)))"
      using finish(6) [of k d] h by (fastforce simp: held_def)
    moreover have "call_ids s'' = call_ids s - {trm_call_id terminal}" using one by (simp add: call_ids_def)
    ultimately show ?thesis using one by (auto simp: finish(1) call_ids_def)
  next
    case (abandon ownerID now "is" s' clock js s'')
    note one = abandonApprovals_step [OF abandon(2) assms(2) abandon(5), of k d]
    note two = abandonReservations_step [OF abandon(3) conjunct1 [OF one] abandon(4), of k d]
    have "call_ids s'' = call_ids s" using one two by (simp add: call_ids_def flip: set_map)
    then show ?thesis using one two by (auto simp: abandon(1) call_ids_def)
  qed
  then show "state_wf t" and "rank_of t < rank_of s"
    and "held t k d \<le> held s k d
      \<or> d = DeniedCount \<and> (\<exists>r. budgetRecordForLineage (sta_budgets s) k = Some r \<and> held t k d \<le> unat (lim_denied_count (brc_limits r)))"
    and "call_ids t \<subseteq> call_ids s" and "set (sta_terminal_calls s) \<subseteq> set (sta_terminal_calls t)"
    and "call_ids s \<subseteq> call_ids t \<union> trm_call_id ` set (sta_terminal_calls t)" by auto
qed

text \<open>What is written without an advance is a clock reading.\<close>

lemma written_cases: "written out = Some t \<Longrightarrow> advanced out = Some t \<or> (\<exists>e. out = RefusedObserving t e)"
  by (cases out) simp_all

lemma written_if: "written (if c then a else b) = Some t \<longleftrightarrow> (c \<and> written a = Some t \<or> \<not> c \<and> written b = Some t)"
  by simp

lemma written_try:
  "written (case r of Inl e \<Rightarrow> Refused e | Inr x \<Rightarrow> f x) = Some t \<longleftrightarrow> (\<exists>x. r = Inr x \<and> written (f x) = Some t)"
  by (cases r) simp_all

lemma written_finish:
  "written (finishCall s index terminal clock r) = Some t \<longleftrightarrow>
     (\<exists>s'. removeReservationAndRecord s index terminal = Inr s' \<and> t = applyClock s' clock)"
  by (auto simp: finishCall_def split: sum.splits)

lemma written_observe:
  "written (case c of Some e \<Rightarrow> persistClockObservationOnFailure s clock e | None \<Rightarrow> f) = Some t \<longleftrightarrow>
     (c \<noteq> None \<and> sta_last_observed s < clk_time clock \<and> t = applyClock s clock \<or> c = None \<and> written f = Some t)"
  by (cases c) (auto simp: persistClockObservationOnFailure_def)

lemma written_lookup:
  "written (case r of None \<Rightarrow> Refused e | Some i \<Rightarrow> f i) = Some t \<longleftrightarrow> (\<exists>i. r = Some i \<and> written (f i) = Some t)"
  by (cases r) simp_all

lemmas written_simps = written_if written_try written_finish written_observe written_lookup

lemma written_discard [simp]: "written (discard out) = written out" "advanced (discard out) = advanced out"
  by (cases out; simp)+

text \<open>Whatever an operation writes carries the reading of the clock that it was given.\<close>

lemma transition_clock: "transitionState store obs s v = Inr clock \<Longrightarrow> trustedNow obs s = Inr clock \<and> v = sta_digest s"
  by (auto simp: transitionState_def split: option.splits if_splits)

lemma operate_clock:
  assumes "written (operate store obs s v p) = Some t"
  shows "\<exists>clock s'. trustedNow obs s = Inr clock \<and> v = sta_digest s \<and> t = applyClock s' clock"
proof (cases p)
  case (OpMarkDispatched identity)
  then show ?thesis using assms
    by (auto simp: MarkDispatched_def Let_def written_simps dest!: transition_clock)
next
  case (OpRelease identity)
  then show ?thesis using assms by (auto simp: Release_def written_simps dest!: transition_clock)
next
  case (OpMarkIndeterminate identity)
  then have "written (MarkIndeterminate store obs s identity v) = Some t" using assms by simp
  then show ?thesis
    by (simp only: MarkIndeterminate_def written_simps written.simps option.distinct option.inject) (blast dest: transition_clock)
next
  case (OpSettle identity out actual)
  then have "written (Settle store obs s identity v out actual) = Some t" using assms by simp
  then show ?thesis
    by (simp only: Settle_def written_simps written.simps option.distinct option.inject) (blast dest: transition_clock)
next
  case (OpReconcile identity q)
  then have "written (ReconcileIndeterminate store obs s identity v q) = Some t" using assms by simp
  then show ?thesis
    by (simp only: ReconcileIndeterminate_def Let_def written_simps written.simps option.distinct option.inject)
      (blast dest: transition_clock)
next
  case (OpAbandon ownerID authorization)
  then show ?thesis using assms
    by (auto simp: MarkOwnerAbandoned_def written_simps split: prod.splits if_splits dest!: transition_clock)
next
  case (OpRecordDenied identity)
  then show ?thesis using assms
    by (auto simp: RecordDenied_def Let_def written_simps split: prod.splits if_splits dest!: transition_clock)
qed

text \<open>A write without an advance comes from the one helper that records the clock.\<close>

lemma observing_if: "(if c then a else b) = RefusedObserving t e \<longleftrightarrow> (c \<and> a = RefusedObserving t e \<or> \<not> c \<and> b = RefusedObserving t e)"
  by simp

lemma observing_try:
  "(case r of Inl e \<Rightarrow> Refused e | Inr x \<Rightarrow> f x) = RefusedObserving t e' \<longleftrightarrow> (\<exists>x. r = Inr x \<and> f x = RefusedObserving t e')"
  by (cases r) simp_all

lemma observing_lookup:
  "(case r of None \<Rightarrow> Refused e | Some i \<Rightarrow> f i) = RefusedObserving t e' \<longleftrightarrow> (\<exists>i. r = Some i \<and> f i = RefusedObserving t e')"
  by (cases r) simp_all

lemma observing_helper:
  "(case c of Some e \<Rightarrow> persistClockObservationOnFailure s clock e | None \<Rightarrow> f) = RefusedObserving t e' \<longleftrightarrow>
     (c = Some e' \<and> sta_last_observed s < clk_time clock \<and> t = applyClock s clock \<or> c = None \<and> f = RefusedObserving t e')"
  by (cases c) (auto simp: persistClockObservationOnFailure_def)

lemma observing_finish: "finishCall s index terminal clock r \<noteq> RefusedObserving t e"
  by (auto simp: finishCall_def split: sum.splits)

lemma observing_discard: "discard out = RefusedObserving t e \<longleftrightarrow> out = RefusedObserving t e"
  by (cases out) auto

lemma observing_only_clock:
  assumes "operate store obs s v p = RefusedObserving t e"
  shows "\<exists>clock. t = applyClock s clock"
proof (cases p)
  case (OpRecordDenied identity)
  then show ?thesis using assms
    by (auto simp: observing_discard RecordDenied_def Let_def observing_try observing_lookup observing_helper
        split: if_splits prod.splits)
next
  case (OpReconcile identity q)
  then have "ReconcileIndeterminate store obs s identity v q = RefusedObserving t e" using assms by simp
  then show ?thesis
    by (simp only: ReconcileIndeterminate_def Let_def observing_if observing_try observing_lookup observing_finish
        outcome.distinct simp_thms)
next
  case (OpSettle identity out actual)
  then have "Settle store obs s identity v out actual = RefusedObserving t e" using assms by simp
  then show ?thesis
    by (simp only: Settle_def observing_if observing_try observing_lookup observing_finish outcome.distinct simp_thms)
next
  case (OpMarkIndeterminate identity)
  then have "MarkIndeterminate store obs s identity v = RefusedObserving t e" using assms by simp
  then show ?thesis
    by (simp only: MarkIndeterminate_def observing_if observing_try observing_lookup outcome.distinct simp_thms)
qed (use assms in \<open>auto simp: MarkDispatched_def Release_def MarkOwnerAbandoned_def Let_def observing_try observing_lookup
    observing_helper observing_finish split: if_splits prod.splits\<close>)

lemma operate_effect:
  assumes "written (operate store obs s v p) = Some t" and "state_wf s"
  shows "state_wf t" and "rank_of t \<le> rank_of s"
    and "held t k d \<le> held s k d
      \<or> d = DeniedCount \<and> (\<exists>r. budgetRecordForLineage (sta_budgets s) k = Some r \<and> held t k d \<le> unat (lim_denied_count (brc_limits r)))"
    and "call_ids t \<subseteq> call_ids s" and "set (sta_terminal_calls s) \<subseteq> set (sta_terminal_calls t)"
    and "call_ids s \<subseteq> call_ids t \<union> trm_call_id ` set (sta_terminal_calls t)"
proof -
  consider "move s t" | clock where "t = applyClock s clock"
    using written_cases [OF assms(1)] operate_move assms(2) observing_only_clock by (metis state_wf_def)
  then have "state_wf t \<and> rank_of t \<le> rank_of s
      \<and> (held t k d \<le> held s k d \<or> d = DeniedCount
           \<and> (\<exists>r. budgetRecordForLineage (sta_budgets s) k = Some r \<and> held t k d \<le> unat (lim_denied_count (brc_limits r))))
      \<and> call_ids t \<subseteq> call_ids s \<and> set (sta_terminal_calls s) \<subseteq> set (sta_terminal_calls t)
      \<and> call_ids s \<subseteq> call_ids t \<union> trm_call_id ` set (sta_terminal_calls t)"
  proof cases
    case 1
    note m = move_effect [OF this assms(2)]
    show ?thesis using m(1,2,4-6) m(3) [of k d] by simp
  next
    case 2
    then show ?thesis using assms(2) by (simp add: call_ids_def)
  qed
  then show "state_wf t" and "rank_of t \<le> rank_of s"
    and "held t k d \<le> held s k d
      \<or> d = DeniedCount \<and> (\<exists>r. budgetRecordForLineage (sta_budgets s) k = Some r \<and> held t k d \<le> unat (lim_denied_count (brc_limits r)))"
    and "call_ids t \<subseteq> call_ids s" and "set (sta_terminal_calls s) \<subseteq> set (sta_terminal_calls t)"
    and "call_ids s \<subseteq> call_ids t \<union> trm_call_id ` set (sta_terminal_calls t)" by auto
qed

section \<open>Properties\<close>

definition example_key_id :: string where "example_key_id = replicate 32 (CHR ''0'')"

definition example_store :: action_store where
  "example_store =
     \<lparr>sto_key = \<lparr>ikey_id = example_key_id, ikey_material = replicate 32 0\<rparr>, sto_repository = ''/r'',
      sto_repository_identity = ''repo'', sto_project_key = ''project'', sto_owner_id = ''own''\<rparr>"

definition example_generation :: budget_generation where
  "example_generation =
     \<lparr>gen_policy_digest = ''p'', gen_executable_digest = ''e'', gen_tool_contract_digest = ''t'', gen_key_id = example_key_id\<rparr>"

definition example_record :: budget_record where
  "example_record =
     \<lparr>brc_budget_id = ''calls'', brc_scope_identity = ''scope'', brc_lineage_identity = ''line'',
      brc_scope = \<lparr>scp_repository_identity = ''repo'', scp_principal = ''p'', scp_credential_labels = [],
        scp_server_label = ''s'', scp_server_identity = ''i'', scp_tool_id = ''t'', scp_run_identity = ''absent'',
        scp_session_identity = ''absent'', scp_window_identity = ''absent'', scp_window_start_unix = 0\<rparr>,
      brc_reset = BudgetResetNever, brc_window_seconds = 0,
      brc_limits = noLimits\<lparr>lim_call_count := 5, lim_denied_count := 1, lim_result_bytes := 100\<rparr>,
      brc_consumed = noUsage\<lparr>use_call_count := 1\<rparr>, brc_generation = example_generation,
      brc_generation_history = [example_generation]\<rparr>"

definition example_reservation :: "reservation_status \<Rightarrow> reservation" where
  "example_reservation status =
     \<lparr>rsv_identity = ''res'', rsv_call_id = ''call'', rsv_owner_id = ''own'', rsv_request_identity = ''q'',
      rsv_context_identity = ''c'', rsv_executable_digest = ''e'', rsv_status = status, rsv_created_at_unix = 1,
      rsv_updated_at_unix = 1,
      rsv_charges = [\<lparr>chg_budget_id = ''calls'', chg_scope_identity = ''scope'', chg_lineage_identity = ''line'',
        chg_generation = example_generation,
        chg_reserved = noUsage\<lparr>use_call_count := (if status = ReservationReserved then 1 else 0), use_result_bytes := 50\<rparr>,
        chg_dispatch_committed = (status \<noteq> ReservationReserved), chg_committed_approvals = 0\<rparr>]\<rparr>"

definition example_state :: "reservation_status \<Rightarrow> action_state" where
  "example_state status =
     \<lparr>sta_schema = ''s'', sta_format_version = ''2'', sta_key_id = example_key_id, sta_repository_identity = ''repo'',
      sta_revision = 1, sta_clock_source = ''clock'', sta_last_observed = 1000000000, sta_budgets = [example_record],
      sta_reservations = [example_reservation status], sta_terminal_calls = [], sta_approvals = [], sta_digest = ''d''\<rparr>"

definition example_obs :: observation where
  "example_obs =
     \<lparr>obs_repository = Some (''/r'', ''repo''), obs_clock = Some \<lparr>clk_time = 2000000000, clk_source = ''clock''\<rparr>\<rparr>"

lemma example_wf: "state_wf (example_state status)"
  by (simp add: state_wf_def example_state_def example_reservation_def flags_ok_def)

text \<open>
  C5: every transition keeps the tables sorted and searchable, the calls of live reservations
  distinct and disjoint from the finished calls, and the dispatch marks of a reservation in step
  with its status. A call leaves the live reservations only into the finished calls, and no
  finished call is lost.
\<close>

theorem transition_invariant:
  assumes "state_wf s" and "written (operate store obs s v p) = Some t"
  shows "state_wf t \<and> call_ids t \<subseteq> call_ids s \<and> set (sta_terminal_calls s) \<subseteq> set (sta_terminal_calls t)
    \<and> call_ids s \<subseteq> call_ids t \<union> trm_call_id ` set (sta_terminal_calls t)"
  using operate_effect(1,4-6) [OF assms(2,1)] by simp

theorem transition_invariant_witness:
  "\<exists>t. written (operate example_store example_obs (example_state ReservationReserved) ''d'' (OpRelease ''res'')) = Some t
     \<and> state_wf t \<and> call_ids t = {} \<and> ''call'' \<in> trm_call_id ` set (sta_terminal_calls t)"
proof -
  have w: "map_option (\<lambda>t. map rsv_call_id (sta_reservations t))
      (written (operate example_store example_obs (example_state ReservationReserved) ''d'' (OpRelease ''res''))) = Some []"
    by code_simp
  then obtain t where t: "written (operate example_store example_obs (example_state ReservationReserved) ''d''
      (OpRelease ''res'')) = Some t" and r: "sta_reservations t = []" by auto
  have "call_ids (example_state ReservationReserved) = {''call''}"
    by (simp add: call_ids_def example_state_def example_reservation_def)
  with transition_invariant [OF example_wf t] t r show ?thesis by (auto simp: call_ids_def)
qed

text \<open>
  C16: the transitions of a set of reservations come to an end: each one that advances lowers a
  rank that starts at three for every reservation, so without new reservations at most three
  advances per reservation are possible, whatever the operator asks for.
\<close>

theorem transitions_terminate:
  assumes "state_wf s" and "advanced (operate store obs s v p) = Some t"
  shows "rank_of t < rank_of s \<and> rank_of s \<le> 3 * length (sta_reservations s)"
proof -
  have "move s t" using operate_move [OF assms(2)] assms(1) by (simp add: state_wf_def)
  then have "rank_of t < rank_of s" by (rule move_effect(2) [OF _ assms(1)])
  moreover have "sum_list (map (\<lambda>r. status_rank (rsv_status r)) rs) \<le> 3 * length rs" for rs
  proof (induction rs)
    case (Cons r rs)
    then show ?case by (cases "rsv_status r") simp_all
  qed simp
  ultimately show ?thesis by (simp add: rank_of_def)
qed

theorem transitions_terminate_witness:
  "\<exists>t. advanced (operate example_store example_obs (example_state ReservationReserved) ''d'' (OpMarkDispatched ''res'')) = Some t
     \<and> rank_of t < 3"
proof -
  have "advanced (operate example_store example_obs (example_state ReservationReserved) ''d'' (OpMarkDispatched ''res'')) \<noteq> None"
    by code_simp
  then obtain t where t: "advanced (operate example_store example_obs (example_state ReservationReserved) ''d''
      (OpMarkDispatched ''res'')) = Some t" by auto
  moreover have "rank_of (example_state ReservationReserved) = 3"
    by (simp add: rank_of_def example_state_def example_reservation_def)
  ultimately show ?thesis using transitions_terminate [OF example_wf t] by auto
qed

end
