(* ===== verification/State_Booking.thy ===== *)
theory State_Booking
  imports State_Transition
begin

text \<open>
  What every transition books. The specification gives, for an operation and a reservation, what
  the operation adds to the consumption of a lineage in a dimension and what it takes from the
  reserved amounts; the lemmas show that the code books exactly that, for the reservations the
  operation is about and for no other.
\<close>

section \<open>The specification\<close>









section \<open>The loops over the charges\<close>







section \<open>Operations on one reservation\<close>

definition books :: "action_state \<Rightarrow> action_state \<Rightarrow> string \<Rightarrow> dimension \<Rightarrow> nat \<times> nat \<Rightarrow> bool" where
  "books s t k d b \<longleftrightarrow>
     consumed_of (sta_budgets t) k d = consumed_of (sta_budgets s) k d + fst b
     \<and> reserved_of (sta_reservations t) k d + snd b = reserved_of (sta_reservations s) k d"

lemma books_clock [simp]: "books s (applyClock t clock) = books s t"
  by (intro ext) (simp add: books_def)













definition denial :: "operation \<Rightarrow> bool" where
  "denial p \<longleftrightarrow> (\<exists>identity. p = OpRecordDenied identity)"

lemma denial_simps [simp]:
  "denial (OpRecordDenied identity)" "\<not> denial (OpMarkDispatched identity)" "\<not> denial (OpMarkIndeterminate identity)"
  "\<not> denial (OpRelease identity)" "\<not> denial (OpSettle identity out actual)" "\<not> denial (OpReconcile identity q)"
  "\<not> denial (OpAbandon owner authorization)"
  by (simp_all add: denial_def)


section \<open>Abandonment\<close>




text \<open>Releasing approvals touches nothing but the approval counts of the charges.\<close>

definition lighter :: "reservation \<Rightarrow> reservation \<Rightarrow> bool" where
  "lighter r q \<longleftrightarrow>
     rsv_owner_id q = rsv_owner_id r \<and> rsv_status q = rsv_status r
     \<and> (\<forall>k d. charge_sum (rsv_charges q) k d \<le> charge_sum (rsv_charges r) k d)
     \<and> (\<forall>k d. d \<noteq> ApprovalCount \<longrightarrow> charge_sum (rsv_charges q) k d = charge_sum (rsv_charges r) k d)"

lemma lighter_refl [simp]: "lighter r r"
  by (simp add: lighter_def)












section \<open>Property\<close>






end
