(* ===== verification/State_Context.thy ===== *)
theory State_Context
  imports State_Transition
begin

text \<open>
  The trusted inputs of a reservation (context.go, identity.go): the context an operator binds,
  the authority over the policy and the observation of the downstream server. The lemmas show
  that a context bound under the key of the store is the one the store accepts, and that the
  identities of a bound context and of an observed server use that key.
\<close>

section \<open>Domains\<close>

definition DomainServer :: string where "DomainServer = ''reconc/action/server/v1''"
definition DomainArgv :: string where "DomainArgv = ''reconc/action/argv/v1''"
definition DomainWorkingDirectory :: string where "DomainWorkingDirectory = ''reconc/action/working-directory/v1''"
definition DomainEnvironmentName :: string where "DomainEnvironmentName = ''reconc/action/environment-names/v1''"
definition DomainEnvironment :: string where "DomainEnvironment = ''reconc/action/environment-value/v1''"
definition DomainRun :: string where "DomainRun = ''reconc/action/run/v1''"
definition DomainSession :: string where "DomainSession = ''reconc/action/session/v1''"
definition DomainContext :: string where "DomainContext = ''reconc/action/context/v1''"
definition DomainCredential :: string where "DomainCredential = ''reconc/action/credential/v1''"

lemmas domain_defs =
  DomainServer_def DomainArgv_def DomainWorkingDirectory_def DomainEnvironmentName_def DomainEnvironment_def DomainRun_def DomainSession_def
  DomainContext_def DomainCredential_def DomainBudget_def DomainUpstream_def DomainState_def DomainTransaction_def
  DomainApproval_def

section \<open>The context of the operator\<close>

record credential_binding =
  crb_label :: string
  crb_identity :: string

record operator_context =
  opc_principal :: string
  opc_role :: string
  opc_environment :: string
  opc_credentials :: "credential_binding list"
  opc_server_label :: string
  opc_run_id :: string
  opc_session_id :: string

record bound_context =
  bcx_principal :: string
  bcx_role :: string
  bcx_environment :: string
  bcx_credentials :: "credential_binding list"
  bcx_server_label :: string
  bcx_run_identity :: string
  bcx_session_identity :: string
  bcx_identity :: string
  bcx_provenance :: provenance

definition MaxRunSessionIDBytes :: nat where "MaxRunSessionIDBytes = 128"

definition runSessionIDPattern :: "string \<Rightarrow> bool" where
  "runSessionIDPattern value \<longleftrightarrow>
     1 \<le> length value \<and> length value \<le> 128
     \<and> list_all (\<lambda>c. CHR ''A'' \<le> c \<and> c \<le> CHR ''Z'' \<or> lowerAlnum c \<or> c \<in> set ''._:-'') value"

definition ValidRunSessionID :: "string \<Rightarrow> bool" where
  "ValidRunSessionID value \<longleftrightarrow> length value \<le> MaxRunSessionIDBytes \<and> runSessionIDPattern value"

text \<open>The checks of sorted credentials, each against its predecessor.\<close>

fun checkCredentials :: "string option \<Rightarrow> credential_binding list \<Rightarrow> failure_text option" where
  "checkCredentials previous [] = None"
| "checkCredentials previous (c # cs) =
     (if \<not> SafeLabel (crb_label c) then Some (Plain ''credential label must be an exact safe label'')
      else if crb_identity c \<noteq> [] \<and> \<not> ValidKeyedIdentity (crb_identity c)
      then Some (Plain ''credential identity must use the keyed identity contract'')
      else if previous = Some (crb_label c) then Some (Named ''credential label is duplicated'' (crb_label c))
      else checkCredentials (Some (crb_label c)) cs)"

definition operator_Validate :: "operator_context \<Rightarrow> failure_text option" where
  "operator_Validate c =
     (if \<not> SafeLabel (opc_principal c) then Some (Plain ''principal must be an exact safe label'')
      else
        (case find (\<lambda>(name, value). value \<noteq> [] \<and> \<not> SafeLabel value)
                [(''role'', opc_role c), (''environment'', opc_environment c), (''server_label'', opc_server_label c)] of
           Some (name, value) \<Rightarrow> Some (Plain (name @ '' must be an exact safe label when present''))
         | None \<Rightarrow>
             if opc_server_label c = [] then Some (Plain ''server_label is required'')
             else if opc_run_id c \<noteq> [] \<and> \<not> ValidRunSessionID (opc_run_id c)
             then Some (Plain ''run_id must match [A-Za-z0-9._:-]{1,128}'')
             else if opc_session_id c \<noteq> [] \<and> \<not> ValidRunSessionID (opc_session_id c)
             then Some (Plain ''session_id must match [A-Za-z0-9._:-]{1,128}'')
             else checkCredentials None (sort_key crb_label (opc_credentials c))))"

definition contextIdentity ::
  "identity_key \<Rightarrow> string \<Rightarrow> string \<Rightarrow> string \<Rightarrow> string \<Rightarrow> string \<Rightarrow> string \<Rightarrow> credential_binding list \<Rightarrow> string" where
  "contextIdentity k operator role environment serverLabel runIdentity sessionIdentity credentials =
     key_identity k DomainContext
       ([operator, role, environment, serverLabel, runIdentity, sessionIdentity]
        @ List.concat (map (\<lambda>c. [crb_label c, crb_identity c]) credentials))"

definition operator_Bind :: "operator_context \<Rightarrow> identity_key \<Rightarrow> failure_text + bound_context" where
  "operator_Bind c k =
     (case operator_Validate c of
        Some e \<Rightarrow> Inl e
      | None \<Rightarrow>
          (let credentials = sort_key crb_label (opc_credentials c)
           in if list_ex (\<lambda>r. crb_identity r \<noteq> [] \<and> \<not> identityUsesKey (crb_identity r) (ikey_id k)) credentials
              then Inl (Plain ''credential identity does not use the active identity key'')
              else
                (let run = (if opc_run_id c \<noteq> [] then key_identity k DomainRun [opc_run_id c] else []);
                     session = (if opc_session_id c \<noteq> [] then key_identity k DomainSession [opc_session_id c] else [])
                 in Inr \<lparr>bcx_principal = opc_principal c, bcx_role = opc_role c, bcx_environment = opc_environment c,
                      bcx_credentials = credentials, bcx_server_label = opc_server_label c,
                      bcx_run_identity = run, bcx_session_identity = session,
                      bcx_identity = contextIdentity k (opc_principal c) (opc_role c) (opc_environment c)
                        (opc_server_label c) run session credentials,
                      bcx_provenance = ProvenanceOperatorBound\<rparr>)))"

text \<open>The loop of the store over the credentials of a bound context.\<close>

fun boundCredentialsValid :: "string \<Rightarrow> string option \<Rightarrow> credential_binding list \<Rightarrow> bool" where
  "boundCredentialsValid keyID previous [] \<longleftrightarrow> True"
| "boundCredentialsValid keyID previous (c # cs) \<longleftrightarrow>
     SafeLabel (crb_label c) \<and> (crb_identity c = [] \<or> identityUsesKey (crb_identity c) keyID)
     \<and> (case previous of None \<Rightarrow> True | Some label \<Rightarrow> label < crb_label c)
     \<and> boundCredentialsValid keyID (Some (crb_label c)) cs"

definition validateBoundContext :: "action_store \<Rightarrow> bound_context \<Rightarrow> string \<Rightarrow> state_error option" where
  "validateBoundContext store c serverLabel =
     (let keyID = ikey_id (sto_key store)
      in if bcx_provenance c \<noteq> ProvenanceOperatorBound \<or> \<not> SafeLabel (bcx_principal c)
            \<or> bcx_role c \<noteq> [] \<and> \<not> SafeLabel (bcx_role c)
            \<or> bcx_environment c \<noteq> [] \<and> \<not> SafeLabel (bcx_environment c)
            \<or> bcx_server_label c \<noteq> serverLabel \<or> \<not> SafeLabel (bcx_server_label c)
            \<or> \<not> identityUsesKey (bcx_identity c) keyID
         then Some (ReasonIdentityUnavailable, ''operator-bound action context is invalid'')
         else if \<not> boundCredentialsValid keyID None (bcx_credentials c)
         then Some (ReasonIdentityUnavailable, ''operator credential bindings are invalid'')
         else if list_ex (\<lambda>identity. identity \<noteq> [] \<and> \<not> identityUsesKey identity keyID)
                   [bcx_run_identity c, bcx_session_identity c]
         then Some (ReasonIdentityUnavailable, ''operator run or session identity is invalid'')
         else if bcx_identity c
                   \<noteq> contextIdentity (sto_key store) (bcx_principal c) (bcx_role c) (bcx_environment c)
                       (bcx_server_label c) (bcx_run_identity c) (bcx_session_identity c) (bcx_credentials c)
         then Some (ReasonIdentityUnavailable, ''operator context identity does not match its exact values'')
         else None)"

section \<open>The authority over the policy\<close>

record policy_authority =
  pau_mode :: authority_mode
  pau_expected_lock_digest :: string

definition validLowerHex :: "string \<Rightarrow> nat \<Rightarrow> bool" where
  "validLowerHex value n \<longleftrightarrow> length value = n \<and> list_all lowerHexChar value"

definition policy_Validate :: "policy_authority \<Rightarrow> failure_text option" where
  "policy_Validate a =
     (if pau_mode a = AuthorityOperatorPinned
      then (if \<not> validLowerHex (pau_expected_lock_digest a) 64
            then Some (Plain ''operator_pinned authority requires one exact lowercase lock digest'') else None)
      else if pau_mode a = AuthorityRepositoryManaged
      then (if pau_expected_lock_digest a \<noteq> []
            then Some (Plain ''repository_managed authority forbids an expected lock digest'') else None)
      else Some (Plain ''exactly one explicit policy authority mode is required''))"

definition VerifyLockDigest :: "policy_authority \<Rightarrow> string \<Rightarrow> failure_text option" where
  "VerifyLockDigest a observed =
     (case policy_Validate a of
        Some e \<Rightarrow> Some e
      | None \<Rightarrow>
          if \<not> validLowerHex observed 64 then Some (Plain ''fresh lock digest must be exact lowercase SHA-256'')
          else if pau_mode a = AuthorityOperatorPinned \<and> observed \<noteq> pau_expected_lock_digest a
          then Some (Plain ''fresh lock digest does not match the operator-pinned digest'') else None)"

section \<open>The downstream server\<close>

text \<open>
  The observation of a server on a platform other than Windows, where the canonical form of an
  environment name is the name itself. What the operating system answers is an argument: the
  contents of the resolved executable, and the resolved and cleaned working directory with the
  identity of its file-system object.
\<close>

record observed_environment =
  oen_name :: string
  oen_identity :: string

record observed_server =
  osv_executable_path :: string
  osv_executable_digest :: string
  osv_argv_identity :: string
  osv_working_directory :: string
  osv_working_dir_identity :: string
  osv_environment_names :: "string list"
  osv_environment :: "observed_environment list"
  osv_environment_identity :: string
  osv_server_identity :: string

record os_observation =
  oso_executable :: "(string \<times> string) option"
  oso_directory :: "(string \<times> string \<times> string) option"

definition MaxServerArgvValues :: nat where "MaxServerArgvValues = 4096"
definition MaxServerArgvBytes :: nat where "MaxServerArgvBytes = 1048576"
definition MaxEnvironmentBindings :: nat where "MaxEnvironmentBindings = 4096"
definition MaxEnvironmentBindingBytes :: nat where "MaxEnvironmentBindingBytes = 8388608"
definition MaxEnvironmentNameBytes :: nat where "MaxEnvironmentNameBytes = 256"
definition MaxCredentialIdentityBytes :: nat where "MaxCredentialIdentityBytes = 1048576"

definition validEnvironmentName :: "string \<Rightarrow> bool" where
  "validEnvironmentName name \<longleftrightarrow>
     name \<noteq> [] \<and> length name \<le> MaxEnvironmentNameBytes
     \<and> list_all (\<lambda>c. CHR 0x21 \<le> c \<and> c \<le> CHR 0x7e \<and> c \<noteq> CHR ''='') name"

definition observedServerIdentity :: "identity_key \<Rightarrow> observed_server \<Rightarrow> string" where
  "observedServerIdentity k s =
     key_identity k DomainServer
       ([osv_executable_digest s, osv_argv_identity s, osv_working_dir_identity s, osv_environment_identity s, ikey_id k]
        @ List.concat (map (\<lambda>e. [oen_name e, oen_identity e]) (osv_environment s)))"

fun environmentValid :: "string \<Rightarrow> string option \<Rightarrow> string list \<Rightarrow> observed_environment list \<Rightarrow> bool" where
  "environmentValid keyID previous (n # ns) (e # es) \<longleftrightarrow>
     validEnvironmentName (oen_name e) \<and> oen_name e = n \<and> identityUsesKey (oen_identity e) keyID
     \<and> (case previous of None \<Rightarrow> True | Some name \<Rightarrow> name < oen_name e)
     \<and> environmentValid keyID (Some (oen_name e)) ns es"
| "environmentValid keyID previous ns es \<longleftrightarrow> True"

definition server_Validate :: "observed_server \<Rightarrow> identity_key \<Rightarrow> failure_text option" where
  "server_Validate s k =
     (let keyID = ikey_id k
      in if \<not> ValidSHA256Identity (osv_executable_digest s) \<or> \<not> identityUsesKey (osv_argv_identity s) keyID
            \<or> \<not> identityUsesKey (osv_working_dir_identity s) keyID
            \<or> \<not> identityUsesKey (osv_environment_identity s) keyID
            \<or> \<not> identityUsesKey (osv_server_identity s) keyID
            \<or> length (osv_environment_names s) \<noteq> length (osv_environment s)
            \<or> MaxEnvironmentBindings < length (osv_environment s)
         then Some (Plain ''downstream server identity components are unavailable'')
         else if \<not> environmentValid keyID None (osv_environment_names s) (osv_environment s)
         then Some (Plain ''downstream environment observation is invalid'')
         else if osv_environment_identity s \<noteq> key_identity k DomainEnvironmentName (map oen_name (osv_environment s))
                 \<or> osv_server_identity s \<noteq> observedServerIdentity k s
         then Some (Plain ''downstream server observation identity does not match its exact components'')
         else None)"

fun argvWithin :: "nat \<Rightarrow> string list \<Rightarrow> failure_text option" where
  "argvWithin so_far [] = None"
| "argvWithin so_far (v # vs) =
     (if CHR 0x00 \<in> set v then Some (Plain ''downstream argv contains NUL'')
      else if MaxServerArgvBytes - so_far < length v then Some (Plain ''downstream argv exceeds 1048576 bytes'')
      else argvWithin (so_far + length v) vs)"

definition observeArgv :: "identity_key \<Rightarrow> string \<Rightarrow> string list \<Rightarrow> failure_text + string" where
  "observeArgv k command argv =
     (if MaxServerArgvValues \<le> length argv then Inl (Plain ''downstream argv exceeds 4096 values'')
      else
        (case argvWithin 0 (command # argv) of
           Some e \<Rightarrow> Inl e
         | None \<Rightarrow> Inr (key_identity k DomainArgv (command # argv))))"

fun environmentWithin :: "nat \<Rightarrow> string option \<Rightarrow> (string \<times> string) list \<Rightarrow> failure_text option" where
  "environmentWithin so_far previous [] = None"
| "environmentWithin so_far previous ((name, content) # es) =
     (if \<not> validEnvironmentName name \<or> CHR 0x00 \<in> set content then Some (Plain ''inherited environment entry is invalid'')
      else if MaxEnvironmentBindingBytes - so_far < length name + length content
      then Some (Plain ''inherited environment exceeds 8388608 bytes'')
      else if previous = Some name then Some (Named ''inherited environment name is duplicated'' name)
      else environmentWithin (so_far + (length name + length content)) (Some name) es)"

definition observeEnvironment ::
  "identity_key \<Rightarrow> (string \<times> string) list \<Rightarrow> failure_text + observed_environment list \<times> string" where
  "observeEnvironment k entries =
     (if MaxEnvironmentBindings < length entries then Inl (Plain ''inherited environment exceeds 4096 entries'')
      else
        (let entries = sort_key fst entries
         in case environmentWithin 0 None entries of
              Some e \<Rightarrow> Inl e
            | None \<Rightarrow>
                Inr (map (\<lambda>(name, content).
                       \<lparr>oen_name = name, oen_identity = key_identity k DomainEnvironment [name, content]\<rparr>) entries,
                     key_identity k DomainEnvironmentName (map fst entries))))"

definition ObserveServer ::
  "identity_key \<Rightarrow> os_observation \<Rightarrow> string \<Rightarrow> string list \<Rightarrow> (string \<times> string) list \<Rightarrow> failure_text + observed_server" where
  "ObserveServer k os command argv environment =
     (case oso_executable os of
        None \<Rightarrow> Inl (Plain ''resolve downstream executable'')
      | Some (executable, contents) \<Rightarrow>
          (case observeArgv k command argv of
             Inl e \<Rightarrow> Inl e
           | Inr argvIdentity \<Rightarrow>
               (case oso_directory os of
                  None \<Rightarrow> Inl (Plain ''resolve server working directory'')
                | Some (resolved, cleaned, object) \<Rightarrow>
                    (case observeEnvironment k environment of
                       Inl e \<Rightarrow> Inl e
                     | Inr (observed, environmentIdentity) \<Rightarrow>
                         (let s = \<lparr>osv_executable_path = executable, osv_executable_digest = digestBytes contents,
                                osv_argv_identity = argvIdentity, osv_working_directory = resolved,
                                osv_working_dir_identity = key_identity k DomainWorkingDirectory [cleaned, object],
                                osv_environment_names = map oen_name observed, osv_environment = observed,
                                osv_environment_identity = environmentIdentity, osv_server_identity = []\<rparr>
                          in Inr (s\<lparr>osv_server_identity := observedServerIdentity k s\<rparr>))))))"

definition CredentialIdentity :: "identity_key \<Rightarrow> string \<Rightarrow> string \<Rightarrow> string option" where
  "CredentialIdentity k label secret =
     (if \<not> SafeLabel label \<or> secret = [] \<or> MaxCredentialIdentityBytes < length secret then None
      else Some (key_identity k DomainCredential [label, secret]))"

section \<open>Identities use their key\<close>

lemma hex_bytes_lower: "list_all lowerHexChar (hex_bytes bytes)"
proof -
  have "unat (drop_bit 4 b) < 16" for b :: "8 word"
  proof -
    have "unat b < 256" using unsigned_less [of b, where ?'a = nat] by simp
    moreover have "unat (drop_bit 4 b) = unat b div 16" by (subst unat_drop_bit_eq) (simp add: drop_bit_eq_div)
    ultimately show ?thesis by simp
  qed
  moreover have "unat (b AND 15) < 16" for b :: "8 word"
  proof -
    have "b AND 15 \<le> 15" by (rule word_and_le1)
    then have "unat (b AND 15) \<le> unat (15 :: 8 word)" by (simp only: word_le_nat_alt)
    then show ?thesis by simp
  qed
  ultimately show ?thesis by (induction bytes) (simp_all add: hex_bytes_def hexDigit_lower)
qed

lemma hex_bytes_length [simp]: "length (hex_bytes bytes) = 2 * length bytes"
  by (induction bytes) (simp_all add: hex_bytes_def)

lemma key_identity_uses:
  assumes "validKeyedIdentityKeyID (ikey_id k)" and "domain_valid domain"
  shows "identityUsesKey (key_identity k domain parts) (ikey_id k)"
proof -
  let ?h = "hex_bytes (hmac_sha256 (ikey_material k) (framed (domain # parts)))"
  have "length (''hmac-sha256:v1:'' :: string) = 15" by simp
  moreover have "length ?h = 64" by (simp add: hmac_sha256_def)
  moreover define p where "p = (''hmac-sha256:v1:'' :: string)"
  ultimately show ?thesis
    using assms hex_bytes_lower [of "hmac_sha256 (ikey_material k) (framed (domain # parts))"]
    unfolding identityUsesKey_def key_identity_def p_def [symmetric]
    by (simp add: nth_append)
qed

lemma kebab_key: "kebabLabel 32 k \<longleftrightarrow> validKeyedIdentityKeyID k"
proof (cases k)
  case (Cons c cs)
  have "lowerAlnum x \<longleftrightarrow> x \<noteq> CHR ''-''" if "x \<in> set k" "\<forall>x \<in> set k. lowerAlnum x \<or> x = CHR ''-''" for x
    using that by (auto simp: lowerAlnum_def less_eq_char_def)
  then have "lowerAlnum (hd k) \<longleftrightarrow> hd k \<noteq> CHR ''-''" "lowerAlnum (last k) \<longleftrightarrow> last k \<noteq> CHR ''-''"
    if "\<forall>x \<in> set k. lowerAlnum x \<or> x = CHR ''-''"
    using that Cons by simp_all
  then show ?thesis unfolding kebabLabel_def validKeyedIdentityKeyID_def list_all_iff by blast
qed (simp add: kebabLabel_def validKeyedIdentityKeyID_def)

lemma uses_key_iff: "identityUsesKey v k \<longleftrightarrow> KeyedIdentityKeyID v = Some k"
proof -
  have len: "length hmacPrefix = 15" and prefix: "hmacPrefix = ''hmac-sha256:v1:''" by (simp_all add: hmacPrefix_def)
  show ?thesis
  proof
    assume u: "identityUsesKey v k"
    let ?d = "drop (15 + length k + 1) v"
    have "v = take 15 v @ take (length k) (drop 15 v) @ drop (15 + length k) v"
      by (metis add.commute append_take_drop_id drop_drop)
    moreover have "drop (15 + length k) v = v ! (15 + length k) # ?d"
      using u Cons_nth_drop_Suc [of "15 + length k" v] by (simp add: identityUsesKey_def)
    ultimately have "v = hmacPrefix @ k @ '':'' @ ?d" using u by (simp add: identityUsesKey_def prefix)
    moreover have "kebabLabel 32 k" "lowerHexLength ?d 64"
      using u by (simp_all add: identityUsesKey_def kebab_key lowerHexLength_def)
    ultimately show "KeyedIdentityKeyID v = Some k" unfolding key_id_iff by blast
  next
    assume "KeyedIdentityKeyID v = Some k"
    then obtain d where v: "v = hmacPrefix @ k @ '':'' @ d" and "validKeyedIdentityKeyID k" "length d = 64" "list_all lowerHexChar d"
      unfolding key_id_iff kebab_key lowerHexLength_def by blast
    then show "identityUsesKey v k" by (simp add: identityUsesKey_def prefix [symmetric] len nth_append)
  qed
qed

lemma hex_no_dash: "lowerHexChar c \<Longrightarrow> lowerAlnum c \<and> c \<noteq> CHR ''-''"
  by (auto simp: lowerHexChar_def lowerAlnum_def less_eq_char_def)

lemma newIdentityKey_id:
  assumes "newIdentityKey material = Some k"
  shows "validKeyedIdentityKeyID (ikey_id k)"
proof -
  let ?id = "hex_bytes (take 16 (sha256_bytes (byte_text material)))"
  have id: "ikey_id k = ?id" using assms by (auto simp: newIdentityKey_def split: if_splits)
  have len: "length ?id = 32" by simp
  then have ne: "?id \<noteq> []" by (metis length_0_conv zero_neq_numeral)
  have all: "lowerHexChar c" if "c \<in> set ?id" for c using that hex_bytes_lower by (metis list_all_iff)
  have "hd ?id \<noteq> CHR ''-''" "last ?id \<noteq> CHR ''-''"
    using hex_no_dash [OF all [OF hd_in_set [OF ne]]] hex_no_dash [OF all [OF last_in_set [OF ne]]] by simp_all
  moreover have "list_all (\<lambda>c. lowerAlnum c \<or> c = CHR ''-'') ?id" using all hex_no_dash by (simp only: list_all_iff) blast
  ultimately show ?thesis unfolding id validKeyedIdentityKeyID_def using len ne by simp
qed

lemma domain_valid_simps [simp]:
  "domain_valid DomainServer" "domain_valid DomainArgv" "domain_valid DomainWorkingDirectory"
  "domain_valid DomainEnvironmentName" "domain_valid DomainEnvironment" "domain_valid DomainRun"
  "domain_valid DomainSession" "domain_valid DomainContext" "domain_valid DomainCredential"
  "domain_valid DomainBudget" "domain_valid DomainUpstream" "domain_valid DomainState"
  "domain_valid DomainTransaction" "domain_valid DomainApproval"
  by (simp_all add: domain_valid_def identity_domains_def domain_defs)

section \<open>What is bound is accepted\<close>

lemma checkCredentials_bound:
  assumes "checkCredentials previous cs = None" and "sorted (map crb_label cs)"
    and "case previous of None \<Rightarrow> True | Some l \<Rightarrow> cs = [] \<or> l \<le> crb_label (hd cs)"
    and "\<not> list_ex (\<lambda>r. crb_identity r \<noteq> [] \<and> \<not> identityUsesKey (crb_identity r) keyID) cs"
  shows "boundCredentialsValid keyID previous cs"
  using assms
proof (induction cs arbitrary: previous)
  case (Cons c cs)
  have "boundCredentialsValid keyID (Some (crb_label c)) cs"
    by (rule Cons.IH; (use Cons.prems in \<open>cases cs; auto split: if_splits\<close>))
  moreover have "case previous of None \<Rightarrow> True | Some l \<Rightarrow> l < crb_label c"
    using Cons.prems(1,3) by (auto split: if_splits option.splits)
  ultimately show ?case using Cons.prems(1,4) by (auto split: if_splits)
qed simp

lemma boundCredentials_labels:
  "boundCredentialsValid keyID previous cs \<Longrightarrow> sorted_wrt (<) (map crb_label cs)
     \<and> (\<forall>l c. previous = Some l \<longrightarrow> c \<in> set cs \<longrightarrow> l < crb_label c) \<and> list_all (\<lambda>c. SafeLabel (crb_label c)) cs"
proof (induction cs arbitrary: previous)
  case (Cons c cs)
  then have IH: "sorted_wrt (<) (map crb_label cs)" "\<And>d. d \<in> set cs \<Longrightarrow> crb_label c < crb_label d"
    "list_all (\<lambda>c. SafeLabel (crb_label c)) cs" using Cons.IH [of "Some (crb_label c)"] by auto
  then show ?case using Cons.prems by (auto intro: order.strict_trans)
qed simp

lemma operator_bound:
  assumes "validKeyedIdentityKeyID (ikey_id k)" and "operator_Bind c k = Inr b"
    and "sto_key store = k"
  shows "validateBoundContext store b (opc_server_label c) = None"
proof -
  let ?cs = "sort_key crb_label (opc_credentials c)"
  have v: "operator_Validate c = None"
    and u: "\<not> list_ex (\<lambda>r. crb_identity r \<noteq> [] \<and> \<not> identityUsesKey (crb_identity r) (ikey_id k)) ?cs"
    and b: "b = \<lparr>bcx_principal = opc_principal c, bcx_role = opc_role c, bcx_environment = opc_environment c,
       bcx_credentials = ?cs, bcx_server_label = opc_server_label c,
       bcx_run_identity = (if opc_run_id c \<noteq> [] then key_identity k DomainRun [opc_run_id c] else []),
       bcx_session_identity = (if opc_session_id c \<noteq> [] then key_identity k DomainSession [opc_session_id c] else []),
       bcx_identity = contextIdentity k (opc_principal c) (opc_role c) (opc_environment c) (opc_server_label c)
         (if opc_run_id c \<noteq> [] then key_identity k DomainRun [opc_run_id c] else [])
         (if opc_session_id c \<noteq> [] then key_identity k DomainSession [opc_session_id c] else []) ?cs,
       bcx_provenance = ProvenanceOperatorBound\<rparr>"
    using assms(2) by (auto simp: operator_Bind_def Let_def split: option.splits if_splits)
  have p: "SafeLabel (opc_principal c)" "opc_role c = [] \<or> SafeLabel (opc_role c)"
    "opc_environment c = [] \<or> SafeLabel (opc_environment c)" "SafeLabel (opc_server_label c)"
    and cc: "checkCredentials None ?cs = None"
    using v by (auto simp: operator_Validate_def split: if_splits)
  have "boundCredentialsValid (ikey_id k) None ?cs" by (rule checkCredentials_bound [OF cc _ _ u]) simp_all
  then show ?thesis using p key_identity_uses [OF assms(1)]
    by (auto simp: validateBoundContext_def b assms(3) contextIdentity_def)
qed

lemma environmentWithin_valid:
  assumes "environmentWithin n previous es = None" and "sorted (map fst es)"
    and "case previous of None \<Rightarrow> True | Some l \<Rightarrow> es = [] \<or> l \<le> fst (hd es)"
    and "validKeyedIdentityKeyID (ikey_id k)"
  shows "environmentValid (ikey_id k) previous (map fst es)
    (map (\<lambda>(name, content). \<lparr>oen_name = name, oen_identity = key_identity k DomainEnvironment [name, content]\<rparr>) es)"
  using assms(1-3)
proof (induction es arbitrary: n previous)
  case (Cons e es)
  obtain name content where e: "e = (name, content)" by (cases e)
  have IH: "environmentWithin (n + (length name + length content)) (Some name) es = None"
    using Cons.prems(1) by (auto simp: e split: if_splits)
  have "environmentValid (ikey_id k) (Some name) (map fst es)
      (map (\<lambda>(name, content). \<lparr>oen_name = name, oen_identity = key_identity k DomainEnvironment [name, content]\<rparr>) es)"
    by (rule Cons.IH [OF IH]; (use Cons.prems(2) in \<open>cases es; auto simp: e\<close>))
  moreover have "case previous of None \<Rightarrow> True | Some l \<Rightarrow> l < name"
    using Cons.prems(1,3) by (auto simp: e split: if_splits option.splits)
  ultimately show ?case using Cons.prems(1) key_identity_uses [OF assms(4)]
    by (cases previous) (auto simp: e split: if_splits)
qed simp

lemma observed_server_ok:
  assumes k: "validKeyedIdentityKeyID (ikey_id k)" and "ObserveServer k os command argv environment = Inr s"
  shows "server_Validate s k = None"
proof -
  let ?es = "sort_key fst environment"
  let ?obs = "map (\<lambda>(name, content). \<lparr>oen_name = name, oen_identity = key_identity k DomainEnvironment [name, content]\<rparr>) ?es"
  obtain executable contents argvIdentity resolved cleaned object where o: "observeArgv k command argv = Inr argvIdentity"
    and e: "environmentWithin 0 None ?es = None" "length environment \<le> MaxEnvironmentBindings"
    and s: "s = (let s = \<lparr>osv_executable_path = executable, osv_executable_digest = digestBytes contents,
        osv_argv_identity = argvIdentity, osv_working_directory = resolved,
        osv_working_dir_identity = key_identity k DomainWorkingDirectory [cleaned, object],
        osv_environment_names = map oen_name ?obs, osv_environment = ?obs,
        osv_environment_identity = key_identity k DomainEnvironmentName (map fst ?es), osv_server_identity = []\<rparr>
       in s\<lparr>osv_server_identity := observedServerIdentity k s\<rparr>)"
    using assms(2) by (auto simp: ObserveServer_def observeEnvironment_def Let_def split: option.splits sum.splits if_splits prod.splits)
  have names: "map oen_name ?obs = map fst ?es" by (simp add: case_prod_beta comp_def)
  have argv: "identityUsesKey argvIdentity (ikey_id k)"
    using o key_identity_uses [OF k] by (auto simp: observeArgv_def split: if_splits option.splits)
  have env: "environmentValid (ikey_id k) None (map fst ?es) ?obs"
    by (rule environmentWithin_valid [OF e(1) _ _ k]) simp_all
  have uses: "identityUsesKey (observedServerIdentity k x) (ikey_id k)" for x
    by (simp add: observedServerIdentity_def key_identity_uses [OF k])
  show ?thesis using argv env e(2) digest_is_identity key_identity_uses [OF k]
    by (simp add: s Let_def server_Validate_def uses names del: map_map) (simp add: observedServerIdentity_def)
qed

section \<open>Properties\<close>

text \<open>
  C17: the check of the store that an identity uses its key, byte by byte, accepts exactly the
  identities from which the key identifier is read, so a valid keyed identity uses one key.
\<close>

theorem identity_uses_key_iff:
  "(identityUsesKey v k \<longleftrightarrow> KeyedIdentityKeyID v = Some k)
   \<and> (ValidKeyedIdentity v \<longleftrightarrow> (\<exists>k. identityUsesKey v k))"
  using uses_key_iff keyed_has_key by simp

text \<open>
  C18: a context bound under the key of a store is the context the store accepts for that server: the
  identities it carries use the key, its credentials are strictly sorted and its identity
  recomputes from its parts.
\<close>

theorem bound_context_accepted:
  assumes "newIdentityKey material = Some k" and "operator_Bind c k = Inr b" and "sto_key store = k"
  shows "validateBoundContext store b (opc_server_label c) = None
    \<and> sorted_wrt (<) (map crb_label (bcx_credentials b)) \<and> identityUsesKey (bcx_identity b) (ikey_id k)"
proof -
  have v: "validateBoundContext store b (opc_server_label c) = None"
    by (rule operator_bound [OF newIdentityKey_id [OF assms(1)] assms(2,3)])
  then have "boundCredentialsValid (ikey_id k) None (bcx_credentials b)" "identityUsesKey (bcx_identity b) (ikey_id k)"
    using assms(3) by (auto simp: validateBoundContext_def Let_def split: if_splits)
  then show ?thesis using v boundCredentials_labels by blast
qed

theorem bound_context_accepted_witness:
  "\<exists>k b. operator_Bind
         \<lparr>opc_principal = ''ci'', opc_role = [], opc_environment = [], opc_credentials = [\<lparr>crb_label = ''a'', crb_identity = []\<rparr>],
           opc_server_label = ''s'', opc_run_id = ''r'', opc_session_id = []\<rparr> k = Inr b
     \<and> validateBoundContext \<lparr>sto_key = k, sto_repository = [], sto_repository_identity = [], sto_project_key = [], sto_owner_id = []\<rparr> b ''s'' = None"
    (is "\<exists>k b. operator_Bind ?c k = Inr b \<and> _")
proof -
  obtain k where k: "newIdentityKey (replicate 32 0) = Some k" by (simp add: newIdentityKey_def)
  have "operator_Validate ?c = None" by code_simp
  then obtain b where "operator_Bind ?c k = Inr b" by (simp add: operator_Bind_def Let_def)
  with bound_context_accepted [OF k this, of "\<lparr>sto_key = k, sto_repository = [], sto_repository_identity = [], sto_project_key = [], sto_owner_id = []\<rparr>"]
  show ?thesis by auto
qed

text \<open>
  The observation the store takes of a downstream server passes the validation it repeats before
  every reservation, whatever the command, its arguments and its environment are.
\<close>

theorem observed_server_accepted:
  assumes "newIdentityKey material = Some k" and "ObserveServer k os command argv environment = Inr s"
  shows "server_Validate s k = None"
  by (rule observed_server_ok [OF newIdentityKey_id [OF assms(1)] assms(2)])

theorem observed_server_accepted_witness:
  "\<exists>k s. newIdentityKey (replicate 32 0) = Some k
     \<and> ObserveServer k \<lparr>oso_executable = Some (''/bin/s'', ''x''), oso_directory = Some (''/w'', ''/w'', ''1'')\<rparr> ''s'' [''a'']
          [(''PATH'', ''/bin'')] = Inr s
     \<and> server_Validate s k = None"
proof -
  obtain k where k: "newIdentityKey (replicate 32 0) = Some k" by (simp add: newIdentityKey_def)
  have "environmentWithin 0 None (sort_key fst [(''PATH'', ''/bin'')]) = None"
    "argvWithin 0 [''s'', ''a''] = None"
    by (simp_all add: validEnvironmentName_def MaxEnvironmentBindingBytes_def MaxEnvironmentNameBytes_def
        MaxServerArgvBytes_def less_eq_char_def)
  then obtain s where "ObserveServer k \<lparr>oso_executable = Some (''/bin/s'', ''x''), oso_directory = Some (''/w'', ''/w'', ''1'')\<rparr>
      ''s'' [''a''] [(''PATH'', ''/bin'')] = Inr s"
    by (simp only: ObserveServer_def observeArgv_def observeEnvironment_def) (simp add: Let_def MaxServerArgvValues_def MaxEnvironmentBindings_def)
  with observed_server_accepted [OF k this] k show ?thesis by auto
qed

end
