(* ===== verification/Approval_Request.thy ===== *)
theory Approval_Request
  imports State_Context
begin

text \<open>
  The validation of an approval request (package actionapproval: types.go, canonical.go) with the
  strict unpadded base64url of its nonce. Parsing and printing a timestamp are the time package's,
  a parameter. The lemmas show that decoding base64url inverts encoding it.
\<close>

section \<open>Timestamps\<close>

text \<open>
  \<open>time.Parse\<close> and \<open>Format\<close> in UTC with the layout RFC3339Nano; an instant is nanoseconds since
  the epoch, and the zero time of the package is the first instant of the year one.
\<close>

record time_library =
  tim_parse :: "string \<Rightarrow> int option"
  tim_format :: "int \<Rightarrow> string"

definition zero_instant :: int where "zero_instant = - 62135596800 * 1000000000"

definition parseCanonicalTime :: "time_library \<Rightarrow> string \<Rightarrow> int option" where
  "parseCanonicalTime lib value =
     (case tim_parse lib value of
        None \<Rightarrow> None
      | Some parsed \<Rightarrow> if parsed = zero_instant \<or> value \<noteq> tim_format lib parsed then None else Some parsed)"

section \<open>Base64url\<close>

definition base64Alphabet :: string where
  "base64Alphabet = ''ABCDEFGHIJKLMNOPQRSTUVWXYZabcdefghijklmnopqrstuvwxyz0123456789-_''"

text \<open>Groups of four digits; a group that is cut short must not carry bits past its bytes.\<close>

fun decodeQuads :: "nat list \<Rightarrow> string option" where
  "decodeQuads [] = Some []"
| "decodeQuads [a] = None"
| "decodeQuads [a, b] = (if b mod 16 \<noteq> 0 then None else Some [char_of (4 * a + b div 16)])"
| "decodeQuads [a, b, c] =
     (if c mod 4 \<noteq> 0 then None
      else Some [char_of (4 * a + b div 16), char_of (16 * (b mod 16) + c div 4)])"
| "decodeQuads (a # b # c # d # ds) =
     map_option (\<lambda>bytes.
       [char_of (4 * a + b div 16), char_of (16 * (b mod 16) + c div 4), char_of (64 * (c mod 4) + d)] @ bytes)
       (decodeQuads ds)"

fun digits_of :: "string \<Rightarrow> nat list option" where
  "digits_of [] = Some []"
| "digits_of (c # cs) =
     (case indexByte base64Alphabet c of
        None \<Rightarrow> None
      | Some d \<Rightarrow> map_option (\<lambda>ds. d # ds) (digits_of cs))"

text \<open>The decoder of the library skips line breaks.\<close>

definition rawURLDecode :: "string \<Rightarrow> string option" where
  "rawURLDecode s =
     (case digits_of (filter (\<lambda>c. c \<noteq> CHR 0x0A \<and> c \<noteq> CHR 0x0D) s) of None \<Rightarrow> None | Some ds \<Rightarrow> decodeQuads ds)"

fun encodeQuads :: "nat list \<Rightarrow> nat list" where
  "encodeQuads [] = []"
| "encodeQuads [x] = [x div 4, 16 * (x mod 4)]"
| "encodeQuads [x, y] = [x div 4, 16 * (x mod 4) + y div 16, 4 * (y mod 16)]"
| "encodeQuads (x # y # z # bytes) =
     [x div 4, 16 * (x mod 4) + y div 16, 4 * (y mod 16) + z div 64, z mod 64] @ encodeQuads bytes"

definition rawURLEncode :: "string \<Rightarrow> string" where
  "rawURLEncode bytes = map (\<lambda>d. base64Alphabet ! d) (encodeQuads (map of_char bytes))"

section \<open>The request\<close>

definition RequestSchema :: string where "RequestSchema = ''reconc.action-approval-request/v1''"
definition ApprovalFormatVersion :: string where "ApprovalFormatVersion = ''1''"
definition MaxSelectedArguments :: nat where "MaxSelectedArguments = 256"
definition MaxApprovalRuleIDs :: nat where "MaxApprovalRuleIDs = 256"
definition MaximumApprovalTTL :: int where "MaximumApprovalTTL = 120 * 1000000000"

definition base32Lower :: "char \<Rightarrow> bool" where
  "base32Lower c \<longleftrightarrow> CHR ''a'' \<le> c \<and> c \<le> CHR ''z'' \<or> CHR ''2'' \<le> c \<and> c \<le> CHR ''7''"

definition validPrefixedID :: "string \<Rightarrow> string \<Rightarrow> bool" where
  "validPrefixedID value prefix \<longleftrightarrow>
     length value = length prefix + 26 \<and> hasPrefix value prefix \<and> list_all base32Lower (drop (length prefix) value)"

definition apq_validCallID :: "string \<Rightarrow> bool" where
  "apq_validCallID value \<longleftrightarrow> validPrefixedID value ''act_''"

definition apq_validToolName :: "string \<Rightarrow> bool" where
  "apq_validToolName value \<longleftrightarrow>
     value \<noteq> [] \<and> length value \<le> MaxToolNameBytes \<and> validString value
     \<and> list_all (\<lambda>r. \<not> (r = 0 \<or> isControl r)) (runes value)"

definition validOpaqueBinding :: "string \<Rightarrow> bool" where
  "validOpaqueBinding value \<longleftrightarrow>
     value \<noteq> [] \<and> length value \<le> 256
     \<and> list_all (\<lambda>c. CHR ''A'' \<le> c \<and> c \<le> CHR ''Z'' \<or> lowerAlnum c \<or> c \<in> set ''._:-'') value"

text \<open>Every entry passes and differs from its predecessor; the list is sorted.\<close>

definition validateSafeLabels :: "string list \<Rightarrow> nat \<Rightarrow> bool" where
  "validateSafeLabels values maximum \<longleftrightarrow> length values \<le> maximum \<and> sorted values \<and> distinctRun SafeLabel values"

fun validPointerState :: "pointer_state \<Rightarrow> bool" where
  "validPointerState PointerUnset = False"
| "validPointerState s = True"

definition validSelectedKind :: "pointer_state \<Rightarrow> value_kind option \<Rightarrow> bool" where
  "validSelectedKind state kind =
     (if state \<noteq> PointerPresent \<and> state \<noteq> PointerNull then kind = None
      else kind \<noteq> None \<and> kind \<noteq> Some ValueKindUnset)"

fun selectedArgumentsValid :: "string option \<Rightarrow> selected_argument list \<Rightarrow> bool" where
  "selectedArgumentsValid previous [] \<longleftrightarrow> True"
| "selectedArgumentsValid previous (a # as) \<longleftrightarrow>
     \<not> isl (CompilePointer (sel_pointer a)) \<and> validPointerState (sel_state a)
     \<and> validSelectedKind (sel_state a) (sel_kind a) \<and> ValidKeyedIdentity (sel_identity a)
     \<and> (case previous of None \<Rightarrow> True | Some pointer \<Rightarrow> pointer < sel_pointer a)
     \<and> \<not> (sel_state a \<noteq> PointerPresent \<and> sel_state a \<noteq> PointerNull \<and> (sel_kind a \<noteq> None \<or> sel_byte_length a \<noteq> 0))
     \<and> \<not> ((sel_state a = PointerPresent \<or> sel_state a = PointerNull) \<and> sel_byte_length a = 0)
     \<and> selectedArgumentsValid (Some (sel_pointer a)) as"

definition approval_Validate :: "time_library \<Rightarrow> approval_request \<Rightarrow> bool" where
  "approval_Validate lib r \<longleftrightarrow>
     apq_schema r = RequestSchema \<and> apq_format_version r = ApprovalFormatVersion
     \<and> validPrefixedID (apq_request_id r) ''apr_'' \<and> apq_validCallID (apq_call_id r)
     \<and> ValidKeyedIdentity (apq_request_identity r) \<and> ValidSHA256Identity (apq_required_approval_identity r)
     \<and> ValidSHA256Identity (apq_plan_identity r) \<and> validLowerHex (apq_source_identity r) 64
     \<and> ValidKeyedIdentity (apq_repository_identity r) \<and> ValidKeyedIdentity (apq_state_version r)
     \<and> validLowerHex (apq_policy_digest r) 64 \<and> validLowerHex (apq_lock_digest r) 64
     \<and> ValidSHA256Identity (apq_executable_digest r) \<and> SafeLabel (apq_server_label r)
     \<and> ValidKeyedIdentity (apq_server_fingerprint r) \<and> SafeLabel (apq_tool_id r)
     \<and> apq_validToolName (apq_tool r) \<and> ValidSHA256Identity (apq_tool_contract_digest r)
     \<and> (apq_phase r = PhasePreCall \<or> apq_phase r = PhasePostResult)
     \<and> SafeLabel (apq_principal r) \<and> ValidKeyedIdentity (apq_context_identity r)
     \<and> validOpaqueBinding (apq_taint_identity r) \<and> validOpaqueBinding (apq_repository_effect_identity r)
     \<and> SafeLabel (apq_authority_policy_id r) \<and> apq_reason_code r = ReasonApprovalRequired
     \<and> (apq_budget_reservation_id r = ''absent'' \<or> ValidKeyedIdentity (apq_budget_reservation_id r))
     \<and> validateSafeLabels (apq_credential_labels r) MaxCredentialLabels
     \<and> validateSafeLabels (apq_rule_ids r) MaxApprovalRuleIDs
     \<and> length (apq_selected_arguments r) \<le> MaxSelectedArguments
     \<and> selectedArgumentsValid None (apq_selected_arguments r)
     \<and> (case (parseCanonicalTime lib (apq_issued_at r), parseCanonicalTime lib (apq_expires_at r)) of
          (Some issued, Some expires) \<Rightarrow> issued < expires \<and> expires - issued \<le> MaximumApprovalTTL
        | _ \<Rightarrow> False)
     \<and> (case rawURLDecode (apq_nonce r) of
          None \<Rightarrow> False
        | Some nonce \<Rightarrow> length nonce = 32 \<and> rawURLEncode nonce = apq_nonce r)"

section \<open>Decoding inverts encoding\<close>

lemma base64Alphabet_length: "length base64Alphabet = 64"
  by (simp add: base64Alphabet_def)

lemma encodeQuads_digits: "list_all (\<lambda>x. x < 256) xs \<Longrightarrow> list_all (\<lambda>d. d < 64) (encodeQuads xs)"
  by (induction xs rule: encodeQuads.induct) auto

lemma first_byte: "y < 256 \<Longrightarrow> 4 * (x div 4) + (16 * (x mod 4) + y div 16) div 16 = x" for x y :: nat
proof -
  assume "y < 256"
  then have "y div 16 < 16" by (simp add: less_mult_imp_div_less)
  then show ?thesis by simp
qed

lemma second_byte: "y < 256 \<Longrightarrow> z < 256 \<Longrightarrow>
    16 * ((16 * (x mod 4) + y div 16) mod 16) + (4 * (y mod 16) + z div 64) div 4 = y" for x y z :: nat
proof -
  assume "y < 256" and "z < 256"
  then have "y div 16 < 16" "z div 64 < 4" by (simp_all add: less_mult_imp_div_less)
  then show ?thesis by simp
qed

lemma third_byte: "z < 256 \<Longrightarrow> 64 * ((4 * (y mod 16) + z div 64) mod 4) + z mod 64 = z" for y z :: nat
proof -
  assume "z < 256"
  then have "z div 64 < 4" by (simp add: less_mult_imp_div_less)
  then show ?thesis by simp
qed

lemma decode_encode_quads:
  "list_all (\<lambda>x. x < 256) xs \<Longrightarrow> decodeQuads (encodeQuads xs) = Some (map char_of xs)"
proof (induction xs rule: encodeQuads.induct)
  case (2 x)
  then show ?case using first_byte [of 0 x] by simp
next
  case (3 x y)
  then show ?case using first_byte [of y x] second_byte [of y 0 x] by simp
next
  case (4 x y z bytes)
  then show ?case using first_byte [of y x] second_byte [of y z x] third_byte [of z y] by simp
qed simp

lemma digits_of_alphabet:
  "list_all (\<lambda>d. d < 64) ds \<Longrightarrow> digits_of (map (\<lambda>d. base64Alphabet ! d) ds) = Some ds"
proof (induction ds)
  case (Cons d ds)
  have "indexByte base64Alphabet (base64Alphabet ! d) = Some d" if "d < 64"
  proof -
    have "list_all (\<lambda>d. indexByte base64Alphabet (base64Alphabet ! d) = Some d) [0..<64]" by code_simp
    then show ?thesis using that by (auto simp: list_all_iff)
  qed
  then show ?case using Cons by simp
qed simp

lemma rawURLDecode_encode: "rawURLDecode (rawURLEncode bytes) = Some bytes"
proof -
  let ?xs = "map of_char bytes :: nat list"
  have b: "list_all (\<lambda>x. x < 256) ?xs" by (simp add: list_all_iff)
  note d = encodeQuads_digits [OF b]
  have "c \<noteq> CHR 0x0A \<and> c \<noteq> CHR 0x0D" if "c \<in> set base64Alphabet" for c
    using that by (auto simp: base64Alphabet_def)
  moreover have "base64Alphabet ! e \<in> set base64Alphabet" if "e \<in> set (encodeQuads ?xs)" for e
    using d that by (auto simp: list_all_iff base64Alphabet_length)
  ultimately have "filter (\<lambda>c. c \<noteq> CHR 0x0A \<and> c \<noteq> CHR 0x0D) (rawURLEncode bytes) = rawURLEncode bytes"
    by (auto simp: rawURLEncode_def intro!: filter_True)
  then show ?thesis using digits_of_alphabet [OF d] decode_encode_quads [OF b]
    by (simp add: rawURLDecode_def rawURLEncode_def comp_def)
qed

end
