(* ===== verification/State_Contract.thy ===== *)
theory State_Contract
  imports Approval_Request
begin

text \<open>
  The contract of a stored state (state_validate.go): what every state that is read or written has
  to satisfy before an operation may use it, except its digest. The lemmas show that an accepted
  state is well-formed in the sense of the transitions, so the invariant they keep is one the store
  itself establishes.
\<close>

section \<open>Charges, generations and limits\<close>

definition MaxGenerationHistory :: nat where "MaxGenerationHistory = 256"
definition StateSchema :: string where "StateSchema = ''reconc.action-state/v1''"
definition StateFormatVersion :: string where "StateFormatVersion = ''2''"
definition legacyStateFormatVersion :: string where "legacyStateFormatVersion = ''1''"

definition supportedStateFormat :: "string \<Rightarrow> bool" where
  "supportedStateFormat version \<longleftrightarrow> version = StateFormatVersion \<or> version = legacyStateFormatVersion"

definition reservedDimensionValid :: "uint64 \<Rightarrow> uint64 \<Rightarrow> bool" where
  "reservedDimensionValid value limit = (if limit = 0 then value = 0 else value \<le> limit)"

definition validateReservationCharge :: "reservation_status \<Rightarrow> reservation_charge \<Rightarrow> budget_record \<Rightarrow> state_error option" where
  "validateReservationCharge status c r =
     (let usage = chg_reserved c; limits = brc_limits r
      in if use_denied_count usage \<noteq> 0 \<or> 1 < use_call_count usage \<or> 1 < use_approval_count usage
            \<or> 1 < use_concurrent usage \<or> 1 < use_rate_window usage
            \<or> \<not> reservedDimensionValid (use_call_count usage) (lim_call_count limits)
            \<or> \<not> reservedDimensionValid (use_approval_count usage) (lim_approval_count limits)
            \<or> \<not> reservedDimensionValid (use_argument_bytes usage) (lim_argument_bytes limits)
            \<or> \<not> reservedDimensionValid (use_result_bytes usage) (lim_result_bytes limits)
            \<or> \<not> reservedDimensionValid (use_cost_units usage) (lim_cost_units limits)
            \<or> \<not> reservedDimensionValid (use_concurrent usage) (lim_concurrent limits)
            \<or> \<not> reservedDimensionValid (use_rate_window usage) (lim_rate_window limits)
         then Some (ReasonStateCorrupt, ''reservation charge exceeds its budget contract'')
         else if chg_committed_approvals c \<noteq> 0
                 \<and> (lim_approval_count limits = 0 \<or> use_approval_count (brc_consumed r) < chg_committed_approvals c)
         then Some (ReasonStateCorrupt, ''committed approval charge is invalid'')
         else if status = ReservationReserved \<and> chg_dispatch_committed c
         then Some (ReasonStateCorrupt, ''pre-dispatch reservation contains a dispatch commit'')
         else if status \<noteq> ReservationReserved \<and> \<not> chg_dispatch_committed c
         then Some (ReasonStateCorrupt, ''post-dispatch reservation lacks a dispatch commit'')
         else if chg_dispatch_committed c
                 \<and> (use_call_count usage \<noteq> 0 \<or> use_argument_bytes usage \<noteq> 0
                    \<or> use_cost_units usage \<noteq> 0 \<or> use_rate_window usage \<noteq> 0)
         then Some (ReasonStateCorrupt, ''post-dispatch reservation retains committed capacity'')
         else None)"

definition validateGeneration :: "budget_generation \<Rightarrow> string \<Rightarrow> state_error option" where
  "validateGeneration g keyID =
     (if \<not> validLowerHex (gen_policy_digest g) 64 \<or> \<not> ValidSHA256Identity (gen_executable_digest g)
         \<or> \<not> ValidSHA256Identity (gen_tool_contract_digest g) \<or> gen_key_id g \<noteq> keyID
      then Some (ReasonStateCorrupt, ''budget governing generation is invalid'') else None)"

definition budgetLimitsBounded :: "budget_limits \<Rightarrow> bool" where
  "budgetLimitsBounded limits \<longleftrightarrow>
     list_all (\<lambda>value. \<not> 9223372036854775807 < value) (limit_list limits) \<and> lim_concurrent limits \<le> MaxConcurrentCalls"

fun hasDuplicateStrings :: "string list \<Rightarrow> bool" where
  "hasDuplicateStrings (a # b # values) \<longleftrightarrow> a = b \<or> hasDuplicateStrings (b # values)"
| "hasDuplicateStrings values \<longleftrightarrow> False"

section \<open>Budget records\<close>

definition validateStoredScope :: "budget_record \<Rightarrow> action_state \<Rightarrow> state_error option" where
  "validateStoredScope r s =
     (let scope = brc_scope r; credentials = scp_credential_labels scope; keyID = sta_key_id s;
          windowed = brc_reset r = BudgetResetFixedWindow
      in if \<not> sorted credentials \<or> hasDuplicateStrings credentials
         then Some (ReasonStateCorrupt, ''budget credential scope is not an explicit unique sorted list'')
         else if scp_repository_identity scope \<noteq> sta_repository_identity s
                 \<or> \<not> identityUsesKey (scp_repository_identity scope) keyID
         then Some (ReasonStateCorrupt, ''budget repository scope identity is invalid'')
         else if \<not> SafeLabel (scp_principal scope) \<or> \<not> SafeLabel (scp_server_label scope) \<or> \<not> SafeLabel (scp_tool_id scope)
         then Some (ReasonStateCorrupt, ''budget principal, server, or tool scope label is invalid'')
         else if \<not> identityUsesKey (scp_server_identity scope) keyID
         then Some (ReasonStateCorrupt, ''budget server scope identity is invalid'')
         else if list_ex (\<lambda>c. \<not> SafeLabel c) credentials
         then Some (ReasonStateCorrupt, ''budget credential scope is invalid'')
         else if brc_reset r = BudgetResetOperatorRun \<and> \<not> identityUsesKey (scp_run_identity scope) keyID
         then Some (ReasonStateCorrupt, ''run-reset budget identity is invalid'')
         else if brc_reset r = BudgetResetOperatorSession \<and> \<not> identityUsesKey (scp_session_identity scope) keyID
         then Some (ReasonStateCorrupt, ''session-reset budget identity is invalid'')
         else if windowed
                 \<and> (brc_window_seconds r = 0 \<or> 86400 < brc_window_seconds r
                    \<or> \<not> identityUsesKey (scp_window_identity scope) keyID \<or> scp_window_start_unix scope < 0
                    \<or> scp_window_start_unix scope mod uint (brc_window_seconds r) \<noteq> 0)
         then Some (ReasonStateCorrupt, ''fixed-window budget identity is invalid'')
         else if brc_reset r \<noteq> BudgetResetOperatorRun \<and> brc_reset r \<noteq> BudgetResetOperatorSession \<and> \<not> windowed
                 \<and> (brc_window_seconds r \<noteq> 0 \<or> lim_rate_window (brc_limits r) \<noteq> 0)
         then Some (ReasonStateCorrupt, ''non-window budget contains window state'')
         else if scp_run_identity scope
                   \<noteq> (if brc_reset r = BudgetResetOperatorRun then scp_run_identity scope else ''absent'')
                 \<or> scp_session_identity scope
                   \<noteq> (if brc_reset r = BudgetResetOperatorSession then scp_session_identity scope else ''absent'')
                 \<or> scp_window_identity scope \<noteq> (if windowed then scp_window_identity scope else ''absent'')
                 \<or> \<not> windowed \<and> scp_window_start_unix scope \<noteq> 0
         then Some (ReasonStateCorrupt, ''budget scope reset components are invalid'')
         else None)"

text \<open>The history of a record, each generation against its predecessor.\<close>

fun validateHistory :: "string \<Rightarrow> budget_generation option \<Rightarrow> budget_generation list \<Rightarrow> state_error option" where
  "validateHistory keyID previous [] = None"
| "validateHistory keyID previous (g # gs) =
     (case validateGeneration g keyID of
        Some e \<Rightarrow> Some e
      | None \<Rightarrow>
          if previous = Some g
          then Some (ReasonStateCorrupt, ''budget generation history contains a duplicate transition'')
          else validateHistory keyID (Some g) gs)"

definition budgetRecordContract :: "budget_record \<Rightarrow> string \<Rightarrow> bool" where
  "budgetRecordContract r keyID \<longleftrightarrow>
     SafeLabel (brc_budget_id r) \<and> identityUsesKey (brc_scope_identity r) keyID
     \<and> identityUsesKey (brc_lineage_identity r) keyID \<and> brc_scope_identity r \<noteq> brc_lineage_identity r
     \<and> budget_reset_valid (brc_reset r) \<and> \<not> limits_empty (brc_limits r) \<and> budgetLimitsBounded (brc_limits r)
     \<and> brc_generation_history r \<noteq> [] \<and> length (brc_generation_history r) \<le> MaxGenerationHistory
     \<and> use_concurrent (brc_consumed r) = 0"

fun validateBudgetRecords :: "action_state \<Rightarrow> string option \<Rightarrow> budget_record list \<Rightarrow> state_error option" where
  "validateBudgetRecords s previous [] = None"
| "validateBudgetRecords s previous (r # rs) =
     (if (case previous of None \<Rightarrow> False | Some lineage \<Rightarrow> brc_lineage_identity r \<le> lineage)
      then Some (ReasonStateCorrupt, ''budget records are not unique and sorted'')
      else if \<not> budgetRecordContract r (sta_key_id s)
      then Some (ReasonStateCorrupt, ''budget record contract is invalid'')
      else
        (case validateStoredScope r s of
           Some e \<Rightarrow> Some e
         | None \<Rightarrow>
             (case validateGeneration (brc_generation r) (sta_key_id s) of
                Some e \<Rightarrow> Some e
              | None \<Rightarrow>
                  (case validateHistory (sta_key_id s) None (brc_generation_history r) of
                     Some e \<Rightarrow> Some e
                   | None \<Rightarrow>
                       if last (brc_generation_history r) \<noteq> brc_generation r
                       then Some (ReasonStateCorrupt, ''budget generation history does not end at the active generation'')
                       else validateBudgetRecords s (Some (brc_lineage_identity r)) rs))))"

section \<open>Reservations and finished calls\<close>

definition state_validCallID :: "string \<Rightarrow> bool" where
  "state_validCallID value \<longleftrightarrow> length value = 30 \<and> hasPrefix value ''act_'' \<and> list_all base32Lower (drop 4 value)"

text \<open>A map keyed by lineage or identity: the last entry of a key wins.\<close>

definition last_with :: "('a \<Rightarrow> string) \<Rightarrow> 'a list \<Rightarrow> string \<Rightarrow> 'a option" where
  "last_with key xs k = find (\<lambda>x. key x = k) (rev xs)"

fun validateCharges ::
  "action_state \<Rightarrow> reservation_status \<Rightarrow> string option \<Rightarrow> reservation_charge list \<Rightarrow> state_error option" where
  "validateCharges s status previous [] = None"
| "validateCharges s status previous (c # cs) =
     (case last_with brc_lineage_identity (sta_budgets s) (chg_lineage_identity c) of
        None \<Rightarrow> Some (ReasonStateCorrupt, ''reservation charge is invalid'')
      | Some r \<Rightarrow>
          if brc_budget_id r \<noteq> chg_budget_id c \<or> \<not> identityUsesKey (chg_scope_identity c) (sta_key_id s)
             \<or> (case previous of None \<Rightarrow> False | Some lineage \<Rightarrow> chg_lineage_identity c \<le> lineage)
          then Some (ReasonStateCorrupt, ''reservation charge is invalid'')
          else
            (case validateGeneration (chg_generation c) (sta_key_id s) of
               Some e \<Rightarrow> Some e
             | None \<Rightarrow>
                 (case validateReservationCharge status c r of
                    Some e \<Rightarrow> Some e
                  | None \<Rightarrow> validateCharges s status (Some (chg_lineage_identity c)) cs)))"

definition reservationContract :: "reservation \<Rightarrow> string \<Rightarrow> bool" where
  "reservationContract r keyID \<longleftrightarrow>
     identityUsesKey (rsv_identity r) keyID \<and> state_validCallID (rsv_call_id r) \<and> validOpaqueStateIdentity (rsv_owner_id r)
     \<and> reservation_status_valid (rsv_status r) \<and> identityUsesKey (rsv_request_identity r) keyID
     \<and> identityUsesKey (rsv_context_identity r) keyID \<and> ValidSHA256Identity (rsv_executable_digest r)
     \<and> 0 < rsv_created_at_unix r \<and> rsv_created_at_unix r \<le> rsv_updated_at_unix r \<and> rsv_charges r \<noteq> []"

text \<open>\<open>int64\<close> division of a positive reading of the clock.\<close>

definition beyondClock :: "action_state \<Rightarrow> int \<Rightarrow> bool" where
  "beyondClock s second \<longleftrightarrow> 0 < sta_last_observed s \<and> sta_last_observed s div 1000000000 < second"

fun validateEachReservation ::
  "action_state \<Rightarrow> string option \<Rightarrow> string list \<Rightarrow> reservation list \<Rightarrow> state_error option" where
  "validateEachReservation s previous calls [] = None"
| "validateEachReservation s previous calls (r # rs) =
     (if (case previous of None \<Rightarrow> False | Some identity \<Rightarrow> rsv_identity r \<le> identity)
         \<or> \<not> reservationContract r (sta_key_id s) \<or> rsv_call_id r \<in> set calls
      then Some (ReasonStateCorrupt, ''action reservation is invalid'')
      else
        (case validateCharges s (rsv_status r) None (rsv_charges r) of
           Some e \<Rightarrow> Some e
         | None \<Rightarrow>
             if beyondClock s (rsv_updated_at_unix r)
             then Some (ReasonStateCorrupt, ''reservation timestamp exceeds the trusted clock'')
             else validateEachReservation s (Some (rsv_identity r)) (rsv_call_id r # calls) rs))"

definition validateReservations :: "action_state \<Rightarrow> state_error option" where
  "validateReservations s =
     (case validateEachReservation s None [] (sta_reservations s) of
        Some e \<Rightarrow> Some e
      | None \<Rightarrow> (case reservedUsageByLineage (sta_reservations s) of Inl e \<Rightarrow> Some e | Inr usage \<Rightarrow> None))"

fun validateEachTerminal ::
  "action_state \<Rightarrow> string option \<Rightarrow> string list \<Rightarrow> terminal_call list \<Rightarrow> state_error option" where
  "validateEachTerminal s previous reservations [] = None"
| "validateEachTerminal s previous reservations (t # ts) =
     (if (case previous of None \<Rightarrow> False | Some callID \<Rightarrow> trm_call_id t \<le> callID)
         \<or> \<not> state_validCallID (trm_call_id t) \<or> \<not> identityUsesKey (trm_reservation_identity t) (sta_key_id s)
         \<or> \<not> terminal_outcome_valid (trm_outcome t) \<or> trm_completed_at_unix t \<le> 0
         \<or> trm_call_id t \<in> rsv_call_id ` set (sta_reservations s)
         \<or> trm_reservation_identity t \<in> set reservations \<or> beyondClock s (trm_completed_at_unix t)
      then Some (ReasonStateCorrupt, ''terminal action call is invalid'')
      else validateEachTerminal s (Some (trm_call_id t)) (trm_reservation_identity t # reservations) ts)"

definition validateTerminalCalls :: "action_state \<Rightarrow> state_error option" where
  "validateTerminalCalls s = validateEachTerminal s None [] (sta_terminal_calls s)"

section \<open>Approval records\<close>

fun receipt_status_valid :: "receipt_status \<Rightarrow> bool" where
  "receipt_status_valid (StatusOther t) = False"
| "receipt_status_valid s = True"

definition validApprovalReceiptID :: "string \<Rightarrow> bool" where
  "validApprovalReceiptID value \<longleftrightarrow>
     length value = 30 \<and> hasPrefix value ''arc_'' \<and> list_all base32Lower (drop 4 value)"

definition validStoredReceiptTime :: "time_library \<Rightarrow> approval_record \<Rightarrow> bool" where
  "validStoredReceiptTime lib r =
     (case tim_parse lib (apr_receipt_signed_at r) of
        None \<Rightarrow> False
      | Some signedAt \<Rightarrow>
          signedAt \<noteq> zero_instant \<and> tim_format lib signedAt = apr_receipt_signed_at r
          \<and> (case (tim_parse lib (apq_issued_at (apr_request r)), tim_parse lib (apq_expires_at (apr_request r))) of
               (Some issued, Some expires) \<Rightarrow> \<not> signedAt < issued \<and> signedAt < expires
             | _ \<Rightarrow> False))"

definition validStoredReceiptMaterial :: "approval_record \<Rightarrow> bool" where
  "validStoredReceiptMaterial r =
     (if apr_receipt_decision r = ReceiptUnset \<and> apr_receipt_signature r = [] then True
      else
        (case rawURLDecode (apr_receipt_signature r) of
           None \<Rightarrow> False
         | Some signature \<Rightarrow>
             length signature = 64 \<and> rawURLEncode signature = apr_receipt_signature r
             \<and> apr_receipt_decision r = (if apr_status r = StatusRejected then ReceiptReject else ReceiptApprove)))"

definition metadataEmpty :: "approval_record \<Rightarrow> bool" where
  "metadataEmpty r \<longleftrightarrow>
     apr_registry_identity r = [] \<and> apr_authority_key_id r = [] \<and> apr_receipt_id r = [] \<and> apr_receipt_identity r = []
     \<and> apr_receipt_signed_at r = [] \<and> apr_receipt_decision r = ReceiptUnset \<and> apr_receipt_signature r = []"

definition metadataValid :: "time_library \<Rightarrow> string list \<Rightarrow> approval_record \<Rightarrow> bool" where
  "metadataValid lib receipts r \<longleftrightarrow>
     ValidSHA256Identity (apr_registry_identity r) \<and> SafeLabel (apr_authority_key_id r)
     \<and> validApprovalReceiptID (apr_receipt_id r) \<and> ValidSHA256Identity (apr_receipt_identity r)
     \<and> apr_receipt_id r \<notin> set receipts \<and> validStoredReceiptTime lib r \<and> validStoredReceiptMaterial r"

definition validateApprovalReservationBinding :: "approval_record \<Rightarrow> reservation \<Rightarrow> state_error option" where
  "validateApprovalReservationBinding a r =
     (let request = apr_request a
      in if rsv_call_id r \<noteq> apq_call_id request
            \<or> apq_phase request = PhasePreCall \<and> rsv_request_identity r \<noteq> apq_request_identity request
            \<or> rsv_context_identity r \<noteq> apq_context_identity request
            \<or> rsv_executable_digest r \<noteq> apq_executable_digest request
         then Some (ReasonStateCorrupt, ''approval reservation binding is invalid'') else None)"

definition validateApprovalRecordTransition ::
  "approval_record \<Rightarrow> reservation list \<Rightarrow> terminal_call list \<Rightarrow> state_error option" where
  "validateApprovalRecordTransition a reservations terminals =
     (let request = apr_request a; preCall = apq_phase request = PhasePreCall;
          active = last_with rsv_identity reservations (apr_reservation_identity a);
          completed = last_with trm_reservation_identity terminals (apr_reservation_identity a)
      in if (case apr_denial_accounting a of
               None \<Rightarrow> False
             | Some accounting \<Rightarrow>
                 apr_status a = StatusPending \<or> apr_status a = StatusApproved \<or> \<not> preCall
                 \<or> (case completed of None \<Rightarrow> True | Some t \<Rightarrow> trm_outcome t \<noteq> OutcomeBlocked)
                 \<or> MaxBudgetRecords < unat (dac_consumed_count accounting))
         then Some (ReasonStateCorrupt, ''approval denial accounting is invalid'')
         else if apr_reservation_identity a = ''absent'' then None
         else if apr_status a = StatusPending
         then
           (case active of
              Some r \<Rightarrow>
                if completed \<noteq> None
                   \<or> rsv_status r \<noteq> (if apq_phase request = PhasePostResult then ReservationDispatched else ReservationReserved)
                then Some (ReasonStateCorrupt, ''pending approval reservation state is invalid'')
                else validateApprovalReservationBinding a r
            | None \<Rightarrow> Some (ReasonStateCorrupt, ''pending approval reservation state is invalid''))
         else if apr_status a = StatusApproved
         then
           (case (active, completed) of
              (None, Some t) \<Rightarrow>
                if trm_call_id t \<noteq> apq_call_id request
                then Some (ReasonStateCorrupt, ''approved terminal call binding is invalid'') else None
            | (Some r, None) \<Rightarrow>
                (case validateApprovalReservationBinding a r of
                   Some e \<Rightarrow> Some e
                 | None \<Rightarrow>
                     if apq_phase request = PhasePostResult \<and> rsv_status r = ReservationReserved
                     then Some (ReasonStateCorrupt, ''approved post-result reservation precedes dispatch'') else None)
            | _ \<Rightarrow> Some (ReasonStateCorrupt, ''approved call must have exactly one active or terminal reservation''))
         else if preCall
         then
           (case (active, completed) of
              (Some r, None) \<Rightarrow>
                if apr_status a = StatusUnavailable \<and> rsv_status r = ReservationIndeterminate
                then validateApprovalReservationBinding a r
                else Some (ReasonStateCorrupt, ''failed pre-call approval terminal state is invalid'')
            | (None, Some t) \<Rightarrow>
                if trm_call_id t \<noteq> apq_call_id request \<or> trm_outcome t \<noteq> OutcomeBlocked
                then Some (ReasonStateCorrupt, ''failed pre-call approval terminal state is invalid'') else None
            | _ \<Rightarrow> Some (ReasonStateCorrupt, ''failed pre-call approval terminal state is invalid''))
         else
           (case (active, completed) of
              (Some r, None) \<Rightarrow>
                if rsv_status r = ReservationReserved
                then Some (ReasonStateCorrupt, ''failed post-result approval state is invalid'') else None
            | (None, Some t) \<Rightarrow>
                if trm_call_id t \<noteq> apq_call_id request \<or> trm_outcome t = OutcomeReleased \<or> trm_outcome t = OutcomeBlocked
                then Some (ReasonStateCorrupt, ''failed post-result approval state is invalid'') else None
            | _ \<Rightarrow> Some (ReasonStateCorrupt, ''failed post-result approval state is invalid'')))"

definition approvalRecordContract ::
  "identity_key \<Rightarrow> time_library \<Rightarrow> action_state \<Rightarrow> string option \<Rightarrow> string list \<Rightarrow> string list \<Rightarrow> approval_record \<Rightarrow> bool" where
  "approvalRecordContract k lib s previous callPhases nonces a \<longleftrightarrow>
     (let request = apr_request a; keyID = sta_key_id s
      in (case previous of None \<Rightarrow> True | Some requestID \<Rightarrow> requestID < apq_request_id request)
         \<and> approval_Validate lib request \<and> apq_repository_identity request = sta_repository_identity s
         \<and> identityUsesKey (apq_request_identity request) keyID \<and> identityUsesKey (apq_state_version request) keyID
         \<and> apr_reservation_identity a = apq_budget_reservation_id request
         \<and> (apr_reservation_identity a = ''absent'' \<or> identityUsesKey (apr_reservation_identity a) keyID)
         \<and> identityUsesKey (apr_nonce_identity a) keyID \<and> receipt_status_valid (apr_status a)
         \<and> 0 < apr_updated_at_unix a
         \<and> apq_call_id request @ [CHR 0x00] @ phase_text (apq_phase request) \<notin> set callPhases
         \<and> apr_nonce_identity a \<notin> set nonces \<and> \<not> beyondClock s (apr_updated_at_unix a))"

fun validateEachApproval ::
  "identity_key \<Rightarrow> time_library \<Rightarrow> action_state \<Rightarrow> string option \<Rightarrow> string list \<Rightarrow> string list \<Rightarrow> string list
     \<Rightarrow> approval_record list \<Rightarrow> state_error option" where
  "validateEachApproval k lib s previous callPhases nonces receipts [] = None"
| "validateEachApproval k lib s previous callPhases nonces receipts (a # as) =
     (let request = apr_request a
      in if \<not> approvalRecordContract k lib s previous callPhases nonces a
         then Some (ReasonStateCorrupt, ''approval replay record is invalid'')
         else if list_ex (\<lambda>selected. \<not> identityUsesKey (sel_identity selected) (sta_key_id s)) (apq_selected_arguments request)
         then Some (ReasonStateCorrupt, ''selected approval identity uses a different key'')
         else if (case rawURLDecode (apq_nonce request) of
                    None \<Rightarrow> True
                  | Some nonce \<Rightarrow> apr_nonce_identity a \<noteq> key_identity k DomainApproval [''nonce'', nonce])
         then Some (ReasonStateCorrupt, ''approval nonce identity is invalid'')
         else
           (let verified = apr_status a = StatusApproved \<or> apr_status a = StatusRejected
            in if verified \<and> \<not> metadataValid lib receipts a
               then Some (ReasonStateCorrupt, ''verified approval receipt metadata is invalid'')
               else if \<not> verified \<and> \<not> metadataEmpty a
               then Some (ReasonStateCorrupt, ''non-approved replay record contains receipt metadata'')
               else
                 (case validateApprovalRecordTransition a (sta_reservations s)
                         (if sta_approvals s = [] then [] else sta_terminal_calls s) of
                    Some e \<Rightarrow> Some e
                  | None \<Rightarrow>
                      validateEachApproval k lib s (Some (apq_request_id request))
                        ((apq_call_id request @ [CHR 0x00] @ phase_text (apq_phase request)) # callPhases)
                        (apr_nonce_identity a # nonces)
                        (if verified then apr_receipt_id a # receipts else receipts) as)))"

fun validateApprovalCharges :: "budget_record list \<Rightarrow> nat \<Rightarrow> nat \<Rightarrow> reservation_charge list \<Rightarrow> state_error option" where
  "validateApprovalCharges budgets committed pending [] = None"
| "validateApprovalCharges budgets committed pending (c # cs) =
     (case last_with brc_lineage_identity budgets (chg_lineage_identity c) of
        None \<Rightarrow> Some (ReasonStateCorrupt, ''approval charge budget is absent'')
      | Some r \<Rightarrow>
          if lim_approval_count (brc_limits r) = 0 then validateApprovalCharges budgets committed pending cs
          else if unat (chg_committed_approvals c) \<noteq> committed \<or> unat (use_approval_count (chg_reserved c)) \<noteq> pending
          then Some (ReasonStateCorrupt, ''approval charge transition is invalid'')
          else validateApprovalCharges budgets committed pending cs)"

definition validateApprovalChargeState :: "reservation \<Rightarrow> budget_record list \<Rightarrow> nat \<Rightarrow> nat \<Rightarrow> state_error option" where
  "validateApprovalChargeState r budgets committed pending =
     (if 1 < pending then Some (ReasonStateCorrupt, ''approval reservation has multiple pending charges'')
      else validateApprovalCharges budgets committed pending (rsv_charges r))"

text \<open>How many approvals of a reservation have a status.\<close>

definition approvalsOf :: "receipt_status \<Rightarrow> string \<Rightarrow> approval_record list \<Rightarrow> nat" where
  "approvalsOf status identity approvals =
     length (filter (\<lambda>a. apr_status a = status \<and> apr_reservation_identity a = identity) approvals)"

text \<open>The first error of a loop.\<close>

fun first_error :: "('a \<Rightarrow> state_error option) \<Rightarrow> 'a list \<Rightarrow> state_error option" where
  "first_error f [] = None"
| "first_error f (x # xs) = (case f x of Some e \<Rightarrow> Some e | None \<Rightarrow> first_error f xs)"

definition validateApprovalRecords :: "identity_key \<Rightarrow> time_library \<Rightarrow> action_state \<Rightarrow> state_error option" where
  "validateApprovalRecords k lib s =
     (case validateEachApproval k lib s None [] [] [] (sta_approvals s) of
        Some e \<Rightarrow> Some e
      | None \<Rightarrow>
          if MaxPendingApprovals < length (filter (\<lambda>a. apr_status a = StatusPending) (sta_approvals s))
          then Some (ReasonStateCorrupt, ''pending approval capacity is exceeded'')
          else first_error (\<lambda>r. validateApprovalChargeState r (sta_budgets s)
                 (approvalsOf StatusApproved (rsv_identity r) (sta_approvals s))
                 (approvalsOf StatusPending (rsv_identity r) (sta_approvals s))) (sta_reservations s))"

section \<open>The whole state\<close>

definition validateStateContract :: "action_store \<Rightarrow> time_library \<Rightarrow> action_state \<Rightarrow> bool \<Rightarrow> state_error option" where
  "validateStateContract store lib s persisted =
     (let k = sto_key store
      in if sta_schema s \<noteq> StateSchema \<or> \<not> supportedStateFormat (sta_format_version s)
         then Some (ReasonStateCorrupt, ''action state schema metadata is invalid'')
         else if sta_key_id s \<noteq> ikey_id k \<or> \<not> identityUsesKey (sta_repository_identity s) (sta_key_id s)
         then Some (ReasonStateCorrupt, ''action state key binding is invalid'')
         else if sta_repository_identity s \<noteq> sto_repository_identity store
         then Some (ReasonStateCorrupt, ''action state belongs to a different repository identity'')
         else if MaxBudgetRecords < length (sta_budgets s) \<or> MaxReservations < length (sta_reservations s)
                 \<or> MaxTerminalCallRecords < length (sta_terminal_calls s) \<or> MaxApprovalRecords < length (sta_approvals s)
         then Some (ReasonStateCorrupt, ''action state collection capacity is exceeded'')
         else if persisted \<and> (sta_revision s = 0 \<or> \<not> SafeLabel (sta_clock_source s) \<or> sta_last_observed s \<le> 0)
         then Some (ReasonStateCorrupt, ''persisted action state clock or revision is invalid'')
         else if \<not> persisted \<and> sta_revision s \<noteq> 0
         then Some (ReasonStateCorrupt, ''unpersisted action state has a revision'')
         else
           (case validateBudgetRecords s None (sta_budgets s) of
              Some e \<Rightarrow> Some e
            | None \<Rightarrow>
                (case validateReservations s of
                   Some e \<Rightarrow> Some e
                 | None \<Rightarrow>
                     (case validateTerminalCalls s of
                        Some e \<Rightarrow> Some e
                      | None \<Rightarrow> validateApprovalRecords k lib s))))"

section \<open>An accepted state is well-formed\<close>

lemma sorted_chain:
  fixes key :: "'a \<Rightarrow> 'k :: linorder"
  assumes "\<And>x xs previous. P previous (x # xs) \<Longrightarrow> (case previous of None \<Rightarrow> True | Some l \<Rightarrow> l < key x) \<and> P (Some (key x)) xs"
    and "P previous xs"
  shows "sorted_wrt (<) (map key xs) \<and> (\<forall>l x. previous = Some l \<longrightarrow> x \<in> set xs \<longrightarrow> l < key x)"
  using assms(2)
proof (induction xs arbitrary: previous)
  case (Cons x xs)
  have step: "case previous of None \<Rightarrow> True | Some l \<Rightarrow> l < key x" "P (Some (key x)) xs"
    using assms(1) [OF Cons.prems] by auto
  have IH: "sorted_wrt (<) (map key xs)" "\<And>y. y \<in> set xs \<Longrightarrow> key x < key y" using Cons.IH [OF step(2)] by auto
  then show ?case using step(1) by (auto intro: order.strict_trans [of _ "key x"])
qed simp

lemma budgets_chain:
  "validateBudgetRecords s previous (r # rs) = None \<Longrightarrow>
     (case previous of None \<Rightarrow> True | Some l \<Rightarrow> l < brc_lineage_identity r)
     \<and> validateBudgetRecords s (Some (brc_lineage_identity r)) rs = None"
  by (auto split: if_splits option.splits)

lemma budgets_sorted:
  assumes "validateBudgetRecords s None (sta_budgets s) = None"
  shows "lineages_sorted (sta_budgets s)"
  using sorted_chain [of "\<lambda>previous rs. validateBudgetRecords s previous rs = None" brc_lineage_identity None, OF budgets_chain assms]
  by simp

lemma reservations_chain:
  "validateEachReservation s previous calls (r # rs) = None \<Longrightarrow>
     (case previous of None \<Rightarrow> True | Some l \<Rightarrow> l < rsv_identity r) \<and> rsv_call_id r \<notin> set calls
     \<and> validateCharges s (rsv_status r) None (rsv_charges r) = None
     \<and> validateEachReservation s (Some (rsv_identity r)) (rsv_call_id r # calls) rs = None"
  by (auto split: if_splits option.splits)

lemma reservations_sorted:
  assumes "validateEachReservation s None [] rs = None"
  shows "keys_sorted rsv_identity rs"
  using sorted_chain [of "\<lambda>previous rs. \<exists>calls. validateEachReservation s previous calls rs = None" rsv_identity None rs]
    reservations_chain assms by (metis (no_types, lifting))

lemma reservations_calls:
  "validateEachReservation s previous calls rs = None \<Longrightarrow>
     distinct (map rsv_call_id rs) \<and> set (map rsv_call_id rs) \<inter> set calls = {}"
proof (induction rs arbitrary: previous calls)
  case (Cons r rs)
  note step = reservations_chain [OF Cons.prems]
  show ?case using Cons.IH [of "Some (rsv_identity r)" "rsv_call_id r # calls"] step by auto
qed simp

lemma charge_flag: "validateReservationCharge status c r = None \<Longrightarrow> chg_dispatch_committed c \<longleftrightarrow> status \<noteq> ReservationReserved"
  by (auto simp: validateReservationCharge_def Let_def split: if_splits)

lemma charges_flags:
  "validateCharges s status previous cs = None \<Longrightarrow> list_all (\<lambda>c. chg_dispatch_committed c = (status \<noteq> ReservationReserved)) cs"
  by (induction cs arbitrary: previous) (auto split: if_splits option.splits dest: charge_flag)

lemma reservations_flags:
  "validateEachReservation s previous calls rs = None \<Longrightarrow> list_all flags_ok rs"
proof (induction rs arbitrary: previous calls)
  case (Cons r rs)
  note step = reservations_chain [OF Cons.prems]
  show ?case using Cons.IH [of "Some (rsv_identity r)" "rsv_call_id r # calls"] step charges_flags
    by (auto simp: flags_ok_def)
qed simp

lemma terminals_chain:
  "validateEachTerminal s previous seen (t # ts) = None \<Longrightarrow>
     (case previous of None \<Rightarrow> True | Some l \<Rightarrow> l < trm_call_id t) \<and> trm_call_id t \<notin> rsv_call_id ` set (sta_reservations s)
     \<and> validateEachTerminal s (Some (trm_call_id t)) (trm_reservation_identity t # seen) ts = None"
  by (auto split: if_splits option.splits)

lemma terminals_sorted:
  assumes "validateEachTerminal s None [] ts = None"
  shows "keys_sorted trm_call_id ts"
  using sorted_chain [of "\<lambda>previous ts. \<exists>seen. validateEachTerminal s previous seen ts = None" trm_call_id None ts]
    terminals_chain assms by (metis (no_types, lifting))

lemma terminals_fresh:
  "validateEachTerminal s previous seen ts = None \<Longrightarrow> rsv_call_id ` set (sta_reservations s) \<inter> trm_call_id ` set ts = {}"
proof (induction ts arbitrary: previous seen)
  case (Cons t ts)
  then show ?case using terminals_chain [OF Cons.prems] by auto
qed simp

lemma approvals_chain:
  "validateEachApproval k lib s previous callPhases nonces receipts (a # as) = None \<Longrightarrow>
     (case previous of None \<Rightarrow> True | Some l \<Rightarrow> l < apq_request_id (apr_request a))
     \<and> (\<exists>callPhases nonces receipts.
          validateEachApproval k lib s (Some (apq_request_id (apr_request a))) callPhases nonces receipts as = None)"
  by (auto simp: Let_def approvalRecordContract_def split: if_splits option.splits)

lemma approvals_sorted:
  assumes "validateEachApproval k lib s None [] [] [] as = None"
  shows "keys_sorted (\<lambda>a. apq_request_id (apr_request a)) as"
  using sorted_chain [of "\<lambda>previous as. \<exists>callPhases nonces receipts.
      validateEachApproval k lib s previous callPhases nonces receipts as = None" "\<lambda>a. apq_request_id (apr_request a)" None as]
    approvals_chain assms by (metis (no_types, lifting))

lemma contract_parts:
  assumes "validateStateContract store lib s persisted = None"
  shows "validateBudgetRecords s None (sta_budgets s) = None" and "validateEachReservation s None [] (sta_reservations s) = None"
    and "\<exists>usage. reservedUsageByLineage (sta_reservations s) = Inr usage"
    and "validateEachTerminal s None [] (sta_terminal_calls s) = None"
    and "validateEachApproval (sto_key store) lib s None [] [] [] (sta_approvals s) = None"
  using assms by (auto simp: validateStateContract_def validateReservations_def validateTerminalCalls_def
      validateApprovalRecords_def Let_def split: if_splits option.splits sum.splits)

lemma contract_wf: "validateStateContract store lib s persisted = None \<Longrightarrow> state_wf s"
  using contract_parts [of store lib s persisted] budgets_sorted [of s] reservations_sorted [of s "sta_reservations s"]
    reservations_calls [of s None "[]" "sta_reservations s"] reservations_flags [of s None "[]" "sta_reservations s"]
    terminals_sorted [of s "sta_terminal_calls s"] terminals_fresh [of s None "[]" "sta_terminal_calls s"]
    approvals_sorted [of "sto_key store" lib s "sta_approvals s"]
  by (simp add: state_wf_def)

section \<open>Properties\<close>

text \<open>A store that holds one budget, one reservation and one finished call.\<close>

definition keyed_example :: "char \<Rightarrow> string" where
  "keyed_example c = ''hmac-sha256:v1:'' @ example_key_id @ '':'' @ replicate 64 c"

definition example_hex :: string where "example_hex = replicate 64 (CHR ''a'')"

definition valid_store :: action_store where
  "valid_store = example_store\<lparr>sto_repository_identity := keyed_example (CHR ''0'')\<rparr>"

definition valid_generation :: budget_generation where
  "valid_generation =
     \<lparr>gen_policy_digest = example_hex, gen_executable_digest = ''sha256:'' @ example_hex,
      gen_tool_contract_digest = ''sha256:'' @ example_hex, gen_key_id = example_key_id\<rparr>"

definition valid_record :: budget_record where
  "valid_record =
     \<lparr>brc_budget_id = ''calls'', brc_scope_identity = keyed_example (CHR ''1''),
      brc_lineage_identity = keyed_example (CHR ''2''),
      brc_scope = \<lparr>scp_repository_identity = keyed_example (CHR ''0''), scp_principal = ''p'', scp_credential_labels = [],
        scp_server_label = ''s'', scp_server_identity = keyed_example (CHR ''3''), scp_tool_id = ''t'',
        scp_run_identity = ''absent'', scp_session_identity = ''absent'', scp_window_identity = ''absent'',
        scp_window_start_unix = 0\<rparr>,
      brc_reset = BudgetResetNever, brc_window_seconds = 0,
      brc_limits = noLimits\<lparr>lim_call_count := 5, lim_denied_count := 1, lim_result_bytes := 100\<rparr>,
      brc_consumed = noUsage\<lparr>use_call_count := 1\<rparr>, brc_generation = valid_generation,
      brc_generation_history = [valid_generation]\<rparr>"

definition valid_reservation :: reservation where
  "valid_reservation =
     \<lparr>rsv_identity = keyed_example (CHR ''4''), rsv_call_id = ''act_'' @ replicate 26 (CHR ''a''), rsv_owner_id = ''own'',
      rsv_request_identity = keyed_example (CHR ''5''), rsv_context_identity = keyed_example (CHR ''6''),
      rsv_executable_digest = ''sha256:'' @ example_hex, rsv_status = ReservationReserved,
      rsv_created_at_unix = 1, rsv_updated_at_unix = 1,
      rsv_charges = [\<lparr>chg_budget_id = ''calls'', chg_scope_identity = keyed_example (CHR ''1''),
        chg_lineage_identity = keyed_example (CHR ''2''), chg_generation = valid_generation,
        chg_reserved = noUsage\<lparr>use_call_count := 1, use_result_bytes := 50\<rparr>,
        chg_dispatch_committed = False, chg_committed_approvals = 0\<rparr>]\<rparr>"

definition valid_terminal :: terminal_call where
  "valid_terminal =
     \<lparr>trm_call_id = ''act_'' @ replicate 26 (CHR ''b''), trm_reservation_identity = keyed_example (CHR ''7''),
      trm_outcome = OutcomeSucceeded, trm_completed_at_unix = 1\<rparr>"

definition valid_state :: "string \<Rightarrow> action_state" where
  "valid_state digest =
     \<lparr>sta_schema = StateSchema, sta_format_version = StateFormatVersion, sta_key_id = example_key_id,
      sta_repository_identity = keyed_example (CHR ''0''), sta_revision = 1, sta_clock_source = ''clock'',
      sta_last_observed = 1000000000, sta_budgets = [valid_record], sta_reservations = [valid_reservation],
      sta_terminal_calls = [valid_terminal], sta_approvals = [], sta_digest = digest\<rparr>"

lemma example_key_id_length [simp]: "length example_key_id = 32"
  by (simp add: example_key_id_def)

lemma example_key_id_valid: "validKeyedIdentityKeyID example_key_id" "lowerHexLength example_key_id 32"
  by (simp_all add: example_key_id_def validKeyedIdentityKeyID_def lowerHexLength_def lowerHexChar_def lowerAlnum_def
      less_eq_char_def list_all_iff)

lemma keyed_example_uses: "lowerHexChar c \<Longrightarrow> identityUsesKey (keyed_example c) example_key_id"
  using example_key_id_valid(1) by (simp add: identityUsesKey_def keyed_example_def list_all_iff nth_append)

lemma keyed_example_inject [simp]: "keyed_example c = keyed_example d \<longleftrightarrow> c = d"
  by (simp add: keyed_example_def)

lemma example_digits: "lowerHexChar (CHR ''0'')" "lowerHexChar (CHR ''1'')" "lowerHexChar (CHR ''2'')" "lowerHexChar (CHR ''3'')"
  "lowerHexChar (CHR ''4'')" "lowerHexChar (CHR ''5'')" "lowerHexChar (CHR ''6'')" "lowerHexChar (CHR ''7'')" "lowerHexChar (CHR ''a'')"
  by (simp_all add: lowerHexChar_def less_eq_char_def)

lemmas keyed_examples = example_digits [THEN keyed_example_uses]

lemma example_label: "SafeLabel ''calls''" "SafeLabel ''p''" "SafeLabel ''s''" "SafeLabel ''t''" "SafeLabel ''clock''"
  by (simp_all add: SafeLabel_def kebabLabel_def MaxSafeLabelBytes_def lowerAlnum_def less_eq_char_def)

lemma valid_generation_ok: "validateGeneration valid_generation example_key_id = None"
  using example_digits
  by (simp add: validateGeneration_def valid_generation_def example_hex_def validLowerHex_def ValidSHA256Identity_def
      sha256IdentityPattern_def hasPrefix_def lowerHexLength_def list_all_iff)

lemma valid_record_accepted:
  assumes "sta_key_id s = example_key_id" and "sta_repository_identity s = keyed_example (CHR ''0'')"
  shows "validateBudgetRecords s None [valid_record] = None"
  using keyed_examples example_label valid_generation_ok
  by (simp add: assms budgetRecordContract_def validateStoredScope_def Let_def valid_record_def limits_empty_def noLimits_def budgetLimitsBounded_def limit_list_def
      MaxConcurrentCalls_def MaxGenerationHistory_def noUsage_def)

lemma valid_state_accepted: "validateStateContract valid_store lib (valid_state digest) True = None"
proof -
  let ?s = "valid_state digest"
  have v: "sta_key_id ?s = example_key_id" by (simp add: valid_state_def)
  have b: "validateBudgetRecords ?s None [valid_record] = None"
    by (rule valid_record_accepted) (simp_all add: valid_state_def)
  have r: "validateEachReservation ?s None [] [valid_reservation] = None"
  proof -
    have "reservationContract valid_reservation example_key_id"
      using keyed_examples
      by (simp add: reservationContract_def valid_reservation_def state_validCallID_def hasPrefix_def base32Lower_def less_eq_char_def
          validOpaqueStateIdentity_def lowerAlnum_def reservation_status_valid_def ValidSHA256Identity_def
          sha256IdentityPattern_def lowerHexLength_def example_hex_def list_all_iff lowerHexChar_def)
    moreover have "validateCharges ?s ReservationReserved None (rsv_charges valid_reservation) = None"
      using keyed_examples valid_generation_ok
      by (simp add: valid_reservation_def v last_with_def)
        (simp add: valid_state_def valid_record_def validateReservationCharge_def noUsage_def noLimits_def reservedDimensionValid_def)
    ultimately show ?thesis
      by (simp add: v beyondClock_def) (simp add: valid_reservation_def valid_state_def)
  qed
  have t: "validateEachTerminal ?s None [] [valid_terminal] = None"
    using keyed_examples
    by (simp add: v state_validCallID_def) (simp add: valid_terminal_def valid_state_def valid_reservation_def hasPrefix_def base32Lower_def
        less_eq_char_def terminal_outcome_valid_def beyondClock_def list_all_iff)
  have u: "\<exists>usage. reservedUsageByLineage [valid_reservation] = Inr usage"
    by (simp add: reservedUsageByLineage_def valid_reservation_def checkedUsageAdd_def addOverflow_def noUsage_def)
  have a: "first_error (\<lambda>r. validateApprovalChargeState r [valid_record] 0 0) [valid_reservation] = None"
    by (simp add: validateApprovalChargeState_def valid_reservation_def last_with_def valid_record_def noLimits_def)
  have id: "identityUsesKey (keyed_example (CHR ''0'')) example_key_id" using keyed_examples by simp
  show ?thesis using b r t u a id example_label
    by (auto simp: validateStateContract_def Let_def validateReservations_def validateTerminalCalls_def
        validateApprovalRecords_def valid_state_def valid_store_def example_store_def supportedStateFormat_def
        approvalsOf_def MaxBudgetRecords_def MaxReservations_def MaxTerminalCallRecords_def MaxApprovalRecords_def
        MaxPendingApprovals_def split: option.splits sum.splits)
qed

text \<open>
  C15: a state that the store accepts is well-formed in the sense its transitions preserve: the tables
  are sorted and searchable, calls are distinct and never both live and finished, the dispatch
  marks follow the status, and the aggregate of its reservations does not overflow.
\<close>

theorem accepted_state_well_formed:
  assumes "validateStateContract store lib s persisted = None"
  shows "state_wf s \<and> (\<exists>usage. reservedUsageByLineage (sta_reservations s) = Inr usage
    \<and> (\<forall>lineage d. unat (usage_at d (usage lineage)) = reserved_of (sta_reservations s) lineage d))"
  using contract_wf [OF assms] contract_parts(3) [OF assms] reservedUsageByLineage_exact by blast

theorem accepted_state_well_formed_witness: "state_wf (valid_state [])"
  using accepted_state_well_formed [OF valid_state_accepted] by simp

end
