(* ===== verification/State_Retention.thy ===== *)
theory State_Retention
  imports State_Contract
begin

text \<open>
  Retained history (retained_history.go): which finished calls and approvals a store may forget,
  and the migration of the first format. The lemmas show that what is forgotten can never be
  admitted again, and that nothing live is touched.
\<close>

definition filterRecords :: "'a list \<Rightarrow> ('a \<Rightarrow> bool) \<Rightarrow> 'a list" where
  "filterRecords records pruned = filter (\<lambda>r. \<not> pruned r) records"

definition approvalReservationReferences :: "approval_record list \<Rightarrow> string set" where
  "approvalReservationReferences approvals =
     set (filter (\<lambda>identity. identity \<noteq> ''absent'') (map apr_reservation_identity approvals))"

definition activeReservations :: "action_state \<Rightarrow> string set" where
  "activeReservations s = rsv_identity ` set (sta_reservations s)"

definition finishedApprovalOutsideWindow :: "time_library \<Rightarrow> approval_record \<Rightarrow> string set \<Rightarrow> int \<Rightarrow> bool" where
  "finishedApprovalOutsideWindow lib a active now =
     (if apr_status a = StatusPending
         \<or> apr_reservation_identity a \<noteq> ''absent'' \<and> apr_reservation_identity a \<in> active then False
      else
        (case tim_parse lib (apq_expires_at (apr_request a)) of
           None \<Rightarrow> False
         | Some expires \<Rightarrow> expires + CallIdentityAdmissionWindow < now))"

definition pruneRetainedHistory :: "time_library \<Rightarrow> action_state \<Rightarrow> int \<Rightarrow> action_state" where
  "pruneRetainedHistory lib s now =
     (let active = activeReservations s;
          approvals = filterRecords (sta_approvals s) (\<lambda>a.
            finishedApprovalOutsideWindow lib a active now \<and> callIdentityExpired (apq_call_id (apr_request a)) now);
          referenced = approvalReservationReferences approvals
      in s\<lparr>sta_approvals := approvals,
           sta_terminal_calls := filterRecords (sta_terminal_calls s) (\<lambda>t.
             trm_reservation_identity t \<notin> referenced \<and> callIdentityExpired (trm_call_id t) now)\<rparr>)"

definition storeIssued :: "action_store \<Rightarrow> string \<Rightarrow> bool" where
  "storeIssued store callID = issuedCallIdentity (sto_key store) (sto_repository_identity store) callID"

definition migrateLegacyHistory :: "action_store \<Rightarrow> time_library \<Rightarrow> action_state \<Rightarrow> int \<Rightarrow> action_state" where
  "migrateLegacyHistory store lib s now =
     (if sta_format_version s \<noteq> legacyStateFormatVersion then s
      else
        (let active = activeReservations s;
             approvals = filterRecords (sta_approvals s) (\<lambda>a.
               apr_status a \<noteq> StatusPending
               \<and> (apr_reservation_identity a = ''absent'' \<or> apr_reservation_identity a \<notin> active)
               \<and> (case tim_parse lib (apq_expires_at (apr_request a)) of None \<Rightarrow> False | Some expires \<Rightarrow> expires < now)
               \<and> \<not> storeIssued store (apq_call_id (apr_request a)));
             referenced = approvalReservationReferences approvals
         in s\<lparr>sta_format_version := StateFormatVersion, sta_approvals := approvals,
              sta_terminal_calls := filterRecords (sta_terminal_calls s) (\<lambda>t.
                trm_reservation_identity t \<notin> referenced \<and> \<not> storeIssued store (trm_call_id t))\<rparr>))"

section \<open>What is kept\<close>

lemma prune_fields [simp]:
  "sta_budgets (pruneRetainedHistory lib s now) = sta_budgets s"
  "sta_reservations (pruneRetainedHistory lib s now) = sta_reservations s"
  "sta_revision (pruneRetainedHistory lib s now) = sta_revision s"
  "sta_last_observed (pruneRetainedHistory lib s now) = sta_last_observed s"
  "sta_clock_source (pruneRetainedHistory lib s now) = sta_clock_source s"
  "sta_format_version (pruneRetainedHistory lib s now) = sta_format_version s"
  by (simp_all add: pruneRetainedHistory_def Let_def)

lemma migrate_fields [simp]:
  "sta_budgets (migrateLegacyHistory store lib s now) = sta_budgets s"
  "sta_reservations (migrateLegacyHistory store lib s now) = sta_reservations s"
  "sta_revision (migrateLegacyHistory store lib s now) = sta_revision s"
  "sta_last_observed (migrateLegacyHistory store lib s now) = sta_last_observed s"
  "sta_clock_source (migrateLegacyHistory store lib s now) = sta_clock_source s"
  by (simp_all add: migrateLegacyHistory_def Let_def)

lemma prune_tables:
  "set (sta_terminal_calls (pruneRetainedHistory lib s now)) \<subseteq> set (sta_terminal_calls s)"
  "set (sta_approvals (pruneRetainedHistory lib s now)) \<subseteq> set (sta_approvals s)"
  by (auto simp: pruneRetainedHistory_def Let_def filterRecords_def)

lemma migrate_tables:
  "set (sta_terminal_calls (migrateLegacyHistory store lib s now)) \<subseteq> set (sta_terminal_calls s)"
  "set (sta_approvals (migrateLegacyHistory store lib s now)) \<subseteq> set (sta_approvals s)"
  by (auto simp: migrateLegacyHistory_def Let_def filterRecords_def)

lemma prune_wf: "state_wf s \<Longrightarrow> state_wf (pruneRetainedHistory lib s now)"
  by (auto simp: state_wf_def pruneRetainedHistory_def Let_def filterRecords_def keys_sorted_filter)

lemma migrate_wf: "state_wf s \<Longrightarrow> state_wf (migrateLegacyHistory store lib s now)"
  by (auto simp: state_wf_def migrateLegacyHistory_def Let_def filterRecords_def keys_sorted_filter)

text \<open>A finished call is only forgotten when no later admission can accept it.\<close>

definition inadmissible :: "action_store \<Rightarrow> string \<Rightarrow> int \<Rightarrow> bool" where
  "inadmissible store callID now \<longleftrightarrow> callIdentityExpired callID now \<or> \<not> storeIssued store callID"

lemma inadmissible_mono: "inadmissible store callID now \<Longrightarrow> now \<le> later \<Longrightarrow> inadmissible store callID later"
  by (auto simp: inadmissible_def callIdentityExpired_def split: option.splits)

lemma inadmissible_refused:
  "inadmissible store callID now \<Longrightarrow> \<exists>e. requireAdmissibleCallID (sto_key store) (sto_repository_identity store) callID now = Inl e"
  by (auto simp: inadmissible_def callIdentityExpired_def storeIssued_def requireAdmissibleCallID_def Let_def
      CallIdentityClockSkew_def CallIdentityAdmissionWindow_def split: option.splits)

lemma prune_forgets:
  "t \<in> set (sta_terminal_calls s) \<Longrightarrow> t \<notin> set (sta_terminal_calls (pruneRetainedHistory lib s now)) \<Longrightarrow>
     inadmissible store (trm_call_id t) now"
  by (auto simp: pruneRetainedHistory_def Let_def filterRecords_def inadmissible_def)

lemma migrate_forgets:
  "t \<in> set (sta_terminal_calls s) \<Longrightarrow> t \<notin> set (sta_terminal_calls (migrateLegacyHistory store lib s now)) \<Longrightarrow>
     inadmissible store (trm_call_id t) now"
  by (auto simp: migrateLegacyHistory_def Let_def filterRecords_def inadmissible_def split: if_splits)

end
