(* ===== verification/State_Store.thy ===== *)
theory State_Store
  imports State_Retention
begin

text \<open>
  The written state (store.go, state_validate.go): the JSON encoding of a state, the digest over
  it, the state before the first write, and what a write makes of the next state before it is
  published. The lemmas show that the digest covers every field and that a write keeps what the
  transitions keep.
\<close>

section \<open>Encoding\<close>

fun reservation_status_text :: "reservation_status \<Rightarrow> string" where
  "reservation_status_text ReservationReserved = ''reserved''"
| "reservation_status_text ReservationDispatched = ''dispatched''"
| "reservation_status_text ReservationIndeterminate = ''indeterminate''"
| "reservation_status_text (ReservationStatusOther t) = t"

fun receipt_status_text :: "receipt_status \<Rightarrow> string" where
  "receipt_status_text StatusPending = ''pending''"
| "receipt_status_text StatusApproved = ''approved''"
| "receipt_status_text StatusRejected = ''rejected''"
| "receipt_status_text StatusExpired = ''expired''"
| "receipt_status_text StatusCancelled = ''cancelled''"
| "receipt_status_text StatusUnavailable = ''unavailable''"
| "receipt_status_text StatusMalformed = ''malformed''"
| "receipt_status_text StatusReplayed = ''replayed''"
| "receipt_status_text (StatusOther t) = t"

fun receipt_decision_text :: "receipt_decision \<Rightarrow> string" where
  "receipt_decision_text ReceiptUnset = []"
| "receipt_decision_text ReceiptApprove = ''approve''"
| "receipt_decision_text ReceiptReject = ''reject''"
| "receipt_decision_text (ReceiptOther t) = t"

definition int_field :: "string \<Rightarrow> int \<Rightarrow> (string \<times> json) list" where
  "int_field name n = [(name, JNumber (show_int n))]"

text \<open>A stored scope lists its credentials explicitly, an empty list included.\<close>

definition listed_scope_json :: "budget_scope \<Rightarrow> json" where
  "listed_scope_json s =
     JRecord (text_field ''repository_identity'' (scp_repository_identity s) @ text_field ''principal'' (scp_principal s)
       @ texts_field ''credential_labels'' (scp_credential_labels s)
       @ text_field ''server_label'' (scp_server_label s) @ text_field ''server_identity'' (scp_server_identity s)
       @ text_field ''tool_id'' (scp_tool_id s) @ text_field ''run_identity'' (scp_run_identity s)
       @ text_field ''session_identity'' (scp_session_identity s)
       @ text_field ''window_identity'' (scp_window_identity s)
       @ (if scp_window_start_unix s = 0 then [] else int_field ''window_start_unix'' (scp_window_start_unix s)))"

definition budget_record_json :: "budget_record \<Rightarrow> json" where
  "budget_record_json r =
     JRecord (text_field ''budget_id'' (brc_budget_id r) @ text_field ''scope_identity'' (brc_scope_identity r)
       @ text_field ''lineage_identity'' (brc_lineage_identity r) @ [(''scope'', listed_scope_json (brc_scope r))]
       @ text_field ''reset'' (budget_reset_text (brc_reset r)) @ nat_omitted ''window_seconds'' (unat (brc_window_seconds r))
       @ [(''limits'', limits_json (brc_limits r)), (''consumed'', usage_json (brc_consumed r)),
          (''generation'', generation_json (brc_generation r)),
          (''generation_history'', JList (map generation_json (brc_generation_history r)))])"

definition charge_json :: "reservation_charge \<Rightarrow> json" where
  "charge_json c =
     JRecord (text_field ''budget_id'' (chg_budget_id c) @ text_field ''scope_identity'' (chg_scope_identity c)
       @ text_field ''lineage_identity'' (chg_lineage_identity c) @ [(''generation'', generation_json (chg_generation c)),
          (''reserved'', usage_json (chg_reserved c))]
       @ bool_field ''dispatch_committed'' (chg_dispatch_committed c)
       @ nat_field ''committed_approvals'' (unat (chg_committed_approvals c)))"

definition reservation_json :: "reservation \<Rightarrow> json" where
  "reservation_json r =
     JRecord (text_field ''identity'' (rsv_identity r) @ text_field ''call_id'' (rsv_call_id r)
       @ text_field ''owner_id'' (rsv_owner_id r) @ text_field ''request_identity'' (rsv_request_identity r)
       @ text_field ''context_identity'' (rsv_context_identity r) @ text_field ''executable_digest'' (rsv_executable_digest r)
       @ text_field ''status'' (reservation_status_text (rsv_status r)) @ int_field ''created_at_unix'' (rsv_created_at_unix r)
       @ int_field ''updated_at_unix'' (rsv_updated_at_unix r) @ [(''charges'', JList (map charge_json (rsv_charges r)))])"

definition terminal_json :: "terminal_call \<Rightarrow> json" where
  "terminal_json t =
     JRecord (text_field ''call_id'' (trm_call_id t) @ text_field ''reservation_identity'' (trm_reservation_identity t)
       @ text_field ''outcome'' (outcome_text (trm_outcome t)) @ int_field ''completed_at_unix'' (trm_completed_at_unix t))"

definition selected_json :: "selected_argument \<Rightarrow> json" where
  "selected_json a =
     JRecord (text_field ''pointer'' (sel_pointer a) @ text_field ''state'' (pointer_state_text (sel_state a))
       @ text_omitted ''kind'' (case sel_kind a of None \<Rightarrow> [] | Some k \<Rightarrow> value_kind_text k)
       @ nat_field ''byte_length'' (unat (sel_byte_length a)) @ text_field ''identity'' (sel_identity a))"

definition approval_request_json :: "approval_request \<Rightarrow> json" where
  "approval_request_json r =
     JRecord (text_field ''schema'' (apq_schema r) @ text_field ''format_version'' (apq_format_version r)
       @ text_field ''request_id'' (apq_request_id r) @ text_field ''call_id'' (apq_call_id r)
       @ text_field ''request_identity'' (apq_request_identity r)
       @ text_field ''required_approval_identity'' (apq_required_approval_identity r)
       @ text_field ''plan_identity'' (apq_plan_identity r) @ text_field ''source_identity'' (apq_source_identity r)
       @ text_field ''repository_identity'' (apq_repository_identity r) @ text_field ''state_version'' (apq_state_version r)
       @ text_field ''policy_digest'' (apq_policy_digest r) @ text_field ''lock_digest'' (apq_lock_digest r)
       @ text_field ''executable_digest'' (apq_executable_digest r) @ text_field ''server_label'' (apq_server_label r)
       @ text_field ''server_fingerprint'' (apq_server_fingerprint r) @ text_field ''tool_id'' (apq_tool_id r)
       @ text_field ''tool'' (apq_tool r) @ text_field ''tool_contract_digest'' (apq_tool_contract_digest r)
       @ text_field ''phase'' (phase_text (apq_phase r)) @ text_field ''principal'' (apq_principal r)
       @ text_field ''context_identity'' (apq_context_identity r) @ texts_field ''credential_labels'' (apq_credential_labels r)
       @ text_field ''taint_identity'' (apq_taint_identity r)
       @ text_field ''repository_effect_identity'' (apq_repository_effect_identity r)
       @ [(''selected_arguments'', JList (map selected_json (apq_selected_arguments r)))]
       @ text_field ''budget_reservation_id'' (apq_budget_reservation_id r)
       @ text_field ''reason_code'' (reason_text (apq_reason_code r)) @ texts_field ''rule_ids'' (apq_rule_ids r)
       @ text_field ''authority_policy_id'' (apq_authority_policy_id r) @ text_field ''issued_at'' (apq_issued_at r)
       @ text_field ''expires_at'' (apq_expires_at r) @ text_field ''nonce'' (apq_nonce r))"

definition denial_json :: "denial_accounting \<Rightarrow> json" where
  "denial_json d =
     JRecord (nat_field ''consumed_count'' (unat (dac_consumed_count d))
       @ bool_field ''capacity_exhausted'' (dac_capacity_exhausted d))"

definition approval_record_json :: "approval_record \<Rightarrow> json" where
  "approval_record_json a =
     JRecord ([(''request'', approval_request_json (apr_request a))]
       @ text_field ''status'' (receipt_status_text (apr_status a))
       @ text_field ''reservation_identity'' (apr_reservation_identity a)
       @ text_field ''nonce_identity'' (apr_nonce_identity a) @ text_omitted ''registry_identity'' (apr_registry_identity a)
       @ text_omitted ''authority_key_id'' (apr_authority_key_id a) @ text_omitted ''receipt_id'' (apr_receipt_id a)
       @ text_omitted ''receipt_identity'' (apr_receipt_identity a)
       @ text_omitted ''receipt_signed_at'' (apr_receipt_signed_at a)
       @ text_omitted ''receipt_decision'' (receipt_decision_text (apr_receipt_decision a))
       @ text_omitted ''receipt_signature'' (apr_receipt_signature a) @ int_field ''updated_at_unix'' (apr_updated_at_unix a)
       @ tree_omitted ''denial_accounting'' (map_option denial_json (apr_denial_accounting a)))"

definition state_payload_fields :: "action_state \<Rightarrow> (string \<times> json) list" where
  "state_payload_fields s =
     text_field ''schema'' (sta_schema s) @ text_field ''format_version'' (sta_format_version s)
     @ text_field ''key_id'' (sta_key_id s) @ text_field ''repository_identity'' (sta_repository_identity s)
     @ nat_field ''revision'' (unat (sta_revision s)) @ text_field ''clock_source'' (sta_clock_source s)
     @ int_field ''last_observed_unix_nano'' (sta_last_observed s)
     @ [(''budgets'', JList (map budget_record_json (sta_budgets s))),
        (''reservations'', JList (map reservation_json (sta_reservations s))),
        (''terminal_calls'', JList (map terminal_json (sta_terminal_calls s))),
        (''approvals'', JList (map approval_record_json (sta_approvals s)))]"

definition state_payload_json :: "action_state \<Rightarrow> json" where
  "state_payload_json s = JRecord (state_payload_fields s)"

definition state_json :: "action_state \<Rightarrow> json" where
  "state_json s = JRecord (state_payload_fields s @ text_field ''digest'' (sta_digest s))"

definition stateDigest :: "action_store \<Rightarrow> action_state \<Rightarrow> string" where
  "stateDigest store s = key_identity (sto_key store) DomainState [encode (state_payload_json s)]"

section \<open>States before and after a write\<close>

definition initialState :: "action_store \<Rightarrow> action_state" where
  "initialState store =
     (let s = \<lparr>sta_schema = StateSchema, sta_format_version = StateFormatVersion, sta_key_id = ikey_id (sto_key store),
            sta_repository_identity = sto_repository_identity store, sta_revision = 0, sta_clock_source = [],
            sta_last_observed = 0, sta_budgets = [], sta_reservations = [], sta_terminal_calls = [],
            sta_approvals = [], sta_digest = []\<rparr>
      in s\<lparr>sta_digest := stateDigest store s\<rparr>)"

definition validateState :: "action_store \<Rightarrow> time_library \<Rightarrow> action_state \<Rightarrow> bool \<Rightarrow> state_error option" where
  "validateState store lib s persisted =
     (case validateStateContract store lib s persisted of
        Some e \<Rightarrow> Some e
      | None \<Rightarrow> if stateDigest store s \<noteq> sta_digest s
                 then Some (ReasonStateCorrupt, ''action state digest is invalid'') else None)"

text \<open>The state a write publishes, \<open>writeStateWithHeadroom\<close> up to the transaction.\<close>

definition sealState :: "action_store \<Rightarrow> time_library \<Rightarrow> action_state \<Rightarrow> bool \<Rightarrow> action_state \<Rightarrow> state_error + action_state" where
  "sealState store lib previous persisted next =
     (if sta_revision previous = max_uint64 then Inl (ReasonStateCorrupt, ''action state revision saturated'')
      else
        (case validateState store lib previous persisted of
           Some e \<Rightarrow> Inl e
         | None \<Rightarrow>
             (let now = sta_last_observed next; next = migrateLegacyHistory store lib next now
              in if sta_format_version next \<noteq> StateFormatVersion
                 then Inl (ReasonStateCorrupt, ''action state format cannot be written'')
                 else
                   (let next = (pruneRetainedHistory lib next now)\<lparr>sta_revision := sta_revision previous + 1\<rparr>;
                        next = next\<lparr>sta_digest := stateDigest store next\<rparr>
                    in case validateStateContract store lib next True of Some e \<Rightarrow> Inl e | None \<Rightarrow> Inr next))))"

section \<open>What a write keeps\<close>

lemma sealState_Inr:
  assumes "sealState store lib previous persisted next = Inr t"
  shows "sta_budgets t = sta_budgets next" and "sta_reservations t = sta_reservations next"
    and "sta_last_observed t = sta_last_observed next" and "sta_clock_source t = sta_clock_source next"
    and "unat (sta_revision t) = Suc (unat (sta_revision previous))"
    and "sta_digest t = stateDigest store t" and "validateStateContract store lib t True = None"
    and "set (sta_terminal_calls t) \<subseteq> set (sta_terminal_calls next)"
    and "x \<in> set (sta_terminal_calls next) \<Longrightarrow>
      x \<in> set (sta_terminal_calls t) \<or> inadmissible store (trm_call_id x) (sta_last_observed t)"
    and "validateState store lib previous persisted = None"
proof -
  let ?m = "migrateLegacyHistory store lib next (sta_last_observed next)"
  let ?p = "(pruneRetainedHistory lib ?m (sta_last_observed next))\<lparr>sta_revision := sta_revision previous + 1\<rparr>"
  have t: "t = ?p\<lparr>sta_digest := stateDigest store ?p\<rparr>" and c: "validateStateContract store lib t True = None"
    and r: "sta_revision previous \<noteq> max_uint64" and v: "validateState store lib previous persisted = None"
    using assms by (auto simp: sealState_def Let_def split: if_splits option.splits)
  have same: "stateDigest store (x\<lparr>sta_digest := d\<rparr>) = stateDigest store x" for x d
    by (simp add: stateDigest_def state_payload_json_def state_payload_fields_def)
  show "sta_budgets t = sta_budgets next" "sta_reservations t = sta_reservations next"
    "sta_last_observed t = sta_last_observed next" "sta_clock_source t = sta_clock_source next"
    "sta_digest t = stateDigest store t" "validateStateContract store lib t True = None"
    "validateState store lib previous persisted = None"
    using c v by (simp_all add: t same)
  have "sta_revision previous + 1 \<noteq> 0"
  proof
    assume "sta_revision previous + 1 = 0"
    then have "sta_revision previous = - 1" by (simp add: eq_neg_iff_add_eq_0)
    then show False using r by simp
  qed
  then show "unat (sta_revision t) = Suc (unat (sta_revision previous))" by (simp add: t unatSuc add.commute)
  show "set (sta_terminal_calls t) \<subseteq> set (sta_terminal_calls next)"
    using prune_tables(1) [of lib ?m "sta_last_observed next"] migrate_tables(1) [of store lib "next" "sta_last_observed next"]
    by (auto simp: t)
  show "x \<in> set (sta_terminal_calls t) \<or> inadmissible store (trm_call_id x) (sta_last_observed t)"
    if "x \<in> set (sta_terminal_calls next)"
    using prune_forgets [of x ?m lib "sta_last_observed next"] migrate_forgets [OF that, of store lib "sta_last_observed next"]
    by (auto simp: t)
qed

end
