(* ===== verification/State_Reserve.thy ===== *)
theory State_Reserve
  imports State_Store "HOL-Library.Signed_Division"
begin

text \<open>
  Reserving budgets for a call (budget_store.go): the budgets that a compiled plan declares for a
  request, the scope and the lineage of each, the upkeep of their records, the capacity check and
  the reservation. The lemmas show that a granted reservation stays within the limit of every
  declared budget and that a finished call is never granted another reservation.
\<close>

section \<open>The compiled plan\<close>

record compiled_plan =
  cpn_plan :: plan
  cpn_tool_by_exact :: "string \<rightharpoonup> nat"
  cpn_rules :: "compiled_rule list"
  cpn_budgets :: "budget list"
  cpn_identity :: string
  cpn_validated :: bool

definition NewEvaluator :: "compiled_plan \<Rightarrow> evaluator option" where
  "NewEvaluator p =
     (if \<not> cpn_validated p \<or> \<not> sha256IdentityPattern (cpn_identity p) then None
      else Some \<lparr>evr_plan = cpn_plan p, evr_rules = cpn_rules p, evr_tool_by_exact = cpn_tool_by_exact p,
             evr_identity = cpn_identity p\<rparr>)"

definition BudgetContract :: "compiled_plan \<Rightarrow> request \<Rightarrow> request_error + tool \<times> budget list" where
  "BudgetContract p r =
     (let absent = request_failure ReasonToolUnclassified
            ''request tool identity is not declared by the compiled action plan''
      in case lookupToolIndex (cpn_tool_by_exact p) (request_tool r) of
           None \<Rightarrow> Inl absent
         | Some index \<Rightarrow>
             if length (pln_tools (cpn_plan p)) \<le> index then Inl absent
             else
               (let t = pln_tools (cpn_plan p) ! index
                in if req_phase r \<noteq> PhasePreCall then Inr (t, [])
                   else Inr (t, filter (\<lambda>b. selectorMatches (bud_selector b) r (tool_id t)) (cpn_budgets p))))"

section \<open>The request of a reservation\<close>

record reserve_request =
  rin_plan :: compiled_plan
  rin_request :: request
  rin_context :: bound_context
  rin_authority :: policy_authority
  rin_server :: observed_server

text \<open>
  An answer depends on the digest of the state it leaves, which only the write knows: the snapshot
  of the budgets for the evaluator and the reservation, when one was made or found.
\<close>

type_synonym reserve_result = "budget_snapshot \<times> reservation option"

definition validateReserveRequest :: "action_store \<Rightarrow> observation \<Rightarrow> reserve_request \<Rightarrow> state_error option" where
  "validateReserveRequest store obs inp =
     (let r = rin_request inp
      in case CanonicalRequest r of
           Inl e \<Rightarrow> Some (ReasonInvalidRequest, ''budget reservation request is invalid'')
         | Inr body \<Rightarrow>
             (case resampleRepositoryIdentity store obs of
                Some e \<Rightarrow> Some e
              | None \<Rightarrow>
                  if pau_mode (rin_authority inp) \<noteq> req_authority_mode r
                  then Some (ReasonAuthorityUnavailable, ''policy authority does not match the canonical request'')
                  else if VerifyLockDigest (rin_authority inp) (req_lock_digest r) \<noteq> None
                  then Some (ReasonLockMismatch, ''verify fresh policy authority'')
                  else if req_repository_identity r \<noteq> sto_repository_identity store
                          \<or> \<not> identityUsesKey (req_repository_identity r) (ikey_id (sto_key store))
                          \<or> req_server_fingerprint r \<noteq> osv_server_identity (rin_server inp)
                  then Some (ReasonIdentityUnavailable, ''budget reservation identities are unavailable'')
                  else if server_Validate (rin_server inp) (sto_key store) \<noteq> None
                  then Some (ReasonIdentityUnavailable, ''fresh downstream server observation is invalid'')
                  else validateBoundContext store (rin_context inp) (req_server_label r)))"

definition rejectTerminalOrUnsafeRetry :: "action_state \<Rightarrow> string \<Rightarrow> string \<Rightarrow> state_error option" where
  "rejectTerminalOrUnsafeRetry s callID ownerID =
     (if find_key trm_call_id (sta_terminal_calls s) callID \<noteq> None
      then Some (ReasonReservationIndeterminate, ''action call identity is already terminal'')
      else if list_ex (\<lambda>r. rsv_call_id r = callID \<and> (rsv_owner_id r \<noteq> ownerID \<or> rsv_status r \<noteq> ReservationReserved))
                (sta_reservations s)
      then Some (ReasonReservationIndeterminate, ''action call already has a non-reusable reservation'')
      else None)"

section \<open>Scopes and lineages\<close>

text \<open>Integer division of the code truncates; a compiled window is positive.\<close>

definition windowStart :: "int \<Rightarrow> uint32 \<Rightarrow> int" where
  "windowStart now seconds = unix_seconds now sdiv uint seconds * uint seconds"

definition budgetScope ::
  "action_store \<Rightarrow> budget \<Rightarrow> string \<Rightarrow> reserve_request \<Rightarrow> int \<Rightarrow> state_error + budget_scope \<times> string \<times> string" where
  "budgetScope store declaration toolID inp now =
     (let k = sto_key store; r = rin_request inp; c = rin_context inp;
          run = bud_reset declaration = BudgetResetOperatorRun;
          session = bud_reset declaration = BudgetResetOperatorSession;
          windowed = bud_reset declaration = BudgetResetFixedWindow
      in if run \<and> bcx_run_identity c = []
         then Inl (ReasonIdentityUnavailable, ''run-reset budget requires an operator run identity'')
         else if session \<and> bcx_session_identity c = []
         then Inl (ReasonIdentityUnavailable, ''session-reset budget requires an operator session identity'')
         else
           (let start = (if windowed then windowStart now (bud_window_seconds declaration) else 0);
                credentials = map crb_label (bcx_credentials c);
                scope = \<lparr>scp_repository_identity = req_repository_identity r, scp_principal = bcx_principal c,
                  scp_credential_labels = credentials, scp_server_label = bcx_server_label c,
                  scp_server_identity = req_server_fingerprint r, scp_tool_id = toolID,
                  scp_run_identity = (if run then bcx_run_identity c else ''absent''),
                  scp_session_identity = (if session then bcx_session_identity c else ''absent''),
                  scp_window_identity = (if windowed
                    then key_identity k DomainBudget [''window'', bud_id declaration, show_int start] else ''absent''),
                  scp_window_start_unix = start\<rparr>;
                lineage = key_identity k DomainBudget
                  ([''lineage'', sto_project_key store, bud_id declaration, scp_principal scope, scp_server_label scope,
                    scp_tool_id scope, scp_run_identity scope, scp_session_identity scope, scp_window_identity scope]
                   @ credentials)
            in Inr (scope, lineage,
                 key_identity k DomainBudget [''scope'', lineage, encode (listed_scope_json scope)])))"

section \<open>Expired windows\<close>

definition fixedWindowExpired :: "budget_record \<Rightarrow> int \<Rightarrow> bool" where
  "fixedWindowExpired r now \<longleftrightarrow>
     (let seconds = uint (brc_window_seconds r)
      in 0 < seconds \<and> scp_window_start_unix (brc_scope r) sdiv seconds < unix_seconds now sdiv seconds)"

definition fixedWindowPruneKey :: "budget_record \<Rightarrow> string" where
  "fixedWindowPruneKey r =
     (let scope = brc_scope r
      in brc_budget_id r @ [CHR 0x00] @ scp_repository_identity scope @ [CHR 0x00] @ scp_principal scope @ [CHR 0x00]
         @ scp_server_label scope @ [CHR 0x00] @ scp_tool_id scope @ [CHR 0x00] @ show_nat (unat (brc_window_seconds r))
         @ List.concat (map (\<lambda>c. CHR 0x00 # c) (scp_credential_labels scope)))"

text \<open>A group of expired records: its key, the record to keep and all its indices.\<close>

type_synonym window_group = "string \<times> nat \<times> nat list"

fun addToGroup :: "budget_record list \<Rightarrow> string \<Rightarrow> nat \<Rightarrow> window_group list \<Rightarrow> window_group list" where
  "addToGroup records key i [] = [(key, i, [i])]"
| "addToGroup records key i ((k, keep, indices) # groups) =
     (if k = key
      then (k, (if scp_window_start_unix (brc_scope (records ! keep)) < scp_window_start_unix (brc_scope (records ! i))
                then i else keep), indices @ [i]) # groups
      else (k, keep, indices) # addToGroup records key i groups)"

fun windowGroups :: "budget_record list \<Rightarrow> string set \<Rightarrow> int \<Rightarrow> nat list \<Rightarrow> window_group list \<Rightarrow> window_group list" where
  "windowGroups records active now [] groups = groups"
| "windowGroups records active now (i # is) groups =
     (let r = records ! i
      in if brc_reset r \<noteq> BudgetResetFixedWindow \<or> brc_lineage_identity r \<in> active \<or> \<not> fixedWindowExpired r now
         then windowGroups records active now is groups
         else windowGroups records active now is (addToGroup records (fixedWindowPruneKey r) i groups))"

fun mergeHistory ::
  "budget_generation \<Rightarrow> budget_generation list \<Rightarrow> budget_generation list \<Rightarrow> state_error + budget_generation list" where
  "mergeHistory active [] history = Inr (history @ [active])"
| "mergeHistory active (g # gs) history =
     (if g = active \<or> g \<in> set history then mergeHistory active gs history
      else if MaxGenerationHistory \<le> length (history @ [g])
      then Inl (ReasonStateUnavailable, ''fixed-window generation history is exhausted'')
      else mergeHistory active gs (history @ [g]))"

definition mergedGenerationHistory ::
  "budget_record list \<Rightarrow> nat list \<Rightarrow> budget_generation \<Rightarrow> state_error + budget_generation list" where
  "mergedGenerationHistory records indices active =
     mergeHistory active (List.concat (map (\<lambda>i. brc_generation_history (records ! i)) indices)) []"

fun mergeGroups :: "window_group list \<Rightarrow> budget_record list \<Rightarrow> state_error + budget_record list \<times> nat list" where
  "mergeGroups [] records = Inr (records, [])"
| "mergeGroups ((k, keep, indices) # groups) records =
     (if length indices < 2 then mergeGroups groups records
      else
        (case mergedGenerationHistory records indices (brc_generation (records ! keep)) of
           Inl e \<Rightarrow> Inl e
         | Inr history \<Rightarrow>
             map_sum id (\<lambda>(records, remove). (records, filter (\<lambda>i. i \<noteq> keep) indices @ remove))
               (mergeGroups groups (records[keep := (records ! keep)\<lparr>brc_generation_history := history\<rparr>]))))"

text \<open>The map of groups is unordered; the groups are disjoint, and every error is the same.\<close>

definition pruneExpiredFixedWindowRecords :: "action_state \<Rightarrow> int \<Rightarrow> state_error + bool \<times> action_state" where
  "pruneExpiredFixedWindowRecords s now =
     (let records = sta_budgets s
      in if length records < 2 then Inr (False, s)
         else
           (let active = chg_lineage_identity ` set (List.concat (map rsv_charges (sta_reservations s)))
            in case mergeGroups (windowGroups records active now [0..<length records] []) records of
                 Inl e \<Rightarrow> Inl e
               | Inr (merged, remove) \<Rightarrow>
                   if remove = [] then Inr (False, s\<lparr>sta_budgets := merged\<rparr>)
                   else Inr (True, s\<lparr>sta_budgets :=
                     map (\<lambda>i. merged ! i) (filter (\<lambda>i. i \<notin> set remove) [0..<length merged])\<rparr>)))"

section \<open>Upkeep of a budget record\<close>

definition budgetCarryCompatible :: "budget_record \<Rightarrow> string \<Rightarrow> budget_scope \<Rightarrow> bool" where
  "budgetCarryCompatible r budgetID scope \<longleftrightarrow>
     brc_budget_id r = budgetID \<and> scp_repository_identity (brc_scope r) = scp_repository_identity scope
     \<and> scp_principal (brc_scope r) = scp_principal scope \<and> scp_server_label (brc_scope r) = scp_server_label scope
     \<and> scp_tool_id (brc_scope r) = scp_tool_id scope
     \<and> scp_credential_labels (brc_scope r) = scp_credential_labels scope"

definition sameReset :: "budget_record \<Rightarrow> budget \<Rightarrow> bool" where
  "sameReset r declaration \<longleftrightarrow>
     brc_reset r = bud_reset declaration \<and> brc_window_seconds r = bud_window_seconds declaration"

definition activeReservationBlocksLimitChange :: "action_state \<Rightarrow> budget_record \<Rightarrow> budget_limits \<Rightarrow> bool" where
  "activeReservationBlocksLimitChange s r limits \<longleftrightarrow>
     list_ex (\<lambda>v. list_ex (\<lambda>c. chg_lineage_identity c = brc_lineage_identity r
         \<and> validateReservationCharge (rsv_status v) c (r\<lparr>brc_limits := limits\<rparr>) \<noteq> None) (rsv_charges v))
       (sta_reservations s)"

definition activeReservationBlocksResetChange :: "action_state \<Rightarrow> budget \<Rightarrow> budget_scope \<Rightarrow> bool" where
  "activeReservationBlocksResetChange s declaration scope \<longleftrightarrow>
     list_ex (\<lambda>v. list_ex (\<lambda>c.
         case budgetRecordForLineage (sta_budgets s) (chg_lineage_identity c) of
           None \<Rightarrow> False
         | Some r \<Rightarrow> budgetCarryCompatible r (bud_id declaration) scope \<and> \<not> sameReset r declaration) (rsv_charges v))
       (sta_reservations s)"

text \<open>Generations not seen before, in the order they are met.\<close>

fun addGenerations ::
  "budget_generation \<Rightarrow> budget_generation list \<Rightarrow> budget_generation list \<Rightarrow> budget_generation list" where
  "addGenerations generation [] history = history"
| "addGenerations generation (g # gs) history =
     (if g \<in> set history \<or> g = generation then addGenerations generation gs history
      else addGenerations generation gs (history @ [g]))"

fun carryLoop ::
  "budget \<Rightarrow> budget_scope \<Rightarrow> budget_generation \<Rightarrow> budget_record list \<Rightarrow> budget_usage \<times> budget_generation list
     \<Rightarrow> budget_usage \<times> budget_generation list" where
  "carryLoop declaration scope generation [] acc = acc"
| "carryLoop declaration scope generation (r # rs) (consumed, history) =
     (if \<not> budgetCarryCompatible r (bud_id declaration) scope \<or> sameReset r declaration
      then carryLoop declaration scope generation rs (consumed, history)
      else carryLoop declaration scope generation rs
        (saturatingUsageAdd consumed (brc_consumed r),
         addGenerations generation (brc_generation_history r) history))"

definition carryForwardChangedReset ::
  "budget_record list \<Rightarrow> budget \<Rightarrow> budget_scope \<Rightarrow> budget_generation \<Rightarrow> state_error + budget_usage \<times> budget_generation list"
where
  "carryForwardChangedReset records declaration scope generation =
     (if list_ex (\<lambda>r. budgetCarryCompatible r (bud_id declaration) scope \<and> sameReset r declaration
           \<and> brc_generation r = generation) records
      then Inr (noUsage, [generation])
      else
        (case carryLoop declaration scope generation records (noUsage, []) of
           (consumed, history) \<Rightarrow>
             if MaxGenerationHistory \<le> length history
             then Inl (ReasonStateUnavailable, ''budget reset migration history is exhausted'')
             else Inr (consumed, history @ [generation])))"

definition upsertBudgetRecord ::
  "action_state \<Rightarrow> budget \<Rightarrow> budget_scope \<Rightarrow> string \<Rightarrow> string \<Rightarrow> budget_generation
     \<Rightarrow> state_error + action_state \<times> budget_record \<times> bool"
where
  "upsertBudgetRecord s declaration scope lineage scopeIdentity generation =
     (let budgets = sta_budgets s; index = search_index brc_lineage_identity budgets lineage
      in if index = length budgets \<or> brc_lineage_identity (budgets ! index) \<noteq> lineage
         then
           (if MaxBudgetRecords \<le> length budgets
            then Inl (ReasonStateUnavailable, ''budget record capacity is exhausted'')
            else if activeReservationBlocksResetChange s declaration scope
            then Inl (ReasonReservationIndeterminate,
                   ''budget reset contract cannot change while a prior compatible reservation is active'')
            else
              (case carryForwardChangedReset budgets declaration scope generation of
                 Inl e \<Rightarrow> Inl e
               | Inr (consumed, history) \<Rightarrow>
                   (let r = \<lparr>brc_budget_id = bud_id declaration, brc_scope_identity = scopeIdentity,
                          brc_lineage_identity = lineage, brc_scope = scope, brc_reset = bud_reset declaration,
                          brc_window_seconds = bud_window_seconds declaration, brc_limits = bud_limits declaration,
                          brc_consumed = consumed, brc_generation = generation, brc_generation_history = history\<rparr>
                    in Inr (s\<lparr>sta_budgets := take index budgets @ r # drop index budgets\<rparr>, r, True))))
         else
           (let r = budgets ! index; limitsChanged = brc_limits r \<noteq> bud_limits declaration;
                resetChanged = \<not> sameReset r declaration
            in if brc_budget_id r \<noteq> bud_id declaration
               then Inl (ReasonStateCorrupt, ''budget lineage collides with a different contract'')
               else if (resetChanged \<or> limitsChanged) \<and> brc_generation r = generation
               then Inl (ReasonStateCorrupt, ''budget contract changed without a governing generation change'')
               else if limitsChanged \<and> activeReservationBlocksLimitChange s r (bud_limits declaration)
               then Inl (ReasonReservationIndeterminate, ''budget limits cannot invalidate a prior active reservation'')
               else if brc_generation r \<noteq> generation \<and> MaxGenerationHistory \<le> length (brc_generation_history r)
               then Inl (ReasonStateUnavailable, ''budget generation history is exhausted'')
               else
                 (let changed = (brc_scope_identity r \<noteq> scopeIdentity \<or> limitsChanged \<or> brc_generation r \<noteq> generation
                        \<or> resetChanged \<or> brc_scope r \<noteq> scope);
                      r' = r\<lparr>brc_generation_history := (if brc_generation r \<noteq> generation
                            then brc_generation_history r @ [generation] else brc_generation_history r),
                          brc_scope_identity := scopeIdentity, brc_scope := scope, brc_reset := bud_reset declaration,
                          brc_window_seconds := bud_window_seconds declaration, brc_limits := bud_limits declaration,
                          brc_generation := generation\<rparr>
                  in Inr (s\<lparr>sta_budgets := budgets[index := r']\<rparr>, r', changed))))"

section \<open>Candidates\<close>

definition candidateFromRecord ::
  "budget_record \<Rightarrow> budget_usage \<Rightarrow> budget_usage \<Rightarrow> bool \<Rightarrow> bool \<Rightarrow> reason_code \<Rightarrow> budget_candidate" where
  "candidateFromRecord r reserved required applied available reason =
     \<lparr>bc_budget_id = brc_budget_id r, bc_scope_identity = brc_scope_identity r,
      bc_lineage_identity = brc_lineage_identity r, bc_scope = brc_scope r, bc_reset = brc_reset r,
      bc_window_seconds = brc_window_seconds r, bc_limits = brc_limits r, bc_consumed = brc_consumed r,
      bc_reserved = reserved, bc_required = required, bc_reservation_applied = applied, bc_available = available,
      bc_reason = reason, bc_generation = brc_generation r\<rparr>"

definition candidatesExhausted :: "budget_candidate list \<Rightarrow> bool" where
  "candidatesExhausted cs = list_ex (\<lambda>c. \<not> bc_available c) cs"

definition exhaustedReason :: "bool \<Rightarrow> reason_code" where
  "exhaustedReason available = (if available then NoReason else ReasonBudgetExhausted)"

text \<open>The loop over the declarations, after the expired windows are pruned.\<close>

fun prepareEach ::
  "action_store \<Rightarrow> tool \<Rightarrow> reserve_request \<Rightarrow> budget_generation \<Rightarrow> int \<Rightarrow> (string \<Rightarrow> budget_usage) \<Rightarrow> budget list
     \<Rightarrow> action_state \<Rightarrow> bool \<Rightarrow> budget_candidate list \<Rightarrow> state_error + action_state \<times> bool \<times> budget_candidate list"
where
  "prepareEach store t inp generation now reservedBy [] s changed candidates = Inr (s, changed, candidates)"
| "prepareEach store t inp generation now reservedBy (b # bs) s changed candidates =
     (case budgetScope store b (tool_id t) inp now of
        Inl e \<Rightarrow> Inl e
      | Inr (scope, lineage, scopeIdentity) \<Rightarrow>
          (case upsertBudgetRecord s b scope lineage scopeIdentity generation of
             Inl e \<Rightarrow> Inl e
           | Inr (s, r, recordChanged) \<Rightarrow>
               (case expectedBudgetUsage (bud_limits b) t (rin_request inp) of
                  None \<Rightarrow> Inl (ReasonStateCorrupt, ''derive exact budget reservation charge'')
                | Some required \<Rightarrow>
                    (let available = budgetCapacityAvailable (bud_limits b) (brc_consumed r) (reservedBy lineage) required False
                     in prepareEach store t inp generation now reservedBy bs s (changed \<or> recordChanged)
                          (candidates @ [candidateFromRecord r (reservedBy lineage) required False available
                             (exhaustedReason available)])))))"

definition prepareCandidates ::
  "action_store \<Rightarrow> action_state \<Rightarrow> budget list \<Rightarrow> tool \<Rightarrow> reserve_request \<Rightarrow> budget_generation \<Rightarrow> int
     \<Rightarrow> state_error + action_state \<times> bool \<times> budget_candidate list"
where
  "prepareCandidates store s declarations t inp generation now =
     (case pruneExpiredFixedWindowRecords s now of
        Inl e \<Rightarrow> Inl e
      | Inr (changed, s) \<Rightarrow>
          (case reservedUsageByLineage (sta_reservations s) of
             Inl e \<Rightarrow> Inl e
           | Inr reservedBy \<Rightarrow> prepareEach store t inp generation now reservedBy declarations s changed []))"

fun candidatesEach ::
  "action_store \<Rightarrow> action_state \<Rightarrow> tool \<Rightarrow> reserve_request \<Rightarrow> budget_generation \<Rightarrow> int \<Rightarrow> (string \<Rightarrow> budget_usage)
     \<Rightarrow> budget list \<Rightarrow> state_error + budget_candidate list"
where
  "candidatesEach store s t inp generation now reservedBy [] = Inr []"
| "candidatesEach store s t inp generation now reservedBy (b # bs) =
     (case budgetScope store b (tool_id t) inp now of
        Inl e \<Rightarrow> Inl e
      | Inr (scope, lineage, scopeIdentity) \<Rightarrow>
          (case budgetRecordForLineage (sta_budgets s) lineage of
             None \<Rightarrow> Inl (ReasonStateCorrupt, ''reconstruct budget candidate from current state'')
           | Some r \<Rightarrow>
               if brc_scope_identity r \<noteq> scopeIdentity \<or> brc_generation r \<noteq> generation
               then Inl (ReasonStateCorrupt, ''reconstruct budget candidate from current state'')
               else
                 (case expectedBudgetUsage (bud_limits b) t (rin_request inp) of
                    None \<Rightarrow> Inl (ReasonStateCorrupt, ''derive exact budget reservation charge'')
                  | Some required \<Rightarrow>
                      (let available = budgetCapacityAvailable (brc_limits r) (brc_consumed r) (reservedBy lineage) required True
                       in map_sum id (\<lambda>cs. (candidateFromRecord r (reservedBy lineage) required True available
                              (exhaustedReason available))\<lparr>bc_scope := scope\<rparr> # cs)
                            (candidatesEach store s t inp generation now reservedBy bs)))))"

definition candidatesFromState ::
  "action_store \<Rightarrow> action_state \<Rightarrow> budget list \<Rightarrow> tool \<Rightarrow> reserve_request \<Rightarrow> budget_generation \<Rightarrow> int
     \<Rightarrow> state_error + budget_candidate list"
where
  "candidatesFromState store s declarations t inp generation now =
     (case reservedUsageByLineage (sta_reservations s) of
        Inl e \<Rightarrow> Inl e
      | Inr reservedBy \<Rightarrow> candidatesEach store s t inp generation now reservedBy declarations)"

section \<open>The snapshot and the reservation\<close>

definition listed_candidate_json :: "budget_candidate \<Rightarrow> json" where
  "listed_candidate_json c =
     JRecord (text_field ''budget_id'' (bc_budget_id c) @ text_field ''scope_identity'' (bc_scope_identity c)
       @ text_field ''lineage_identity'' (bc_lineage_identity c) @ [(''scope'', listed_scope_json (bc_scope c))]
       @ text_field ''reset'' (budget_reset_text (bc_reset c))
       @ nat_omitted ''window_seconds'' (unat (bc_window_seconds c))
       @ [(''limits'', limits_json (bc_limits c)), (''consumed'', usage_json (bc_consumed c)),
          (''reserved'', usage_json (bc_reserved c)), (''required'', usage_json (bc_required c))]
       @ bool_field ''reservation_applied'' (bc_reservation_applied c) @ bool_field ''available'' (bc_available c)
       @ text_omitted ''reason'' (reason_text (bc_reason c)) @ [(''generation'', generation_json (bc_generation c))])"

definition budgetSnapshot :: "action_store \<Rightarrow> string \<Rightarrow> string \<Rightarrow> budget_candidate list \<Rightarrow> budget_snapshot" where
  "budgetSnapshot store stateVersion identity candidates =
     \<lparr>bsn_state_version = stateVersion,
      bsn_identity = key_identity (sto_key store) DomainBudget [''snapshot'',
        encode (JRecord (text_field ''state_version'' stateVersion @ text_field ''reservation'' identity
          @ [(''candidates'', JList (map listed_candidate_json candidates))]))],
      bsn_reservation_identity = identity, bsn_complete = True, bsn_candidates = Some candidates\<rparr>"

definition absentBudgetSnapshot :: "string \<Rightarrow> budget_snapshot" where
  "absentBudgetSnapshot stateVersion =
     \<lparr>bsn_state_version = stateVersion, bsn_identity = ''absent'', bsn_reservation_identity = ''absent'',
      bsn_complete = True, bsn_candidates = Some []\<rparr>"

definition noBudgetSnapshot :: budget_snapshot where
  "noBudgetSnapshot =
     \<lparr>bsn_state_version = [], bsn_identity = [], bsn_reservation_identity = [], bsn_complete = False, bsn_candidates = None\<rparr>"

definition reservationRequestIdentity :: "action_store \<Rightarrow> reserve_request \<Rightarrow> state_error + string" where
  "reservationRequestIdentity store inp =
     (case CanonicalRequest ((rin_request inp)\<lparr>req_state_version := ''mutable-state-version''\<rparr>) of
        Inl e \<Rightarrow> Inl (ReasonInvalidRequest, ''encode stable reservation request identity'')
      | Inr body \<Rightarrow> Inr (key_identity (sto_key store) DomainUpstream
          [body, bcx_identity (rin_context inp), osv_executable_digest (rin_server inp)]))"

definition chargeOf :: "budget_candidate \<Rightarrow> reservation_charge" where
  "chargeOf c =
     \<lparr>chg_budget_id = bc_budget_id c, chg_scope_identity = bc_scope_identity c,
      chg_lineage_identity = bc_lineage_identity c, chg_generation = bc_generation c, chg_reserved = bc_required c,
      chg_dispatch_committed = False, chg_committed_approvals = 0\<rparr>"

text \<open>The entropy is what the random reader gives; fewer than 32 bytes are a failed read.\<close>

definition newReservation ::
  "action_store \<Rightarrow> reserve_request \<Rightarrow> budget_candidate list \<Rightarrow> int \<Rightarrow> string \<Rightarrow> state_error + reservation" where
  "newReservation store inp candidates now entropy =
     (if length entropy < 32 then Inl (ReasonStateUnavailable, ''generate budget reservation identity'')
      else
        (case reservationRequestIdentity store inp of
           Inl e \<Rightarrow> Inl e
         | Inr requestIdentity \<Rightarrow>
             Inr \<lparr>rsv_identity = key_identity (sto_key store) DomainBudget
                   [''reservation'', req_call_id (rin_request inp), take 32 entropy],
                 rsv_call_id = req_call_id (rin_request inp), rsv_owner_id = sto_owner_id store,
                 rsv_request_identity = requestIdentity, rsv_context_identity = bcx_identity (rin_context inp),
                 rsv_executable_digest = osv_executable_digest (rin_server inp), rsv_status = ReservationReserved,
                 rsv_created_at_unix = unix_seconds now, rsv_updated_at_unix = unix_seconds now,
                 rsv_charges = sort_key chg_lineage_identity (map chargeOf candidates)\<rparr>))"

definition reservationMatchesCandidates :: "reservation \<Rightarrow> budget_candidate list \<Rightarrow> bool" where
  "reservationMatchesCandidates r candidates \<longleftrightarrow>
     length (rsv_charges r) = length candidates
     \<and> list_all (\<lambda>c.
          case last_with bc_lineage_identity candidates (chg_lineage_identity c) of
            None \<Rightarrow> False
          | Some candidate \<Rightarrow>
              chg_budget_id c = bc_budget_id candidate \<and> chg_scope_identity c = bc_scope_identity candidate
              \<and> chg_generation c = bc_generation candidate
              \<and> (chg_reserved c)\<lparr>use_approval_count := 0\<rparr> = bc_required candidate) (rsv_charges r)"

definition requestGeneration :: "action_store \<Rightarrow> reserve_request \<Rightarrow> budget_generation" where
  "requestGeneration store inp =
     \<lparr>gen_policy_digest = req_policy_digest (rin_request inp),
      gen_executable_digest = osv_executable_digest (rin_server inp),
      gen_tool_contract_digest = req_tool_contract_digest (rin_request inp), gen_key_id = ikey_id (sto_key store)\<rparr>"

definition retryReservationSnapshot ::
  "action_store \<Rightarrow> action_state \<Rightarrow> reservation \<Rightarrow> budget list \<Rightarrow> tool \<Rightarrow> reserve_request \<Rightarrow> clock_snapshot
     \<Rightarrow> (string \<Rightarrow> reserve_result) outcome"
where
  "retryReservationSnapshot store s r declarations t inp clock =
     (case requireCurrentReservationContract s r (clk_time clock) of
        Some e \<Rightarrow> persistClockObservationOnFailure s clock e
      | None \<Rightarrow>
          (case reservationRequestIdentity store inp of
             Inl e \<Rightarrow> Refused e
           | Inr requestIdentity \<Rightarrow>
               if rsv_request_identity r \<noteq> requestIdentity \<or> rsv_context_identity r \<noteq> bcx_identity (rin_context inp)
                  \<or> rsv_executable_digest r \<noteq> osv_executable_digest (rin_server inp)
               then Refused (ReasonReservationIndeterminate, ''call identity was reused with changed trusted input'')
               else
                 (case candidatesFromState store s declarations t inp (requestGeneration store inp) (clk_time clock) of
                    Inl e \<Rightarrow> Refused e
                  | Inr candidates \<Rightarrow>
                      if length candidates \<noteq> length declarations \<or> candidatesExhausted candidates
                      then Refused (ReasonStateCorrupt, ''existing reservation no longer matches its budget records'')
                      else if \<not> reservationMatchesCandidates r candidates
                      then Refused (ReasonReservationIndeterminate,
                             ''existing reservation no longer matches its exact charges'')
                      else Unchanged (\<lambda>version. (budgetSnapshot store version (rsv_identity r) candidates, Some r)))))"

section \<open>Reserve\<close>

definition grantReservation ::
  "action_store \<Rightarrow> time_library \<Rightarrow> clock_snapshot \<Rightarrow> string \<Rightarrow> action_state \<Rightarrow> budget list \<Rightarrow> tool \<Rightarrow> reserve_request
     \<Rightarrow> budget_candidate list \<Rightarrow> (string \<Rightarrow> reserve_result) outcome"
where
  "grantReservation store lib clock entropy s declarations t inp candidates =
     (let s = pruneRetainedHistory lib s (clk_time clock)
      in if MaxReservations \<le> length (sta_reservations s)
            \<or> MaxTerminalCallRecords \<le> length (sta_reservations s) + length (sta_terminal_calls s)
         then Refused (ReasonStateUnavailable, ''action reservation capacity is exhausted'')
         else
           (case newReservation store inp candidates (clk_time clock) entropy of
              Inl e \<Rightarrow> Refused e
            | Inr r \<Rightarrow>
                (let s = applyClock (s\<lparr>sta_reservations := sort_key rsv_identity (sta_reservations s @ [r])\<rparr>) clock
                 in case candidatesFromState store s declarations t inp (requestGeneration store inp) (clk_time clock) of
                      Inl e \<Rightarrow> AdvanceThen s (\<lambda>version. (noBudgetSnapshot, None)) e
                    | Inr candidates \<Rightarrow>
                        Advance s (\<lambda>version. (budgetSnapshot store version (rsv_identity r) candidates, Some r)))))"

definition reserveLocked ::
  "action_store \<Rightarrow> time_library \<Rightarrow> observation \<Rightarrow> string \<Rightarrow> action_state \<Rightarrow> reserve_request
     \<Rightarrow> (string \<Rightarrow> reserve_result) outcome"
where
  "reserveLocked store lib obs entropy s inp =
     (let r = rin_request inp; callID = req_call_id r
      in case validateReserveRequest store obs inp of
           Some e \<Rightarrow> Refused e
         | None \<Rightarrow>
             if req_state_version r \<noteq> sta_digest s
             then Refused (ReasonStateUnavailable, ''action state changed before reservation'')
             else
               (case rejectTerminalOrUnsafeRetry s callID (sto_owner_id store) of
                  Some e \<Rightarrow> Refused e
                | None \<Rightarrow>
                    (case BudgetContract (rin_plan inp) r of
                       Inl e \<Rightarrow> Refused (rqe_code e, ''resolve compiled budget contract'')
                     | Inr (t, declarations) \<Rightarrow>
                         if declarations = [] then Unchanged (\<lambda>version. (absentBudgetSnapshot version, None))
                         else
                           (case trustedNow obs s of
                              Inl e \<Rightarrow> Refused e
                            | Inr clock \<Rightarrow>
                                (case reservationForCall (sta_reservations s) callID of
                                   Some existing \<Rightarrow>
                                     retryReservationSnapshot store s existing declarations t inp clock
                                 | None \<Rightarrow>
                                     (case requireAdmissibleCallID (sto_key store) (sto_repository_identity store) callID
                                             (clk_time clock) of
                                        Inl e \<Rightarrow> Refused e
                                      | Inr u \<Rightarrow>
                                          (case prepareCandidates store s declarations t inp (requestGeneration store inp)
                                                  (clk_time clock) of
                                             Inl e \<Rightarrow> Refused e
                                           | Inr (s, contractChanged, candidates) \<Rightarrow>
                                               if candidatesExhausted candidates
                                               then
                                                 (if contractChanged
                                                  then Advance (applyClock s clock)
                                                    (\<lambda>version. (budgetSnapshot store version ''absent'' candidates, None))
                                                  else Unchanged
                                                    (\<lambda>version. (budgetSnapshot store version ''absent'' candidates, None)))
                                               else grantReservation store lib clock entropy s declarations t inp candidates)))))))"

section \<open>Expired windows lose nothing that is held\<close>

text \<open>Merging changes only histories, and removing records keeps the order of the others.\<close>

definition same_but_history :: "budget_record \<Rightarrow> budget_record \<Rightarrow> bool" where
  "same_but_history r r' \<longleftrightarrow> r'\<lparr>brc_generation_history := []\<rparr> = r\<lparr>brc_generation_history := []\<rparr>"

lemma same_but_history_fields:
  assumes "same_but_history r r'"
  shows "brc_lineage_identity r' = brc_lineage_identity r" "brc_consumed r' = brc_consumed r" "brc_limits r' = brc_limits r"
    "brc_budget_id r' = brc_budget_id r"
  using arg_cong [OF assms [unfolded same_but_history_def], of brc_lineage_identity]
    arg_cong [OF assms [unfolded same_but_history_def], of brc_consumed]
    arg_cong [OF assms [unfolded same_but_history_def], of brc_limits]
    arg_cong [OF assms [unfolded same_but_history_def], of brc_budget_id] by simp_all

lemma map_right_Inr: "map_sum id f x = Inr y \<longleftrightarrow> (\<exists>z. x = Inr z \<and> y = f z)"
  by (cases x) auto

lemma if_Inl_Inr: "(if c then Inl e else x) = Inr y \<longleftrightarrow> \<not> c \<and> x = Inr y"
  by simp

lemma mergeGroups_same:
  "mergeGroups groups records = Inr (merged, remove) \<Longrightarrow>
     length merged = length records \<and> (\<forall>i < length records. same_but_history (records ! i) (merged ! i))"
proof (induction groups records arbitrary: merged remove rule: mergeGroups.induct)
  case (2 k keep indices groups records)
  show ?case
  proof (cases "length indices < 2")
    case True
    then show ?thesis using 2 by simp
  next
    case False
    then obtain history remove' where h: "mergedGenerationHistory records indices (brc_generation (records ! keep)) = Inr history"
      "mergeGroups groups (records[keep := (records ! keep)\<lparr>brc_generation_history := history\<rparr>]) = Inr (merged, remove')"
      using "2.prems" by (auto simp: map_right_Inr split: sum.splits)
    have "same_but_history (records ! i) (records[keep := (records ! keep)\<lparr>brc_generation_history := history\<rparr>] ! i)"
      if "i < length records" for i using that by (cases "keep = i") (simp_all add: same_but_history_def)
    then show ?thesis using "2.IH"(2) [OF False h] by (simp add: same_but_history_def)
  qed
qed (simp add: same_but_history_def)

lemma sublist_records:
  assumes "keys_sorted key xs"
  shows "keys_sorted key (map (\<lambda>i. xs ! i) (filter P [0..<length xs]))"
proof -
  have s: "sorted_wrt (<) (filter P [0..<length xs])" by (simp add: sorted_wrt_filter)
  have "sorted_wrt (\<lambda>i j. key (xs ! i) < key (xs ! j)) (filter P [0..<length xs])"
    by (rule sorted_wrt_mono_rel [OF _ s]) (use keys_sorted_nth [OF assms] in auto)
  then show ?thesis by (simp add: sorted_wrt_map comp_def)
qed

lemma lookup_iff:
  "lineages_sorted budgets \<Longrightarrow>
     budgetRecordForLineage budgets k = Some r \<longleftrightarrow> r \<in> set budgets \<and> brc_lineage_identity r = k"
  using by_key.find_iff [of brc_lineage_identity budgets k]
  by (auto simp: budgetRecordForLineage_def in_set_conv_nth)

lemma prune_windows:
  assumes "pruneExpiredFixedWindowRecords s now = Inr (changed, s')" and "lineages_sorted (sta_budgets s)"
  shows "lineages_sorted (sta_budgets s')" and "s'\<lparr>sta_budgets := []\<rparr> = s\<lparr>sta_budgets := []\<rparr>"
    and "budgetRecordForLineage (sta_budgets s') k = Some r' \<Longrightarrow>
      \<exists>r. budgetRecordForLineage (sta_budgets s) k = Some r \<and> same_but_history r r'"
proof -
  have all: "lineages_sorted (sta_budgets s') \<and> s'\<lparr>sta_budgets := []\<rparr> = s\<lparr>sta_budgets := []\<rparr>
      \<and> (\<forall>r' \<in> set (sta_budgets s'). \<exists>r \<in> set (sta_budgets s). same_but_history r r')"
  proof (cases "length (sta_budgets s) < 2")
    case True
    then show ?thesis using assms by (auto simp: pruneExpiredFixedWindowRecords_def Let_def same_but_history_def)
  next
    case False
    then obtain merged remove where m: "mergeGroups (windowGroups (sta_budgets s)
          (chg_lineage_identity ` set (List.concat (map rsv_charges (sta_reservations s)))) now
          [0..<length (sta_budgets s)] []) (sta_budgets s) = Inr (merged, remove)"
      and s': "s' = s\<lparr>sta_budgets := (if remove = [] then merged
          else map (\<lambda>i. merged ! i) (filter (\<lambda>i. i \<notin> set remove) [0..<length merged]))\<rparr>"
      using assms(1) unfolding pruneExpiredFixedWindowRecords_def Let_def
      by (auto split: sum.splits if_splits)
    note same = mergeGroups_same [OF m]
    have "map brc_lineage_identity merged = map brc_lineage_identity (sta_budgets s)"
      using same same_but_history_fields(1) by (intro nth_equalityI) auto
    then have sorted: "lineages_sorted merged" using assms(2) by simp
    have each: "\<exists>r \<in> set (sta_budgets s). same_but_history r (merged ! i)" if "i < length merged" for i
      using same that by (metis nth_mem)
    show ?thesis using sorted sublist_records [OF sorted] each by (auto simp: s' in_set_conv_nth)
  qed
  then show sorted: "lineages_sorted (sta_budgets s')" and "s'\<lparr>sta_budgets := []\<rparr> = s\<lparr>sta_budgets := []\<rparr>" by simp_all
  assume "budgetRecordForLineage (sta_budgets s') k = Some r'"
  then have r': "r' \<in> set (sta_budgets s')" "brc_lineage_identity r' = k" using lookup_iff [OF sorted] by simp_all
  then obtain r where r: "r \<in> set (sta_budgets s)" "same_but_history r r'" using all by blast
  then have "budgetRecordForLineage (sta_budgets s) k = Some r"
    using lookup_iff [OF assms(2)] same_but_history_fields(1) [OF r(2)] r'(2) by simp
  then show "\<exists>r. budgetRecordForLineage (sta_budgets s) k = Some r \<and> same_but_history r r'" using r(2) by blast
qed

section \<open>Upkeep touches one lineage\<close>

lemma option_eqI_Some: "(\<And>x. a = Some x \<longleftrightarrow> b = Some x) \<Longrightarrow> a = b"
  by (cases a; cases b) auto

lemma insert_record:
  assumes "lineages_sorted budgets" and "find_key brc_lineage_identity budgets (brc_lineage_identity r) = None"
  defines "i \<equiv> search_index brc_lineage_identity budgets (brc_lineage_identity r)"
  shows "lineages_sorted (take i budgets @ r # drop i budgets)"
    and "budgetRecordForLineage (take i budgets @ r # drop i budgets) k
      = (if k = brc_lineage_identity r then Some r else budgetRecordForLineage budgets k)"
proof -
  have new: "brc_lineage_identity r \<notin> brc_lineage_identity ` set budgets" by (rule find_key_None [OF assms(1,2)])
  show sorted: "lineages_sorted (take i budgets @ r # drop i budgets)"
    unfolding i_def by (rule keys_sorted_insert [OF assms(1) new])
  have other: "brc_lineage_identity x \<noteq> brc_lineage_identity r" if "x \<in> set budgets" for x using new that by (metis image_eqI)
  have mem: "x \<in> set (take i budgets @ r # drop i budgets) \<longleftrightarrow> x = r \<or> x \<in> set budgets" for x
  proof -
    have "set budgets = set (take i budgets) \<union> set (drop i budgets)" by (metis append_take_drop_id set_append)
    then show ?thesis by auto
  qed
  show "budgetRecordForLineage (take i budgets @ r # drop i budgets) k
      = (if k = brc_lineage_identity r then Some r else budgetRecordForLineage budgets k)"
  proof (rule option_eqI_Some)
    fix x
    show "budgetRecordForLineage (take i budgets @ r # drop i budgets) k = Some x
        \<longleftrightarrow> (if k = brc_lineage_identity r then Some r else budgetRecordForLineage budgets k) = Some x"
      using lookup_iff [OF sorted, of k x] lookup_iff [OF assms(1), of k x] other by (auto simp: mem simp del: set_append)
  qed
qed

lemma replace_record:
  assumes "lineages_sorted budgets" and i: "find_key brc_lineage_identity budgets (brc_lineage_identity r) = Some i"
  shows "lineages_sorted (budgets[i := r])"
    and "budgetRecordForLineage (budgets[i := r]) k
      = (if k = brc_lineage_identity r then Some r else budgetRecordForLineage budgets k)"
proof -
  show "lineages_sorted (budgets[i := r])" by (rule by_key.sorted_update [OF assms(1) i]) simp
  have find: "find_key brc_lineage_identity (budgets[i := r]) = find_key brc_lineage_identity budgets"
    by (rule by_key.find_update [OF assms(1) i]) simp
  show "budgetRecordForLineage (budgets[i := r]) k
      = (if k = brc_lineage_identity r then Some r else budgetRecordForLineage budgets k)"
  proof (cases "k = brc_lineage_identity r")
    case True
    then show ?thesis using i find_key_Some [OF i] by (simp add: budgetRecordForLineage_def find)
  next
    case False
    have "budgets[i := r] ! j = budgets ! j" if "find_key brc_lineage_identity budgets k = Some j" for j
      using find_key_Some [OF that] find_key_Some [OF i] False by (auto simp: nth_list_update)
    then show ?thesis using False
      by (cases "find_key brc_lineage_identity budgets k") (simp_all add: budgetRecordForLineage_def find)
  qed
qed

lemma upsert_effect:
  assumes "upsertBudgetRecord s b scope lineage scopeIdentity generation = Inr (s', r, changed)"
    and sorted: "lineages_sorted (sta_budgets s)"
  shows "lineages_sorted (sta_budgets s') \<and> s'\<lparr>sta_budgets := []\<rparr> = s\<lparr>sta_budgets := []\<rparr>
    \<and> brc_lineage_identity r = lineage \<and> brc_budget_id r = bud_id b \<and> brc_limits r = bud_limits b
    \<and> (\<forall>k. budgetRecordForLineage (sta_budgets s') k = (if k = lineage then Some r else budgetRecordForLineage (sta_budgets s) k))
    \<and> (\<forall>r0. budgetRecordForLineage (sta_budgets s) lineage = Some r0 \<longrightarrow>
         brc_budget_id r0 = bud_id b \<and> brc_consumed r0 = brc_consumed r)"
proof -
  let ?i = "search_index brc_lineage_identity (sta_budgets s) lineage"
  have le: "?i \<le> length (sta_budgets s)" by (rule search_index_le [OF sorted])
  show ?thesis
  proof (cases "?i = length (sta_budgets s) \<or> brc_lineage_identity (sta_budgets s ! ?i) \<noteq> lineage")
    case True
    then have none: "find_key brc_lineage_identity (sta_budgets s) lineage = None" by (auto simp: find_key_def Let_def)
    obtain consumed history where r: "r = \<lparr>brc_budget_id = bud_id b, brc_scope_identity = scopeIdentity,
          brc_lineage_identity = lineage, brc_scope = scope, brc_reset = bud_reset b,
          brc_window_seconds = bud_window_seconds b, brc_limits = bud_limits b,
          brc_consumed = consumed, brc_generation = generation, brc_generation_history = history\<rparr>"
      and s': "s' = s\<lparr>sta_budgets := take ?i (sta_budgets s) @ r # drop ?i (sta_budgets s)\<rparr>"
      using assms(1) True unfolding upsertBudgetRecord_def Let_def by (auto split: if_splits sum.splits)
    have l: "brc_lineage_identity r = lineage" by (simp add: r)
    note ins = insert_record [OF sorted, of r, unfolded l, OF none]
    have "budgetRecordForLineage (sta_budgets s) lineage = None" using none by (simp add: budgetRecordForLineage_def)
    then show ?thesis using ins by (simp add: s' l) (simp add: r)
  next
    case False
    then have i: "find_key brc_lineage_identity (sta_budgets s) lineage = Some ?i" using le by (simp add: find_key_def Let_def)
    let ?r = "sta_budgets s ! ?i"
    obtain history where id: "brc_budget_id ?r = bud_id b"
      and r: "r = ?r\<lparr>brc_generation_history := history, brc_scope_identity := scopeIdentity, brc_scope := scope,
          brc_reset := bud_reset b, brc_window_seconds := bud_window_seconds b, brc_limits := bud_limits b,
          brc_generation := generation\<rparr>"
      and s': "s' = s\<lparr>sta_budgets := (sta_budgets s)[?i := r]\<rparr>"
      using assms(1) False unfolding upsertBudgetRecord_def Let_def
      by (simp only: if_Inl_Inr if_False sum.inject prod.inject) blast
    have l: "brc_lineage_identity r = lineage" using False by (simp add: r)
    note rep = replace_record [OF sorted, of r, unfolded l, OF i]
    have "budgetRecordForLineage (sta_budgets s) lineage = Some ?r" using i by (simp add: budgetRecordForLineage_def)
    then show ?thesis using rep id by (simp add: s' l) (simp add: r id)
  qed
qed

section \<open>Candidates are what their records hold\<close>

definition settled :: "action_state \<Rightarrow> (string \<Rightarrow> budget_usage) \<Rightarrow> budget_candidate \<Rightarrow> bool" where
  "settled s reservedBy c \<longleftrightarrow>
     (\<exists>r. budgetRecordForLineage (sta_budgets s) (bc_lineage_identity c) = Some r \<and> brc_limits r = bc_limits c
        \<and> brc_consumed r = bc_consumed c \<and> brc_budget_id r = bc_budget_id c
        \<and> brc_reset r = bc_reset c \<and> brc_window_seconds r = bc_window_seconds c)
     \<and> bc_available c = budgetCapacityAvailable (bc_limits c) (bc_consumed c) (reservedBy (bc_lineage_identity c))
         (bc_required c) False"

lemma prepareEach_effect:
  assumes "prepareEach store t inp generation now reservedBy bs s changed cs = Inr (s', changed', cs')"
    and "lineages_sorted (sta_budgets s)" and "list_all (settled s reservedBy) cs"
    and "distinct (map bc_budget_id cs @ map bud_id bs)"
  shows "lineages_sorted (sta_budgets s') \<and> s'\<lparr>sta_budgets := []\<rparr> = s\<lparr>sta_budgets := []\<rparr>
    \<and> list_all (settled s' reservedBy) cs' \<and> map bc_budget_id cs' = map bc_budget_id cs @ map bud_id bs
    \<and> set cs \<subseteq> set cs'
    \<and> (\<forall>k. k \<notin> bc_lineage_identity ` set cs' \<longrightarrow>
         budgetRecordForLineage (sta_budgets s') k = budgetRecordForLineage (sta_budgets s) k)"
  using assms
proof (induction bs arbitrary: s changed cs)
  case (Cons b bs)
  obtain scope lineage scopeIdentity s1 r recordChanged required where
      u: "upsertBudgetRecord s b scope lineage scopeIdentity generation = Inr (s1, r, recordChanged)"
    and p: "prepareEach store t inp generation now reservedBy bs s1 (changed \<or> recordChanged)
        (cs @ [candidateFromRecord r (reservedBy lineage) required False
          (budgetCapacityAvailable (bud_limits b) (brc_consumed r) (reservedBy lineage) required False)
          (exhaustedReason (budgetCapacityAvailable (bud_limits b) (brc_consumed r) (reservedBy lineage) required False))])
        = Inr (s', changed', cs')"
    using Cons.prems(1) by (auto simp: Let_def split: sum.splits prod.splits option.splits)
  let ?c = "candidateFromRecord r (reservedBy lineage) required False
      (budgetCapacityAvailable (bud_limits b) (brc_consumed r) (reservedBy lineage) required False)
      (exhaustedReason (budgetCapacityAvailable (bud_limits b) (brc_consumed r) (reservedBy lineage) required False))"
  note e = upsert_effect [OF u Cons.prems(2)]
  have l: "bc_lineage_identity ?c = lineage" "bc_budget_id ?c = bud_id b" using e by (simp_all add: candidateFromRecord_def)
  have old: "settled s1 reservedBy c" if "c \<in> set cs" for c
  proof -
    have c: "settled s reservedBy c" using that Cons.prems(3) by (simp add: list_all_iff)
    then obtain rc where rc: "budgetRecordForLineage (sta_budgets s) (bc_lineage_identity c) = Some rc"
      "brc_budget_id rc = bc_budget_id c" by (auto simp: settled_def)
    have "bc_budget_id c \<in> bc_budget_id ` set cs" using that by simp
    then have "bc_budget_id c \<noteq> bud_id b" using Cons.prems(4) by auto
    then have "bc_lineage_identity c \<noteq> lineage" using rc e by auto
    then show ?thesis using c e by (simp add: settled_def)
  qed
  have new: "settled s1 reservedBy ?c"
    using e by (simp add: settled_def candidateFromRecord_def)
  have IH: "lineages_sorted (sta_budgets s') \<and> s'\<lparr>sta_budgets := []\<rparr> = s1\<lparr>sta_budgets := []\<rparr>
    \<and> list_all (settled s' reservedBy) cs' \<and> map bc_budget_id cs' = map bc_budget_id (cs @ [?c]) @ map bud_id bs
    \<and> set (cs @ [?c]) \<subseteq> set cs'
    \<and> (\<forall>k. k \<notin> bc_lineage_identity ` set cs' \<longrightarrow>
         budgetRecordForLineage (sta_budgets s') k = budgetRecordForLineage (sta_budgets s1) k)"
    by (rule Cons.IH [OF p]) (use e old new Cons.prems(4) l(2) in \<open>auto simp: list_all_iff\<close>)
  have "?c \<in> set cs'" using IH by auto
  then have "bc_lineage_identity ?c \<in> bc_lineage_identity ` set cs'" by (rule imageI)
  then have "k \<noteq> lineage" if "k \<notin> bc_lineage_identity ` set cs'" for k using that l(1) by auto
  then show ?case using IH e l(2) by auto
qed simp

text \<open>Distinct budgets have distinct lineages: a lineage belongs to one record, a record to one budget.\<close>

lemma settled_lineages:
  assumes "list_all (settled s reservedBy) cs" and "distinct (map bc_budget_id cs)"
  shows "distinct (map bc_lineage_identity cs)"
proof -
  have same: "bc_budget_id c = bc_budget_id d"
    if "c \<in> set cs" "d \<in> set cs" "bc_lineage_identity c = bc_lineage_identity d" for c d
  proof -
    have "settled s reservedBy c" "settled s reservedBy d" using assms(1) that by (auto simp: list_all_iff)
    then obtain r r' where "budgetRecordForLineage (sta_budgets s) (bc_lineage_identity c) = Some r" "brc_budget_id r = bc_budget_id c"
      "budgetRecordForLineage (sta_budgets s) (bc_lineage_identity d) = Some r'" "brc_budget_id r' = bc_budget_id d"
      unfolding settled_def by blast
    then show ?thesis using that(3) by simp
  qed
  have d: "distinct cs" "inj_on bc_budget_id (set cs)" using assms(2) by (simp_all add: distinct_map)
  have "inj_on bc_lineage_identity (set cs)" by (rule inj_onI) (blast intro: inj_onD [OF d(2)] same)
  then show ?thesis using d(1) by (simp add: distinct_map)
qed

section \<open>The capacity of a lineage\<close>

fun limit_at :: "dimension \<Rightarrow> budget_limits \<Rightarrow> uint64" where
  "limit_at CallCount l = lim_call_count l"
| "limit_at DeniedCount l = lim_denied_count l"
| "limit_at ApprovalCount l = lim_approval_count l"
| "limit_at ArgumentBytes l = lim_argument_bytes l"
| "limit_at ResultBytes l = lim_result_bytes l"
| "limit_at CostUnits l = lim_cost_units l"
| "limit_at Concurrent l = lim_concurrent l"
| "limit_at RateWindow l = lim_rate_window l"

lemma available_within:
  assumes "budgetCapacityAvailable limits consumed reserved required False" and "budgetLimitsBounded limits"
  shows "if limit_at d limits = 0 then usage_at d required = 0
    else unat (usage_at d consumed) + unat (usage_at d reserved) + unat (usage_at d required) \<le> unat (limit_at d limits)"
proof -
  have "capacityCheck False (limit_at d limits) (usage_at d consumed) (usage_at d reserved) (usage_at d required)"
    using assms(1) by (cases d) (simp_all add: budgetCapacityAvailable_def)
  moreover have "limit_at d limits \<in> set (limit_list limits)" by (cases d) (simp_all add: limit_list_def)
  then have "limit_at d limits \<le> 9223372036854775807" using assms(2) by (auto simp: budgetLimitsBounded_def list_all_iff)
  then have "limit_at d limits < max_uint64" by (rule order.strict_trans1) simp
  ultimately show ?thesis using capacity_check_exact by (simp add: capacity_def split: if_splits)
qed

lemma sum_list_sort: "sum_list (map f (sort_key k xs)) = (sum_list (map f xs) :: nat)"
proof -
  have "sum_mset (mset (map f (sort_key k xs))) = sum_mset (mset (map f xs))" by simp
  then show ?thesis by (simp only: sum_mset_sum_list)
qed

lemma charge_sum_sort: "charge_sum (sort_key key cs) k d = charge_sum cs k d"
  by (simp add: charge_sum_def sum_list_sort)

lemma reserved_of_sum: "reserved_of rs k d = sum_list (map (\<lambda>r. charge_sum (rsv_charges r) k d) rs)"
  by (induction rs) simp_all

lemma reserved_of_sort: "reserved_of (sort_key key rs) k d = reserved_of rs k d"
  by (simp add: reserved_of_sum sum_list_sort)

lemma chargeOf_fields:
  "chg_lineage_identity (chargeOf c) = bc_lineage_identity c" "chg_reserved (chargeOf c) = bc_required c"
  by (simp_all add: chargeOf_def)

lemma charge_sum_absent: "k \<notin> bc_lineage_identity ` set cs \<Longrightarrow> charge_sum (map chargeOf cs) k d = 0"
  by (induction cs) (auto simp: chargeOf_fields)

lemma charge_sum_candidate:
  "distinct (map bc_lineage_identity cs) \<Longrightarrow> c \<in> set cs \<Longrightarrow>
     charge_sum (map chargeOf cs) (bc_lineage_identity c) d = unat (usage_at d (bc_required c))"
proof (induction cs)
  case (Cons x cs)
  then show ?case using charge_sum_absent [of "bc_lineage_identity x" cs d]
    by (auto simp: chargeOf_fields)
qed simp

section \<open>What a reservation writes\<close>

lemma written_check:
  "written (case c of Some e \<Rightarrow> Refused e | None \<Rightarrow> f) = Some u \<longleftrightarrow> c = None \<and> written f = Some u"
  by (cases c) simp_all

lemma written_fail:
  "written (case r of Inl e \<Rightarrow> Refused (h e) | Inr x \<Rightarrow> f x) = Some u \<longleftrightarrow> (\<exists>x. r = Inr x \<and> written (f x) = Some u)"
  by (cases r) simp_all

lemma written_either: "written (case r of Inl e \<Rightarrow> AdvanceThen s (f e) e | Inr x \<Rightarrow> Advance s (g x)) = Some u \<longleftrightarrow> u = s"
  by (cases r) auto

lemma written_found:
  "written (case r of None \<Rightarrow> f | Some x \<Rightarrow> g x) = Some u \<longleftrightarrow>
     (r = None \<and> written f = Some u \<or> (\<exists>x. r = Some x \<and> written (g x) = Some u))"
  by (cases r) simp_all

lemma grant_written:
  assumes "written (grantReservation store lib clock entropy s bs t inp cs) = Some u"
  obtains r where "newReservation store inp cs (clk_time clock) entropy = Inr r"
    and "u = applyClock ((pruneRetainedHistory lib s (clk_time clock))\<lparr>sta_reservations :=
      sort_key rsv_identity (sta_reservations s @ [r])\<rparr>) clock"
  using assms unfolding grantReservation_def Let_def
  by (simp only: written_if written_try written_either written.simps option.distinct prune_fields simp_thms) blast

lemma retry_written:
  assumes "written (retryReservationSnapshot store s r bs t inp clock) = Some u"
  shows "u = applyClock s clock"
  using assms by (auto simp: retryReservationSnapshot_def written_observe written_try written_if)

lemma reserve_written:
  assumes "written (reserveLocked store lib obs entropy s inp) = Some u"
  obtains (observed) clock where "trustedNow obs s = Inr clock" and "u = applyClock s clock"
  | (exhausted) clock t bs s1 cs where "trustedNow obs s = Inr clock"
      and "prepareCandidates store s bs t inp (requestGeneration store inp) (clk_time clock) = Inr (s1, True, cs)"
      and "u = applyClock s1 clock"
  | (granted) clock t bs s1 changed cs r where "trustedNow obs s = Inr clock"
      and "BudgetContract (rin_plan inp) (rin_request inp) = Inr (t, bs)"
      and "rejectTerminalOrUnsafeRetry s (req_call_id (rin_request inp)) (sto_owner_id store) = None"
      and "reservationForCall (sta_reservations s) (req_call_id (rin_request inp)) = None"
      and "requireAdmissibleCallID (sto_key store) (sto_repository_identity store) (req_call_id (rin_request inp))
             (clk_time clock) = Inr ()"
      and "prepareCandidates store s bs t inp (requestGeneration store inp) (clk_time clock) = Inr (s1, changed, cs)"
      and "\<not> candidatesExhausted cs" and "newReservation store inp cs (clk_time clock) entropy = Inr r"
      and "u = applyClock ((pruneRetainedHistory lib s1 (clk_time clock))\<lparr>sta_reservations :=
        sort_key rsv_identity (sta_reservations s1 @ [r])\<rparr>) clock"
proof -
  let ?callID = "req_call_id (rin_request inp)"
  let ?admit = "requireAdmissibleCallID (sto_key store) (sto_repository_identity store) ?callID"
  let ?prepare = "\<lambda>t bs clock. prepareCandidates store s bs t inp (requestGeneration store inp) (clk_time clock)"
  obtain t bs clock where b: "BudgetContract (rin_plan inp) (rin_request inp) = Inr (t, bs)"
    and c: "trustedNow obs s = Inr clock" and rej: "rejectTerminalOrUnsafeRetry s ?callID (sto_owner_id store) = None"
    and w: "(\<exists>v. reservationForCall (sta_reservations s) ?callID = Some v
          \<and> written (retryReservationSnapshot store s v bs t inp clock) = Some u)
      \<or> reservationForCall (sta_reservations s) ?callID = None \<and> ?admit (clk_time clock) = Inr ()
        \<and> (\<exists>s1 changed cs. ?prepare t bs clock = Inr (s1, changed, cs)
             \<and> (if candidatesExhausted cs then changed \<and> u = applyClock s1 clock
                else written (grantReservation store lib clock entropy s1 bs t inp cs) = Some u))"
    using assms unfolding reserveLocked_def Let_def
    by (simp only: written_check written_if written_fail written_found written.simps case_prod_beta option.distinct
        option.inject simp_thms split_paired_Ex fst_conv snd_conv) (fastforce simp: if_bool_eq_conj)
  from w show thesis
  proof (elim disjE exE conjE)
    fix v
    assume "written (retryReservationSnapshot store s v bs t inp clock) = Some u"
    then show thesis using observed [OF c] retry_written by blast
  next
    fix s1 changed cs
    assume none: "reservationForCall (sta_reservations s) ?callID = None" and a: "?admit (clk_time clock) = Inr ()"
      and p: "?prepare t bs clock = Inr (s1, changed, cs)"
      and v: "if candidatesExhausted cs then changed \<and> u = applyClock s1 clock
        else written (grantReservation store lib clock entropy s1 bs t inp cs) = Some u"
    show thesis
    proof (cases "candidatesExhausted cs")
      case True
      then show thesis using exhausted [OF c] p v by auto
    next
      case False
      then have "written (grantReservation store lib clock entropy s1 bs t inp cs) = Some u" using v by simp
      then obtain r where "newReservation store inp cs (clk_time clock) entropy = Inr r"
        and "u = applyClock ((pruneRetainedHistory lib s1 (clk_time clock))\<lparr>sta_reservations :=
          sort_key rsv_identity (sta_reservations s1 @ [r])\<rparr>) clock" by (rule grant_written)
      then show thesis using granted [OF c b rej none a p False] by blast
    qed
  qed
qed

lemma prepareCandidates_effect:
  assumes "prepareCandidates store s bs t inp generation now = Inr (s1, changed, cs)"
    and "lineages_sorted (sta_budgets s)" and "distinct (map bud_id bs)"
  obtains reservedBy where "reservedUsageByLineage (sta_reservations s) = Inr reservedBy"
    and "lineages_sorted (sta_budgets s1)" and "s1\<lparr>sta_budgets := []\<rparr> = s\<lparr>sta_budgets := []\<rparr>"
    and "list_all (settled s1 reservedBy) cs" and "distinct (map bc_lineage_identity cs)"
    and "\<And>k r'. k \<notin> bc_lineage_identity ` set cs \<Longrightarrow> budgetRecordForLineage (sta_budgets s1) k = Some r' \<Longrightarrow>
      \<exists>r. budgetRecordForLineage (sta_budgets s) k = Some r \<and> same_but_history r r'"
proof -
  obtain b0 s0 reservedBy where p: "pruneExpiredFixedWindowRecords s now = Inr (b0, s0)"
    and r: "reservedUsageByLineage (sta_reservations s0) = Inr reservedBy"
    and e: "prepareEach store t inp generation now reservedBy bs s0 b0 [] = Inr (s1, changed, cs)"
    using assms(1) by (auto simp: prepareCandidates_def split: sum.splits prod.splits)
  note w = prune_windows [OF p assms(2)]
  have same: "sta_reservations s0 = sta_reservations s" using arg_cong [OF w(2), of sta_reservations] by simp
  have x: "lineages_sorted (sta_budgets s1) \<and> s1\<lparr>sta_budgets := []\<rparr> = s0\<lparr>sta_budgets := []\<rparr>
    \<and> list_all (settled s1 reservedBy) cs \<and> map bc_budget_id cs = map bud_id bs
    \<and> (\<forall>k. k \<notin> bc_lineage_identity ` set cs \<longrightarrow>
         budgetRecordForLineage (sta_budgets s1) k = budgetRecordForLineage (sta_budgets s0) k)"
    using prepareEach_effect [OF e w(1)] assms(3) by simp
  then have "distinct (map bc_lineage_identity cs)" using settled_lineages assms(3) by metis
  then show thesis using that [OF r [unfolded same]] x w by metis
qed

text \<open>Preparing candidates touches no other table.\<close>

lemma upsert_only:
  "upsertBudgetRecord s b scope lineage scopeIdentity generation = Inr (s', r, changed) \<Longrightarrow>
     s'\<lparr>sta_budgets := []\<rparr> = s\<lparr>sta_budgets := []\<rparr>"
  unfolding upsertBudgetRecord_def Let_def by (auto simp: if_Inl_Inr split: sum.splits if_splits)

lemma prepareEach_only:
  "prepareEach store t inp generation now reservedBy bs s changed cs = Inr (s', changed', cs') \<Longrightarrow>
     s'\<lparr>sta_budgets := []\<rparr> = s\<lparr>sta_budgets := []\<rparr>"
proof (induction bs arbitrary: s changed cs)
  case (Cons b bs)
  then obtain scope lineage scopeIdentity s1 r recordChanged cs1 changed1 where
      u: "upsertBudgetRecord s b scope lineage scopeIdentity generation = Inr (s1, r, recordChanged)"
    and p: "prepareEach store t inp generation now reservedBy bs s1 changed1 cs1 = Inr (s', changed', cs')"
    by (auto simp: Let_def split: sum.splits prod.splits option.splits)
  show ?case using Cons.IH [OF p] upsert_only [OF u] by simp
qed simp

text \<open>A candidate has the name, the limits and the exact cost of its declaration.\<close>

definition declared_terms :: "tool \<Rightarrow> request \<Rightarrow> budget \<Rightarrow> string \<times> budget_limits \<times> budget_usage option" where
  "declared_terms t request b = (bud_id b, bud_limits b, expectedBudgetUsage (bud_limits b) t request)"

definition candidate_terms :: "budget_candidate \<Rightarrow> string \<times> budget_limits \<times> budget_usage option" where
  "candidate_terms c = (bc_budget_id c, bc_limits c, Some (bc_required c))"

lemma upsert_terms:
  "upsertBudgetRecord s b scope lineage scopeIdentity generation = Inr (s', r, changed) \<Longrightarrow>
     brc_limits r = bud_limits b \<and> brc_budget_id r = bud_id b"
  unfolding upsertBudgetRecord_def Let_def by (auto simp: if_Inl_Inr split: sum.splits if_splits)

lemma prepareEach_terms:
  "prepareEach store t inp generation now reservedBy bs s changed cs = Inr (s', changed', cs') \<Longrightarrow>
     map candidate_terms cs' = map candidate_terms cs @ map (declared_terms t (rin_request inp)) bs"
proof (induction bs arbitrary: s changed cs)
  case (Cons b bs)
  then obtain scope lineage scopeIdentity s1 r recordChanged changed1 required available reason where
      u: "upsertBudgetRecord s b scope lineage scopeIdentity generation = Inr (s1, r, recordChanged)"
    and e: "expectedBudgetUsage (bud_limits b) t (rin_request inp) = Some required"
    and p: "prepareEach store t inp generation now reservedBy bs s1 changed1
        (cs @ [candidateFromRecord r (reservedBy lineage) required False available reason]) = Inr (s', changed', cs')"
    by (auto simp: Let_def split: sum.splits prod.splits option.splits)
  show ?case using Cons.IH [OF p] upsert_terms [OF u] e
    by (simp add: candidateFromRecord_def candidate_terms_def declared_terms_def)
qed simp

lemma prepare_terms:
  "prepareCandidates store s bs t inp generation now = Inr (s1, changed, cs) \<Longrightarrow>
     map candidate_terms cs = map (declared_terms t (rin_request inp)) bs"
  by (auto simp: prepareCandidates_def dest!: prepareEach_terms split: sum.splits prod.splits)

lemma prepare_limits:
  assumes "prepareCandidates store s bs t inp generation now = Inr (s1, changed, cs)"
  shows "map bc_limits cs = map bud_limits bs"
  using arg_cong [OF prepare_terms [OF assms], of "map (fst \<circ> snd)"] by (simp add: candidate_terms_def declared_terms_def comp_def)

lemma prepare_only:
  assumes "prepareCandidates store s bs t inp generation now = Inr (s1, changed, cs)"
  shows "sta_reservations s1 = sta_reservations s" and "sta_terminal_calls s1 = sta_terminal_calls s"
proof -
  obtain b0 s0 where p: "pruneExpiredFixedWindowRecords s now = Inr (b0, s0)"
    and e: "\<exists>reservedBy. prepareEach store t inp generation now reservedBy bs s0 b0 [] = Inr (s1, changed, cs)"
    using assms by (auto simp: prepareCandidates_def split: sum.splits prod.splits)
  have "s0\<lparr>sta_budgets := []\<rparr> = s\<lparr>sta_budgets := []\<rparr>"
    using p unfolding pruneExpiredFixedWindowRecords_def Let_def by (auto split: sum.splits if_splits)
  then have same: "s1\<lparr>sta_budgets := []\<rparr> = s\<lparr>sta_budgets := []\<rparr>" using e prepareEach_only by metis
  show "sta_reservations s1 = sta_reservations s" and "sta_terminal_calls s1 = sta_terminal_calls s"
    using arg_cong [OF same, of sta_reservations] arg_cong [OF same, of sta_terminal_calls] by simp_all
qed

section \<open>A reservation stays within its limits\<close>

lemma new_charges:
  assumes "newReservation store inp cs now entropy = Inr r"
  shows "rsv_charges r = sort_key chg_lineage_identity (map chargeOf cs)" and "rsv_call_id r = req_call_id (rin_request inp)"
  using assms by (auto simp: newReservation_def split: if_splits sum.splits)

lemma contract_distinct:
  "BudgetContract p q = Inr (t, bs) \<Longrightarrow> distinct (map bud_id (cpn_budgets p)) \<Longrightarrow> distinct (map bud_id bs)"
  by (auto simp: BudgetContract_def Let_def distinct_map_filter split: option.splits if_splits)

lemma contract_budgets: "BudgetContract p q = Inr (t, bs) \<Longrightarrow> set bs \<subseteq> set (cpn_budgets p)"
  by (auto simp: BudgetContract_def Let_def split: option.splits if_splits)

lemma granted_held:
  assumes p: "prepareCandidates store s bs t inp generation now = Inr (s1, changed, cs)" and "\<not> candidatesExhausted cs"
    and "newReservation store inp cs now' entropy = Inr r"
    and sorted: "lineages_sorted (sta_budgets s)" and "distinct (map bud_id bs)"
    and bounded: "list_all (\<lambda>b. budgetLimitsBounded (bud_limits b)) bs"
    and held: "\<And>k d. h k d = consumed_of (sta_budgets s1) k d + reserved_of (sta_reservations s @ [r]) k d"
  shows "c \<in> set (rsv_charges r) \<Longrightarrow>
      \<exists>v. budgetRecordForLineage (sta_budgets s1) (chg_lineage_identity c) = Some v
        \<and> (if limit_at d (brc_limits v) = 0 then usage_at d (chg_reserved c) = 0
           else h (chg_lineage_identity c) d \<le> unat (limit_at d (brc_limits v)))"
    and "k \<notin> chg_lineage_identity ` set (rsv_charges r) \<Longrightarrow> h k d \<le> held s k d"
proof -
  obtain reservedBy where by_lineage: "reservedUsageByLineage (sta_reservations s) = Inr reservedBy"
    and s1: "lineages_sorted (sta_budgets s1)" and cs: "list_all (settled s1 reservedBy) cs"
    and d: "distinct (map bc_lineage_identity cs)"
    and rest: "\<And>k r'. k \<notin> bc_lineage_identity ` set cs \<Longrightarrow> budgetRecordForLineage (sta_budgets s1) k = Some r' \<Longrightarrow>
      \<exists>r. budgetRecordForLineage (sta_budgets s) k = Some r \<and> same_but_history r r'"
    using prepareCandidates_effect [OF p sorted assms(5)] by metis
  note charges = new_charges(1) [OF assms(3)]
  have sum_charges: "charge_sum (rsv_charges r) k d = charge_sum (map chargeOf cs) k d" for k d
    by (simp only: charges charge_sum_sort)
  show "\<exists>v. budgetRecordForLineage (sta_budgets s1) (chg_lineage_identity c) = Some v
        \<and> (if limit_at d (brc_limits v) = 0 then usage_at d (chg_reserved c) = 0
           else h (chg_lineage_identity c) d \<le> unat (limit_at d (brc_limits v)))" if c: "c \<in> set (rsv_charges r)"
  proof -
    obtain b where b: "b \<in> set cs" "c = chargeOf b" using c by (auto simp: charges)
    then have st: "settled s1 reservedBy b" and av: "bc_available b"
      using cs assms(2) by (auto simp: list_all_iff candidatesExhausted_def list_ex_iff)
    then obtain v where v: "budgetRecordForLineage (sta_budgets s1) (bc_lineage_identity b) = Some v"
      "brc_limits v = bc_limits b" "brc_consumed v = bc_consumed b"
      and cap: "budgetCapacityAvailable (bc_limits b) (bc_consumed b) (reservedBy (bc_lineage_identity b)) (bc_required b) False"
      by (auto simp: settled_def)
    have "bc_limits b \<in> set (map bud_limits bs)" using b(1) by (simp flip: prepare_limits [OF p])
    then have "budgetLimitsBounded (bc_limits b)" using bounded by (auto simp: list_all_iff)
    note within = available_within [OF cap this, of d]
    have "h (bc_lineage_identity b) d = unat (usage_at d (bc_consumed b)) + unat (usage_at d (reservedBy (bc_lineage_identity b)))
        + unat (usage_at d (bc_required b))"
      using charge_sum_candidate [OF d b(1), of d] reservedUsageByLineage_exact [OF by_lineage, of d]
      by (simp add: held consumed_of_def v sum_charges)
    then show ?thesis using within v(1,2) b(2) by (auto simp: chargeOf_fields)
  qed
  show "h k d \<le> held s k d" if "k \<notin> chg_lineage_identity ` set (rsv_charges r)"
  proof -
    have k: "k \<notin> bc_lineage_identity ` set cs" using that by (simp add: charges image_image chargeOf_fields)
    have "consumed_of (sta_budgets s1) k d \<le> consumed_of (sta_budgets s) k d"
      using rest [OF k] same_but_history_fields(2) by (auto simp: consumed_of_def split: option.splits)
    then show ?thesis using charge_sum_absent [OF k] by (simp add: held held_def sum_charges)
  qed
qed

text \<open>What a granted reservation charges: one charge for each declared budget, at its exact cost.\<close>

definition charge_terms :: "reservation_charge \<Rightarrow> string \<times> budget_usage option" where
  "charge_terms c = (chg_budget_id c, Some (chg_reserved c))"

lemma granted_charges:
  assumes "prepareCandidates store s bs t inp generation now = Inr (s1, changed, cs)"
    and "newReservation store inp cs now' entropy = Inr r"
  shows "mset (map charge_terms (rsv_charges r))
    = mset (map (\<lambda>b. (bud_id b, expectedBudgetUsage (bud_limits b) t (rin_request inp))) bs)"
proof -
  have "map (\<lambda>c. (bc_budget_id c, Some (bc_required c))) cs
      = map (\<lambda>b. (bud_id b, expectedBudgetUsage (bud_limits b) t (rin_request inp))) bs"
    using arg_cong [OF prepare_terms [OF assms(1)], of "map (\<lambda>(a, b, c). (a, c))"]
    by (simp add: candidate_terms_def declared_terms_def comp_def)
  moreover have "mset (map charge_terms (rsv_charges r)) = mset (map charge_terms (map chargeOf cs))"
    by (simp only: new_charges(1) [OF assms(2)] mset_map mset_sort)
  moreover have "map charge_terms (map chargeOf cs) = map (\<lambda>c. (bc_budget_id c, Some (bc_required c))) cs"
    by (simp add: charge_terms_def chargeOf_def)
  ultimately show ?thesis by (simp only:)
qed

definition within_limits :: "action_state \<Rightarrow> reservation_charge \<Rightarrow> dimension \<Rightarrow> bool" where
  "within_limits s c d \<longleftrightarrow>
     (case budgetRecordForLineage (sta_budgets s) (chg_lineage_identity c) of
        None \<Rightarrow> False
      | Some v \<Rightarrow>
          if limit_at d (brc_limits v) = 0 then usage_at d (chg_reserved c) = 0
          else held s (chg_lineage_identity c) d \<le> unat (limit_at d (brc_limits v)))"

lemma reserved_within:
  assumes w: "written (reserveLocked store lib obs entropy s inp) = Some u"
    and "lineages_sorted (sta_budgets s)" and "distinct (map bud_id (cpn_budgets (rin_plan inp)))"
    and "list_all (\<lambda>b. budgetLimitsBounded (bud_limits b)) (cpn_budgets (rin_plan inp))"
    and r: "r \<in> set (sta_reservations u)" "r \<notin> set (sta_reservations s)"
  obtains t bs where "BudgetContract (rin_plan inp) (rin_request inp) = Inr (t, bs)"
    and "mset (map charge_terms (rsv_charges r))
      = mset (map (\<lambda>b. (bud_id b, expectedBudgetUsage (bud_limits b) t (rin_request inp))) bs)"
    and "\<And>c d. c \<in> set (rsv_charges r) \<Longrightarrow> within_limits u c d"
    and "\<And>k d. k \<notin> chg_lineage_identity ` set (rsv_charges r) \<Longrightarrow> held u k d \<le> held s k d"
  using w
proof (cases rule: reserve_written)
  case (observed clock)
  then show ?thesis using r by (simp add: applyClock_def)
next
  case (exhausted clock t bs s1 cs)
  have "sta_reservations s1 = sta_reservations s" by (rule prepare_only(1) [OF exhausted(2)])
  then show ?thesis using exhausted r by (simp add: applyClock_def)
next
  case (granted clock t bs s1 changed cs r')
  have bs: "distinct (map bud_id bs)" "list_all (\<lambda>b. budgetLimitsBounded (bud_limits b)) bs"
    by (rule contract_distinct [OF granted(2) assms(3)])
      (use contract_budgets [OF granted(2)] assms(4) in \<open>auto simp: list_all_iff\<close>)
  note res = prepare_only(1) [OF granted(6)]
  have u: "sta_budgets u = sta_budgets s1" "sta_reservations u = sort_key rsv_identity (sta_reservations s @ [r'])"
    by (simp_all add: granted(9) applyClock_def res)
  have r': "r = r'" using r by (auto simp: u)
  have "held u k d = consumed_of (sta_budgets s1) k d + reserved_of (sta_reservations s @ [r']) k d" for k d
    by (simp only: held_def u reserved_of_sort)
  note h = granted_held [OF granted(6,7,8) assms(2) bs, of "held u", OF this, folded r' u(1)]
  have "within_limits u c d" if "c \<in> set (rsv_charges r)" for c d
    using h(1) [OF that, of d] by (auto simp: within_limits_def)
  then show ?thesis using that [OF granted(2)] granted_charges [OF granted(6,8), folded r'] h(2) by blast
qed

section \<open>Finished calls stay finished\<close>

text \<open>A call that is not live and either finished or past every admission.\<close>

definition spent :: "action_store \<Rightarrow> string \<Rightarrow> action_state \<Rightarrow> bool" where
  "spent store callID s \<longleftrightarrow>
     callID \<notin> call_ids s
     \<and> (callID \<in> trm_call_id ` set (sta_terminal_calls s) \<or> inadmissible store callID (sta_last_observed s))"

lemma trustedNow_forward: "trustedNow obs s = Inr clock \<Longrightarrow> sta_last_observed s \<le> clk_time clock"
  by (auto simp: trustedNow_def split: option.splits if_splits)

text \<open>An operation of a process with its own owner identifier on a shared store.\<close>

inductive writes :: "action_store \<Rightarrow> action_state \<Rightarrow> action_state \<Rightarrow> bool" for store where
  transition: "written (operate (store\<lparr>sto_owner_id := ownerID\<rparr>) obs s v p) = Some u \<Longrightarrow> writes store s u"
| reserve: "written (reserveLocked (store\<lparr>sto_owner_id := ownerID\<rparr>) lib obs entropy s inp) = Some u \<Longrightarrow> writes store s u"

inductive store_step :: "action_store \<Rightarrow> action_state \<times> bool \<Rightarrow> action_state \<times> bool \<Rightarrow> bool" for store where
  store_step: "writes store s u \<Longrightarrow> sealState store lib s persisted u = Inr t \<Longrightarrow> store_step store (s, persisted) (t, True)"

inductive_cases store_stepE: "store_step store (s, persisted) (t, persisted')"

lemma spent_refused:
  assumes "spent store callID s" and "keys_sorted trm_call_id (sta_terminal_calls s)"
    and "rejectTerminalOrUnsafeRetry s callID ownerID = None" and "sta_last_observed s \<le> now"
  shows "requireAdmissibleCallID (sto_key store) (sto_repository_identity store) callID now \<noteq> Inr ()"
proof -
  have "callID \<notin> trm_call_id ` set (sta_terminal_calls s)"
    using assms(3) find_key_None [OF assms(2), of callID] by (auto simp: rejectTerminalOrUnsafeRetry_def split: if_splits)
  then have "inadmissible store callID (sta_last_observed s)" using assms(1) by (simp add: spent_def)
  then have "inadmissible store callID now" using inadmissible_mono assms(4) by blast
  then show ?thesis using inadmissible_refused by fastforce
qed

lemma spent_written:
  assumes "writes store s u" and "state_wf s" and sp: "spent store callID s"
  shows "spent store callID u \<and> sta_last_observed s \<le> sta_last_observed u"
  using assms(1)
proof cases
  case (transition ownerID obs v p)
  obtain clock s' where clock: "trustedNow obs s = Inr clock" and u: "u = applyClock s' clock"
    using operate_clock [OF transition] by blast
  have le: "sta_last_observed s \<le> sta_last_observed u" using trustedNow_forward [OF clock] by (simp add: u applyClock_def)
  note e = operate_effect(4,5) [OF transition assms(2)]
  show ?thesis using sp e le inadmissible_mono by (auto simp: spent_def)
next
  case (reserve ownerID lib obs entropy inp)
  show ?thesis
    using reserve
  proof (cases rule: reserve_written)
    case (observed clock)
    have "sta_last_observed s \<le> sta_last_observed u" using trustedNow_forward [OF observed(1)] by (simp add: observed(2) applyClock_def)
    then show ?thesis using sp inadmissible_mono by (auto simp: spent_def call_ids_def observed(2) applyClock_def)
  next
    case (exhausted clock t bs s1 cs)
    have "sta_last_observed s \<le> sta_last_observed u" using trustedNow_forward [OF exhausted(1)] by (simp add: exhausted(3) applyClock_def)
    then show ?thesis using sp inadmissible_mono prepare_only [OF exhausted(2)]
      by (auto simp: spent_def call_ids_def exhausted(3) applyClock_def)
  next
    case (granted clock t bs s1 changed cs r)
    have le: "sta_last_observed s \<le> clk_time clock" by (rule trustedNow_forward [OF granted(1)])
    have last: "sta_last_observed u = clk_time clock" by (simp add: granted(9) applyClock_def)
    have "callID \<noteq> rsv_call_id r"
      using spent_refused [OF sp _ _ le] assms(2) granted(3,5) new_charges(2) [OF granted(8)] by (auto simp: state_wf_def)
    then have live: "callID \<notin> call_ids u"
      using sp prepare_only(1) [OF granted(6)] by (auto simp: spent_def call_ids_def granted(9) applyClock_def)
    have "callID \<in> trm_call_id ` set (sta_terminal_calls u) \<or> inadmissible store callID (sta_last_observed u)"
    proof (cases "callID \<in> trm_call_id ` set (sta_terminal_calls s)")
      case True
      then obtain t where t: "t \<in> set (sta_terminal_calls s1)" "trm_call_id t = callID" using prepare_only(2) [OF granted(6)] by auto
      then show ?thesis using prune_forgets [OF t(1), of lib "clk_time clock" store] by (auto simp: granted(9) applyClock_def)
    next
      case False
      then show ?thesis using sp inadmissible_mono le last by (auto simp: spent_def)
    qed
    then show ?thesis using live le last by (simp add: spent_def)
  qed
qed

lemma spent_step:
  assumes "store_step store (s, persisted) (t, persisted')" and "spent store callID s"
  shows "spent store callID t"
  using assms(1)
proof (rule store_stepE)
  fix u lib
  assume w: "writes store s u" and seal: "sealState store lib s persisted u = Inr t"
  note k = sealState_Inr [OF seal]
  have "validateStateContract store lib s persisted = None" using k(10) by (auto simp: validateState_def split: option.splits)
  then have "state_wf s" by (rule contract_wf)
  then have u: "spent store callID u" using spent_written [OF w] assms(2) by blast
  then have live: "callID \<notin> call_ids t" using k(2) by (simp add: spent_def call_ids_def)
  have "callID \<in> trm_call_id ` set (sta_terminal_calls t) \<or> inadmissible store callID (sta_last_observed t)"
    using u k(9) by (fastforce simp: spent_def k(3))
  then show "spent store callID t" using live by (simp add: spent_def)
qed

lemma spent_run:
  assumes "(store_step store)\<^sup>*\<^sup>* x y" and "spent store callID (fst x)"
  shows "spent store callID (fst y)"
  using assms
proof (induction rule: rtranclp_induct)
  case (step y z)
  then show ?case using spent_step [of store "fst y" "snd y" "fst z" "snd z" callID] by simp
qed

end
