(* ===== verification/State_Safety.thy ===== *)
theory State_Safety
  imports State_Reserve
begin

text \<open>
  Runs of a store: any interleaving of the operations of any owners, each from the state that is
  stored to the state that its write publishes. The lemmas show that a call is reserved at most
  once in the life of a store.
\<close>

section \<open>A call that was live is live or spent\<close>

lemma spent_sealed:
  assumes "spent store callID u" and "sealState store lib s persisted u = Inr t"
  shows "spent store callID t"
proof -
  note k = sealState_Inr [OF assms(2)]
  have "callID \<in> trm_call_id ` set (sta_terminal_calls t) \<or> inadmissible store callID (sta_last_observed t)"
    using assms(1) k(9) by (fastforce simp: spent_def k(3))
  then show ?thesis using assms(1) k(2) by (simp add: spent_def call_ids_def)
qed

lemma live_written:
  assumes "writes store s u" and "state_wf s" and "callID \<in> call_ids s"
  shows "callID \<in> call_ids u \<or> spent store callID u"
  using assms(1)
proof cases
  case (transition ownerID obs v p)
  then show ?thesis using operate_effect(6) [OF transition assms(2)] assms(3) by (auto simp: spent_def)
next
  case (reserve ownerID lib obs entropy inp)
  have "callID \<in> call_ids u"
    using reserve
  proof (cases rule: reserve_written)
    case (observed clock)
    then show ?thesis using assms(3) by (simp add: call_ids_def applyClock_def)
  next
    case (exhausted clock t bs s1 cs)
    then show ?thesis using assms(3) prepare_only(1) by (simp add: call_ids_def applyClock_def)
  next
    case (granted clock t bs s1 changed cs r)
    then show ?thesis using assms(3) prepare_only(1) [OF granted(6)] by (simp add: call_ids_def applyClock_def)
  qed
  then show ?thesis ..
qed

definition known :: "action_store \<Rightarrow> string \<Rightarrow> action_state \<Rightarrow> bool" where
  "known store callID s \<longleftrightarrow> callID \<in> call_ids s \<or> spent store callID s"

lemma known_step:
  assumes "store_step store (s, persisted) (t, persisted')" and "known store callID s"
  shows "known store callID t"
proof (cases "spent store callID s")
  case True
  then show ?thesis using spent_step [OF assms(1)] by (simp add: known_def)
next
  case False
  from assms(1) show ?thesis
  proof (rule store_stepE)
    fix u lib
    assume w: "writes store s u" and seal: "sealState store lib s persisted u = Inr t"
    have "validateStateContract store lib s persisted = None"
      using sealState_Inr(10) [OF seal] by (auto simp: validateState_def split: option.splits)
    then have "state_wf s" by (rule contract_wf)
    then have "callID \<in> call_ids u \<or> spent store callID u" using live_written [OF w] assms(2) False by (simp add: known_def)
    then show ?thesis using spent_sealed [OF _ seal] sealState_Inr(2) [OF seal] by (auto simp: known_def call_ids_def)
  qed
qed

lemma known_run:
  assumes "(store_step store)\<^sup>*\<^sup>* x y" and "known store callID (fst x)"
  shows "known store callID (fst y)"
  using assms
proof (induction rule: rtranclp_induct)
  case (step y z)
  then show ?case using known_step [of store "fst y" "snd y" "fst z" "snd z" callID] by simp
qed

section \<open>A run\<close>

definition sealed_state :: action_state where
  "sealed_state = valid_state (stateDigest valid_store (valid_state []))"

definition second_clock :: observation where
  "second_clock =
     \<lparr>obs_repository = Some (''/r'', keyed_example (CHR ''0'')),
      obs_clock = Some \<lparr>clk_time = 2000000000, clk_source = ''clock''\<rparr>\<rparr>"

definition released_call :: terminal_call where
  "released_call =
     \<lparr>trm_call_id = ''act_'' @ replicate 26 (CHR ''a''), trm_reservation_identity = keyed_example (CHR ''4''),
      trm_outcome = OutcomeReleased, trm_completed_at_unix = 2\<rparr>"

definition released_state :: "uint64 \<Rightarrow> string \<Rightarrow> action_state" where
  "released_state revision digest =
     (valid_state digest)\<lparr>sta_revision := revision, sta_reservations := [], sta_last_observed := 2000000000,
       sta_terminal_calls := [released_call, valid_terminal]\<rparr>"

lemma example_order: "replicate 26 (CHR ''a'') < replicate 26 (CHR ''b'')"
  by (simp add: numeral_eq_Suc less_char_def)

lemma example_release:
  "written (operate valid_store second_clock (valid_state d) d (OpRelease (keyed_example (CHR ''4'')))) = Some (released_state 1 d)"
proof -
  let ?s = "valid_state d" and ?clock = "\<lparr>clk_time = 2000000000, clk_source = ''clock''\<rparr>"
  have c: "transitionState valid_store second_clock ?s d = Inr ?clock"
    using example_label
    by (simp add: transitionState_def resampleRepositoryIdentity_def second_clock_def valid_store_def example_store_def
        trustedNow_def valid_state_def)
  have i: "reservationIndex (sta_reservations ?s) (keyed_example (CHR ''4'')) = Some 0"
    by (simp add: reservationIndex_def find_key_def search_index_def sort_search_def search_from.simps valid_state_def valid_reservation_def)
  have "search_index trm_call_id [valid_terminal] (trm_call_id released_call) = 0"
    using example_order by (simp add: search_index_def sort_search_def search_from.simps valid_terminal_def released_call_def)
  then have r: "removeReservationAndRecord ?s 0 released_call = Inr (?s\<lparr>sta_reservations := [], sta_terminal_calls := [released_call, valid_terminal]\<rparr>)"
    by (simp add: removeReservationAndRecord_def valid_state_def MaxTerminalCallRecords_def)
  have t: "terminalFor ?s 0 (keyed_example (CHR ''4'')) OutcomeReleased ?clock = released_call"
    by (simp add: terminalFor_def valid_state_def valid_reservation_def released_call_def unix_seconds_def)
  show ?thesis
    by (simp add: Release_def c i t finishCall_def r)
      (simp add: valid_state_def valid_reservation_def released_state_def applyClock_def)
qed

lemma not_expired: "now \<le> CallIdentityAdmissionWindow \<Longrightarrow> \<not> callIdentityExpired callID now"
  by (auto simp: callIdentityExpired_def callIdentityIssuedAt_def CallIdentityClockSkew_def not_less
      intro!: order.trans [of now CallIdentityAdmissionWindow] split: option.splits)

lemma sealed_accepted: "validateState valid_store lib sealed_state True = None"
  unfolding sealed_state_def
  by (simp add: validateState_def valid_state_accepted)
    (simp add: stateDigest_def state_payload_json_def state_payload_fields_def valid_state_def)

lemma released_accepted:
  "revision \<noteq> 0 \<Longrightarrow> validateStateContract valid_store lib (released_state revision digest) True = None"
proof -
  assume n: "revision \<noteq> 0"
  let ?s = "released_state revision digest"
  have v: "sta_key_id ?s = example_key_id" "sta_repository_identity ?s = keyed_example (CHR ''0'')"
    by (simp_all add: released_state_def valid_state_def)
  have b: "validateBudgetRecords ?s None [valid_record] = None" by (rule valid_record_accepted [OF v])
  have t: "validateEachTerminal ?s None [] [released_call, valid_terminal] = None"
    using keyed_examples example_order
    by (simp add: v state_validCallID_def released_call_def valid_terminal_def)
      (simp add: released_state_def valid_state_def hasPrefix_def base32Lower_def less_eq_char_def less_list_code
        terminal_outcome_valid_def beyondClock_def list_all_iff)
  have u: "\<exists>usage. reservedUsageByLineage [] = Inr usage" by (simp add: reservedUsageByLineage_def)
  have id: "identityUsesKey (keyed_example (CHR ''0'')) example_key_id" using keyed_examples by simp
  show ?thesis using b t u id example_label n
    by (auto simp: validateStateContract_def Let_def validateReservations_def validateTerminalCalls_def
        validateApprovalRecords_def released_state_def valid_state_def valid_store_def example_store_def
        supportedStateFormat_def MaxBudgetRecords_def MaxReservations_def MaxTerminalCallRecords_def
        MaxApprovalRecords_def MaxPendingApprovals_def split: option.splits sum.splits)
qed

lemma released_sealed: "\<exists>d. sealState valid_store lib sealed_state True (released_state 1 (sta_digest sealed_state)) = Inr (released_state 2 d)"
proof -
  have m: "migrateLegacyHistory valid_store lib (released_state 1 d) now = released_state 1 d" for d now
    by (simp add: migrateLegacyHistory_def released_state_def valid_state_def StateFormatVersion_def legacyStateFormatVersion_def)
  have p: "pruneRetainedHistory lib (released_state 1 d) 2000000000 = released_state 1 d" for d
    by (simp add: pruneRetainedHistory_def filterRecords_def not_expired CallIdentityAdmissionWindow_def released_state_def
        valid_state_def)
  have f: "sta_format_version (released_state 1 d) = StateFormatVersion" "sta_last_observed (released_state 1 d) = 2000000000"
    "(released_state 1 d)\<lparr>sta_revision := 2, sta_digest := e\<rparr> = released_state 2 e" for d e
    by (simp_all add: released_state_def valid_state_def)
  have r: "sta_revision sealed_state = 1" by (simp add: sealed_state_def valid_state_def)
  have "sealState valid_store lib sealed_state True (released_state 1 (sta_digest sealed_state))
      = Inr (released_state 2 (stateDigest valid_store ((released_state 1 (sta_digest sealed_state))\<lparr>sta_revision := 2\<rparr>)))"
    by (simp add: sealState_def r sealed_accepted m f p released_accepted)
  then show ?thesis by blast
qed

lemma example_step: "\<exists>d. store_step valid_store (sealed_state, True) (released_state 2 d, True)"
proof -
  have o: "valid_store\<lparr>sto_owner_id := ''own''\<rparr> = valid_store" by (simp add: valid_store_def example_store_def)
  have "sta_digest sealed_state = stateDigest valid_store (valid_state [])" by (simp add: sealed_state_def) (simp add: valid_state_def)
  then have "writes valid_store sealed_state (released_state 1 (sta_digest sealed_state))"
    using example_release [of "sta_digest sealed_state"] by (intro writes.transition [where ownerID = "''own''"]) (simp only: o sealed_state_def)
  then show ?thesis using released_sealed store_step by metis
qed

section \<open>Properties\<close>

text \<open>
  C1: a call is reserved at most once in the life of a store: once a call that was live or finished
  is not live, no interleaving of reservations, transitions, clock readings, pruning and migration,
  by any owners, makes it live again.
\<close>

theorem call_reserved_once:
  assumes "callID \<in> call_ids s \<or> callID \<in> trm_call_id ` set (sta_terminal_calls s)"
    and "(store_step store)\<^sup>*\<^sup>* (s, persisted) (t, persisted')" and "callID \<notin> call_ids t"
    and "(store_step store)\<^sup>*\<^sup>* (t, persisted') (u, persisted'')"
  shows "callID \<notin> call_ids u"
proof -
  have "known store callID s" using assms(1) by (auto simp: known_def spent_def)
  then have "spent store callID t" using known_run [OF assms(2), of callID] assms(3) by (simp add: known_def)
  then show ?thesis using spent_run [OF assms(4)] by (simp add: spent_def)
qed

theorem call_reserved_once_witness:
  "\<exists>t. store_step valid_store (sealed_state, True) (t, True) \<and> ''act_'' @ replicate 26 (CHR ''b'') \<notin> call_ids t"
proof -
  obtain d where step: "store_step valid_store (sealed_state, True) (released_state 2 d, True)" using example_step by blast
  have "''act_'' @ replicate 26 (CHR ''b'') \<in> trm_call_id ` set (sta_terminal_calls sealed_state)"
    "''act_'' @ replicate 26 (CHR ''b'') \<notin> call_ids sealed_state"
    by (simp_all add: sealed_state_def valid_state_def valid_terminal_def valid_reservation_def call_ids_def numeral_eq_Suc)
  with call_reserved_once [of _ sealed_state valid_store True sealed_state True] step show ?thesis by blast
qed

end
