(* ===== verification/State_Grant.thy ===== *)
theory State_Grant
  imports State_Reserve
begin

text \<open>
  A reservation worked out from the first state of a store: the identity of the call, the context
  and the server are those that the code would make under its key, of whose digests nothing is
  computed. The property of this theory is the one that a reservation stays within its limits.
\<close>

section \<open>The length of an encoding\<close>

lemma record_length:
  assumes "list_all (\<lambda>m. length (encode (snd m)) \<le> n \<and> length (fst m) \<le> 30) ms"
  shows "length (encode (JRecord ms)) \<le> 2 + length ms * (184 + n)"
proof -
  have "length (encodeMembers first ms) \<le> 1 + length ms * (184 + n)" for first
    using assms
  proof (induction ms arbitrary: first)
    case (Cons m ms)
    then have "length (encodeMembers False ms) \<le> 1 + length ms * (184 + n)" "length (encode (snd m)) \<le> n" "length (fst m) \<le> 30"
      by simp_all
    then show ?case using jsonQuote_length [of "fst m"] by simp
  qed simp
  from this [of True] show ?thesis by simp
qed

section \<open>The inputs\<close>

definition granted_key :: identity_key where
  "granted_key = \<lparr>ikey_id = example_key_id, ikey_material = replicate 32 0\<rparr>"

lemma granted_key_id: "validKeyedIdentityKeyID (ikey_id granted_key)"
  by (simp add: granted_key_def example_key_id_valid)

lemma valid_store_fields [simp]:
  "sto_key valid_store = granted_key" "sto_repository valid_store = ''/r''"
  "sto_repository_identity valid_store = keyed_example (CHR ''0'')" "sto_owner_id valid_store = ''own''"
  by (simp_all add: valid_store_def example_store_def granted_key_def)

definition granted_server :: observed_server where
  "granted_server =
     (let s = \<lparr>osv_executable_path = ''/bin/s'', osv_executable_digest = digestBytes ''x'',
            osv_argv_identity = key_identity granted_key DomainArgv [''s''], osv_working_directory = ''/w'',
            osv_working_dir_identity = key_identity granted_key DomainWorkingDirectory [''/w'', ''1''],
            osv_environment_names = [], osv_environment = [],
            osv_environment_identity = key_identity granted_key DomainEnvironmentName [],
            osv_server_identity = []\<rparr>
      in s\<lparr>osv_server_identity := observedServerIdentity granted_key s\<rparr>)"

lemma granted_server_ok: "server_Validate granted_server granted_key = None"
proof -
  have "ObserveServer granted_key \<lparr>oso_executable = Some (''/bin/s'', ''x''), oso_directory = Some (''/w'', ''/w'', ''1'')\<rparr>
      ''s'' [] [] = Inr granted_server"
    by (simp add: ObserveServer_def observeArgv_def observeEnvironment_def granted_server_def Let_def MaxServerArgvValues_def
        MaxServerArgvBytes_def MaxEnvironmentBindings_def)
  then show ?thesis by (rule observed_server_ok [OF granted_key_id])
qed

definition granted_context :: bound_context where
  "granted_context =
     \<lparr>bcx_principal = ''p'', bcx_role = [], bcx_environment = [], bcx_credentials = [], bcx_server_label = ''s'',
      bcx_run_identity = [], bcx_session_identity = [],
      bcx_identity = contextIdentity granted_key ''p'' [] [] ''s'' [] [] [], bcx_provenance = ProvenanceOperatorBound\<rparr>"

lemma granted_context_ok: "validateBoundContext valid_store granted_context ''s'' = None"
proof -
  let ?c = "\<lparr>opc_principal = ''p'', opc_role = [], opc_environment = [], opc_credentials = [], opc_server_label = ''s'',
      opc_run_id = [], opc_session_id = []\<rparr>"
  have "operator_Bind ?c granted_key = Inr granted_context"
    using example_label by (simp add: operator_Bind_def operator_Validate_def granted_context_def)
  then show ?thesis using operator_bound [OF granted_key_id, of ?c granted_context valid_store] by simp
qed

definition granted_call :: string where
  "granted_call =
     (case NewCallID granted_key (keyed_example (CHR ''0'')) 1 ''clock'' (replicate 5 1) of Inl e \<Rightarrow> [] | Inr s \<Rightarrow> s)"

lemma encoded_call_valid:
  assumes "length raw = 17"
  shows "validCallID (encodeCallIdentity raw)"
proof -
  have "list_all (\<lambda>c. CHR ''a'' \<le> c \<and> c \<le> CHR ''z'' \<or> CHR ''2'' \<le> c \<and> c \<le> CHR ''7'') callIdentityAlphabet"
    by (simp add: callIdentityAlphabet_def less_eq_char_def)
  then have "CHR ''a'' \<le> callIdentityAlphabet ! n \<and> callIdentityAlphabet ! n \<le> CHR ''z''
      \<or> CHR ''2'' \<le> callIdentityAlphabet ! n \<and> callIdentityAlphabet ! n \<le> CHR ''7''" if "n < 32" for n
    using that by (simp add: list_all_length callIdentityAlphabet_def)
  then show ?thesis
    using encodeCallIdentity_length [of raw] character_range [OF assms]
    by (simp add: validCallID_def encodeCallIdentity_def callIdentityPrefix_def callIdentityCharacter_def list_all_iff)
qed

lemma granted_call_new: "NewCallID granted_key (keyed_example (CHR ''0'')) 1 ''clock'' (replicate 5 1) = Inr granted_call"
  and granted_call_valid: "validCallID granted_call"
proof -
  let ?stamp = "take 5 (putUint64 (push_bit 24 (of_int 1))) @ take 5 (replicate 5 1)"
  obtain mac where mac: "callIdentityMAC granted_key (keyed_example (CHR ''0'')) ?stamp = Some mac" "length mac = 7"
    using callIdentityMAC_shape by blast
  have "NewCallID granted_key (keyed_example (CHR ''0'')) 1 ''clock'' (replicate 5 1) = Inr (encodeCallIdentity (?stamp @ mac))"
    using mac(1) example_label
    by (simp add: NewCallID_def maxCallIdentitySecond_def callIdentitySeconds_def callIdentityRandom_def Let_def)
  moreover have "length (?stamp @ mac) = 17" using mac(2) by (simp add: putUint64_def)
  ultimately show "NewCallID granted_key (keyed_example (CHR ''0'')) 1 ''clock'' (replicate 5 1) = Inr granted_call"
    "validCallID granted_call"
    using encoded_call_valid [of "?stamp @ mac"] by (simp_all add: granted_call_def)
qed

definition granted_request :: "string \<Rightarrow> request" where
  "granted_request version =
     \<lparr>req_format_version = ''1'', req_call_id = granted_call, req_transport = TransportMCPStdio,
      req_platform = [], req_server_label = ''s'', req_server_fingerprint = osv_server_identity granted_server,
      req_tool = ''t'', req_tool_contract_digest = ''sha256:'' @ example_hex, req_phase = PhasePreCall,
      req_repository_identity = keyed_example (CHR ''0''), req_policy_digest = example_hex,
      req_lock_digest = example_hex, req_authority_mode = AuthorityRepositoryManaged,
      req_arguments = Some (Object []), req_result = None, req_progress = None,
      req_context = [], req_completeness = CompleteEvidence, req_deadline = DeadlineReady,
      req_state_version = version\<rparr>"

lemma granted_server_uses: "identityUsesKey (osv_server_identity granted_server) example_key_id"
  using key_identity_uses [OF granted_key_id, of DomainServer] by (simp add: granted_server_def Let_def observedServerIdentity_def) (simp add: granted_key_def)

lemma uses_shape:
  assumes "identityUsesKey v k"
  shows "ValidKeyedIdentity v" and "hmacIdentityPattern v" and "ValidIdentity v" and "length v = 80 + length k"
  using assms uses_key_iff keyed_has_key by (auto simp: ValidKeyedIdentity_def ValidIdentity_def identityUsesKey_def)

lemma empty_arguments: "cloneRuntimeValue (Object []) = Inr 2" "kind_of (Object []) = ValueObject"
  by (simp_all add: cloneRuntimeValue_def CanonicalJSONSize_def canonicalJSONSize.simps validateRuntimeValue.simps
      maxArgumentBytes_def)

lemma granted_request_valid:
  assumes "validOpaqueIdentity version"
  shows "validateAndCloneRequest (granted_request version) = Inr (granted_request version)"
proof -
  let ?r = "granted_request version"
  have hex: "lowerHex64 example_hex" "sha256IdentityPattern (''sha256:'' @ example_hex)"
    using example_digits by (simp_all add: lowerHex64_def example_hex_def lowerHexLength_def list_all_iff sha256IdentityPattern_def hasPrefix_def)
  have m: "validateRequestMetadata ?r = None"
    using assms hex granted_call_valid example_label uses_shape [OF granted_server_uses] uses_shape [OF keyed_examples(1)]
    by (simp add: validateRequestMetadata_def granted_request_def RequestFormatVersion_def
        validateToolName_def MaxToolNameBytes_def validString_Cons runes_Cons isControl_def gatewayToolNamePattern_def lowerAlnum_def less_eq_char_def phase_valid_iff)
  have p: "validatePhasePayload ?r = Inr 2"
    by (simp add: validatePhasePayload_def granted_request_def empty_arguments)
  have x: "cloneContextValues (req_context ?r) 2 = Inr []"
    by (simp add: cloneContextValues_def granted_request_def MaxContextValues_def)
  have c: "normalizeCompleteness (req_completeness ?r) = Inr (req_completeness ?r)"
    by (simp add: normalizeCompleteness_def granted_request_def evidence_fields_def CompleteEvidence_def failureReason_def)
  show ?thesis unfolding validateAndCloneRequest_def m p x c option.case sum.case
    by (simp add: granted_request_def)
qed

lemma granted_request_encoded:
  assumes "validOpaqueIdentity version"
  shows "\<exists>body. CanonicalRequest (granted_request version) = Inr body"
proof -
  let ?r = "granted_request version"
  have n: "length version \<le> 256" "length granted_call = 30" "length (osv_server_identity granted_server) = 112"
    "length (keyed_example (CHR ''0'')) = 112" "length example_hex = 64"
    using assms granted_call_valid uses_shape(4) [OF granted_server_uses] uses_shape(4) [OF keyed_examples(1)]
    by (simp_all add: validOpaqueIdentity_def validCallID_def example_hex_def)
  have q: "length (jsonQuote s) \<le> 2000" if "length s \<le> 256" for s using jsonQuote_length [of s] that by simp
  have "length (encode (completeness_json CompleteEvidence)) \<le> 2 + 7 * (184 + 5)"
    using record_length [of 5 "bool_field ''request_complete'' True @ bool_field ''policy_complete'' True
        @ bool_field ''identity_complete'' True @ bool_field ''context_complete'' True @ bool_field ''state_complete'' True
        @ bool_field ''phase_complete'' True @ [(''missing'', JList [])]"]
    by (simp add: completeness_json_def CompleteEvidence_def bool_field_def)
  then have c: "length (encode (completeness_json CompleteEvidence)) \<le> 2000" by simp
  obtain ms where ms: "request_json ?r = JRecord ms" by (simp add: request_json_def)
  have "list_all (\<lambda>m. length (encode (snd m)) \<le> 2000 \<and> length (fst m) \<le> 30) ms \<and> length ms \<le> 30"
    using ms n c q by (auto simp: request_json_def granted_request_def text_field_def text_omitted_def tree_omitted_def)
  then have "length (encode (request_json ?r)) \<le> 2 + length ms * 2184" "length ms * 2184 \<le> 65520"
    using record_length [of 2000 ms] ms by (simp_all only: list_all_iff) simp_all
  then have "length (encode (request_json ?r)) \<le> 65522" by linarith
  moreover have "marshalRequest ?r = Some (encode (request_json ?r))"
    by (simp add: marshalRequest_def request_values_def granted_request_def MarshalJSON_def CanonicalJSONSize_def
        canonicalJSONSize.simps appendJSON.simps)
  ultimately show ?thesis
    by (simp add: CanonicalRequest_def granted_request_valid [OF assms] maxArgumentBytes_def MaxJSONStringBytes_def)
qed

section \<open>The plan and the run\<close>

definition granted_tool :: tool where
  "granted_tool = example_tool\<lparr>tool_id := ''read'', tool_server_label := ''s'', tool_name := ''t''\<rparr>"

definition granted_budget :: budget where
  "granted_budget =
     \<lparr>bud_id = ''calls'',
      bud_selector = \<lparr>sel_tool_ids = [], sel_transports = [], sel_platforms = [], sel_server_labels = [],
        sel_server_fingerprints = [], sel_tools = [], sel_tool_contract_digests = [], sel_phases = []\<rparr>,
      bud_limits = noLimits\<lparr>lim_call_count := 5\<rparr>, bud_reset = BudgetResetNever, bud_window_seconds = 0,
      bud_on_exhaustion = DecisionBlock, bud_source_identity = []\<rparr>"

definition granted_plan :: compiled_plan where
  "granted_plan =
     \<lparr>cpn_plan = \<lparr>pln_defaults = FrozenDefaults, pln_tools = [granted_tool], pln_rules = [],
        pln_budgets = [granted_budget], pln_detectors = []\<rparr>,
      cpn_tool_by_exact = (\<lambda>key. if key = ToolIdentityKey granted_tool then Some 0 else None),
      cpn_rules = [], cpn_budgets = [granted_budget], cpn_identity = ''sha256:'' @ example_hex, cpn_validated = True\<rparr>"

definition granted_input :: reserve_request where
  "granted_input =
     \<lparr>rin_plan = granted_plan, rin_request = granted_request (sta_digest (initialState valid_store)),
      rin_context = granted_context,
      rin_authority = \<lparr>pau_mode = AuthorityRepositoryManaged, pau_expected_lock_digest = []\<rparr>,
      rin_server = granted_server\<rparr>"

definition first_clock :: clock_snapshot where
  "first_clock = \<lparr>clk_time = 1000000000, clk_source = ''clock''\<rparr>"

definition first_observation :: observation where
  "first_observation = \<lparr>obs_repository = Some (''/r'', keyed_example (CHR ''0'')), obs_clock = Some first_clock\<rparr>"

lemma uses_opaque:
  assumes "identityUsesKey v k"
  shows "validOpaqueIdentity v"
proof -
  obtain d where v: "v = hmacPrefix @ k @ '':'' @ d" and k: "kebabLabel 32 k" and d: "lowerHexLength d 64"
    using assms unfolding uses_key_iff key_id_iff by blast
  show ?thesis using k d hex_no_dash
    by (auto simp: v validOpaqueIdentity_def hmacPrefix_def kebabLabel_def lowerHexLength_def list_all_iff lowerAlnum_def
        less_eq_char_def)
qed

lemma granted_version: "validOpaqueIdentity (sta_digest (initialState valid_store))"
  "validOpaqueIdentity ''mutable-state-version''"
proof -
  have "identityUsesKey (sta_digest (initialState valid_store)) (ikey_id granted_key)"
    by (simp add: initialState_def Let_def stateDigest_def key_identity_uses [OF granted_key_id])
  then show "validOpaqueIdentity (sta_digest (initialState valid_store))" by (rule uses_opaque)
qed (simp add: validOpaqueIdentity_def lowerAlnum_def less_eq_char_def)

lemma initial_fields [simp]:
  "sta_budgets (initialState store) = []" "sta_reservations (initialState store) = []"
  "sta_terminal_calls (initialState store) = []" "sta_approvals (initialState store) = []"
  "sta_clock_source (initialState store) = []" "sta_last_observed (initialState store) = 0"
  by (simp_all add: initialState_def Let_def)

lemma granted_contract: "BudgetContract granted_plan (granted_request version) = Inr (granted_tool, [granted_budget])"
proof -
  let ?t = "request_tool (granted_request version)"
  have "ToolIdentityKey (?t\<lparr>tool_server_fingerprint := []\<rparr>) = ToolIdentityKey granted_tool"
    by (simp add: ToolIdentityKey_def request_tool_def granted_request_def granted_tool_def example_tool_def)
  moreover have "tool_server_fingerprint ?t \<noteq> []"
    using uses_shape(4) [OF granted_server_uses] by (auto simp: request_tool_def granted_request_def)
  ultimately have "lookupToolIndex (cpn_tool_by_exact granted_plan) ?t = Some 0"
    by (simp add: lookupToolIndex_def granted_plan_def)
  then show ?thesis
    by (simp add: BudgetContract_def Let_def)
      (simp add: granted_plan_def granted_request_def granted_budget_def selectorMatches_def
        stringListed_def transportListed_def platformListed_def phaseListed_def)
qed

lemma granted_request_checks:
  "validateReserveRequest valid_store first_observation granted_input = None"
proof -
  let ?v = "sta_digest (initialState valid_store)"
  obtain body where b: "CanonicalRequest (granted_request ?v) = Inr body" using granted_request_encoded [OF granted_version(1)] by blast
  have k: "identityUsesKey (keyed_example (CHR ''0'')) (ikey_id granted_key)" using keyed_examples(1) by (simp add: granted_key_def)
  have f: "req_server_label (granted_request ?v) = ''s''" "req_authority_mode (granted_request ?v) = AuthorityRepositoryManaged"
    "req_lock_digest (granted_request ?v) = example_hex" "req_repository_identity (granted_request ?v) = keyed_example (CHR ''0'')"
    "req_server_fingerprint (granted_request ?v) = osv_server_identity granted_server"
    by (simp_all add: granted_request_def)
  have h: "validLowerHex example_hex 64" using example_digits by (simp add: validLowerHex_def example_hex_def list_all_iff)
  show ?thesis
    by (simp add: validateReserveRequest_def granted_input_def b resampleRepositoryIdentity_def first_observation_def k
        VerifyLockDigest_def policy_Validate_def f h granted_server_ok granted_context_ok)
qed

definition granted_generation :: budget_generation where
  "granted_generation = requestGeneration valid_store granted_input"

lemma granted_prepared:
  "\<exists>s1 changed cs. prepareCandidates valid_store (initialState valid_store) [granted_budget] granted_tool granted_input
       granted_generation 1000000000 = Inr (s1, changed, cs) \<and> \<not> candidatesExhausted cs
     \<and> sta_reservations s1 = [] \<and> sta_terminal_calls s1 = [] \<and> sta_approvals s1 = []
     \<and> (\<exists>scope lineage identity r.
          budgetScope valid_store granted_budget (tool_id granted_tool) granted_input 1000000000 = Inr (scope, lineage, identity)
          \<and> sta_budgets s1 = [r] \<and> brc_lineage_identity r = lineage \<and> brc_scope_identity r = identity
          \<and> brc_generation r = granted_generation)"
proof -
  have "\<exists>x. budgetScope valid_store granted_budget (tool_id granted_tool) granted_input 1000000000 = Inr x"
    by (simp add: budgetScope_def granted_budget_def Let_def)
  then obtain scope lineage identity where
    x: "budgetScope valid_store granted_budget (tool_id granted_tool) granted_input 1000000000 = Inr (scope, lineage, identity)"
    by auto
  have p: "pruneExpiredFixedWindowRecords (initialState valid_store) 1000000000 = Inr (False, initialState valid_store)"
    by (simp add: pruneExpiredFixedWindowRecords_def)
  have u: "\<exists>r. upsertBudgetRecord (initialState valid_store) granted_budget scope lineage identity granted_generation
      = Inr ((initialState valid_store)\<lparr>sta_budgets := [r]\<rparr>, r, True) \<and> brc_consumed r = noUsage
      \<and> brc_lineage_identity r = lineage \<and> brc_scope_identity r = identity \<and> brc_generation r = granted_generation"
    by (simp add: upsertBudgetRecord_def search_index_def sort_search_def search_from.simps MaxBudgetRecords_def
        activeReservationBlocksResetChange_def carryForwardChangedReset_def MaxGenerationHistory_def Let_def)
  have r: "reservedUsageByLineage [] = Inr (\<lambda>lineage. noUsage)" by (simp add: reservedUsageByLineage_def)
  have e: "expectedBudgetUsage (bud_limits granted_budget) granted_tool (rin_request granted_input)
      = Some (noUsage\<lparr>use_call_count := 1\<rparr>)"
    by (simp add: expectedBudgetUsage_def expectedBudgetUsageWithArgumentBytes_def granted_budget_def noLimits_def
        granted_tool_def example_tool_def noUsage_def)
  have a: "budgetCapacityAvailable (bud_limits granted_budget) noUsage noUsage (noUsage\<lparr>use_call_count := 1\<rparr>) False"
    by (simp add: budgetCapacityAvailable_def granted_budget_def noLimits_def noUsage_def capacityCheck_def saturatingBudgetAdd_def)
  from u obtain r where "upsertBudgetRecord (initialState valid_store) granted_budget scope lineage identity granted_generation
      = Inr ((initialState valid_store)\<lparr>sta_budgets := [r]\<rparr>, r, True)" "brc_consumed r = noUsage"
    "brc_lineage_identity r = lineage" "brc_scope_identity r = identity" "brc_generation r = granted_generation" by blast
  then show ?thesis using x
    by (simp add: prepareCandidates_def p r e a candidatesExhausted_def candidateFromRecord_def) blast
qed

lemma granted_admissible:
  "requireAdmissibleCallID granted_key (keyed_example (CHR ''0'')) granted_call 1000000000 = Inr ()"
  using NewCallID_issued [OF granted_call_new]
  by (simp add: requireAdmissibleCallID_def CallIdentityClockSkew_def CallIdentityAdmissionWindow_def)

lemma single_charge_total: "\<exists>usage. reservedUsageByLineage [r] = Inr usage" if "rsv_charges r = [c]"
  by (simp add: reservedUsageByLineage_def that checkedUsageAdd_def addOverflow_def noUsage_def)

lemma granted_advances:
  "\<exists>u f. reserveLocked valid_store lib first_observation (replicate 32 (CHR ''e'')) (initialState valid_store) granted_input
      = Advance u f \<and> sta_reservations u \<noteq> []"
proof -
  let ?s = "initialState valid_store"
  obtain s1 changed cs scope lineage identity v where
      p: "prepareCandidates valid_store ?s [granted_budget] granted_tool granted_input
       granted_generation 1000000000 = Inr (s1, changed, cs)" and x: "\<not> candidatesExhausted cs"
    and t: "sta_reservations s1 = []" "sta_terminal_calls s1 = []" "sta_approvals s1 = []"
    and scope: "budgetScope valid_store granted_budget (tool_id granted_tool) granted_input 1000000000 = Inr (scope, lineage, identity)"
    and b: "sta_budgets s1 = [v]" "brc_lineage_identity v = lineage" "brc_scope_identity v = identity"
      "brc_generation v = granted_generation"
    using granted_prepared by blast
  have clock: "trustedNow first_observation ?s = Inr first_clock"
    using example_label by (simp add: trustedNow_def first_observation_def first_clock_def)
  have f: "rin_plan granted_input = granted_plan" "rin_request granted_input = granted_request (sta_digest ?s)"
    "req_call_id (granted_request v) = granted_call" "req_state_version (granted_request v) = v" "clk_time first_clock = 1000000000" for v
    by (simp_all add: granted_input_def granted_request_def first_clock_def)
  have fresh: "rejectTerminalOrUnsafeRetry ?s granted_call ''own'' = None" "reservationForCall [] granted_call = None"
    by (simp_all add: rejectTerminalOrUnsafeRetry_def reservationForCall_def find_key_def search_index_def sort_search_def search_from.simps)
  have "rin_request granted_input\<lparr>req_state_version := ''mutable-state-version''\<rparr> = granted_request ''mutable-state-version''"
    by (simp add: granted_input_def granted_request_def)
  then have "\<exists>identity. reservationRequestIdentity valid_store granted_input = Inr identity"
    using granted_request_encoded [OF granted_version(2)] by (auto simp: reservationRequestIdentity_def)
  then obtain r where r: "newReservation valid_store granted_input cs 1000000000 (replicate 32 (CHR ''e'')) = Inr r"
    by (auto simp: newReservation_def)
  have none: "sta_reservations (pruneRetainedHistory lib s1 n) = []" "sta_terminal_calls (pruneRetainedHistory lib s1 n) = []" for n
    using t by (simp_all add: pruneRetainedHistory_def Let_def filterRecords_def)
  define u where "u = applyClock ((pruneRetainedHistory lib s1 1000000000)\<lparr>sta_reservations := [r]\<rparr>) first_clock"
  have "length cs = 1" using arg_cong [OF prepare_terms [OF p], of length] by simp
  then obtain c where "cs = [c]" by (metis One_nat_def length_0_conv length_Suc_conv)
  then have "rsv_charges r = [chargeOf c]" using new_charges(1) [OF r] by simp
  then obtain usage where usage: "reservedUsageByLineage [r] = Inr usage" using single_charge_total by blast
  have "expectedBudgetUsage (bud_limits granted_budget) granted_tool (rin_request granted_input) \<noteq> None"
    by (simp add: expectedBudgetUsage_def expectedBudgetUsageWithArgumentBytes_def granted_budget_def noLimits_def)
  moreover have "budgetRecordForLineage [v] lineage = Some v"
    using b(2) by (simp add: budgetRecordForLineage_def find_key_def search_index_def sort_search_def search_from.simps Let_def)
  ultimately obtain cs' where "candidatesFromState valid_store u [granted_budget] granted_tool granted_input
      granted_generation 1000000000 = Inr cs'"
    using b usage by (auto simp: candidatesFromState_def u_def applyClock_def scope Let_def)
  then obtain g where "grantReservation valid_store lib first_clock (replicate 32 (CHR ''e'')) s1 [granted_budget] granted_tool
      granted_input cs = Advance u g"
    using r t none
    by (auto simp: grantReservation_def f MaxReservations_def MaxTerminalCallRecords_def Let_def u_def granted_generation_def)
  then have "reserveLocked valid_store lib first_observation (replicate 32 (CHR ''e'')) ?s granted_input = Advance u g"
    using granted_request_checks fresh clock granted_admissible p x
    by (simp add: reserveLocked_def f granted_contract granted_generation_def)
  then show ?thesis by (auto simp: u_def applyClock_def)
qed

lemma granted_written:
  "\<exists>u. written (reserveLocked valid_store lib first_observation (replicate 32 (CHR ''e'')) (initialState valid_store) granted_input)
      = Some u \<and> sta_reservations u \<noteq> []"
  using granted_advances [of lib] by fastforce

definition no_times :: time_library where
  "no_times = \<lparr>tim_parse = (\<lambda>value. None), tim_format = (\<lambda>instant. [])\<rparr>"

section \<open>Properties\<close>

text \<open>
  C2: a reservation that is made charges each declared budget of the call once, at the exact cost
  of the call, and then holds every limit of each: in every dimension what is consumed and what
  all reservations hold together, in true natural numbers, is at most the limit (and nothing is
  charged where there is no limit). No other budget loses capacity.
\<close>

theorem reservation_within_limits:
  assumes "state_wf s" and "distinct (map bud_id (cpn_budgets (rin_plan inp)))"
    and "list_all (\<lambda>b. budgetLimitsBounded (bud_limits b)) (cpn_budgets (rin_plan inp))"
    and "written (reserveLocked store lib obs entropy s inp) = Some u"
    and "r \<in> set (sta_reservations u)" and "r \<notin> set (sta_reservations s)"
  shows "(\<exists>t bs. BudgetContract (rin_plan inp) (rin_request inp) = Inr (t, bs)
      \<and> mset (map charge_terms (rsv_charges r))
        = mset (map (\<lambda>b. (bud_id b, expectedBudgetUsage (bud_limits b) t (rin_request inp))) bs))
    \<and> (\<forall>c \<in> set (rsv_charges r). \<forall>d. within_limits u c d)
    \<and> (\<forall>k d. k \<notin> chg_lineage_identity ` set (rsv_charges r) \<longrightarrow> held u k d \<le> held s k d)"
proof -
  have "lineages_sorted (sta_budgets s)" using assms(1) by (simp add: state_wf_def)
  then show ?thesis
  proof (rule reserved_within [OF assms(4) _ assms(2,3,5,6)], goal_cases)
    case (1 t bs)
    then show ?case by blast
  qed
qed

theorem reservation_within_limits_witness:
  "\<exists>u r. written (reserveLocked valid_store no_times first_observation (replicate 32 (CHR ''e''))
        (initialState valid_store) granted_input) = Some u
     \<and> r \<in> set (sta_reservations u) \<and> rsv_charges r \<noteq> [] \<and> (\<forall>c \<in> set (rsv_charges r). within_limits u c CallCount)"
proof -
  obtain u where u: "written (reserveLocked valid_store no_times first_observation (replicate 32 (CHR ''e''))
      (initialState valid_store) granted_input) = Some u" "sta_reservations u \<noteq> []" using granted_written by blast
  then obtain r where r: "r \<in> set (sta_reservations u)" by (meson last_in_set)
  have wf: "state_wf (initialState valid_store)" by (simp add: state_wf_def)
  have b: "distinct (map bud_id (cpn_budgets (rin_plan granted_input)))"
    "list_all (\<lambda>b. budgetLimitsBounded (bud_limits b)) (cpn_budgets (rin_plan granted_input))"
    by (simp_all add: granted_input_def granted_plan_def granted_budget_def budgetLimitsBounded_def limit_list_def noLimits_def)
  note k = reservation_within_limits [OF wf b u(1) r]
  have "rsv_charges r \<noteq> []" using k by (auto simp: granted_input_def granted_contract)
  then show ?thesis using k u r by fastforce
qed

end
