(* ===== verification/State_Recovery.thy ===== *)
theory State_Recovery
  imports State_Grant
begin

text \<open>
  The files of a store (store.go): a state file and, while a write is under way, a transaction file
  that holds the state to come. A write publishes the transaction, publishes the state and removes
  the transaction; whoever takes the lock next recovers first. The lemmas show that a process that
  stops anywhere, in a write or in a recovery, leaves the state before the write or the state after
  it. Publishing a file replaces it in one step, and the steps reach the disk in their order.
\<close>

section \<open>Indented JSON\<close>

text \<open>\<open>json.MarshalIndent\<close> with an empty prefix and two blanks.\<close>

definition newline :: "nat \<Rightarrow> string" where
  "newline depth = CHR 0x0A # replicate (2 * depth) (CHR '' '')"

fun encodeIndent :: "nat \<Rightarrow> json \<Rightarrow> string"
  and indentItems :: "nat \<Rightarrow> bool \<Rightarrow> json list \<Rightarrow> string"
  and indentMembers :: "nat \<Rightarrow> bool \<Rightarrow> (string \<times> json) list \<Rightarrow> string"
where
  "encodeIndent depth (JList xs) = (if xs = [] then ''[]'' else CHR ''['' # indentItems depth True xs)"
| "encodeIndent depth (JRecord ms) = (if ms = [] then ''{}'' else CHR ''{'' # indentMembers depth True ms)"
| "encodeIndent depth JNull = encode JNull"
| "encodeIndent depth (JBool b) = encode (JBool b)"
| "encodeIndent depth (JNumber t) = encode (JNumber t)"
| "encodeIndent depth (JText s) = encode (JText s)"
| "indentItems depth first [] = newline depth @ '']''"
| "indentItems depth first (x # xs) =
     (if first then [] else '','') @ newline (Suc depth) @ encodeIndent (Suc depth) x @ indentItems depth False xs"
| "indentMembers depth first [] = newline depth @ ''}''"
| "indentMembers depth first (m # ms) =
     (if first then [] else '','') @ newline (Suc depth) @ jsonQuote (fst m) @ '': '' @ encodeIndent (Suc depth) (snd m)
     @ indentMembers depth False ms"

definition MaxStateBytes :: nat where "MaxStateBytes = 16777216"
definition MaxStateTransaction :: nat where "MaxStateTransaction = MaxStateBytes + 65536"
definition TransactionSchema :: string where "TransactionSchema = ''reconc.action-state-transaction/v1''"
definition StateAdmissionHeadroomBytes :: nat where "StateAdmissionHeadroomBytes = 1048576"

definition encodeBoundedJSON :: "json \<Rightarrow> nat \<Rightarrow> string option" where
  "encodeBoundedJSON j maximum =
     (let body = encodeIndent 0 j @ [CHR 0x0A] in if maximum < length body then None else Some body)"

definition encodeBoundedCompactJSON :: "json \<Rightarrow> nat \<Rightarrow> string option" where
  "encodeBoundedCompactJSON j maximum =
     (let body = encode j @ [CHR 0x0A] in if maximum < length body then None else Some body)"

section \<open>Transactions\<close>

record state_transaction =
  stx_schema :: string
  stx_format_version :: string
  stx_before_persisted :: bool
  stx_before_revision :: uint64
  stx_before_digest :: string
  stx_after :: action_state
  stx_digest :: string

definition transaction_payload_fields :: "state_transaction \<Rightarrow> (string \<times> json) list" where
  "transaction_payload_fields x =
     text_field ''schema'' (stx_schema x) @ text_field ''format_version'' (stx_format_version x)
     @ bool_field ''before_persisted'' (stx_before_persisted x)
     @ nat_field ''before_revision'' (unat (stx_before_revision x))
     @ text_field ''before_digest'' (stx_before_digest x) @ [(''after'', state_json (stx_after x))]"

definition transaction_json :: "state_transaction \<Rightarrow> json" where
  "transaction_json x = JRecord (transaction_payload_fields x @ text_field ''digest'' (stx_digest x))"

definition transactionDigest :: "action_store \<Rightarrow> state_transaction \<Rightarrow> string" where
  "transactionDigest store x =
     key_identity (sto_key store) DomainTransaction [encode (JRecord (transaction_payload_fields x))]"

definition newTransaction :: "action_store \<Rightarrow> action_state \<Rightarrow> bool \<Rightarrow> action_state \<Rightarrow> state_transaction" where
  "newTransaction store previous persisted next =
     (let x = \<lparr>stx_schema = TransactionSchema, stx_format_version = StateFormatVersion,
            stx_before_persisted = persisted, stx_before_revision = sta_revision previous,
            stx_before_digest = sta_digest previous, stx_after = next, stx_digest = []\<rparr>
      in x\<lparr>stx_digest := transactionDigest store x\<rparr>)"

text \<open>
  The strict decoder of encoding/json: one value of the type, no unknown field and nothing after it.
\<close>

record file_decoder =
  fde_state :: "string \<Rightarrow> action_state option"
  fde_transaction :: "string \<Rightarrow> state_transaction option"

definition decodeState :: "action_store \<Rightarrow> time_library \<Rightarrow> file_decoder \<Rightarrow> string \<Rightarrow> state_error + action_state" where
  "decodeState store lib dec body =
     (case fde_state dec body of
        None \<Rightarrow> Inl (ReasonStateCorrupt, ''decode action state'')
      | Some s \<Rightarrow> (case validateState store lib s True of Some e \<Rightarrow> Inl e | None \<Rightarrow> Inr s))"

definition decodeTransaction ::
  "action_store \<Rightarrow> time_library \<Rightarrow> file_decoder \<Rightarrow> string \<Rightarrow> state_error + state_transaction" where
  "decodeTransaction store lib dec body =
     (case fde_transaction dec body of
        None \<Rightarrow> Inl (ReasonStateCorrupt, ''decode action state transaction'')
      | Some x \<Rightarrow>
          if stx_schema x \<noteq> TransactionSchema \<or> \<not> supportedStateFormat (stx_format_version x)
             \<or> sta_format_version (stx_after x) \<noteq> stx_format_version x
             \<or> \<not> identityUsesKey (stx_before_digest x) (ikey_id (sto_key store))
             \<or> stx_before_persisted x \<noteq> (0 < stx_before_revision x)
             \<or> stx_before_revision x = max_uint64
             \<or> sta_revision (stx_after x) \<noteq> stx_before_revision x + 1
             \<or> sta_digest (stx_after x) = stx_before_digest x
          then Inl (ReasonStateCorrupt, ''action state transaction metadata is invalid'')
          else
            (case validateState store lib (stx_after x) True of
               Some e \<Rightarrow> Inl e
             | None \<Rightarrow>
                 if transactionDigest store x \<noteq> stx_digest x
                 then Inl (ReasonStateCorrupt, ''action state transaction digest is invalid'') else Inr x))"

section \<open>The files\<close>

record disk =
  dsk_transaction :: "string option"
  dsk_state :: "string option"

text \<open>Whether the state was read from a file, or is the one before the first write.\<close>

definition loadState ::
  "action_store \<Rightarrow> time_library \<Rightarrow> file_decoder \<Rightarrow> disk \<Rightarrow> state_error + action_state \<times> bool" where
  "loadState store lib dec d =
     (case dsk_state d of
        None \<Rightarrow> Inr (initialState store, False)
      | Some body \<Rightarrow>
          if MaxStateBytes < length body then Inl (ReasonStateCorrupt, ''read bounded regular action state'')
          else map_sum id (\<lambda>s. (s, True)) (decodeState store lib dec body))"

text \<open>The state that is written, and the bytes of the two files.\<close>

definition writeStateWithHeadroom ::
  "action_store \<Rightarrow> time_library \<Rightarrow> action_state \<Rightarrow> bool \<Rightarrow> action_state \<Rightarrow> nat
     \<Rightarrow> state_error + action_state \<times> string \<times> string"
where
  "writeStateWithHeadroom store lib previous persisted next headroom =
     (case sealState store lib previous persisted next of
        Inl e \<Rightarrow> Inl e
      | Inr next \<Rightarrow>
          (case encodeBoundedJSON (state_json next) MaxStateBytes of
             None \<Rightarrow> Inl (ReasonStateUnavailable, ''encode bounded action state'')
           | Some stateBody \<Rightarrow>
               if 0 < headroom \<and> MaxStateBytes - headroom < length stateBody
               then Inl (ReasonStateUnavailable, ''action state is too close to its size limit to admit a new call; '' @
                       ''retained history shrinks as it leaves the admission window'')
               else
                 (case encodeBoundedCompactJSON (transaction_json (newTransaction store previous persisted next))
                         MaxStateTransaction of
                    None \<Rightarrow> Inl (ReasonStateUnavailable, ''encode bounded action state transaction'')
                  | Some transactionBody \<Rightarrow> Inr (next, transactionBody, stateBody))))"

text \<open>The disks that a write passes through.\<close>

definition publication :: "disk \<Rightarrow> string \<Rightarrow> string \<Rightarrow> disk list" where
  "publication d transactionBody stateBody =
     [d, d\<lparr>dsk_transaction := Some transactionBody\<rparr>,
      d\<lparr>dsk_transaction := Some transactionBody, dsk_state := Some stateBody\<rparr>,
      d\<lparr>dsk_transaction := None, dsk_state := Some stateBody\<rparr>]"

text \<open>The disks that a recovery passes through; the last is the one it leaves.\<close>

definition recoverTransaction ::
  "action_store \<Rightarrow> time_library \<Rightarrow> file_decoder \<Rightarrow> disk \<Rightarrow> state_error + disk list" where
  "recoverTransaction store lib dec d =
     (case dsk_transaction d of
        None \<Rightarrow> Inr [d]
      | Some body \<Rightarrow>
          if MaxStateTransaction < length body then Inl (ReasonStateCorrupt, ''read action state transaction'')
          else
            (case decodeTransaction store lib dec body of
               Inl e \<Rightarrow> Inl e
             | Inr x \<Rightarrow>
                 (case loadState store lib dec d of
                    Inl e \<Rightarrow> Inl e
                  | Inr (current, persisted) \<Rightarrow>
                      if persisted \<and> sta_digest current = sta_digest (stx_after x)
                      then Inr [d, d\<lparr>dsk_transaction := None\<rparr>]
                      else if persisted \<noteq> stx_before_persisted x \<or> sta_digest current \<noteq> stx_before_digest x
                      then Inl (ReasonStateCorrupt, ''action state and recovery transaction diverged'')
                      else
                        (case encodeBoundedJSON (state_json (stx_after x)) MaxStateBytes of
                           None \<Rightarrow> Inl (ReasonStateUnavailable, ''recover action state transaction'')
                         | Some stateBody \<Rightarrow>
                             Inr [d, d\<lparr>dsk_state := Some stateBody\<rparr>,
                                  d\<lparr>dsk_transaction := None, dsk_state := Some stateBody\<rparr>]))))"

text \<open>The disks on which a process may find the store when writes and recoveries stop anywhere.\<close>

inductive crashed ::
  "action_store \<Rightarrow> time_library \<Rightarrow> file_decoder \<Rightarrow> disk \<Rightarrow> string \<Rightarrow> string \<Rightarrow> disk \<Rightarrow> bool"
  for store lib dec d transactionBody stateBody where
  in_write: "d' \<in> set (publication d transactionBody stateBody) \<Longrightarrow>
    crashed store lib dec d transactionBody stateBody d'"
| in_recovery: "crashed store lib dec d transactionBody stateBody d' \<Longrightarrow>
    recoverTransaction store lib dec d' = Inr ds \<Longrightarrow> d'' \<in> set ds \<Longrightarrow>
    crashed store lib dec d transactionBody stateBody d''"

section \<open>A write that is cut short\<close>

lemma sealed_transaction:
  assumes "sealState store lib s persisted next = Inr t" and "sta_digest t \<noteq> sta_digest s"
    and "fde_transaction dec body = Some (newTransaction store s persisted t)"
  shows "decodeTransaction store lib dec body = Inr (newTransaction store s persisted t)"
proof -
  let ?x = "newTransaction store s persisted t"
  note k = sealState_Inr [OF assms(1)]
  have s: "validateStateContract store lib s persisted = None" "sta_digest s = stateDigest store s"
    using k(10) by (auto simp: validateState_def split: option.splits if_splits)
  have key: "validKeyedIdentityKeyID (ikey_id (sto_key store))"
    and rev: "persisted \<longleftrightarrow> 0 < sta_revision s"
    using s(1) by (auto simp: validateStateContract_def Let_def identityUsesKey_def word_neq_0_conv split: if_splits)
  have uses: "identityUsesKey (sta_digest s) (ikey_id (sto_key store))"
    by (simp add: s(2) stateDigest_def key_identity_uses [OF key])
  have max: "sta_revision s \<noteq> max_uint64" and format: "sta_format_version t = StateFormatVersion"
    and next_rev: "sta_revision t = sta_revision s + 1"
    using assms(1) by (auto simp: sealState_def Let_def split: if_splits option.splits)
  have v: "validateState store lib t True = None" using k(6,7) by (simp add: validateState_def)
  define x where "x = newTransaction store s persisted t"
  have x: "stx_schema x = TransactionSchema" "stx_format_version x = StateFormatVersion" "stx_after x = t"
    "stx_before_digest x = sta_digest s" "stx_before_persisted x = persisted" "stx_before_revision x = sta_revision s"
    "transactionDigest store x = stx_digest x"
    by (simp_all add: x_def newTransaction_def Let_def transactionDigest_def transaction_payload_fields_def)
  have "fde_transaction dec body = Some x" by (simp only: assms(3) x_def)
  moreover have "stx_before_persisted x \<longleftrightarrow> 0 < stx_before_revision x" by (simp only: x(5,6) rev [symmetric])
  ultimately show ?thesis unfolding x_def [symmetric]
    using assms(2) uses max format next_rev v
    by (simp only: decodeTransaction_def x(1-4,6,7) supportedStateFormat_def option.case) simp
qed

text \<open>The write of \<open>t\<close> over \<open>s\<close>, and decoders that read back what the encoder wrote.\<close>

definition writing ::
  "action_store \<Rightarrow> time_library \<Rightarrow> file_decoder \<Rightarrow> disk \<Rightarrow> action_state \<Rightarrow> bool \<Rightarrow> action_state \<Rightarrow> string \<Rightarrow> string \<Rightarrow> bool" where
  "writing store lib dec d s persisted t transactionBody stateBody \<longleftrightarrow>
     dsk_transaction d = None \<and> loadState store lib dec d = Inr (s, persisted)
     \<and> (\<exists>next headroom. writeStateWithHeadroom store lib s persisted next headroom = Inr (t, transactionBody, stateBody))
     \<and> fde_state dec stateBody = Some t \<and> fde_transaction dec transactionBody = Some (newTransaction store s persisted t)"

lemma writing_parts:
  assumes "writing store lib dec d s persisted t transactionBody stateBody" and "sta_digest t \<noteq> sta_digest s"
  shows "decodeTransaction store lib dec transactionBody = Inr (newTransaction store s persisted t)"
    and "length transactionBody \<le> MaxStateTransaction" and "encodeBoundedJSON (state_json t) MaxStateBytes = Some stateBody"
    and "dsk_state d' = Some stateBody \<Longrightarrow> loadState store lib dec d' = Inr (t, True)"
proof -
  obtain "next" headroom where w: "writeStateWithHeadroom store lib s persisted next headroom = Inr (t, transactionBody, stateBody)"
    and r: "fde_state dec stateBody = Some t" "fde_transaction dec transactionBody = Some (newTransaction store s persisted t)"
    using assms(1) by (auto simp: writing_def)
  have seal: "sealState store lib s persisted next = Inr t"
    and b: "encodeBoundedJSON (state_json t) MaxStateBytes = Some stateBody"
      "encodeBoundedCompactJSON (transaction_json (newTransaction store s persisted t)) MaxStateTransaction = Some transactionBody"
    using w by (auto simp: writeStateWithHeadroom_def split: sum.splits option.splits if_splits)
  show "decodeTransaction store lib dec transactionBody = Inr (newTransaction store s persisted t)"
    by (rule sealed_transaction [OF seal assms(2) r(2)])
  show "length transactionBody \<le> MaxStateTransaction" using b(2) by (auto simp: encodeBoundedCompactJSON_def Let_def split: if_splits)
  show "encodeBoundedJSON (state_json t) MaxStateBytes = Some stateBody" by (rule b(1))
  have "length stateBody \<le> MaxStateBytes" using b(1) by (auto simp: encodeBoundedJSON_def Let_def split: if_splits)
  moreover have "validateState store lib t True = None" using sealState_Inr(6,7) [OF seal] by (simp add: validateState_def)
  ultimately show "dsk_state d' = Some stateBody \<Longrightarrow> loadState store lib dec d' = Inr (t, True)"
    by (simp add: loadState_def decodeState_def r(1))
qed

text \<open>What a recovery does on each of the disks.\<close>

lemma recovery_disks:
  assumes "writing store lib dec d s persisted t transactionBody stateBody" and "sta_digest t \<noteq> sta_digest s"
    and "d' \<in> set (publication d transactionBody stateBody)"
  obtains ds where "recoverTransaction store lib dec d' = Inr ds" and "set ds \<subseteq> set (publication d transactionBody stateBody)"
    and "ds \<noteq> []" and "dsk_transaction (last ds) = None"
    and "d' = d \<and> last ds = d \<or> loadState store lib dec (last ds) = Inr (t, True)"
proof -
  note w = writing_parts [OF assms(1,2)]
  have d: "dsk_transaction d = None" "loadState store lib dec d = Inr (s, persisted)" using assms(1) by (simp_all add: writing_def)
  have x: "stx_after (newTransaction store s persisted t) = t" "stx_before_persisted (newTransaction store s persisted t) = persisted"
    "stx_before_digest (newTransaction store s persisted t) = sta_digest s"
    by (simp_all add: newTransaction_def Let_def)
  have load: "loadState store lib dec (d\<lparr>dsk_transaction := y\<rparr>) = Inr (s, persisted)" for y
    using d(2) by (simp add: loadState_def)
  have same: "d\<lparr>dsk_transaction := None\<rparr> = d" using d(1) by simp
  let ?a = "d\<lparr>dsk_transaction := Some transactionBody\<rparr>"
  let ?b = "d\<lparr>dsk_transaction := Some transactionBody, dsk_state := Some stateBody\<rparr>"
  let ?c = "d\<lparr>dsk_transaction := None, dsk_state := Some stateBody\<rparr>"
  consider "d' = d" | "d' = ?a" | "d' = ?b" | "d' = ?c" using assms(3) by (auto simp: publication_def)
  then show thesis
  proof cases
    case 1
    show ?thesis by (rule that [of "[d]"]) (simp_all add: 1 d recoverTransaction_def publication_def)
  next
    case 2
    have "recoverTransaction store lib dec d' = Inr [?a, ?b, ?c]"
      using assms(2) w(2) by (simp add: 2 recoverTransaction_def w(1) load x w(3))
    then show ?thesis by (rule that) (simp_all add: publication_def w(4))
  next
    case 3
    have "recoverTransaction store lib dec d' = Inr [?b, ?c]"
      using assms(2) w(2) by (simp add: 3 recoverTransaction_def w(1) w(4) x)
    then show ?thesis by (rule that) (simp_all add: publication_def w(4))
  next
    case 4
    have "recoverTransaction store lib dec d' = Inr [?c]" by (simp add: 4 recoverTransaction_def)
    then show ?thesis by (rule that) (simp_all add: publication_def w(4))
  qed
qed

lemma crashed_published:
  assumes "crashed store lib dec d transactionBody stateBody d'"
    and "writing store lib dec d s persisted t transactionBody stateBody" and "sta_digest t \<noteq> sta_digest s"
  shows "d' \<in> set (publication d transactionBody stateBody)"
  using assms(1)
proof induction
  case (in_recovery d' ds d'')
  then obtain ds' where "recoverTransaction store lib dec d' = Inr ds'" "set ds' \<subseteq> set (publication d transactionBody stateBody)"
    using recovery_disks [OF assms(2,3)] by metis
  then show ?case using in_recovery.hyps by auto
qed

section \<open>A first write\<close>

lemma indented_length:
  assumes "list_all (\<lambda>m. length (encodeIndent 1 (snd m)) \<le> n \<and> length (fst m) \<le> 30) ms"
  shows "length (encodeIndent 0 (JRecord ms)) \<le> 3 + length ms * (188 + n)"
proof -
  have "length (indentMembers 0 first ms) \<le> 2 + length ms * (188 + n)" for first
    using assms
  proof (induction ms arbitrary: first)
    case (Cons m ms)
    then have "length (indentMembers 0 False ms) \<le> 2 + length ms * (188 + n)" "length (encodeIndent 1 (snd m)) \<le> n"
      "length (fst m) \<le> 30" by simp_all
    then show ?case using jsonQuote_length [of "fst m"] by (simp add: newline_def)
  qed (simp add: newline_def)
  from this [of True] show ?thesis by simp
qed

definition first_state :: "string \<Rightarrow> action_state" where
  "first_state digest =
     \<lparr>sta_schema = StateSchema, sta_format_version = StateFormatVersion, sta_key_id = example_key_id,
      sta_repository_identity = keyed_example (CHR ''0''), sta_revision = 1, sta_clock_source = ''clock'',
      sta_last_observed = 1000000000, sta_budgets = [], sta_reservations = [], sta_terminal_calls = [],
      sta_approvals = [], sta_digest = digest\<rparr>"

definition first_written :: action_state where
  "first_written = first_state (stateDigest valid_store (first_state []))"

lemma empty_tables_accepted:
  assumes "sta_schema s = StateSchema" and "sta_format_version s = StateFormatVersion" and "sta_key_id s = example_key_id"
    and "sta_repository_identity s = keyed_example (CHR ''0'')" and "sta_budgets s = []" and "sta_reservations s = []"
    and "sta_terminal_calls s = []" and "sta_approvals s = []"
    and "if persisted then sta_revision s \<noteq> 0 \<and> SafeLabel (sta_clock_source s) \<and> 0 < sta_last_observed s else sta_revision s = 0"
  shows "validateStateContract valid_store lib s persisted = None"
proof -
  have "identityUsesKey (keyed_example (CHR ''0'')) example_key_id" using keyed_examples by simp
  then show ?thesis using assms
    by (auto simp: validateStateContract_def Let_def supportedStateFormat_def granted_key_def validateReservations_def
        validateTerminalCalls_def validateApprovalRecords_def reservedUsageByLineage_def split: if_splits)
qed

lemma first_sealed:
  "sealState valid_store lib (initialState valid_store) False (applyClock (initialState valid_store) first_clock) = Inr first_written"
proof -
  have i: "initialState valid_store = (first_state (sta_digest (initialState valid_store)))\<lparr>sta_revision := 0,
      sta_clock_source := [], sta_last_observed := 0\<rparr>"
    by (simp add: initialState_def Let_def first_state_def granted_key_def)
  have "validateStateContract valid_store lib (initialState valid_store) False = None"
    by (rule empty_tables_accepted) (simp_all add: initialState_def Let_def granted_key_def)
  moreover have "stateDigest valid_store (initialState valid_store) = sta_digest (initialState valid_store)"
    by (simp add: initialState_def Let_def stateDigest_def state_payload_json_def state_payload_fields_def)
  ultimately have v: "validateState valid_store lib (initialState valid_store) False = None" by (simp add: validateState_def)
  let ?n = "applyClock (initialState valid_store) first_clock"
  have n: "sta_last_observed ?n = 1000000000" "sta_format_version ?n = StateFormatVersion"
    "sta_revision (initialState valid_store) = 0"
    by (simp_all add: applyClock_def first_clock_def initialState_def Let_def)
  have m: "migrateLegacyHistory valid_store lib ?n now = ?n" for now
    by (simp add: migrateLegacyHistory_def n StateFormatVersion_def legacyStateFormatVersion_def)
  have p: "(pruneRetainedHistory lib ?n now)\<lparr>sta_revision := 1, sta_digest := d\<rparr> = first_state d" for now d
    by (subst i) (simp add: pruneRetainedHistory_def Let_def filterRecords_def applyClock_def first_clock_def first_state_def)
  have "stateDigest valid_store ((pruneRetainedHistory lib ?n now)\<lparr>sta_revision := 1\<rparr>)
      = stateDigest valid_store (first_state [])" for now
    by (subst i) (simp add: pruneRetainedHistory_def Let_def filterRecords_def applyClock_def first_clock_def first_state_def
        stateDigest_def state_payload_json_def state_payload_fields_def)
  moreover have "validateStateContract valid_store lib first_written True = None"
    using example_label by (intro empty_tables_accepted) (simp_all add: first_written_def first_state_def)
  ultimately show ?thesis
    by (simp add: sealState_def n v m p first_written_def)
qed

lemma first_lengths:
  assumes "length digest = 112"
  shows "length (encodeIndent 0 (state_json (first_state digest))) \<le> 15000"
    and "length (encode (state_json (first_state digest))) \<le> 15000"
proof -
  let ?ms = "state_payload_fields (first_state digest) @ text_field ''digest'' digest"
  have j: "state_json (first_state digest) = JRecord ?ms" by (simp add: state_json_def) (simp add: first_state_def)
  have q: "length (jsonQuote s) \<le> 1000" if "length s \<le> 160" for s using jsonQuote_length [of s] that by simp
  have n: "length (show_int 1000000000) \<le> 1000" "length (show_nat 1) \<le> 1000" by (simp_all add: show_int_def show_nat.simps)
  have k: "length (keyed_example (CHR ''0'')) = 112" by (simp add: keyed_example_def)
  have "list_all (\<lambda>m. length (encodeIndent 1 (snd m)) \<le> 1000 \<and> length (fst m) \<le> 30) ?ms
      \<and> list_all (\<lambda>m. length (encode (snd m)) \<le> 1000 \<and> length (fst m) \<le> 30) ?ms \<and> length ?ms = 12"
    using assms q n k
    by (auto simp: state_payload_fields_def first_state_def text_field_def nat_field_def int_field_def StateSchema_def StateFormatVersion_def)
  then show "length (encodeIndent 0 (state_json (first_state digest))) \<le> 15000"
    "length (encode (state_json (first_state digest))) \<le> 15000"
    using indented_length [of 1000 ?ms] record_length [of 1000 ?ms] unfolding j by simp_all
qed

definition first_decoder :: file_decoder where
  "first_decoder =
     \<lparr>fde_state = (\<lambda>body. Some first_written),
      fde_transaction = (\<lambda>body. Some (newTransaction valid_store (initialState valid_store) False first_written))\<rparr>"

lemma first_writing:
  "\<exists>transactionBody stateBody. writing valid_store lib first_decoder \<lparr>dsk_transaction = None, dsk_state = None\<rparr>
     (initialState valid_store) False first_written transactionBody stateBody"
proof -
  let ?x = "newTransaction valid_store (initialState valid_store) False first_written"
  have key: "length (key_identity granted_key domain parts) = 112" if "domain_valid domain" for domain parts
    using uses_shape(4) [OF key_identity_uses [OF granted_key_id that]] by (simp add: granted_key_def)
  have len: "length (encodeIndent 0 (state_json first_written)) \<le> 15000" "length (encode (state_json first_written)) \<le> 15000"
    using first_lengths [of "stateDigest valid_store (first_state [])"] key by (simp_all add: first_written_def stateDigest_def)
  let ?ms = "transaction_payload_fields ?x @ text_field ''digest'' (stx_digest ?x)"
  have q: "length (jsonQuote s) \<le> 15000" if "length s \<le> 160" for s using jsonQuote_length [of s] that by simp
  have "length (sta_digest (initialState valid_store)) = 112" "length (stx_digest ?x) = 112"
    by (simp_all add: initialState_def Let_def stateDigest_def newTransaction_def transactionDigest_def key)
  moreover have "length (show_nat 0) \<le> 15000" by (simp add: show_nat.simps)
  ultimately have "list_all (\<lambda>m. length (encode (snd m)) \<le> 15000 \<and> length (fst m) \<le> 30) ?ms \<and> length ?ms = 7"
    using len(2) q
    by (auto simp: transaction_payload_fields_def text_field_def nat_field_def bool_field_def newTransaction_def Let_def
        TransactionSchema_def StateFormatVersion_def initialState_def)
  then have "length (encode (transaction_json ?x)) \<le> 110000"
    using record_length [of 15000 ?ms] by (simp add: transaction_json_def)
  then obtain transactionBody where "encodeBoundedCompactJSON (transaction_json ?x) MaxStateTransaction = Some transactionBody"
    by (simp add: encodeBoundedCompactJSON_def MaxStateTransaction_def MaxStateBytes_def)
  moreover obtain stateBody where "encodeBoundedJSON (state_json first_written) MaxStateBytes = Some stateBody"
    using len(1) by (simp add: encodeBoundedJSON_def MaxStateBytes_def)
  ultimately have "writeStateWithHeadroom valid_store lib (initialState valid_store) False
      (applyClock (initialState valid_store) first_clock) 0 = Inr (first_written, transactionBody, stateBody)"
    by (simp add: writeStateWithHeadroom_def first_sealed)
  then show ?thesis by (auto simp: writing_def loadState_def first_decoder_def)
qed

section \<open>Properties\<close>

text \<open>
  C3: wherever a process stops, in a write or in any number of recoveries of it, the next recovery
  succeeds and leaves no transaction, and the store then holds the state before the write, only if
  the write had published nothing, or the state after it; short of a collision of the digests of
  the two states.
\<close>

theorem crash_recovers:
  assumes "writing store lib dec d s persisted t transactionBody stateBody"
    and "crashed store lib dec d transactionBody stateBody d'"
  shows "sta_digest t = sta_digest s
    \<or> (\<exists>ds. recoverTransaction store lib dec d' = Inr ds \<and> ds \<noteq> [] \<and> dsk_transaction (last ds) = None
         \<and> (d' = d \<and> last ds = d \<or> loadState store lib dec (last ds) = Inr (t, True)))"
proof (cases "sta_digest t = sta_digest s")
  case False
  show ?thesis
    by (rule recovery_disks [OF assms(1) False crashed_published [OF assms(2,1) False]]) blast
qed simp

theorem crash_recovers_witness:
  "\<exists>transactionBody. sta_digest first_written = sta_digest (initialState valid_store)
    \<or> (\<exists>ds. recoverTransaction valid_store no_times first_decoder
          \<lparr>dsk_transaction = Some transactionBody, dsk_state = None\<rparr> = Inr ds
         \<and> loadState valid_store no_times first_decoder (last ds) = Inr (first_written, True))"
proof -
  let ?d = "\<lparr>dsk_transaction = None, dsk_state = None\<rparr>"
  obtain transactionBody stateBody where w: "writing valid_store no_times first_decoder ?d (initialState valid_store) False
      first_written transactionBody stateBody" using first_writing by blast
  have "crashed valid_store no_times first_decoder ?d transactionBody stateBody
      \<lparr>dsk_transaction = Some transactionBody, dsk_state = None\<rparr>"
    by (rule crashed.in_write) (simp add: publication_def)
  from crash_recovers [OF w this] show ?thesis by auto
qed

end
