(* ===== verification/State_Candidates.thy ===== *)
theory State_Candidates
  imports State_Grant
begin

text \<open>
  The candidates that Reserve hands to the evaluator (budget_store.go): before a reservation from
  the upkeep of the records, after it from the state with the reservation. Either way a candidate
  is the declaration with its scope, its exact cost and its availability, and after a reservation
  every candidate is available.
\<close>

definition derived :: "action_store \<Rightarrow> tool \<Rightarrow> reserve_request \<Rightarrow> int \<Rightarrow> budget \<Rightarrow> budget_candidate \<Rightarrow> bool" where
  "derived store t inp now b c \<longleftrightarrow>
     bc_budget_id c = bud_id b \<and> bc_reset c = bud_reset b \<and> bc_window_seconds c = bud_window_seconds b
     \<and> bc_limits c = bud_limits b
     \<and> budgetScope store b (tool_id t) inp now = Inr (bc_scope c, bc_lineage_identity c, bc_scope_identity c)
     \<and> bc_generation c = requestGeneration store inp
     \<and> expectedBudgetUsage (bud_limits b) t (rin_request inp) = Some (bc_required c)
     \<and> bc_available c = budgetCapacityAvailable (bc_limits c) (bc_consumed c) (bc_reserved c) (bc_required c)
         (bc_reservation_applied c)
     \<and> bc_reason c = exhaustedReason (bc_available c)"

section \<open>Before the reservation\<close>

lemma upsert_record:
  "upsertBudgetRecord s b scope lineage scopeIdentity generation = Inr (s', r, changed) \<Longrightarrow>
     brc_budget_id r = bud_id b \<and> brc_scope_identity r = scopeIdentity \<and> brc_lineage_identity r = lineage
     \<and> brc_scope r = scope \<and> brc_reset r = bud_reset b \<and> brc_window_seconds r = bud_window_seconds b
     \<and> brc_limits r = bud_limits b \<and> brc_generation r = generation"
  unfolding upsertBudgetRecord_def Let_def by (auto simp: if_Inl_Inr split: sum.splits if_splits)

lemma prepareEach_derived:
  assumes "prepareEach store t inp (requestGeneration store inp) now reservedBy bs s changed cs = Inr (s', changed', cs')"
  obtains ds where "cs' = cs @ ds" and "list_all2 (derived store t inp now) bs ds"
    and "list_all (\<lambda>c. \<not> bc_reservation_applied c) ds"
  using assms
proof (induction bs arbitrary: s changed cs thesis)
  case (Cons b bs)
  obtain scope lineage scopeIdentity s1 r recordChanged changed1 required where
      x: "budgetScope store b (tool_id t) inp now = Inr (scope, lineage, scopeIdentity)"
    and u: "upsertBudgetRecord s b scope lineage scopeIdentity (requestGeneration store inp) = Inr (s1, r, recordChanged)"
    and e: "expectedBudgetUsage (bud_limits b) t (rin_request inp) = Some required"
    and p: "prepareEach store t inp (requestGeneration store inp) now reservedBy bs s1 changed1
        (cs @ [candidateFromRecord r (reservedBy lineage) required False
          (budgetCapacityAvailable (bud_limits b) (brc_consumed r) (reservedBy lineage) required False)
          (exhaustedReason (budgetCapacityAvailable (bud_limits b) (brc_consumed r) (reservedBy lineage) required False))])
        = Inr (s', changed', cs')"
    using Cons.prems(2) by (auto simp: Let_def split: sum.splits prod.splits option.splits)
  let ?c = "candidateFromRecord r (reservedBy lineage) required False
      (budgetCapacityAvailable (bud_limits b) (brc_consumed r) (reservedBy lineage) required False)
      (exhaustedReason (budgetCapacityAvailable (bud_limits b) (brc_consumed r) (reservedBy lineage) required False))"
  have c: "derived store t inp now b ?c" "\<not> bc_reservation_applied ?c"
    using x e upsert_record [OF u] by (simp_all add: derived_def candidateFromRecord_def)
  show ?case
  proof (rule Cons.IH [OF _ p])
    fix ds
    assume "cs' = (cs @ [?c]) @ ds" "list_all2 (derived store t inp now) bs ds"
      "list_all (\<lambda>c. \<not> bc_reservation_applied c) ds"
    then show thesis by (intro Cons.prems(1) [of "?c # ds"]) (simp_all add: c)
  qed
qed simp

lemma prepare_derived:
  assumes "prepareCandidates store s bs t inp (requestGeneration store inp) now = Inr (s1, changed, cs)"
  shows "list_all2 (derived store t inp now) bs cs" and "list_all (\<lambda>c. \<not> bc_reservation_applied c) cs"
proof -
  obtain s0 b0 reservedBy where "prepareEach store t inp (requestGeneration store inp) now reservedBy bs s0 b0 [] = Inr (s1, changed, cs)"
    using assms by (auto simp: prepareCandidates_def split: sum.splits prod.splits)
  then show "list_all2 (derived store t inp now) bs cs" and "list_all (\<lambda>c. \<not> bc_reservation_applied c) cs"
    by (auto elim: prepareEach_derived)
qed

section \<open>After the reservation\<close>

definition reserved_candidate :: "(string \<Rightarrow> budget_usage) \<Rightarrow> budget_candidate \<Rightarrow> budget_candidate" where
  "reserved_candidate reservedBy c =
     (let held = reservedBy (bc_lineage_identity c);
          available = budgetCapacityAvailable (bc_limits c) (bc_consumed c) held (bc_required c) True
      in c\<lparr>bc_reserved := held, bc_reservation_applied := True, bc_available := available,
           bc_reason := exhaustedReason available\<rparr>)"

lemma reserved_derived: "derived store t inp now b c \<Longrightarrow> derived store t inp now b (reserved_candidate reservedBy c)"
  by (simp add: derived_def reserved_candidate_def Let_def)

lemma record_of_lineage: "budgetRecordForLineage rs k = Some r \<Longrightarrow> brc_lineage_identity r = k"
  by (auto simp: budgetRecordForLineage_def find_key_def Let_def split: if_splits)

lemma candidatesEach_reserved:
  assumes "list_all2 (derived store t inp now) bs cs" and "list_all (settled s reservedBefore) cs"
    and "candidatesEach store u t inp (requestGeneration store inp) now reservedBy bs = Inr cs'"
    and "sta_budgets u = sta_budgets s"
  shows "cs' = map (reserved_candidate reservedBy) cs"
  using assms(1,2,3)
proof (induction bs cs arbitrary: cs' rule: list_all2_induct)
  case (Cons b bs c cs)
  obtain r where r: "budgetRecordForLineage (sta_budgets s) (bc_lineage_identity c) = Some r" "brc_limits r = bc_limits c"
    "brc_consumed r = bc_consumed c" "brc_budget_id r = bc_budget_id c" "brc_reset r = bc_reset c"
    "brc_window_seconds r = bc_window_seconds c"
    using Cons.prems(1) by (auto simp: settled_def)
  note l = record_of_lineage [OF r(1)]
  have d: "budgetScope store b (tool_id t) inp now = Inr (bc_scope c, bc_lineage_identity c, bc_scope_identity c)"
    "expectedBudgetUsage (bud_limits b) t (rin_request inp) = Some (bc_required c)" "bc_generation c = requestGeneration store inp"
    using Cons.hyps(1) by (simp_all add: derived_def)
  from Cons.prems(2) obtain cs1 where i: "brc_scope_identity r = bc_scope_identity c" "brc_generation r = requestGeneration store inp"
    and cs1: "candidatesEach store u t inp (requestGeneration store inp) now reservedBy bs = Inr cs1"
    and cs': "cs' = (candidateFromRecord r (reservedBy (bc_lineage_identity c)) (bc_required c) True
        (budgetCapacityAvailable (brc_limits r) (brc_consumed r) (reservedBy (bc_lineage_identity c)) (bc_required c) True)
        (exhaustedReason (budgetCapacityAvailable (brc_limits r) (brc_consumed r) (reservedBy (bc_lineage_identity c))
          (bc_required c) True)))\<lparr>bc_scope := bc_scope c\<rparr> # cs1"
    by (auto simp: d r(1) assms(4) Let_def map_right_Inr if_Inl_Inr split: sum.splits)
  have "cs1 = map (reserved_candidate reservedBy) cs" by (rule Cons.IH [OF _ cs1]) (use Cons.prems(1) in simp)
  moreover have "(candidateFromRecord r held (bc_required c) True a reason)\<lparr>bc_scope := bc_scope c\<rparr>
      = c\<lparr>bc_reserved := held, bc_reservation_applied := True, bc_available := a, bc_reason := reason\<rparr>" for held a reason
    using r i l d(3) by (simp add: candidateFromRecord_def)
  ultimately show ?case using r by (simp add: cs' reserved_candidate_def Let_def)
qed simp

lemma capacity_each:
  "(\<And>d. capacityCheck applied (limit_at d l) (usage_at d consumed) (usage_at d reserved) (usage_at d required)) \<Longrightarrow>
     budgetCapacityAvailable l consumed reserved required applied"
  unfolding budgetCapacityAvailable_def
  by (metis limit_at.simps usage_at.simps)

lemma limit_small: "budgetLimitsBounded l \<Longrightarrow> limit_at d l < max_uint64"
proof -
  assume b: "budgetLimitsBounded l"
  have "limit_at d l \<in> set (limit_list l)" by (cases d) (simp_all add: limit_list_def)
  then have "limit_at d l \<le> 9223372036854775807" using b by (auto simp: budgetLimitsBounded_def list_all_iff)
  then show ?thesis by (rule order.strict_trans1) simp
qed

lemma reserved_available:
  assumes p: "prepareCandidates store s bs t inp (requestGeneration store inp) now = Inr (s1, changed, cs)"
    and "\<not> candidatesExhausted cs" and "newReservation store inp cs now' entropy = Inr r"
    and "lineages_sorted (sta_budgets s)" and "distinct (map bud_id bs)"
    and "list_all (\<lambda>b. budgetLimitsBounded (bud_limits b)) bs"
    and rb: "reservedUsageByLineage (sort_key rsv_identity (sta_reservations s1 @ [r])) = Inr reservedBy"
    and c: "c \<in> set cs"
  shows "bc_available (reserved_candidate reservedBy c)"
proof -
  obtain reservedBefore where before: "reservedUsageByLineage (sta_reservations s) = Inr reservedBefore"
    and cs: "list_all (settled s1 reservedBefore) cs" and d: "distinct (map bc_lineage_identity cs)"
    using prepareCandidates_effect [OF p assms(4,5)] by metis
  let ?k = "bc_lineage_identity c"
  have cap: "budgetCapacityAvailable (bc_limits c) (bc_consumed c) (reservedBefore ?k) (bc_required c) False"
    using cs c assms(2) by (auto simp: list_all_iff settled_def candidatesExhausted_def list_ex_iff)
  have "bc_limits c \<in> set (map bud_limits bs)" using c by (simp flip: prepare_limits [OF p])
  then have bounded: "budgetLimitsBounded (bc_limits c)" using assms(6) by (auto simp: list_all_iff)
  have sum: "unat (usage_at d (reservedBy ?k)) = unat (usage_at d (reservedBefore ?k)) + unat (usage_at d (bc_required c))" for d
    using reservedUsageByLineage_exact [OF rb, of d] reservedUsageByLineage_exact [OF before, of d]
      charge_sum_candidate [OF d c, of d]
    by (simp only: reserved_of_sort prepare_only(1) [OF p] new_charges(1) [OF assms(3)] reserved_of_sum charge_sum_sort sum_list_sort
        map_append sum_list_append list.map sum_list.Cons sum_list.Nil add_0_right)
  have "capacityCheck True (limit_at d (bc_limits c)) (usage_at d (bc_consumed c)) (usage_at d (reservedBy ?k))
      (usage_at d (bc_required c))" for d
    using available_within [OF cap bounded, of d] sum [of d]
    by (auto simp: capacity_check_exact [OF limit_small [OF bounded]] capacity_def split: if_splits)
  then show ?thesis by (simp add: reserved_candidate_def Let_def capacity_each)
qed

section \<open>What is handed out\<close>

fun answered :: "'r outcome \<Rightarrow> 'r option" where
  "answered (Unchanged r) = Some r"
| "answered (Advance s r) = Some r"
| "answered f = None"

lemma answered_check:
  "answered (case c of Some e \<Rightarrow> Refused e | None \<Rightarrow> f) = Some u \<longleftrightarrow> c = None \<and> answered f = Some u"
  by (cases c) simp_all

lemma answered_fail:
  "answered (case r of Inl e \<Rightarrow> Refused (h e) | Inr x \<Rightarrow> f x) = Some u \<longleftrightarrow> (\<exists>x. r = Inr x \<and> answered (f x) = Some u)"
  by (cases r) simp_all

lemma answered_if: "answered (if c then f else g) = Some u \<longleftrightarrow> (if c then answered f = Some u else answered g = Some u)"
  by simp

lemma grant_answer:
  assumes "answered (grantReservation store lib clock entropy s bs t inp cs) = Some f"
  obtains r u cs' where "newReservation store inp cs (clk_time clock) entropy = Inr r"
    and "sta_budgets u = sta_budgets s" and "sta_reservations u = sort_key rsv_identity (sta_reservations s @ [r])"
    and "candidatesFromState store u bs t inp (requestGeneration store inp) (clk_time clock) = Inr cs'"
    and "f = (\<lambda>version. (budgetSnapshot store version (rsv_identity r) cs', Some r))"
proof -
  let ?s = "pruneRetainedHistory lib s (clk_time clock)"
  obtain r where r: "newReservation store inp cs (clk_time clock) entropy = Inr r"
    and a: "answered (let s = applyClock (?s\<lparr>sta_reservations := sort_key rsv_identity (sta_reservations ?s @ [r])\<rparr>) clock
      in case candidatesFromState store s bs t inp (requestGeneration store inp) (clk_time clock) of
           Inl e \<Rightarrow> AdvanceThen s (\<lambda>version. (noBudgetSnapshot, None)) e
         | Inr candidates \<Rightarrow> Advance s (\<lambda>version. (budgetSnapshot store version (rsv_identity r) candidates, Some r))) = Some f"
    using assms unfolding grantReservation_def by (auto simp only: Let_def answered_fail answered_if answered.simps split: if_splits)
  let ?u = "applyClock (?s\<lparr>sta_reservations := sort_key rsv_identity (sta_reservations ?s @ [r])\<rparr>) clock"
  obtain cs' where "candidatesFromState store ?u bs t inp (requestGeneration store inp) (clk_time clock) = Inr cs'"
    "f = (\<lambda>version. (budgetSnapshot store version (rsv_identity r) cs', Some r))"
    using a by (auto simp: Let_def split: sum.splits)
  then show thesis by (intro that [OF r, of ?u]) (simp_all add: applyClock_def)
qed

text \<open>The first answer to a call: without budgets, exhausted, or with a reservation.\<close>

lemma reserve_answer:
  assumes "answered (reserveLocked store lib obs entropy s inp) = Some f"
    and none: "reservationForCall (sta_reservations s) (req_call_id (rin_request inp)) = None"
  obtains t bs where "validateReserveRequest store obs inp = None" and "BudgetContract (rin_plan inp) (rin_request inp) = Inr (t, bs)"
    and "bs = [] \<and> f = (\<lambda>version. (absentBudgetSnapshot version, None))
      \<or> bs \<noteq> [] \<and> (\<exists>clock s1 changed cs. trustedNow obs s = Inr clock
          \<and> prepareCandidates store s bs t inp (requestGeneration store inp) (clk_time clock) = Inr (s1, changed, cs)
          \<and> (if candidatesExhausted cs then f = (\<lambda>version. (budgetSnapshot store version ''absent'' cs, None))
             else answered (grantReservation store lib clock entropy s1 bs t inp cs) = Some f))"
proof -
  obtain t bs where v: "validateReserveRequest store obs inp = None"
    and b: "BudgetContract (rin_plan inp) (rin_request inp) = Inr (t, bs)"
    and a: "if bs = [] then f = (\<lambda>version. (absentBudgetSnapshot version, None))
      else \<exists>clock. trustedNow obs s = Inr clock
        \<and> (\<exists>s1 changed cs. prepareCandidates store s bs t inp (requestGeneration store inp) (clk_time clock) = Inr (s1, changed, cs)
          \<and> (if candidatesExhausted cs then f = (\<lambda>version. (budgetSnapshot store version ''absent'' cs, None))
             else answered (grantReservation store lib clock entropy s1 bs t inp cs) = Some f))"
    using assms(1) unfolding reserveLocked_def Let_def none
    by (simp only: answered_check answered_fail answered_if answered.simps option.case case_prod_beta option.distinct
        option.inject simp_thms split_paired_Ex fst_conv snd_conv if_cancel) (fastforce simp: if_bool_eq_conj)
  show thesis by (rule that [OF v b]) (use a in \<open>auto split: if_splits\<close>)
qed

end
