(* ===== verification/Spec2Isabelle.thy ===== *)
theory Spec2Isabelle
  imports Action_Binding State_Booking State_Safety State_Recovery Gateway_Call
begin

text \<open>
  A development of the policy evaluator and of the budget store of this repository: package action
  (src/internal/action), which decides whether an action of an agent is allowed, and package
  actionstate (src/internal/actionstate), which keeps the budgets, reservations and finished calls
  behind those decisions, with the validation of approval requests of package actionapproval and the
  path of a call from the store to the evaluator in package mcpgateway.

  How the program works. A policy is compiled into a plan: tools, rules with conditions, budgets and
  inspection detectors. A call enters as a request of one phase (before the call, after the result,
  progress, observation). The store reserves the budgets that the plan declares for a call and hands
  out a snapshot; the evaluator takes the request, the snapshot and the other evidence, normalizes
  them, evaluates the rules whose selectors match, and returns a decision with a bounded trace; a
  result that depends only on settled evidence may be cached. The caller then dispatches, settles,
  releases or abandons the reservation, and every such transition writes a new state with a digest
  that the next request must name. An error on the way blocks the call.

  The theories, in the order of the calls.

  Go_Prelude, Go_Strings, Go_Json and Go_Digest hold what the code uses of Go: 64-bit counters,
  sort.Search as a binary search with a locale of tables sorted by a key, strings as bytes with
  UTF-8 decoding, splitting and trimming, encoding/json with its escapes, SHA-256. Action_Types,
  Action_Plan and Action_Request are the records and enumerations of types.go and
  evaluator_types.go; a string-valued enumeration is a datatype with a constructor for every other
  string, so the validity checks of the code are definitions and not types.

  Action_Decimal and Action_Value are value.go: canonical decimals, JSON values, their exact encoded
  size and their bytes. Action_Identity is the identity contract of plan.go and predicate.go
  (labels, keyed and plain identities, the tool index). Action_Pointer is the JSON Pointer code,
  Action_Control the interruption of an evaluation, Action_Glob the compiled glob and its matcher,
  Action_Targets the URL, CIDR and path targets, Action_Predicate and Action_Condition the
  predicates and the condition trees (predicate_eval.go, condition_eval.go).

  Action_Normalize is the validation of requests, Action_Budget of budget snapshots,
  Action_Inspection of inspection evidence. Action_Encode is the JSON of what is digested,
  Action_Trace the bounded trace, Action_Evaluator the evaluation itself (evaluator.go),
  Action_Decision its specification, Action_Cache the decision cache, Action_Binding the key of the
  cache.

  State_Identity is the keyed identities and HMAC-SHA-256 (identity.go), State_Call_Identity the
  self-dated call identities (call_identity.go), State_Usage the persisted records and counters
  (budget_types.go, state_clone.go), State_Charges the loops over the charges of a reservation
  (budget_transition.go, budget_events.go), State_Transition the operations on a live reservation
  (dispatch, release, settlement, reconciliation, abandonment, denial), State_Booking what each of
  them books, State_Context the operator context, the policy authority and the observation of a
  server (context.go, identity.go), Approval_Request the contract of an approval request
  (actionapproval), State_Contract the contract of a stored state (state_validate.go),
  State_Retention pruning and the migration of the first format (retained_history.go), State_Store
  the encoded state, its digest and what a write publishes (store.go), State_Reserve the whole of
  Reserve (budget_store.go), State_Safety the runs of a store, State_Grant a reservation worked out
  from an empty store, State_Recovery the two files of a store, a state and the transaction of a
  write under way, with the recovery after a crash (store.go), and State_Candidates what a candidate
  of Reserve is made of. Gateway_Call is the seam of the two packages: what the gateway asks of
  Reserve and the input of the evaluator that it builds from the answer (mcpgateway/call.go,
  mcpgateway/request.go).

  Every other definition has the name of its Go function or type, with a prefix where the name is
  taken (operator_Validate is OperatorContext.Validate); the fields of a record have the prefix of
  their record. A loop is a recursive function named after what it computes. A method that changes
  its receiver returns the new value. An error is a value: Inl with a reason and a message, or None
  where the code only tests for an error. An operation of the store returns an outcome: refused,
  refused but with the clock observation written, unchanged, advanced to a state, or advanced with
  an error reported after the write.

  What the lemmas show. The data: decimals and values are canonical, parsing inverts printing, the
  size pass is exact, two values with the same bytes are equal, compiled pointers are the RFC 6901
  texts and select what the reference resolver selects, a reported glob match is in the language of
  the glob, a path prefix is the order on segments within a volume. Conditions: the three-valued
  evaluation with its memo, its interruption and its skipping of decided children is strong Kleene
  logic, a settled answer rests on the required provenance, and the first poll that fires ends an
  evaluation, whose result is then that stop, wherever in the tree, the skipped children or the glob
  matcher it fires. The evaluator: it refines a specification that names exactly the candidates, in
  order of strength; it fails closed; its trace is bounded; a result is cacheable only when all that
  it depends on is settled; the key of the cache covers the input and a cache hit is what the
  evaluation would return, short of a collision of SHA-256. The store: a state that it accepts is
  well-formed and every transition keeps it so; a transition books exactly what it is for, in every
  lineage and dimension, and its advances are at most three per reservation; the evaluator accepts
  every first answer of Reserve as the gateway presents it; a reservation charges every declared
  budget once and holds every limit, in true natural numbers; and a call is reserved at most once in
  the life of a store, whatever operations of whatever owners interleave and whatever history is
  pruned. A crash in a write or in a recovery leaves, after the next recovery, the state before the
  write or the state after it, short of a collision of their digests. Each property has a witness
  when it has a hypothesis: the property applied to a concrete input.

  Bounds. int is 64 bits wide (the supported platforms); counters are words of their width and
  saturation, overflow and the comparison with a limit are those of the words. Timestamps are
  mathematical integers in nanoseconds: the code stores int64 nanoseconds, which cover the years
  1678 to 2262, and the model does not wrap beyond them. No definition needs fuel: every recursion
  is structural or has a measure. An evaluation that can be interrupted carries the list of what its
  polls of the clock and of the caller will observe, and the properties hold for every such list.

  What is identified. A nil and an empty slice are one value except where the evaluator tells them
  apart (the candidates of a snapshot); the checks of the store that a decoded list is explicit are
  therefore not visible, and neither are nil receivers and pointers. sort.Slice is a stable sort,
  which differs only on elements with equal keys, that the code rejects next or never compares. Go
  maps are functions or association lists and their iteration order is shown immaterial or is over
  disjoint entries that fail with one error. A wrapped cause of an error is dropped; the reason and
  the message are kept. A formatted message keeps the formatted name apart from its text.

  Parameters. The URL, address and regular-expression parsers and Unicode lower case are the fields
  of a record; so are the parsing and printing of RFC 3339 timestamps, and the strict decoder of
  encoding/json for the two files of the store. Only the property on crashes assumes a law of the
  decoder: it reads back the state and the transaction of the write at hand. Only the property on
  path constraints assumes one of lower case, and only where case is folded: it works rune by rune,
  so it keeps the separators of a path. A file is published in one step and the steps reach the disk
  in their order. What the operating system answers is an argument of the definition that asks: the
  clock reading, the resolved repository, random bytes, the resolved executable and its contents,
  the working directory and its object. Environment names are those of a platform other than
  Windows. A lock of the store is taken around each operation, so an operation is one step from the
  stored state to the written one.

  Not modelled. Files: permissions, key files, leases, locks and how a file is replaced in one step
  are operating-system calls around the definitions here. Issuing and consuming approvals, receipts,
  signatures and registries (approval.go, approval_registry.go, the rest of actionapproval); only
  what a stored state must satisfy of them is. The compilers of plans, globs and regular expressions
  and the raw request parser, which drive tokenizers: the model starts from what they produce.
  Detectors, the evidence ledger, the gateway beyond the input of an evaluation before a call, the
  policy pipeline over files, the runtime and its agent sessions, the task lifecycle, the command
  line, the hooks and the bootstrap of a repository are other programs of this repository, around
  file systems, processes and generated configuration.
\<close>

end
